(* ===== verification/Py_Prelude.thy ===== *)
theory Py_Prelude
  imports Main "HOL-Library.Word" "HOL-Library.List_Lexorder"
begin

text \<open>
  What the components share: Python values, Python strings as lists of code points,
  exceptions as values of a sum type, and generic lemmas on association lists.

  A Python \<open>str\<close> is the list of its code points (\<open>pystr\<close>), so that lone surrogates and
  characters beyond Latin-1 exist in the model as they do in the program. A literal of
  the source is written \<open>lit ''...''\<close>. Python values are \<open>pyval\<close>: \<open>PFloat\<close> is a finite
  float, given by its \<open>repr\<close> and its integer part; \<open>PObj\<close> stands for every object that is neither
  a JSON type nor a tuple (a set, an instance, a NaN); its argument is the text \<open>str()\<close> gives for
  it. A float as a dictionary key is outside the model.
\<close>

section \<open>Strings\<close>

type_synonym pystr = "nat list"

type_synonym bytes = "8 word list"

definition lit :: "string \<Rightarrow> pystr" where
  "lit s = map of_char s"

lemma lit_inj [simp]: "lit a = lit b \<longleftrightarrow> a = b"
  by (auto simp: lit_def inj_on_def intro: map_inj_on)

lemma lit_Nil_iff [simp]: "lit s = [] \<longleftrightarrow> s = []" "[] = lit s \<longleftrightarrow> s = []"
  by (auto simp: lit_def)

lemma length_lit [simp]: "length (lit s) = length s"
  by (simp add: lit_def)

text \<open>The characters \<open>str.isspace\<close> accepts, which \<open>str.strip()\<close> removes.\<close>

definition is_space :: "nat \<Rightarrow> bool" where
  "is_space c \<longleftrightarrow> (9 \<le> c \<and> c \<le> 13) \<or> (28 \<le> c \<and> c \<le> 32) \<or> c = 133 \<or> c = 160 \<or> c = 5760
     \<or> (8192 \<le> c \<and> c \<le> 8202) \<or> c = 8232 \<or> c = 8233 \<or> c = 8239 \<or> c = 8287 \<or> c = 12288"

definition py_lstrip :: "pystr \<Rightarrow> pystr" where
  "py_lstrip s = dropWhile is_space s"

definition py_strip :: "pystr \<Rightarrow> pystr" where
  "py_strip s = rev (dropWhile is_space (rev (py_lstrip s)))"

text \<open>
  \<open>str.lower()\<close>. ASCII and Latin-1 letters and the Kelvin sign (the one character outside
  ASCII whose lower case is ASCII) are mapped; other characters are kept. Every use in the
  modelled code is followed by a comparison with, or a pattern over, ASCII characters, which
  refuses a string with any other character both before and after lowering it.
\<close>

definition lower_char :: "nat \<Rightarrow> nat" where
  "lower_char c = (if 65 \<le> c \<and> c \<le> 90 then c + 32
     else if 192 \<le> c \<and> c \<le> 222 \<and> c \<noteq> 215 then c + 32
     else if c = 8490 then 107 else c)"

definition py_lower :: "pystr \<Rightarrow> pystr" where
  "py_lower s = map lower_char s"

lemma lower_char_idem [simp]: "lower_char (lower_char c) = lower_char c"
  by (auto simp: lower_char_def)

lemma py_lower_idem [simp]: "py_lower (py_lower s) = py_lower s"
  by (simp add: py_lower_def)

lemma length_py_lower [simp]: "length (py_lower s) = length s"
  by (simp add: py_lower_def)

lemma set_py_strip: "set (py_strip s) \<subseteq> set s"
proof -
  have "set (py_strip s) \<subseteq> set (py_lstrip s)"
    using set_dropWhileD [of _ is_space "rev (py_lstrip s)"] by (auto simp: py_strip_def)
  then show ?thesis
    using set_dropWhileD [of _ is_space s] by (auto simp: py_lstrip_def)
qed

lemma py_strip_no_space: "(\<forall>c \<in> set s. \<not> is_space c) \<Longrightarrow> py_strip s = s"
proof -
  assume a: "\<forall>c \<in> set s. \<not> is_space c"
  have "dropWhile is_space xs = xs" if "\<forall>c \<in> set xs. \<not> is_space c" for xs
    using that by (cases xs) auto
  from this [of s] this [of "rev s"] a show ?thesis by (simp add: py_strip_def py_lstrip_def)
qed

lemma dropWhile_idem [simp]: "dropWhile P (dropWhile P xs) = dropWhile P xs"
  by (induction xs) auto

lemma dropWhile_hd_keep: "xs = [] \<or> \<not> P (hd xs) \<Longrightarrow> dropWhile P xs = xs"
  by (cases xs) auto

lemma dropWhile_rev_dropWhile:
  "dropWhile P (rev (dropWhile P (rev (dropWhile P xs)))) = rev (dropWhile P (rev (dropWhile P xs)))"
proof (rule dropWhile_hd_keep)
  let ?d = "dropWhile P xs"
  have split: "?d = rev (dropWhile P (rev ?d)) @ rev (takeWhile P (rev ?d))"
    by (metis rev_append rev_rev_ident takeWhile_dropWhile_id)
  show "rev (dropWhile P (rev ?d)) = [] \<or> \<not> P (hd (rev (dropWhile P (rev ?d))))"
  proof (cases "rev (dropWhile P (rev ?d))")
    case (Cons y ys)
    with split have "?d = y # ys @ rev (takeWhile P (rev ?d))" by simp
    then have "\<not> P y" by (metis hd_dropWhile list.distinct(1) list.sel(1))
    with Cons show ?thesis by simp
  qed simp
qed

lemma py_strip_idem [simp]: "py_strip (py_strip s) = py_strip s"
  by (simp add: py_strip_def py_lstrip_def dropWhile_rev_dropWhile)

section \<open>Values\<close>

datatype pyval =
    PNone
  | PBool bool
  | PInt int
  | PStr pystr
  | PList "pyval list"
  | PTuple "pyval list"
  | PDict "(pyval \<times> pyval) list"
  | PFloat pystr int
  | PObj pystr

type_synonym pydict = "(pyval \<times> pyval) list"

text \<open>A dictionary display whose keys are string literals.\<close>

definition obj :: "(string \<times> pyval) list \<Rightarrow> pyval" where
  "obj kvs = PDict (map (\<lambda>(k, v). (PStr (lit k), v)) kvs)"

definition dget :: "pydict \<Rightarrow> string \<Rightarrow> pyval option" where
  "dget d k = map_of d (PStr (lit k))"

text \<open>\<open>d.get(k, default)\<close>\<close>

definition dget_or :: "pydict \<Rightarrow> string \<Rightarrow> pyval \<Rightarrow> pyval" where
  "dget_or d k x = (case dget d k of None \<Rightarrow> x | Some v \<Rightarrow> v)"

definition dkeys :: "pydict \<Rightarrow> pyval set" where
  "dkeys d = fst ` set d"

definition lits :: "string list \<Rightarrow> pyval set" where
  "lits ks = (\<lambda>k. PStr (lit k)) ` set ks"

lemma dget_map_obj [simp]:
  "dget (map (\<lambda>(k, v). (PStr (lit k), v)) kvs) k = map_of kvs k"
  by (induction kvs) (auto simp: dget_def)

lemma dkeys_obj [simp]:
  "dkeys (map (\<lambda>(k, v). (PStr (lit k), v)) kvs) = lits (map fst kvs)"
  by (force simp: dkeys_def lits_def)

text \<open>Truth of a value: \<open>None\<close>, \<open>False\<close>, \<open>0\<close> and empty containers are false.\<close>

fun truthy :: "pyval \<Rightarrow> bool" where
  "truthy PNone = False"
| "truthy (PBool b) = b"
| "truthy (PInt i) = (i \<noteq> 0)"
| "truthy (PStr s) = (s \<noteq> [])"
| "truthy (PList xs) = (xs \<noteq> [])"
| "truthy (PTuple xs) = (xs \<noteq> [])"
| "truthy (PDict d) = (d \<noteq> [])"
| "truthy (PFloat t _) = (t \<notin> {lit ''0.0'', lit ''-0.0''})"
| "truthy (PObj _) = True"

fun is_int :: "pyval \<Rightarrow> bool" where
  "is_int (PInt _) = True" | "is_int _ = False"

fun seq_of :: "pyval \<Rightarrow> pyval list option" where
  "seq_of (PList xs) = Some xs" | "seq_of (PTuple xs) = Some xs" | "seq_of _ = None"

fun dict_of :: "pyval \<Rightarrow> pydict option" where
  "dict_of (PDict d) = Some d" | "dict_of _ = None"

lemma is_int_iff: "is_int v \<longleftrightarrow> (\<exists>i. v = PInt i)"
  by (cases v) auto

lemma dict_of_Some [simp]: "dict_of v = Some d \<longleftrightarrow> v = PDict d"
  by (cases v) auto

section \<open>Exceptions as values\<close>

text \<open>
  One constructor per exception class the modelled code raises or catches, with the reason
  the source passes to it. \<open>Unhandled\<close> names an exception of the language itself.
\<close>

datatype exn =
    WireRefused string
  | DecisionRefused string
  | ParticipantAnswerRefused string
  | InvocationPolicyRecordError string
  | InvocationPolicyStorageError string
  | InvocationPolicyConflict string int "pystr option"
  | DurableStorageError string
  | DurableDecodeError string
  | OneTimeStateError string
  | CardStorageError string
  | AccountFenceRefused string
  | CardTransactionRefused string
  | CardConflict string
  | CardMutationLockTimeout
  | JSONDecodeError
  | UnicodeError
  | ValueError string
  | TypeError
  | KeyError
  | AttributeError
  | RuntimeError string
  | RelayRetryable pystr
  | OverflowError
  | LookupError
  | Cancelled
  | TimeoutError
  | OSError
  | RedisError
  | RedisUnavailable
  | DatabaseError
  | OutOfFuel

definition bindE :: "'e + 'a \<Rightarrow> ('a \<Rightarrow> 'e + 'b) \<Rightarrow> 'e + 'b" where
  "bindE m f = (case m of Inl e \<Rightarrow> Inl e | Inr x \<Rightarrow> f x)"

definition requireE :: "bool \<Rightarrow> 'e \<Rightarrow> 'e + unit" where
  "requireE b e = (if b then Inr () else Inl e)"

lemma bindE_simps [simp]: "bindE (Inl e) f = Inl e" "bindE (Inr x) f = f x"
  by (simp_all add: bindE_def)

lemma requireE_simps [simp]: "requireE True e = Inr ()" "requireE False e = Inl e"
  by (simp_all add: requireE_def)

lemma bindE_eq_Inr [simp]: "bindE m f = Inr y \<longleftrightarrow> (\<exists>x. m = Inr x \<and> f x = Inr y)"
  by (cases m) auto

lemma bindE_eq_Inl: "bindE m f = Inl e \<longleftrightarrow> m = Inl e \<or> (\<exists>x. m = Inr x \<and> f x = Inl e)"
  by (cases m) auto

lemma requireE_eq_Inr [simp]: "requireE b e = Inr u \<longleftrightarrow> b"
  by (cases b) (auto simp: requireE_def)

lemma requireE_eq_Inl [simp]: "requireE b e = Inl e' \<longleftrightarrow> \<not> b \<and> e' = e"
  by (cases b) (auto simp: requireE_def)

lemma bindE_requireE: "bindE (requireE b e) f = (if b then f () else Inl e)"
  by (simp add: requireE_def)

lemma bindE_cong [fundef_cong]:
  "m = m' \<Longrightarrow> (\<And>x. m' = Inr x \<Longrightarrow> f x = f' x) \<Longrightarrow> bindE m f = bindE m' f'"
  by (cases m') auto

lemma bindE_assoc: "bindE (bindE m f) g = bindE m (\<lambda>x. bindE (f x) g)"
  by (cases m) auto

definition is_ok :: "'e + 'a \<Rightarrow> bool" where
  "is_ok r = (case r of Inl _ \<Rightarrow> False | Inr _ \<Rightarrow> True)"

lemma is_ok_simps [simp]: "is_ok (Inl e) = False" "is_ok (Inr x) = True"
  by (simp_all add: is_ok_def)

section \<open>Stateful code\<close>

text \<open>
  An operation on a state: it returns the new state with a value or an exception. State
  changes made before an exception stay, as in the program.
\<close>

type_synonym ('s, 'a) action = "'s \<Rightarrow> 's \<times> (exn + 'a)"

definition bindS :: "('s, 'a) action \<Rightarrow> ('a \<Rightarrow> ('s, 'b) action) \<Rightarrow> ('s, 'b) action" where
  "bindS m f = (\<lambda>s. case m s of (s', Inl e) \<Rightarrow> (s', Inl e) | (s', Inr x) \<Rightarrow> f x s')"

definition retS :: "'a \<Rightarrow> ('s, 'a) action" where
  "retS x = (\<lambda>s. (s, Inr x))"

definition liftS :: "exn + 'a \<Rightarrow> ('s, 'a) action" where
  "liftS r = (\<lambda>s. (s, r))"

definition failS :: "exn \<Rightarrow> ('s, 'a) action" where
  "failS e = (\<lambda>s. (s, Inl e))"

lemma action_simps [simp]: "retS x s = (s, Inr x)" "liftS r s = (s, r)" "failS e s = (s, Inl e)"
  by (simp_all add: retS_def liftS_def failS_def)

lemma bindS_eq_Inr:
  "bindS m f s = (s', Inr y) \<longleftrightarrow> (\<exists>s1 x. m s = (s1, Inr x) \<and> f x s1 = (s', Inr y))"
  by (auto simp: bindS_def split: prod.splits sum.splits)

lemma bindS_eq_Inl:
  "bindS m f s = (s', Inl e) \<longleftrightarrow> m s = (s', Inl e) \<or> (\<exists>s1 x. m s = (s1, Inr x) \<and> f x s1 = (s', Inl e))"
  by (auto simp: bindS_def split: prod.splits sum.splits)

lemma bindS_cases:
  assumes "bindS m f s = (s', r)"
  obtains e where "m s = (s', Inl e)" "r = Inl e" | s1 x where "m s = (s1, Inr x)" "f x s1 = (s', r)"
  using assms by (auto simp: bindS_def split: prod.splits sum.splits)

lemma bindS_run [simp]:
  "m s = (s1, Inr x) \<Longrightarrow> bindS m f s = f x s1"
  "m s = (s1, Inl e) \<Longrightarrow> bindS m f s = (s1, Inl e)"
  by (simp_all add: bindS_def)

section \<open>Association lists with one entry per key\<close>

text \<open>\<open>d[k] = v\<close>: an existing key keeps its place.\<close>

fun dict_set :: "'k \<Rightarrow> 'v \<Rightarrow> ('k \<times> 'v) list \<Rightarrow> ('k \<times> 'v) list" where
  "dict_set k v [] = [(k, v)]"
| "dict_set k v ((k', v') # al) = (if k' = k then (k, v) # al else (k', v') # dict_set k v al)"

lemma map_of_dict_set [simp]: "map_of (dict_set k v al) = (map_of al)(k \<mapsto> v)"
  by (induction al) auto

lemma dict_set_keys [simp]: "fst ` set (dict_set k v al) = insert k (fst ` set al)"
proof (induction al)
  case (Cons kv al)
  then show ?case by (cases kv) (simp, blast)
qed simp

lemma distinct_dict_set: "distinct (map fst al) \<Longrightarrow> distinct (map fst (dict_set k v al))"
proof (induction al)
  case (Cons kv al)
  then show ?case by (cases kv) auto
qed simp

lemma set_dict_set: "x \<in> set (dict_set k v al) \<Longrightarrow> x = (k, v) \<or> x \<in> set al"
  by (induction al) (auto split: if_splits)

lemma dict_set_fresh: "k \<notin> fst ` set al \<Longrightarrow> dict_set k v al = al @ [(k, v)]"
  by (induction al) auto

definition keys_of :: "('k \<times> 'v) list \<Rightarrow> 'k list" where
  "keys_of al = map fst al"

lemma map_of_snoc:
  "map_of (al @ [(k, v)]) = (if k \<in> fst ` set al then map_of al else (map_of al)(k \<mapsto> v))"
  by (induction al) auto

section \<open>Hexadecimal text\<close>

definition is_digit_char :: "nat \<Rightarrow> bool" where
  "is_digit_char c \<longleftrightarrow> 48 \<le> c \<and> c \<le> 57"

definition is_lower_hex :: "nat \<Rightarrow> bool" where
  "is_lower_hex c \<longleftrightarrow> is_digit_char c \<or> (97 \<le> c \<and> c \<le> 102)"

text \<open>The pattern \<open>[0-9a-f]{64}\<close>, matched against the whole string.\<close>

definition is_alnum :: "nat \<Rightarrow> bool" where
  "is_alnum c \<longleftrightarrow> is_digit_char c \<or> (65 \<le> c \<and> c \<le> 90) \<or> (97 \<le> c \<and> c \<le> 122)"

definition is_digest :: "pystr \<Rightarrow> bool" where
  "is_digest s \<longleftrightarrow> length s = 64 \<and> (\<forall>c \<in> set s. is_lower_hex c)"

definition hex_char :: "nat \<Rightarrow> nat" where
  "hex_char n = (if n < 10 then 48 + n else 87 + n)"

lemma hex_char_lower: "n < 16 \<Longrightarrow> is_lower_hex (hex_char n)"
  by (auto simp: hex_char_def is_lower_hex_def is_digit_char_def)

lemma is_digest_nonempty: "is_digest s \<Longrightarrow> s \<noteq> []"
  by (auto simp: is_digest_def)

lemma lower_hex_not_space: "is_lower_hex c \<Longrightarrow> \<not> is_space c"
  by (auto simp: is_lower_hex_def is_digit_char_def is_space_def)

lemma lower_hex_lower: "is_lower_hex c \<Longrightarrow> lower_char c = c"
  by (auto simp: is_lower_hex_def is_digit_char_def lower_char_def)

lemma digest_strip: "is_digest s \<Longrightarrow> py_strip s = s"
  by (rule py_strip_no_space) (auto simp: is_digest_def lower_hex_not_space)

lemma digest_lower: "is_digest s \<Longrightarrow> py_lower s = s"
  by (auto simp: is_digest_def py_lower_def lower_hex_lower intro: map_idI)

section \<open>Histories\<close>

text \<open>Steps that move a state forward in an order do so in every history.\<close>

locale forward_steps =
  fixes step :: "'r \<Rightarrow> 's \<Rightarrow> 's" and le :: "'s \<Rightarrow> 's \<Rightarrow> bool" and fine :: "'r \<Rightarrow> bool"
  assumes refl: "le s s" and trans: "le s t \<Longrightarrow> le t u \<Longrightarrow> le s u" and forward: "fine r \<Longrightarrow> le s (step r s)"
begin

lemma history_forward: "\<forall>r \<in> set rs. fine r \<Longrightarrow> le s (fold step rs s)"
  by (induction rs arbitrary: s) (auto simp: refl intro: trans forward)

end

end
