(* ===== verification/Sha256.thy ===== *)
theory Sha256
  imports Py_Prelude
begin

text \<open>
  The standard library's \<open>hashlib.sha256\<close> and \<open>hmac.new(key, msg, sha256)\<close> as executable
  functions on bytes, with the one fact the components use of them: a hexadecimal digest is
  always 64 lower-case hexadecimal characters.
\<close>

unbundle bit_operations_syntax

section \<open>SHA-256\<close>

primrec cbrt_bits :: "nat \<Rightarrow> nat \<Rightarrow> nat \<Rightarrow> nat" where
  "cbrt_bits 0 r n = r"
| "cbrt_bits (Suc b) r n = cbrt_bits b (if (r + 2 ^ b) ^ 3 \<le> n then r + 2 ^ b else r) n"

definition sha_primes :: "nat list" where
  "sha_primes = filter (\<lambda>n. list_all (\<lambda>d. n mod d \<noteq> 0) [2..<n]) [2..<312]"

text \<open>The first 32 bits of the fractional parts of the cube roots of the first 64 primes.\<close>

definition sha_k :: "32 word list" where
  "sha_k = map (\<lambda>p. word_of_nat (cbrt_bits 36 0 (p * 2 ^ 96))) sha_primes"

datatype sha_state = ShaState "32 word" "32 word" "32 word" "32 word" "32 word" "32 word" "32 word" "32 word"

definition sha_init :: sha_state where
  "sha_init = ShaState 0x6a09e667 0xbb67ae85 0x3c6ef372 0xa54ff53a 0x510e527f 0x9b05688c 0x1f83d9ab 0x5be0cd19"

definition sha_small0 :: "32 word \<Rightarrow> 32 word" where
  "sha_small0 x = (word_rotr 7 x XOR word_rotr 18 x) XOR drop_bit 3 x"

definition sha_small1 :: "32 word \<Rightarrow> 32 word" where
  "sha_small1 x = (word_rotr 17 x XOR word_rotr 19 x) XOR drop_bit 10 x"

definition sha_big0 :: "32 word \<Rightarrow> 32 word" where
  "sha_big0 x = (word_rotr 2 x XOR word_rotr 13 x) XOR word_rotr 22 x"

definition sha_big1 :: "32 word \<Rightarrow> 32 word" where
  "sha_big1 x = (word_rotr 6 x XOR word_rotr 11 x) XOR word_rotr 25 x"

text \<open>The message schedule: \<open>n\<close> further words after the first sixteen.\<close>

fun sha_extend :: "nat \<Rightarrow> 32 word list \<Rightarrow> 32 word list" where
  "sha_extend 0 w = w"
| "sha_extend (Suc n) w = sha_extend n
     (w @ [sha_small1 (w ! (length w - 2)) + w ! (length w - 7)
           + sha_small0 (w ! (length w - 15)) + w ! (length w - 16)])"

fun sha_round :: "32 word \<times> 32 word \<Rightarrow> sha_state \<Rightarrow> sha_state" where
  "sha_round (k, w) (ShaState a b c d e f g h) =
     (let t1 = h + sha_big1 e + ((e AND f) XOR ((NOT e) AND g)) + k + w;
          t2 = sha_big0 a + ((a AND b) XOR (a AND c) XOR (b AND c))
      in ShaState (t1 + t2) a b c (d + t1) e f g)"

fun sha_add :: "sha_state \<Rightarrow> sha_state \<Rightarrow> sha_state" where
  "sha_add (ShaState a b c d e f g h) (ShaState a' b' c' d' e' f' g' h') =
     ShaState (a + a') (b + b') (c + c') (d + d') (e + e') (f + f') (g + g') (h + h')"

fun bytes_to_words :: "bytes \<Rightarrow> 32 word list" where
  "bytes_to_words (a # b # c # d # r) =
     word_of_nat (unat a * 2 ^ 24 + unat b * 2 ^ 16 + unat c * 2 ^ 8 + unat d) # bytes_to_words r"
| "bytes_to_words _ = []"

definition sha_compress :: "sha_state \<Rightarrow> bytes \<Rightarrow> sha_state" where
  "sha_compress h block = sha_add h (fold sha_round (zip sha_k (sha_extend 48 (bytes_to_words block))) h)"

fun sha_blocks :: "sha_state \<Rightarrow> bytes \<Rightarrow> sha_state" where
  "sha_blocks h bs = (if length bs < 64 then h else sha_blocks (sha_compress h (take 64 bs)) (drop 64 bs))"

declare sha_blocks.simps [simp del]

definition be64 :: "nat \<Rightarrow> bytes" where
  "be64 n = map (\<lambda>i. word_of_nat (n div 256 ^ i)) [7, 6, 5, 4, 3, 2, 1, 0]"

definition sha_pad :: "bytes \<Rightarrow> bytes" where
  "sha_pad m = m @ 0x80 # replicate ((119 - length m mod 64) mod 64) 0 @ be64 (8 * length m)"

definition sha256_state :: "bytes \<Rightarrow> sha_state" where
  "sha256_state m = sha_blocks sha_init (sha_pad m)"

fun sha_words :: "sha_state \<Rightarrow> 32 word list" where
  "sha_words (ShaState a b c d e f g h) = [a, b, c, d, e, f, g, h]"

definition word_hex :: "32 word \<Rightarrow> pystr" where
  "word_hex w = map (\<lambda>i. hex_char (unat w div 16 ^ i mod 16)) [7, 6, 5, 4, 3, 2, 1, 0]"

definition word_bytes :: "32 word \<Rightarrow> bytes" where
  "word_bytes w = map (\<lambda>i. word_of_nat (unat w div 256 ^ i)) [3, 2, 1, 0]"

text \<open>\<open>hashlib.sha256(data).digest()\<close> and \<open>.hexdigest()\<close>\<close>

definition sha256_digest :: "bytes \<Rightarrow> bytes" where
  "sha256_digest m = concat (map word_bytes (sha_words (sha256_state m)))"

definition sha256_hexdigest :: "bytes \<Rightarrow> pystr" where
  "sha256_hexdigest m = concat (map word_hex (sha_words (sha256_state m)))"

section \<open>HMAC-SHA256\<close>

definition hmac_key :: "bytes \<Rightarrow> bytes" where
  "hmac_key key = (let k = (if 64 < length key then sha256_digest key else key)
     in k @ replicate (64 - length k) 0)"

text \<open>\<open>hmac.new(key, msg, hashlib.sha256).digest()\<close>\<close>

definition hmac_sha256 :: "bytes \<Rightarrow> bytes \<Rightarrow> bytes" where
  "hmac_sha256 key msg =
     (let k = hmac_key key
      in sha256_digest (map (\<lambda>b. b XOR 0x5c) k @ sha256_digest (map (\<lambda>b. b XOR 0x36) k @ msg)))"

section \<open>The shape of a digest\<close>

lemma word_hex_shape: "length (word_hex w) = 8" "c \<in> set (word_hex w) \<Longrightarrow> is_lower_hex c"
  by (auto simp: word_hex_def intro!: hex_char_lower)

lemma sha256_hexdigest_is_digest [simp]: "is_digest (sha256_hexdigest m)"
proof (cases "sha256_state m")
  case (ShaState a b c d e f g h)
  then show ?thesis
    by (auto simp: is_digest_def sha256_hexdigest_def word_hex_shape)
qed

lemma length_sha256_digest [simp]: "length (sha256_digest m) = 32"
  by (cases "sha256_state m") (simp add: sha256_digest_def word_bytes_def)

lemma sha256_hexdigest_nonempty [simp]: "sha256_hexdigest m \<noteq> []"
  using is_digest_nonempty sha256_hexdigest_is_digest by blast

end
