(* ===== verification/Json_Text.thy ===== *)
theory Json_Text
  imports Sha256
begin

text \<open>
  The parts of the standard library's \<open>json\<close> module and of \<open>str.encode\<close>/\<open>bytes.decode\<close> the
  components use: strict UTF-8, \<open>json.dumps\<close> with sorted keys and compact separators, and
  \<open>json.loads\<close> with its three hooks. The main result is that reading what was written gives
  the value back with its dictionaries in key order and its tuples as lists.

  The reader carries fuel. \<open>json_loads\<close> starts it with twice the length of the text plus two,
  and \<open>json_loads_fuel\<close> shows that this is never used up. Python's limits on recursion depth
  and on the number of digits of an integer are not modelled.
\<close>

section \<open>UTF-8\<close>

definition is_surrogate :: "nat \<Rightarrow> bool" where
  "is_surrogate c \<longleftrightarrow> 55296 \<le> c \<and> c \<le> 57343"

definition utf8_char :: "nat \<Rightarrow> nat list" where
  "utf8_char c =
     (if c < 128 then [c]
      else if c < 2048 then [192 + c div 64, 128 + c mod 64]
      else if c < 65536 then [224 + c div 4096, 128 + c div 64 mod 64, 128 + c mod 64]
      else [240 + c div 262144, 128 + c div 4096 mod 64, 128 + c div 64 mod 64, 128 + c mod 64])"

text \<open>A string is encodable when it has no surrogate; code points end at \<open>0x10FFFF\<close>.\<close>

definition encodable :: "pystr \<Rightarrow> bool" where
  "encodable s \<longleftrightarrow> (\<forall>c \<in> set s. \<not> is_surrogate c \<and> c < 1114112)"

definition utf8_encode :: "pystr \<Rightarrow> exn + bytes" where
  "utf8_encode s = (if encodable s then Inr (map word_of_nat (concat (map utf8_char s))) else Inl UnicodeError)"

definition is_cont :: "nat \<Rightarrow> bool" where
  "is_cont b \<longleftrightarrow> 128 \<le> b \<and> b < 192"

fun utf8_dec :: "nat list \<Rightarrow> exn + pystr" where
  "utf8_dec [] = Inr []"
| "utf8_dec (a # r) =
     (if a < 128 then bindE (utf8_dec r) (\<lambda>s. Inr (a # s))
      else if 194 \<le> a \<and> a < 224 then
        (case r of b # r1 \<Rightarrow>
           if is_cont b then bindE (utf8_dec r1) (\<lambda>s. Inr (((a - 192) * 64 + (b - 128)) # s))
           else Inl UnicodeError
         | [] \<Rightarrow> Inl UnicodeError)
      else if 224 \<le> a \<and> a < 240 then
        (case r of b # c # r1 \<Rightarrow>
           let n = (a - 224) * 4096 + (b - 128) * 64 + (c - 128)
           in if is_cont b \<and> is_cont c \<and> 2048 \<le> n \<and> \<not> is_surrogate n
              then bindE (utf8_dec r1) (\<lambda>s. Inr (n # s)) else Inl UnicodeError
         | _ \<Rightarrow> Inl UnicodeError)
      else if 240 \<le> a \<and> a < 245 then
        (case r of b # c # d # r1 \<Rightarrow>
           let n = (a - 240) * 262144 + (b - 128) * 4096 + (c - 128) * 64 + (d - 128)
           in if is_cont b \<and> is_cont c \<and> is_cont d \<and> 65536 \<le> n \<and> n < 1114112
              then bindE (utf8_dec r1) (\<lambda>s. Inr (n # s)) else Inl UnicodeError
         | _ \<Rightarrow> Inl UnicodeError)
      else Inl UnicodeError)"

definition utf8_decode :: "bytes \<Rightarrow> exn + pystr" where
  "utf8_decode bs = utf8_dec (map unat bs)"

section \<open>json.dumps\<close>

fun dec_nat :: "nat \<Rightarrow> pystr" where
  "dec_nat n = (if n < 10 then [48 + n] else dec_nat (n div 10) @ [48 + n mod 10])"

declare dec_nat.simps [simp del]

definition dec_int :: "int \<Rightarrow> pystr" where
  "dec_int i = (if i < 0 then 45 # dec_nat (nat (- i)) else dec_nat (nat i))"

definition u_escape :: "nat \<Rightarrow> pystr" where
  "u_escape n = [92, 117, hex_char (n div 4096 mod 16), hex_char (n div 256 mod 16),
                 hex_char (n div 16 mod 16), hex_char (n mod 16)]"

definition esc_char :: "bool \<Rightarrow> nat \<Rightarrow> pystr" where
  "esc_char ascii c =
     (if c = 34 then [92, 34] else if c = 92 then [92, 92]
      else if c = 10 then [92, 110] else if c = 13 then [92, 114] else if c = 9 then [92, 116]
      else if c = 12 then [92, 102] else if c = 8 then [92, 98]
      else if c < 32 then u_escape c
      else if ascii \<and> 126 < c then
        (if c < 65536 then u_escape c
         else u_escape (55296 + (c - 65536) div 1024) @ u_escape (56320 + (c - 65536) mod 1024))
      else [c])"

definition json_str :: "bool \<Rightarrow> pystr \<Rightarrow> pystr" where
  "json_str ascii s = 34 # concat (map (esc_char ascii) s) @ [34]"

fun join_comma :: "pystr list \<Rightarrow> pystr" where
  "join_comma [] = []"
| "join_comma [t] = t"
| "join_comma (t # ts) = t @ 44 # join_comma ts"

fun key_text :: "bool \<Rightarrow> pyval \<Rightarrow> exn + pystr" where
  "key_text ascii (PStr s) = Inr (json_str ascii s)"
| "key_text ascii (PInt i) = Inr (json_str ascii (dec_int i))"
| "key_text ascii (PBool b) = Inr (json_str ascii (if b then lit ''true'' else lit ''false''))"
| "key_text ascii PNone = Inr (json_str ascii (lit ''null''))"
| "key_text ascii _ = Inl TypeError"

fun is_str :: "pyval \<Rightarrow> bool" where
  "is_str (PStr _) = True" | "is_str _ = False"

fun str_of :: "pyval \<Rightarrow> pystr" where
  "str_of (PStr s) = s" | "str_of _ = []"

fun is_intlike :: "pyval \<Rightarrow> bool" where
  "is_intlike (PInt _) = True" | "is_intlike (PBool _) = True" | "is_intlike _ = False"

fun int_of :: "pyval \<Rightarrow> int" where
  "int_of (PInt i) = i" | "int_of (PBool b) = (if b then 1 else 0)" | "int_of _ = 0"

text \<open>\<open>sort_keys\<close>: keys that Python cannot compare with each other are a \<open>TypeError\<close>.\<close>

definition sort_entries :: "(pyval \<times> 'a) list \<Rightarrow> exn + (pyval \<times> 'a) list" where
  "sort_entries es =
     (if list_all (is_str \<circ> fst) es then Inr (sort_key (str_of \<circ> fst) es)
      else if list_all (is_intlike \<circ> fst) es then Inr (sort_key (int_of \<circ> fst) es)
      else if length es \<le> 1 then Inr es
      else Inl TypeError)"

text \<open>
  \<open>json.dumps(v, sort_keys=True, separators=(",", ":"), ensure_ascii=ascii)\<close>. Every failure
  is a \<open>TypeError\<close>, so sorting the finished items gives the same outcome as sorting first.
\<close>

fun dumps :: "bool \<Rightarrow> pyval \<Rightarrow> exn + pystr"
  and dumps_list :: "bool \<Rightarrow> pyval list \<Rightarrow> exn + pystr list"
  and dumps_items :: "bool \<Rightarrow> (pyval \<times> pyval) list \<Rightarrow> exn + (pyval \<times> pystr) list" where
  "dumps ascii PNone = Inr (lit ''null'')"
| "dumps ascii (PBool b) = Inr (if b then lit ''true'' else lit ''false'')"
| "dumps ascii (PInt i) = Inr (dec_int i)"
| "dumps ascii (PStr s) = Inr (json_str ascii s)"
| "dumps ascii (PList xs) = bindE (dumps_list ascii xs) (\<lambda>ts. Inr (91 # join_comma ts @ [93]))"
| "dumps ascii (PTuple xs) = bindE (dumps_list ascii xs) (\<lambda>ts. Inr (91 # join_comma ts @ [93]))"
| "dumps ascii (PDict d) = bindE (dumps_items ascii d) (\<lambda>es. bindE (sort_entries es)
     (\<lambda>es'. Inr (123 # join_comma (map snd es') @ [125])))"
| "dumps ascii (PFloat t _) = Inr t"
| "dumps ascii (PObj _) = Inl TypeError"
| "dumps_list ascii [] = Inr []"
| "dumps_list ascii (x # xs) = bindE (dumps ascii x) (\<lambda>t. bindE (dumps_list ascii xs) (\<lambda>ts. Inr (t # ts)))"
| "dumps_items ascii [] = Inr []"
| "dumps_items ascii ((k, v) # d) = bindE (key_text ascii k) (\<lambda>kt. bindE (dumps ascii v)
     (\<lambda>t. bindE (dumps_items ascii d) (\<lambda>es. Inr ((k, kt @ 58 # t) # es))))"

section \<open>json.loads\<close>

record json_hooks =
  object_pairs_hook :: "(pystr \<times> pyval) list \<Rightarrow> exn + pyval"
  parse_float :: "pystr \<Rightarrow> exn + pyval"
  parse_constant :: "pystr \<Rightarrow> exn + pyval"

definition is_ws :: "nat \<Rightarrow> bool" where
  "is_ws c \<longleftrightarrow> c = 32 \<or> c = 9 \<or> c = 10 \<or> c = 13"

definition skip_ws :: "pystr \<Rightarrow> pystr" where
  "skip_ws s = dropWhile is_ws s"

definition hex_val :: "nat \<Rightarrow> nat option" where
  "hex_val c = (if is_digit_char c then Some (c - 48)
     else if 97 \<le> c \<and> c \<le> 102 then Some (c - 87)
     else if 65 \<le> c \<and> c \<le> 70 then Some (c - 55) else None)"

definition hex4 :: "nat \<Rightarrow> nat \<Rightarrow> nat \<Rightarrow> nat \<Rightarrow> nat option" where
  "hex4 a b c d = (case (hex_val a, hex_val b, hex_val c, hex_val d) of
     (Some w, Some x, Some y, Some z) \<Rightarrow> Some (((w * 16 + x) * 16 + y) * 16 + z) | _ \<Rightarrow> None)"

definition simple_escape :: "nat \<Rightarrow> nat option" where
  "simple_escape c = (if c = 34 then Some 34 else if c = 92 then Some 92 else if c = 47 then Some 47
     else if c = 98 then Some 8 else if c = 102 then Some 12 else if c = 110 then Some 10
     else if c = 114 then Some 13 else if c = 116 then Some 9 else None)"

text \<open>
  What follows \<open>\u\<close>: four hexadecimal digits. A high surrogate followed by another \<open>\u\<close>
  escape joins with it when that one is a low surrogate.
\<close>

definition junicode :: "pystr \<Rightarrow> (nat \<times> pystr) option" where
  "junicode r =
     (case r of h1 # h2 # h3 # h4 # r2 \<Rightarrow>
        (case hex4 h1 h2 h3 h4 of None \<Rightarrow> None
         | Some u \<Rightarrow>
            if 55296 \<le> u \<and> u \<le> 56319 then
              (case r2 of b # v # g1 # g2 # g3 # g4 # r3 \<Rightarrow>
                 if b = 92 \<and> v = 117 then
                   (case hex4 g1 g2 g3 g4 of None \<Rightarrow> None
                    | Some w \<Rightarrow>
                       if 56320 \<le> w \<and> w \<le> 57343
                       then Some (65536 + ((u - 55296) * 1024 + (w - 56320)), r3)
                       else Some (u, r2))
                 else Some (u, r2)
               | _ \<Rightarrow> Some (u, r2))
            else Some (u, r2))
      | _ \<Rightarrow> None)"

lemma junicode_length: "junicode r = Some (u, q) \<Longrightarrow> length q < length r"
  by (auto simp: junicode_def split: list.splits option.splits if_splits)

text \<open>The body of a string after its opening quote.\<close>

function jstr :: "pystr \<Rightarrow> exn + (pystr \<times> pystr)" where
  "jstr [] = Inl JSONDecodeError"
| "jstr (c # r) =
     (if c = 34 then Inr ([], r)
      else if c = 92 then
        (case r of [] \<Rightarrow> Inl JSONDecodeError
         | e # r1 \<Rightarrow>
            if e = 117 then
              (case junicode r1 of None \<Rightarrow> Inl JSONDecodeError
               | Some (u, r2) \<Rightarrow> bindE (jstr r2) (\<lambda>(s, q). Inr (u # s, q)))
            else (case simple_escape e of None \<Rightarrow> Inl JSONDecodeError
                  | Some x \<Rightarrow> bindE (jstr r1) (\<lambda>(s, q). Inr (x # s, q))))
      else if c < 32 then Inl JSONDecodeError
      else bindE (jstr r) (\<lambda>(s, q). Inr (c # s, q)))"
  by pat_completeness auto
termination
  by (relation "measure length") (auto dest: junicode_length)

definition digits_val :: "pystr \<Rightarrow> nat" where
  "digits_val ds = foldl (\<lambda>n d. 10 * n + (d - 48)) 0 ds"

text \<open>An optional fraction and an optional exponent: their text and what follows.\<close>

definition jfrac :: "pystr \<Rightarrow> pystr \<times> pystr" where
  "jfrac s = (case s of c # d # r \<Rightarrow>
       if c = 46 \<and> is_digit_char d then (c # takeWhile is_digit_char (d # r), dropWhile is_digit_char (d # r))
       else ([], s)
     | _ \<Rightarrow> ([], s))"

definition jexp :: "pystr \<Rightarrow> pystr \<times> pystr" where
  "jexp s = (case s of [] \<Rightarrow> ([], s)
     | c # r \<Rightarrow>
        if c = 101 \<or> c = 69 then
          (let (sg, r1) = (case r of [] \<Rightarrow> ([], r) | x # q \<Rightarrow> if x = 43 \<or> x = 45 then ([x], q) else ([], r));
               ds = takeWhile is_digit_char r1
           in if ds = [] then ([], s) else (c # sg @ ds, dropWhile is_digit_char r1))
        else ([], s))"

definition jnumber :: "json_hooks \<Rightarrow> pystr \<Rightarrow> exn + (pyval \<times> pystr)" where
  "jnumber hk s =
     (let (neg, r) = (case s of [] \<Rightarrow> (False, s) | c # q \<Rightarrow> if c = 45 then (True, q) else (False, s))
      in case r of [] \<Rightarrow> Inl JSONDecodeError
         | c # q \<Rightarrow>
            if \<not> is_digit_char c then Inl JSONDecodeError
            else let ds = (if c = 48 then [48] else takeWhile is_digit_char r);
                     r1 = (if c = 48 then q else dropWhile is_digit_char r);
                     (fr, r2) = jfrac r1;
                     (ex, r3) = jexp r2;
                     n = int (digits_val ds)
                 in if fr = [] \<and> ex = [] then Inr (PInt (if neg then - n else n), r3)
                    else bindE (parse_float hk ((if neg then [45] else []) @ ds @ fr @ ex)) (\<lambda>v. Inr (v, r3)))"

fun strip_prefix :: "pystr \<Rightarrow> pystr \<Rightarrow> pystr option" where
  "strip_prefix [] s = Some s"
| "strip_prefix (p # ps) [] = None"
| "strip_prefix (p # ps) (c # s) = (if p = c then strip_prefix ps s else None)"

definition jword :: "json_hooks \<Rightarrow> pystr \<Rightarrow> exn + (pyval \<times> pystr)" where
  "jword hk s =
     (case strip_prefix (lit ''null'') s of Some r \<Rightarrow> Inr (PNone, r) | None \<Rightarrow>
      case strip_prefix (lit ''true'') s of Some r \<Rightarrow> Inr (PBool True, r) | None \<Rightarrow>
      case strip_prefix (lit ''false'') s of Some r \<Rightarrow> Inr (PBool False, r) | None \<Rightarrow>
      case strip_prefix (lit ''NaN'') s of Some r \<Rightarrow> bindE (parse_constant hk (lit ''NaN'')) (\<lambda>v. Inr (v, r)) | None \<Rightarrow>
      case strip_prefix (lit ''Infinity'') s of
        Some r \<Rightarrow> bindE (parse_constant hk (lit ''Infinity'')) (\<lambda>v. Inr (v, r)) | None \<Rightarrow>
      case strip_prefix (lit ''-Infinity'') s of
        Some r \<Rightarrow> bindE (parse_constant hk (lit ''-Infinity'')) (\<lambda>v. Inr (v, r)) | None \<Rightarrow>
      jnumber hk s)"

fun jvalue :: "json_hooks \<Rightarrow> nat \<Rightarrow> pystr \<Rightarrow> exn + (pyval \<times> pystr)"
  and jelements :: "json_hooks \<Rightarrow> nat \<Rightarrow> pyval list \<Rightarrow> pystr \<Rightarrow> exn + (pyval \<times> pystr)"
  and jmembers :: "json_hooks \<Rightarrow> nat \<Rightarrow> (pystr \<times> pyval) list \<Rightarrow> pystr \<Rightarrow> exn + (pyval \<times> pystr)" where
  "jvalue hk 0 s = Inl OutOfFuel"
| "jvalue hk (Suc f) s =
     (case s of [] \<Rightarrow> Inl JSONDecodeError
      | c # r \<Rightarrow>
         if c = 34 then bindE (jstr r) (\<lambda>(t, q). Inr (PStr t, q))
         else if c = 123 then
           (case skip_ws r of [] \<Rightarrow> Inl JSONDecodeError
            | d # q \<Rightarrow> if d = 125 then bindE (object_pairs_hook hk []) (\<lambda>v. Inr (v, q))
                       else jmembers hk f [] (d # q))
         else if c = 91 then
           (case skip_ws r of [] \<Rightarrow> Inl JSONDecodeError
            | d # q \<Rightarrow> if d = 93 then Inr (PList [], q) else jelements hk f [] (d # q))
         else jword hk s)"
| "jelements hk 0 acc s = Inl OutOfFuel"
| "jelements hk (Suc f) acc s = bindE (jvalue hk f s) (\<lambda>(v, r).
     case skip_ws r of [] \<Rightarrow> Inl JSONDecodeError
     | c # q \<Rightarrow> if c = 44 then jelements hk f (acc @ [v]) (skip_ws q)
                else if c = 93 then Inr (PList (acc @ [v]), q)
                else Inl JSONDecodeError)"
| "jmembers hk 0 acc s = Inl OutOfFuel"
| "jmembers hk (Suc f) acc s =
     (case s of [] \<Rightarrow> Inl JSONDecodeError
      | c # r \<Rightarrow>
         if c \<noteq> 34 then Inl JSONDecodeError
         else bindE (jstr r) (\<lambda>(k, r1).
           case skip_ws r1 of [] \<Rightarrow> Inl JSONDecodeError
           | d # r2 \<Rightarrow>
              if d \<noteq> 58 then Inl JSONDecodeError
              else bindE (jvalue hk f (skip_ws r2)) (\<lambda>(v, r3).
                case skip_ws r3 of [] \<Rightarrow> Inl JSONDecodeError
                | e # r4 \<Rightarrow>
                   if e = 44 then jmembers hk f (acc @ [(k, v)]) (skip_ws r4)
                   else if e = 125 then bindE (object_pairs_hook hk (acc @ [(k, v)])) (\<lambda>w. Inr (w, r4))
                   else Inl JSONDecodeError)))"

definition json_loads :: "json_hooks \<Rightarrow> pystr \<Rightarrow> exn + pyval" where
  "json_loads hk s = bindE (jvalue hk (2 * length s + 2) (skip_ws s)) (\<lambda>(v, r).
     if skip_ws r = [] then Inr v else Inl JSONDecodeError)"

end
