(* ===== verification/Json_Lemmas.thy ===== *)
theory Json_Lemmas
  imports Json_Text
begin

text \<open>
  Facts about the writer and the reader of \<open>Json_Text\<close>: strict UTF-8 is decoded to what was
  encoded, every JSON value is written (\<open>dumps_total\<close>), what is written is read back up to key
  order and tuples (\<open>json_loads_dumps\<close>), and the reader's fuel is enough (\<open>json_loads_fuel\<close>).
\<close>

section \<open>UTF-8 round trip\<close>

lemma utf8_char_bytes: "c < 1114112 \<Longrightarrow> b \<in> set (utf8_char c) \<Longrightarrow> b < 256"
  by (auto simp: utf8_char_def split: if_splits)

lemma split_base64:
  fixes c :: nat
  shows "c div 4096 * 4096 + c div 64 mod 64 * 64 + c mod 64 = c"
    and "c div 262144 * 262144 + c div 4096 mod 64 * 4096 + c div 64 mod 64 * 64 + c mod 64 = c"
proof -
  have a: "q div 64 * 64 + q mod 64 = q" for q :: nat by simp
  have d: "c div 4096 = c div 64 div 64" "c div 262144 = c div 4096 div 64"
    by (simp_all add: div_mult2_eq [symmetric])
  show one: "c div 4096 * 4096 + c div 64 mod 64 * 64 + c mod 64 = c"
    using a [of "c div 64"] a [of c] d by linarith
  show "c div 262144 * 262144 + c div 4096 mod 64 * 4096 + c div 64 mod 64 * 64 + c mod 64 = c"
    using a [of "c div 4096"] d one by linarith
qed

lemma utf8_dec_char:
  assumes "\<not> is_surrogate c" "c < 1114112"
  shows "utf8_dec (utf8_char c @ r) = bindE (utf8_dec r) (\<lambda>s. Inr (c # s))"
proof -
  consider "c < 128" | "128 \<le> c" "c < 2048" | "2048 \<le> c" "c < 65536" | "65536 \<le> c"
    by linarith
  then show ?thesis
  proof cases
    case 1
    then show ?thesis by (simp add: utf8_char_def)
  next
    case 2
    then have "2 \<le> c div 64" "c div 64 < 32" by auto
    with 2 show ?thesis by (simp add: utf8_char_def is_cont_def)
  next
    case 3
    then have "c div 4096 < 16" by auto
    then show ?thesis using 3 assms by (simp add: utf8_char_def is_cont_def Let_def split_base64)
  next
    case 4
    then have "c div 262144 < 5" using assms by auto
    then show ?thesis using 4 assms by (simp add: utf8_char_def is_cont_def Let_def split_base64)
  qed
qed

declare utf8_dec.simps(2) [simp del]

lemma utf8_dec_concat: "encodable s \<Longrightarrow> utf8_dec (concat (map utf8_char s)) = Inr s"
  by (induction s) (auto simp: encodable_def utf8_dec_char)

lemma utf8_round_trip: "utf8_encode s = Inr b \<Longrightarrow> utf8_decode b = Inr s"
proof -
  assume "utf8_encode s = Inr b"
  then have e: "encodable s" and b: "b = map word_of_nat (concat (map utf8_char s))"
    by (auto simp: utf8_encode_def split: if_splits)
  have "map unat b = concat (map utf8_char s)"
  proof -
    have "unat (word_of_nat x :: 8 word) = x" if "x \<in> set (concat (map utf8_char s))" for x
    proof -
      from that e have "x < 256" by (auto simp: encodable_def dest: utf8_char_bytes)
      then show ?thesis by (simp add: unat_of_nat)
    qed
    then show ?thesis unfolding b map_map by (intro map_idI) simp
  qed
  with e show ?thesis by (simp add: utf8_decode_def utf8_dec_concat)
qed

lemma utf8_encode_inj: "utf8_encode s = Inr b \<Longrightarrow> utf8_encode t = Inr b \<Longrightarrow> s = t"
  using utf8_round_trip [of s b] utf8_round_trip [of t b] by simp

section \<open>Numbers and strings read back\<close>

lemma digits_val_snoc [simp]: "digits_val (ds @ [d]) = 10 * digits_val ds + (d - 48)"
  by (simp add: digits_val_def)

lemma digits_val_single [simp]: "digits_val [d] = d - 48"
  by (simp add: digits_val_def)

lemma digits_val_dec_nat: "digits_val (dec_nat n) = n"
  by (induction n rule: dec_nat.induct) (subst dec_nat.simps, auto)

lemma dec_nat_digits: "c \<in> set (dec_nat n) \<Longrightarrow> is_digit_char c"
proof (induction n rule: dec_nat.induct)
  case (1 n)
  then show ?case
    by (subst (asm) dec_nat.simps) (auto simp: is_digit_char_def split: if_splits)
qed

lemma dec_nat_nonempty [simp]: "dec_nat n \<noteq> []"
  by (subst dec_nat.simps) simp

lemma dec_nat_hd: "hd (dec_nat n) = 48 \<Longrightarrow> n = 0"
proof (induction n rule: dec_nat.induct)
  case (1 n)
  show ?case
  proof (cases "n < 10")
    case True
    with "1.prems" show ?thesis by (simp add: dec_nat.simps [of n])
  next
    case False
    with "1.prems" have "hd (dec_nat (n div 10)) = 48" by (simp add: dec_nat.simps [of n])
    with False "1.IH" have "n div 10 = 0" by simp
    with False show ?thesis by simp
  qed
qed

text \<open>What may follow a number so that the reader stops where the writer stopped.\<close>

definition num_stop :: "pystr \<Rightarrow> bool" where
  "num_stop r \<longleftrightarrow> (case r of [] \<Rightarrow> True | c # _ \<Rightarrow> \<not> is_digit_char c \<and> c \<noteq> 46 \<and> c \<noteq> 101 \<and> c \<noteq> 69)"

lemma jfrac_stop: "num_stop r \<Longrightarrow> jfrac r = ([], r)"
  by (auto simp: num_stop_def jfrac_def split: list.splits)

lemma jexp_stop: "num_stop r \<Longrightarrow> jexp r = ([], r)"
  by (auto simp: num_stop_def jexp_def split: list.splits)

lemma takeWhile_digits:
  "num_stop r \<Longrightarrow> takeWhile is_digit_char (dec_nat n @ r) = dec_nat n"
  "num_stop r \<Longrightarrow> dropWhile is_digit_char (dec_nat n @ r) = r"
proof -
  assume s: "num_stop r"
  have all: "\<forall>c \<in> set (dec_nat n). is_digit_char c" using dec_nat_digits by blast
  from s have "takeWhile is_digit_char r = []" "dropWhile is_digit_char r = r"
    by (auto simp: num_stop_def split: list.splits)
  with all show "takeWhile is_digit_char (dec_nat n @ r) = dec_nat n"
    and "dropWhile is_digit_char (dec_nat n @ r) = r"
    by (simp_all add: takeWhile_append2 dropWhile_append2)
qed

lemma jnumber_dec_nat:
  assumes "num_stop r"
  shows "jnumber hk (dec_nat n @ r) = Inr (PInt (int n), r)"
    and "jnumber hk (45 # dec_nat n @ r) = Inr (PInt (- int n), r)"
proof -
  obtain c q where cq: "dec_nat n = c # q" by (cases "dec_nat n") auto
  then have d: "is_digit_char c" using dec_nat_digits [of c n] by simp
  then have c45: "c \<noteq> 45" by (auto simp: is_digit_char_def)
  have tw: "takeWhile is_digit_char (c # q @ r) = c # q" "dropWhile is_digit_char (c # q @ r) = r"
    using takeWhile_digits [OF assms, of n] cq by simp_all
  have dv: "digits_val (c # q) = n" using digits_val_dec_nat [of n] cq by simp
  have z: "c = 48 \<Longrightarrow> q = [] \<and> n = 0"
  proof -
    assume "c = 48"
    with cq have "n = 0" using dec_nat_hd [of n] by simp
    with cq show ?thesis by (simp add: dec_nat.simps [of 0])
  qed
  show "jnumber hk (dec_nat n @ r) = Inr (PInt (int n), r)"
    using d c45 tw dv z by (auto simp: cq jnumber_def Let_def jfrac_stop [OF assms] jexp_stop [OF assms])
  show "jnumber hk (45 # dec_nat n @ r) = Inr (PInt (- int n), r)"
    using d c45 tw dv z by (auto simp: cq jnumber_def Let_def jfrac_stop [OF assms] jexp_stop [OF assms])
qed

lemma jnumber_dec_int: "num_stop r \<Longrightarrow> jnumber hk (dec_int i @ r) = Inr (PInt i, r)"
  by (simp add: dec_int_def jnumber_dec_nat)

lemma hex_val_hex_char [simp]: "n < 16 \<Longrightarrow> hex_val (hex_char n) = Some n"
  by (auto simp: hex_val_def hex_char_def is_digit_char_def)

lemma jstr_esc_char:
  "jstr (esc_char False c @ r) = bindE (jstr r) (\<lambda>(s, q). Inr (c # s, q))"
proof -
  have "hex4 (hex_char (c div 4096 mod 16)) (hex_char (c div 256 mod 16)) (hex_char (c div 16 mod 16))
          (hex_char (c mod 16)) = Some c" if "c < 32"
    using that by (simp add: hex4_def)
  then show ?thesis
    by (simp add: esc_char_def u_escape_def simple_escape_def junicode_def)
qed

declare jstr.simps(2) [simp del]

lemma jstr_quote [simp]: "jstr (34 # r) = Inr ([], r)"
  by (simp add: jstr.simps(2))

lemma jstr_json_str: "jstr (concat (map (esc_char False) s) @ 34 # r) = Inr (s, r)"
  by (induction s) (simp_all add: jstr_esc_char)

section \<open>Values read back\<close>

fun norm :: "pyval \<Rightarrow> pyval" where
  "norm (PList xs) = PList (map norm xs)"
| "norm (PTuple xs) = PList (map norm xs)"
| "norm (PDict d) = PDict (sort_key (str_of \<circ> fst) (map (\<lambda>(k, v). (k, norm v)) d))"
| "norm v = v"

text \<open>A value JSON can carry: string keys, one entry per key, no floats and no other objects.\<close>

fun json_value :: "pyval \<Rightarrow> bool" where
  "json_value (PList xs) = (\<forall>x \<in> set xs. json_value x)"
| "json_value (PTuple xs) = (\<forall>x \<in> set xs. json_value x)"
| "json_value (PDict d) = (distinct (map fst d) \<and> (\<forall>kv \<in> set d. is_str (fst kv) \<and> json_value (snd kv)))"
| "json_value (PFloat _ _) = False"
| "json_value (PObj _) = False"
| "json_value _ = True"

definition reads :: "json_hooks \<Rightarrow> pystr \<Rightarrow> pyval \<Rightarrow> bool" where
  "reads hk t v \<longleftrightarrow> t \<noteq> [] \<and> \<not> is_ws (hd t) \<and>
     (\<forall>r f. num_stop r \<longrightarrow> 2 * length t < f \<longrightarrow> jvalue hk f (t @ r) = Inr (v, r))"

definition dict_hook :: "json_hooks \<Rightarrow> bool" where
  "dict_hook hk \<longleftrightarrow> (\<forall>kvs. distinct (map fst kvs) \<longrightarrow>
     object_pairs_hook hk kvs = Inr (PDict (map (\<lambda>(k, v). (PStr k, v)) kvs)))"

lemma readsD: "reads hk t v \<Longrightarrow> num_stop r \<Longrightarrow> 2 * length t < f \<Longrightarrow> jvalue hk f (t @ r) = Inr (v, r)"
  by (simp add: reads_def)

lemma skip_ws_keep: "t \<noteq> [] \<Longrightarrow> \<not> is_ws (hd t) \<Longrightarrow> skip_ws (t @ r) = t @ r"
  by (cases t) (auto simp: skip_ws_def)

lemma skip_ws_nonws [simp]: "\<not> is_ws c \<Longrightarrow> skip_ws (c # r) = c # r"
  by (simp add: skip_ws_def)

lemma is_ws_consts [simp]: "\<not> is_ws 44" "\<not> is_ws 93" "\<not> is_ws 125" "\<not> is_ws 58" "\<not> is_ws 34"
    "\<not> is_ws 91" "\<not> is_ws 123"
  by (simp_all add: is_ws_def)

lemma num_stop_consts [simp]: "num_stop (44 # r)" "num_stop (93 # r)" "num_stop (125 # r)" "num_stop []"
  by (simp_all add: num_stop_def is_digit_char_def)

lemma jelements_reads:
  assumes "list_all2 (reads hk) ts vs" "ts \<noteq> []" "2 * length (join_comma ts) + 1 < f"
  shows "jelements hk f acc (join_comma ts @ 93 # r) = Inr (PList (acc @ vs), r)"
  using assms
proof (induction ts arbitrary: vs f acc rule: join_comma.induct)
  case (2 t)
  then obtain v where vs: "vs = [v]" and v: "reads hk t v"
    by (auto simp: list_all2_Cons1)
  from "2.prems" obtain g where f: "f = Suc g" "2 * length t < g" by (cases f) auto
  from v f have "jvalue hk g (t @ 93 # r) = Inr (v, 93 # r)" by (simp add: reads_def)
  then show ?case by (simp add: f vs)
next
  case (3 t u us)
  then obtain v ws where vs: "vs = v # ws" and v: "reads hk t v" and ws: "list_all2 (reads hk) (u # us) ws"
    by (auto simp: list_all2_Cons1)
  from "3.prems" obtain g where f: "f = Suc g" "2 * length t < g"
      "2 * length (join_comma (u # us)) + 1 < g" by (cases f) auto
  from v f have one: "jvalue hk g (t @ 44 # join_comma (u # us) @ 93 # r) = Inr (v, 44 # join_comma (u # us) @ 93 # r)"
    by (simp add: reads_def)
  from ws have u: "u \<noteq> []" "\<not> is_ws (hd u)" by (auto simp: list_all2_Cons1 reads_def)
  have "skip_ws (join_comma (u # us) @ 93 # r) = join_comma (u # us) @ 93 # r"
    using u by (cases us) (auto intro: skip_ws_keep)
  moreover have "jelements hk g (acc @ [v]) (join_comma (u # us) @ 93 # r) = Inr (PList ((acc @ [v]) @ ws), r)"
    using ws f by (intro "3.IH") auto
  ultimately show ?case using one by (simp add: f vs)
qed simp

definition item_reads :: "json_hooks \<Rightarrow> pystr \<Rightarrow> pystr \<times> pyval \<Rightarrow> bool" where
  "item_reads hk tx kv \<longleftrightarrow> (\<exists>t. tx = json_str False (fst kv) @ 58 # t \<and> reads hk t (snd kv))"

lemma jmembers_one:
  assumes "item_reads hk tx (k, v)" "2 * length tx < g" "num_stop r" "\<not> is_ws (hd r)" "r \<noteq> []"
  shows "jmembers hk (Suc g) acc (tx @ r) =
    (case r of [] \<Rightarrow> Inl JSONDecodeError
      | e # r4 \<Rightarrow> if e = 44 then jmembers hk g (acc @ [(k, v)]) (skip_ws r4)
                 else if e = 125 then bindE (object_pairs_hook hk (acc @ [(k, v)])) (\<lambda>w. Inr (w, r4))
                 else Inl JSONDecodeError)"
proof -
  from assms(1) obtain t where tx: "tx = json_str False k @ 58 # t" and t: "reads hk t v"
    by (auto simp: item_reads_def)
  from t assms(2,3) tx have "jvalue hk g (t @ r) = Inr (v, r)"
    by (simp add: reads_def)
  moreover from t have "skip_ws (t @ r) = t @ r" by (auto simp: reads_def intro: skip_ws_keep)
  moreover from assms(4,5) have "skip_ws r = r" by (cases r) auto
  ultimately show ?thesis
    by (simp add: tx json_str_def jstr_json_str)
qed

lemma jmembers_reads:
  assumes "list_all2 (item_reads hk) ts kvs" "ts \<noteq> []" "2 * length (join_comma ts) + 1 < f"
  shows "jmembers hk f acc (join_comma ts @ 125 # r) = bindE (object_pairs_hook hk (acc @ kvs)) (\<lambda>w. Inr (w, r))"
  using assms
proof (induction ts arbitrary: kvs f acc rule: join_comma.induct)
  case (2 t)
  then obtain kv where kvs: "kvs = [kv]" and v: "item_reads hk t kv"
    by (auto simp: list_all2_Cons1)
  from "2.prems" obtain g where f: "f = Suc g" "2 * length t < g" by (cases f) auto
  from v f show ?case by (cases kv) (simp add: f kvs jmembers_one del: jmembers.simps)
next
  case (3 t u us)
  then obtain kv ws where kvs: "kvs = kv # ws" and v: "item_reads hk t kv"
      and ws: "list_all2 (item_reads hk) (u # us) ws"
    by (auto simp: list_all2_Cons1)
  from "3.prems" obtain g where f: "f = Suc g" "2 * length t < g"
      "2 * length (join_comma (u # us)) + 1 < g" by (cases f) auto
  from ws have u: "u \<noteq> []" "\<not> is_ws (hd u)" by (auto simp: list_all2_Cons1 item_reads_def json_str_def)
  have "skip_ws (join_comma (u # us) @ 125 # r) = join_comma (u # us) @ 125 # r"
    using u by (cases us) (auto intro: skip_ws_keep)
  moreover have "jmembers hk g (acc @ [kv]) (join_comma (u # us) @ 125 # r)
      = bindE (object_pairs_hook hk ((acc @ [kv]) @ ws)) (\<lambda>w. Inr (w, r))"
    using ws f by (intro "3.IH") auto
  ultimately show ?case using v f by (cases kv) (simp add: kvs jmembers_one del: jmembers.simps)
qed simp

lemma list_all2_insort_key:
  assumes "list_all2 P xs ys" "P a b" "\<And>x y. P x y \<Longrightarrow> f x = g y"
  shows "list_all2 P (insort_key f a xs) (insort_key g b ys)"
  using assms by (induction rule: list_all2_induct) auto

lemma list_all2_sort_key:
  assumes "list_all2 P xs ys" "\<And>x y. P x y \<Longrightarrow> f x = g y"
  shows "list_all2 P (sort_key f xs) (sort_key g ys)"
  using assms by (induction rule: list_all2_induct) (auto intro: list_all2_insort_key)

lemma dumps_list_Inr: "dumps_list a xs = Inr ts \<longleftrightarrow> list_all2 (\<lambda>x t. dumps a x = Inr t) xs ts"
  by (induction xs arbitrary: ts) (auto simp: list_all2_Cons1)

definition item_text :: "bool \<Rightarrow> pyval \<times> pyval \<Rightarrow> pyval \<times> pystr \<Rightarrow> bool" where
  "item_text a kv e \<longleftrightarrow> fst e = fst kv \<and>
     (\<exists>kt t. key_text a (fst kv) = Inr kt \<and> dumps a (snd kv) = Inr t \<and> snd e = kt @ 58 # t)"

lemma dumps_items_Inr: "dumps_items a d = Inr es \<longleftrightarrow> list_all2 (item_text a) d es"
  by (induction d arbitrary: es) (force simp: list_all2_Cons1 item_text_def)+

lemma sort_entries_str:
  "list_all2 (item_text a) d es \<Longrightarrow> \<forall>kv \<in> set d. is_str (fst kv) \<Longrightarrow>
   sort_entries es = Inr (sort_key (str_of \<circ> fst) es)"
proof -
  assume "list_all2 (item_text a) d es" "\<forall>kv \<in> set d. is_str (fst kv)"
  then have "list_all (is_str \<circ> fst) es"
    by (induction rule: list_all2_induct) (auto simp: item_text_def)
  then show ?thesis by (simp add: sort_entries_def)
qed

lemma is_str_iff: "is_str v \<longleftrightarrow> (\<exists>s. v = PStr s)"
  by (cases v) auto

lemma jvalue_word:
  "0 < f \<Longrightarrow> c \<noteq> 34 \<Longrightarrow> c \<noteq> 123 \<Longrightarrow> c \<noteq> 91 \<Longrightarrow> jvalue hk f (c # r) = jword hk (c # r)"
  by (cases f) auto

lemma PStr_str_of: "is_str k \<Longrightarrow> PStr (str_of k) = k"
  by (cases k) auto

lemma list_all2_exists: "(\<And>x. x \<in> set xs \<Longrightarrow> \<exists>y. P x y) \<Longrightarrow> \<exists>ys. list_all2 P xs ys"
proof (induction xs)
  case (Cons x xs)
  then obtain y ys where "P x y" "list_all2 P xs ys" by (meson list.set_intros)
  then have "list_all2 P (x # xs) (y # ys)" by simp
  then show ?case by blast
qed (auto intro: exI [of _ "[]"])

lemma reads_atoms:
  "reads hk (lit ''null'') PNone" "reads hk (lit ''true'') (PBool True)" "reads hk (lit ''false'') (PBool False)"
  unfolding reads_def
  by (auto simp: lit_def is_ws_def jword_def jvalue_word)

lemma reads_str: "reads hk (json_str False s) (PStr s)"
  unfolding reads_def
  by (auto simp: json_str_def jstr_json_str dest!: less_imp_Suc_add)

lemma dec_int_hd: "dec_int i \<noteq> []" "hd (dec_int i) = 45 \<or> is_digit_char (hd (dec_int i))"
proof -
  have "is_digit_char (hd (dec_nat n))" for n
    using dec_nat_digits [of "hd (dec_nat n)" n] by simp
  then show "dec_int i \<noteq> []" "hd (dec_int i) = 45 \<or> is_digit_char (hd (dec_int i))"
    by (auto simp: dec_int_def)
qed

lemma reads_int: "reads hk (dec_int i) (PInt i)"
proof -
  obtain c q where cq: "dec_int i = c # q" by (cases "dec_int i") (auto simp: dec_int_hd)
  then have c: "c = 45 \<or> is_digit_char c" using dec_int_hd(2) [of i] by simp
  have d2: "c = 45 \<Longrightarrow> \<exists>x y. q = x # y \<and> is_digit_char x"
  proof -
    assume "c = 45"
    with cq have "i < 0" using dec_nat_digits [of c "nat i"]
      by (auto simp: dec_int_def is_digit_char_def split: if_splits)
    with cq have "q = dec_nat (nat (- i))" by (simp add: dec_int_def)
    moreover from this have "q \<noteq> []" by simp
    ultimately have "is_digit_char (hd q)" using dec_nat_digits [of "hd q" "nat (- i)"] by simp
    with \<open>q \<noteq> []\<close> show ?thesis by (cases q) auto
  qed
  have "jvalue hk f (dec_int i @ r) = Inr (PInt i, r)" if "num_stop r" "2 * length (dec_int i) < f" for r f
  proof -
    have f: "0 < f" using that(2) by simp
    have "jword hk (c # q @ r) = jnumber hk (c # q @ r)"
      using c d2 by (auto simp: jword_def lit_def is_digit_char_def)
    moreover have "jnumber hk (c # q @ r) = Inr (PInt i, r)"
      using jnumber_dec_int [OF that(1), of hk i] cq by simp
    ultimately show ?thesis using c f by (auto simp: cq is_digit_char_def jvalue_word)
  qed
  then show ?thesis using cq c by (auto simp: reads_def is_ws_def is_digit_char_def)
qed

lemma reads_hd:
  assumes "reads hk t v"
  shows "hd t \<noteq> 93"
proof
  assume "hd t = 93"
  with assms obtain q where q: "t = 93 # q" by (cases t) (auto simp: reads_def)
  have "jvalue hk f (93 # x) \<noteq> Inr (v, [])" for f x
    by (cases f) (auto simp: jword_def jnumber_def lit_def is_digit_char_def)
  moreover have "jvalue hk (2 * length t + 1) (t @ []) = Inr (v, [])"
    using assms unfolding reads_def by (metis less_add_one num_stop_consts(4))
  ultimately show False by (simp add: q del: jvalue.simps)
qed

lemma distinct_fst_sort_key: "distinct (map fst (sort_key f xs)) \<longleftrightarrow> distinct (map fst xs)"
  by (simp only: distinct_map distinct_sort set_sort)

lemma distinct_str_of: "distinct ks \<Longrightarrow> \<forall>k \<in> set ks. is_str k \<Longrightarrow> distinct (map str_of ks)"
  by (induction ks) (auto simp: is_str_iff)

lemma dumps_reads_list:
  assumes "list_all2 (reads hk) ts vs"
  shows "reads hk (91 # join_comma ts @ [93]) (PList vs)"
proof -
  have "jvalue hk f ((91 # join_comma ts @ [93]) @ r) = Inr (PList vs, r)"
    if "2 * length (91 # join_comma ts @ [93]) < f" for r f
  proof -
    from that obtain g where f: "f = Suc g" "2 * length (join_comma ts) + 1 < g" by (cases f) auto
    show ?thesis
    proof (cases ts)
      case Nil
      with assms f show ?thesis by simp
    next
      case (Cons t us)
      with assms have t: "t \<noteq> []" "\<not> is_ws (hd t)" by (auto simp: list_all2_Cons1 reads_def)
      then obtain c q where cq: "join_comma ts = c # q" "\<not> is_ws c"
        by (cases t; cases us) (auto simp: Cons)
      have "hd t \<noteq> 93" using assms Cons by (auto simp: list_all2_Cons1 dest: reads_hd)
      then have "c \<noteq> 93" using Cons cq t by (cases t; cases us) auto
      with cq f jelements_reads [OF assms, of g "[]" r] Cons show ?thesis by simp
    qed
  qed
  then show ?thesis by (simp add: reads_def)
qed

lemma dumps_reads_dict:
  assumes "list_all2 (item_reads hk) ts kvs" "dict_hook hk" "distinct (map fst kvs)"
  shows "reads hk (123 # join_comma ts @ [125]) (PDict (map (\<lambda>(k, v). (PStr k, v)) kvs))"
proof -
  have h: "object_pairs_hook hk kvs = Inr (PDict (map (\<lambda>(k, v). (PStr k, v)) kvs))"
    using assms(2,3) by (simp add: dict_hook_def)
  have "jvalue hk f ((123 # join_comma ts @ [125]) @ r) = Inr (PDict (map (\<lambda>(k, v). (PStr k, v)) kvs), r)"
    if "2 * length (123 # join_comma ts @ [125]) < f" for r f
  proof -
    from that obtain g where f: "f = Suc g" "2 * length (join_comma ts) + 1 < g" by (cases f) auto
    show ?thesis
    proof (cases ts)
      case Nil
      with assms(1) f h show ?thesis by simp
    next
      case (Cons t us)
      with assms(1) obtain q where cq: "join_comma ts = 34 # q"
        by (cases us) (auto simp: list_all2_Cons1 item_reads_def json_str_def)
      with f h jmembers_reads [OF assms(1), of g "[]" r] Cons show ?thesis by simp
    qed
  qed
  then show ?thesis by (simp add: reads_def)
qed

lemma dict_items_read:
  assumes "list_all2 (item_text False) d es" "\<forall>kv \<in> set d. is_str (fst kv)"
    and "\<And>kv t. kv \<in> set d \<Longrightarrow> dumps False (snd kv) = Inr t \<Longrightarrow> reads hk t (norm (snd kv))"
  shows "list_all2 (\<lambda>e kv. item_reads hk (snd e) (str_of (fst kv), snd kv) \<and> fst e = fst kv \<and> is_str (fst kv))
           es (map (\<lambda>(k, v). (k, norm v)) d)"
  using assms
proof (induction rule: list_all2_induct)
  case (Cons kv d e es)
  then obtain k v kt t where kv: "kv = (PStr k, v)" "dumps False v = Inr t" "e = (PStr k, json_str False k @ 58 # t)"
    by (cases kv; cases e) (auto simp: item_text_def is_str_iff)
  then have "reads hk t (norm v)" using Cons.prems(2) [of kv t] by simp
  with kv Cons show ?case by (auto simp: item_reads_def)
qed simp

lemma dumps_reads:
  assumes "dict_hook hk"
  shows "json_value v \<Longrightarrow> dumps False v = Inr t \<Longrightarrow> reads hk t (norm v)"
proof (induction v arbitrary: t)
  case (PList xs)
  then obtain ts where ts: "list_all2 (\<lambda>x t. dumps False x = Inr t) xs ts" "t = 91 # join_comma ts @ [93]"
    by (auto simp: dumps_list_Inr)
  then have "list_all2 (reads hk) ts (map norm xs)"
    using PList by (auto simp: list_all2_conv_all_nth)
  with ts show ?case by (simp add: dumps_reads_list)
next
  case (PTuple xs)
  then obtain ts where ts: "list_all2 (\<lambda>x t. dumps False x = Inr t) xs ts" "t = 91 # join_comma ts @ [93]"
    by (auto simp: dumps_list_Inr)
  then have "list_all2 (reads hk) ts (map norm xs)"
    using PTuple by (auto simp: list_all2_conv_all_nth)
  with ts show ?case by (simp add: dumps_reads_list)
next
  case (PDict d)
  then obtain es where es: "list_all2 (item_text False) d es"
    and t: "t = 123 # join_comma (map snd (sort_key (str_of \<circ> fst) es)) @ [125]"
    by (auto simp: dumps_items_Inr sort_entries_str)
  let ?n = "map (\<lambda>(k, v). (k, norm v)) d"
  let ?s = "sort_key (str_of \<circ> fst) ?n"
  have "list_all2 (\<lambda>e kv. item_reads hk (snd e) (str_of (fst kv), snd kv) \<and> fst e = fst kv \<and> is_str (fst kv)) es ?n"
    using es PDict by (intro dict_items_read) (auto simp: snds.simps)
  then have s: "list_all2 (\<lambda>e kv. item_reads hk (snd e) (str_of (fst kv), snd kv) \<and> fst e = fst kv \<and> is_str (fst kv))
      (sort_key (str_of \<circ> fst) es) ?s"
    by (rule list_all2_sort_key) simp
  let ?kvs = "map (\<lambda>kv. (str_of (fst kv), snd kv)) ?s"
  have items: "list_all2 (item_reads hk) (map snd (sort_key (str_of \<circ> fst) es)) ?kvs"
    using s by (auto simp: list_all2_conv_all_nth)
  have strs: "\<forall>kv \<in> set ?s. is_str (fst kv)"
    using PDict.prems by (auto simp: case_prod_beta)
  have "distinct (map fst ?n)" using PDict.prems by (simp add: case_prod_beta comp_def)
  then have "distinct (map fst ?s)" by (simp only: distinct_fst_sort_key)
  then have "distinct (map str_of (map fst ?s))"
    using strs by (intro distinct_str_of) auto
  then have dist: "distinct (map fst ?kvs)" by (simp add: comp_def)
  have "map (\<lambda>kv. (PStr (str_of (fst kv)), snd kv)) ?s = ?s"
    by (rule map_idI) (use strs in \<open>simp only: PStr_str_of prod.collapse\<close>)
  then have "map (\<lambda>(k, v). (PStr k, v)) ?kvs = ?s" by (simp only: map_map comp_def prod.case)
  then show ?case using dumps_reads_dict [OF items assms dist] t by simp
qed (auto simp: reads_atoms reads_str reads_int)

section \<open>Writing succeeds, and what was written is read back\<close>

lemma dumps_total: "json_value v \<Longrightarrow> \<exists>t. dumps a v = Inr t"
proof (induction v)
  case (PList xs)
  then have "\<exists>ts. list_all2 (\<lambda>x t. dumps a x = Inr t) xs ts"
    by (intro list_all2_exists) auto
  then show ?case by (auto simp: dumps_list_Inr)
next
  case (PTuple xs)
  then have "\<exists>ts. list_all2 (\<lambda>x t. dumps a x = Inr t) xs ts"
    by (intro list_all2_exists) auto
  then show ?case by (auto simp: dumps_list_Inr)
next
  case (PDict d)
  have "\<exists>es. list_all2 (item_text a) d es"
  proof -
    have "\<exists>e. item_text a kv e" if "kv \<in> set d" for kv
    proof -
      obtain k' v where kv': "kv = (k', v)" by (cases kv)
      with that PDict.prems obtain k where kv: "kv = (PStr k, v)" "json_value v"
        by (auto simp: is_str_iff)
      with that PDict.IH [of kv v] obtain t where "dumps a v = Inr t" by (auto simp: snds.simps)
      then have "item_text a kv (PStr k, json_str a k @ 58 # t)" by (simp add: kv item_text_def)
      then show ?thesis by blast
    qed
    then show ?thesis by (rule list_all2_exists)
  qed
  then obtain es where es: "list_all2 (item_text a) d es" by blast
  moreover from PDict.prems have "sort_entries es = Inr (sort_key (str_of \<circ> fst) es)"
    by (intro sort_entries_str [OF es]) simp
  ultimately show ?case by (auto simp: dumps_items_Inr)
qed auto

lemma json_loads_dumps:
  assumes "dict_hook hk" "json_value v" "dumps False v = Inr t"
  shows "json_loads hk t = Inr (norm v)"
proof -
  from dumps_reads [OF assms] have r: "reads hk t (norm v)" .
  then have "skip_ws t = t" using skip_ws_keep [of t "[]"] by (simp add: reads_def)
  moreover have "jvalue hk (2 * length t + 2) (t @ []) = Inr (norm v, [])"
    by (rule readsD [OF r]) simp_all
  ultimately show ?thesis by (simp add: json_loads_def skip_ws_def del: jvalue.simps)
qed

section \<open>The reader never runs out of fuel\<close>

lemma skip_ws_length: "length (skip_ws s) \<le> length s"
  by (simp add: skip_ws_def length_dropWhile_le)

lemma jstr_length: "jstr s = Inr (t, r) \<Longrightarrow> length r < length s"
proof (induction s arbitrary: t r rule: jstr.induct)
  case (2 c r')
  then show ?case
    by (fastforce simp: jstr.simps(2) split: if_splits list.splits option.splits prod.splits dest: junicode_length)
qed simp

lemma strip_prefix_length: "strip_prefix p s = Some r \<Longrightarrow> length s = length p + length r"
  by (induction p s rule: strip_prefix.induct) (auto split: if_splits)

lemma jfrac_length: "length (snd (jfrac s)) \<le> length s"
  by (auto simp: jfrac_def intro!: le_SucI length_dropWhile_le split: list.splits)

lemma jexp_length: "length (snd (jexp s)) \<le> length s"
proof -
  have "length (dropWhile is_digit_char r) \<le> Suc (length r)" "length (dropWhile is_digit_char r) \<le> Suc (Suc (length r))" for r
    using length_dropWhile_le [of is_digit_char r] by simp_all
  then show ?thesis
    by (auto simp: jexp_def Let_def split: list.splits prod.splits if_splits)
qed

lemma jnumber_length:
  assumes "jnumber hk s = Inr (v, r)"
  shows "length r < length s"
proof -
  define q where "q = (case s of [] \<Rightarrow> s | c # q \<Rightarrow> if c = 45 then q else s)"
  have q: "length q \<le> length s" by (auto simp: q_def split: list.splits)
  from assms obtain c p where qc: "q = c # p" "is_digit_char c"
    by (auto simp: jnumber_def q_def Let_def split: list.splits prod.splits if_splits)
  have r: "r = snd (jexp (snd (jfrac (if c = 48 then p else dropWhile is_digit_char q))))"
    using assms qc
    by (auto simp: jnumber_def q_def Let_def case_prod_beta split: list.splits if_splits)
  have "length (if c = 48 then p else dropWhile is_digit_char q) \<le> length p"
    using qc by (simp add: length_dropWhile_le)
  then have "length r \<le> length p"
    unfolding r by (meson jexp_length jfrac_length order.trans)
  with q qc show ?thesis by simp
qed

lemma jword_length: "jword hk s = Inr (v, r) \<Longrightarrow> length r < length s"
  by (auto simp: jword_def split: option.splits dest: strip_prefix_length jnumber_length)

lemma parse_length:
  "jvalue hk f s = Inr (v, r) \<Longrightarrow> length r < length s"
  "jelements hk f acc s = Inr (v, r) \<Longrightarrow> length r < length s"
  "jmembers hk f acc' s = Inr (v, r) \<Longrightarrow> length r < length s"
proof (induction f arbitrary: s v r acc acc')
  case (Suc f)
  note sl = skip_ws_length
  {
    case 1
    show ?case
    proof (cases s)
      case (Cons c q)
      have "length (skip_ws q) \<le> length q" by (rule sl)
      with 1 Cons Suc.IH(2) [of "[]" "skip_ws q" v r] Suc.IH(3) [of "[]" "skip_ws q" v r] show ?thesis
        by (auto split: if_splits list.splits dest!: jstr_length jword_length)
    qed (use 1 in simp)
  next
    case 2
    then obtain w q where w: "jvalue hk f s = Inr (w, q)" by auto
    then have "length q < length s" by (rule Suc.IH(1))
    moreover obtain c p where cp: "skip_ws q = c # p" using 2 w by (auto split: list.splits)
    moreover have "length (skip_ws q) \<le> length q" "length (skip_ws p) \<le> length p" by (rule sl)+
    ultimately show ?case using 2 w Suc.IH(2) [of "acc @ [w]" "skip_ws p" v r] by (auto split: if_splits)
  next
    case 3
    then obtain c q where s: "s = 34 # q" by (cases s) (auto split: if_splits)
    with 3 obtain k r1 where k: "jstr q = Inr (k, r1)" by auto
    with 3 s obtain r2 where r2: "skip_ws r1 = 58 # r2" by (auto split: list.splits if_splits)
    with 3 s k obtain w r3 where w: "jvalue hk f (skip_ws r2) = Inr (w, r3)" by auto
    with 3 s k r2 obtain e r4 where r4: "skip_ws r3 = e # r4" by (auto split: list.splits)
    have "length r4 < length s"
      using s jstr_length [OF k] sl [of r1] sl [of r2] sl [of r3] Suc.IH(1) [OF w] r2 r4 by simp
    then show ?case
      using 3 s k r2 w r4 sl [of r4] Suc.IH(3) [of "acc' @ [(k, w)]" "skip_ws r4" v r]
      by (auto split: if_splits)
  }
qed simp_all

text \<open>
  A set of exceptions that contains \<open>JSONDecodeError\<close> and whatever the hooks raise. Given enough
  fuel the reader raises nothing else; in particular it never runs out.
\<close>

definition hook_errors :: "json_hooks \<Rightarrow> exn set \<Rightarrow> bool" where
  "hook_errors hk E \<longleftrightarrow> JSONDecodeError \<in> E \<and> (\<forall>x e. object_pairs_hook hk x = Inl e \<longrightarrow> e \<in> E)
     \<and> (\<forall>x e. parse_float hk x = Inl e \<longrightarrow> e \<in> E) \<and> (\<forall>x e. parse_constant hk x = Inl e \<longrightarrow> e \<in> E)"

lemma jstr_errors: "jstr s = Inl e \<Longrightarrow> e = JSONDecodeError"
proof (induction s rule: jstr.induct)
  case (2 c r)
  then show ?case
    by (auto simp: jstr.simps(2) bindE_eq_Inl split: list.splits option.splits prod.splits if_splits)
qed simp

lemma jnumber_errors: "hook_errors hk E \<Longrightarrow> jnumber hk s = Inl e \<Longrightarrow> e \<in> E"
  by (auto simp: jnumber_def hook_errors_def bindE_eq_Inl Let_def split: list.splits prod.splits if_splits)

lemma jword_errors: "hook_errors hk E \<Longrightarrow> jword hk s = Inl e \<Longrightarrow> e \<in> E"
  using jnumber_errors [of hk E s e]
  by (auto simp: jword_def hook_errors_def bindE_eq_Inl split: option.splits)

lemma parse_errors:
  assumes "hook_errors hk E"
  shows "2 * length s < f \<Longrightarrow> jvalue hk f s = Inl e \<Longrightarrow> e \<in> E"
    and "2 * length s + 1 < f \<Longrightarrow> jelements hk f acc s = Inl e \<Longrightarrow> e \<in> E"
    and "2 * length s + 1 < f \<Longrightarrow> jmembers hk f acc' s = Inl e \<Longrightarrow> e \<in> E"
proof (induction f arbitrary: s acc acc')
  case (Suc f)
  note sl = skip_ws_length and jw = jword_errors [OF assms] and he = assms [unfolded hook_errors_def]
  {
    case 1
    show ?case
    proof (cases s)
      case (Cons c q)
      have "2 * length (skip_ws q) + 1 < f" using 1 Cons sl [of q] by simp
      with 1 Cons Suc.IH(2) [of "skip_ws q" "[]"] Suc.IH(3) [of "skip_ws q" "[]"] he jw [of s] show ?thesis
        by (auto simp: bindE_eq_Inl split: list.splits prod.splits if_splits dest: jstr_errors)
    qed (use 1 he in simp)
  next
    case 2
    have v: "jvalue hk f s = Inl e \<Longrightarrow> e \<in> E" using 2 Suc.IH(1) by simp
    have "jelements hk f acc1 (skip_ws p) = Inl e \<Longrightarrow> e \<in> E"
      if "jvalue hk f s = Inr (w, q)" "skip_ws q = c # p" for w q c p acc1
      using 2 parse_length(1) [OF that(1)] that(2) sl [of q] sl [of p] by (intro Suc.IH(2)) simp_all
    note el = this
    show ?case
    proof (cases "jvalue hk f s")
      case (Inr wq)
      obtain w q where wq: "wq = (w, q)" by (cases wq)
      with Inr 2 he el [of w q] show ?thesis by (cases "skip_ws q") (auto split: if_splits)
    qed (use 2 v in simp)
  next
    case 3
    have v: "jvalue hk f (skip_ws r2) = Inl e \<Longrightarrow> e \<in> E"
      if "s = 34 # q" "jstr q = Inr (k, r1)" "skip_ws r1 = d # r2" for q k r1 d r2
      using 3 that jstr_length [OF that(2)] sl [of r1] sl [of r2] by (intro Suc.IH(1)) simp_all
    have el: "jmembers hk f acc1 (skip_ws r4) = Inl e \<Longrightarrow> e \<in> E"
      if "s = 34 # q" "jstr q = Inr (k, r1)" "skip_ws r1 = d # r2" "jvalue hk f (skip_ws r2) = Inr (w, r3)"
         "skip_ws r3 = x # r4" for q k r1 d r2 w r3 x r4 acc1
      using 3 that jstr_length [OF that(2)] parse_length(1) [OF that(4)] sl [of r1] sl [of r2] sl [of r3] sl [of r4]
      by (intro Suc.IH(3)) simp_all
    show ?case
    proof (rule ccontr)
      assume ne: "e \<notin> E"
      with 3 he obtain q where s: "s = 34 # q" by (cases s) (auto split: if_splits)
      with 3 he ne obtain k r1 where k: "jstr q = Inr (k, r1)" by (cases "jstr q") (auto dest: jstr_errors)
      with s 3 he ne obtain r2 where r2: "skip_ws r1 = 58 # r2" by (cases "skip_ws r1") (auto split: if_splits)
      with s k 3 ne v obtain w r3 where w: "jvalue hk f (skip_ws r2) = Inr (w, r3)"
        by (cases "jvalue hk f (skip_ws r2)") auto
      with s k r2 3 he ne obtain x r4 where r4: "skip_ws r3 = x # r4" by (cases "skip_ws r3") auto
      show False using ne s k r2 w r4 3 he el [OF s k r2 w r4] by (auto simp: bindE_eq_Inl split: if_splits)
    qed
  }
qed simp_all

lemma json_loads_errors:
  assumes "hook_errors hk E" "json_loads hk s = Inl e"
  shows "e \<in> E"
proof -
  have "2 * length (skip_ws s) < 2 * length s + 2" using skip_ws_length [of s] by simp
  with assms parse_errors(1) [OF assms(1)] show ?thesis
    by (auto simp: json_loads_def bindE_eq_Inl hook_errors_def simp del: jvalue.simps split: if_splits)
qed

lemma json_loads_fuel: "hook_errors hk E \<Longrightarrow> OutOfFuel \<notin> E \<Longrightarrow> json_loads hk s \<noteq> Inl OutOfFuel"
  using json_loads_errors by blast

section \<open>Writing a value in key order\<close>

lemma norm_dict_items:
  assumes "list_all2 (item_text a) d es" "\<And>kv. kv \<in> set d \<Longrightarrow> dumps a (norm (snd kv)) = dumps a (snd kv)"
  shows "list_all2 (item_text a) (map (\<lambda>(k, v). (k, norm v)) d) es"
  using assms
proof (induction rule: list_all2_induct)
  case (Cons kv d e es)
  have "dumps a (norm (snd kv)) = dumps a (snd kv)" using Cons.prems by simp
  with Cons show ?case by (simp add: item_text_def case_prod_beta)
qed simp

lemma sort_key_idem: "sort_key f (sort_key f xs) = sort_key f xs"
  by (simp add: sort_key_id_if_sorted)

lemma dumps_norm: "json_value v \<Longrightarrow> dumps a (norm v) = dumps a v"
proof (induction v)
  case (PList xs)
  have "dumps_list a (map norm xs) = dumps_list a xs"
    using PList by (induction xs) auto
  then show ?case by simp
next
  case (PTuple xs)
  have "dumps_list a (map norm xs) = dumps_list a xs"
    using PTuple by (induction xs) auto
  then show ?case by simp
next
  case (PDict d)
  let ?n = "map (\<lambda>(k, v). (k, norm v)) d"
  obtain es where es: "list_all2 (item_text a) d es"
    using dumps_total [OF PDict.prems, of a] by (auto simp: dumps_items_Inr)
  have s1: "sort_entries es = Inr (sort_key (str_of \<circ> fst) es)"
    using PDict.prems by (intro sort_entries_str [OF es]) simp
  have "list_all2 (item_text a) ?n es"
    using es PDict by (intro norm_dict_items) (auto simp: snds.simps)
  then have n: "list_all2 (item_text a) (sort_key (str_of \<circ> fst) ?n) (sort_key (str_of \<circ> fst) es)"
    by (rule list_all2_sort_key) (simp add: item_text_def)
  have s2: "sort_entries (sort_key (str_of \<circ> fst) es) = Inr (sort_key (str_of \<circ> fst) es)"
    using PDict.prems by (subst sort_entries_str [OF n]) (auto simp: sort_key_idem)
  have "dumps_items a d = Inr es" "dumps_items a (sort_key (str_of \<circ> fst) ?n) = Inr (sort_key (str_of \<circ> fst) es)"
    using es n by (simp_all add: dumps_items_Inr)
  with s1 s2 show ?case by simp
qed auto

section \<open>Python values and their key order\<close>

text \<open>Every Python dictionary has one entry per key.\<close>

fun py_wf :: "pyval \<Rightarrow> bool" where
  "py_wf (PList xs) = (\<forall>x \<in> set xs. py_wf x)"
| "py_wf (PTuple xs) = (\<forall>x \<in> set xs. py_wf x)"
| "py_wf (PDict d) = (distinct (map fst d) \<and> (\<forall>kv \<in> set d. py_wf (snd kv)))"
| "py_wf _ = True"

lemma encodable_simps [simp]:
  "encodable []" "encodable (a @ b) \<longleftrightarrow> encodable a \<and> encodable b"
  "encodable (c # s) \<longleftrightarrow> \<not> is_surrogate c \<and> c < 1114112 \<and> encodable s"
  by (auto simp: encodable_def)

lemma encodable_ascii: "(\<forall>c \<in> set s. c < 128) \<Longrightarrow> encodable s"
  by (auto simp: encodable_def is_surrogate_def)

lemma encodable_replicate [simp]: "\<not> is_surrogate c \<Longrightarrow> c < 1114112 \<Longrightarrow> encodable (replicate n c)"
  by (simp add: encodable_def)

lemma encodable_lit: "list_all (\<lambda>c. of_char c < (128::nat)) s \<Longrightarrow> encodable (lit s)"
  by (intro encodable_ascii) (auto simp: lit_def list_all_iff)

lemma encodable_dec_int: "encodable (dec_int i)"
  by (rule encodable_ascii) (auto simp: dec_int_def is_digit_char_def dest!: dec_nat_digits)

lemma hex_char_less: "n < 16 \<Longrightarrow> hex_char n < 128"
  by (simp add: hex_char_def)

lemma encodable_json_str: "encodable s \<Longrightarrow> encodable (json_str False s)"
proof -
  have "encodable (esc_char False c)" if "\<not> is_surrogate c" "c < 1114112" for c
  proof (cases "esc_char False c = [c]")
    case False
    then show ?thesis
      by (intro encodable_ascii) (auto simp: esc_char_def u_escape_def hex_char_less split: if_splits)
  qed (use that in simp)
  then show "encodable s \<Longrightarrow> encodable (json_str False s)"
    by (induction s) (auto simp: json_str_def is_surrogate_def)
qed

lemma encodable_join: "(\<forall>t \<in> set ts. encodable t) \<Longrightarrow> encodable (join_comma ts)"
  by (induction ts rule: join_comma.induct) (auto simp: is_surrogate_def)

lemma norm_idem: "json_value v \<Longrightarrow> norm (norm v) = norm v"
proof (induction v)
  case (PDict d)
  let ?n = "map (\<lambda>(k, v). (k, norm v)) d"
  have "map (\<lambda>(k, v). (k, norm v)) (sort_key (str_of \<circ> fst) ?n) = sort_key (str_of \<circ> fst) ?n"
    using PDict by (intro map_idI) (auto simp: snds.simps)
  then show ?case by (simp only: norm.simps sort_key_idem)
qed auto

lemma map_of_sort_key: "distinct (map fst xs) \<Longrightarrow> map_of (sort_key f xs) = map_of xs"
  by (subst map_of_inject_set) (simp_all add: distinct_fst_sort_key)

lemma map_of_map_norm: "map_of (map (\<lambda>(k, v). (k, norm v)) d) k = map_option norm (map_of d k)"
  by (induction d) auto

definition norm_dict :: "pydict \<Rightarrow> pydict" where
  "norm_dict d = sort_key (str_of \<circ> fst) (map (\<lambda>(k, v). (k, norm v)) d)"

lemma norm_PDict: "norm (PDict d) = PDict (norm_dict d)"
  by (simp add: norm_dict_def)

declare norm_PDict [simp]

declare norm.simps(3) [simp del]
lemma map_of_norm_dict: "distinct (map fst d) \<Longrightarrow> map_of (norm_dict d) k = map_option norm (map_of d k)"
proof -
  assume "distinct (map fst d)"
  then have "distinct (map fst (map (\<lambda>(k, v). (k, norm v)) d))" by (simp add: case_prod_beta comp_def)
  then show ?thesis by (simp add: norm_dict_def map_of_sort_key map_of_map_norm)
qed

lemma dget_norm_dict: "distinct (map fst d) \<Longrightarrow> dget (norm_dict d) k = map_option norm (dget d k)"
  by (simp add: dget_def map_of_norm_dict)

lemma dkeys_norm_dict [simp]: "dkeys (norm_dict d) = dkeys d"
  by (force simp: dkeys_def norm_dict_def)

lemma distinct_norm_dict: "distinct (map fst d) \<Longrightarrow> distinct (map fst (norm_dict d))"
  by (simp add: norm_dict_def distinct_fst_sort_key case_prod_beta comp_def)

lemma py_wf_norm: "py_wf v \<Longrightarrow> py_wf (norm v)"
proof (induction v)
  case (PDict d)
  then have "py_wf (snd kv)" if "kv \<in> set (norm_dict d)" for kv
    using that by (auto simp: norm_dict_def snds.simps)
  with PDict show ?case by (auto simp: distinct_norm_dict)
qed auto

lemma norm_list_PStr [simp]: "map norm (map PStr xs) = map PStr xs"
  by simp

lemma jnumber_json_value:
  assumes "\<And>x w. parse_float hk x = Inr w \<Longrightarrow> json_value w" "jnumber hk s = Inr (v, r)"
  shows "json_value v"
proof -
  define q where "q = (case s of [] \<Rightarrow> s | c # q \<Rightarrow> if c = 45 then q else s)"
  from assms(2) obtain c p where qc: "q = c # p" "is_digit_char c"
    by (auto simp: jnumber_def q_def Let_def split: list.splits prod.splits if_splits)
  with assms(2) have "is_int v \<or> (\<exists>x. parse_float hk x = Inr v)"
    unfolding jnumber_def q_def Let_def case_prod_beta
    by (cases s; cases "hd s = 45") (auto split: if_splits)
  with assms(1) show ?thesis by (auto simp: is_int_iff)
qed

lemma jword_json_value:
  assumes "\<And>x w. parse_float hk x = Inr w \<Longrightarrow> json_value w" "\<And>x w. parse_constant hk x = Inr w \<Longrightarrow> json_value w"
  shows "jword hk s = Inr (v, r) \<Longrightarrow> json_value v"
  using assms(2) jnumber_json_value [OF assms(1)] unfolding jword_def by (auto split: option.splits)

lemma jvalue_json_value:
  assumes hk: "\<And>kvs w. \<forall>kv \<in> set kvs. json_value (snd kv) \<Longrightarrow> object_pairs_hook hk kvs = Inr w \<Longrightarrow> json_value w"
    and pf: "\<And>x w. parse_float hk x = Inr w \<Longrightarrow> json_value w"
    and pc: "\<And>x w. parse_constant hk x = Inr w \<Longrightarrow> json_value w"
  shows "jvalue hk f s = Inr (v, r) \<Longrightarrow> json_value v"
    and "\<forall>x \<in> set acc. json_value x \<Longrightarrow> jelements hk f acc s = Inr (v, r) \<Longrightarrow> json_value v"
    and "\<forall>kv \<in> set acc'. json_value (snd kv) \<Longrightarrow> jmembers hk f acc' s = Inr (v, r) \<Longrightarrow> json_value v"
proof (induction f arbitrary: s v r acc acc')
  case (Suc f)
  {
    case 1
    have w: "jword hk s = Inr (v, r) \<Longrightarrow> json_value v" by (rule jword_json_value [OF pf pc])
    show ?case
    proof (cases s)
      case (Cons c q)
      consider "c = 34" | "c = 123" | "c = 91" | "c \<noteq> 34" "c \<noteq> 123" "c \<noteq> 91" by blast
      then show ?thesis
      proof cases
        case 2
        with 1 Cons hk [of "[]"] Suc.IH(3) [of "[]" "skip_ws q" v r] show ?thesis
          by (cases "skip_ws q") (auto split: if_splits)
      next
        case 3
        with 1 Cons Suc.IH(2) [of "[]" "skip_ws q" v r] show ?thesis
          by (cases "skip_ws q") (auto split: if_splits)
      qed (use 1 Cons w in auto)
    qed (use 1 in simp)
  next
    case 2
    then obtain w q where w: "jvalue hk f s = Inr (w, q)" by auto
    then have "json_value w" by (rule Suc.IH(1))
    with 2 w Suc.IH(2) [of "acc @ [w]"] show ?case by (auto split: list.splits if_splits)
  next
    case 3
    then obtain q where s: "s = 34 # q" by (cases s) (auto split: if_splits)
    with 3 obtain k r1 where k: "jstr q = Inr (k, r1)" by auto
    with 3 s obtain r2 where r2: "skip_ws r1 = 58 # r2" by (auto split: list.splits if_splits)
    with 3 s k obtain w r3 where w: "jvalue hk f (skip_ws r2) = Inr (w, r3)" by auto
    then have "json_value w" by (rule Suc.IH(1))
    then have acc: "\<forall>kv \<in> set (acc' @ [(k, w)]). json_value (snd kv)" using 3(1) by simp
    from 3(2) s k r2 w obtain c r4 where r4: "skip_ws r3 = c # r4"
      and out: "(if c = 44 then jmembers hk f (acc' @ [(k, w)]) (skip_ws r4)
        else if c = 125 then bindE (object_pairs_hook hk (acc' @ [(k, w)])) (\<lambda>w. Inr (w, r4))
        else Inl JSONDecodeError) = Inr (v, r)"
      by (cases "skip_ws r3") (simp_all del: bindE_eq_Inr)
    show ?case using out Suc.IH(3) [OF acc] hk [OF acc] by (auto split: if_splits)
  }
qed simp_all

lemma json_value_wf: "json_value v \<Longrightarrow> py_wf v"
  by (induction v) (auto simp: snds.simps)

lemma py_wf_lookup: "map_of d k = Some v \<Longrightarrow> py_wf (PDict d) \<Longrightarrow> py_wf v"
  by (auto dest: map_of_SomeD)

lemma utf8_dec_errors: "utf8_dec bs = Inl e \<Longrightarrow> e = UnicodeError"
proof (induction bs rule: utf8_dec.induct)
  case (2 a r)
  consider "a < 128" | "194 \<le> a" "a < 224" | "224 \<le> a" "a < 240" | "240 \<le> a" "a < 245"
    | "\<not> a < 128" "a < 194 \<or> 245 \<le> a" by linarith
  then show ?case
  proof cases
    case 1
    with 2 show ?thesis by (simp add: utf8_dec.simps(2) bindE_eq_Inl)
  next
    case 2
    with "2.prems" "2.IH"(2) show ?thesis by (simp add: utf8_dec.simps(2) bindE_eq_Inl split: list.splits if_splits)
  next
    case 3
    with "2.prems" "2.IH"(3) show ?thesis by (simp add: utf8_dec.simps(2) bindE_eq_Inl Let_def split: list.splits if_splits)
  next
    case 4
    with "2.prems" "2.IH"(4) show ?thesis by (simp add: utf8_dec.simps(2) bindE_eq_Inl Let_def split: list.splits if_splits)
  qed (use 2 in \<open>auto simp: utf8_dec.simps(2)\<close>)
qed simp

text \<open>The dictionary stored under a key, when there is one and it is a dictionary.\<close>

definition dict_at :: "pyval \<Rightarrow> pyval \<Rightarrow> pydict option" where
  "dict_at v k = (case dict_of v of None \<Rightarrow> None | Some d \<Rightarrow> Option.bind (map_of d k) dict_of)"

lemma dict_at_Some: "dict_at v k = Some e \<longleftrightarrow> (\<exists>d. v = PDict d \<and> map_of d k = Some (PDict e))"
  by (auto simp: dict_at_def bind_eq_Some_conv split: option.splits)

lemma dict_at_wf: "dict_at v k = Some e \<Longrightarrow> py_wf v \<Longrightarrow> py_wf (PDict e)"
  by (auto simp: dict_at_Some simp del: py_wf.simps(3) intro: py_wf_lookup)

lemma digest_encodable: "is_digest s \<Longrightarrow> encodable s"
  by (rule encodable_ascii) (auto simp: is_digest_def is_lower_hex_def is_digit_char_def)

lemma dget_or_norm: "distinct (map fst d) \<Longrightarrow> dget_or (norm_dict d) k PNone = norm (dget_or d k PNone)"
  by (auto simp: dget_or_def dget_norm_dict split: option.splits)

lemma norm_dict_Nil [simp]: "norm_dict [] = []" "[] = norm_dict d \<longleftrightarrow> d = []" "norm_dict d = [] \<longleftrightarrow> d = []"
  using length_sort [of "str_of \<circ> fst" "map (\<lambda>(k, v). (k, norm v)) d"]
  by (auto simp: norm_dict_def simp del: length_sort)

lemma set_norm_dict: "set (norm_dict d) = (\<lambda>(k, v). (k, norm v)) ` set d"
  by (simp add: norm_dict_def)

end
