(* ===== verification/Durable_Wire.thy ===== *)
theory Durable_Wire
  imports Json_Lemmas
begin

text \<open>
  \<open>service_foundation/coordination/durable_wire.py\<close>: canonical JSON bytes, the request frozen
  as an \<open>IntentDraft\<close>, the \<open>GlobalIntent\<close> bound to its coordinates, and the projection of an
  intent for one participant. Constructors take Python values, because their \<open>__post_init__\<close>
  checks the types of what they are given; a constructed record holds typed fields.
\<close>

section \<open>Canonical bytes\<close>

definition INTENT_SCHEMA :: pystr where
  "INTENT_SCHEMA = lit ''durable-transaction-intent.v1''"

definition PROJECTION_FIELDS :: "string list" where
  "PROJECTION_FIELDS = [''participant'', ''binding_kind'', ''binding_ref'', ''target_scope'',
    ''target_incarnation'', ''action'', ''before_revision'', ''candidate_revision'',
    ''candidate_digest'', ''dependency_revisions'', ''actor_subject'', ''actor_kind'', ''provisioning'']"

fun wire_pairs :: "(pystr \<times> pyval) list \<Rightarrow> pydict \<Rightarrow> exn + pyval" where
  "wire_pairs [] result = Inr (PDict result)"
| "wire_pairs ((key, v) # vs) result =
     (if PStr key \<in> fst ` set result then Inl (WireRefused ''duplicate_json_key'')
      else wire_pairs vs (result @ [(PStr key, v)]))"

definition wire_hooks :: json_hooks where
  "wire_hooks = \<lparr>object_pairs_hook = (\<lambda>kvs. wire_pairs kvs []),
     parse_float = (\<lambda>_. Inl (WireRefused ''non_integer_number'')),
     parse_constant = (\<lambda>_. Inl (WireRefused ''non_json_number''))\<rparr>"

fun wire_check :: "pyval \<Rightarrow> exn + unit"
  and wire_check_list :: "pyval list \<Rightarrow> exn + unit"
  and wire_check_items :: "(pyval \<times> pyval) list \<Rightarrow> exn + unit" where
  "wire_check PNone = Inr ()"
| "wire_check (PBool _) = Inr ()"
| "wire_check (PInt _) = Inr ()"
| "wire_check (PStr s) = requireE (encodable s) (WireRefused ''invalid_unicode'')"
| "wire_check (PList xs) = wire_check_list xs"
| "wire_check (PTuple xs) = wire_check_list xs"
| "wire_check (PDict d) = wire_check_items d"
| "wire_check (PFloat _ _) = Inl (WireRefused ''unsupported_json_value'')"
| "wire_check (PObj _) = Inl (WireRefused ''unsupported_json_value'')"
| "wire_check_list [] = Inr ()"
| "wire_check_list (x # xs) = bindE (wire_check x) (\<lambda>_. wire_check_list xs)"
| "wire_check_items [] = Inr ()"
| "wire_check_items ((k, v) # d) = bindE (requireE (is_str k) (WireRefused ''non_string_key''))
     (\<lambda>_. bindE (requireE (encodable (str_of k)) (WireRefused ''invalid_unicode''))
     (\<lambda>_. bindE (wire_check v) (\<lambda>_. wire_check_items d)))"

definition canonical_json_bytes :: "pyval \<Rightarrow> exn + bytes" where
  "canonical_json_bytes v = bindE (wire_check v) (\<lambda>_. bindE (dumps False v) utf8_encode)"

definition parse_canonical_json_bytes :: "bytes \<Rightarrow> exn + pyval" where
  "parse_canonical_json_bytes data =
     (case bindE (utf8_decode data) (json_loads wire_hooks) of
        Inl e \<Rightarrow> Inl (if e = UnicodeError \<or> e = JSONDecodeError then WireRefused ''invalid_json'' else e)
      | Inr v \<Rightarrow> bindE (canonical_json_bytes v) (\<lambda>b.
          if b \<noteq> data then Inl (WireRefused ''non_canonical_json'') else Inr v))"

definition sha256_hex :: "bytes \<Rightarrow> pystr" where
  "sha256_hex data = sha256_hexdigest data"

fun wire_nonempty :: "pyval \<Rightarrow> bool" where
  "wire_nonempty (PStr s) = (s \<noteq> [])"
| "wire_nonempty _ = False"

text \<open>The condition both constructors share: a non-empty sequence of distinct non-empty names.\<close>

definition participants_ok :: "pyval \<Rightarrow> bool" where
  "participants_ok ps = (case seq_of ps of None \<Rightarrow> False
     | Some xs \<Rightarrow> xs \<noteq> [] \<and> list_all wire_nonempty xs \<and> distinct xs)"

definition names_of :: "pyval \<Rightarrow> pystr list" where
  "names_of ps = (case seq_of ps of None \<Rightarrow> [] | Some xs \<Rightarrow> map str_of xs)"

section \<open>Global intent\<close>

record global_intent =
  gi_transaction_id :: pystr
  gi_epoch :: int
  gi_request_id :: pystr
  gi_expires_at :: int
  gi_participants :: "pystr list"
  gi_payload :: pydict
  gi_bytes :: bytes

definition intent_mapping :: "pystr \<Rightarrow> int \<Rightarrow> pystr \<Rightarrow> int \<Rightarrow> pystr list \<Rightarrow> pydict \<Rightarrow> pyval" where
  "intent_mapping tid ep rid expires ps payload = obj [
     (''schema'', PStr INTENT_SCHEMA), (''transaction_id'', PStr tid), (''epoch'', PInt ep),
     (''request_id'', PStr rid), (''expires_at'', PInt expires),
     (''participants'', PList (map PStr ps)), (''payload'', PDict payload)]"

definition mk_global_intent ::
    "pyval \<Rightarrow> pyval \<Rightarrow> pyval \<Rightarrow> pyval \<Rightarrow> pyval \<Rightarrow> pyval \<Rightarrow> exn + global_intent" where
  "mk_global_intent tid ep rid expires ps payload =
     (if \<not> wire_nonempty tid \<or> \<not> is_int ep \<or> int_of ep < 1 \<or> \<not> wire_nonempty rid
         \<or> \<not> is_int expires \<or> int_of expires < 0 \<or> \<not> participants_ok ps \<or> dict_of payload = None
      then Inl (WireRefused ''intent_invalid'')
      else bindE (canonical_json_bytes (intent_mapping (str_of tid) (int_of ep) (str_of rid) (int_of expires)
                    (names_of ps) (the (dict_of payload))))
             (\<lambda>b. Inr \<lparr>gi_transaction_id = str_of tid, gi_epoch = int_of ep, gi_request_id = str_of rid,
                       gi_expires_at = int_of expires, gi_participants = names_of ps,
                       gi_payload = the (dict_of payload), gi_bytes = b\<rparr>))"

definition canonical_bytes :: "global_intent \<Rightarrow> bytes" where
  "canonical_bytes i = gi_bytes i"

definition gi_digest :: "global_intent \<Rightarrow> pystr" where
  "gi_digest i = sha256_hex (gi_bytes i)"

definition as_mapping :: "global_intent \<Rightarrow> exn + pyval" where
  "as_mapping i = parse_canonical_json_bytes (gi_bytes i)"

definition INTENT_KEYS :: "string list" where
  "INTENT_KEYS = [''schema'', ''transaction_id'', ''epoch'', ''request_id'', ''expires_at'',
     ''participants'', ''payload'']"

definition from_canonical_bytes :: "bytes \<Rightarrow> exn + global_intent" where
  "from_canonical_bytes data = bindE (parse_canonical_json_bytes data) (\<lambda>v.
     case v of PDict d \<Rightarrow>
        if dkeys d \<noteq> lits INTENT_KEYS \<or> dget d ''schema'' \<noteq> Some (PStr INTENT_SCHEMA)
        then Inl (WireRefused ''intent_schema_invalid'')
        else (case dget d ''participants'' of
            Some (PList ps) \<Rightarrow> mk_global_intent (dget_or d ''transaction_id'' PNone) (dget_or d ''epoch'' PNone)
              (dget_or d ''request_id'' PNone) (dget_or d ''expires_at'' PNone) (PTuple ps)
              (dget_or d ''payload'' PNone)
          | _ \<Rightarrow> Inl (WireRefused ''intent_invalid''))
      | _ \<Rightarrow> Inl (WireRefused ''intent_schema_invalid''))"

section \<open>Intent draft\<close>

record intent_draft =
  draft_replay_scope :: pystr
  draft_request_id :: pystr
  draft_expires_at :: int
  draft_participants :: "pystr list"
  draft_payload :: pydict
  draft_payload_bytes :: bytes

definition mk_intent_draft ::
    "pyval \<Rightarrow> pyval \<Rightarrow> pyval \<Rightarrow> pyval \<Rightarrow> pyval \<Rightarrow> exn + intent_draft" where
  "mk_intent_draft scope rid expires ps payload =
     (if \<not> wire_nonempty scope \<or> \<not> wire_nonempty rid \<or> \<not> is_int expires \<or> int_of expires < 0
         \<or> \<not> participants_ok ps \<or> dict_of payload = None
      then Inl (WireRefused ''intent_draft_invalid'')
      else bindE (canonical_json_bytes payload)
             (\<lambda>b. Inr \<lparr>draft_replay_scope = str_of scope, draft_request_id = str_of rid,
                       draft_expires_at = int_of expires, draft_participants = names_of ps,
                       draft_payload = the (dict_of payload), draft_payload_bytes = b\<rparr>))"

definition draft_bind :: "intent_draft \<Rightarrow> pystr \<Rightarrow> int \<Rightarrow> exn + global_intent" where
  "draft_bind d tid ep = bindE (parse_canonical_json_bytes (draft_payload_bytes d)) (\<lambda>payload.
     mk_global_intent (PStr tid) (PInt ep) (PStr (draft_request_id d)) (PInt (draft_expires_at d))
       (PTuple (map PStr (draft_participants d))) payload)"

section \<open>Participant projection\<close>

definition revision_ok :: "pydict \<Rightarrow> bool" where
  "revision_ok sel =
     (let before = dget_or sel ''before_revision'' PNone; candidate = dget_or sel ''candidate_revision'' PNone
      in \<not> (\<not> is_int before \<or> int_of before < 0
            \<or> int_of before = 0 \<and> dget_or sel ''action'' PNone \<noteq> PStr (lit ''create'')
            \<or> \<not> is_int candidate \<or> int_of candidate < 1))"

definition dependencies_ok :: "pydict \<Rightarrow> bool" where
  "dependencies_ok sel =
     (case dget_or sel ''dependency_revisions'' PNone of
        PDict deps \<Rightarrow> list_all (\<lambda>(name, revision). wire_nonempty name \<and> is_int revision \<and> 1 \<le> int_of revision) deps
      | _ \<Rightarrow> False)"

definition participant_projection :: "global_intent \<Rightarrow> pystr \<Rightarrow> exn + pydict" where
  "participant_projection i participant =
     (if participant \<notin> set (gi_participants i) then Inl (WireRefused ''participant_unknown'')
      else bindE (as_mapping i) (\<lambda>m.
        case Option.bind (dict_at m (PStr (lit ''payload'')))
               (\<lambda>p. dict_at (PDict p) (PStr (lit ''participant_inputs''))) of
          None \<Rightarrow> Inl (WireRefused ''participant_inputs_invalid'')
        | Some ins \<Rightarrow>
           if dkeys ins \<noteq> PStr ` set (gi_participants i) then Inl (WireRefused ''participant_inputs_invalid'')
           else (case dict_at (PDict ins) (PStr participant) of
               None \<Rightarrow> Inl (WireRefused ''participant_input_invalid'')
             | Some sel \<Rightarrow>
                if dkeys sel \<noteq> lits PROJECTION_FIELDS then Inl (WireRefused ''participant_input_invalid'')
                else if dget sel ''participant'' \<noteq> Some (PStr participant)
                then Inl (WireRefused ''participant_input_mismatch'')
                else if \<not> revision_ok sel then Inl (WireRefused ''revision_invalid'')
                else if \<not> dependencies_ok sel then Inl (WireRefused ''dependency_revision_invalid'')
                else Inr ((PStr (lit ''global_intent_digest''), PStr (gi_digest i)) # sel))))"

definition projection_digest :: "global_intent \<Rightarrow> pystr \<Rightarrow> exn + pystr" where
  "projection_digest i participant = bindE (participant_projection i participant) (\<lambda>p.
     bindE (canonical_json_bytes (PDict p)) (\<lambda>b. Inr (sha256_hex b)))"

definition verify_participant_projection :: "global_intent \<Rightarrow> pystr \<Rightarrow> pyval \<Rightarrow> exn + pystr" where
  "verify_participant_projection i participant supplied =
     (if dict_of supplied = None then Inl (WireRefused ''projection_invalid'')
      else bindE (participant_projection i participant) (\<lambda>expected.
        bindE (canonical_json_bytes supplied) (\<lambda>sb.
        bindE (canonical_json_bytes (PDict expected)) (\<lambda>eb.
          if sb \<noteq> eb then Inl (WireRefused ''projection_mismatch'') else Inr (sha256_hex eb)))))"

section \<open>Lemmas\<close>

lemma wire_pairs_distinct:
  "distinct (map fst kvs) \<Longrightarrow> fst ` set result \<inter> PStr ` fst ` set kvs = {} \<Longrightarrow>
   wire_pairs kvs result = Inr (PDict (result @ map (\<lambda>(k, v). (PStr k, v)) kvs))"
proof (induction kvs result rule: wire_pairs.induct)
  case (2 key v vs result)
  then have "PStr key \<notin> fst ` set result" by auto
  moreover have "fst ` set (result @ [(PStr key, v)]) \<inter> PStr ` fst ` set vs = {}" using "2.prems" by auto
  ultimately show ?case using 2 by simp
qed simp

lemma wire_dict_hook [simp]: "dict_hook wire_hooks"
  by (simp add: dict_hook_def wire_hooks_def wire_pairs_distinct)

lemma wire_pairs_errors: "wire_pairs kvs r = Inl e \<Longrightarrow> e = WireRefused ''duplicate_json_key''"
  by (induction kvs r rule: wire_pairs.induct) (auto split: if_splits)

lemma wire_hook_errors: "hook_errors wire_hooks (insert JSONDecodeError (range WireRefused))"
  by (auto simp: hook_errors_def wire_hooks_def dest: wire_pairs_errors)

lemma wire_check_list_iff: "wire_check_list xs = Inr u \<longleftrightarrow> (\<forall>x \<in> set xs. wire_check x = Inr ())"
  by (induction xs) auto

lemma wire_check_items_iff: "wire_check_items d = Inr u \<longleftrightarrow>
   (\<forall>kv \<in> set d. is_str (fst kv) \<and> encodable (str_of (fst kv)) \<and> wire_check (snd kv) = Inr ())"
  by (induction d) auto

lemma wire_check_json_value: "wire_check v = Inr () \<Longrightarrow> py_wf v \<Longrightarrow> json_value v"
  by (induction v) (auto simp: wire_check_list_iff wire_check_items_iff snds.simps)

lemma encodable_dumps: "wire_check v = Inr () \<Longrightarrow> dumps False v = Inr t \<Longrightarrow> encodable t"
proof (induction v arbitrary: t)
  case (PList xs)
  then obtain ts where ts: "list_all2 (\<lambda>x t. dumps False x = Inr t) xs ts" "t = 91 # join_comma ts @ [93]"
    by (auto simp: dumps_list_Inr)
  then have "\<forall>u \<in> set ts. encodable u"
    using PList by (auto simp: wire_check_list_iff in_set_conv_nth list_all2_conv_all_nth) (metis nth_mem)
  with ts show ?case by (simp add: encodable_join is_surrogate_def)
next
  case (PTuple xs)
  then obtain ts where ts: "list_all2 (\<lambda>x t. dumps False x = Inr t) xs ts" "t = 91 # join_comma ts @ [93]"
    by (auto simp: dumps_list_Inr)
  then have "\<forall>u \<in> set ts. encodable u"
    using PTuple by (auto simp: wire_check_list_iff in_set_conv_nth list_all2_conv_all_nth) (metis nth_mem)
  with ts show ?case by (simp add: encodable_join is_surrogate_def)
next
  case (PDict d)
  then have k: "\<forall>kv \<in> set d. is_str (fst kv) \<and> encodable (str_of (fst kv)) \<and> wire_check (snd kv) = Inr ()"
    by (simp add: wire_check_items_iff)
  with PDict.prems obtain es where es: "list_all2 (item_text False) d es"
    and t: "t = 123 # join_comma (map snd (sort_key (str_of \<circ> fst) es)) @ [125]"
    by (auto simp: dumps_items_Inr sort_entries_str)
  have "encodable (snd e)" if "e \<in> set es" for e
  proof -
    from that es obtain kv where kv: "kv \<in> set d" "item_text False kv e"
      by (metis in_set_conv_nth list_all2_conv_all_nth)
    obtain k' v where kv': "kv = (k', v)" by (cases kv)
    with kv k obtain s u where s: "kv = (PStr s, v)" "dumps False v = Inr u" "snd e = json_str False s @ 58 # u"
      by (auto simp: item_text_def is_str_iff)
    then have "encodable u" using PDict.IH [of kv v u] k kv by (auto simp: snds.simps)
    with s k kv show ?thesis by (auto simp: encodable_json_str is_surrogate_def)
  qed
  then show ?case by (simp add: t encodable_join is_surrogate_def)
qed (auto simp: encodable_lit encodable_dec_int encodable_json_str)

lemma canonical_json_bytes_Inr:
  assumes "canonical_json_bytes v = Inr b"
  obtains t where "wire_check v = Inr ()" "dumps False v = Inr t" "utf8_encode t = Inr b"
  using assms by (auto simp: canonical_json_bytes_def)

lemma canonical_json_bytes_ok: "wire_check v = Inr () \<Longrightarrow> py_wf v \<Longrightarrow> \<exists>b. canonical_json_bytes v = Inr b"
proof -
  assume a: "wire_check v = Inr ()" "py_wf v"
  then obtain t where t: "dumps False v = Inr t" using dumps_total wire_check_json_value by blast
  with a have "encodable t" using encodable_dumps by blast
  with a t show ?thesis by (simp add: canonical_json_bytes_def utf8_encode_def)
qed

lemma canonical_errors: "py_wf v \<Longrightarrow> canonical_json_bytes v = Inl e \<Longrightarrow> wire_check v = Inl e"
  using canonical_json_bytes_ok [of v] by (cases "wire_check v") (auto simp: canonical_json_bytes_def)

lemma wire_check_errors:
  "wire_check v = Inl e \<Longrightarrow> e \<in> range WireRefused"
  "wire_check_list xs = Inl e \<Longrightarrow> e \<in> range WireRefused"
  "wire_check_items d = Inl e \<Longrightarrow> e \<in> range WireRefused"
  by (induction v and xs and d rule: wire_check_wire_check_list_wire_check_items.induct)
    (auto simp: bindE_eq_Inl)

lemma wire_check_norm_iff: "wire_check (norm v) = Inr () \<longleftrightarrow> wire_check v = Inr ()"
proof (induction v)
  case (PDict d)
  have "(\<forall>kv \<in> set (norm_dict d). Q (fst kv) \<and> wire_check (snd kv) = Inr ()) \<longleftrightarrow>
        (\<forall>kv \<in> set d. Q (fst kv) \<and> wire_check (snd kv) = Inr ())" for Q
    using PDict by (auto simp: norm_dict_def snds.simps)
  from this [of "\<lambda>k. is_str k \<and> encodable (str_of k)"] show ?case by (simp add: wire_check_items_iff)
qed (auto simp: wire_check_list_iff)

lemma wire_check_norm: "wire_check v = Inr () \<Longrightarrow> wire_check (norm v) = Inr ()"
  by (simp add: wire_check_norm_iff)

lemma canonical_norm: "wire_check v = Inr () \<Longrightarrow> py_wf v \<Longrightarrow> canonical_json_bytes (norm v) = canonical_json_bytes v"
  by (simp add: canonical_json_bytes_def wire_check_norm dumps_norm wire_check_json_value)

lemma json_loads_canonical:
  assumes "canonical_json_bytes v = Inr b" "py_wf v"
  shows "bindE (utf8_decode b) (json_loads wire_hooks) = Inr (norm v)"
proof -
  from assms(1) obtain t where t: "wire_check v = Inr ()" "dumps False v = Inr t" "utf8_encode t = Inr b"
    by (rule canonical_json_bytes_Inr)
  with assms(2) have "json_loads wire_hooks t = Inr (norm v)"
    by (intro json_loads_dumps wire_dict_hook wire_check_json_value)
  with t show ?thesis by (simp add: utf8_round_trip)
qed

lemma parse_canonical_round_trip:
  assumes "canonical_json_bytes v = Inr b" "py_wf v"
  shows "parse_canonical_json_bytes b = Inr (norm v)"
proof -
  from assms have "wire_check v = Inr ()" by (auto elim: canonical_json_bytes_Inr)
  with assms have "canonical_json_bytes (norm v) = Inr b" by (simp add: canonical_norm)
  with json_loads_canonical [OF assms] show ?thesis
    unfolding parse_canonical_json_bytes_def by (simp del: bindE_eq_Inr)
qed

lemma canonical_inj:
  assumes "canonical_json_bytes v = Inr b" "canonical_json_bytes w = Inr b" "py_wf v" "py_wf w"
  shows "norm v = norm w"
  using parse_canonical_round_trip [of v b] parse_canonical_round_trip [of w b] assms by simp

text \<open>What the constructor guarantees of a global intent, for a payload that is a Python dictionary.\<close>

abbreviation intent_value :: "global_intent \<Rightarrow> pyval" where
  "intent_value i \<equiv> intent_mapping (gi_transaction_id i) (gi_epoch i) (gi_request_id i) (gi_expires_at i)
     (gi_participants i) (gi_payload i)"

definition intent_ok :: "global_intent \<Rightarrow> bool" where
  "intent_ok i \<longleftrightarrow> gi_transaction_id i \<noteq> [] \<and> 1 \<le> gi_epoch i \<and> gi_request_id i \<noteq> [] \<and> 0 \<le> gi_expires_at i
     \<and> gi_participants i \<noteq> [] \<and> [] \<notin> set (gi_participants i) \<and> distinct (gi_participants i)
     \<and> py_wf (PDict (gi_payload i)) \<and> canonical_json_bytes (intent_value i) = Inr (gi_bytes i)"

lemma wire_nonempty_iff: "wire_nonempty v \<longleftrightarrow> (\<exists>s. v = PStr s \<and> s \<noteq> [])"
  by (cases v) auto

lemma participants_ok_names:
  "participants_ok ps \<Longrightarrow> names_of ps \<noteq> [] \<and> [] \<notin> set (names_of ps) \<and> distinct (names_of ps)"
proof -
  assume a: "participants_ok ps"
  then obtain xs where xs: "seq_of ps = Some xs" "xs \<noteq> []" "list_all wire_nonempty xs" "distinct xs"
    by (auto simp: participants_ok_def split: option.splits)
  then have "list_all is_str xs" by (auto simp: list_all_iff wire_nonempty_iff)
  then have "distinct (map str_of xs)" using xs distinct_str_of by (simp add: list_all_iff)
  with xs show ?thesis by (auto simp: names_of_def list_all_iff wire_nonempty_iff)
qed

lemma participants_ok_map [simp]:
  "participants_ok (PTuple (map PStr ps)) \<longleftrightarrow> ps \<noteq> [] \<and> [] \<notin> set ps \<and> distinct ps"
  by (auto simp: participants_ok_def list_all_iff distinct_map inj_on_def)

lemma names_of_map [simp]: "names_of (PTuple (map PStr ps)) = ps"
  by (simp add: names_of_def comp_def)

lemma mk_global_intent_ok:
  assumes "mk_global_intent tid ep rid expires ps payload = Inr i" "py_wf payload"
  shows "intent_ok i"
  using assms
  by (auto simp: mk_global_intent_def intent_ok_def wire_nonempty_iff is_int_iff simp del: py_wf.simps(3)
      dest: participants_ok_names split: if_splits)

lemma mk_global_intent_rebuild:
  assumes "intent_ok i"
  shows "mk_global_intent (PStr (gi_transaction_id i)) (PInt (gi_epoch i)) (PStr (gi_request_id i))
           (PInt (gi_expires_at i)) (PTuple (map PStr (gi_participants i))) (PDict (gi_payload i)) = Inr i"
  using assms by (simp add: mk_global_intent_def intent_ok_def)

lemma intent_value_wf: "py_wf (PDict (gi_payload i)) \<Longrightarrow> py_wf (intent_value i)"
  by (auto simp: intent_mapping_def obj_def lit_inj)

definition intent_norm :: "global_intent \<Rightarrow> global_intent" where
  "intent_norm i = i\<lparr>gi_payload := norm_dict (gi_payload i)\<rparr>"

lemma wire_check_intent_value:
  "wire_check (intent_mapping tid ep rid expires ps d) = Inr () \<longleftrightarrow> encodable tid \<and> encodable rid
     \<and> (\<forall>p \<in> set ps. encodable p) \<and> wire_check (PDict d) = Inr ()"
proof -
  have "encodable (lit k)" if "k \<in> set INTENT_KEYS" for k
    using that by (intro encodable_lit) (auto simp: INTENT_KEYS_def)
  moreover have "encodable INTENT_SCHEMA" unfolding INTENT_SCHEMA_def by (intro encodable_lit) simp
  ultimately show ?thesis
    by (auto simp: intent_mapping_def obj_def INTENT_KEYS_def wire_check_list_iff)
qed

lemma norm_dict_value_eq:
  assumes "wire_check (PDict d) = Inr ()" "py_wf (PDict d)"
  shows "dumps False (PDict (norm_dict d)) = dumps False (PDict d)" "norm (PDict (norm_dict d)) = norm (PDict d)"
  using dumps_norm [of "PDict d" False] norm_idem [of "PDict d"] wire_check_json_value [OF assms] by simp_all

lemma intent_norm_value:
  assumes "intent_ok i"
  shows "canonical_json_bytes (intent_value (intent_norm i)) = Inr (gi_bytes i)"
proof -
  from assms obtain t where t: "wire_check (intent_value i) = Inr ()" "dumps False (intent_value i) = Inr t"
      "utf8_encode t = Inr (gi_bytes i)" "py_wf (PDict (gi_payload i))"
    by (auto simp: intent_ok_def elim: canonical_json_bytes_Inr)
  then have p: "wire_check (PDict (gi_payload i)) = Inr ()" by (simp add: wire_check_intent_value)
  from wire_check_norm [OF p] t have "wire_check (intent_value (intent_norm i)) = Inr ()"
    by (simp add: intent_norm_def wire_check_intent_value)
  moreover have "dumps False (intent_value (intent_norm i)) = dumps False (intent_value i)"
    using norm_dict_value_eq(1) [OF p t(4)]
    by (simp add: intent_norm_def intent_mapping_def obj_def del: dumps.simps(7)) (simp add: dumps.simps(7) [of False "_ # _"])
  ultimately show ?thesis using t by (simp add: canonical_json_bytes_def)
qed

lemma intent_norm_ok: "intent_ok i \<Longrightarrow> intent_ok (intent_norm i)"
  using intent_norm_value [of i] py_wf_norm [of "PDict (gi_payload i)"]
  by (simp add: intent_ok_def intent_norm_def)

lemma dget_intent_norm:
  assumes "intent_ok i"
  obtains d where "parse_canonical_json_bytes (gi_bytes i) = Inr (PDict d)" "dkeys d = lits INTENT_KEYS"
    "dget d ''schema'' = Some (PStr INTENT_SCHEMA)" "dget d ''transaction_id'' = Some (PStr (gi_transaction_id i))"
    "dget d ''epoch'' = Some (PInt (gi_epoch i))" "dget d ''request_id'' = Some (PStr (gi_request_id i))"
    "dget d ''expires_at'' = Some (PInt (gi_expires_at i))"
    "dget d ''participants'' = Some (PList (map PStr (gi_participants i)))"
    "dget d ''payload'' = Some (PDict (norm_dict (gi_payload i)))"
proof -
  let ?m = "map (\<lambda>(k, v). (PStr (lit k), v)) [
     (''schema'', PStr INTENT_SCHEMA), (''transaction_id'', PStr (gi_transaction_id i)), (''epoch'', PInt (gi_epoch i)),
     (''request_id'', PStr (gi_request_id i)), (''expires_at'', PInt (gi_expires_at i)),
     (''participants'', PList (map PStr (gi_participants i))), (''payload'', PDict (gi_payload i))]"
  have v: "intent_value i = PDict ?m" by (simp only: intent_mapping_def obj_def)
  have dist: "distinct (map fst ?m)" by (simp add: lit_inj)
  have "parse_canonical_json_bytes (gi_bytes i) = Inr (norm (intent_value i))"
    using assms by (intro parse_canonical_round_trip intent_value_wf) (auto simp: intent_ok_def)
  then have "parse_canonical_json_bytes (gi_bytes i) = Inr (PDict (norm_dict ?m))" by (simp only: v norm_PDict)
  moreover have "dkeys (norm_dict ?m) = lits INTENT_KEYS"
    by (simp only: dkeys_norm_dict dkeys_obj INTENT_KEYS_def) simp
  ultimately show ?thesis
    by (rule that) (simp_all only: dget_norm_dict [OF dist] dget_map_obj, simp_all)
qed

lemma from_canonical_bytes_ok:
  assumes "intent_ok i"
  shows "from_canonical_bytes (gi_bytes i) = Inr (intent_norm i)"
proof -
  from assms obtain d where d: "parse_canonical_json_bytes (gi_bytes i) = Inr (PDict d)" "dkeys d = lits INTENT_KEYS"
    "dget d ''schema'' = Some (PStr INTENT_SCHEMA)" "dget d ''transaction_id'' = Some (PStr (gi_transaction_id i))"
    "dget d ''epoch'' = Some (PInt (gi_epoch i))" "dget d ''request_id'' = Some (PStr (gi_request_id i))"
    "dget d ''expires_at'' = Some (PInt (gi_expires_at i))"
    "dget d ''participants'' = Some (PList (map PStr (gi_participants i)))"
    "dget d ''payload'' = Some (PDict (norm_dict (gi_payload i)))"
    by (rule dget_intent_norm)
  have "mk_global_intent (PStr (gi_transaction_id i)) (PInt (gi_epoch i)) (PStr (gi_request_id i))
     (PInt (gi_expires_at i)) (PTuple (map PStr (gi_participants i))) (PDict (norm_dict (gi_payload i))) = Inr (intent_norm i)"
    using mk_global_intent_rebuild [OF intent_norm_ok [OF assms]] by (simp add: intent_norm_def)
  with d show ?thesis by (simp add: from_canonical_bytes_def dget_or_def)
qed

lemma norm_dict_parsed:
  assumes "parse_canonical_json_bytes b = Inr (PDict d)" "canonical_json_bytes v = Inr b" "py_wf v"
  shows "norm_dict d = d \<and> py_wf (PDict d)"
proof -
  have n: "norm v = PDict d" using parse_canonical_round_trip [OF assms(2,3)] assms(1) by simp
  have "json_value v" using assms by (auto intro: wire_check_json_value elim: canonical_json_bytes_Inr)
  then have "norm (PDict d) = PDict d" using norm_idem [of v] n by simp
  moreover have "py_wf (PDict d)" using py_wf_norm [OF assms(3)] n by simp
  ultimately show ?thesis by simp
qed

text \<open>A draft whose payload is a Python dictionary.\<close>

definition draft_ok :: "intent_draft \<Rightarrow> bool" where
  "draft_ok d \<longleftrightarrow> draft_replay_scope d \<noteq> [] \<and> py_wf (PDict (draft_payload d))
     \<and> canonical_json_bytes (PDict (draft_payload d)) = Inr (draft_payload_bytes d)"

lemma mk_intent_draft_ok:
  "mk_intent_draft scope rid expires ps payload = Inr d \<Longrightarrow> py_wf payload \<Longrightarrow> draft_ok d"
  by (auto simp: mk_intent_draft_def draft_ok_def wire_nonempty_iff simp del: py_wf.simps(3) split: if_splits)

lemma draft_bind_ok:
  assumes "draft_bind d tid ep = Inr i" "draft_ok d"
  shows "intent_ok i \<and> intent_norm i = i \<and> gi_transaction_id i = tid \<and> gi_epoch i = ep
    \<and> gi_request_id i = draft_request_id d \<and> gi_expires_at i = draft_expires_at d
    \<and> gi_participants i = draft_participants d"
proof -
  from assms(1) obtain payload where p: "parse_canonical_json_bytes (draft_payload_bytes d) = Inr payload"
    and mk: "mk_global_intent (PStr tid) (PInt ep) (PStr (draft_request_id d)) (PInt (draft_expires_at d))
       (PTuple (map PStr (draft_participants d))) payload = Inr i"
    by (auto simp: draft_bind_def)
  from mk obtain q where q: "payload = PDict q" by (auto simp: mk_global_intent_def split: if_splits)
  with p assms(2) have n: "norm_dict q = q \<and> py_wf (PDict q)"
    unfolding draft_ok_def by (intro norm_dict_parsed [where v = "PDict (draft_payload d)"]) blast+
  with mk q have "intent_ok i" using mk_global_intent_ok by blast
  moreover have "gi_payload i = q \<and> gi_transaction_id i = tid \<and> gi_epoch i = ep
    \<and> gi_request_id i = draft_request_id d \<and> gi_expires_at i = draft_expires_at d
    \<and> gi_participants i = draft_participants d"
    using mk q by (auto simp: mk_global_intent_def split: if_splits)
  ultimately show ?thesis using n by (simp add: intent_norm_def)
qed

lemma wire_pairs_json_value:
  "wire_pairs kvs result = Inr v \<Longrightarrow> \<forall>kv \<in> set kvs. json_value (snd kv) \<Longrightarrow> json_value (PDict result) \<Longrightarrow> json_value v"
proof (induction kvs result rule: wire_pairs.induct)
  case (2 key v vs result)
  then show ?case by (auto split: if_splits)
qed auto

lemma wire_jvalue_json_value: "jvalue wire_hooks f s = Inr (v, r) \<Longrightarrow> json_value v"
  by (rule jvalue_json_value(1)) (auto simp: wire_hooks_def dest: wire_pairs_json_value)

lemma json_loads_wire_value: "json_loads wire_hooks s = Inr v \<Longrightarrow> json_value v"
  unfolding json_loads_def
  by (auto simp del: jvalue.simps split: if_splits intro: wire_jvalue_json_value)

lemma parse_canonical_json_value: "parse_canonical_json_bytes b = Inr v \<Longrightarrow> json_value v"
  by (auto simp: parse_canonical_json_bytes_def split: sum.splits if_splits dest: json_loads_wire_value)

lemma parse_canonical_errors:
  assumes "parse_canonical_json_bytes b = Inl e"
  shows "e \<in> range WireRefused"
proof (cases "bindE (utf8_decode b) (json_loads wire_hooks)")
  case (Inl x)
  then have "x = UnicodeError \<or> x \<in> insert JSONDecodeError (range WireRefused)"
    using json_loads_errors [OF wire_hook_errors] by (auto simp: bindE_eq_Inl utf8_decode_def dest: utf8_dec_errors)
  with Inl assms show ?thesis by (auto simp: parse_canonical_json_bytes_def split: if_splits)
next
  case (Inr v)
  then have "py_wf v" by (auto intro: json_value_wf json_loads_wire_value)
  with assms Inr show ?thesis
    by (auto simp: parse_canonical_json_bytes_def bindE_eq_Inl simp del: bindE_eq_Inr split: if_splits
        dest!: canonical_errors wire_check_errors)
qed

lemma canonical_norm_eq:
  assumes "py_wf v" "py_wf w" "norm v = norm w" "canonical_json_bytes w = Inr b"
  shows "canonical_json_bytes v = Inr b"
proof -
  from assms have w: "wire_check w = Inr ()" by (auto elim: canonical_json_bytes_Inr)
  with assms(3) have v: "wire_check v = Inr ()" using wire_check_norm_iff [of v] wire_check_norm_iff [of w] by simp
  from canonical_norm [OF v assms(1)] canonical_norm [OF w assms(2)] assms(3,4) show ?thesis by simp
qed

lemma participant_projection_shape:
  assumes "participant_projection i p = Inr proj"
  obtains sel where "proj = (PStr (lit ''global_intent_digest''), PStr (gi_digest i)) # sel" "py_wf (PDict proj)"
    "p \<in> set (gi_participants i)" "dkeys sel = lits PROJECTION_FIELDS" "dget sel ''participant'' = Some (PStr p)"
    "revision_ok sel" "dependencies_ok sel"
proof -
  from assms obtain m ins where m: "as_mapping i = Inr m" "p \<in> set (gi_participants i)"
      "Option.bind (dict_at m (PStr (lit ''payload''))) (\<lambda>p. dict_at (PDict p) (PStr (lit ''participant_inputs''))) = Some ins"
    unfolding participant_projection_def
    by (auto simp del: bindE_eq_Inr simp: bindE_def split: if_splits sum.splits option.split_asm)
  with assms obtain sel where sel: "dict_at (PDict ins) (PStr p) = Some sel"
      "proj = (PStr (lit ''global_intent_digest''), PStr (gi_digest i)) # sel"
      "dkeys sel = lits PROJECTION_FIELDS" "dget sel ''participant'' = Some (PStr p)" "revision_ok sel" "dependencies_ok sel"
    by (auto simp: participant_projection_def split: if_splits option.splits)
  have "py_wf m" using m by (auto simp: as_mapping_def intro: json_value_wf parse_canonical_json_value)
  then have "py_wf (PDict ins)" using m(3) by (auto simp: bind_eq_Some_conv simp del: py_wf.simps(3) dest: dict_at_wf)
  then have "py_wf (PDict sel)" using sel(1) by (auto simp del: py_wf.simps(3) dest: dict_at_wf)
  moreover have "PStr (lit ''global_intent_digest'') \<notin> dkeys sel"
    by (simp add: sel lits_def PROJECTION_FIELDS_def image_iff)
  ultimately have "py_wf (PDict proj)" by (auto simp: sel dkeys_def)
  with sel m show ?thesis by (intro that)
qed

section \<open>Properties\<close>

lemma py_wf_dict_at_check: "dict_at v k = Some e \<Longrightarrow> wire_check v = Inr () \<Longrightarrow> wire_check (PDict e) = Inr ()"
proof -
  assume a: "dict_at v k = Some e" "wire_check v = Inr ()"
  then obtain d where d: "v = PDict d" "(k, PDict e) \<in> set d" by (auto simp: dict_at_Some dest: map_of_SomeD)
  have "\<forall>kv \<in> set d. wire_check (snd kv) = Inr ()" using a(2) d(1) by (simp add: wire_check_items_iff)
  from this [rule_format, OF d(2)] show ?thesis by simp
qed

lemma parse_canonical_check: "parse_canonical_json_bytes b = Inr v \<Longrightarrow> canonical_json_bytes v = Inr b"
  by (auto simp: parse_canonical_json_bytes_def simp del: bindE_eq_Inr split: sum.splits if_splits)
    (auto split: if_splits)

lemma gi_digest_is_digest [simp]: "is_digest (gi_digest i)"
  by (simp add: gi_digest_def sha256_hex_def)

lemma participant_projection_check:
  assumes "participant_projection i p = Inr proj"
  shows "wire_check (PDict proj) = Inr ()"
proof -
  from assms obtain m ins where m: "as_mapping i = Inr m"
      "Option.bind (dict_at m (PStr (lit ''payload''))) (\<lambda>p. dict_at (PDict p) (PStr (lit ''participant_inputs''))) = Some ins"
    unfolding participant_projection_def
    by (auto simp del: bindE_eq_Inr simp: bindE_def split: if_splits sum.splits option.split_asm)
  with assms obtain sel where sel: "dict_at (PDict ins) (PStr p) = Some sel"
      "proj = (PStr (lit ''global_intent_digest''), PStr (gi_digest i)) # sel"
    by (auto simp: participant_projection_def split: if_splits option.splits)
  have "wire_check m = Inr ()"
    using m(1) by (auto simp: as_mapping_def dest!: parse_canonical_check elim: canonical_json_bytes_Inr)
  then have "wire_check (PDict ins) = Inr ()" using m(2) by (auto simp: bind_eq_Some_conv simp del: wire_check.simps dest: py_wf_dict_at_check)
  then have "wire_check (PDict sel) = Inr ()" using sel(1) by (auto simp del: wire_check.simps dest: py_wf_dict_at_check)
  moreover have "encodable (lit ''global_intent_digest'')" by (rule encodable_lit) simp
  ultimately show ?thesis by (simp add: sel digest_encodable)
qed

text \<open>
  C29. A Python value that passes the wire check is written by \<open>canonical_json_bytes\<close> without an
  error, and \<open>parse_canonical_json_bytes\<close> reads the bytes back as the same value, with every
  dictionary in key order and every tuple as a list.
\<close>

theorem wire_round_trip:
  assumes "py_wf v" "wire_check v = Inr ()"
  shows "bindE (canonical_json_bytes v) parse_canonical_json_bytes = Inr (norm v)"
proof -
  obtain b where "canonical_json_bytes v = Inr b" using canonical_json_bytes_ok [OF assms(2,1)] by blast
  with assms show ?thesis by (simp del: bindE_eq_Inr add: parse_canonical_round_trip)
qed

definition wire_sample :: pyval where
  "wire_sample = obj [(''b'', PTuple [PInt (-3), PNone, PBool True]), (''a'', PStr [955, 34, 10])]"

theorem wire_round_trip_witness:
  "bindE (canonical_json_bytes wire_sample) parse_canonical_json_bytes
     = Inr (obj [(''a'', PStr [955, 34, 10]), (''b'', PList [PInt (-3), PNone, PBool True])])"
proof -
  have "norm wire_sample = obj [(''a'', PStr [955, 34, 10]), (''b'', PList [PInt (-3), PNone, PBool True])]"
    by (simp add: wire_sample_def obj_def lit_def norm_PDict norm_dict_def)
  moreover have "py_wf wire_sample" by (simp add: wire_sample_def obj_def)
  moreover have "wire_check wire_sample = Inr ()"
    by (simp add: wire_sample_def obj_def lit_def is_surrogate_def)
  ultimately show ?thesis using wire_round_trip [of wire_sample] by simp
qed

text \<open>
  C30. Canonical bytes identify a value: two values that pass the wire check have the same bytes
  exactly when they differ at most in the order of dictionary keys and in tuple against list.
\<close>

theorem canonical_bytes_identify:
  assumes "py_wf v" "py_wf w" "wire_check v = Inr ()" "wire_check w = Inr ()"
  shows "canonical_json_bytes v = canonical_json_bytes w \<longleftrightarrow> norm v = norm w"
proof -
  obtain b where b: "canonical_json_bytes w = Inr b" using canonical_json_bytes_ok [OF assms(4,2)] by blast
  with canonical_norm_eq [OF assms(1,2) _ b] canonical_inj [of v b w] assms show ?thesis by auto
qed

theorem canonical_bytes_identify_witness:
  "canonical_json_bytes wire_sample \<noteq> canonical_json_bytes (obj [(''a'', PStr (lit ''x''))])"
proof -
  have "norm wire_sample \<noteq> norm (obj [(''a'', PStr (lit ''x''))])"
    by (simp add: wire_sample_def obj_def lit_def norm_PDict norm_dict_def)
  moreover have "py_wf wire_sample" "py_wf (obj [(''a'', PStr (lit ''x''))])"
    by (simp_all add: wire_sample_def obj_def)
  moreover have "wire_check wire_sample = Inr ()" "wire_check (obj [(''a'', PStr (lit ''x''))]) = Inr ()"
    by (simp_all add: wire_sample_def obj_def lit_def is_surrogate_def)
  ultimately show ?thesis
    using canonical_bytes_identify [of wire_sample "obj [(''a'', PStr (lit ''x''))]"] by simp
qed


text \<open>
  C32. An intent read back from its canonical bytes is the intent that wrote them, with its payload
  in key order; its fields and its digest are unchanged and it is again a well-formed intent.
\<close>

theorem intent_round_trip:
  assumes "mk_global_intent tid ep rid expires ps payload = Inr i" "py_wf payload"
  shows "from_canonical_bytes (canonical_bytes i) = Inr (intent_norm i) \<and> intent_ok (intent_norm i)
    \<and> gi_digest (intent_norm i) = gi_digest i"
  using from_canonical_bytes_ok [OF mk_global_intent_ok [OF assms]] intent_norm_ok [OF mk_global_intent_ok [OF assms]]
  by (simp add: canonical_bytes_def gi_digest_def intent_norm_def)

lemma norm_atoms [simp]:
  "is_int (norm v) = is_int v" "int_of (norm v) = int_of v" "norm v = PStr s \<longleftrightarrow> v = PStr s"
  "wire_nonempty (norm v) = wire_nonempty v"
  by (cases v; simp add: norm_PDict)+

lemma revision_ok_norm: "distinct (map fst d) \<Longrightarrow> revision_ok (norm_dict d) = revision_ok d"
  by (simp add: revision_ok_def dget_or_norm Let_def)

lemma dependencies_ok_norm: "distinct (map fst d) \<Longrightarrow> dependencies_ok (norm_dict d) = dependencies_ok d"
  by (cases "dget_or d ''dependency_revisions'' PNone")
    (auto simp: dependencies_ok_def dget_or_norm norm_PDict list_all_iff set_norm_dict)

lemma participant_projection_eq:
  assumes i: "intent_ok i" "p \<in> set (gi_participants i)"
    and ins: "dget (gi_payload i) ''participant_inputs'' = Some (PDict ins)" "dkeys ins = PStr ` set (gi_participants i)"
    and sel: "map_of ins (PStr p) = Some (PDict sel)" "dkeys sel = lits PROJECTION_FIELDS"
      "dget sel ''participant'' = Some (PStr p)" "revision_ok sel" "dependencies_ok sel"
  shows "participant_projection i p = Inr ((PStr (lit ''global_intent_digest''), PStr (gi_digest i)) # norm_dict sel)"
proof -
  have wf: "distinct (map fst (gi_payload i))" "py_wf (PDict (gi_payload i))" using i(1) by (simp_all add: intent_ok_def)
  then have "py_wf (PDict ins)" using ins(1) unfolding dget_def by (metis py_wf_lookup)
  then have di: "distinct (map fst ins)" and "py_wf (PDict sel)" using sel(1) by (simp, metis py_wf_lookup)
  then have ds: "distinct (map fst sel)" by simp
  from i(1) obtain d where d: "parse_canonical_json_bytes (gi_bytes i) = Inr (PDict d)" "dkeys d = lits INTENT_KEYS"
    "dget d ''schema'' = Some (PStr INTENT_SCHEMA)" "dget d ''transaction_id'' = Some (PStr (gi_transaction_id i))"
    "dget d ''epoch'' = Some (PInt (gi_epoch i))" "dget d ''request_id'' = Some (PStr (gi_request_id i))"
    "dget d ''expires_at'' = Some (PInt (gi_expires_at i))"
    "dget d ''participants'' = Some (PList (map PStr (gi_participants i)))"
    "dget d ''payload'' = Some (PDict (norm_dict (gi_payload i)))"
    by (rule dget_intent_norm)
  have "dict_at (PDict d) (PStr (lit ''payload'')) = Some (norm_dict (gi_payload i))"
    using d(9) by (simp add: dict_at_def dget_def)
  moreover have "dict_at (PDict (norm_dict (gi_payload i))) (PStr (lit ''participant_inputs'')) = Some (norm_dict ins)"
    using ins(1) wf(1) by (simp add: dict_at_def dget_def map_of_norm_dict norm_PDict)
  moreover have "dict_at (PDict (norm_dict ins)) (PStr p) = Some (norm_dict sel)"
    using sel(1) di by (simp add: dict_at_def map_of_norm_dict norm_PDict)
  moreover have "dget (norm_dict sel) ''participant'' = Some (PStr p)" using sel(3) ds by (simp add: dget_norm_dict)
  ultimately show ?thesis
    using d(1) i(2) ins(2) sel(2,4,5) ds
    by (simp del: bindE_eq_Inr add: participant_projection_def as_mapping_def revision_ok_norm dependencies_ok_norm)
qed

text \<open>
  \<open>verify_participant_projection\<close> accepts a supplied projection exactly when it is the one
  persisted in the intent (up to key order), and then returns the projection digest; every other
  wire value is refused as a mismatch.
\<close>

theorem projection_verified_iff:
  assumes "participant_projection i p = Inr proj" "py_wf (PDict s)" "wire_check (PDict s) = Inr ()"
  shows "verify_participant_projection i p (PDict s) =
    (if norm (PDict s) = norm (PDict proj) then projection_digest i p else Inl (WireRefused ''projection_mismatch''))"
proof -
  have p: "py_wf (PDict proj)" "wire_check (PDict proj) = Inr ()"
    using assms(1) by (auto elim: participant_projection_shape dest: participant_projection_check simp del: py_wf.simps wire_check.simps)
  obtain sb where sb: "canonical_json_bytes (PDict s) = Inr sb" using canonical_json_bytes_ok [OF assms(3,2)] by blast
  obtain eb where eb: "canonical_json_bytes (PDict proj) = Inr eb" using canonical_json_bytes_ok [OF p(2,1)] by blast
  have "sb = eb \<longleftrightarrow> norm (PDict s) = norm (PDict proj)"
    using canonical_inj [OF _ eb assms(2) p(1)] canonical_norm_eq [OF assms(2) p(1) _ eb] sb by auto
  with assms(1) sb eb show ?thesis
    by (simp del: bindE_eq_Inr add: verify_participant_projection_def projection_digest_def)
qed

definition sample_input :: "string \<Rightarrow> pydict" where
  "sample_input name = map (\<lambda>(k, v). (PStr (lit k), v)) [(''participant'', PStr (lit name)), (''binding_kind'', PStr (lit ''card'')),
     (''binding_ref'', PStr (lit ''card-1'')), (''target_scope'', PStr (lit ''tenant'')),
     (''target_incarnation'', PStr (lit ''inc-1'')), (''action'', PStr (lit ''create'')),
     (''before_revision'', PInt 0), (''candidate_revision'', PInt 1), (''candidate_digest'', PStr (replicate 64 97)),
     (''dependency_revisions'', obj [(''policy'', PInt 4)]), (''actor_subject'', PStr (lit ''alice'')),
     (''actor_kind'', PStr (lit ''user'')), (''provisioning'', PNone)]"

definition sample_payload :: pyval where
  "sample_payload = obj [(''participant_inputs'', obj [(''hub'', PDict (sample_input ''hub'')), (''board'', PDict (sample_input ''board''))])]"

lemmas sample_defs = sample_payload_def sample_input_def obj_def

lemma sample_payload_ok: "py_wf sample_payload" "wire_check sample_payload = Inr ()" "\<exists>d. sample_payload = PDict d"
  by (simp_all add: sample_defs) (simp add: lit_def is_surrogate_def)

lemma mk_global_intent_fields:
  assumes "mk_global_intent tid ep rid expires ps payload = Inr i"
  shows "gi_transaction_id i = str_of tid" "gi_epoch i = int_of ep" "gi_request_id i = str_of rid"
    "gi_expires_at i = int_of expires" "gi_participants i = names_of ps" "PDict (gi_payload i) = payload"
  using assms by (auto simp: mk_global_intent_def split: if_splits)

lemma sample_intent_exists:
  "\<exists>i. mk_global_intent (PStr (lit ''tx-1'')) (PInt 1) (PStr (lit ''req-1'')) (PInt 100)
     (PTuple [PStr (lit ''hub''), PStr (lit ''board'')]) sample_payload = Inr i"
proof -
  obtain d where d: "sample_payload = PDict d" using sample_payload_ok(3) by blast
  let ?v = "intent_mapping (lit ''tx-1'') 1 (lit ''req-1'') 100 [lit ''hub'', lit ''board''] d"
  have "py_wf ?v" using sample_payload_ok(1) d by (simp add: intent_mapping_def obj_def)
  moreover have "wire_check ?v = Inr ()"
    using sample_payload_ok(2) d by (simp add: intent_mapping_def obj_def INTENT_SCHEMA_def) (simp add: lit_def is_surrogate_def)
  ultimately obtain b where "canonical_json_bytes ?v = Inr b" using canonical_json_bytes_ok by blast
  then show ?thesis unfolding d by (simp add: mk_global_intent_def participants_ok_def names_of_def)
qed

definition sample_intent :: global_intent where
  "sample_intent = projr (mk_global_intent (PStr (lit ''tx-1'')) (PInt 1) (PStr (lit ''req-1'')) (PInt 100)
     (PTuple [PStr (lit ''hub''), PStr (lit ''board'')]) sample_payload)"

lemma sample_intent:
  "mk_global_intent (PStr (lit ''tx-1'')) (PInt 1) (PStr (lit ''req-1'')) (PInt 100)
     (PTuple [PStr (lit ''hub''), PStr (lit ''board'')]) sample_payload = Inr sample_intent"
  using sample_intent_exists by (auto simp: sample_intent_def)

lemma sample_intent_fields:
  "intent_ok sample_intent" "gi_participants sample_intent = [lit ''hub'', lit ''board'']"
  "PDict (gi_payload sample_intent) = sample_payload" "gi_expires_at sample_intent = 100"
  "gi_transaction_id sample_intent = lit ''tx-1''" "gi_epoch sample_intent = 1" "gi_request_id sample_intent = lit ''req-1''"
  using mk_global_intent_ok [OF sample_intent sample_payload_ok(1)] mk_global_intent_fields [OF sample_intent]
  by (simp_all add: names_of_def)

theorem intent_round_trip_witness:
  "from_canonical_bytes (canonical_bytes sample_intent) = Inr (intent_norm sample_intent)"
  using intent_round_trip [OF sample_intent sample_payload_ok(1)] by simp

lemma sample_projections:
  assumes "name \<in> {''hub'', ''board''}"
  shows "participant_projection sample_intent (lit name) =
     Inr ((PStr (lit ''global_intent_digest''), PStr (gi_digest sample_intent)) # norm_dict (sample_input name))"
proof (rule participant_projection_eq [where ins = "[(PStr (lit ''hub''), PDict (sample_input ''hub'')), (PStr (lit ''board''), PDict (sample_input ''board''))]"])
  show "dget (gi_payload sample_intent) ''participant_inputs'' = Some (PDict [(PStr (lit ''hub''), PDict (sample_input ''hub'')), (PStr (lit ''board''), PDict (sample_input ''board''))])"
    using sample_intent_fields(3) by (simp add: sample_payload_def obj_def dget_def)
  show "revision_ok (sample_input name)" by (simp add: revision_ok_def sample_input_def dget_or_def dget_def)
  show "dependencies_ok (sample_input name)" by (simp add: dependencies_ok_def sample_input_def dget_or_def dget_def obj_def)
  show "dkeys (sample_input name) = lits PROJECTION_FIELDS" by (simp add: sample_input_def dkeys_def lits_def PROJECTION_FIELDS_def)
  show "dget (sample_input name) ''participant'' = Some (PStr (lit name))" by (simp add: sample_input_def dget_def)
qed (use assms in \<open>auto simp: sample_intent_fields dkeys_def\<close>)

lemmas sample_projection = sample_projections [of "''hub''", simplified]

theorem projection_verified_iff_witness:
  "verify_participant_projection sample_intent (lit ''hub'') (PDict []) = Inl (WireRefused ''projection_mismatch'')
   \<and> verify_participant_projection sample_intent (lit ''hub'')
        (PDict ((PStr (lit ''global_intent_digest''), PStr (gi_digest sample_intent)) # norm_dict (sample_input ''hub'')))
      = projection_digest sample_intent (lit ''hub'')"
proof -
  let ?p = "(PStr (lit ''global_intent_digest''), PStr (gi_digest sample_intent)) # norm_dict (sample_input ''hub'')"
  have "norm (PDict []) \<noteq> norm (PDict ?p)" by (simp add: norm_PDict)
  moreover have "py_wf (PDict ?p)" "wire_check (PDict ?p) = Inr ()"
    using sample_projection by (auto elim: participant_projection_shape dest: participant_projection_check simp del: py_wf.simps wire_check.simps)
  moreover have "py_wf (PDict [])" "wire_check (PDict []) = Inr ()" by simp_all
  ultimately show ?thesis using projection_verified_iff [OF sample_projection] by metis
qed

end
