(* ===== verification/Durable_Decision.thy ===== *)
theory Durable_Decision
  imports Durable_Wire
begin

text \<open>
  \<open>service_foundation/coordination/durable_decision_v2.py\<close>, first part: receipts, decision
  records and \<open>PostgresDecisionStore\<close>.

  The database is a record: the rows of the decisions table (of every namespace), the epoch
  sequence, and two oracles for what is outside the program, the readings of the database clock
  and the tokens drawn from \<open>secrets\<close>. Every clock expression of a statement takes one reading, so
  a statement that reads the clock twice may see two times. A JSONB column holds the Python value
  \<open>json.loads\<close> gives for its text. A transaction that raises restores the rows; a sequence does
  not go back. A value PostgreSQL cannot store (a NUL or a lone surrogate in a text, an integer
  beyond 64 bits) is a driver error when a row is inserted; a lookup by such a key finds no row here.
  Text is ordered by code point.
\<close>

section \<open>Receipts and records\<close>

datatype dstate = Preparing | Prepared | Committed | Aborted

definition TERMINAL :: "dstate list" where
  "TERMINAL = [Committed, Aborted]"

text \<open>A decision argument is any text; two texts name a terminal state.\<close>

definition terminal_of :: "pystr \<Rightarrow> dstate option" where
  "terminal_of decision = (if decision = lit ''committed'' then Some Committed
     else if decision = lit ''aborted'' then Some Aborted else None)"

record receipt =
  rc_transaction_id :: pystr
  rc_epoch :: int
  rc_global_intent_digest :: pystr
  rc_participant :: pystr
  rc_projection_digest :: pystr
  rc_candidate_digest :: pystr
  rc_receipt_digest :: pystr

definition digest_value :: "pyval \<Rightarrow> bool" where
  "digest_value v \<longleftrightarrow> is_str v \<and> is_digest (str_of v)"

definition mk_receipt :: "pyval \<Rightarrow> pyval \<Rightarrow> pyval \<Rightarrow> pyval \<Rightarrow> pyval \<Rightarrow> pyval \<Rightarrow> pyval \<Rightarrow> exn + receipt" where
  "mk_receipt tid ep global participant projection candidate rd =
     (if \<not> wire_nonempty tid \<or> \<not> is_int ep \<or> int_of ep < 1 \<or> \<not> wire_nonempty participant
         \<or> \<not> list_all digest_value [global, projection, candidate, rd]
      then Inl (DecisionRefused ''receipt_invalid'')
      else Inr \<lparr>rc_transaction_id = str_of tid, rc_epoch = int_of ep, rc_global_intent_digest = str_of global,
                rc_participant = str_of participant, rc_projection_digest = str_of projection,
                rc_candidate_digest = str_of candidate, rc_receipt_digest = str_of rd\<rparr>)"

record decision_record =
  dr_intent :: global_intent
  dr_state :: dstate
  dr_prepared :: "(pystr \<times> receipt) list"
  dr_finished :: "(pystr \<times> receipt) list"
  dr_witness_digest :: pystr
  dr_decided_at :: "int option"

definition dr_transaction_id :: "decision_record \<Rightarrow> pystr" where
  "dr_transaction_id r = gi_transaction_id (dr_intent r)"

definition dr_terminal :: "decision_record \<Rightarrow> bool" where
  "dr_terminal r \<longleftrightarrow> dr_state r \<in> set TERMINAL"

definition check_receipt :: "decision_record \<Rightarrow> receipt \<Rightarrow> exn + unit" where
  "check_receipt record rc =
     (if rc_transaction_id rc \<noteq> dr_transaction_id record \<or> rc_epoch rc \<noteq> gi_epoch (dr_intent record)
         \<or> rc_global_intent_digest rc \<noteq> gi_digest (dr_intent record)
         \<or> rc_participant rc \<notin> set (gi_participants (dr_intent record))
      then Inl (DecisionRefused ''receipt_intent_mismatch'')
      else bindE (participant_projection (dr_intent record) (rc_participant rc)) (\<lambda>selected.
        bindE (projection_digest (dr_intent record) (rc_participant rc)) (\<lambda>pd.
          if rc_projection_digest rc \<noteq> pd
             \<or> dget selected ''candidate_digest'' \<noteq> Some (PStr (rc_candidate_digest rc))
          then Inl (DecisionRefused ''receipt_projection_mismatch'') else Inr ())))"

section \<open>The decisions table\<close>

record decision_row =
  r_namespace :: pystr
  r_transaction_id :: pystr
  r_epoch :: int
  r_replay_scope :: pystr
  r_request_id :: pystr
  r_intent_bytes :: bytes
  r_intent_digest :: pystr
  r_expires_at_epoch :: int
  r_participant_count :: int
  r_state :: dstate
  r_prepared :: pyval
  r_prepared_count :: int
  r_finished :: pyval
  r_finished_count :: int
  r_witness_digest :: pystr
  r_decided_at_epoch :: "int option"

record pg =
  pg_rows :: "decision_row list"
  pg_seq :: int
  pg_clock :: "nat \<Rightarrow> int"
  pg_reads :: nat
  pg_tokens :: "nat \<Rightarrow> pystr"
  pg_drawn :: nat

text \<open>JSONB \<open>||\<close> with a one-entry object, and JSONB \<open>?\<close>.\<close>

definition jsonb_put :: "pyval \<Rightarrow> pystr \<Rightarrow> pyval \<Rightarrow> pyval" where
  "jsonb_put v k x = (case v of
       PDict d \<Rightarrow> PDict (filter (\<lambda>kv. fst kv \<noteq> PStr k) d @ [(PStr k, x)])
     | PList xs \<Rightarrow> PList (xs @ [PDict [(PStr k, x)]])
     | _ \<Rightarrow> PList [v, PDict [(PStr k, x)]])"

definition jsonb_has :: "pyval \<Rightarrow> pystr \<Rightarrow> bool" where
  "jsonb_has v k = (case v of
       PDict d \<Rightarrow> PStr k \<in> dkeys d
     | PList xs \<Rightarrow> PStr k \<in> set xs
     | _ \<Rightarrow> v = PStr k)"

definition clock_now :: "(pg, int) action" where
  "clock_now db = (db\<lparr>pg_reads := Suc (pg_reads db)\<rparr>, Inr (pg_clock db (pg_reads db)))"

definition token_hex :: "(pg, pystr) action" where
  "token_hex db = (db\<lparr>pg_drawn := Suc (pg_drawn db)\<rparr>, Inr (pg_tokens db (pg_drawn db)))"

definition nextval :: "(pg, int) action" where
  "nextval db = (db\<lparr>pg_seq := pg_seq db + 1\<rparr>, Inr (pg_seq db + 1))"

definition sql_select :: "(decision_row \<Rightarrow> bool) \<Rightarrow> (pg, decision_row option) action" where
  "sql_select p db = (db, Inr (find p (pg_rows db)))"

text \<open>An \<open>UPDATE ... WHERE p RETURNING\<close>, of which \<open>fetchrow\<close> takes the first row.\<close>

definition sql_update :: "(decision_row \<Rightarrow> bool) \<Rightarrow> (decision_row \<Rightarrow> decision_row) \<Rightarrow> (pg, decision_row option) action" where
  "sql_update p f db = (db\<lparr>pg_rows := map (\<lambda>r. if p r then f r else r) (pg_rows db)\<rparr>,
     Inr (map_option f (find p (pg_rows db))))"

text \<open>
  The connection argument: \<open>None\<close> when the store owns the transaction, otherwise whether the
  caller's connection is inside a transaction.
\<close>

definition transaction :: "bool option \<Rightarrow> (pg, 'a) action \<Rightarrow> (pg, 'a) action" where
  "transaction conn body = (\<lambda>db.
     if conn = Some False then (db, Inl (DecisionRefused ''caller_transaction_required''))
     else case body db of
         (db', Inl e) \<Rightarrow> (db'\<lparr>pg_rows := pg_rows db\<rparr>, Inl e)
       | (db', Inr x) \<Rightarrow> (db', Inr x))"

section \<open>Decoding a row\<close>

definition RECEIPT_FIELDS :: "string list" where
  "RECEIPT_FIELDS = [''transaction_id'', ''epoch'', ''global_intent_digest'', ''participant'',
     ''projection_digest'', ''candidate_digest'', ''receipt_digest'']"

definition asdict :: "receipt \<Rightarrow> pydict" where
  "asdict rc = map (\<lambda>(k, v). (PStr (lit k), v)) [
     (''transaction_id'', PStr (rc_transaction_id rc)), (''epoch'', PInt (rc_epoch rc)),
     (''global_intent_digest'', PStr (rc_global_intent_digest rc)), (''participant'', PStr (rc_participant rc)),
     (''projection_digest'', PStr (rc_projection_digest rc)), (''candidate_digest'', PStr (rc_candidate_digest rc)),
     (''receipt_digest'', PStr (rc_receipt_digest rc))]"

text \<open>\<open>Receipt(**fields)\<close>: an unknown or a missing keyword is a \<open>TypeError\<close>.\<close>

definition receipt_of_fields :: "pydict \<Rightarrow> exn + receipt" where
  "receipt_of_fields d =
     (if dkeys d \<noteq> lits RECEIPT_FIELDS then Inl TypeError
      else mk_receipt (dget_or d ''transaction_id'' PNone) (dget_or d ''epoch'' PNone)
             (dget_or d ''global_intent_digest'' PNone) (dget_or d ''participant'' PNone)
             (dget_or d ''projection_digest'' PNone) (dget_or d ''candidate_digest'' PNone)
             (dget_or d ''receipt_digest'' PNone))"

fun decode_receipts :: "pydict \<Rightarrow> exn + (pystr \<times> receipt) list" where
  "decode_receipts [] = Inr []"
| "decode_receipts ((k, v) # d) =
     (if \<not> is_str k \<or> dict_of v = None then Inl (DecisionRefused ''stored_receipt_invalid'')
      else case receipt_of_fields (the (dict_of v)) of
          Inl _ \<Rightarrow> Inl (DecisionRefused ''stored_receipt_invalid'')
        | Inr rc \<Rightarrow>
           if rc_participant rc \<noteq> str_of k then Inl (DecisionRefused ''stored_receipt_invalid'')
           else bindE (decode_receipts d) (\<lambda>rs. Inr ((str_of k, rc) # rs)))"

definition receipts_column :: "pyval \<Rightarrow> exn + (pystr \<times> receipt) list" where
  "receipts_column v = (case dict_of v of
       None \<Rightarrow> Inl (DecisionRefused ''stored_receipt_invalid'')
     | Some d \<Rightarrow> decode_receipts d)"

definition decode :: "decision_row \<Rightarrow> exn + decision_record" where
  "decode row =
     (case from_canonical_bytes (r_intent_bytes row) of
        Inl _ \<Rightarrow> Inl (DecisionRefused ''stored_intent_invalid'')
      | Inr i \<Rightarrow>
         if gi_digest i \<noteq> r_intent_digest row \<or> gi_transaction_id i \<noteq> r_transaction_id row
            \<or> gi_epoch i \<noteq> r_epoch row \<or> gi_request_id i \<noteq> r_request_id row
            \<or> gi_expires_at i \<noteq> r_expires_at_epoch row
            \<or> int (length (gi_participants i)) \<noteq> r_participant_count row
         then Inl (DecisionRefused ''stored_intent_invalid'')
         else bindE (receipts_column (r_prepared row)) (\<lambda>prepared.
              bindE (receipts_column (r_finished row)) (\<lambda>finished.
                if int (length prepared) \<noteq> r_prepared_count row \<or> int (length finished) \<noteq> r_finished_count row
                then Inl (DecisionRefused ''stored_receipt_count_invalid'')
                else Inr \<lparr>dr_intent = i, dr_state = r_state row, dr_prepared = prepared, dr_finished = finished,
                          dr_witness_digest = r_witness_digest row, dr_decided_at = r_decided_at_epoch row\<rparr>)))"

fun decode_opt :: "decision_row option \<Rightarrow> exn + decision_record option" where
  "decode_opt None = Inr None"
| "decode_opt (Some row) = bindE (decode row) (\<lambda>r. Inr (Some r))"

section \<open>Store operations\<close>

definition has_id :: "pystr \<Rightarrow> pystr \<Rightarrow> decision_row \<Rightarrow> bool" where
  "has_id ns tid r \<longleftrightarrow> r_namespace r = ns \<and> r_transaction_id r = tid"

definition has_request :: "pystr \<Rightarrow> pystr \<Rightarrow> pystr \<Rightarrow> decision_row \<Rightarrow> bool" where
  "has_request ns scope rid r \<longleftrightarrow> r_namespace r = ns \<and> r_replay_scope r = scope \<and> r_request_id r = rid"

definition open_state :: "decision_row \<Rightarrow> bool" where
  "open_state r \<longleftrightarrow> r_state r \<in> {Preparing, Prepared}"

definition pg_storable :: "decision_row \<Rightarrow> bool" where
  "pg_storable r \<longleftrightarrow> r_epoch r < 2 ^ 63 \<and> r_expires_at_epoch r < 2 ^ 63
     \<and> list_all (\<lambda>s. encodable s \<and> 0 \<notin> set s) [r_namespace r, r_transaction_id r, r_replay_scope r, r_request_id r]"

definition conflicts :: "decision_row \<Rightarrow> decision_row \<Rightarrow> bool" where
  "conflicts a b \<longleftrightarrow> r_namespace a = r_namespace b
     \<and> (r_transaction_id a = r_transaction_id b
        \<or> r_replay_scope a = r_replay_scope b \<and> (r_request_id a = r_request_id b \<or> r_epoch a = r_epoch b))"

definition new_row :: "pystr \<Rightarrow> pystr \<Rightarrow> global_intent \<Rightarrow> decision_row" where
  "new_row ns scope i = \<lparr>r_namespace = ns, r_transaction_id = gi_transaction_id i, r_epoch = gi_epoch i,
     r_replay_scope = scope, r_request_id = gi_request_id i, r_intent_bytes = canonical_bytes i,
     r_intent_digest = gi_digest i, r_expires_at_epoch = gi_expires_at i,
     r_participant_count = int (length (gi_participants i)), r_state = Preparing,
     r_prepared = PDict [], r_prepared_count = 0, r_finished = PDict [], r_finished_count = 0,
     r_witness_digest = [], r_decided_at_epoch = None\<rparr>"

text \<open>\<open>INSERT ... WHERE expires > now ON CONFLICT DO NOTHING RETURNING\<close>\<close>

definition insert_row :: "decision_row \<Rightarrow> int \<Rightarrow> (pg, decision_row option) action" where
  "insert_row row now db =
     (if \<not> pg_storable row then (db, Inl (RuntimeError ''asyncpg.DataError''))
      else if r_expires_at_epoch row > now \<and> \<not> list_ex (conflicts row) (pg_rows db)
      then (db\<lparr>pg_rows := pg_rows db @ [row]\<rparr>, Inr (Some row))
      else (db, Inr None))"

definition replay_check :: "intent_draft \<Rightarrow> pyval \<Rightarrow> pyval \<Rightarrow> decision_record \<Rightarrow> exn + decision_record" where
  "replay_check draft tid ep record =
     bindE (draft_bind draft (dr_transaction_id record) (gi_epoch (dr_intent record))) (\<lambda>i.
       if canonical_bytes i \<noteq> canonical_bytes (dr_intent record)
          \<or> tid \<noteq> PNone \<and> tid \<noteq> PStr (dr_transaction_id record)
          \<or> ep \<noteq> PNone \<and> ep \<noteq> PInt (gi_epoch (dr_intent record))
       then Inl (DecisionRefused ''intent_conflict'') else Inr record)"

definition insert_or_replay :: "pystr \<Rightarrow> intent_draft \<Rightarrow> pyval \<Rightarrow> pyval \<Rightarrow> global_intent \<Rightarrow> (pg, decision_record) action" where
  "insert_or_replay ns draft tid ep i =
     bindS clock_now (\<lambda>now.
     bindS (insert_row (new_row ns (draft_replay_scope draft) i) now) (\<lambda>row.
       case row of
         Some r \<Rightarrow> liftS (decode r)
       | None \<Rightarrow>
          bindS (sql_select (has_request ns (draft_replay_scope draft) (draft_request_id draft))) (\<lambda>previous.
            case previous of
              None \<Rightarrow> failS (DecisionRefused ''intent_expired_or_identity_conflict'')
            | Some r \<Rightarrow> liftS (bindE (decode r) (replay_check draft tid ep)))))"

definition begin_insert :: "pystr \<Rightarrow> intent_draft \<Rightarrow> pyval \<Rightarrow> pyval \<Rightarrow> (pg, decision_record) action" where
  "begin_insert ns draft tid ep =
     bindS (if tid \<noteq> PNone then retS (str_of tid) else token_hex) (\<lambda>chosen_id.
     bindS (if ep \<noteq> PNone then retS (int_of ep) else nextval) (\<lambda>chosen_epoch.
     bindS (liftS (draft_bind draft chosen_id chosen_epoch)) (insert_or_replay ns draft tid ep)))"

definition store_begin :: "pystr \<Rightarrow> intent_draft \<Rightarrow> pyval \<Rightarrow> pyval \<Rightarrow> bool option \<Rightarrow> (pg, decision_record) action" where
  "store_begin ns draft tid ep conn =
     (if (tid = PNone) \<noteq> (ep = PNone) then failS (DecisionRefused ''identity_pair_required'')
      else if tid \<noteq> PNone \<and> (\<not> wire_nonempty tid \<or> \<not> is_int ep \<or> int_of ep < 1)
      then failS (DecisionRefused ''identity_invalid'')
      else transaction conn
        (bindS (sql_select (has_request ns (draft_replay_scope draft) (draft_request_id draft))) (\<lambda>previous.
           case previous of
             Some r \<Rightarrow> liftS (bindE (decode r) (replay_check draft tid ep))
           | None \<Rightarrow> begin_insert ns draft tid ep)))"

definition store_read :: "pystr \<Rightarrow> pystr \<Rightarrow> (pg, decision_record option) action" where
  "store_read ns tid = bindS (sql_select (has_id ns tid)) (\<lambda>row. liftS (decode_opt row))"

definition store_read_request :: "pystr \<Rightarrow> pystr \<Rightarrow> pystr \<Rightarrow> (pg, decision_record option) action" where
  "store_read_request ns scope rid = bindS (sql_select (has_request ns scope rid)) (\<lambda>row. liftS (decode_opt row))"

definition prepared_row :: "receipt \<Rightarrow> decision_row \<Rightarrow> decision_row" where
  "prepared_row rc r = r\<lparr>r_prepared := jsonb_put (r_prepared r) (rc_participant rc) (PDict (asdict rc)),
     r_prepared_count := r_prepared_count r + 1,
     r_state := (if r_prepared_count r + 1 = r_participant_count r then Prepared else Preparing)\<rparr>"

definition update_prepared :: "pystr \<Rightarrow> receipt \<Rightarrow> int \<Rightarrow> (pg, decision_row option) action" where
  "update_prepared ns rc now = sql_update
     (\<lambda>r. has_id ns (rc_transaction_id rc) r \<and> r_state r = Preparing
        \<and> \<not> jsonb_has (r_prepared r) (rc_participant rc) \<and> r_expires_at_epoch r > now)
     (prepared_row rc)"

definition record_prepared :: "pystr \<Rightarrow> receipt \<Rightarrow> bool option \<Rightarrow> (pg, decision_record) action" where
  "record_prepared ns rc conn = transaction conn
     (bindS (store_read ns (rc_transaction_id rc)) (\<lambda>found.
        case found of
          None \<Rightarrow> failS (DecisionRefused ''transaction_unknown'')
        | Some record \<Rightarrow>
           bindS (liftS (check_receipt record rc)) (\<lambda>_.
           bindS clock_now (\<lambda>now.
           bindS (update_prepared ns rc now) (\<lambda>updated.
             case updated of
               Some r \<Rightarrow> liftS (decode r)
             | None \<Rightarrow> bindS (store_read ns (rc_transaction_id rc)) (\<lambda>latest.
                 case Option.bind latest (\<lambda>l. map_of (dr_prepared l) (rc_participant rc)) of
                   Some old \<Rightarrow> if old \<noteq> rc then failS (DecisionRefused ''prepared_conflict'')
                               else retS (the latest)
                 | None \<Rightarrow> failS (DecisionRefused ''late_preparation'')))))))"

definition decided_row :: "dstate \<Rightarrow> pystr \<Rightarrow> int \<Rightarrow> decision_row \<Rightarrow> decision_row" where
  "decided_row decision witness now r =
     r\<lparr>r_state := decision, r_witness_digest := witness, r_decided_at_epoch := Some now\<rparr>"

definition update_decision :: "pystr \<Rightarrow> pystr \<Rightarrow> dstate \<Rightarrow> pystr \<Rightarrow> int \<Rightarrow> int \<Rightarrow> (pg, decision_row option) action" where
  "update_decision ns tid decision witness now_where now_set = sql_update
     (\<lambda>r. has_id ns tid r \<and> open_state r
        \<and> (decision \<noteq> Committed
           \<or> r_state r = Prepared \<and> r_prepared_count r = r_participant_count r \<and> r_expires_at_epoch r > now_where))
     (decided_row decision witness now_set)"

definition decide_terminal :: "pystr \<Rightarrow> pystr \<Rightarrow> dstate \<Rightarrow> pystr \<Rightarrow> bool option \<Rightarrow> (pg, decision_record) action" where
  "decide_terminal ns tid decision witness conn =
     (if decision = Committed \<and> \<not> is_digest witness then failS (DecisionRefused ''commit_witness_missing'')
      else transaction conn
        (bindS (store_read ns tid) (\<lambda>found.
           case found of
             None \<Rightarrow> failS (DecisionRefused ''transaction_unknown'')
           | Some record \<Rightarrow>
              if dr_terminal record then
                (if dr_state record \<noteq> decision \<or> decision = Committed \<and> dr_witness_digest record \<noteq> witness
                 then failS (DecisionRefused ''decision_conflict'') else retS record)
              else if decision = Committed
                   \<and> (dr_state record \<noteq> Prepared
                      \<or> fst ` set (dr_prepared record) \<noteq> set (gi_participants (dr_intent record)))
              then failS (DecisionRefused ''commit_unprepared'')
              else
                bindS clock_now (\<lambda>now_where. bindS clock_now (\<lambda>now_set.
                bindS (update_decision ns tid decision (if decision = Committed then witness else []) now_where now_set)
                  (\<lambda>updated. case updated of
                     Some r \<Rightarrow> liftS (decode r)
                   | None \<Rightarrow>
                      if decision = Committed then
                        bindS clock_now (\<lambda>now.
                        bindS (sql_select (\<lambda>r. has_id ns tid r \<and> open_state r)) (\<lambda>row.
                          case row of
                            Some r \<Rightarrow> if r_expires_at_epoch r \<le> now then failS (DecisionRefused ''commit_expired'')
                                      else failS (DecisionRefused ''decision_conflict'')
                          | None \<Rightarrow> failS (DecisionRefused ''decision_conflict'')))
                      else failS (DecisionRefused ''decision_conflict'')))))))"

definition store_decide :: "pystr \<Rightarrow> pystr \<Rightarrow> pystr \<Rightarrow> pystr \<Rightarrow> bool option \<Rightarrow> (pg, decision_record) action" where
  "store_decide ns tid decision witness conn = (case terminal_of decision of
       None \<Rightarrow> failS (DecisionRefused ''decision_invalid'')
     | Some d \<Rightarrow> decide_terminal ns tid d witness conn)"

definition aborted_row :: "int \<Rightarrow> decision_row \<Rightarrow> decision_row" where
  "aborted_row now r = r\<lparr>r_state := Aborted, r_decided_at_epoch := Some now\<rparr>"

definition update_abort :: "pystr \<Rightarrow> pystr \<Rightarrow> int \<Rightarrow> int \<Rightarrow> (pg, decision_row option) action" where
  "update_abort ns tid now_where now_set = sql_update
     (\<lambda>r. has_id ns tid r \<and> open_state r \<and> r_expires_at_epoch r \<le> now_where)
     (aborted_row now_set)"

definition abort_expired :: "pystr \<Rightarrow> pystr \<Rightarrow> bool option \<Rightarrow> (pg, decision_record) action" where
  "abort_expired ns tid conn = transaction conn
     (bindS (store_read ns tid) (\<lambda>found.
        case found of
          None \<Rightarrow> failS (DecisionRefused ''transaction_unknown'')
        | Some record \<Rightarrow>
           if dr_terminal record then retS record
           else bindS clock_now (\<lambda>now_where. bindS clock_now (\<lambda>now_set.
                bindS (update_abort ns tid now_where now_set) (\<lambda>updated.
                  case updated of
                    None \<Rightarrow> failS (DecisionRefused ''not_expired'')
                  | Some r \<Rightarrow> liftS (decode r))))))"

definition finished_row :: "receipt \<Rightarrow> decision_row \<Rightarrow> decision_row" where
  "finished_row rc r = r\<lparr>r_finished := jsonb_put (r_finished r) (rc_participant rc) (PDict (asdict rc)),
     r_finished_count := r_finished_count r + 1\<rparr>"

definition update_finished :: "pystr \<Rightarrow> receipt \<Rightarrow> (pg, decision_row option) action" where
  "update_finished ns rc = sql_update
     (\<lambda>r. has_id ns (rc_transaction_id rc) r \<and> r_state r \<in> {Committed, Aborted}
        \<and> \<not> jsonb_has (r_finished r) (rc_participant rc))
     (finished_row rc)"

definition record_finished :: "pystr \<Rightarrow> receipt \<Rightarrow> bool option \<Rightarrow> (pg, decision_record) action" where
  "record_finished ns rc conn = transaction conn
     (bindS (store_read ns (rc_transaction_id rc)) (\<lambda>found.
        case found of
          None \<Rightarrow> failS (DecisionRefused ''decision_unknown'')
        | Some record \<Rightarrow>
           if \<not> dr_terminal record then failS (DecisionRefused ''decision_unknown'')
           else bindS (liftS (check_receipt record rc)) (\<lambda>_.
             bindS (update_finished ns rc) (\<lambda>updated.
               case updated of
                 Some r \<Rightarrow> liftS (decode r)
               | None \<Rightarrow> bindS (store_read ns (rc_transaction_id rc)) (\<lambda>latest.
                   case Option.bind latest (\<lambda>l. map_of (dr_finished l) (rc_participant rc)) of
                     Some old \<Rightarrow> if old \<noteq> rc then failS (DecisionRefused ''finish_conflict'')
                                 else retS (the latest)
                   | None \<Rightarrow> failS (DecisionRefused ''finish_conflict''))))))"

definition in_doubt :: "pystr \<Rightarrow> decision_row \<Rightarrow> bool" where
  "in_doubt ns r \<longleftrightarrow> r_namespace r = ns \<and> (open_state r \<or> r_finished_count r < r_participant_count r)"

fun decode_all :: "decision_row list \<Rightarrow> exn + decision_record list" where
  "decode_all [] = Inr []"
| "decode_all (row # rows) = bindE (decode row) (\<lambda>r. bindE (decode_all rows) (\<lambda>rs. Inr (r # rs)))"

definition list_in_doubt :: "pystr \<Rightarrow> int \<Rightarrow> (pg, decision_record list) action" where
  "list_in_doubt ns limit =
     (if \<not> (1 \<le> limit \<and> limit \<le> 1000) then failS (DecisionRefused ''recovery_limit_invalid'')
      else (\<lambda>db.
        let rows = take (nat limit + 1) (sort_key r_transaction_id (filter (in_doubt ns) (pg_rows db)))
        in if int (length rows) > limit then (db, Inl (DecisionRefused ''recovery_unbounded''))
           else (db, decode_all rows)))"

definition list_in_doubt_page :: "pystr \<Rightarrow> int \<Rightarrow> pystr \<Rightarrow> (pg, decision_record list \<times> bool) action" where
  "list_in_doubt_page ns limit after =
     (if \<not> (1 \<le> limit \<and> limit \<le> 1000) then failS (DecisionRefused ''recovery_limit_invalid'')
      else if length after > 128 then failS (DecisionRefused ''recovery_cursor_invalid'')
      else (\<lambda>db.
        let rows = take (nat limit + 1)
              (sort_key r_transaction_id (filter (\<lambda>r. in_doubt ns r \<and> r_transaction_id r > after) (pg_rows db)))
        in (db, bindE (decode_all (take (nat limit) rows)) (\<lambda>rs. Inr (rs, int (length rows) > limit)))))"

section \<open>Row lemmas\<close>

text \<open>A receipt its constructor accepts.\<close>

definition receipt_ok :: "receipt \<Rightarrow> bool" where
  "receipt_ok rc \<longleftrightarrow> rc_transaction_id rc \<noteq> [] \<and> 1 \<le> rc_epoch rc \<and> rc_participant rc \<noteq> []
     \<and> is_digest (rc_global_intent_digest rc) \<and> is_digest (rc_projection_digest rc)
     \<and> is_digest (rc_candidate_digest rc) \<and> is_digest (rc_receipt_digest rc)"

lemma dkeys_asdict [simp]: "dkeys (asdict rc) = lits RECEIPT_FIELDS"
  by (simp add: asdict_def RECEIPT_FIELDS_def dkeys_def lits_def)

lemma receipt_of_asdict: "receipt_of_fields (asdict rc) = (if receipt_ok rc then Inr rc else Inl (DecisionRefused ''receipt_invalid''))"
  by (simp add: receipt_of_fields_def dget_or_def mk_receipt_def digest_value_def receipt_ok_def)
    (auto simp add: asdict_def mk_receipt_def digest_value_def receipt_ok_def dget_def)

lemma mk_receipt_ok: "mk_receipt a b c d e f g = Inr rc \<Longrightarrow> receipt_ok rc"
  by (auto simp: mk_receipt_def receipt_ok_def digest_value_def wire_nonempty_iff split: if_splits)

lemma receipt_of_fields_ok: "receipt_of_fields d = Inr rc \<Longrightarrow> receipt_ok rc"
  by (auto simp: receipt_of_fields_def split: if_splits intro: mk_receipt_ok)

lemma decode_receipts_snoc:
  "decode_receipts d = Inr rs \<Longrightarrow> decode_receipts (d @ [(PStr (rc_participant rc), PDict (asdict rc))]) =
     (if receipt_ok rc then Inr (rs @ [(rc_participant rc, rc)]) else Inl (DecisionRefused ''stored_receipt_invalid''))"
  by (induction d arbitrary: rs rule: decode_receipts.induct)
    (auto simp: receipt_of_asdict split: if_splits sum.splits)

lemma decode_receipts_keys: "decode_receipts d = Inr rs \<Longrightarrow> map fst d = map (PStr \<circ> fst) rs"
  by (induction d arbitrary: rs rule: decode_receipts.induct)
    (auto simp: is_str_iff split: if_splits sum.splits)

lemma decode_receipts_names:
  "decode_receipts d = Inr rs \<Longrightarrow> (n, rc) \<in> set rs \<Longrightarrow> rc_participant rc = n \<and> receipt_ok rc"
  by (induction d arbitrary: rs rule: decode_receipts.induct)
    (auto split: if_splits sum.splits dest: receipt_of_fields_ok)

lemma receipts_column_put:
  assumes "receipts_column v = Inr rs" "\<not> jsonb_has v (rc_participant rc)"
  shows "receipts_column (jsonb_put v (rc_participant rc) (PDict (asdict rc))) =
     (if receipt_ok rc then Inr (rs @ [(rc_participant rc, rc)]) else Inl (DecisionRefused ''stored_receipt_invalid''))"
proof -
  from assms(1) obtain d where d: "v = PDict d" "decode_receipts d = Inr rs"
    by (auto simp: receipts_column_def split: option.splits)
  with assms(2) have "filter (\<lambda>kv. fst kv \<noteq> PStr (rc_participant rc)) d = d"
    by (force simp: jsonb_has_def dkeys_def filter_id_conv)
  with d decode_receipts_snoc [OF d(2), of rc] show ?thesis by (simp add: jsonb_put_def receipts_column_def)
qed

lemma receipts_column_has:
  assumes "receipts_column v = Inr rs"
  shows "jsonb_has v n \<longleftrightarrow> n \<in> fst ` set rs"
proof -
  from assms obtain d where d: "v = PDict d" "decode_receipts d = Inr rs"
    by (auto simp: receipts_column_def split: option.splits)
  then have "fst ` set d = PStr ` fst ` set rs" using decode_receipts_keys [OF d(2)]
    by (metis image_comp list.set_map)
  with d show ?thesis by (auto simp: jsonb_has_def dkeys_def)
qed

lemma receipts_column_names:
  "receipts_column v = Inr rs \<Longrightarrow> (n, rc) \<in> set rs \<Longrightarrow> rc_participant rc = n \<and> receipt_ok rc"
  by (auto simp: receipts_column_def split: option.splits dest: decode_receipts_names)

lemma decodeE:
  assumes "decode r = Inr rec"
  obtains "from_canonical_bytes (r_intent_bytes r) = Inr (dr_intent rec)" "gi_digest (dr_intent rec) = r_intent_digest r"
    "gi_transaction_id (dr_intent rec) = r_transaction_id r" "gi_epoch (dr_intent rec) = r_epoch r"
    "gi_request_id (dr_intent rec) = r_request_id r" "gi_expires_at (dr_intent rec) = r_expires_at_epoch r"
    "int (length (gi_participants (dr_intent rec))) = r_participant_count r"
    "receipts_column (r_prepared r) = Inr (dr_prepared rec)" "receipts_column (r_finished r) = Inr (dr_finished rec)"
    "int (length (dr_prepared rec)) = r_prepared_count r" "int (length (dr_finished rec)) = r_finished_count r"
    "dr_state rec = r_state r" "dr_witness_digest rec = r_witness_digest r" "dr_decided_at rec = r_decided_at_epoch r"
  using assms by (auto simp: decode_def split: sum.splits if_splits)

lemma decode_prepared_row:
  assumes "decode r = Inr rec" "\<not> jsonb_has (r_prepared r) (rc_participant rc)"
  shows "decode (prepared_row rc r) =
    (if receipt_ok rc then Inr (rec\<lparr>dr_prepared := dr_prepared rec @ [(rc_participant rc, rc)],
       dr_state := (if length (dr_prepared rec) + 1 = length (gi_participants (dr_intent rec)) then Prepared else Preparing)\<rparr>)
     else Inl (DecisionRefused ''stored_receipt_invalid''))"
proof -
  from assms(1) show ?thesis
  proof (cases rule: decodeE)
    case 1
    then show ?thesis using receipts_column_put [OF 1(8) assms(2)]
      by (auto simp: decode_def prepared_row_def)
  qed
qed

lemma decode_finished_row:
  assumes "decode r = Inr rec" "\<not> jsonb_has (r_finished r) (rc_participant rc)"
  shows "decode (finished_row rc r) =
    (if receipt_ok rc then Inr (rec\<lparr>dr_finished := dr_finished rec @ [(rc_participant rc, rc)]\<rparr>)
     else Inl (DecisionRefused ''stored_receipt_invalid''))"
proof -
  from assms(1) show ?thesis
  proof (cases rule: decodeE)
    case 1
    then show ?thesis using receipts_column_put [OF 1(9) assms(2)]
      by (auto simp: decode_def finished_row_def)
  qed
qed

lemma decode_decided_row:
  "decode r = Inr rec \<Longrightarrow> decode (decided_row d w now r) =
     Inr (rec\<lparr>dr_state := d, dr_witness_digest := w, dr_decided_at := Some now\<rparr>)"
  by (erule decodeE) (auto simp: decode_def decided_row_def)

lemma decode_aborted_row:
  "decode r = Inr rec \<Longrightarrow> decode (aborted_row now r) = Inr (rec\<lparr>dr_state := Aborted, dr_decided_at := Some now\<rparr>)"
  by (erule decodeE) (auto simp: decode_def aborted_row_def)

lemma decode_new_row:
  assumes "intent_ok i" "intent_norm i = i"
  shows "decode (new_row ns scope i) = Inr \<lparr>dr_intent = i, dr_state = Preparing, dr_prepared = [], dr_finished = [],
     dr_witness_digest = [], dr_decided_at = None\<rparr>"
  using from_canonical_bytes_ok [OF assms(1)] assms(2)
  by (simp add: decode_def new_row_def canonical_bytes_def receipts_column_def)

section \<open>Invariant\<close>

definition record_ok :: "decision_record \<Rightarrow> bool" where
  "record_ok rec \<longleftrightarrow> intent_ok (dr_intent rec)
     \<and> distinct (map fst (dr_prepared rec)) \<and> distinct (map fst (dr_finished rec))
     \<and> list_all (\<lambda>(n, rc). check_receipt rec rc = Inr ()) (dr_prepared rec)
     \<and> list_all (\<lambda>(n, rc). check_receipt rec rc = Inr ()) (dr_finished rec)
     \<and> (dr_state rec \<in> {Prepared, Committed} \<longrightarrow> fst ` set (dr_prepared rec) = set (gi_participants (dr_intent rec)))
     \<and> (dr_state rec = Preparing \<longrightarrow> fst ` set (dr_prepared rec) \<noteq> set (gi_participants (dr_intent rec)))
     \<and> (dr_terminal rec \<longleftrightarrow> dr_decided_at rec \<noteq> None) \<and> (\<not> dr_terminal rec \<longrightarrow> dr_finished rec = [])
     \<and> (if dr_state rec = Committed then is_digest (dr_witness_digest rec) else dr_witness_digest rec = [])"

definition row_ok :: "decision_row \<Rightarrow> bool" where
  "row_ok r = (case decode r of Inl _ \<Rightarrow> False | Inr rec \<Rightarrow> record_ok rec)"

lemma row_okE: assumes "row_ok r" obtains rec where "decode r = Inr rec" "record_ok rec"
  using assms by (auto simp: row_ok_def split: sum.splits)

lemma check_receipt_intent: "dr_intent a = dr_intent b \<Longrightarrow> check_receipt a rc = check_receipt b rc"
  by (simp add: check_receipt_def dr_transaction_id_def)

lemma check_receipt_participant: "check_receipt rec rc = Inr () \<Longrightarrow> rc_participant rc \<in> set (gi_participants (dr_intent rec))"
  by (auto simp: check_receipt_def split: if_splits)

lemma names_subset:
  assumes "receipts_column v = Inr rs" "list_all (\<lambda>(n, rc). check_receipt rec rc = Inr ()) rs"
  shows "fst ` set rs \<subseteq> set (gi_participants (dr_intent rec))"
  using assms receipts_column_names [OF assms(1)] by (force simp: list_all_iff dest: check_receipt_participant)

lemma subset_full_iff:
  "distinct xs \<Longrightarrow> distinct ys \<Longrightarrow> set xs \<subseteq> set ys \<Longrightarrow> set xs = set ys \<longleftrightarrow> length xs = length ys"
  by (metis card_subset_eq distinct_card finite_set)

lemma record_ok_prepared:
  assumes "decode r = Inr rec" "record_ok rec" "dr_state rec = Preparing" "check_receipt rec rc = Inr ()"
    "\<not> jsonb_has (r_prepared r) (rc_participant rc)"
  shows "record_ok (rec\<lparr>dr_prepared := dr_prepared rec @ [(rc_participant rc, rc)],
       dr_state := (if length (dr_prepared rec) + 1 = length (gi_participants (dr_intent rec)) then Prepared else Preparing)\<rparr>)"
proof -
  let ?ps = "gi_participants (dr_intent rec)" and ?ns = "map fst (dr_prepared rec) @ [rc_participant rc]"
  from assms(1) have col: "receipts_column (r_prepared r) = Inr (dr_prepared rec)" by (rule decodeE)
  have ok: "list_all (\<lambda>(n, rc). check_receipt rec rc = Inr ()) (dr_prepared rec)" "distinct (map fst (dr_prepared rec))"
    "distinct ?ps" using assms(2) by (auto simp: record_ok_def intent_ok_def)
  have new: "rc_participant rc \<notin> fst ` set (dr_prepared rec)" using assms(5) receipts_column_has [OF col] by simp
  have "set ?ns \<subseteq> set ?ps" using names_subset [OF col ok(1)] check_receipt_participant [OF assms(4)] by simp
  then have full: "set ?ns = set ?ps \<longleftrightarrow> length ?ns = length ?ps" using new ok by (intro subset_full_iff) auto
  have chk: "check_receipt (rec\<lparr>dr_prepared := P, dr_state := S\<rparr>) = check_receipt rec" for P S
    by (intro ext check_receipt_intent) simp
  from assms(2,3,4) new full show ?thesis
    unfolding record_ok_def by (simp add: chk dr_terminal_def TERMINAL_def)
qed

lemma record_ok_decided:
  assumes "record_ok rec" "\<not> dr_terminal rec" "d = Committed \<and> dr_state rec = Prepared \<and> is_digest w \<or> d = Aborted \<and> w = []"
  shows "record_ok (rec\<lparr>dr_state := d, dr_witness_digest := w, dr_decided_at := Some now\<rparr>)"
proof -
  have chk: "check_receipt (rec\<lparr>dr_state := S, dr_witness_digest := w, dr_decided_at := t\<rparr>) = check_receipt rec" for S t
    by (intro ext check_receipt_intent) simp
  from assms show ?thesis unfolding record_ok_def by (auto simp: chk dr_terminal_def TERMINAL_def)
qed

lemma record_ok_finished:
  assumes "decode r = Inr rec" "record_ok rec" "dr_terminal rec" "check_receipt rec rc = Inr ()"
    "\<not> jsonb_has (r_finished r) (rc_participant rc)"
  shows "record_ok (rec\<lparr>dr_finished := dr_finished rec @ [(rc_participant rc, rc)]\<rparr>)"
proof -
  from assms(1) have col: "receipts_column (r_finished r) = Inr (dr_finished rec)" by (rule decodeE)
  have new: "rc_participant rc \<notin> fst ` set (dr_finished rec)" using assms(5) receipts_column_has [OF col] by simp
  have chk: "check_receipt (rec\<lparr>dr_finished := P\<rparr>) = check_receipt rec" for P
    by (intro ext check_receipt_intent) simp
  from assms new show ?thesis unfolding record_ok_def by (auto simp: chk dr_terminal_def)
qed

lemma record_ok_new:
  "intent_ok i \<Longrightarrow> record_ok \<lparr>dr_intent = i, dr_state = Preparing, dr_prepared = [], dr_finished = [],
     dr_witness_digest = [], dr_decided_at = None\<rparr>"
  by (auto simp: record_ok_def dr_terminal_def TERMINAL_def intent_ok_def)


section \<open>Table steps\<close>

definition table_ok :: "decision_row list \<Rightarrow> bool" where
  "table_ok rows \<longleftrightarrow> list_all row_ok rows \<and> sorted_wrt (\<lambda>a b. \<not> conflicts a b) rows"

text \<open>
  One committed statement of any session on any row. The guards are what the operation has
  established when it executes the statement; they mention the row's immutable intent and what
  the statement's own \<open>WHERE\<close> clause rechecks under the row lock.
\<close>

inductive row_step :: "decision_row \<Rightarrow> decision_row \<Rightarrow> bool" where
  step_prepared: "decode r = Inr rec \<Longrightarrow> check_receipt rec rc = Inr () \<Longrightarrow> receipt_ok rc \<Longrightarrow> r_state r = Preparing
     \<Longrightarrow> \<not> jsonb_has (r_prepared r) (rc_participant rc) \<Longrightarrow> now < r_expires_at_epoch r
     \<Longrightarrow> row_step r (prepared_row rc r)"
| step_committed: "r_state r = Prepared \<Longrightarrow> r_prepared_count r = r_participant_count r \<Longrightarrow> now < r_expires_at_epoch r
     \<Longrightarrow> is_digest w \<Longrightarrow> row_step r (decided_row Committed w now' r)"
| step_aborted: "open_state r \<Longrightarrow> row_step r (decided_row Aborted [] now r)"
| step_expired: "open_state r \<Longrightarrow> r_expires_at_epoch r \<le> now \<Longrightarrow> row_step r (aborted_row now' r)"
| step_finished: "decode r = Inr rec \<Longrightarrow> check_receipt rec rc = Inr () \<Longrightarrow> receipt_ok rc \<Longrightarrow> r_state r \<in> {Committed, Aborted}
     \<Longrightarrow> \<not> jsonb_has (r_finished r) (rc_participant rc) \<Longrightarrow> row_step r (finished_row rc r)"

inductive table_step :: "decision_row list \<Rightarrow> decision_row list \<Rightarrow> bool" where
  step_begun: "draft_ok d \<Longrightarrow> draft_bind d tid ep = Inr i \<Longrightarrow> now < gi_expires_at i
     \<Longrightarrow> \<not> list_ex (conflicts (new_row ns (draft_replay_scope d) i)) rows
     \<Longrightarrow> table_step rows (rows @ [new_row ns (draft_replay_scope d) i])"
| step_row: "k < length rows \<Longrightarrow> row_step (rows ! k) r' \<Longrightarrow> table_step rows (rows[k := r'])"

lemma conflicts_sym: "conflicts a b = conflicts b a"
  by (auto simp: conflicts_def)

lemmas row_defs = prepared_row_def decided_row_def aborted_row_def finished_row_def

lemma row_step_identity:
  "row_step r r' \<Longrightarrow> r_namespace r' = r_namespace r \<and> r_transaction_id r' = r_transaction_id r
     \<and> r_replay_scope r' = r_replay_scope r \<and> r_request_id r' = r_request_id r \<and> r_epoch r' = r_epoch r
     \<and> r_expires_at_epoch r' = r_expires_at_epoch r"
  by (induction rule: row_step.induct) (simp_all add: row_defs)

lemma row_step_conflicts: "row_step r r' \<Longrightarrow> conflicts r' x = conflicts r x \<and> conflicts x r' = conflicts x r"
  by (simp add: conflicts_def row_step_identity)

lemma open_state_record: "decode r = Inr rec \<Longrightarrow> open_state r \<longleftrightarrow> \<not> dr_terminal rec"
  by (erule decodeE) (cases "r_state r"; simp add: open_state_def dr_terminal_def TERMINAL_def)

lemma open_record_witness: "record_ok rec \<Longrightarrow> \<not> dr_terminal rec \<Longrightarrow> dr_witness_digest rec = []"
  by (auto simp: record_ok_def dr_terminal_def TERMINAL_def split: if_splits)

lemma row_step_ok: "row_step r r' \<Longrightarrow> row_ok r \<Longrightarrow> row_ok r'"
proof (induction rule: row_step.induct)
  case (step_prepared r rec rc now)
  then have ok: "record_ok rec" "dr_state rec = Preparing" by (simp add: row_ok_def, auto elim: decodeE)
  from record_ok_prepared [OF step_prepared.hyps(1) ok step_prepared.hyps(2,5)] step_prepared.hyps
  show ?case by (simp add: row_ok_def decode_prepared_row)
next
  case (step_committed r now w now')
  from step_committed.prems obtain rec where rec: "decode r = Inr rec" "record_ok rec" by (rule row_okE)
  then have "dr_state rec = Prepared" using step_committed by (auto elim: decodeE)
  with rec step_committed show ?case
    by (simp add: row_ok_def decode_decided_row record_ok_decided dr_terminal_def TERMINAL_def)
next
  case (step_aborted r now)
  from step_aborted.prems obtain rec where rec: "decode r = Inr rec" "record_ok rec" by (rule row_okE)
  with step_aborted show ?case by (simp add: row_ok_def decode_decided_row record_ok_decided open_state_record)
next
  case (step_expired r now now')
  from step_expired.prems obtain rec where rec: "decode r = Inr rec" "record_ok rec" by (rule row_okE)
  with step_expired have op: "\<not> dr_terminal rec" by (simp add: open_state_record)
  have "rec\<lparr>dr_state := Aborted, dr_decided_at := Some now'\<rparr> =
      rec\<lparr>dr_state := Aborted, dr_witness_digest := [], dr_decided_at := Some now'\<rparr>"
    using open_record_witness [OF rec(2) op] by simp
  with rec op record_ok_decided [of rec Aborted "[]" now'] show ?case by (simp add: row_ok_def decode_aborted_row)
next
  case (step_finished r rec rc)
  then have "record_ok rec" by (simp add: row_ok_def)
  moreover have "dr_terminal rec"
    using step_finished.hyps(1,4) by (auto elim!: decodeE simp: dr_terminal_def TERMINAL_def)
  ultimately have "record_ok rec" "dr_terminal rec" by simp_all
  with record_ok_finished [OF step_finished.hyps(1) _ _ step_finished.hyps(2,5)] step_finished.hyps
  show ?case by (simp add: row_ok_def decode_finished_row)
qed

lemma sorted_wrt_update:
  assumes "sorted_wrt P xs" "k < length xs" "\<And>z. P y z = P (xs ! k) z" "\<And>z. P z y = P z (xs ! k)"
  shows "sorted_wrt P (xs[k := y])"
  using assms by (auto simp: sorted_wrt_iff_nth_less nth_list_update)

lemma table_step_ok: "table_step rows rows' \<Longrightarrow> table_ok rows \<Longrightarrow> table_ok rows'"
proof (induction rule: table_step.induct)
  case (step_begun d tid ep i now ns rows)
  have i: "intent_ok i" "intent_norm i = i" using draft_bind_ok [OF step_begun(2,1)] by auto
  then have "row_ok (new_row ns (draft_replay_scope d) i)" by (simp add: row_ok_def decode_new_row record_ok_new)
  with step_begun show ?case
    by (auto simp: table_ok_def sorted_wrt_append list_ex_iff conflicts_sym)
next
  case (step_row k rows r')
  then have "row_ok r'" by (auto simp: table_ok_def list_all_iff intro: row_step_ok)
  moreover have "sorted_wrt (\<lambda>a b. \<not> conflicts a b) (rows[k := r'])"
    using step_row row_step_conflicts [OF step_row(2)] by (intro sorted_wrt_update) (auto simp: table_ok_def)
  ultimately show ?case using step_row(3)
    by (auto simp: table_ok_def list_all_iff dest!: set_update_subset_insert [THEN subsetD])
qed

section \<open>Progress order\<close>

definition record_le :: "decision_record \<Rightarrow> decision_record \<Rightarrow> bool" where
  "record_le a b \<longleftrightarrow> dr_intent b = dr_intent a
     \<and> map_of (dr_prepared a) \<subseteq>\<^sub>m map_of (dr_prepared b) \<and> map_of (dr_finished a) \<subseteq>\<^sub>m map_of (dr_finished b)
     \<and> (dr_terminal a \<longrightarrow> dr_state b = dr_state a \<and> dr_witness_digest b = dr_witness_digest a
          \<and> dr_decided_at b = dr_decided_at a \<and> dr_prepared b = dr_prepared a)"

lemma record_le_refl [simp]: "record_le a a"
  by (simp add: record_le_def)

lemma record_le_trans: "record_le a b \<Longrightarrow> record_le b c \<Longrightarrow> record_le a c"
  by (auto simp: record_le_def dr_terminal_def intro: map_le_trans)

definition row_le :: "decision_row \<Rightarrow> decision_row \<Rightarrow> bool" where
  "row_le r r' \<longleftrightarrow> r_namespace r' = r_namespace r \<and> r_transaction_id r' = r_transaction_id r
     \<and> r_replay_scope r' = r_replay_scope r \<and> r_request_id r' = r_request_id r
     \<and> (\<forall>a. decode r = Inr a \<longrightarrow> (\<exists>b. decode r' = Inr b \<and> record_le a b))"

lemma map_le_snoc: "k \<notin> fst ` set xs \<Longrightarrow> map_of xs \<subseteq>\<^sub>m map_of (xs @ [(k, v)])"
  by (auto simp: map_of_snoc map_le_def)

lemma row_step_le: "row_step r r' \<Longrightarrow> row_le r r'"
  unfolding row_le_def
proof (intro conjI allI impI)
  fix a assume st: "row_step r r'" and a: "decode r = Inr a"
  have pre: "jsonb_has (r_prepared r) n \<longleftrightarrow> n \<in> fst ` set (dr_prepared a)" for n
    using a by (auto elim!: decodeE dest: receipts_column_has)
  have fin: "jsonb_has (r_finished r) n \<longleftrightarrow> n \<in> fst ` set (dr_finished a)" for n
    using a by (auto elim!: decodeE dest: receipts_column_has)
  have state: "dr_state a = r_state r" using a by (rule decodeE)
  note facts = decode_prepared_row decode_finished_row decode_decided_row decode_aborted_row
  from st show "\<exists>b. decode r' = Inr b \<and> record_le a b"
  proof cases
    case (step_prepared rec rc now)
    with a pre state show ?thesis by (simp add: facts record_le_def map_le_snoc dr_terminal_def TERMINAL_def)
  next
    case (step_committed now w now')
    with a state show ?thesis by (simp add: facts record_le_def dr_terminal_def TERMINAL_def)
  next
    case (step_aborted now)
    with a state show ?thesis by (simp add: facts record_le_def open_state_record)
  next
    case (step_expired now now')
    with a state show ?thesis by (simp add: facts record_le_def open_state_record)
  next
    case (step_finished rec rc)
    with a fin state show ?thesis by (simp add: facts record_le_def map_le_snoc)
  qed
qed (simp_all add: row_step_identity)

lemma row_le_refl [simp]: "row_le r r"
  by (simp add: row_le_def)

lemma row_le_trans: "row_le a b \<Longrightarrow> row_le b c \<Longrightarrow> row_le a c"
  unfolding row_le_def by (metis record_le_trans)

definition table_le :: "decision_row list \<Rightarrow> decision_row list \<Rightarrow> bool" where
  "table_le rows rows' \<longleftrightarrow> length rows \<le> length rows' \<and> (\<forall>k < length rows. row_le (rows ! k) (rows' ! k))"

lemma table_le_refl [simp]: "table_le rows rows"
  by (simp add: table_le_def)

lemma table_le_trans: "table_le a b \<Longrightarrow> table_le b c \<Longrightarrow> table_le a c"
  unfolding table_le_def by (meson order.strict_trans2 order.trans row_le_trans)

lemma table_step_le: "table_step rows rows' \<Longrightarrow> table_le rows rows'"
  by (induction rule: table_step.induct) (auto simp: table_le_def nth_append nth_list_update row_step_le)

lemma table_steps_le: "table_step\<^sup>*\<^sup>* rows rows' \<Longrightarrow> table_le rows rows'"
  by (induction rule: rtranclp_induct) (auto intro: table_le_trans table_step_le)

lemma table_steps_ok: "table_step\<^sup>*\<^sup>* rows rows' \<Longrightarrow> table_ok rows \<Longrightarrow> table_ok rows'"
  by (induction rule: rtranclp_induct) (auto intro: table_step_ok)

section \<open>Operations as steps\<close>

definition view :: "pystr \<Rightarrow> decision_row list \<Rightarrow> pystr \<Rightarrow> decision_record option" where
  "view ns rows tid = (case find (has_id ns tid) rows of
       None \<Rightarrow> None
     | Some r \<Rightarrow> (case decode r of Inl _ \<Rightarrow> None | Inr rec \<Rightarrow> Some rec))"

lemma find_Some_nth: "find p xs = Some x \<Longrightarrow> \<exists>k < length xs. xs ! k = x \<and> p x"
  by (auto simp: find_Some_iff)

lemma table_ok_unique:
  assumes "table_ok rows" "j < length rows" "k < length rows" "has_id ns tid (rows ! j)" "has_id ns tid (rows ! k)"
  shows "j = k"
proof (rule ccontr)
  assume "j \<noteq> k"
  moreover have "conflicts (rows ! j) (rows ! k)" "conflicts (rows ! k) (rows ! j)"
    using assms(4,5) by (auto simp: conflicts_def has_id_def)
  ultimately show False using assms(1-3) by (auto simp: table_ok_def sorted_wrt_iff_nth_less elim: linorder_neqE_nat)
qed

lemma find_has_id:
  assumes "table_ok rows" "k < length rows" "has_id ns tid (rows ! k)"
  shows "find (has_id ns tid) rows = Some (rows ! k)"
proof (cases "find (has_id ns tid) rows")
  case (Some r)
  then obtain j where "j < length rows" "rows ! j = r" "has_id ns tid r" using find_Some_nth by metis
  with table_ok_unique [OF assms(1), of j k] assms Some show ?thesis by auto
qed (use assms in \<open>auto simp: find_None_iff\<close>)

lemma view_nth:
  assumes "table_ok rows" "k < length rows" "has_id ns tid (rows ! k)" "decode (rows ! k) = Inr rec"
  shows "view ns rows tid = Some rec"
  using assms by (simp add: view_def find_has_id)

lemma view_Some:
  assumes "view ns rows tid = Some rec"
  obtains k where "k < length rows" "has_id ns tid (rows ! k)" "decode (rows ! k) = Inr rec"
  using assms by (auto simp: view_def split: option.splits sum.splits dest!: find_Some_nth)

lemma view_record:
  assumes "table_ok rows" "view ns rows tid = Some rec"
  shows "record_ok rec" "dr_transaction_id rec = tid"
proof -
  from assms(2) obtain k where k: "k < length rows" "has_id ns tid (rows ! k)" "decode (rows ! k) = Inr rec" by (rule view_Some)
  with assms(1) have "row_ok (rows ! k)" by (simp add: table_ok_def list_all_length)
  with k show "record_ok rec" by (simp add: row_ok_def)
  from k show "dr_transaction_id rec = tid" by (auto simp: dr_transaction_id_def has_id_def elim: decodeE)
qed

lemma view_decode:
  assumes "table_ok rows" "k < length rows" "has_id ns tid (rows ! k)" "view ns rows tid = Some rec"
  shows "decode (rows ! k) = Inr rec"
proof -
  from assms(4) obtain j where "j < length rows" "has_id ns tid (rows ! j)" "decode (rows ! j) = Inr rec" by (rule view_Some)
  with table_ok_unique [OF assms(1)] assms show ?thesis by metis
qed

lemma store_read_run: "table_ok (pg_rows db) \<Longrightarrow> store_read ns tid db = (db, Inr (view ns (pg_rows db) tid))"
proof (cases "find (has_id ns tid) (pg_rows db)")
  case (Some r)
  assume ok: "table_ok (pg_rows db)"
  from Some obtain k where "k < length (pg_rows db)" "pg_rows db ! k = r" using find_Some_nth by metis
  with ok have "row_ok r" by (auto simp: table_ok_def list_all_length)
  with Some show ?thesis by (auto simp: store_read_def bindS_def sql_select_def view_def elim!: row_okE)
qed (simp add: store_read_def bindS_def sql_select_def view_def)

lemma sql_update_cases:
  assumes "table_ok (pg_rows db)" "sql_update p f db = (db', Inr out)" "\<And>r. p r \<Longrightarrow> has_id ns tid r"
  obtains (none) "out = None" "db' = db" "\<forall>r \<in> set (pg_rows db). \<not> p r"
    | (row) k where "k < length (pg_rows db)" "p (pg_rows db ! k)" "out = Some (f (pg_rows db ! k))"
        "db' = db\<lparr>pg_rows := (pg_rows db)[k := f (pg_rows db ! k)]\<rparr>"
proof (cases "find p (pg_rows db)")
  case None
  then have "map (\<lambda>r. if p r then f r else r) (pg_rows db) = pg_rows db" by (auto simp: find_None_iff intro: map_idI)
  with None assms(2) show ?thesis by (intro none) (auto simp: sql_update_def find_None_iff)
next
  case (Some r)
  then obtain k where k: "k < length (pg_rows db)" "pg_rows db ! k = r" "p r" using find_Some_nth by metis
  have "p (pg_rows db ! j) \<longleftrightarrow> j = k" if "j < length (pg_rows db)" for j
    using table_ok_unique [OF assms(1) that k(1)] assms(3) k by auto
  then have "map (\<lambda>r. if p r then f r else r) (pg_rows db) = (pg_rows db)[k := f r]"
    using k(2) by (intro nth_equalityI) (auto simp: nth_list_update)
  with Some k assms(2) show ?thesis by (intro row [of k]) (auto simp: sql_update_def)
qed

lemma update_prepared_cases:
  assumes "table_ok (pg_rows db)" "update_prepared ns rc now db = (db', Inr out)"
  obtains (none) "out = None" "db' = db"
      "\<forall>r \<in> set (pg_rows db). \<not> (has_id ns (rc_transaction_id rc) r \<and> r_state r = Preparing
         \<and> \<not> jsonb_has (r_prepared r) (rc_participant rc) \<and> now < r_expires_at_epoch r)"
    | (row) k where "k < length (pg_rows db)" "has_id ns (rc_transaction_id rc) (pg_rows db ! k)"
        "r_state (pg_rows db ! k) = Preparing" "\<not> jsonb_has (r_prepared (pg_rows db ! k)) (rc_participant rc)"
        "now < r_expires_at_epoch (pg_rows db ! k)" "out = Some (prepared_row rc (pg_rows db ! k))"
        "db' = db\<lparr>pg_rows := (pg_rows db)[k := prepared_row rc (pg_rows db ! k)]\<rparr>"
  by (rule sql_update_cases [OF assms(1) assms(2) [unfolded update_prepared_def], of ns "rc_transaction_id rc"])
    (auto intro: none row)

lemma update_decision_cases:
  assumes "table_ok (pg_rows db)" "update_decision ns tid d w now now' db = (db', Inr out)"
  obtains (none) "out = None" "db' = db"
      "\<forall>r \<in> set (pg_rows db). \<not> (has_id ns tid r \<and> open_state r \<and> (d \<noteq> Committed
         \<or> r_state r = Prepared \<and> r_prepared_count r = r_participant_count r \<and> now < r_expires_at_epoch r))"
    | (row) k where "k < length (pg_rows db)" "has_id ns tid (pg_rows db ! k)" "open_state (pg_rows db ! k)"
        "d = Committed \<Longrightarrow> r_state (pg_rows db ! k) = Prepared
           \<and> r_prepared_count (pg_rows db ! k) = r_participant_count (pg_rows db ! k) \<and> now < r_expires_at_epoch (pg_rows db ! k)"
        "out = Some (decided_row d w now' (pg_rows db ! k))"
        "db' = db\<lparr>pg_rows := (pg_rows db)[k := decided_row d w now' (pg_rows db ! k)]\<rparr>"
  by (rule sql_update_cases [OF assms(1) assms(2) [unfolded update_decision_def], of ns tid])
    (auto intro: none row)

lemma update_abort_cases:
  assumes "table_ok (pg_rows db)" "update_abort ns tid now now' db = (db', Inr out)"
  obtains (none) "out = None" "db' = db"
      "\<forall>r \<in> set (pg_rows db). \<not> (has_id ns tid r \<and> open_state r \<and> r_expires_at_epoch r \<le> now)"
    | (row) k where "k < length (pg_rows db)" "has_id ns tid (pg_rows db ! k)" "open_state (pg_rows db ! k)"
        "r_expires_at_epoch (pg_rows db ! k) \<le> now" "out = Some (aborted_row now' (pg_rows db ! k))"
        "db' = db\<lparr>pg_rows := (pg_rows db)[k := aborted_row now' (pg_rows db ! k)]\<rparr>"
  by (rule sql_update_cases [OF assms(1) assms(2) [unfolded update_abort_def], of ns tid])
    (auto intro: none row)

lemma update_finished_cases:
  assumes "table_ok (pg_rows db)" "update_finished ns rc db = (db', Inr out)"
  obtains (none) "out = None" "db' = db"
      "\<forall>r \<in> set (pg_rows db). \<not> (has_id ns (rc_transaction_id rc) r \<and> r_state r \<in> {Committed, Aborted}
         \<and> \<not> jsonb_has (r_finished r) (rc_participant rc))"
    | (row) k where "k < length (pg_rows db)" "has_id ns (rc_transaction_id rc) (pg_rows db ! k)"
        "r_state (pg_rows db ! k) \<in> {Committed, Aborted}" "\<not> jsonb_has (r_finished (pg_rows db ! k)) (rc_participant rc)"
        "out = Some (finished_row rc (pg_rows db ! k))"
        "db' = db\<lparr>pg_rows := (pg_rows db)[k := finished_row rc (pg_rows db ! k)]\<rparr>"
  by (rule sql_update_cases [OF assms(1) assms(2) [unfolded update_finished_def], of ns "rc_transaction_id rc"])
    (auto intro: none row)

lemma transaction_Inl: "transaction conn body db = (db', Inl e) \<Longrightarrow> pg_rows db' = pg_rows db"
  by (auto simp: transaction_def split: if_splits prod.splits sum.splits)

lemma transaction_Inr: "transaction conn body db = (db', Inr x) \<longleftrightarrow> conn \<noteq> Some False \<and> body db = (db', Inr x)"
  by (auto simp: transaction_def split: prod.splits sum.splits)

lemma clock_now_Inr: "clock_now db = (db', Inr now) \<longleftrightarrow> db' = db\<lparr>pg_reads := Suc (pg_reads db)\<rparr> \<and> now = pg_clock db (pg_reads db)"
  by (auto simp: clock_now_def)

lemma step_row_view:
  assumes "table_ok rows" "k < length rows" "has_id ns tid (rows ! k)" "row_step (rows ! k) r'" "decode r' = Inr rec"
  shows "view ns (rows[k := r']) tid = Some rec" "table_step rows (rows[k := r'])"
proof -
  show st: "table_step rows (rows[k := r'])" using assms by (intro step_row)
  have "has_id ns tid r'" using assms(3) row_step_identity [OF assms(4)] by (simp add: has_id_def)
  then show "view ns (rows[k := r']) tid = Some rec"
    using table_step_ok [OF st assms(1)] assms by (intro view_nth [where k = k]) auto
qed

text \<open>What an operation may do to the table: nothing, or one step.\<close>

definition at_most_one_step :: "pg \<Rightarrow> pg \<Rightarrow> bool" where
  "at_most_one_step db db' \<longleftrightarrow> pg_rows db' = pg_rows db \<or> table_step (pg_rows db) (pg_rows db')"

lemma map_of_snoc_new: "k \<notin> fst ` set xs \<Longrightarrow> map_of (xs @ [(k, v)]) k = Some v"
  by (simp add: map_of_snoc del: map_of_append)

lemma record_prepared_Inr:
  assumes ok: "table_ok (pg_rows db)" and run: "record_prepared ns rc conn db = (db', Inr rec)"
  shows "view ns (pg_rows db') (rc_transaction_id rc) = Some rec \<and> map_of (dr_prepared rec) (rc_participant rc) = Some rc
     \<and> at_most_one_step db db'"
proof -
  let ?tid = "rc_transaction_id rc"
  from run ok obtain rec0 db1 db2 updated where
    v: "view ns (pg_rows db) ?tid = Some rec0" and chk: "check_receipt rec0 rc = Inr ()"
    and db1: "db1 = db\<lparr>pg_reads := Suc (pg_reads db)\<rparr>"
    and up: "update_prepared ns rc (pg_clock db (pg_reads db)) db1 = (db2, Inr updated)"
    and out: "(case updated of
               Some r \<Rightarrow> liftS (decode r)
             | None \<Rightarrow> bindS (store_read ns ?tid) (\<lambda>latest.
                 case Option.bind latest (\<lambda>l. map_of (dr_prepared l) (rc_participant rc)) of
                   Some old \<Rightarrow> if old \<noteq> rc then failS (DecisionRefused ''prepared_conflict'')
                               else retS (the latest)
                 | None \<Rightarrow> failS (DecisionRefused ''late_preparation''))) db2 = (db', Inr rec)"
    unfolding record_prepared_def
    by (auto simp: transaction_Inr bindS_eq_Inr store_read_run clock_now_Inr split: option.splits)
  have ok1: "table_ok (pg_rows db1)" and rows1: "pg_rows db1 = pg_rows db" using ok db1 by auto
  from ok1 up show ?thesis
  proof (cases rule: update_prepared_cases)
    case none
    with out ok1 rows1 v show ?thesis
      by (auto simp: store_read_run bindS_def at_most_one_step_def split: option.splits if_splits)
  next
    case (row k)
    have dk: "decode (pg_rows db ! k) = Inr rec0"
      using view_decode [OF ok _ _ v] row(1,2) rows1 by simp
    from row out have db': "db' = db2" "decode (prepared_row rc (pg_rows db ! k)) = Inr rec" using rows1 by auto
    with dk row(4) rows1 have rec: "receipt_ok rc" "dr_prepared rec = dr_prepared rec0 @ [(rc_participant rc, rc)]"
      by (auto simp: decode_prepared_row split: if_splits)
    have "rc_participant rc \<notin> fst ` set (dr_prepared rec0)"
      using row(4) rows1 dk by (auto elim!: decodeE dest!: receipts_column_has)
    moreover have "row_step (pg_rows db ! k) (prepared_row rc (pg_rows db ! k))"
      using row(3-5) rows1 dk chk rec(1) by (intro step_prepared [where now = "pg_clock db (pg_reads db)"]) auto
    ultimately show ?thesis
      using step_row_view [OF ok _ _ _ db'(2), of k ns ?tid] row rows1 db'(1) rec(2)
      by (auto simp: at_most_one_step_def map_of_snoc_new simp del: map_of_append)
  qed
qed


lemma record_finished_Inr:
  assumes ok: "table_ok (pg_rows db)" and run: "record_finished ns rc conn db = (db', Inr rec)"
  shows "view ns (pg_rows db') (rc_transaction_id rc) = Some rec \<and> map_of (dr_finished rec) (rc_participant rc) = Some rc
     \<and> dr_terminal rec \<and> at_most_one_step db db'"
proof -
  let ?tid = "rc_transaction_id rc"
  from run ok obtain rec0 db2 updated where
    v: "view ns (pg_rows db) ?tid = Some rec0" and chk: "check_receipt rec0 rc = Inr ()" and tm: "dr_terminal rec0"
    and up: "update_finished ns rc db = (db2, Inr updated)"
    and out: "(case updated of
               Some r \<Rightarrow> liftS (decode r)
             | None \<Rightarrow> bindS (store_read ns ?tid) (\<lambda>latest.
                 case Option.bind latest (\<lambda>l. map_of (dr_finished l) (rc_participant rc)) of
                   Some old \<Rightarrow> if old \<noteq> rc then failS (DecisionRefused ''finish_conflict'')
                               else retS (the latest)
                 | None \<Rightarrow> failS (DecisionRefused ''finish_conflict''))) db2 = (db', Inr rec)"
    unfolding record_finished_def
    by (auto simp: transaction_Inr bindS_eq_Inr store_read_run split: option.splits if_splits)
  from ok up show ?thesis
  proof (cases rule: update_finished_cases)
    case none
    with out ok v tm show ?thesis
      by (auto simp: store_read_run bindS_def at_most_one_step_def split: option.splits if_splits)
  next
    case (row k)
    have dk: "decode (pg_rows db ! k) = Inr rec0" using view_decode [OF ok row(1,2) v] .
    from row out have db': "db' = db2" "decode (finished_row rc (pg_rows db ! k)) = Inr rec" by auto
    with dk row(4) have rec: "receipt_ok rc" "dr_finished rec = dr_finished rec0 @ [(rc_participant rc, rc)]" "dr_terminal rec"
      using tm by (auto simp: decode_finished_row dr_terminal_def split: if_splits)
    have "rc_participant rc \<notin> fst ` set (dr_finished rec0)"
      using row(4) dk by (auto elim!: decodeE dest!: receipts_column_has)
    moreover have "row_step (pg_rows db ! k) (finished_row rc (pg_rows db ! k))"
      using row(3,4) dk chk rec(1) by (intro step_finished) auto
    ultimately show ?thesis
      using step_row_view [OF ok _ _ _ db'(2), of k ns ?tid] row db'(1) rec(2,3)
      by (auto simp: at_most_one_step_def map_of_snoc_new simp del: map_of_append)
  qed
qed

lemma TERMINAL_of: "terminal_of decision = Some d \<Longrightarrow> d \<in> set TERMINAL"
  by (auto simp: terminal_of_def TERMINAL_def split: if_splits)

text \<open>A new terminal decision: the record was open, and a commit was prepared and unexpired.\<close>

definition decides_now :: "pystr \<Rightarrow> pystr \<Rightarrow> dstate \<Rightarrow> pg \<Rightarrow> bool" where
  "decides_now ns tid d db \<longleftrightarrow> (\<exists>rec. view ns (pg_rows db) tid = Some rec \<and> \<not> dr_terminal rec
     \<and> (d = Committed \<longrightarrow> dr_state rec = Prepared
          \<and> pg_clock db (pg_reads db) < gi_expires_at (dr_intent rec)))"

lemma decide_terminal_Inr:
  assumes ok: "table_ok (pg_rows db)" and run: "decide_terminal ns tid d w conn db = (db', Inr rec)" and d: "d \<in> set TERMINAL"
  shows "view ns (pg_rows db') tid = Some rec \<and> dr_state rec = d \<and> (d = Committed \<longrightarrow> dr_witness_digest rec = w \<and> is_digest w)
     \<and> at_most_one_step db db'
     \<and> (if pg_rows db' = pg_rows db then view ns (pg_rows db) tid = Some rec else decides_now ns tid d db)"
proof -
  let ?w = "if d = Committed then w else []"
  from run have w: "d = Committed \<longrightarrow> is_digest w" by (auto simp: decide_terminal_def split: if_splits)
  from run ok obtain rec0 where v: "view ns (pg_rows db) tid = Some rec0"
    unfolding decide_terminal_def
    by (auto simp: transaction_Inr store_read_run split: option.splits if_splits)
  show ?thesis
  proof (cases "dr_terminal rec0")
    case True
    with run ok v w show ?thesis unfolding decide_terminal_def
      by (auto simp: transaction_Inr store_read_run at_most_one_step_def split: if_splits)
  next
    case False
    let ?n1 = "pg_clock db (pg_reads db)" and ?n2 = "pg_clock db (Suc (pg_reads db))"
    let ?db1 = "db\<lparr>pg_reads := Suc (Suc (pg_reads db))\<rparr>"
    from run ok v False obtain db2 updated where up: "update_decision ns tid d ?w ?n1 ?n2 ?db1 = (db2, Inr updated)"
      and out: "updated = Some r \<Longrightarrow> db' = db2 \<and> decode r = Inr rec" and nn: "updated \<noteq> None" for r
      unfolding decide_terminal_def
      by (auto simp: transaction_Inr store_read_run bindS_eq_Inr clock_now_Inr split: if_splits option.splits)
    from ok have ok1: "table_ok (pg_rows ?db1)" by simp
    from ok1 up show ?thesis
    proof (cases rule: update_decision_cases)
      case (row k)
      then have row': "k < length (pg_rows db)" "has_id ns tid (pg_rows db ! k)" "open_state (pg_rows db ! k)"
        "db' = ?db1\<lparr>pg_rows := (pg_rows db)[k := decided_row d ?w ?n2 (pg_rows db ! k)]\<rparr>"
        "decode (decided_row d ?w ?n2 (pg_rows db ! k)) = Inr rec" using out by auto
      have dk: "decode (pg_rows db ! k) = Inr rec0" using view_decode [OF ok row'(1,2) v] .
      have cm: "d = Committed \<longrightarrow> dr_state rec0 = Prepared \<and> ?n1 < gi_expires_at (dr_intent rec0)"
        using row(4) dk by (auto elim: decodeE)
      have st: "row_step (pg_rows db ! k) (decided_row d ?w ?n2 (pg_rows db ! k))"
      proof (cases "d = Committed")
        case True
        then show ?thesis using row(4) w by (auto intro: step_committed)
      next
        case False
        then show ?thesis using row'(3) d by (auto simp: TERMINAL_def intro: step_aborted)
      qed
      have "pg_rows db' \<noteq> pg_rows db"
      proof
        assume "pg_rows db' = pg_rows db"
        then have "decided_row d ?w ?n2 (pg_rows db ! k) = pg_rows db ! k"
          using row'(1,4) by (metis nth_list_update_eq pg.select_convs(1) pg.simps(7) pg.surjective pg.update_convs(1))
        from arg_cong [OF this, of r_state] row'(3) d show False
          by (auto simp: decided_row_def open_state_def TERMINAL_def)
      qed
      moreover have "dr_state rec = d \<and> dr_witness_digest rec = ?w"
        using row'(5) dk by (auto simp: decode_decided_row)
      ultimately show ?thesis
        using step_row_view [OF ok row'(1,2) st row'(5)] row'(4) w v False cm
        by (auto simp: at_most_one_step_def decides_now_def)
    qed (use nn in simp)
  qed
qed

lemma abort_expired_Inr:
  assumes ok: "table_ok (pg_rows db)" and run: "abort_expired ns tid conn db = (db', Inr rec)"
  shows "view ns (pg_rows db') tid = Some rec \<and> dr_terminal rec \<and> at_most_one_step db db'
    \<and> (pg_rows db' = pg_rows db \<and> view ns (pg_rows db) tid = Some rec
       \<or> dr_state rec = Aborted \<and> gi_expires_at (dr_intent rec) \<le> pg_clock db (pg_reads db))"
proof -
  from run ok obtain rec0 where v: "view ns (pg_rows db) tid = Some rec0"
    unfolding abort_expired_def by (auto simp: transaction_Inr store_read_run split: option.splits)
  show ?thesis
  proof (cases "dr_terminal rec0")
    case True
    with run ok v show ?thesis unfolding abort_expired_def
      by (auto simp: transaction_Inr store_read_run at_most_one_step_def)
  next
    case False
    let ?n1 = "pg_clock db (pg_reads db)" and ?n2 = "pg_clock db (Suc (pg_reads db))"
    let ?db1 = "db\<lparr>pg_reads := Suc (Suc (pg_reads db))\<rparr>"
    from run ok v False obtain r where up: "update_abort ns tid ?n1 ?n2 ?db1 = (db', Inr (Some r))"
      and out: "decode r = Inr rec"
      unfolding abort_expired_def
      by (auto simp: transaction_Inr store_read_run bindS_eq_Inr clock_now_Inr split: option.splits)
    from ok have ok1: "table_ok (pg_rows ?db1)" by simp
    from ok1 up show ?thesis
    proof (cases rule: update_abort_cases)
      case (row k)
      then have row': "k < length (pg_rows db)" "has_id ns tid (pg_rows db ! k)" "open_state (pg_rows db ! k)"
        "r_expires_at_epoch (pg_rows db ! k) \<le> ?n1"
        "db' = ?db1\<lparr>pg_rows := (pg_rows db)[k := aborted_row ?n2 (pg_rows db ! k)]\<rparr>"
        "decode (aborted_row ?n2 (pg_rows db ! k)) = Inr rec" using out by auto
      have dk: "decode (pg_rows db ! k) = Inr rec0" using view_decode [OF ok row'(1,2) v] .
      have st: "row_step (pg_rows db ! k) (aborted_row ?n2 (pg_rows db ! k))" using row'(3,4) by (rule step_expired)
      have "dr_state rec = Aborted \<and> gi_expires_at (dr_intent rec) \<le> ?n1"
        using row'(4,6) dk by (auto simp: decode_aborted_row elim: decodeE)
      then show ?thesis using step_row_view [OF ok row'(1,2) st row'(6)] row'(5)
        by (auto simp: at_most_one_step_def dr_terminal_def TERMINAL_def)
    qed simp
  qed
qed


lemma parse_canonical_fixed:
  assumes "parse_canonical_json_bytes b = Inr v"
  shows "norm v = v" "py_wf v"
proof -
  show wf: "py_wf v" by (rule json_value_wf [OF parse_canonical_json_value [OF assms]])
  have "parse_canonical_json_bytes b = Inr (norm v)"
    using parse_canonical_round_trip [OF parse_canonical_check [OF assms] wf] .
  with assms show "norm v = v" by simp
qed

lemma from_canonical_norm:
  assumes "from_canonical_bytes b = Inr j"
  shows "intent_ok j" "intent_norm j = j"
proof -
  from assms obtain v where v: "parse_canonical_json_bytes b = Inr v" by (auto simp: from_canonical_bytes_def)
  with assms obtain d where vd: "v = PDict d" by (cases v) (simp_all add: from_canonical_bytes_def)
  note d = v [unfolded vd]
  with assms have keys: "dkeys d = lits INTENT_KEYS" "dget d ''schema'' = Some (PStr INTENT_SCHEMA)"
    by (auto simp: from_canonical_bytes_def split: if_splits)
  with assms d obtain p where p: "dget d ''participants'' = Some p"
    by (cases "dget d ''participants''") (simp_all add: from_canonical_bytes_def)
  with assms d keys obtain ps where "p = PList ps" by (cases p) (simp_all add: from_canonical_bytes_def)
  with assms d keys p have mk: "mk_global_intent (dget_or d ''transaction_id'' PNone) (dget_or d ''epoch'' PNone)
              (dget_or d ''request_id'' PNone) (dget_or d ''expires_at'' PNone) (PTuple ps)
              (dget_or d ''payload'' PNone) = Inr j"
    by (simp add: from_canonical_bytes_def)
  have fixed: "norm_dict d = d" "py_wf (PDict d)" using parse_canonical_fixed [OF d] by (simp_all add: norm_PDict)
  from mk have pl: "dget_or d ''payload'' PNone = PDict (gi_payload j)" by (simp add: mk_global_intent_fields)
  then have look: "dget d ''payload'' = Some (PDict (gi_payload j))" by (auto simp: dget_or_def split: option.splits)
  then have "py_wf (PDict (gi_payload j))" using fixed(2) py_wf_lookup unfolding dget_def by metis
  then show "intent_ok j" using mk_global_intent_ok [OF mk] pl by metis
  have "norm (PDict (gi_payload j)) = PDict (gi_payload j)"
    using dget_norm_dict [of d "''payload''"] fixed look by simp
  then show "intent_norm j = j" by (simp add: intent_norm_def norm_PDict)
qed

lemma draft_bind_bytes_eq:
  assumes "draft_ok d" "draft_bind d tid ep = Inr i" "canonical_bytes i = canonical_bytes j"
    "from_canonical_bytes b = Inr j"
  shows "i = j"
proof -
  have i: "intent_ok i" "intent_norm i = i" using draft_bind_ok [OF assms(2,1)] by auto
  have "from_canonical_bytes (gi_bytes i) = Inr (intent_norm j)"
    using from_canonical_bytes_ok [OF from_canonical_norm(1) [OF assms(4)]] assms(3) by (simp add: canonical_bytes_def)
  then have ij: "i = intent_norm j" using from_canonical_bytes_ok [OF i(1)] i(2) by simp
  moreover have "intent_norm j = j" using assms(4) by (rule from_canonical_norm)
  ultimately show ?thesis by simp
qed

lemma replay_check_Inr:
  assumes "draft_ok draft" "decode r = Inr rec0" "replay_check draft tid ep rec0 = Inr rec"
  shows "rec = rec0 \<and> draft_bind draft (dr_transaction_id rec) (gi_epoch (dr_intent rec)) = Inr (dr_intent rec)
     \<and> (tid \<noteq> PNone \<longrightarrow> tid = PStr (dr_transaction_id rec)) \<and> (ep \<noteq> PNone \<longrightarrow> ep = PInt (gi_epoch (dr_intent rec)))"
proof -
  from assms(3) obtain i where i: "draft_bind draft (dr_transaction_id rec0) (gi_epoch (dr_intent rec0)) = Inr i"
    "canonical_bytes i = canonical_bytes (dr_intent rec0)" "rec = rec0"
    "tid \<noteq> PNone \<longrightarrow> tid = PStr (dr_transaction_id rec0)" "ep \<noteq> PNone \<longrightarrow> ep = PInt (gi_epoch (dr_intent rec0))"
    by (auto simp: replay_check_def split: if_splits)
  have "i = dr_intent rec0"
    using assms(1) i(1,2) assms(2) by (auto elim!: decodeE intro: draft_bind_bytes_eq)
  with i show ?thesis by simp
qed


lemma table_ok_unique_request:
  assumes "table_ok rows" "j < length rows" "k < length rows" "has_request ns scope rid (rows ! j)" "has_request ns scope rid (rows ! k)"
  shows "j = k"
proof (rule ccontr)
  assume "j \<noteq> k"
  moreover have "conflicts (rows ! j) (rows ! k)" "conflicts (rows ! k) (rows ! j)"
    using assms(4,5) by (auto simp: conflicts_def has_request_def)
  ultimately show False using assms(1-3) by (auto simp: table_ok_def sorted_wrt_iff_nth_less elim: linorder_neqE_nat)
qed

lemma find_has_request:
  assumes "table_ok rows" "k < length rows" "has_request ns scope rid (rows ! k)"
  shows "find (has_request ns scope rid) rows = Some (rows ! k)"
proof (cases "find (has_request ns scope rid) rows")
  case (Some r)
  then obtain j where "j < length rows" "rows ! j = r" "has_request ns scope rid r" using find_Some_nth by metis
  with table_ok_unique_request [OF assms(1), of j k] assms Some show ?thesis by auto
qed (use assms in \<open>auto simp: find_None_iff\<close>)

text \<open>What \<open>begin\<close> returns: a record stored under its identity and its request, whose intent is the draft bound to it.\<close>

definition begun :: "pystr \<Rightarrow> intent_draft \<Rightarrow> pyval \<Rightarrow> pyval \<Rightarrow> decision_row list \<Rightarrow> decision_record \<Rightarrow> bool" where
  "begun ns draft tid ep rows rec \<longleftrightarrow>
     (\<exists>r \<in> set rows. has_id ns (dr_transaction_id rec) r \<and> has_request ns (draft_replay_scope draft) (draft_request_id draft) r
        \<and> decode r = Inr rec)
     \<and> draft_bind draft (dr_transaction_id rec) (gi_epoch (dr_intent rec)) = Inr (dr_intent rec)
     \<and> (tid \<noteq> PNone \<longrightarrow> tid = PStr (dr_transaction_id rec)) \<and> (ep \<noteq> PNone \<longrightarrow> ep = PInt (gi_epoch (dr_intent rec)))"

lemma begun_replay:
  assumes "draft_ok draft" "r \<in> set rows" "has_request ns (draft_replay_scope draft) (draft_request_id draft) r"
    "bindE (decode r) (replay_check draft tid ep) = Inr rec"
  shows "begun ns draft tid ep rows rec"
proof -
  from assms(4) obtain rec0 where r: "decode r = Inr rec0" "replay_check draft tid ep rec0 = Inr rec" by auto
  have "has_id ns (dr_transaction_id rec0) r"
    using r(1) assms(3) by (auto simp: has_id_def has_request_def dr_transaction_id_def elim: decodeE)
  with replay_check_Inr [OF assms(1) r] r assms(2,3) show ?thesis by (auto simp: begun_def)
qed

lemma begun_new:
  assumes "draft_ok draft" "draft_bind draft cid ce = Inr i" "decode (new_row ns (draft_replay_scope draft) i) = Inr rec"
    "new_row ns (draft_replay_scope draft) i \<in> set rows" "tid \<noteq> PNone \<longrightarrow> tid = PStr cid" "ep \<noteq> PNone \<longrightarrow> ep = PInt ce"
  shows "begun ns draft tid ep rows rec"
proof -
  have i: "intent_ok i" "intent_norm i = i" "gi_transaction_id i = cid" "gi_epoch i = ce" "gi_request_id i = draft_request_id draft"
    using draft_bind_ok [OF assms(2,1)] by auto
  then have "dr_intent rec = i" using assms(3) by (auto simp: decode_new_row)
  with assms i show ?thesis
    by (auto simp: begun_def dr_transaction_id_def has_id_def has_request_def new_row_def intro!: bexI [of _ "new_row ns (draft_replay_scope draft) i"])
qed

lemma find_SomeD: "find p xs = Some x \<Longrightarrow> x \<in> set xs \<and> p x"
  by (auto simp: find_Some_iff)

lemma insert_or_replay_Inr:
  assumes d: "draft_ok draft" and i: "draft_bind draft cid ce = Inr i"
    and run: "insert_or_replay ns draft tid ep i db = (db', Inr rec)"
    and ids: "tid \<noteq> PNone \<longrightarrow> tid = PStr cid" "ep \<noteq> PNone \<longrightarrow> ep = PInt ce"
  shows "begun ns draft tid ep (pg_rows db') rec \<and> at_most_one_step db db'"
proof -
  let ?row = "new_row ns (draft_replay_scope draft) i" and ?now = "pg_clock db (pg_reads db)"
  let ?db1 = "db\<lparr>pg_reads := Suc (pg_reads db)\<rparr>"
  from run have st: "pg_storable ?row" by (auto simp: insert_or_replay_def bindS_def clock_now_def insert_row_def split: if_splits)
  show ?thesis
  proof (cases "?now < r_expires_at_epoch ?row \<and> \<not> list_ex (conflicts ?row) (pg_rows db)")
    case True
    with run st have *: "pg_rows db' = pg_rows db @ [?row]" "decode ?row = Inr rec"
      by (auto simp: insert_or_replay_def bindS_def clock_now_def insert_row_def)
    have "begun ns draft tid ep (pg_rows db') rec" using * ids by (intro begun_new [OF d i]) auto
    moreover have "table_step (pg_rows db) (pg_rows db')"
      using * d i True by (auto simp: new_row_def intro: step_begun [unfolded new_row_def])
    ultimately show ?thesis by (simp add: at_most_one_step_def)
  next
    case False
    with run st obtain r where "find (has_request ns (draft_replay_scope draft) (draft_request_id draft)) (pg_rows db) = Some r"
      "bindE (decode r) (replay_check draft tid ep) = Inr rec" "db' = ?db1"
      by (auto simp del: bindE_eq_Inr simp: insert_or_replay_def bindS_def clock_now_def insert_row_def sql_select_def
          split: if_splits option.splits)
    then show ?thesis using begun_replay [OF d, of r "pg_rows db"] find_SomeD
      by (fastforce simp: at_most_one_step_def simp del: bindE_eq_Inr)
  qed
qed

lemma begin_insert_Inr:
  assumes d: "draft_ok draft" and run: "begin_insert ns draft tid ep db = (db', Inr rec)"
    and ids: "tid \<noteq> PNone \<longrightarrow> wire_nonempty tid" "ep \<noteq> PNone \<longrightarrow> is_int ep"
  shows "begun ns draft tid ep (pg_rows db') rec \<and> at_most_one_step db db'"
proof -
  from run obtain db1 cid db2 ce i where r: "(if tid \<noteq> PNone then retS (str_of tid) else token_hex) db = (db1, Inr cid)"
    "(if ep \<noteq> PNone then retS (int_of ep) else nextval) db1 = (db2, Inr ce)"
    and i: "draft_bind draft cid ce = Inr i" "insert_or_replay ns draft tid ep i db2 = (db', Inr rec)"
    unfolding begin_insert_def by (auto simp only: bindS_eq_Inr action_simps prod.inject)
  have "pg_rows db2 = pg_rows db" using r by (auto simp: token_hex_def nextval_def split: if_splits)
  moreover have "tid \<noteq> PNone \<longrightarrow> tid = PStr cid" "ep \<noteq> PNone \<longrightarrow> ep = PInt ce"
    using r ids by (auto simp: wire_nonempty_iff is_int_iff split: if_splits)
  ultimately show ?thesis using insert_or_replay_Inr [OF d i] by (simp add: at_most_one_step_def)
qed

lemma store_begin_Inr:
  assumes d: "draft_ok draft" and run: "store_begin ns draft tid ep conn db = (db', Inr rec)"
  shows "begun ns draft tid ep (pg_rows db') rec \<and> at_most_one_step db db'"
proof -
  from run have ids: "tid \<noteq> PNone \<longrightarrow> wire_nonempty tid" "ep \<noteq> PNone \<longrightarrow> is_int ep"
    by (auto simp: store_begin_def split: if_splits)
  from run have run': "(case find (has_request ns (draft_replay_scope draft) (draft_request_id draft)) (pg_rows db) of
       Some r \<Rightarrow> liftS (bindE (decode r) (replay_check draft tid ep)) | None \<Rightarrow> begin_insert ns draft tid ep) db = (db', Inr rec)"
    by (auto simp del: bindE_eq_Inr simp: store_begin_def transaction_Inr bindS_def sql_select_def split: if_splits)
  show ?thesis
  proof (cases "find (has_request ns (draft_replay_scope draft) (draft_request_id draft)) (pg_rows db)")
    case None
    with run' begin_insert_Inr [OF d _ ids] show ?thesis by simp
  next
    case (Some r)
    with run' begun_replay [OF d, of r "pg_rows db"] find_SomeD [OF Some] show ?thesis
      by (simp add: at_most_one_step_def del: bindE_eq_Inr)
  qed
qed

lemma view_le:
  assumes "table_le rows rows'" "table_ok rows'" "view ns rows tid = Some a"
  shows "\<exists>b. view ns rows' tid = Some b \<and> record_le a b"
proof -
  from assms(3) obtain k where k: "k < length rows" "has_id ns tid (rows ! k)" "decode (rows ! k) = Inr a" by (rule view_Some)
  with assms(1) have le: "row_le (rows ! k) (rows' ! k)" "k < length rows'" by (auto simp: table_le_def)
  with k obtain b where "decode (rows' ! k) = Inr b" "record_le a b" by (auto simp: row_le_def)
  moreover have "has_id ns tid (rows' ! k)" using k(2) le(1) by (simp add: has_id_def row_le_def)
  ultimately show ?thesis using view_nth [OF assms(2) le(2)] by blast
qed

lemma at_most_one_step_le: "at_most_one_step db db' \<Longrightarrow> table_le (pg_rows db) (pg_rows db')"
  by (auto simp: at_most_one_step_def dest: table_step_le)

lemma at_most_one_step_ok: "at_most_one_step db db' \<Longrightarrow> table_ok (pg_rows db) \<Longrightarrow> table_ok (pg_rows db')"
  by (auto simp: at_most_one_step_def dest: table_step_ok)

lemma at_most_one_step_refl: "pg_rows db' = pg_rows db \<Longrightarrow> at_most_one_step db db'"
  by (simp add: at_most_one_step_def)

lemma begun_view:
  assumes "begun ns draft tid ep rows rec" "table_ok rows"
  shows "view ns rows (dr_transaction_id rec) = Some rec"
  using assms by (auto simp: begun_def in_set_conv_nth intro: view_nth)

section \<open>Calls of the store\<close>

datatype store_call =
    Begin intent_draft pyval pyval "bool option"
  | RecordPrepared receipt "bool option"
  | Decide pystr pystr pystr "bool option"
  | AbortExpired pystr "bool option"
  | RecordFinished receipt "bool option"

fun store_run :: "pystr \<Rightarrow> store_call \<Rightarrow> (pg, decision_record) action" where
  "store_run ns (Begin draft tid ep conn) = store_begin ns draft tid ep conn"
| "store_run ns (RecordPrepared rc conn) = record_prepared ns rc conn"
| "store_run ns (Decide tid decision w conn) = store_decide ns tid decision w conn"
| "store_run ns (AbortExpired tid conn) = abort_expired ns tid conn"
| "store_run ns (RecordFinished rc conn) = record_finished ns rc conn"

fun call_ok :: "store_call \<Rightarrow> bool" where
  "call_ok (Begin draft tid ep conn) = draft_ok draft"
| "call_ok _ = True"

lemma store_run_Inl: "store_run ns c db = (db', Inl e) \<Longrightarrow> pg_rows db' = pg_rows db"
  by (cases c) (auto simp: store_begin_def record_prepared_def store_decide_def decide_terminal_def abort_expired_def
      record_finished_def split: if_splits option.splits dest: transaction_Inl)

lemma store_run_Inr:
  assumes "table_ok (pg_rows db)" "call_ok c" "store_run ns c db = (db', Inr rec)"
  shows "at_most_one_step db db' \<and> view ns (pg_rows db') (dr_transaction_id rec) = Some rec"
proof -
  have id: "dr_transaction_id rec = tid" if "at_most_one_step db db'" "view ns (pg_rows db') tid = Some rec" for tid
    using view_record(2) at_most_one_step_ok assms(1) that by blast
  show ?thesis
  proof (cases c)
    case (Begin draft tid ep conn)
    with store_begin_Inr [of draft ns tid ep conn db db' rec] assms show ?thesis
      by (auto intro: begun_view at_most_one_step_ok)
  next
    case (RecordPrepared rc conn)
    with record_prepared_Inr [OF assms(1), of ns rc conn db' rec] assms id show ?thesis by auto
  next
    case (Decide tid decision w conn)
    then obtain d where "terminal_of decision = Some d" "decide_terminal ns tid d w conn db = (db', Inr rec)"
      using assms(3) by (auto simp: store_decide_def split: option.splits)
    with decide_terminal_Inr [OF assms(1), of ns tid d w conn db' rec] TERMINAL_of id show ?thesis by auto
  next
    case (AbortExpired tid conn)
    with abort_expired_Inr [OF assms(1), of ns tid conn db' rec] assms id show ?thesis by auto
  next
    case (RecordFinished rc conn)
    with record_finished_Inr [OF assms(1), of ns rc conn db' rec] assms id show ?thesis by auto
  qed
qed

section \<open>When an operation succeeds\<close>

lemma decide_terminal_commits:
  assumes ok: "table_ok (pg_rows db)" and v: "view ns (pg_rows db) tid = Some rec" and st: "dr_state rec = Prepared"
    and w: "is_digest w" and now: "pg_clock db (pg_reads db) < gi_expires_at (dr_intent rec)" and conn: "conn \<noteq> Some False"
  shows "\<exists>db' rec'. decide_terminal ns tid Committed w conn db = (db', Inr rec')"
proof -
  let ?n2 = "pg_clock db (Suc (pg_reads db))" and ?db1 = "db\<lparr>pg_reads := Suc (Suc (pg_reads db))\<rparr>"
  have rk: "record_ok rec" using view_record [OF ok v] by simp
  then have names: "fst ` set (dr_prepared rec) = set (gi_participants (dr_intent rec))" using st by (simp add: record_ok_def)
  have nt: "\<not> dr_terminal rec" using st by (simp add: dr_terminal_def TERMINAL_def)
  from v obtain k where k: "k < length (pg_rows db)" "has_id ns tid (pg_rows db ! k)" "decode (pg_rows db ! k) = Inr rec"
    by (rule view_Some)
  have len: "length (dr_prepared rec) = length (gi_participants (dr_intent rec))"
    using rk names subset_full_iff [of "map fst (dr_prepared rec)" "gi_participants (dr_intent rec)"]
    by (simp add: record_ok_def intent_ok_def)
  have cond: "open_state (pg_rows db ! k)" "r_state (pg_rows db ! k) = Prepared"
    "r_prepared_count (pg_rows db ! k) = r_participant_count (pg_rows db ! k)"
    "pg_clock db (pg_reads db) < r_expires_at_epoch (pg_rows db ! k)"
    using k(3) st now len by (auto simp: open_state_def elim!: decodeE)
  obtain db2 out where up: "update_decision ns tid Committed w (pg_clock db (pg_reads db)) ?n2 ?db1 = (db2, Inr out)"
    by (simp add: update_decision_def sql_update_def)
  from ok have "table_ok (pg_rows ?db1)" by simp
  from this up show ?thesis
  proof (cases rule: update_decision_cases)
    case none
    with k(1,2) cond show ?thesis by (auto dest!: bspec [OF none(3)[simplified], OF nth_mem])
  next
    case (row j)
    then have "j = k" using table_ok_unique [OF ok] k by auto
    with row up conn w ok v nt st names k show ?thesis
      by (auto simp: decide_terminal_def transaction_def store_read_run bindS_def clock_now_def decode_decided_row)
  qed
qed

lemma record_finished_succeeds:
  assumes ok: "table_ok (pg_rows db)" and v: "view ns (pg_rows db) (rc_transaction_id rc) = Some rec" and t: "dr_terminal rec"
    and chk: "check_receipt rec rc = Inr ()" and rc: "receipt_ok rc" and conn: "conn \<noteq> Some False"
    and new: "map_of (dr_finished rec) (rc_participant rc) \<in> {None, Some rc}"
  shows "\<exists>db' rec'. record_finished ns rc conn db = (db', Inr rec')"
proof -
  let ?tid = "rc_transaction_id rc"
  from v obtain k where k: "k < length (pg_rows db)" "has_id ns ?tid (pg_rows db ! k)" "decode (pg_rows db ! k) = Inr rec"
    by (rule view_Some)
  obtain db2 out where up: "update_finished ns rc db = (db2, Inr out)" by (simp add: update_finished_def sql_update_def)
  have has: "jsonb_has (r_finished (pg_rows db ! k)) (rc_participant rc) \<longleftrightarrow> rc_participant rc \<in> fst ` set (dr_finished rec)"
    using k(3) by (auto elim!: decodeE dest: receipts_column_has)
  have st: "r_state (pg_rows db ! k) \<in> {Committed, Aborted}" using k(3) t by (auto simp: dr_terminal_def TERMINAL_def elim!: decodeE)
  from ok up show ?thesis
  proof (cases rule: update_finished_cases)
    case none
    then have "jsonb_has (r_finished (pg_rows db ! k)) (rc_participant rc)" using k(1,2) st by auto
    with has new have "map_of (dr_finished rec) (rc_participant rc) = Some rc" by (auto simp: map_of_eq_None_iff)
    with none up conn ok v t chk show ?thesis
      by (simp add: record_finished_def transaction_def store_read_run bindS_def)
  next
    case (row j)
    then have "j = k" using table_ok_unique [OF ok] k by auto
    with row up conn ok v t chk k rc show ?thesis
      by (simp add: record_finished_def transaction_def store_read_run bindS_def decode_finished_row)
  qed
qed

lemma store_begin_replays:
  assumes ok: "table_ok (pg_rows db)" and d: "draft_ok draft" and b: "begun ns draft tid ep (pg_rows db) rec" and conn: "conn \<noteq> Some False"
    and ids: "(tid = PNone) = (ep = PNone)"
  shows "store_begin ns draft tid ep conn db = (db, Inr rec)"
proof -
  from b obtain k where k: "k < length (pg_rows db)" "has_request ns (draft_replay_scope draft) (draft_request_id draft) (pg_rows db ! k)"
      "decode (pg_rows db ! k) = Inr rec"
    and bd: "draft_bind draft (dr_transaction_id rec) (gi_epoch (dr_intent rec)) = Inr (dr_intent rec)"
    and i: "tid \<noteq> PNone \<longrightarrow> tid = PStr (dr_transaction_id rec)" "ep \<noteq> PNone \<longrightarrow> ep = PInt (gi_epoch (dr_intent rec))"
    by (auto simp: begun_def in_set_conv_nth)
  have "dr_transaction_id rec \<noteq> []" "1 \<le> gi_epoch (dr_intent rec)"
    using k(3) by (auto simp: dr_transaction_id_def intent_ok_def elim!: decodeE dest!: from_canonical_norm(1))
  with i ids have guard: "\<not> (tid \<noteq> PNone \<and> (\<not> wire_nonempty tid \<or> \<not> is_int ep \<or> int_of ep < 1))"
    by (cases "tid = PNone") auto
  have rp: "bindE (decode (pg_rows db ! k)) (replay_check draft tid ep) = Inr rec"
    using k(3) bd i by (auto simp: replay_check_def)
  have "find (has_request ns (draft_replay_scope draft) (draft_request_id draft)) (pg_rows db) = Some (pg_rows db ! k)"
    by (rule find_has_request [OF ok k(1,2)])
  with guard rp conn ids show ?thesis
    by (simp add: store_begin_def transaction_def bindS_def sql_select_def del: bindE_eq_Inr)
qed

section \<open>Paging\<close>

lemma decode_all_ok:
  "list_all row_ok rows \<Longrightarrow> \<exists>rs. decode_all rows = Inr rs \<and> map dr_transaction_id rs = map r_transaction_id rows"
proof (induction rows)
  case (Cons r rows)
  then obtain rec rs where "decode r = Inr rec" "decode_all rows = Inr rs" "map dr_transaction_id rs = map r_transaction_id rows"
    by (auto elim: row_okE)
  moreover from this have "dr_transaction_id rec = r_transaction_id r" by (auto simp: dr_transaction_id_def elim: decodeE)
  ultimately show ?case by simp
qed simp

text \<open>The in-doubt rows of a namespace after a cursor, in the order of their identifiers.\<close>

definition doubt_after :: "pystr \<Rightarrow> pystr \<Rightarrow> decision_row list \<Rightarrow> decision_row list" where
  "doubt_after ns after rows = sort_key r_transaction_id (filter (\<lambda>r. in_doubt ns r \<and> r_transaction_id r > after) rows)"

lemma doubt_after_cut:
  assumes "after \<le> y"
  shows "doubt_after ns y rows = filter (\<lambda>r. r_transaction_id r > y) (doubt_after ns after rows)"
proof -
  have "filter (\<lambda>r. in_doubt ns r \<and> y < r_transaction_id r) rows =
    filter (\<lambda>r. y < r_transaction_id r) (filter (\<lambda>r. in_doubt ns r \<and> after < r_transaction_id r) rows)"
    using assms by (auto intro!: filter_cong)
  then show ?thesis by (simp add: doubt_after_def filter_sort)
qed

lemma table_ok_ids: "table_ok rows \<Longrightarrow> distinct (map r_transaction_id (filter (\<lambda>r. in_doubt ns r \<and> P r) rows))"
  by (induction rows) (auto simp: table_ok_def conflicts_def in_doubt_def)

lemma doubt_after_sorted:
  assumes "table_ok rows"
  shows "sorted_wrt (<) (map r_transaction_id (doubt_after ns after rows))"
proof -
  have "distinct (map r_transaction_id (filter (\<lambda>r. in_doubt ns r \<and> after < r_transaction_id r) rows))"
    by (rule table_ok_ids [OF assms])
  then have "distinct (map r_transaction_id (doubt_after ns after rows))"
    unfolding doubt_after_def by (simp add: distinct_map inj_on_def)
  moreover have "sorted (map r_transaction_id (doubt_after ns after rows))" by (simp add: doubt_after_def)
  ultimately show ?thesis by (simp add: strict_sorted_iff)
qed

lemma sorted_wrt_filter_gt:
  fixes f :: "'a \<Rightarrow> 'b::linorder"
  assumes "sorted_wrt (<) (map f xs)" "n < length xs"
  shows "filter (\<lambda>x. f x > f (xs ! n)) xs = drop (Suc n) xs"
proof -
  have "xs = take (Suc n) xs @ drop (Suc n) xs" by simp
  moreover have "filter (\<lambda>x. f x > f (xs ! n)) (take (Suc n) xs) = []"
    using assms by (auto simp: filter_empty_conv in_set_conv_nth sorted_wrt_iff_nth_less less_Suc_eq not_less) (auto intro: less_imp_le)
  moreover have "filter (\<lambda>x. f x > f (xs ! n)) (drop (Suc n) xs) = drop (Suc n) xs"
    using assms by (auto simp: filter_id_conv in_set_conv_nth sorted_wrt_iff_nth_less)
  ultimately show ?thesis by (metis append_Nil filter_append)
qed

lemma page_run:
  assumes "table_ok (pg_rows db)" "1 \<le> limit" "limit \<le> 1000" "length after \<le> 128"
  obtains rs where "list_in_doubt_page ns limit after db = (db, Inr (rs, nat limit < length (doubt_after ns after (pg_rows db))))"
    "map dr_transaction_id rs = map r_transaction_id (take (nat limit) (doubt_after ns after (pg_rows db)))"
proof -
  let ?L = "doubt_after ns after (pg_rows db)"
  have "set ?L \<subseteq> set (pg_rows db)" by (auto simp: doubt_after_def)
  then have "list_all row_ok (take (nat limit) ?L)" using assms(1) by (auto simp: table_ok_def list_all_iff dest: in_set_takeD)
  then obtain rs where "decode_all (take (nat limit) ?L) = Inr rs"
    "map dr_transaction_id rs = map r_transaction_id (take (nat limit) ?L)" using decode_all_ok by blast
  with assms show ?thesis
    by (intro that [of rs]) (auto simp: list_in_doubt_page_def doubt_after_def [symmetric] Let_def)
qed

text \<open>The walk \<open>recover_page\<close> asks its caller for: each page starts after the last identifier of the one before.\<close>

fun page_walk :: "nat \<Rightarrow> pystr \<Rightarrow> int \<Rightarrow> pystr \<Rightarrow> pg \<Rightarrow> exn + pystr list" where
  "page_walk 0 ns limit after db = Inl OutOfFuel"
| "page_walk (Suc n) ns limit after db =
     (case list_in_doubt_page ns limit after db of
        (db', Inl e) \<Rightarrow> Inl e
      | (db', Inr (rs, again)) \<Rightarrow>
          if again then bindE (page_walk n ns limit (dr_transaction_id (last rs)) db') (\<lambda>ids. Inr (map dr_transaction_id rs @ ids))
          else Inr (map dr_transaction_id rs))"

lemma page_walk_all:
  assumes "table_ok (pg_rows db)" "1 \<le> limit" "limit \<le> 1000"
    "\<forall>r \<in> set (pg_rows db). length (r_transaction_id r) \<le> 128"
  shows "length after \<le> 128 \<Longrightarrow> length (doubt_after ns after (pg_rows db)) \<le> n \<Longrightarrow>
    page_walk (Suc n) ns limit after db = Inr (map r_transaction_id (doubt_after ns after (pg_rows db)))"
proof (induction n arbitrary: after)
  case 0
  then show ?case
    by (cases rule: page_run [OF assms(1-3) 0(1), of ns]) simp
next
  case (Suc n)
  let ?L = "doubt_after ns after (pg_rows db)" and ?l = "nat limit"
  obtain rs where rs: "list_in_doubt_page ns limit after db = (db, Inr (rs, ?l < length ?L))"
    "map dr_transaction_id rs = map r_transaction_id (take ?l ?L)"
    using page_run [OF assms(1-3) Suc.prems(1)] .
  show ?case
  proof (cases "?l < length ?L")
    case True
    let ?y = "r_transaction_id (?L ! (?l - 1))"
    have l: "0 < ?l" using assms(2) by simp
    have "rs \<noteq> []" using rs(2) l True by auto
    then have "dr_transaction_id (last rs) = last (map dr_transaction_id rs)" by (simp add: last_map)
    also have "\<dots> = ?y" using l True unfolding rs(2) by (subst last_conv_nth) auto
    finally have y: "dr_transaction_id (last rs) = ?y" .
    have mem: "?L ! (?l - 1) \<in> set ?L" using True by simp
    then have "after \<le> ?y" "length ?y \<le> 128" using assms(4) by (auto simp: doubt_after_def)
    moreover have "doubt_after ns ?y (pg_rows db) = drop ?l ?L"
      using doubt_after_cut [OF \<open>after \<le> ?y\<close>] sorted_wrt_filter_gt [OF doubt_after_sorted [OF assms(1)], of "?l - 1"] True l
      by simp
    ultimately show ?thesis
      using rs True y Suc.IH [of ?y] Suc.prems(2) l by (simp add: map_append [symmetric] del: map_append)
  qed (use rs in simp)
qed

section \<open>A concrete run\<close>

text \<open>The intent of the wire samples bound by a draft, both participants prepared, before its expiry at 100.\<close>

definition sample_bound :: global_intent where
  "sample_bound = intent_norm sample_intent"

definition sample_draft :: intent_draft where
  "sample_draft = \<lparr>draft_replay_scope = lit ''alice'', draft_request_id = lit ''req-1'', draft_expires_at = 100,
     draft_participants = [lit ''hub'', lit ''board''], draft_payload = gi_payload sample_intent,
     draft_payload_bytes = projr (canonical_json_bytes sample_payload)\<rparr>"

definition sample_receipt :: "string \<Rightarrow> receipt" where
  "sample_receipt name = \<lparr>rc_transaction_id = lit ''tx-1'', rc_epoch = 1, rc_global_intent_digest = gi_digest sample_bound,
     rc_participant = lit name, rc_projection_digest = projr (projection_digest sample_bound (lit name)),
     rc_candidate_digest = replicate 64 97, rc_receipt_digest = replicate 64 98\<rparr>"

definition sample_row0 :: decision_row where
  "sample_row0 = new_row (lit ''ns'') (lit ''alice'') sample_bound"

definition sample_row1 :: decision_row where
  "sample_row1 = prepared_row (sample_receipt ''hub'') sample_row0"

definition sample_row2 :: decision_row where
  "sample_row2 = prepared_row (sample_receipt ''board'') sample_row1"

definition sample_pg :: "decision_row list \<Rightarrow> pg" where
  "sample_pg rows = \<lparr>pg_rows = rows, pg_seq = 0, pg_clock = (\<lambda>n. int n), pg_reads = 0,
     pg_tokens = (\<lambda>n. lit ''token''), pg_drawn = 0\<rparr>"

lemma sample_bound_facts:
  "intent_ok sample_bound" "intent_norm sample_bound = sample_bound" "gi_participants sample_bound = [lit ''hub'', lit ''board'']"
  "gi_transaction_id sample_bound = lit ''tx-1''" "gi_epoch sample_bound = 1" "gi_expires_at sample_bound = 100"
  "gi_request_id sample_bound = lit ''req-1''"
proof -
  show "intent_norm sample_bound = sample_bound"
    using from_canonical_norm(2) [OF from_canonical_bytes_ok [OF sample_intent_fields(1)]] by (simp add: sample_bound_def)
  show "intent_ok sample_bound" using intent_norm_ok [OF sample_intent_fields(1)] by (simp add: sample_bound_def)
qed (simp_all add: sample_bound_def intent_norm_def sample_intent_fields)

lemma sample_payload_bytes: "canonical_json_bytes sample_payload = Inr (draft_payload_bytes sample_draft)"
  using canonical_json_bytes_ok [OF sample_payload_ok(2,1)] by (auto simp: sample_draft_def)

lemma sample_draft_ok: "draft_ok sample_draft"
  using sample_payload_bytes sample_intent_fields(1,3) by (simp add: draft_ok_def sample_draft_def intent_ok_def)

lemma sample_draft_bind: "draft_bind sample_draft (lit ''tx-1'') 1 = Inr sample_bound"
proof -
  have "parse_canonical_json_bytes (draft_payload_bytes sample_draft) = Inr (norm sample_payload)"
    by (rule parse_canonical_round_trip [OF sample_payload_bytes sample_payload_ok(1)])
  also have "norm sample_payload = PDict (gi_payload sample_bound)"
    by (simp add: sample_intent_fields(3) [symmetric] sample_bound_def intent_norm_def norm_PDict)
  finally show ?thesis
    using mk_global_intent_rebuild [OF sample_bound_facts(1)] sample_bound_facts
    by (simp add: draft_bind_def sample_draft_def)
qed

lemma sample_bound_projection:
  assumes "name \<in> {''hub'', ''board''}"
  shows "\<exists>sel. participant_projection sample_bound (lit name) = Inr sel \<and> dget sel ''candidate_digest'' = Some (PStr (replicate 64 97))"
proof -
  have eqs: "gi_bytes sample_bound = gi_bytes sample_intent" "gi_participants sample_bound = gi_participants sample_intent"
    by (simp_all add: sample_bound_def intent_norm_def)
  have "participant_projection sample_bound p = participant_projection sample_intent p" for p
    unfolding participant_projection_def as_mapping_def gi_digest_def eqs ..
  moreover have "dget (norm_dict (sample_input name)) ''candidate_digest'' = Some (PStr (replicate 64 97))"
    by (subst dget_norm_dict) (auto simp: sample_input_def dget_def)
  ultimately show ?thesis using sample_projections [OF assms] by (simp add: dget_def)
qed

lemma sample_receipt_facts:
  assumes "name \<in> {''hub'', ''board''}"
  shows "receipt_ok (sample_receipt name)" "dr_intent rec = sample_bound \<Longrightarrow> check_receipt rec (sample_receipt name) = Inr ()"
    "rc_transaction_id (sample_receipt name) = lit ''tx-1''" "rc_participant (sample_receipt name) = lit name"
proof -
  from sample_bound_projection [OF assms] obtain sel where sel: "participant_projection sample_bound (lit name) = Inr sel"
    "dget sel ''candidate_digest'' = Some (PStr (replicate 64 97))" by blast
  then have "py_wf (PDict sel)" "wire_check (PDict sel) = Inr ()"
    by (auto elim: participant_projection_shape dest: participant_projection_check simp del: py_wf.simps wire_check.simps)
  then obtain b where "canonical_json_bytes (PDict sel) = Inr b" using canonical_json_bytes_ok by blast
  with sel have pd: "projection_digest sample_bound (lit name) = Inr (sha256_hex b)" by (simp add: projection_digest_def)
  have "is_digest (replicate 64 97)" "is_digest (replicate 64 98)" by (simp_all add: is_digest_def is_lower_hex_def is_digit_char_def)
  with pd assms show "receipt_ok (sample_receipt name)" by (auto simp: receipt_ok_def sample_receipt_def sha256_hex_def)
  show "check_receipt rec (sample_receipt name) = Inr ()" if "dr_intent rec = sample_bound"
    using that pd sel assms
    by (simp add: check_receipt_def sample_receipt_def dr_transaction_id_def sample_bound_facts del: bindE_eq_Inr)
qed (simp_all add: sample_receipt_def)

lemma sample_rows:
  "decode sample_row0 = Inr \<lparr>dr_intent = sample_bound, dr_state = Preparing, dr_prepared = [], dr_finished = [],
     dr_witness_digest = [], dr_decided_at = None\<rparr>"
  "decode sample_row1 = Inr \<lparr>dr_intent = sample_bound, dr_state = Preparing, dr_prepared = [(lit ''hub'', sample_receipt ''hub'')],
     dr_finished = [], dr_witness_digest = [], dr_decided_at = None\<rparr>"
  "decode sample_row2 = Inr \<lparr>dr_intent = sample_bound, dr_state = Prepared, dr_prepared = [(lit ''hub'', sample_receipt ''hub''),
     (lit ''board'', sample_receipt ''board'')], dr_finished = [], dr_witness_digest = [], dr_decided_at = None\<rparr>"
proof -
  note facts = sample_receipt_facts [of "''hub''", simplified] sample_receipt_facts [of "''board''", simplified]
  show r0: "decode sample_row0 = Inr \<lparr>dr_intent = sample_bound, dr_state = Preparing, dr_prepared = [], dr_finished = [],
     dr_witness_digest = [], dr_decided_at = None\<rparr>"
    by (simp add: sample_row0_def decode_new_row sample_bound_facts)
  have p0: "r_prepared sample_row0 = PDict []" by (simp add: sample_row0_def new_row_def)
  show r1: "decode sample_row1 = Inr \<lparr>dr_intent = sample_bound, dr_state = Preparing, dr_prepared = [(lit ''hub'', sample_receipt ''hub'')],
     dr_finished = [], dr_witness_digest = [], dr_decided_at = None\<rparr>"
    by (simp add: sample_row1_def decode_prepared_row [OF r0] p0 jsonb_has_def dkeys_def facts sample_bound_facts)
  have p1: "r_prepared sample_row1 = PDict [(PStr (lit ''hub''), PDict (asdict (sample_receipt ''hub'')))]"
    by (simp add: sample_row1_def prepared_row_def p0 jsonb_put_def facts)
  show "decode sample_row2 = Inr \<lparr>dr_intent = sample_bound, dr_state = Prepared, dr_prepared = [(lit ''hub'', sample_receipt ''hub''),
     (lit ''board'', sample_receipt ''board'')], dr_finished = [], dr_witness_digest = [], dr_decided_at = None\<rparr>"
    by (simp add: sample_row2_def decode_prepared_row [OF r1] p1 jsonb_has_def dkeys_def facts sample_bound_facts)
qed

lemma sample_steps:
  "table_step [] [sample_row0]" "row_step sample_row0 sample_row1" "row_step sample_row1 sample_row2"
proof -
  note facts = sample_receipt_facts [of "''hub''", simplified] sample_receipt_facts [of "''board''", simplified]
  show "table_step [] [sample_row0]"
    using step_begun [OF sample_draft_ok sample_draft_bind, of 0 "lit ''ns''" "[]"] sample_bound_facts
    by (simp add: sample_row0_def sample_draft_def)
  have x: "r_expires_at_epoch sample_row0 = 100" "r_expires_at_epoch sample_row1 = 100"
    by (simp_all add: sample_row1_def sample_row0_def prepared_row_def new_row_def sample_bound_facts)
  show "row_step sample_row0 sample_row1" unfolding sample_row1_def
    by (rule step_prepared [OF sample_rows(1), where now = 0])
      (auto simp: facts x, auto simp: sample_row0_def new_row_def jsonb_has_def dkeys_def)
  have "r_state sample_row1 = Preparing" using sample_rows(2) by (auto elim: decodeE)
  moreover have "receipts_column (r_prepared sample_row1) = Inr [(lit ''hub'', sample_receipt ''hub'')]"
    using sample_rows(2) by (auto elim: decodeE)
  then have "\<not> jsonb_has (r_prepared sample_row1) (lit ''board'')" by (simp add: receipts_column_has)
  ultimately show "row_step sample_row1 sample_row2" unfolding sample_row2_def
    by (intro step_prepared [OF sample_rows(2), where now = 0]) (simp_all add: facts x)
qed

lemma sample_reachable: "table_step\<^sup>*\<^sup>* [] [sample_row2]" "table_ok [sample_row2]" "table_ok [sample_row0]"
proof -
  have "table_step [sample_row0] [sample_row1]" "table_step [sample_row1] [sample_row2]"
    using step_row [of 0 "[sample_row0]" sample_row1] step_row [of 0 "[sample_row1]" sample_row2] sample_steps by simp_all
  with sample_steps(1) show "table_step\<^sup>*\<^sup>* [] [sample_row2]" by (meson converse_rtranclp_into_rtranclp rtranclp.rtrancl_refl)
  then show "table_ok [sample_row2]" by (rule table_steps_ok) (simp add: table_ok_def)
  show "table_ok [sample_row0]" using sample_steps(1) by (rule table_step_ok) (simp add: table_ok_def)
qed

lemma sample_view:
  "view (lit ''ns'') [sample_row2] (lit ''tx-1'') = Some \<lparr>dr_intent = sample_bound, dr_state = Prepared,
     dr_prepared = [(lit ''hub'', sample_receipt ''hub''), (lit ''board'', sample_receipt ''board'')],
     dr_finished = [], dr_witness_digest = [], dr_decided_at = None\<rparr>"
proof -
  have "has_id (lit ''ns'') (lit ''tx-1'') sample_row2"
    by (simp add: has_id_def sample_row2_def sample_row1_def sample_row0_def prepared_row_def new_row_def sample_bound_facts)
  then show ?thesis by (simp add: view_def sample_rows(3))
qed


lemma begun_le:
  assumes "begun ns draft tid ep rows r1" "table_le rows rows'"
  shows "\<exists>r2. begun ns draft tid ep rows' r2 \<and> record_le r1 r2 \<and> dr_transaction_id r2 = dr_transaction_id r1"
proof -
  from assms(1) obtain k where k: "k < length rows" "has_id ns (dr_transaction_id r1) (rows ! k)"
    "has_request ns (draft_replay_scope draft) (draft_request_id draft) (rows ! k)" "decode (rows ! k) = Inr r1"
    by (auto simp: begun_def in_set_conv_nth)
  with assms(2) have le: "row_le (rows ! k) (rows' ! k)" "k < length rows'" by (auto simp: table_le_def)
  with k(4) obtain r2 where r2: "decode (rows' ! k) = Inr r2" "record_le r1 r2" by (auto simp: row_le_def)
  then have "dr_intent r2 = dr_intent r1" by (simp add: record_le_def)
  with k r2 le assms(1) show ?thesis
    by (auto simp: begun_def dr_transaction_id_def row_le_def has_id_def has_request_def intro!: exI [of _ r2] bexI [of _ "rows' ! k"])
qed

section \<open>Properties of the decision store\<close>

text \<open>
  C20. Every state-changing call of \<open>PostgresDecisionStore\<close> refines the state machine: a call that
  raises leaves every row as it was, and a call that returns has made at most one step of the
  table, keeps the table invariant and returns exactly the record now stored under its identity.
\<close>

theorem store_call_is_one_step:
  assumes "table_ok (pg_rows db)" "call_ok c" "store_run ns c db = (db', out)"
  shows "table_ok (pg_rows db') \<and>
    (case out of
       Inl e \<Rightarrow> pg_rows db' = pg_rows db
     | Inr rec \<Rightarrow> at_most_one_step db db' \<and> view ns (pg_rows db') (dr_transaction_id rec) = Some rec)"
  using assms store_run_Inl [of ns c db db'] store_run_Inr [OF assms(1,2), of ns db'] at_most_one_step_ok [of db db']
  by (cases out) auto

theorem store_call_is_one_step_witness:
  "case store_run (lit ''ns'') (Decide (lit ''tx-1'') (lit ''committed'') (replicate 64 99) None) (sample_pg [sample_row2]) of
     (db', out) \<Rightarrow> table_ok (pg_rows db')"
proof -
  have "table_ok (pg_rows (sample_pg [sample_row2]))" by (simp add: sample_pg_def sample_reachable)
  with store_call_is_one_step [of "sample_pg [sample_row2]" "Decide (lit ''tx-1'') (lit ''committed'') (replicate 64 99) None" "lit ''ns''"]
  show ?thesis by (auto split: prod.splits)
qed

text \<open>
  C17. The decision is final. Once \<open>decide\<close> has returned for a transaction, then after any further
  steps of any sessions a \<open>decide\<close> that returns was given the same decision and, for a commit, the
  same witness, and it returns the same intent and the same decision time.
\<close>

theorem decision_is_final:
  assumes "table_ok (pg_rows db)" "store_decide ns tid decision w conn db = (db1, Inr r1)"
    "table_step\<^sup>*\<^sup>* (pg_rows db1) (pg_rows db2)" "store_decide ns tid decision' w' conn' db2 = (db3, Inr r2)"
  shows "decision' = decision \<and> (decision = lit ''committed'' \<longrightarrow> w' = w)
    \<and> dr_decided_at r2 = dr_decided_at r1 \<and> dr_intent r2 = dr_intent r1 \<and> dr_prepared r2 = dr_prepared r1"
proof -
  from assms(2) obtain d where d: "terminal_of decision = Some d" "decide_terminal ns tid d w conn db = (db1, Inr r1)"
    by (auto simp: store_decide_def split: option.splits)
  from assms(4) obtain d' where d': "terminal_of decision' = Some d'" "decide_terminal ns tid d' w' conn' db2 = (db3, Inr r2)"
    by (auto simp: store_decide_def split: option.splits)
  note one = decide_terminal_Inr [OF assms(1) d(2) TERMINAL_of [OF d(1)]]
  then have ok1: "table_ok (pg_rows db1)" using at_most_one_step_ok assms(1) by blast
  have ok2: "table_ok (pg_rows db2)" using table_steps_ok [OF assms(3) ok1] .
  note two = decide_terminal_Inr [OF ok2 d'(2) TERMINAL_of [OF d'(1)]]
  then have ok3: "table_ok (pg_rows db3)" using at_most_one_step_ok ok2 by blast
  have "table_le (pg_rows db1) (pg_rows db3)"
    using table_steps_le [OF assms(3)] at_most_one_step_le two table_le_trans by blast
  then have le: "record_le r1 r2" using view_le [OF _ ok3] one two by fastforce
  have "dr_terminal r1" using one TERMINAL_of [OF d(1)] by (simp add: dr_terminal_def)
  with le one two d(1) d'(1) show ?thesis
    by (auto simp: record_le_def terminal_of_def split: if_splits)
qed

lemma sample_decide:
  "\<exists>db r. store_decide (lit ''ns'') (lit ''tx-1'') (lit ''committed'') (replicate 64 99) None (sample_pg [sample_row2]) = (db, Inr r)"
  using decide_terminal_commits [of "sample_pg [sample_row2]", OF _ _ _ _ _, of "lit ''ns''" "lit ''tx-1''" _ "replicate 64 99" None]
    sample_view sample_reachable
  by (simp add: sample_pg_def store_decide_def terminal_of_def sample_bound_facts is_digest_def is_lower_hex_def is_digit_char_def)

theorem decision_is_final_witness:
  "\<exists>db r. store_decide (lit ''ns'') (lit ''tx-1'') (lit ''committed'') (replicate 64 99) None (sample_pg [sample_row2]) = (db, Inr r)
     \<and> (\<forall>decision w db3 r2. store_decide (lit ''ns'') (lit ''tx-1'') decision w None db = (db3, Inr r2) \<longrightarrow> decision = lit ''committed'')"
proof -
  obtain db r where *: "store_decide (lit ''ns'') (lit ''tx-1'') (lit ''committed'') (replicate 64 99) None (sample_pg [sample_row2]) = (db, Inr r)"
    using sample_decide by blast
  moreover have "table_ok (pg_rows (sample_pg [sample_row2]))" by (simp add: sample_pg_def sample_reachable)
  ultimately show ?thesis using decision_is_final [OF _ *] by blast
qed






text \<open>
  C21. A commit that may be decided is decided: for a transaction prepared by all, a digest as the
  witness and a clock before the expiry, \<open>decide\<close> returns a committed record with that witness.
\<close>

theorem commit_is_available:
  assumes "table_ok (pg_rows db)" "view ns (pg_rows db) tid = Some rec" "dr_state rec = Prepared" "is_digest w"
    "pg_clock db (pg_reads db) < gi_expires_at (dr_intent rec)" "conn \<noteq> Some False"
  shows "\<exists>db' rec'. store_decide ns tid (lit ''committed'') w conn db = (db', Inr rec')
    \<and> view ns (pg_rows db') tid = Some rec' \<and> dr_state rec' = Committed \<and> dr_witness_digest rec' = w"
proof -
  obtain db' rec' where run: "decide_terminal ns tid Committed w conn db = (db', Inr rec')"
    using decide_terminal_commits [OF assms] by blast
  with decide_terminal_Inr [OF assms(1) run] show ?thesis by (auto simp: store_decide_def terminal_of_def TERMINAL_def)
qed

theorem commit_is_available_witness:
  "\<exists>db' rec'. store_decide (lit ''ns'') (lit ''tx-1'') (lit ''committed'') (replicate 64 99) None (sample_pg [sample_row2]) = (db', Inr rec')
     \<and> dr_state rec' = Committed"
  using commit_is_available [of "sample_pg [sample_row2]", OF _ _ _ _ _, of "lit ''ns''" "lit ''tx-1''" _ "replicate 64 99" None]
    sample_view sample_reachable
  by (fastforce simp: sample_pg_def sample_bound_facts is_digest_def is_lower_hex_def is_digit_char_def)

text \<open>
  \<open>begin\<close> is idempotent: after it has returned a record, the same call, after any further steps of
  any sessions, changes nothing and returns the record of the same transaction with the same
  persisted intent, in which every receipt recorded meanwhile is kept.
\<close>

theorem begin_is_idempotent:
  assumes "table_ok (pg_rows db)" "draft_ok draft" "store_begin ns draft tid ep conn db = (db1, Inr r1)"
    "table_step\<^sup>*\<^sup>* (pg_rows db1) (pg_rows db2)" "conn' \<noteq> Some False"
  shows "\<exists>r2. store_begin ns draft tid ep conn' db2 = (db2, Inr r2) \<and> record_le r1 r2
    \<and> view ns (pg_rows db2) (dr_transaction_id r1) = Some r2"
proof -
  note b1 = store_begin_Inr [OF assms(2,3)]
  have ok1: "table_ok (pg_rows db1)" using b1 at_most_one_step_ok assms(1) by blast
  have ok2: "table_ok (pg_rows db2)" using table_steps_ok [OF assms(4) ok1] .
  obtain r2 where r2: "begun ns draft tid ep (pg_rows db2) r2" "record_le r1 r2" "dr_transaction_id r2 = dr_transaction_id r1"
    using begun_le [OF _ table_steps_le [OF assms(4)]] b1 by blast
  have "(tid = PNone) = (ep = PNone)" using assms(3) by (auto simp: store_begin_def split: if_splits)
  then show ?thesis using store_begin_replays [OF ok2 assms(2) r2(1) assms(5)] r2 begun_view [OF r2(1) ok2] by auto
qed

theorem begin_is_idempotent_witness:
  "\<exists>r. store_begin (lit ''ns'') sample_draft (PStr (lit ''tx-1'')) (PInt 1) None (sample_pg [sample_row2]) = (sample_pg [sample_row2], Inr r)"
proof -
  let ?db = "sample_pg [sample_row0]"
  have b: "begun (lit ''ns'') sample_draft (PStr (lit ''tx-1'')) (PInt 1) [sample_row0] \<lparr>dr_intent = sample_bound, dr_state = Preparing,
     dr_prepared = [], dr_finished = [], dr_witness_digest = [], dr_decided_at = None\<rparr>"
    using sample_rows(1) sample_draft_bind sample_bound_facts
    by (intro begun_new [OF sample_draft_ok sample_draft_bind]) (simp_all add: sample_row0_def sample_draft_def)
  have ok: "table_ok (pg_rows ?db)" by (simp add: sample_pg_def sample_reachable)
  have run: "\<exists>r. store_begin (lit ''ns'') sample_draft (PStr (lit ''tx-1'')) (PInt 1) None ?db = (?db, Inr r)"
    using store_begin_replays [OF ok sample_draft_ok, of "lit ''ns''" _ _ _ None] b by (fastforce simp: sample_pg_def)
  moreover have "table_step\<^sup>*\<^sup>* (pg_rows ?db) (pg_rows (sample_pg [sample_row2]))"
    using step_row [of 0 "[sample_row0]" sample_row1] step_row [of 0 "[sample_row1]" sample_row2] sample_steps
    by (simp add: sample_pg_def)
  ultimately show ?thesis using begin_is_idempotent [OF ok sample_draft_ok] by blast
qed

text \<open>
  C22. A receipt, once recorded, is immutable: after \<open>record_prepared\<close> has returned, every later state
  of the table holds exactly this receipt under its participant, and a different receipt of the
  same participant for the transaction is never accepted.
\<close>

theorem prepared_receipt_immutable:
  assumes "table_ok (pg_rows db)" "record_prepared ns rc conn db = (db1, Inr r1)" "table_step\<^sup>*\<^sup>* (pg_rows db1) (pg_rows db2)"
  shows "(\<exists>r2. view ns (pg_rows db2) (rc_transaction_id rc) = Some r2 \<and> map_of (dr_prepared r2) (rc_participant rc) = Some rc)
    \<and> (\<forall>rc' conn' db3 r3. record_prepared ns rc' conn' db2 = (db3, Inr r3) \<and> rc_transaction_id rc' = rc_transaction_id rc
        \<and> rc_participant rc' = rc_participant rc \<longrightarrow> rc' = rc)"
proof -
  note one = record_prepared_Inr [OF assms(1,2)]
  then have ok1: "table_ok (pg_rows db1)" using at_most_one_step_ok assms(1) by blast
  have ok2: "table_ok (pg_rows db2)" using table_steps_ok [OF assms(3) ok1] .
  obtain r2 where r2: "view ns (pg_rows db2) (rc_transaction_id rc) = Some r2" "record_le r1 r2"
    using view_le [OF table_steps_le [OF assms(3)] ok2] one by blast
  with one have m2: "map_of (dr_prepared r2) (rc_participant rc) = Some rc"
    by (auto simp: record_le_def map_le_def dom_def)
  have "rc' = rc" if "record_prepared ns rc' conn' db2 = (db3, Inr r3)" "rc_transaction_id rc' = rc_transaction_id rc"
      "rc_participant rc' = rc_participant rc" for rc' conn' db3 r3
  proof -
    note three = record_prepared_Inr [OF ok2 that(1)]
    then have ok3: "table_ok (pg_rows db3)" using at_most_one_step_ok ok2 by blast
    have "record_le r2 r3" using view_le [OF at_most_one_step_le ok3 r2(1)] three that(2) by fastforce
    with m2 have "map_of (dr_prepared r3) (rc_participant rc) = Some rc" by (auto simp: record_le_def map_le_def dom_def)
    with three that(3) show ?thesis by simp
  qed
  with r2(1) m2 show ?thesis by blast
qed


lemma record_prepared_succeeds:
  assumes ok: "table_ok (pg_rows db)" and v: "view ns (pg_rows db) (rc_transaction_id rc) = Some rec"
    and chk: "check_receipt rec rc = Inr ()" and rc: "receipt_ok rc" and conn: "conn \<noteq> Some False"
    and new: "map_of (dr_prepared rec) (rc_participant rc) = None" "dr_state rec = Preparing"
      "pg_clock db (pg_reads db) < gi_expires_at (dr_intent rec)"
  shows "\<exists>db' rec'. record_prepared ns rc conn db = (db', Inr rec')"
proof -
  let ?tid = "rc_transaction_id rc" and ?db1 = "db\<lparr>pg_reads := Suc (pg_reads db)\<rparr>"
  from v obtain k where k: "k < length (pg_rows db)" "has_id ns ?tid (pg_rows db ! k)" "decode (pg_rows db ! k) = Inr rec"
    by (rule view_Some)
  obtain db2 out where up: "update_prepared ns rc (pg_clock db (pg_reads db)) ?db1 = (db2, Inr out)"
    by (simp add: update_prepared_def sql_update_def)
  have "jsonb_has (r_prepared (pg_rows db ! k)) (rc_participant rc) \<longleftrightarrow> rc_participant rc \<in> fst ` set (dr_prepared rec)"
    using k(3) by (auto elim!: decodeE dest: receipts_column_has)
  then have has: "\<not> jsonb_has (r_prepared (pg_rows db ! k)) (rc_participant rc)" using new(1) by (simp add: map_of_eq_None_iff)
  have st: "r_state (pg_rows db ! k) = Preparing" "pg_clock db (pg_reads db) < r_expires_at_epoch (pg_rows db ! k)"
    using k(3) new(2,3) by (auto elim!: decodeE)
  from ok have "table_ok (pg_rows ?db1)" by simp
  from this up show ?thesis
  proof (cases rule: update_prepared_cases)
    case none
    then show ?thesis using k(1,2) st has by auto
  next
    case (row j)
    then have "j = k" using table_ok_unique [OF ok] k by auto
    with row up conn ok v chk k rc show ?thesis
      by (simp add: record_prepared_def transaction_def store_read_run bindS_def clock_now_def decode_prepared_row)
  qed
qed

theorem prepared_receipt_immutable_witness:
  "\<exists>db r. record_prepared (lit ''ns'') (sample_receipt ''hub'') None (sample_pg [sample_row0]) = (db, Inr r)
     \<and> (\<exists>r2. view (lit ''ns'') (pg_rows db) (lit ''tx-1'') = Some r2
          \<and> map_of (dr_prepared r2) (lit ''hub'') = Some (sample_receipt ''hub''))"
proof -
  let ?db = "sample_pg [sample_row0]"
  note facts = sample_receipt_facts [of "''hub''", simplified]
  have ok: "table_ok (pg_rows ?db)" by (simp add: sample_pg_def sample_reachable)
  have "has_id (lit ''ns'') (lit ''tx-1'') sample_row0" by (simp add: has_id_def sample_row0_def new_row_def sample_bound_facts)
  then have "view (lit ''ns'') (pg_rows ?db) (rc_transaction_id (sample_receipt ''hub'')) = Some \<lparr>dr_intent = sample_bound,
      dr_state = Preparing, dr_prepared = [], dr_finished = [], dr_witness_digest = [], dr_decided_at = None\<rparr>"
    by (simp add: view_def sample_pg_def sample_rows(1) facts)
  from record_prepared_succeeds [OF ok this, of None] facts sample_bound_facts
  obtain db r where run: "record_prepared (lit ''ns'') (sample_receipt ''hub'') None ?db = (db, Inr r)"
    by (auto simp: sample_pg_def)
  with prepared_receipt_immutable [OF ok run rtranclp.rtrancl_refl] facts show ?thesis by auto
qed



end
