(* ===== verification/Decision_Coordinator.thy ===== *)
theory Decision_Coordinator
  imports Durable_Decision
begin

text \<open>
  \<open>service_foundation/coordination/durable_decision_v2.py\<close>, second part: the \<open>Coordinator\<close> over the
  \<open>DecisionStore\<close>, \<open>Participant\<close> and \<open>ReceiptVerifier\<close> protocols.

  A store is a record of operations on a state \<open>'s\<close>; participants and the verifier are the
  application's code and act on a world \<open>'w\<close> of their own. What the coordinator needs of a store is
  the locale \<open>decision_store\<close>; the PostgreSQL store of \<open>Durable_Decision\<close> is an interpretation of it.
\<close>

section \<open>Ports\<close>

record 's store =
  st_begin :: "intent_draft \<Rightarrow> pyval \<Rightarrow> pyval \<Rightarrow> ('s, decision_record) action"
  st_read :: "pystr \<Rightarrow> ('s, decision_record option) action"
  st_record_prepared :: "receipt \<Rightarrow> ('s, decision_record) action"
  st_decide :: "pystr \<Rightarrow> pystr \<Rightarrow> pystr \<Rightarrow> ('s, decision_record) action"
  st_abort_expired :: "pystr \<Rightarrow> ('s, decision_record) action"
  st_record_finished :: "receipt \<Rightarrow> ('s, decision_record) action"
  st_list_in_doubt :: "int \<Rightarrow> ('s, decision_record list) action"
  st_list_in_doubt_page :: "(int \<Rightarrow> pystr \<Rightarrow> ('s, decision_record list \<times> bool) action) option"

record 'w participant =
  pt_prepare :: "pystr \<Rightarrow> ('w, receipt) action"
  pt_finish :: "pystr \<Rightarrow> dstate \<Rightarrow> ('w, receipt) action"

record ('s, 'w) coordinator =
  co_store :: "'s store"
  co_participants :: "(pystr \<times> 'w participant) list"
  co_verify_prepared :: "decision_record \<Rightarrow> receipt \<Rightarrow> ('w, unit) action"
  co_verify_finished :: "decision_record \<Rightarrow> receipt \<Rightarrow> ('w, unit) action"

definition on_store :: "('s, 'a) action \<Rightarrow> ('s \<times> 'w, 'a) action" where
  "on_store op sw = (case op (fst sw) of (s', r) \<Rightarrow> ((s', snd sw), r))"

definition on_world :: "('w, 'a) action \<Rightarrow> ('s \<times> 'w, 'a) action" where
  "on_world op sw = (case op (snd sw) of (w', r) \<Rightarrow> ((fst sw, w'), r))"

section \<open>Coordinator\<close>

definition coord_participant :: "('s, 'w) coordinator \<Rightarrow> pystr \<Rightarrow> exn + 'w participant" where
  "coord_participant c name = (case map_of (co_participants c) name of
       None \<Rightarrow> Inl (DecisionRefused ''participant_unavailable'') | Some p \<Rightarrow> Inr p)"

definition prepare_one :: "('s, 'w) coordinator \<Rightarrow> pystr \<Rightarrow> pystr \<Rightarrow> decision_record \<Rightarrow> ('s \<times> 'w, decision_record) action" where
  "prepare_one c tid name record =
     bindS (liftS (coord_participant c name)) (\<lambda>p.
     bindS (on_world (pt_prepare p tid)) (\<lambda>rc.
     bindS (liftS (check_receipt record rc)) (\<lambda>_.
     bindS (on_world (co_verify_prepared c record rc)) (\<lambda>_.
       on_store (st_record_prepared (co_store c) rc)))))"

fun prepare_loop :: "('s, 'w) coordinator \<Rightarrow> pystr \<Rightarrow> pystr list \<Rightarrow> decision_record \<Rightarrow> ('s \<times> 'w, decision_record) action" where
  "prepare_loop c tid [] record = retS record"
| "prepare_loop c tid (name # names) record =
     (if name \<in> fst ` set (dr_prepared record) then prepare_loop c tid names record
      else bindS (prepare_one c tid name record) (prepare_loop c tid names))"

definition coord_prepare_existing :: "('s, 'w) coordinator \<Rightarrow> pystr \<Rightarrow> ('s \<times> 'w, decision_record) action" where
  "coord_prepare_existing c tid = bindS (on_store (st_read (co_store c) tid)) (\<lambda>found.
     case found of
       None \<Rightarrow> failS (DecisionRefused ''transaction_unknown'')
     | Some record \<Rightarrow>
        if dr_terminal record then retS record
        else prepare_loop c tid (gi_participants (dr_intent record)) record)"

definition coord_prepare :: "('s, 'w) coordinator \<Rightarrow> intent_draft \<Rightarrow> pyval \<Rightarrow> pyval \<Rightarrow> ('s \<times> 'w, decision_record) action" where
  "coord_prepare c draft tid ep = bindS (on_store (st_begin (co_store c) draft tid ep)) (\<lambda>record.
     coord_prepare_existing c (dr_transaction_id record))"

definition coord_decide :: "('s, 'w) coordinator \<Rightarrow> pystr \<Rightarrow> pystr \<Rightarrow> pystr \<Rightarrow> ('s \<times> 'w, decision_record) action" where
  "coord_decide c tid decision witness = (case terminal_of decision of
       None \<Rightarrow> failS (DecisionRefused ''decision_invalid'')
     | Some d \<Rightarrow> bindS (on_store (st_read (co_store c) tid)) (\<lambda>found.
         case found of
           None \<Rightarrow> failS (DecisionRefused ''transaction_unknown'')
         | Some record \<Rightarrow>
            if dr_terminal record then
              (if dr_state record \<noteq> d \<or> d = Committed \<and> dr_witness_digest record \<noteq> witness
               then failS (DecisionRefused ''decision_conflict'') else retS record)
            else if d = Committed \<and> fst ` set (dr_prepared record) \<noteq> set (gi_participants (dr_intent record))
            then failS (DecisionRefused ''participants_not_prepared'')
            else if d = Committed \<and> \<not> is_digest witness
            then failS (DecisionRefused ''commit_witness_missing'')
            else bindS (on_store (st_decide (co_store c) tid decision witness)) (\<lambda>result.
              if dr_state result \<noteq> d \<or> d = Committed \<and> dr_witness_digest result \<noteq> witness
              then failS (DecisionRefused ''decision_record_mismatch'') else retS result)))"

definition finish_one :: "('s, 'w) coordinator \<Rightarrow> pystr \<Rightarrow> pystr \<Rightarrow> decision_record \<Rightarrow> ('s \<times> 'w, decision_record) action" where
  "finish_one c tid name record =
     bindS (liftS (coord_participant c name)) (\<lambda>p.
     bindS (on_world (pt_finish p tid (dr_state record))) (\<lambda>rc.
     bindS (liftS (check_receipt record rc)) (\<lambda>_.
     bindS (on_world (co_verify_finished c record rc)) (\<lambda>_.
       on_store (st_record_finished (co_store c) rc)))))"

fun finish_loop :: "('s, 'w) coordinator \<Rightarrow> pystr \<Rightarrow> pystr list \<Rightarrow> decision_record \<Rightarrow> ('s \<times> 'w, decision_record) action" where
  "finish_loop c tid [] record = retS record"
| "finish_loop c tid (name # names) record =
     (if name \<in> fst ` set (dr_finished record) then finish_loop c tid names record
      else bindS (finish_one c tid name record) (finish_loop c tid names))"

definition coord_finish :: "('s, 'w) coordinator \<Rightarrow> pystr \<Rightarrow> ('s \<times> 'w, decision_record) action" where
  "coord_finish c tid = bindS (on_store (st_read (co_store c) tid)) (\<lambda>found.
     case found of
       None \<Rightarrow> failS (DecisionRefused ''decision_unknown'')
     | Some record \<Rightarrow>
        if \<not> dr_terminal record then failS (DecisionRefused ''decision_unknown'')
        else finish_loop c tid (gi_participants (dr_intent record)) record)"

section \<open>Recovery\<close>

text \<open>\<open>RecoveryIncomplete\<close> carries what failed, what completed and where the page ended.\<close>

datatype recovery_error =
    RecoveryRefused exn
  | RecoveryIncomplete "(pystr \<times> exn) list" "decision_record list" "pystr option" "bool option"

definition recover_row :: "('s, 'w) coordinator \<Rightarrow> decision_record \<Rightarrow> ('s \<times> 'w, decision_record) action" where
  "recover_row c row =
     (if dr_terminal row then coord_finish c (dr_transaction_id row)
      else (\<lambda>sw. case on_store (st_abort_expired (co_store c) (dr_transaction_id row)) sw of
          (sw', Inl e) \<Rightarrow> if e = DecisionRefused ''not_expired'' then (sw', Inr row) else (sw', Inl e)
        | (sw', Inr decided) \<Rightarrow>
            if dr_terminal decided then coord_finish c (dr_transaction_id row) sw' else (sw', Inr decided)))"

fun recover_loop :: "('s, 'w) coordinator \<Rightarrow> decision_record list \<Rightarrow> decision_record list \<Rightarrow> (pystr \<times> exn) list
    \<Rightarrow> 's \<times> 'w \<Rightarrow> ('s \<times> 'w) \<times> (decision_record list \<times> (pystr \<times> exn) list)" where
  "recover_loop c [] result failures sw = (sw, (result, failures))"
| "recover_loop c (row # rows) result failures sw =
     (case recover_row c row sw of
        (sw', Inl e) \<Rightarrow> recover_loop c rows result (dict_set (dr_transaction_id row) e failures) sw'
      | (sw', Inr rec) \<Rightarrow> recover_loop c rows (result @ [rec]) failures sw')"

definition recover_rows :: "('s, 'w) coordinator \<Rightarrow> decision_record list \<Rightarrow> pystr option \<Rightarrow> bool option
    \<Rightarrow> 's \<times> 'w \<Rightarrow> ('s \<times> 'w) \<times> (recovery_error + decision_record list)" where
  "recover_rows c rows next_after has_more sw =
     (case recover_loop c rows [] [] sw of (sw', (result, failures)) \<Rightarrow>
        if failures \<noteq> [] then (sw', Inl (RecoveryIncomplete failures result next_after has_more))
        else (sw', Inr result))"

definition coord_recover :: "('s, 'w) coordinator \<Rightarrow> int \<Rightarrow> 's \<times> 'w \<Rightarrow> ('s \<times> 'w) \<times> (recovery_error + decision_record list)" where
  "coord_recover c limit sw =
     (if \<not> (1 \<le> limit \<and> limit \<le> 1000) then (sw, Inl (RecoveryRefused (DecisionRefused ''recovery_limit_invalid'')))
      else case on_store (st_list_in_doubt (co_store c) limit) sw of
          (sw', Inl e) \<Rightarrow> (sw', Inl (RecoveryRefused e))
        | (sw', Inr rows) \<Rightarrow>
            if int (length rows) > limit then (sw', Inl (RecoveryRefused (DecisionRefused ''recovery_unbounded'')))
            else recover_rows c rows None None sw')"

definition coord_recover_page :: "('s, 'w) coordinator \<Rightarrow> int \<Rightarrow> pystr \<Rightarrow> 's \<times> 'w
    \<Rightarrow> ('s \<times> 'w) \<times> (recovery_error + decision_record list \<times> pystr \<times> bool)" where
  "coord_recover_page c limit after sw =
     (if \<not> (1 \<le> limit \<and> limit \<le> 1000) then (sw, Inl (RecoveryRefused (DecisionRefused ''recovery_limit_invalid'')))
      else if length after > 128 then (sw, Inl (RecoveryRefused (DecisionRefused ''recovery_cursor_invalid'')))
      else case st_list_in_doubt_page (co_store c) of
          None \<Rightarrow> (sw, Inl (RecoveryRefused (DecisionRefused ''recovery_paging_unavailable'')))
        | Some read_page \<Rightarrow>
           (case on_store (read_page limit after) sw of
              (sw', Inl e) \<Rightarrow> (sw', Inl (RecoveryRefused e))
            | (sw', Inr (rows, has_more)) \<Rightarrow>
                if int (length rows) > limit then (sw', Inl (RecoveryRefused (DecisionRefused ''recovery_unbounded'')))
                else if rows = [] \<and> has_more then (sw', Inl (RecoveryRefused (DecisionRefused ''recovery_page_invalid'')))
                else let next_after = (if rows \<noteq> [] then dr_transaction_id (last rows) else [])
                     in case recover_rows c rows (Some next_after) (Some has_more) sw' of
                          (sw'', Inl e) \<Rightarrow> (sw'', Inl e)
                        | (sw'', Inr result) \<Rightarrow> (sw'', Inr (result, next_after, has_more))))"

section \<open>The PostgreSQL store as a port\<close>

definition pg_store :: "pystr \<Rightarrow> pg store" where
  "pg_store ns = \<lparr>st_begin = (\<lambda>draft tid ep. store_begin ns draft tid ep None), st_read = store_read ns,
     st_record_prepared = (\<lambda>rc. record_prepared ns rc None), st_decide = (\<lambda>tid d w. store_decide ns tid d w None),
     st_abort_expired = (\<lambda>tid. abort_expired ns tid None), st_record_finished = (\<lambda>rc. record_finished ns rc None),
     st_list_in_doubt = list_in_doubt ns, st_list_in_doubt_page = Some (list_in_doubt_page ns)\<rparr>"

section \<open>What the coordinator needs of a store\<close>

definition advances :: "(pystr \<Rightarrow> decision_record option) \<Rightarrow> (pystr \<Rightarrow> decision_record option) \<Rightarrow> bool" where
  "advances v v' \<longleftrightarrow> (\<forall>tid a. v tid = Some a \<longrightarrow> (\<exists>b. v' tid = Some b \<and> record_le a b))"

lemma advances_refl [simp]: "advances v v"
  by (simp add: advances_def)

lemma advances_trans: "advances v v' \<Longrightarrow> advances v' v'' \<Longrightarrow> advances v v''"
  unfolding advances_def by (meson record_le_trans)

lemma advancesD: "advances v v' \<Longrightarrow> v tid = Some a \<Longrightarrow> \<exists>b. v' tid = Some b \<and> record_le a b"
  by (simp add: advances_def)

locale decision_store =
  fixes store :: "'s store"
    and inv :: "'s \<Rightarrow> bool"
    and rec_of :: "'s \<Rightarrow> pystr \<Rightarrow> decision_record option"
  assumes read_law: "inv s \<Longrightarrow> st_read store tid s = (s, Inr (rec_of s tid))"
    and record_law: "inv s \<Longrightarrow> rec_of s tid = Some rec \<Longrightarrow> dr_transaction_id rec = tid \<and> record_ok rec"
    and begin_law: "inv s \<Longrightarrow> draft_ok draft \<Longrightarrow> st_begin store draft ti ep s = (s', r) \<Longrightarrow>
      inv s' \<and> advances (rec_of s) (rec_of s') \<and> (\<forall>rec. r = Inr rec \<longrightarrow> rec_of s' (dr_transaction_id rec) = Some rec)"
    and prepared_law: "inv s \<Longrightarrow> st_record_prepared store rc s = (s', r) \<Longrightarrow>
      inv s' \<and> advances (rec_of s) (rec_of s') \<and> (\<forall>rec. r = Inr rec \<longrightarrow>
        rec_of s' (rc_transaction_id rc) = Some rec \<and> map_of (dr_prepared rec) (rc_participant rc) = Some rc)"
    and decide_law: "inv s \<Longrightarrow> st_decide store tid decision w s = (s', r) \<Longrightarrow>
      inv s' \<and> advances (rec_of s) (rec_of s') \<and> (\<forall>rec. r = Inr rec \<longrightarrow>
        rec_of s' tid = Some rec \<and> terminal_of decision = Some (dr_state rec) \<and> (dr_state rec = Committed \<longrightarrow> dr_witness_digest rec = w))"
    and abort_law: "inv s \<Longrightarrow> st_abort_expired store tid s = (s', r) \<Longrightarrow>
      inv s' \<and> advances (rec_of s) (rec_of s') \<and> (\<forall>rec. r = Inr rec \<longrightarrow> rec_of s' tid = Some rec \<and> dr_terminal rec)"
    and finished_law: "inv s \<Longrightarrow> st_record_finished store rc s = (s', r) \<Longrightarrow>
      inv s' \<and> advances (rec_of s) (rec_of s') \<and> (\<forall>rec. r = Inr rec \<longrightarrow>
        rec_of s' (rc_transaction_id rc) = Some rec \<and> map_of (dr_finished rec) (rc_participant rc) = Some rc)"
    and finished_available: "inv s \<Longrightarrow> rec_of s (rc_transaction_id rc) = Some rec \<Longrightarrow> dr_terminal rec \<Longrightarrow>
      check_receipt rec rc = Inr () \<Longrightarrow> receipt_ok rc \<Longrightarrow> map_of (dr_finished rec) (rc_participant rc) = None \<Longrightarrow>
      \<exists>s' rec'. st_record_finished store rc s = (s', Inr rec')"

interpretation pgs: decision_store "pg_store ns" "\<lambda>db. table_ok (pg_rows db)" "\<lambda>db. view ns (pg_rows db)" for ns
proof
  fix db db' :: pg and tid decision w :: pystr and rec r rc and draft ep
  assume ok: "table_ok (pg_rows db)"
  have adv: "advances (view ns (pg_rows db)) (view ns (pg_rows db'))" if "at_most_one_step db db'"
    using view_le [OF at_most_one_step_le [OF that] at_most_one_step_ok [OF that ok]] by (simp add: advances_def)
  have calls: "table_ok (pg_rows db') \<and> advances (view ns (pg_rows db)) (view ns (pg_rows db'))"
    if "call_ok c" "store_run ns c db = (db', out)" for c out
    using store_run_Inl [of ns c db db'] store_run_Inr [OF ok that(1), of ns db'] that(2) ok adv at_most_one_step_ok [of db db']
    by (cases out) (auto simp: at_most_one_step_refl)
  show "st_read (pg_store ns) tid db = (db, Inr (view ns (pg_rows db) tid))" by (simp add: pg_store_def store_read_run ok)
  show "dr_transaction_id rec = tid \<and> record_ok rec" if "view ns (pg_rows db) tid = Some rec"
    using view_record [OF ok that] by simp
  show "table_ok (pg_rows db') \<and> advances (view ns (pg_rows db)) (view ns (pg_rows db'))
      \<and> (\<forall>rec. r = Inr rec \<longrightarrow> view ns (pg_rows db') (dr_transaction_id rec) = Some rec)"
    if "draft_ok draft" "st_begin (pg_store ns) draft ti ep db = (db', r)" for ti
    using calls [of "Begin draft ti ep None" r] store_run_Inr [OF ok, of "Begin draft ti ep None" ns db'] that by (auto simp: pg_store_def)
  show "table_ok (pg_rows db') \<and> advances (view ns (pg_rows db)) (view ns (pg_rows db')) \<and> (\<forall>rec. r = Inr rec \<longrightarrow>
        view ns (pg_rows db') (rc_transaction_id rc) = Some rec \<and> map_of (dr_prepared rec) (rc_participant rc) = Some rc)"
    if "st_record_prepared (pg_store ns) rc db = (db', r)"
    using calls [of "RecordPrepared rc None" r] record_prepared_Inr [OF ok, of ns rc None db'] that by (auto simp: pg_store_def)
  show "table_ok (pg_rows db') \<and> advances (view ns (pg_rows db)) (view ns (pg_rows db')) \<and> (\<forall>rec. r = Inr rec \<longrightarrow>
        view ns (pg_rows db') tid = Some rec \<and> terminal_of decision = Some (dr_state rec) \<and> (dr_state rec = Committed \<longrightarrow> dr_witness_digest rec = w))"
    if run: "st_decide (pg_store ns) tid decision w db = (db', r)"
  proof -
    have "view ns (pg_rows db') tid = Some rec \<and> terminal_of decision = Some (dr_state rec) \<and> (dr_state rec = Committed \<longrightarrow> dr_witness_digest rec = w)"
      if "r = Inr rec" for rec
      using run that decide_terminal_Inr [OF ok, of ns tid _ w None db' rec]
      by (auto simp: pg_store_def store_decide_def split: option.splits dest: TERMINAL_of)
    with calls [of "Decide tid decision w None" r] run show ?thesis by (simp add: pg_store_def)
  qed
  show "table_ok (pg_rows db') \<and> advances (view ns (pg_rows db)) (view ns (pg_rows db')) \<and> (\<forall>rec. r = Inr rec \<longrightarrow>
        view ns (pg_rows db') tid = Some rec \<and> dr_terminal rec)"
    if "st_abort_expired (pg_store ns) tid db = (db', r)"
    using calls [of "AbortExpired tid None" r] abort_expired_Inr [OF ok, of ns tid None db'] that by (auto simp: pg_store_def)
  show "table_ok (pg_rows db') \<and> advances (view ns (pg_rows db)) (view ns (pg_rows db')) \<and> (\<forall>rec. r = Inr rec \<longrightarrow>
        view ns (pg_rows db') (rc_transaction_id rc) = Some rec \<and> map_of (dr_finished rec) (rc_participant rc) = Some rc)"
    if "st_record_finished (pg_store ns) rc db = (db', r)"
    using calls [of "RecordFinished rc None" r] record_finished_Inr [OF ok, of ns rc None db'] that by (auto simp: pg_store_def)
  show "\<exists>s' rec'. st_record_finished (pg_store ns) rc db = (s', Inr rec')"
    if "view ns (pg_rows db) (rc_transaction_id rc) = Some rec" "dr_terminal rec" "check_receipt rec rc = Inr ()" "receipt_ok rc"
      "map_of (dr_finished rec) (rc_participant rc) = None"
    using record_finished_succeeds [OF ok that(1-4), of None] that(5) by (simp add: pg_store_def)
qed


section \<open>The coordinator over any such store\<close>

text \<open>Every participant adapter answers with its own receipt.\<close>

definition own_receipts :: "('s, 'w) coordinator \<Rightarrow> bool" where
  "own_receipts c \<longleftrightarrow> (\<forall>n p. map_of (co_participants c) n = Some p \<longrightarrow>
     (\<forall>tid w w' rc. pt_prepare p tid w = (w', Inr rc) \<longrightarrow> rc_participant rc = n)
     \<and> (\<forall>tid d w w' rc. pt_finish p tid d w = (w', Inr rc) \<longrightarrow> rc_participant rc = n))"

text \<open>
  A participant that can finish: it answers a finish with a well-formed receipt of its own that fits
  the intent, and the verifier accepts it.
\<close>

definition finish_answers :: "('s, 'w) coordinator \<Rightarrow> pystr \<Rightarrow> decision_record \<Rightarrow> pystr \<Rightarrow> bool" where
  "finish_answers c tid rec name \<longleftrightarrow> (\<exists>p. map_of (co_participants c) name = Some p
     \<and> (\<forall>w. \<exists>w' rc. pt_finish p tid (dr_state rec) w = (w', Inr rc) \<and> rc_participant rc = name \<and> receipt_ok rc
          \<and> check_receipt rec rc = Inr ()
          \<and> (\<forall>rec' w. dr_intent rec' = dr_intent rec \<longrightarrow> (\<exists>w'. co_verify_finished c rec' rc w = (w', Inr ())))))"

lemma on_store_eq: "on_store op sw = (sw', r) \<longleftrightarrow> (\<exists>s'. op (fst sw) = (s', r) \<and> sw' = (s', snd sw))"
  by (auto simp: on_store_def split: prod.splits)

lemma on_world_eq: "on_world op sw = (sw', r) \<longleftrightarrow> (\<exists>w'. op (snd sw) = (w', r) \<and> sw' = (fst sw, w'))"
  by (auto simp: on_world_def split: prod.splits)

lemma check_receipt_id: "check_receipt rec rc = Inr () \<Longrightarrow> rc_transaction_id rc = dr_transaction_id rec"
  by (auto simp: check_receipt_def split: if_splits)

lemma map_of_key: "map_of xs k = Some v \<Longrightarrow> k \<in> fst ` set xs"
  by (drule map_of_SomeD) force

lemma record_le_names:
  "record_le a b \<Longrightarrow> fst ` set (dr_prepared a) \<subseteq> fst ` set (dr_prepared b)"
  "record_le a b \<Longrightarrow> fst ` set (dr_finished a) \<subseteq> fst ` set (dr_finished b)"
  unfolding record_le_def dom_map_of_conv_image_fst [symmetric] by (auto dest: map_le_implies_dom_le)

lemma record_le_name:
  "record_le a b \<Longrightarrow> n \<in> fst ` set (dr_prepared a) \<Longrightarrow> n \<in> fst ` set (dr_prepared b)"
  "record_le a b \<Longrightarrow> n \<in> fst ` set (dr_finished a) \<Longrightarrow> n \<in> fst ` set (dr_finished b)"
  using record_le_names by blast+

lemma record_le_mem:
  "record_le a b \<Longrightarrow> (n, x) \<in> set (dr_prepared a) \<Longrightarrow> n \<in> fst ` set (dr_prepared b)"
  "record_le a b \<Longrightarrow> (n, x) \<in> set (dr_finished a) \<Longrightarrow> n \<in> fst ` set (dr_finished b)"
  using record_le_names by force+

lemma record_le_intent: "record_le a b \<Longrightarrow> dr_intent b = dr_intent a"
  by (simp add: record_le_def)

lemma record_le_terminal: "record_le a b \<Longrightarrow> dr_terminal a \<Longrightarrow> dr_terminal b \<and> dr_state b = dr_state a"
  by (auto simp: record_le_def dr_terminal_def)

context decision_store
begin

definition good :: "'s \<times> 'w \<Rightarrow> 's \<times> 'w \<Rightarrow> bool" where
  "good sw sw' \<longleftrightarrow> inv (fst sw') \<and> advances (rec_of (fst sw)) (rec_of (fst sw'))"

lemma good_refl: "inv (fst sw) \<Longrightarrow> fst sw' = fst sw \<Longrightarrow> good sw sw'"
  by (simp add: good_def)

lemma good_trans: "good a b \<Longrightarrow> good b c \<Longrightarrow> good a c"
  by (auto simp: good_def intro: advances_trans)

lemma prepare_one_ok:
  assumes c: "co_store c = store" and i: "inv (fst sw)" and rec: "rec_of (fst sw) tid = Some rec0"
    and run: "prepare_one c tid name rec0 sw = (sw', r)"
  shows "good sw sw' \<and> (\<forall>rec. r = Inr rec \<longrightarrow> rec_of (fst sw') tid = Some rec \<and> record_le rec0 rec
    \<and> (own_receipts c \<longrightarrow> name \<in> fst ` set (dr_prepared rec)))"
proof -
  have id: "dr_transaction_id rec0 = tid" using record_law [OF i rec] by simp
  show ?thesis
  proof (cases "\<exists>p rc sw1 sw2. map_of (co_participants c) name = Some p \<and> on_world (pt_prepare p tid) sw = (sw1, Inr rc)
      \<and> check_receipt rec0 rc = Inr () \<and> on_world (co_verify_prepared c rec0 rc) sw1 = (sw2, Inr ())")
    case True
    then obtain p rc sw1 sw2 where *: "map_of (co_participants c) name = Some p" "on_world (pt_prepare p tid) sw = (sw1, Inr rc)"
      "check_receipt rec0 rc = Inr ()" "on_world (co_verify_prepared c rec0 rc) sw1 = (sw2, Inr ())" by blast
    with run c have st: "on_store (st_record_prepared store rc) sw2 = (sw', r)"
      by (simp add: prepare_one_def coord_participant_def)
    have same: "fst sw2 = fst sw" using * by (auto simp: on_world_eq)
    obtain s' where s': "st_record_prepared store rc (fst sw) = (s', r)" "sw' = (s', snd sw2)"
      using st same by (auto simp: on_store_eq)
    have tid: "rc_transaction_id rc = tid" using check_receipt_id [OF *(3)] id by simp
    have own: "own_receipts c \<longrightarrow> rc_participant rc = name" using *(1,2) by (auto simp: own_receipts_def on_world_eq)
    from prepared_law [OF i s'(1)] s'(2) tid own rec show ?thesis
      by (auto simp: good_def dest: advancesD intro: map_of_key)
  next
    case False
    with run have "fst sw' = fst sw \<and> (\<exists>e. r = Inl e)"
      by (auto simp: prepare_one_def coord_participant_def on_world_eq elim!: bindS_cases split: option.splits)
    with i show ?thesis by (auto intro: good_refl)
  qed
qed

lemma prepare_loop_ok:
  assumes c: "co_store c = store"
  shows "inv (fst sw) \<Longrightarrow> rec_of (fst sw) tid = Some rec0 \<Longrightarrow> prepare_loop c tid names rec0 sw = (sw', r) \<Longrightarrow>
    good sw sw' \<and> (\<forall>rec. r = Inr rec \<longrightarrow> rec_of (fst sw') tid = Some rec \<and> record_le rec0 rec
    \<and> (own_receipts c \<longrightarrow> set names \<subseteq> fst ` set (dr_prepared rec)))"
proof (induction names arbitrary: rec0 sw)
  case Nil
  then show ?case by (auto intro: good_refl)
next
  case (Cons name names)
  show ?case
  proof (cases "name \<in> fst ` set (dr_prepared rec0)")
    case True
    with Cons.prems have run: "prepare_loop c tid names rec0 sw = (sw', r)" by simp
    from Cons.IH [OF Cons.prems(1,2) run] show ?thesis
      using record_le_name(1) [OF _ True] by simp
  next
    case False
    with Cons.prems(3) have "bindS (prepare_one c tid name rec0) (prepare_loop c tid names) sw = (sw', r)" by simp
    then show ?thesis
    proof (cases rule: bindS_cases)
      case (1 e)
      with prepare_one_ok [OF c Cons.prems(1,2) 1(1)] show ?thesis by simp
    next
      case (2 sw1 rec1)
      note one = prepare_one_ok [OF c Cons.prems(1,2) 2(1)]
      then have "inv (fst sw1)" "rec_of (fst sw1) tid = Some rec1" by (simp_all add: good_def)
      from Cons.IH [OF this 2(2)] one show ?thesis
        by (auto intro: record_le_trans good_trans record_le_mem)
    qed
  qed
qed

lemma finish_one_ok:
  assumes c: "co_store c = store" and i: "inv (fst sw)" and rec: "rec_of (fst sw) tid = Some rec0"
    and run: "finish_one c tid name rec0 sw = (sw', r)"
  shows "good sw sw' \<and> (\<forall>rec. r = Inr rec \<longrightarrow> rec_of (fst sw') tid = Some rec \<and> record_le rec0 rec
    \<and> (own_receipts c \<longrightarrow> name \<in> fst ` set (dr_finished rec)))"
proof -
  have id: "dr_transaction_id rec0 = tid" using record_law [OF i rec] by simp
  show ?thesis
  proof (cases "\<exists>p rc sw1 sw2. map_of (co_participants c) name = Some p \<and> on_world (pt_finish p tid (dr_state rec0)) sw = (sw1, Inr rc)
      \<and> check_receipt rec0 rc = Inr () \<and> on_world (co_verify_finished c rec0 rc) sw1 = (sw2, Inr ())")
    case True
    then obtain p rc sw1 sw2 where *: "map_of (co_participants c) name = Some p"
      "on_world (pt_finish p tid (dr_state rec0)) sw = (sw1, Inr rc)"
      "check_receipt rec0 rc = Inr ()" "on_world (co_verify_finished c rec0 rc) sw1 = (sw2, Inr ())" by blast
    with run c have st: "on_store (st_record_finished store rc) sw2 = (sw', r)"
      by (simp add: finish_one_def coord_participant_def)
    have same: "fst sw2 = fst sw" using * by (auto simp: on_world_eq)
    obtain s' where s': "st_record_finished store rc (fst sw) = (s', r)" "sw' = (s', snd sw2)"
      using st same by (auto simp: on_store_eq)
    have tid: "rc_transaction_id rc = tid" using check_receipt_id [OF *(3)] id by simp
    have own: "own_receipts c \<longrightarrow> rc_participant rc = name" using *(1,2) by (auto simp: own_receipts_def on_world_eq)
    from finished_law [OF i s'(1)] s'(2) tid own rec show ?thesis
      by (auto simp: good_def dest: advancesD intro: map_of_key)
  next
    case False
    with run have "fst sw' = fst sw \<and> (\<exists>e. r = Inl e)"
      by (auto simp: finish_one_def coord_participant_def on_world_eq elim!: bindS_cases split: option.splits)
    with i show ?thesis by (auto intro: good_refl)
  qed
qed

lemma finish_loop_ok:
  assumes c: "co_store c = store"
  shows "inv (fst sw) \<Longrightarrow> rec_of (fst sw) tid = Some rec0 \<Longrightarrow> finish_loop c tid names rec0 sw = (sw', r) \<Longrightarrow>
    good sw sw' \<and> (\<forall>rec. r = Inr rec \<longrightarrow> rec_of (fst sw') tid = Some rec \<and> record_le rec0 rec
    \<and> (own_receipts c \<longrightarrow> set names \<subseteq> fst ` set (dr_finished rec)))"
proof (induction names arbitrary: rec0 sw)
  case Nil
  then show ?case by (auto intro: good_refl)
next
  case (Cons name names)
  show ?case
  proof (cases "name \<in> fst ` set (dr_finished rec0)")
    case True
    with Cons.prems have run: "finish_loop c tid names rec0 sw = (sw', r)" by simp
    from Cons.IH [OF Cons.prems(1,2) run] show ?thesis
      using record_le_name(2) [OF _ True] by simp
  next
    case False
    with Cons.prems(3) have "bindS (finish_one c tid name rec0) (finish_loop c tid names) sw = (sw', r)" by simp
    then show ?thesis
    proof (cases rule: bindS_cases)
      case (1 e)
      with finish_one_ok [OF c Cons.prems(1,2) 1(1)] show ?thesis by simp
    next
      case (2 sw1 rec1)
      note one = finish_one_ok [OF c Cons.prems(1,2) 2(1)]
      then have "inv (fst sw1)" "rec_of (fst sw1) tid = Some rec1" by (simp_all add: good_def)
      from Cons.IH [OF this 2(2)] one show ?thesis
        by (auto intro: record_le_trans good_trans record_le_mem)
    qed
  qed
qed

lemma on_store_read:
  "inv (fst sw) \<Longrightarrow> on_store (st_read store tid) sw = (sw, Inr (rec_of (fst sw) tid))"
  by (simp add: on_store_def read_law)

lemma coord_prepare_existing_ok:
  assumes "co_store c = store" "inv (fst sw)" "coord_prepare_existing c tid sw = (sw', r)"
  shows "good sw sw' \<and> (\<forall>rec. r = Inr rec \<longrightarrow> rec_of (fst sw') tid = Some rec
    \<and> (own_receipts c \<longrightarrow> dr_terminal rec \<or> set (gi_participants (dr_intent rec)) \<subseteq> fst ` set (dr_prepared rec)))"
proof (cases "rec_of (fst sw) tid")
  case (Some rec0)
  with assms have run: "(if dr_terminal rec0 then retS rec0
      else prepare_loop c tid (gi_participants (dr_intent rec0)) rec0) sw = (sw', r)"
    by (simp add: coord_prepare_existing_def on_store_read)
  show ?thesis
  proof (cases "dr_terminal rec0")
    case True
    with run Some assms(2) show ?thesis by (auto intro: good_refl)
  next
    case False
    with run have "prepare_loop c tid (gi_participants (dr_intent rec0)) rec0 sw = (sw', r)" by simp
    note loop = prepare_loop_ok [OF assms(1,2) Some this]
    show ?thesis
    proof (cases r)
      case (Inr rec)
      with loop have "dr_intent rec = dr_intent rec0" by (simp add: record_le_def)
      with loop Inr show ?thesis by simp
    qed (use loop in simp)
  qed
qed (use assms in \<open>auto simp: coord_prepare_existing_def on_store_read intro: good_refl\<close>)

lemma coord_prepare_ok:
  assumes "co_store c = store" "inv (fst sw)" "draft_ok draft" "coord_prepare c draft ti ep sw = (sw', r)"
  shows "good sw sw' \<and> (\<forall>rec. r = Inr rec \<longrightarrow> rec_of (fst sw') (dr_transaction_id rec) = Some rec
    \<and> (own_receipts c \<longrightarrow> dr_terminal rec \<or> set (gi_participants (dr_intent rec)) \<subseteq> fst ` set (dr_prepared rec)))"
proof -
  from assms(4) have "bindS (on_store (st_begin store draft ti ep)) (\<lambda>rec0. coord_prepare_existing c (dr_transaction_id rec0)) sw = (sw', r)"
    by (simp add: coord_prepare_def assms(1))
  then show ?thesis
  proof (cases rule: bindS_cases)
    case (1 e)
    then show ?thesis using begin_law [OF assms(2,3)] by (auto simp: on_store_eq good_def)
  next
    case (2 sw1 rec1)
    have g: "good sw sw1" using begin_law [OF assms(2,3)] 2(1) by (auto simp: on_store_eq good_def)
    then have i: "inv (fst sw1)" by (simp add: good_def)
    note ex = coord_prepare_existing_ok [OF assms(1) i 2(2)]
    then have "inv (fst sw')" by (simp add: good_def)
    with ex g record_law show ?thesis by (metis good_trans)
  qed
qed

lemma coord_finish_ok:
  assumes "co_store c = store" "inv (fst sw)" "coord_finish c tid sw = (sw', r)"
  shows "good sw sw' \<and> (\<forall>rec. r = Inr rec \<longrightarrow> rec_of (fst sw') tid = Some rec \<and> dr_terminal rec
    \<and> (own_receipts c \<longrightarrow> set (gi_participants (dr_intent rec)) \<subseteq> fst ` set (dr_finished rec)))"
proof (cases "rec_of (fst sw) tid")
  case (Some rec0)
  with assms have run: "(if \<not> dr_terminal rec0 then failS (DecisionRefused ''decision_unknown'')
      else finish_loop c tid (gi_participants (dr_intent rec0)) rec0) sw = (sw', r)"
    by (simp add: coord_finish_def on_store_read)
  show ?thesis
  proof (cases "dr_terminal rec0")
    case False
    with run assms(2) show ?thesis by (auto intro: good_refl)
  next
    case True
    with run have "finish_loop c tid (gi_participants (dr_intent rec0)) rec0 sw = (sw', r)" by simp
    note loop = finish_loop_ok [OF assms(1,2) Some this]
    show ?thesis
    proof (cases r)
      case (Inr rec)
      with loop True have "dr_intent rec = dr_intent rec0" "dr_terminal rec" by (simp_all add: record_le_def dr_terminal_def)
      with loop Inr show ?thesis by simp
    qed (use loop in simp)
  qed
qed (use assms in \<open>auto simp: coord_finish_def on_store_read intro: good_refl\<close>)

lemma coord_decide_ok:
  assumes "co_store c = store" "inv (fst sw)" "coord_decide c tid decision w sw = (sw', r)"
  shows "good sw sw' \<and> snd sw' = snd sw \<and> (\<forall>rec. r = Inr rec \<longrightarrow> rec_of (fst sw') tid = Some rec
    \<and> terminal_of decision = Some (dr_state rec) \<and> (dr_state rec = Committed \<longrightarrow> dr_witness_digest rec = w))"
proof -
  show ?thesis
  proof (cases "\<exists>d rec0. terminal_of decision = Some d \<and> rec_of (fst sw) tid = Some rec0 \<and> \<not> dr_terminal rec0")
    case False
    with assms show ?thesis
      by (auto simp: coord_decide_def on_store_read intro: good_refl split: option.splits if_splits)
  next
    case True
    then obtain d rec0 where d: "terminal_of decision = Some d" "rec_of (fst sw) tid = Some rec0" "\<not> dr_terminal rec0" by blast
    obtain s1 r1 where s1: "st_decide store tid decision w (fst sw) = (s1, r1)" by fastforce
    have os: "on_store (st_decide (co_store c) tid decision w) sw = ((s1, snd sw), r1)" using s1 assms(1) by (simp add: on_store_def)
    note law = decide_law [OF assms(2) s1]
    have "sw' = sw \<and> (\<exists>e. r = Inl e) \<or> sw' = (s1, snd sw) \<and> (r = r1 \<or> (\<exists>e. r = Inl e))"
      using assms d os by (cases r1) (auto simp: coord_decide_def on_store_read split: if_splits)
    then show ?thesis using law assms(2) by (auto simp: good_def)
  qed
qed

lemma finish_one_live:
  assumes c: "co_store c = store" and i: "inv (fst sw)" and rec: "rec_of (fst sw) tid = Some rec0" and t: "dr_terminal rec0"
    and ans: "finish_answers c tid rec0 name" and new: "name \<notin> fst ` set (dr_finished rec0)"
  shows "\<exists>sw' rec. finish_one c tid name rec0 sw = (sw', Inr rec)"
proof -
  from ans obtain p w' rc where p: "map_of (co_participants c) name = Some p"
    "pt_finish p tid (dr_state rec0) (snd sw) = (w', Inr rc)" "rc_participant rc = name" "receipt_ok rc" "check_receipt rec0 rc = Inr ()"
    and ver: "\<forall>rec' w. dr_intent rec' = dr_intent rec0 \<longrightarrow> (\<exists>w'. co_verify_finished c rec' rc w = (w', Inr ()))"
    unfolding finish_answers_def by blast
  from ver obtain w'' where v: "co_verify_finished c rec0 rc w' = (w'', Inr ())" by blast
  have tid: "rc_transaction_id rc = tid" using check_receipt_id [OF p(5)] record_law [OF i rec] by simp
  have "map_of (dr_finished rec0) (rc_participant rc) = None" using new p(3) by (simp add: map_of_eq_None_iff)
  then obtain s' rec' where "st_record_finished store rc (fst sw) = (s', Inr rec')"
    using finished_available [OF i _ t p(5,4)] rec tid by blast
  with p v c show ?thesis by (simp add: finish_one_def coord_participant_def on_world_def on_store_def bindS_def)
qed

lemma finish_loop_live:
  assumes c: "co_store c = store" and t: "dr_terminal rec0"
  shows "inv (fst sw) \<Longrightarrow> rec_of (fst sw) tid = Some rec1 \<Longrightarrow> record_le rec0 rec1 \<Longrightarrow>
    \<forall>name \<in> set names. finish_answers c tid rec0 name \<Longrightarrow> \<exists>sw' rec. finish_loop c tid names rec1 sw = (sw', Inr rec)"
proof (induction names arbitrary: rec1 sw)
  case (Cons name names)
  show ?case
  proof (cases "name \<in> fst ` set (dr_finished rec1)")
    case True
    with Cons show ?thesis by simp
  next
    case False
    have le: "dr_intent rec1 = dr_intent rec0" "dr_state rec1 = dr_state rec0" "dr_terminal rec1"
      using Cons.prems(3) t by (auto simp: record_le_def dr_terminal_def)
    then have "finish_answers c tid rec1 name"
      using Cons.prems(4) check_receipt_intent [OF le(1)] by (simp add: finish_answers_def)
    from finish_one_live [OF c Cons.prems(1,2) le(3) this False] obtain sw1 rec2 where
      one: "finish_one c tid name rec1 sw = (sw1, Inr rec2)" by blast
    note ok = finish_one_ok [OF c Cons.prems(1,2) one]
    have "\<exists>sw' rec. finish_loop c tid names rec2 sw1 = (sw', Inr rec)"
      using ok Cons.prems(3,4) by (intro Cons.IH) (auto simp: good_def intro: record_le_trans)
    with one False show ?thesis by simp
  qed
qed simp

lemma coord_finish_live:
  assumes "co_store c = store" "inv (fst sw)" "rec_of (fst sw) tid = Some rec0" "dr_terminal rec0"
    "\<forall>name \<in> set (gi_participants (dr_intent rec0)). finish_answers c tid rec0 name"
  shows "\<exists>sw' rec. coord_finish c tid sw = (sw', Inr rec)"
  using finish_loop_live [OF assms(1,4,2,3) record_le_refl assms(5)] assms
  by (simp add: coord_finish_def on_store_read)

lemma finish_loop_done: "set names \<subseteq> fst ` set (dr_finished rec0) \<Longrightarrow> finish_loop c tid names rec0 sw = (sw, Inr rec0)"
  by (induction names) auto

lemma coord_finish_done:
  assumes "co_store c = store" "inv (fst sw)" "rec_of (fst sw) tid = Some rec0" "dr_terminal rec0"
    "set (gi_participants (dr_intent rec0)) \<subseteq> fst ` set (dr_finished rec0)"
  shows "coord_finish c tid sw = (sw, Inr rec0)"
  using assms by (simp add: coord_finish_def on_store_read finish_loop_done)

lemma recover_row_ok:
  assumes c: "co_store c = store" and i: "inv (fst sw)" and run: "recover_row c row sw = (sw', r)"
  shows "good sw sw' \<and> (\<forall>rec. r = Inr rec \<longrightarrow> dr_transaction_id rec = dr_transaction_id row
    \<and> (own_receipts c \<longrightarrow> dr_terminal rec \<longrightarrow> set (gi_participants (dr_intent rec)) \<subseteq> fst ` set (dr_finished rec)))"
proof -
  have fin: "good sw2 sw' \<and> (\<forall>rec. r = Inr rec \<longrightarrow> dr_transaction_id rec = dr_transaction_id row
    \<and> (own_receipts c \<longrightarrow> set (gi_participants (dr_intent rec)) \<subseteq> fst ` set (dr_finished rec)))"
    if "inv (fst sw2)" "coord_finish c (dr_transaction_id row) sw2 = (sw', r)" for sw2
  proof -
    note ok = coord_finish_ok [OF c that]
    then have "inv (fst sw')" by (simp add: good_def)
    with ok record_law show ?thesis by blast
  qed
  show ?thesis
  proof (cases "dr_terminal row")
    case True
    with run fin [OF i] show ?thesis by (auto simp: recover_row_def)
  next
    case False
    obtain s1 r1 where s1: "st_abort_expired store (dr_transaction_id row) (fst sw) = (s1, r1)" by fastforce
    note law = abort_law [OF i s1]
    have g: "good sw (s1, snd sw)" using law by (simp add: good_def)
    show ?thesis
    proof (cases r1)
      case (Inl e)
      with run False s1 c g show ?thesis
        by (auto simp: recover_row_def on_store_def split: if_splits)
    next
      case (Inr decided)
      with run False s1 c law have "coord_finish c (dr_transaction_id row) (s1, snd sw) = (sw', r)"
        by (simp add: recover_row_def on_store_def)
      from fin [OF _ this] law g show ?thesis by (auto intro: good_trans)
    qed
  qed
qed

lemma recover_loop_ok:
  assumes c: "co_store c = store"
  shows "inv (fst sw) \<Longrightarrow> recover_loop c rows result failures sw = (sw', (result', failures')) \<Longrightarrow>
    good sw sw' \<and> set result \<subseteq> set result' \<and> fst ` set failures \<subseteq> fst ` set failures'
    \<and> (\<forall>row \<in> set rows. dr_transaction_id row \<in> fst ` set failures'
        \<or> (\<exists>rec \<in> set result'. dr_transaction_id rec = dr_transaction_id row
            \<and> (own_receipts c \<longrightarrow> dr_terminal rec \<longrightarrow> set (gi_participants (dr_intent rec)) \<subseteq> fst ` set (dr_finished rec))))"
proof (induction rows arbitrary: result failures sw)
  case Nil
  then show ?case by (simp add: good_refl)
next
  case (Cons row rows)
  obtain sw1 r where r: "recover_row c row sw = (sw1, r)" by fastforce
  note one = recover_row_ok [OF c Cons.prems(1) r]
  then have i1: "inv (fst sw1)" by (simp add: good_def)
  show ?case
  proof (cases r)
    case (Inl e)
    with Cons.prems(2) r have "recover_loop c rows result (dict_set (dr_transaction_id row) e failures) sw1 = (sw', (result', failures'))" by simp
    from Cons.IH [OF i1 this] one show ?thesis by (auto intro: good_trans)
  next
    case (Inr rec)
    with Cons.prems(2) r have "recover_loop c rows (result @ [rec]) failures sw1 = (sw', (result', failures'))" by simp
    from Cons.IH [OF i1 this] one Inr show ?thesis by (auto intro: good_trans)
  qed
qed

end

section \<open>A concrete coordinator\<close>

definition sample_participant :: "string \<Rightarrow> unit participant" where
  "sample_participant name = \<lparr>pt_prepare = (\<lambda>tid w. (w, Inr (sample_receipt name))),
     pt_finish = (\<lambda>tid d w. (w, Inr (sample_receipt name)))\<rparr>"

definition sample_coordinator :: "(pg, unit) coordinator" where
  "sample_coordinator = \<lparr>co_store = pg_store (lit ''ns''),
     co_participants = [(lit ''hub'', sample_participant ''hub''), (lit ''board'', sample_participant ''board'')],
     co_verify_prepared = (\<lambda>rec rc w. (w, Inr ())), co_verify_finished = (\<lambda>rec rc w. (w, Inr ()))\<rparr>"

definition sample_row3 :: decision_row where
  "sample_row3 = decided_row Aborted [] 7 sample_row2"

definition sample_aborted :: decision_record where
  "sample_aborted = \<lparr>dr_intent = sample_bound, dr_state = Aborted,
     dr_prepared = [(lit ''hub'', sample_receipt ''hub''), (lit ''board'', sample_receipt ''board'')],
     dr_finished = [], dr_witness_digest = [], dr_decided_at = Some 7\<rparr>"

lemma sample_aborted_state:
  "table_ok (pg_rows (sample_pg [sample_row3]))" "view (lit ''ns'') (pg_rows (sample_pg [sample_row3])) (lit ''tx-1'') = Some sample_aborted"
  "dr_terminal sample_aborted"
proof -
  have op: "open_state sample_row2" using sample_rows(3) by (simp add: open_state_record dr_terminal_def TERMINAL_def)
  then have "row_step sample_row2 sample_row3" unfolding sample_row3_def by (rule step_aborted)
  with step_row [of 0 "[sample_row2]" sample_row3] have "table_step [sample_row2] [sample_row3]" by simp
  then show ok: "table_ok (pg_rows (sample_pg [sample_row3]))"
    using table_step_ok sample_reachable(2) by (simp add: sample_pg_def)
  have "has_id (lit ''ns'') (lit ''tx-1'') sample_row3"
    by (simp add: has_id_def sample_row3_def decided_row_def sample_row2_def sample_row1_def sample_row0_def prepared_row_def
        new_row_def sample_bound_facts)
  then show "view (lit ''ns'') (pg_rows (sample_pg [sample_row3])) (lit ''tx-1'') = Some sample_aborted"
    using decode_decided_row [OF sample_rows(3), of Aborted "[]" 7]
    by (simp add: view_def sample_pg_def sample_row3_def sample_aborted_def)
qed (simp add: sample_aborted_def dr_terminal_def TERMINAL_def)

lemma sample_own_receipts: "own_receipts sample_coordinator"
  using sample_receipt_facts(4) by (auto simp: own_receipts_def sample_coordinator_def sample_participant_def split: if_splits)

lemma sample_finish_answers:
  "\<forall>name \<in> set (gi_participants (dr_intent sample_aborted)). finish_answers sample_coordinator (lit ''tx-1'') sample_aborted name"
  using sample_receipt_facts [of "''hub''"] sample_receipt_facts [of "''board''"]
  by (simp add: sample_aborted_def sample_bound_facts finish_answers_def sample_coordinator_def sample_participant_def)

section \<open>Properties of the coordinator\<close>


text \<open>
  C25. \<open>Coordinator.finish\<close> gets through: for a decided transaction each of whose participants answers
  with a well-formed receipt that fits the intent and that the verifier accepts, \<open>finish\<close> returns,
  whichever receipts an earlier, interrupted pass has already recorded.
\<close>

theorem coordinator_finish_live:
  assumes "co_store c = pg_store ns" "table_ok (pg_rows (fst sw))" "view ns (pg_rows (fst sw)) tid = Some rec0" "dr_terminal rec0"
    "\<forall>name \<in> set (gi_participants (dr_intent rec0)). finish_answers c tid rec0 name"
  shows "\<exists>sw' rec. coord_finish c tid sw = (sw', Inr rec) \<and> dr_state rec = dr_state rec0"
proof -
  obtain sw' rec where run: "coord_finish c tid sw = (sw', Inr rec)" using pgs.coord_finish_live [OF assms] by blast
  note ok = pgs.coord_finish_ok [OF assms(1,2) run]
  then have "advances (view ns (pg_rows (fst sw))) (view ns (pg_rows (fst sw')))" by (simp add: pgs.good_def)
  from advancesD [OF this assms(3)] ok have "record_le rec0 rec" by auto
  with record_le_terminal assms(4) run show ?thesis by blast
qed

lemma sample_finish: "\<exists>sw' rec. coord_finish sample_coordinator (lit ''tx-1'') (sample_pg [sample_row3], ()) = (sw', Inr rec)"
  using pgs.coord_finish_live [of sample_coordinator "lit ''ns''" "(sample_pg [sample_row3], ())", OF _ _ _ sample_aborted_state(3) sample_finish_answers]
    sample_aborted_state by (simp add: sample_coordinator_def)

theorem coordinator_finish_live_witness:
  "\<exists>sw' rec. coord_finish sample_coordinator (lit ''tx-1'') (sample_pg [sample_row3], ()) = (sw', Inr rec) \<and> dr_state rec = Aborted"
proof -
  have "co_store sample_coordinator = pg_store (lit ''ns'')" by (simp add: sample_coordinator_def)
  from coordinator_finish_live [OF this, of "(sample_pg [sample_row3], ())", OF _ _ sample_aborted_state(3) sample_finish_answers] sample_aborted_state
  show ?thesis by (simp add: sample_aborted_def)
qed


text \<open>
  C26. \<open>Coordinator.prepare\<close> and \<open>decide\<close> together: a transaction the coordinator commits was prepared
  by every participant, with the witness given; deciding calls no participant, and it returns the
  stored record.
\<close>

theorem coordinator_commit_prepared:
  assumes "co_store c = pg_store ns" "table_ok (pg_rows (fst sw))" "coord_decide c tid (lit ''committed'') w sw = (sw', Inr rec)"
  shows "view ns (pg_rows (fst sw')) tid = Some rec \<and> dr_state rec = Committed \<and> dr_witness_digest rec = w \<and> is_digest w
    \<and> fst ` set (dr_prepared rec) = set (gi_participants (dr_intent rec)) \<and> snd sw' = snd sw"
proof -
  have ok: "pgs.good ns sw sw'" "snd sw' = snd sw" "view ns (pg_rows (fst sw')) tid = Some rec" "dr_state rec = Committed" "dr_witness_digest rec = w"
    using pgs.coord_decide_ok [OF assms] by (auto simp: terminal_of_def)
  then have "record_ok rec" using view_record by (auto simp: pgs.good_def)
  with ok show ?thesis by (simp add: record_ok_def)
qed

theorem coordinator_commit_prepared_witness:
  "case coord_decide sample_coordinator (lit ''tx-1'') (lit ''committed'') (replicate 64 99) (sample_pg [sample_row2], ()) of
     (sw', Inl e) \<Rightarrow> False
   | (sw', Inr rec) \<Rightarrow> dr_state rec = Committed \<and> fst ` set (dr_prepared rec) = set (gi_participants (dr_intent rec))"
proof -
  let ?db = "sample_pg [sample_row2]"
  have c: "co_store sample_coordinator = pg_store (lit ''ns'')" by (simp add: sample_coordinator_def)
  have ok: "table_ok (pg_rows ?db)" and v: "view (lit ''ns'') (pg_rows ?db) (lit ''tx-1'') = Some \<lparr>dr_intent = sample_bound, dr_state = Prepared,
     dr_prepared = [(lit ''hub'', sample_receipt ''hub''), (lit ''board'', sample_receipt ''board'')],
     dr_finished = [], dr_witness_digest = [], dr_decided_at = None\<rparr>"
    using sample_reachable(2) sample_view by (simp_all add: sample_pg_def)
  obtain db r where run: "store_decide (lit ''ns'') (lit ''tx-1'') (lit ''committed'') (replicate 64 99) None ?db = (db, Inr r)"
    using sample_decide by blast
  have law: "dr_state r = Committed" "dr_witness_digest r = replicate 64 99"
    using pgs.decide_law [OF ok, of "lit ''ns''" "lit ''tx-1''" "lit ''committed''" "replicate 64 99" db "Inr r"] run
    by (auto simp: pg_store_def terminal_of_def)
  have "coord_decide sample_coordinator (lit ''tx-1'') (lit ''committed'') (replicate 64 99) (?db, ()) = ((db, ()), Inr r)"
    using run v ok law
    by (auto simp: coord_decide_def c terminal_of_def on_store_def pgs.read_law dr_terminal_def TERMINAL_def sample_bound_facts
        is_digest_def is_lower_hex_def is_digit_char_def bindS_def)
      (auto simp: pg_store_def)
  with coordinator_commit_prepared [OF c _ this] ok show ?thesis by simp
qed

text \<open>
  A recovery pass forgets no row and stops at none: whatever fails, every listed row is either
  reported as a failure under its transaction identity or returned, and a returned decided row has
  been finished by every participant of its intent.
\<close>

theorem recovery_accounts_for_every_row:
  assumes "co_store c = pg_store ns" "own_receipts c" "table_ok (pg_rows (fst sw))"
    "recover_rows c rows next_after has_more sw = (sw', out)"
  shows "table_ok (pg_rows (fst sw')) \<and>
    (\<exists>result failures. out = (if failures = [] then Inr result else Inl (RecoveryIncomplete failures result next_after has_more))
     \<and> (\<forall>row \<in> set rows. dr_transaction_id row \<in> fst ` set failures
        \<or> (\<exists>rec \<in> set result. dr_transaction_id rec = dr_transaction_id row
            \<and> (dr_terminal rec \<longrightarrow> set (gi_participants (dr_intent rec)) \<subseteq> fst ` set (dr_finished rec)))))"
proof -
  obtain sw1 result failures where l: "recover_loop c rows [] [] sw = (sw1, (result, failures))" by (metis prod.collapse)
  note ok = pgs.recover_loop_ok [OF assms(1,3) l]
  from l assms(4) have "sw' = sw1" "out = (if failures = [] then Inr result else Inl (RecoveryIncomplete failures result next_after has_more))"
    by (auto simp: recover_rows_def split: if_splits)
  with ok assms(2) show ?thesis by (auto simp: pgs.good_def)
qed

theorem recovery_accounts_for_every_row_witness:
  "\<exists>result failures. snd (recover_rows sample_coordinator [sample_aborted] None None (sample_pg [sample_row3], ()))
      = (if failures = [] then Inr result else Inl (RecoveryIncomplete failures result None None))
    \<and> (lit ''tx-1'' \<in> fst ` set failures \<or> (\<exists>rec \<in> set result. dr_transaction_id rec = lit ''tx-1''))"
proof -
  obtain sw' out where run: "recover_rows sample_coordinator [sample_aborted] None None (sample_pg [sample_row3], ()) = (sw', out)"
    by (metis prod.collapse)
  have c: "co_store sample_coordinator = pg_store (lit ''ns'')" by (simp add: sample_coordinator_def)
  have id: "dr_transaction_id sample_aborted = lit ''tx-1''" by (simp add: sample_aborted_def dr_transaction_id_def sample_bound_facts)
  have "\<exists>result failures. out = (if failures = [] then Inr result else Inl (RecoveryIncomplete failures result None None))
     \<and> (\<forall>row \<in> set [sample_aborted]. dr_transaction_id row \<in> fst ` set failures
        \<or> (\<exists>rec \<in> set result. dr_transaction_id rec = dr_transaction_id row
            \<and> (dr_terminal rec \<longrightarrow> set (gi_participants (dr_intent rec)) \<subseteq> fst ` set (dr_finished rec))))"
    using recovery_accounts_for_every_row [OF c sample_own_receipts _ run] sample_aborted_state(1) by simp
  then obtain result failures where out: "out = (if failures = [] then Inr result else Inl (RecoveryIncomplete failures result None None))"
      "lit ''tx-1'' \<in> fst ` set failures \<or> (\<exists>rec \<in> set result. dr_transaction_id rec = lit ''tx-1'')"
    by (auto simp only: id list.set ball_simps)
  show ?thesis using run out by (intro exI [of _ result] exI [of _ failures]) simp
qed

end
