(* ===== verification/Participant_Answer.thy ===== *)
theory Participant_Answer
  imports Durable_Wire
begin

text \<open>
  \<open>service_foundation/coordination/participant_answer.py\<close>: signing and verifying a participant's
  answer against a frozen request.

  \<open>str.isprintable\<close> depends on the Unicode database and is the parameter \<open>printable\<close>; what the proofs
  need of it is that a line feed and a surrogate are not printable. \<open>now\<close> is an integer here (the
  program also takes a float).
\<close>

section \<open>Contracts\<close>

datatype answer_contract = PARTICIPANT | CENSUS | PLAN | COLLECTION | CARD_VERSION | INVITATION_CENSUS

definition REQUEST_FIELDS :: "string list" where
  "REQUEST_FIELDS = [''schema'', ''action'', ''request_echo'', ''scope'', ''transaction_id'', ''decision'', ''limit'', ''cursor'']"

definition CENSUS_REQUEST_FIELDS :: "string list" where
  "CENSUS_REQUEST_FIELDS = [''schema'', ''request_echo'', ''scope'', ''persons'', ''include_catalog'']"

definition INVITATION_CENSUS_REQUEST_FIELDS :: "string list" where
  "INVITATION_CENSUS_REQUEST_FIELDS = [''schema'', ''request_echo'', ''scope'']"

definition PLAN_REQUEST_FIELDS :: "string list" where
  "PLAN_REQUEST_FIELDS = [''schema'', ''request_echo'', ''scope'', ''actor_subject'', ''actor_kind'', ''request_id'', ''creations'', ''updates'']"

definition COLLECTION_REQUEST_FIELDS :: "string list" where
  "COLLECTION_REQUEST_FIELDS = [''schema'', ''request_echo'', ''scope'', ''persons'', ''exclude'', ''actor_subject'', ''request_id'', ''deadline'']"

definition CARD_VERSION_REQUEST_FIELDS :: "string list" where
  "CARD_VERSION_REQUEST_FIELDS = [''schema'', ''op'', ''request_echo'', ''scope'', ''txn'', ''request_id'', ''at'', ''catalog'',
     ''actor_subject'', ''actor_kind'', ''delegable_grants'', ''project_control'', ''creations'', ''updates'', ''links'', ''compensation_at'']"

definition CARD_VERSION_ECHO_FIELDS :: "string list" where
  "CARD_VERSION_ECHO_FIELDS = [''op'', ''request_echo'', ''scope'', ''txn'']"

fun request_fields :: "answer_contract \<Rightarrow> string list" where
  "request_fields PARTICIPANT = REQUEST_FIELDS"
| "request_fields CENSUS = CENSUS_REQUEST_FIELDS"
| "request_fields PLAN = PLAN_REQUEST_FIELDS"
| "request_fields COLLECTION = COLLECTION_REQUEST_FIELDS"
| "request_fields CARD_VERSION = CARD_VERSION_REQUEST_FIELDS"
| "request_fields INVITATION_CENSUS = INVITATION_CENSUS_REQUEST_FIELDS"

definition echo_fields :: "answer_contract \<Rightarrow> string list" where
  "echo_fields contract = (if contract = CARD_VERSION then CARD_VERSION_ECHO_FIELDS
     else filter (\<lambda>f. f \<noteq> ''schema'') (request_fields contract))"

definition answer_fields :: "answer_contract \<Rightarrow> string list" where
  "answer_fields contract = echo_fields contract @ [''schema'', ''direction'', ''audience'', ''request_digest'', ''result'']"

definition PROOF_FIELDS :: "string list" where
  "PROOF_FIELDS = [''service_id'', ''timestamp'', ''signature'']"

section \<open>Checks\<close>

definition echo_match :: "pyval \<Rightarrow> bool" where
  "echo_match v \<longleftrightarrow> is_str v \<and> 32 \<le> length (str_of v) \<and> length (str_of v) \<le> 128 \<and> list_all is_lower_hex (str_of v)"

definition timestamp_match :: "pyval \<Rightarrow> bool" where
  "timestamp_match v \<longleftrightarrow> is_str v \<and> list_all is_digit_char (str_of v) \<and> str_of v \<noteq> []
     \<and> (str_of v = [48] \<or> hd (str_of v) \<noteq> 48) \<and> length (str_of v) \<le> 20"

definition b64url_char :: "nat \<Rightarrow> nat" where
  "b64url_char n = (if n < 26 then 65 + n else if n < 52 then 71 + n else if n < 62 then n - 4 else if n = 62 then 45 else 95)"

definition is_b64url :: "nat \<Rightarrow> bool" where
  "is_b64url c \<longleftrightarrow> 65 \<le> c \<and> c \<le> 90 \<or> 97 \<le> c \<and> c \<le> 122 \<or> is_digit_char c \<or> c = 95 \<or> c = 45"

definition signature_match :: "pyval \<Rightarrow> bool" where
  "signature_match v \<longleftrightarrow> is_str v \<and> length (str_of v) = 43 \<and> list_all is_b64url (str_of v)"

text \<open>\<open>base64.urlsafe_b64encode(...)\<close> without its padding.\<close>

fun b64url :: "bytes \<Rightarrow> pystr" where
  "b64url [] = []"
| "b64url [a] = map b64url_char [unat a div 4, unat a mod 4 * 16]"
| "b64url [a, b] = map b64url_char [unat a div 4, unat a mod 4 * 16 + unat b div 16, unat b mod 16 * 4]"
| "b64url (a # b # c # r) = map b64url_char [unat a div 4, unat a mod 4 * 16 + unat b div 16,
     unat b mod 16 * 4 + unat c div 64, unat c mod 64] @ b64url r"

definition text_value :: "(nat \<Rightarrow> bool) \<Rightarrow> pyval \<Rightarrow> bool" where
  "text_value printable v \<longleftrightarrow> is_str v \<and> str_of v \<noteq> [] \<and> length (str_of v) \<le> 256 \<and> list_all printable (str_of v)"

definition snapshot :: "pyval \<Rightarrow> string \<Rightarrow> exn + pydict" where
  "snapshot v code = (case dict_of v of
       None \<Rightarrow> Inl (ParticipantAnswerRefused code)
     | Some d \<Rightarrow> (case bindE (canonical_json_bytes (PDict d)) parse_canonical_json_bytes of
           Inl _ \<Rightarrow> Inl (ParticipantAnswerRefused code)
         | Inr w \<Rightarrow> (case dict_of w of None \<Rightarrow> Inl (ParticipantAnswerRefused code) | Some e \<Rightarrow> Inr e)))"

definition answer_key :: "pystr + bytes \<Rightarrow> exn + bytes" where
  "answer_key secret =
     (let key = (case secret of Inl s \<Rightarrow> utf8_encode s | Inr b \<Rightarrow> Inr b)
      in case key of
           Inl _ \<Rightarrow> Inl (ParticipantAnswerRefused ''answer_configuration_invalid'')
         | Inr k \<Rightarrow> if length k < 32 then Inl (ParticipantAnswerRefused ''answer_configuration_invalid'') else Inr k)"

definition frozen_request :: "(nat \<Rightarrow> bool) \<Rightarrow> pyval \<Rightarrow> answer_contract \<Rightarrow> exn + pydict" where
  "frozen_request printable req contract = bindE (snapshot req ''request_invalid'') (\<lambda>d.
     if dkeys d \<noteq> lits (request_fields contract) \<or> \<not> text_value printable (dget_or d ''schema'' PNone)
        \<or> \<not> echo_match (dget_or d ''request_echo'' PNone)
     then Inl (ParticipantAnswerRefused ''request_invalid'') else Inr d)"

definition request_digest :: "(nat \<Rightarrow> bool) \<Rightarrow> pyval \<Rightarrow> answer_contract \<Rightarrow> exn + pystr" where
  "request_digest printable req contract = bindE (frozen_request printable req contract) (\<lambda>d.
     bindE (canonical_json_bytes (PDict d)) (\<lambda>b. Inr (sha256_hex b)))"

definition unsigned_answer :: "(nat \<Rightarrow> bool) \<Rightarrow> pyval \<Rightarrow> pyval \<Rightarrow> answer_contract \<Rightarrow> exn + pydict" where
  "unsigned_answer printable v schema contract = bindE (snapshot v ''answer_malformed'') (\<lambda>d.
     if dkeys d \<noteq> lits (answer_fields contract) \<or> dget d ''schema'' \<noteq> Some schema
        \<or> \<not> text_value printable (dget_or d ''direction'' PNone) \<or> \<not> text_value printable (dget_or d ''audience'' PNone)
        \<or> \<not> echo_match (dget_or d ''request_echo'' PNone)
        \<or> \<not> (is_str (dget_or d ''request_digest'' PNone) \<and> is_digest (str_of (dget_or d ''request_digest'' PNone)))
        \<or> dict_of (dget_or d ''result'' PNone) = None
     then Inl (ParticipantAnswerRefused ''answer_malformed'') else Inr d)"

section \<open>Signing and verifying\<close>

definition frame_text :: "pystr \<Rightarrow> pystr \<Rightarrow> pystr \<Rightarrow> pystr \<Rightarrow> pystr \<Rightarrow> pystr" where
  "frame_text schema signer timestamp echo digest =
     schema @ 10 # signer @ 10 # timestamp @ 10 # echo @ 10 # digest"

definition answer_signature :: "pydict \<Rightarrow> pystr \<Rightarrow> bytes \<Rightarrow> pystr \<Rightarrow> pystr \<Rightarrow> exn + pystr" where
  "answer_signature body schema key signer timestamp =
     bindE (canonical_json_bytes (PDict body)) (\<lambda>b.
     bindE (utf8_encode (frame_text schema signer timestamp (str_of (dget_or body ''request_echo'' PNone)) (sha256_hex b)))
       (\<lambda>frame. Inr (b64url (hmac_sha256 key frame))))"

definition sign_participant_answer :: "(nat \<Rightarrow> bool) \<Rightarrow> pyval \<Rightarrow> pyval \<Rightarrow> pystr + bytes \<Rightarrow> pyval \<Rightarrow> pyval \<Rightarrow> answer_contract
    \<Rightarrow> exn + pydict" where
  "sign_participant_answer printable body schema secret signer_id timestamp contract =
     bindE (answer_key secret) (\<lambda>key.
       if \<not> text_value printable schema \<or> \<not> text_value printable signer_id \<or> \<not> timestamp_match timestamp
       then Inl (ParticipantAnswerRefused ''answer_configuration_invalid'')
       else bindE (unsigned_answer printable body schema contract) (\<lambda>answer.
         bindE (answer_signature answer (str_of schema) key (str_of signer_id) (str_of timestamp)) (\<lambda>sig.
           Inr [(PStr (lit ''service_id''), signer_id), (PStr (lit ''timestamp''), timestamp), (PStr (lit ''signature''), PStr sig)])))"

definition echo_matches :: "answer_contract \<Rightarrow> pydict \<Rightarrow> pydict \<Rightarrow> bool" where
  "echo_matches contract body frozen \<longleftrightarrow>
     list_all (\<lambda>f. canonical_json_bytes (dget_or body f PNone) = canonical_json_bytes (dget_or frozen f PNone)) (echo_fields contract)"

definition verify_participant_answer :: "(nat \<Rightarrow> bool) \<Rightarrow> pyval \<Rightarrow> pyval \<Rightarrow> pystr + bytes \<Rightarrow> pyval \<Rightarrow> pyval \<Rightarrow> pyval
    \<Rightarrow> pyval \<Rightarrow> int \<Rightarrow> int \<Rightarrow> answer_contract \<Rightarrow> exn + pydict" where
  "verify_participant_answer printable answer schema secret signer_id audience direction request now max_skew contract =
     bindE (answer_key secret) (\<lambda>key.
       if \<not> list_all (text_value printable) [schema, signer_id, audience, direction] \<or> \<not> (0 \<le> now \<and> now \<le> 10 ^ 20)
          \<or> \<not> (0 \<le> max_skew \<and> max_skew \<le> 300)
       then Inl (ParticipantAnswerRefused ''answer_configuration_invalid'')
       else bindE (frozen_request printable request contract) (\<lambda>frozen.
         bindE (snapshot answer ''answer_malformed'') (\<lambda>v.
           if dkeys v \<noteq> lits (answer_fields contract @ [''receipt_proof''])
           then Inl (ParticipantAnswerRefused ''answer_malformed'')
           else let proof_v = dget_or v ''receipt_proof'' PNone in
             bindE (unsigned_answer printable (PDict (filter (\<lambda>kv. fst kv \<noteq> PStr (lit ''receipt_proof'')) v)) schema contract) (\<lambda>body.
               case dict_of proof_v of
                 None \<Rightarrow> Inl (ParticipantAnswerRefused ''answer_malformed'')
               | Some p \<Rightarrow>
                  if dkeys p \<noteq> lits PROOF_FIELDS \<or> \<not> timestamp_match (dget_or p ''timestamp'' PNone)
                     \<or> \<not> signature_match (dget_or p ''signature'' PNone)
                  then Inl (ParticipantAnswerRefused ''answer_malformed'')
                  else bindE (request_digest printable (PDict frozen) contract) (\<lambda>rd.
                    if dget p ''service_id'' \<noteq> Some signer_id \<or> dget body ''audience'' \<noteq> Some audience
                       \<or> dget body ''direction'' \<noteq> Some direction \<or> dget body ''request_digest'' \<noteq> Some (PStr rd)
                       \<or> \<not> echo_matches contract body frozen
                    then Inl (ParticipantAnswerRefused ''answer_binding_mismatch'')
                    else if \<bar>now - int (digits_val (str_of (dget_or p ''timestamp'' PNone)))\<bar> > max_skew
                    then Inl (ParticipantAnswerRefused ''answer_stale'')
                    else bindE (answer_signature body (str_of schema) key (str_of signer_id) (str_of (dget_or p ''timestamp'' PNone)))
                      (\<lambda>expected.
                        if PStr expected \<noteq> dget_or p ''signature'' PNone
                        then Inl (ParticipantAnswerRefused ''answer_proof_invalid'')
                        else Inr (the (dict_of (dget_or body ''result'' PNone)))))))))"

section \<open>Lemmas\<close>

lemma snapshot_Inr:
  assumes "snapshot v code = Inr e"
  obtains d where "v = PDict d" "norm (PDict e) = PDict e" "py_wf (PDict e)"
    "wire_check (PDict e) = Inr ()" "wire_check (PDict d) = Inr ()" "py_wf (PDict d) \<Longrightarrow> norm_dict d = e"
proof -
  from assms obtain d where d: "v = PDict d" "dict_of v = Some d" by (auto simp: snapshot_def split: option.splits)
  with assms obtain b where b: "canonical_json_bytes (PDict d) = Inr b" "parse_canonical_json_bytes b = Inr (PDict e)"
    by (auto simp: snapshot_def bindE_def split: sum.splits option.splits)
  have wf: "py_wf (PDict e)" by (rule json_value_wf [OF parse_canonical_json_value [OF b(2)]])
  have ce: "canonical_json_bytes (PDict e) = Inr b" by (rule parse_canonical_check [OF b(2)])
  have "parse_canonical_json_bytes b = Inr (norm (PDict e))" by (rule parse_canonical_round_trip [OF ce wf])
  with b(2) have n: "norm (PDict e) = PDict e" by simp
  have "wire_check (PDict e) = Inr ()" "wire_check (PDict d) = Inr ()" using ce b(1) by (auto elim: canonical_json_bytes_Inr)
  moreover have "norm_dict d = e" if "py_wf (PDict d)"
    using parse_canonical_round_trip [OF b(1) that] b(2) by (simp add: norm_PDict)
  ultimately show ?thesis using that d(1) n wf by blast
qed

lemma snapshot_ok: "py_wf (PDict d) \<Longrightarrow> wire_check (PDict d) = Inr () \<Longrightarrow> snapshot (PDict d) code = Inr (norm_dict d)"
  using canonical_json_bytes_ok [of "PDict d"] parse_canonical_round_trip [of "PDict d"]
  by (auto simp: snapshot_def norm_PDict simp del: py_wf.simps wire_check.simps)

lemma snapshot_errors: "snapshot v code = Inl e \<Longrightarrow> e = ParticipantAnswerRefused code"
  by (auto simp: snapshot_def split: option.splits sum.splits)

lemma wire_check_get: "wire_check (PDict d) = Inr () \<Longrightarrow> wire_check (dget_or d k PNone) = Inr ()"
  by (auto simp: dget_or_def dget_def wire_check_items_iff split: option.splits dest!: map_of_SomeD)

lemma wire_check_filter: "wire_check (PDict d) = Inr () \<Longrightarrow> wire_check (PDict (filter P d)) = Inr ()"
  by (simp add: wire_check_items_iff)

lemma py_wf_filter: "py_wf (PDict d) \<Longrightarrow> py_wf (PDict (filter P d))"
  by (auto simp: distinct_map_filter)

lemma norm_dict_filter: "norm_dict (filter (\<lambda>kv. P (fst kv)) d) = filter (\<lambda>kv. P (fst kv)) (norm_dict d)"
  by (simp add: norm_dict_def filter_sort filter_map o_def case_prod_beta)

lemma b64url_char_ok: "n < 64 \<Longrightarrow> is_b64url (b64url_char n)"
  by (auto simp: b64url_char_def is_b64url_def is_digit_char_def)

lemma byte_less: "unat (a :: 8 word) < 256"
proof -
  have "unat a < 2 ^ LENGTH(8)" by (rule unsigned_less)
  then show ?thesis by simp
qed

lemma b64url_ok: "list_all is_b64url (b64url bs)"
proof (induction bs rule: b64url.induct)
  case (4 a b c r)
  have "unat a div 4 < 64" "unat a mod 4 * 16 + unat b div 16 < 64" "unat b mod 16 * 4 + unat c div 64 < 64" "unat c mod 64 < 64"
    using byte_less [of a] byte_less [of b] byte_less [of c] by linarith+
  with 4 show ?case by (simp add: b64url_char_ok)
next
  case (3 a b)
  have "unat a div 4 < 64" "unat a mod 4 * 16 + unat b div 16 < 64" "unat b mod 16 * 4 < 64"
    using byte_less [of a] byte_less [of b] by linarith+
  then show ?case by (simp add: b64url_char_ok)
next
  case (2 a)
  have "unat a div 4 < 64" "unat a mod 4 * 16 < 64" using byte_less [of a] by linarith+
  then show ?case by (simp add: b64url_char_ok)
qed simp

lemma b64url_length: "length (b64url bs) = (4 * length bs + 2) div 3"
  by (induction bs rule: b64url.induct) auto

lemma hmac_length [simp]: "length (hmac_sha256 k m) = 32"
  by (simp add: hmac_sha256_def Let_def)

lemma signature_match_own: "signature_match (PStr (b64url (hmac_sha256 k m)))"
  by (simp add: signature_match_def b64url_ok b64url_length)

section \<open>The signed frame\<close>

lemma split_at_newline:
  "10 \<notin> set a \<Longrightarrow> 10 \<notin> set a' \<Longrightarrow> a @ 10 # (r :: nat list) = a' @ 10 # r' \<Longrightarrow> a = a' \<and> r = r'"
proof (induction a arbitrary: a')
  case Nil
  then show ?case by (cases a') auto
next
  case (Cons x a)
  then show ?case by (cases a') auto
qed

definition printable_ok :: "(nat \<Rightarrow> bool) \<Rightarrow> bool" where
  "printable_ok printable \<longleftrightarrow> \<not> printable 10 \<and> (\<forall>c. printable c \<longrightarrow> \<not> is_surrogate c \<and> c < 1114112)"

lemma text_no_newline: "printable_ok printable \<Longrightarrow> text_value printable v \<Longrightarrow> 10 \<notin> set (str_of v)"
  by (auto simp: printable_ok_def text_value_def list_all_iff)

lemma text_encodable: "printable_ok printable \<Longrightarrow> text_value printable v \<Longrightarrow> encodable (str_of v)"
  by (auto simp: printable_ok_def text_value_def list_all_iff encodable_def)

lemma hex_encodable: "list_all is_lower_hex s \<Longrightarrow> encodable s"
  by (rule encodable_ascii) (auto simp: list_all_iff is_lower_hex_def is_digit_char_def)

lemma echo_no_newline: "echo_match v \<Longrightarrow> 10 \<notin> set (str_of v)"
  by (auto simp: echo_match_def list_all_iff is_lower_hex_def is_digit_char_def)

lemma timestamp_no_newline: "timestamp_match v \<Longrightarrow> 10 \<notin> set (str_of v)"
  by (auto simp: timestamp_match_def list_all_iff is_digit_char_def)

lemma timestamp_encodable: "timestamp_match v \<Longrightarrow> encodable (str_of v)"
  by (rule encodable_ascii) (auto simp: timestamp_match_def list_all_iff is_digit_char_def)

lemma signature_encodable: "signature_match v \<Longrightarrow> encodable (str_of v)"
  by (rule encodable_ascii) (auto simp: signature_match_def list_all_iff is_digit_char_def is_b64url_def)

lemma answer_signature_ok:
  assumes "printable_ok printable" "text_value printable schema" "text_value printable signer" "timestamp_match ts"
    "echo_match (dget_or u ''request_echo'' PNone)" "py_wf (PDict u)" "wire_check (PDict u) = Inr ()"
  shows "\<exists>k. answer_signature u (str_of schema) key (str_of signer) (str_of ts) = Inr (b64url (hmac_sha256 key k))"
proof -
  obtain b where b: "canonical_json_bytes (PDict u) = Inr b" using canonical_json_bytes_ok [OF assms(7,6)] by blast
  have "encodable (str_of ts)"
    using assms(4) by (intro encodable_ascii) (auto simp: timestamp_match_def list_all_iff is_digit_char_def)
  then have "encodable (frame_text (str_of schema) (str_of signer) (str_of ts) (str_of (dget_or u ''request_echo'' PNone)) (sha256_hex b))"
    using assms text_encodable [OF assms(1)] hex_encodable digest_encodable
    by (simp add: frame_text_def echo_match_def is_surrogate_def sha256_hex_def)
  with b show ?thesis by (simp add: answer_signature_def utf8_encode_def) blast
qed


lemma snapshot_fixed:
  assumes "snapshot v code = Inr e"
  shows "snapshot (PDict e) code' = Inr e" "py_wf (PDict e)" "wire_check (PDict e) = Inr ()" "norm_dict e = e"
proof -
  have *: "norm (PDict e) = PDict e" "py_wf (PDict e)" "wire_check (PDict e) = Inr ()"
    using assms by (auto elim: snapshot_Inr simp del: py_wf.simps wire_check.simps norm_PDict)
  then show "py_wf (PDict e)" "wire_check (PDict e) = Inr ()" "norm_dict e = e" by (simp_all add: norm_PDict)
  with snapshot_ok show "snapshot (PDict e) code' = Inr e" by metis
qed

lemma norm_get: "norm_dict e = e \<Longrightarrow> py_wf (PDict e) \<Longrightarrow> norm (dget_or e k PNone) = dget_or e k PNone"
  using dget_or_norm [of e k] by simp

lemma py_wf_get: "py_wf (PDict e) \<Longrightarrow> py_wf (dget_or e k PNone)"
  by (auto simp: dget_or_def dget_def split: option.splits dest!: map_of_SomeD)

lemma canonical_get_eq:
  assumes "norm_dict a = a" "py_wf (PDict a)" "wire_check (PDict a) = Inr ()"
    "norm_dict b = b" "py_wf (PDict b)" "wire_check (PDict b) = Inr ()"
  shows "canonical_json_bytes (dget_or a f PNone) = canonical_json_bytes (dget_or b f PNone) \<longleftrightarrow> dget_or a f PNone = dget_or b f PNone"
proof
  assume eq: "canonical_json_bytes (dget_or a f PNone) = canonical_json_bytes (dget_or b f PNone)"
  obtain x where "canonical_json_bytes (dget_or b f PNone) = Inr x"
    using canonical_json_bytes_ok [OF wire_check_get [OF assms(6)] py_wf_get [OF assms(5)]] by blast
  with eq have "norm (dget_or a f PNone) = norm (dget_or b f PNone)"
    by (intro canonical_inj [OF _ _ py_wf_get [OF assms(2)] py_wf_get [OF assms(5)]]) auto
  then show "dget_or a f PNone = dget_or b f PNone" using norm_get assms by simp
qed simp

lemma frozen_request_Inr:
  assumes "frozen_request printable req contract = Inr d"
  shows "snapshot req ''request_invalid'' = Inr d" "frozen_request printable (PDict d) contract = Inr d"
proof -
  show s: "snapshot req ''request_invalid'' = Inr d" using assms by (auto simp: frozen_request_def split: if_splits)
  then have "snapshot (PDict d) ''request_invalid'' = Inr d" by (rule snapshot_fixed)
  with s assms show "frozen_request printable (PDict d) contract = Inr d" by (simp add: frozen_request_def del: bindE_eq_Inr)
qed

lemma unsigned_answer_Inr:
  assumes "unsigned_answer printable v schema contract = Inr d"
  shows "snapshot v ''answer_malformed'' = Inr d" "dkeys d = lits (answer_fields contract)" "dget d ''schema'' = Some schema"
    "echo_match (dget_or d ''request_echo'' PNone)" "\<exists>r. dget d ''result'' = Some (PDict r)"
    "text_value printable (dget_or d ''direction'' PNone)" "text_value printable (dget_or d ''audience'' PNone)"
proof -
  show "snapshot v ''answer_malformed'' = Inr d" "dkeys d = lits (answer_fields contract)" "dget d ''schema'' = Some schema"
    "echo_match (dget_or d ''request_echo'' PNone)" "text_value printable (dget_or d ''direction'' PNone)"
    "text_value printable (dget_or d ''audience'' PNone)"
    using assms by (auto simp: unsigned_answer_def split: if_splits)
  from assms obtain r where "dget_or d ''result'' PNone = PDict r" by (auto simp: unsigned_answer_def split: if_splits)
  then show "\<exists>r. dget d ''result'' = Some (PDict r)" by (auto simp: dget_or_def split: option.splits)
qed

lemma is_str_get: "is_str (dget_or d k PNone) \<Longrightarrow> dget d k = Some (PStr (str_of (dget_or d k PNone)))"
  by (auto simp: dget_or_def split: option.splits) (metis PStr_str_of)

section \<open>Properties\<close>



text \<open>
  The signed frame binds every part: two frames built from printable schema and signer texts,
  well-formed timestamps and echoes are equal only when schema, signer, timestamp, echo and body
  digest are all equal, so a signature for one is never a signature of the same bytes for another.
\<close>

theorem frame_binds_every_part:
  assumes "printable_ok printable" "list_all (text_value printable) [schema, signer, schema', signer']"
    "timestamp_match ts" "timestamp_match ts'" "echo_match echo" "echo_match echo'"
    "frame_text (str_of schema) (str_of signer) (str_of ts) (str_of echo) digest
       = frame_text (str_of schema') (str_of signer') (str_of ts') (str_of echo') digest'"
  shows "schema = schema' \<and> signer = signer' \<and> ts = ts' \<and> echo = echo' \<and> digest = digest'"
proof -
  have nn: "10 \<notin> set (str_of schema)" "10 \<notin> set (str_of schema')" "10 \<notin> set (str_of signer)" "10 \<notin> set (str_of signer')"
    "10 \<notin> set (str_of ts)" "10 \<notin> set (str_of ts')" "10 \<notin> set (str_of echo)" "10 \<notin> set (str_of echo')"
    using assms(2-6) text_no_newline [OF assms(1)] timestamp_no_newline echo_no_newline by simp_all
  from split_at_newline [OF nn(1,2) assms(7) [unfolded frame_text_def]]
  have 1: "str_of schema = str_of schema'"
    "str_of signer @ 10 # str_of ts @ 10 # str_of echo @ 10 # digest = str_of signer' @ 10 # str_of ts' @ 10 # str_of echo' @ 10 # digest'" by auto
  from split_at_newline [OF nn(3,4) 1(2)]
  have 2: "str_of signer = str_of signer'" "str_of ts @ 10 # str_of echo @ 10 # digest = str_of ts' @ 10 # str_of echo' @ 10 # digest'" by auto
  from split_at_newline [OF nn(5,6) 2(2)]
  have 3: "str_of ts = str_of ts'" "str_of echo @ 10 # digest = str_of echo' @ 10 # digest'" by auto
  from split_at_newline [OF nn(7,8) 3(2)] have 4: "str_of echo = str_of echo'" "digest = digest'" by auto
  have "is_str schema \<and> is_str schema' \<and> is_str signer \<and> is_str signer' \<and> is_str ts \<and> is_str ts' \<and> is_str echo \<and> is_str echo'"
    using assms(2-6) by (simp add: text_value_def timestamp_match_def echo_match_def)
  then have "PStr (str_of schema) = schema" "PStr (str_of schema') = schema'" "PStr (str_of signer) = signer" "PStr (str_of signer') = signer'"
    "PStr (str_of ts) = ts" "PStr (str_of ts') = ts'" "PStr (str_of echo) = echo" "PStr (str_of echo') = echo'"
    using PStr_str_of by blast+
  with 1(1) 2(1) 3(1) 4 show ?thesis by metis
qed

lemma frame_sample_checks:
  "printable_ok (\<lambda>c. 32 \<le> c \<and> c < 127)" "text_value (\<lambda>c. 32 \<le> c \<and> c < 127) (PStr (lit ''answer.v1''))"
  "text_value (\<lambda>c. 32 \<le> c \<and> c < 127) (PStr (lit ''hub''))" "timestamp_match (PStr (lit ''17''))" "echo_match (PStr (replicate 32 97))"
  by (auto simp: printable_ok_def is_surrogate_def text_value_def lit_def timestamp_match_def is_digit_char_def echo_match_def is_lower_hex_def list_all_iff)

theorem frame_binds_every_part_witness:
  "frame_text (lit ''answer.v1'') (lit ''hub'') (lit ''17'') (replicate 32 97) (lit ''d'')
     \<noteq> frame_text (lit ''answer.v1'') (lit ''hub'') (lit ''17'') (replicate 32 97) (lit ''e'')"
  using frame_binds_every_part [OF frame_sample_checks(1) _ frame_sample_checks(4,4,5,5), of "PStr (lit ''answer.v1'')" "PStr (lit ''hub'')"
      "PStr (lit ''answer.v1'')" "PStr (lit ''hub'')" "lit ''d''" "lit ''e''"] frame_sample_checks(2,3)
  by auto

lemma dget_append_other: "k \<noteq> k' \<Longrightarrow> dget (d @ [(PStr (lit k'), x)]) k = dget d k"
  by (simp add: dget_def map_add_def split: option.splits)

lemma lits_append: "lits (xs @ ys) = lits xs \<union> lits ys"
  by (auto simp: lits_def)

lemma proof_not_answer_field: "PStr (lit ''receipt_proof'') \<notin> lits (answer_fields contract)"
  by (cases contract) (auto simp: lits_def answer_fields_def echo_fields_def REQUEST_FIELDS_def CENSUS_REQUEST_FIELDS_def
      PLAN_REQUEST_FIELDS_def COLLECTION_REQUEST_FIELDS_def CARD_VERSION_ECHO_FIELDS_def INVITATION_CENSUS_REQUEST_FIELDS_def)

lemma sign_Inr:
  assumes "sign_participant_answer printable v schema secret signer_id ts contract = Inr p"
  obtains key body sig where "answer_key secret = Inr key" "text_value printable schema" "text_value printable signer_id" "timestamp_match ts"
    "unsigned_answer printable v schema contract = Inr body"
    "answer_signature body (str_of schema) key (str_of signer_id) (str_of ts) = Inr sig"
    "p = [(PStr (lit ''service_id''), signer_id), (PStr (lit ''timestamp''), ts), (PStr (lit ''signature''), PStr sig)]"
  using assms by (auto simp: sign_participant_answer_def split: if_splits)

text \<open>The answer an endpoint sends: the unsigned body with its proof.\<close>

definition with_proof :: "pydict \<Rightarrow> pydict \<Rightarrow> pyval" where
  "with_proof d p = PDict (d @ [(PStr (lit ''receipt_proof''), PDict p)])"

lemma with_proof_snapshot:
  assumes d: "py_wf (PDict d)" "snapshot (PDict d) ''answer_malformed'' = Inr body" "PStr (lit ''receipt_proof'') \<notin> dkeys d"
    and p: "py_wf (PDict p)" "wire_check (PDict p) = Inr ()"
  obtains v where "snapshot (with_proof d p) ''answer_malformed'' = Inr v" "dkeys v = dkeys d \<union> {PStr (lit ''receipt_proof'')}"
    "filter (\<lambda>kv. fst kv \<noteq> PStr (lit ''receipt_proof'')) v = body" "dget v ''receipt_proof'' = Some (PDict (norm_dict p))"
proof -
  let ?e = "d @ [(PStr (lit ''receipt_proof''), PDict p)]"
  have wc: "wire_check (PDict d) = Inr ()" using d(2) by (auto elim: snapshot_Inr)
  have body: "body = norm_dict d" using snapshot_ok [OF d(1) wc, of "''answer_malformed''"] d(2) by simp
  have "encodable (lit ''receipt_proof'')" by (rule encodable_lit) simp
  then have "wire_check (PDict ?e) = Inr ()" using wc p(2) by (auto simp: wire_check_items_iff)
  moreover have wf: "py_wf (PDict ?e)" using d(1,3) p(1) by (auto simp: dkeys_def image_iff)
  ultimately have s: "snapshot (with_proof d p) ''answer_malformed'' = Inr (norm_dict ?e)" unfolding with_proof_def by (intro snapshot_ok)
  have "filter (\<lambda>kv. fst kv \<noteq> PStr (lit ''receipt_proof'')) ?e = d" using d(3) by (force simp: dkeys_def filter_id_conv)
  then have "filter (\<lambda>kv. fst kv \<noteq> PStr (lit ''receipt_proof'')) (norm_dict ?e) = body"
    using norm_dict_filter [of "\<lambda>k. k \<noteq> PStr (lit ''receipt_proof'')" ?e] body by simp
  moreover have "dget ?e ''receipt_proof'' = Some (PDict p)"
    using d(3) by (simp add: dget_def dkeys_def map_of_snoc del: map_of_append)
  then have "dget (norm_dict ?e) ''receipt_proof'' = Some (PDict (norm_dict p))"
    using dget_norm_dict [of ?e "''receipt_proof''"] wf by (simp add: norm_PDict)
  moreover have "dkeys (norm_dict ?e) = dkeys d \<union> {PStr (lit ''receipt_proof'')}" unfolding dkeys_norm_dict by (auto simp: dkeys_def)
  ultimately show ?thesis using that s by blast
qed

lemma signed_answer_run:
  assumes pr: "printable_ok printable"
    and sig: "sign_participant_answer printable (PDict d) schema secret signer_id ts contract = Inr p" and d: "py_wf (PDict d)"
    and aud: "dget d ''audience'' = Some (PStr audience)" and dir: "dget d ''direction'' = Some (PStr direction)"
    and rd: "request_digest printable request contract = Inr rd" "dget d ''request_digest'' = Some (PStr rd)"
    and fr: "frozen_request printable request contract = Inr frozen"
    and echo: "\<forall>f \<in> set (echo_fields contract). norm (dget_or d f PNone) = dget_or frozen f PNone"
    and now: "0 \<le> now" "now \<le> 10 ^ 20" "0 \<le> max_skew" "max_skew \<le> 300" "\<bar>now - int (digits_val (str_of ts))\<bar> \<le> max_skew"
    and res: "dget d ''result'' = Some (PDict result)"
  shows "verify_participant_answer printable (with_proof d p) schema secret signer_id (PStr audience) (PStr direction) request now max_skew contract
     = Inr (norm_dict result)"
proof -
  from sig obtain key body sg where s: "answer_key secret = Inr key" "text_value printable schema" "text_value printable signer_id"
    "timestamp_match ts" "unsigned_answer printable (PDict d) schema contract = Inr body"
    "answer_signature body (str_of schema) key (str_of signer_id) (str_of ts) = Inr sg"
    and p: "p = [(PStr (lit ''service_id''), signer_id), (PStr (lit ''timestamp''), ts), (PStr (lit ''signature''), PStr sg)]"
    by (rule sign_Inr)
  note u = unsigned_answer_Inr [OF s(5)]
  have ds: "distinct (map fst d)" using d by simp
  have body: "body = norm_dict d"
    using u(1) d by (auto elim!: snapshot_Inr simp del: py_wf.simps wire_check.simps)
  have "\<exists>k. sg = b64url (hmac_sha256 key k)"
    using answer_signature_ok [OF pr s(2,3,4) u(4), of key] snapshot_fixed(2,3) [OF u(1)] s(6) by auto
  then have sm: "signature_match (PStr sg)" using signature_match_own by auto
  obtain sv tv where st: "signer_id = PStr sv" "ts = PStr tv" using s(3,4) by (auto simp: text_value_def timestamp_match_def is_str_iff)
  have "encodable sv" "encodable tv" "encodable sg"
    using text_encodable [OF pr s(3)] timestamp_encodable [OF s(4)] signature_encodable [OF sm] st by simp_all
  moreover have "encodable (lit ''service_id'')" "encodable (lit ''timestamp'')" "encodable (lit ''signature'')"
    by (rule encodable_lit; simp)+
  ultimately have pw: "py_wf (PDict p)" "wire_check (PDict p) = Inr ()" unfolding p st by simp_all
  have "PStr (lit ''receipt_proof'') \<notin> dkeys d" using u(2) proof_not_answer_field [of contract] unfolding body by simp
  from with_proof_snapshot [OF d u(1) this pw] obtain v where v: "snapshot (with_proof d p) ''answer_malformed'' = Inr v"
    "dkeys v = dkeys d \<union> {PStr (lit ''receipt_proof'')}" "filter (\<lambda>kv. fst kv \<noteq> PStr (lit ''receipt_proof'')) v = body"
    "dget v ''receipt_proof'' = Some (PDict (norm_dict p))" .
  have vk: "dkeys v = lits (answer_fields contract @ [''receipt_proof''])"
    using v(2) u(2) by (simp add: body lits_append) (simp add: lits_def)
  have ub: "unsigned_answer printable (PDict body) schema contract = Inr body"
    using s(5) u(1) snapshot_fixed(1) [OF u(1)] by (simp add: unsigned_answer_def del: bindE_eq_Inr)
  have pg: "dget (norm_dict p) ''service_id'' = Some signer_id" "dget (norm_dict p) ''timestamp'' = Some ts"
    "dget (norm_dict p) ''signature'' = Some (PStr sg)" "dkeys (norm_dict p) = lits PROOF_FIELDS"
    using pw(1) by (simp_all add: dget_norm_dict) (simp_all add: p st dget_def dkeys_def lits_def PROOF_FIELDS_def)
  have rd': "request_digest printable (PDict frozen) contract = Inr rd"
    using rd(1) frozen_request_Inr(2) [OF fr] fr by (simp add: request_digest_def del: bindE_eq_Inr)
  have "dget_or body f PNone = dget_or frozen f PNone" if "f \<in> set (echo_fields contract)" for f
    using echo that ds by (simp add: body dget_or_norm)
  then have em: "echo_matches contract body frozen" by (simp add: echo_matches_def list_all_iff)
  have bg: "dget body ''audience'' = Some (PStr audience)" "dget body ''direction'' = Some (PStr direction)"
    "dget body ''request_digest'' = Some (PStr rd)" "dget body ''result'' = Some (PDict (norm_dict result))"
    using aud dir rd(2) res ds by (simp_all add: body dget_norm_dict norm_PDict)
  then have tx: "text_value printable (PStr audience)" "text_value printable (PStr direction)" using u(6,7) by (simp_all add: dget_or_def)
  show ?thesis
    unfolding verify_participant_answer_def Let_def
    using s fr v vk ub pg rd' em bg tx now sm
    by (simp add: dget_or_def del: bindE_eq_Inr)
qed


section \<open>A concrete exchange\<close>

definition ascii_printable :: "nat \<Rightarrow> bool" where
  "ascii_printable c \<longleftrightarrow> 32 \<le> c \<and> c < 127"

definition sample_request :: pydict where
  "sample_request = map (\<lambda>(k, v). (PStr (lit k), v))
     [(''request_echo'', PStr (replicate 32 97)), (''schema'', PStr (lit ''census.v1'')), (''scope'', PStr (lit ''project''))]"

definition sample_digest :: pystr where
  "sample_digest = projr (request_digest ascii_printable (PDict sample_request) INVITATION_CENSUS)"

definition sample_body :: pydict where
  "sample_body = map (\<lambda>(k, v). (PStr (lit k), v))
     [(''request_echo'', PStr (replicate 32 97)), (''scope'', PStr (lit ''project'')), (''schema'', PStr (lit ''answer.v1'')),
      (''direction'', PStr (lit ''to-board'')), (''audience'', PStr (lit ''board'')), (''request_digest'', PStr sample_digest),
      (''result'', PDict [(PStr (lit ''ok''), PBool True)])]"

abbreviation sample_secret :: "pystr + bytes" where
  "sample_secret \<equiv> Inr (replicate 32 7)"

lemma printable_sample: "printable_ok ascii_printable"
  by (auto simp: printable_ok_def ascii_printable_def is_surrogate_def)

lemma sample_request_facts:
  "py_wf (PDict sample_request)" "wire_check (PDict sample_request) = Inr ()" "norm_dict sample_request = sample_request"
  by (simp_all add: sample_request_def norm_dict_def) (simp_all add: lit_def is_surrogate_def)

lemma sample_frozen: "frozen_request ascii_printable (PDict sample_request) INVITATION_CENSUS = Inr sample_request"
proof -
  have "dkeys sample_request = lits INVITATION_CENSUS_REQUEST_FIELDS"
    by (auto simp: sample_request_def INVITATION_CENSUS_REQUEST_FIELDS_def dkeys_def lits_def)
  moreover have "text_value ascii_printable (dget_or sample_request ''schema'' PNone)" "echo_match (dget_or sample_request ''request_echo'' PNone)"
    by (simp_all add: sample_request_def dget_or_def dget_def)
      (simp_all add: text_value_def echo_match_def lit_def ascii_printable_def is_lower_hex_def list_all_iff)
  ultimately show ?thesis
    using snapshot_ok [OF sample_request_facts(1,2), of "''request_invalid''"] sample_request_facts(3)
    by (simp add: frozen_request_def del: bindE_eq_Inr)
qed

lemma sample_digest: "request_digest ascii_printable (PDict sample_request) INVITATION_CENSUS = Inr sample_digest" "is_digest sample_digest"
proof -
  obtain b where "canonical_json_bytes (PDict sample_request) = Inr b" using canonical_json_bytes_ok [OF sample_request_facts(2,1)] by blast
  then have "request_digest ascii_printable (PDict sample_request) INVITATION_CENSUS = Inr (sha256_hex b)"
    using sample_frozen by (simp add: request_digest_def)
  then show "request_digest ascii_printable (PDict sample_request) INVITATION_CENSUS = Inr sample_digest" "is_digest sample_digest"
    by (simp_all add: sample_digest_def sha256_hex_def)
qed

lemma sample_body_facts: "py_wf (PDict sample_body)" "wire_check (PDict sample_body) = Inr ()"
  using digest_encodable [OF sample_digest(2)]
  by (simp_all add: sample_body_def) (simp_all add: lit_def is_surrogate_def)

lemma sample_body_get:
  "dget sample_body ''audience'' = Some (PStr (lit ''board''))" "dget sample_body ''direction'' = Some (PStr (lit ''to-board''))"
  "dget sample_body ''request_digest'' = Some (PStr sample_digest)" "dget sample_body ''schema'' = Some (PStr (lit ''answer.v1''))"
  "dget sample_body ''request_echo'' = Some (PStr (replicate 32 97))" "dget sample_body ''scope'' = Some (PStr (lit ''project''))"
  "dget sample_body ''result'' = Some (PDict [(PStr (lit ''ok''), PBool True)])"
  by (simp_all add: sample_body_def dget_def)

lemma sample_texts: "text_value ascii_printable (PStr (lit ''answer.v1''))" "text_value ascii_printable (PStr (lit ''hub''))"
  "text_value ascii_printable (PStr (lit ''board''))" "text_value ascii_printable (PStr (lit ''to-board''))" "timestamp_match (PStr (lit ''1000''))"
  "echo_match (PStr (replicate 32 97))" "digits_val (lit ''1000'') = 1000"
  by (simp_all add: text_value_def lit_def ascii_printable_def timestamp_match_def is_digit_char_def echo_match_def is_lower_hex_def
      list_all_iff digits_val_def)

lemma sample_unsigned: "unsigned_answer ascii_printable (PDict sample_body) (PStr (lit ''answer.v1'')) INVITATION_CENSUS = Inr (norm_dict sample_body)"
proof -
  have k: "dkeys (norm_dict sample_body) = lits (answer_fields INVITATION_CENSUS)"
    unfolding dkeys_norm_dict
    by (auto simp: sample_body_def answer_fields_def echo_fields_def INVITATION_CENSUS_REQUEST_FIELDS_def dkeys_def lits_def)
  have ds: "distinct (map fst sample_body)" using sample_body_facts(1) by simp
  show ?thesis
    using snapshot_ok [OF sample_body_facts, of "''answer_malformed''"] k sample_texts sample_digest(2)
    by (simp add: unsigned_answer_def dget_norm_dict [OF ds] dget_or_norm [OF ds] sample_body_get del: bindE_eq_Inr)
      (simp add: dget_or_def sample_body_get)
qed

lemma sample_signed: "\<exists>p. sign_participant_answer ascii_printable (PDict sample_body) (PStr (lit ''answer.v1'')) sample_secret (PStr (lit ''hub''))
    (PStr (lit ''1000'')) INVITATION_CENSUS = Inr p"
proof -
  note u = unsigned_answer_Inr [OF sample_unsigned]
  have "\<exists>k. answer_signature (norm_dict sample_body) (str_of (PStr (lit ''answer.v1''))) (replicate 32 7) (str_of (PStr (lit ''hub''))) (str_of (PStr (lit ''1000'')))
      = Inr (b64url (hmac_sha256 (replicate 32 7) k))"
    by (rule answer_signature_ok [OF printable_sample sample_texts(1,2,5) u(4) snapshot_fixed(2,3) [OF u(1)]])
  then show ?thesis using sample_unsigned sample_texts by (auto simp: sign_participant_answer_def answer_key_def)
qed

lemma sample_echo: "\<forall>f \<in> set (echo_fields INVITATION_CENSUS). norm (dget_or sample_body f PNone) = dget_or sample_request f PNone"
  by (simp add: echo_fields_def INVITATION_CENSUS_REQUEST_FIELDS_def dget_or_def sample_body_get) (simp add: sample_request_def dget_def)

text \<open>
  C28. A signed answer verifies: for a body that \<open>sign_participant_answer\<close> accepts and that names the
  expected audience and direction, the digest of the frozen request and its echoed fields, the
  verifier with the same secret, given the body with its proof at a time within the skew, returns
  the body's result (with its dictionaries in key order).
\<close>

theorem signed_answer_verifies:
  assumes pr: "printable_ok printable"
    and sig: "sign_participant_answer printable (PDict d) schema secret signer_id ts contract = Inr p" and d: "py_wf (PDict d)"
    and aud: "dget d ''audience'' = Some (PStr audience)" and dir: "dget d ''direction'' = Some (PStr direction)"
    and rd: "request_digest printable request contract = Inr rd" "dget d ''request_digest'' = Some (PStr rd)"
    and fr: "frozen_request printable request contract = Inr frozen"
    and echo: "\<forall>f \<in> set (echo_fields contract). norm (dget_or d f PNone) = dget_or frozen f PNone"
    and now: "0 \<le> now" "now \<le> 10 ^ 20" "0 \<le> max_skew" "max_skew \<le> 300" "\<bar>now - int (digits_val (str_of ts))\<bar> \<le> max_skew"
    and res: "dget d ''result'' = Some (PDict result)"
  shows "verify_participant_answer printable (with_proof d p) schema secret signer_id (PStr audience) (PStr direction) request now max_skew contract
     = Inr (norm_dict result)"
  using assms by (rule signed_answer_run)

theorem signed_answer_verifies_witness:
  "\<exists>p. verify_participant_answer ascii_printable (with_proof sample_body p) (PStr (lit ''answer.v1'')) sample_secret (PStr (lit ''hub''))
     (PStr (lit ''board'')) (PStr (lit ''to-board'')) (PDict sample_request) 1010 300 INVITATION_CENSUS = Inr [(PStr (lit ''ok''), PBool True)]"
proof -
  obtain p where p: "sign_participant_answer ascii_printable (PDict sample_body) (PStr (lit ''answer.v1'')) sample_secret (PStr (lit ''hub''))
    (PStr (lit ''1000'')) INVITATION_CENSUS = Inr p" using sample_signed by blast
  from signed_answer_verifies [OF printable_sample p sample_body_facts(1) sample_body_get(1,2) sample_digest(1) sample_body_get(3) sample_frozen
      sample_echo, of 1010 300 "[(PStr (lit ''ok''), PBool True)]"]
  show ?thesis by (auto simp: sample_body_get sample_texts norm_dict_def)
qed


end
