(* ===== verification/Py_Text.thy ===== *)
theory Py_Text
  imports Json_Lemmas
begin

text \<open>
  The text Python makes of a value (\<open>str\<close>, \<open>repr\<close>), \<open>int(...)\<close> of a value, and the cleaning
  \<open>str(value or "").strip()\<close> the Connection Hub applies to nearly every field.

  \<open>repr\<close> of a text keeps every character beyond ASCII except surrogates (the program escapes the
  non-printable ones); it only matters for a container given where a text is expected. \<open>int(...)\<close> of
  an object that is not a JSON type counts as a \<open>TypeError\<close>.
\<close>

section \<open>str and repr\<close>

definition repr_char :: "nat \<Rightarrow> nat \<Rightarrow> pystr" where
  "repr_char q c =
     (if c = q \<or> c = 92 then [92, c] else if c = 10 then [92, 110] else if c = 13 then [92, 114]
      else if c = 9 then [92, 116]
      else if c < 32 \<or> c = 127 then [92, 120, hex_char (c div 16), hex_char (c mod 16)]
      else if is_surrogate c then u_escape c else [c])"

definition repr_str :: "pystr \<Rightarrow> pystr" where
  "repr_str s = (let q = (if 39 \<in> set s \<and> 34 \<notin> set s then 34 else 39) in q # concat (map (repr_char q) s) @ [q])"

fun join_comma_space :: "pystr list \<Rightarrow> pystr" where
  "join_comma_space [] = []"
| "join_comma_space [t] = t"
| "join_comma_space (t # ts) = t @ 44 # 32 # join_comma_space ts"

function py_repr :: "pyval \<Rightarrow> pystr"
  and py_repr_list :: "pyval list \<Rightarrow> pystr list"
  and py_repr_items :: "(pyval \<times> pyval) list \<Rightarrow> pystr list" where
  "py_repr PNone = lit ''None''"
| "py_repr (PBool b) = (if b then lit ''True'' else lit ''False'')"
| "py_repr (PInt i) = dec_int i"
| "py_repr (PStr s) = repr_str s"
| "py_repr (PList xs) = 91 # join_comma_space (py_repr_list xs) @ [93]"
| "py_repr (PTuple xs) = 40 # join_comma_space (py_repr_list xs) @ (if length xs = 1 then [44, 41] else [41])"
| "py_repr (PDict d) = 123 # join_comma_space (py_repr_items d) @ [125]"
| "py_repr (PFloat t _) = t"
| "py_repr (PObj t) = t"
| "py_repr_list [] = []"
| "py_repr_list (x # xs) = py_repr x # py_repr_list xs"
| "py_repr_items [] = []"
| "py_repr_items ((k, v) # d) = (py_repr k @ 58 # 32 # py_repr v) # py_repr_items d"
  by pat_completeness auto
termination
  by (relation "measure (case_sum size (case_sum (size_list size) (size_list (size_prod size size))))")
    (auto simp: size_list_estimation')

fun py_str :: "pyval \<Rightarrow> pystr" where
  "py_str (PStr s) = s"
| "py_str v = py_repr v"

text \<open>\<open>str(value or "").strip()\<close>\<close>

definition clean_text :: "pyval \<Rightarrow> pystr" where
  "clean_text v = py_strip (if truthy v then py_str v else [])"

lemma clean_text_PStr [simp]: "clean_text (PStr s) = py_strip s"
  by (auto simp: clean_text_def py_strip_def py_lstrip_def)

section \<open>int\<close>

text \<open>The digits of an integer literal: digits with single underscores between them.\<close>

fun int_digits :: "pystr \<Rightarrow> pystr option" where
  "int_digits [] = None"
| "int_digits [c] = (if is_digit_char c then Some [c] else None)"
| "int_digits (c # d # r) =
     (if \<not> is_digit_char c then None
      else map_option (Cons c) (int_digits (if d = 95 then r else d # r)))"

definition int_text :: "pystr \<Rightarrow> exn + int" where
  "int_text s = (let t = py_strip s;
       sg = (if t \<noteq> [] \<and> hd t = 45 then -1 else 1);
       u = (if t \<noteq> [] \<and> (hd t = 45 \<or> hd t = 43) then tl t else t)
     in case int_digits u of None \<Rightarrow> Inl (ValueError ''invalid literal for int()'')
        | Some ds \<Rightarrow> Inr (sg * int (digits_val ds)))"

fun py_int :: "pyval \<Rightarrow> exn + int" where
  "py_int (PInt i) = Inr i"
| "py_int (PBool b) = Inr (if b then 1 else 0)"
| "py_int (PStr s) = int_text s"
| "py_int (PFloat _ i) = Inr i"
| "py_int _ = Inl TypeError"

text \<open>\<open>int(value or 0)\<close>\<close>

definition int_or_zero :: "pyval \<Rightarrow> exn + int" where
  "int_or_zero v = (if truthy v then py_int v else Inr 0)"

lemma int_or_zero_PInt [simp]: "int_or_zero (PInt i) = Inr i"
  by (simp add: int_or_zero_def)

section \<open>Iteration, splitting and sorted distinct texts\<close>

text \<open>What \<open>for x in value\<close> visits: a text its characters, a dictionary its keys.\<close>

fun iter_of :: "pyval \<Rightarrow> exn + pyval list" where
  "iter_of (PList xs) = Inr xs"
| "iter_of (PTuple xs) = Inr xs"
| "iter_of (PStr s) = Inr (map (\<lambda>c. PStr [c]) s)"
| "iter_of (PDict d) = Inr (map fst d)"
| "iter_of _ = Inl TypeError"

text \<open>\<open>for x in (value or ())\<close>\<close>

definition iter_or_empty :: "pyval \<Rightarrow> exn + pyval list" where
  "iter_or_empty v = (if truthy v then iter_of v else Inr [])"

lemma split_shorter:
  assumes "dropWhile is_space s \<noteq> []"
  shows "length (dropWhile (\<lambda>c. \<not> is_space c) (dropWhile is_space s)) < length s"
proof -
  have "\<not> is_space (hd (dropWhile is_space s))" using assms by (rule hd_dropWhile)
  then have "length (dropWhile (\<lambda>c. \<not> is_space c) (dropWhile is_space s)) < length (dropWhile is_space s)"
    using assms by (cases "dropWhile is_space s") (auto simp: length_dropWhile_le le_imp_less_Suc)
  also have "\<dots> \<le> length s" by (rule length_dropWhile_le)
  finally show ?thesis .
qed

text \<open>\<open>str.split()\<close> at runs of white space.\<close>

function py_split :: "pystr \<Rightarrow> pystr list" where
  "py_split s = (let t = dropWhile is_space s
     in if t = [] then [] else takeWhile (\<lambda>c. \<not> is_space c) t # py_split (dropWhile (\<lambda>c. \<not> is_space c) t))"
  by pat_completeness auto
termination
  by (relation "measure length") (simp_all add: split_shorter)

declare py_split.simps [simp del]

text \<open>\<open>sorted({clean(x) for x in xs if clean(x)})\<close>\<close>

definition clean_sorted :: "pyval list \<Rightarrow> pystr list" where
  "clean_sorted xs = sorted_list_of_set (set (filter (\<lambda>t. t \<noteq> []) (map clean_text xs)))"

lemma set_clean_sorted: "set (clean_sorted xs) = {clean_text x |x. x \<in> set xs \<and> clean_text x \<noteq> []}"
  by (auto simp: clean_sorted_def)

lemma clean_text_idem [simp]: "py_strip (clean_text v) = clean_text v"
  by (simp add: clean_text_def)

lemma sorted_clean_sorted: "sorted (clean_sorted xs)" "distinct (clean_sorted xs)"
  by (simp_all add: clean_sorted_def)

lemma clean_sorted_PStr:
  assumes "sorted ts" "distinct ts" "\<forall>t \<in> set ts. py_strip t = t \<and> t \<noteq> []"
  shows "clean_sorted (map PStr ts) = ts"
proof -
  have "map (clean_text \<circ> PStr) ts = ts" using assms(3) by (intro map_idI) simp
  moreover have "filter (\<lambda>t. t \<noteq> []) ts = ts" using assms(3) by (simp add: filter_id_conv)
  ultimately show ?thesis using assms(1,2)
    by (simp add: clean_sorted_def sorted_list_of_set.idem_if_sorted_distinct)
qed

section \<open>Reading back a stored JSON object\<close>

text \<open>
  The value \<open>json.loads(json.dumps(v, sort_keys=True))\<close> returns: dictionaries in key order with text
  keys, tuples as lists, and in every text a high surrogate followed by a low one joined.
\<close>

fun join_surrogates :: "pystr \<Rightarrow> pystr" where
  "join_surrogates [] = []"
| "join_surrogates [c] = [c]"
| "join_surrogates (c # d # r) =
     (if 55296 \<le> c \<and> c \<le> 56319 \<and> 56320 \<le> d \<and> d \<le> 57343
      then (65536 + (c - 55296) * 1024 + (d - 56320)) # join_surrogates r
      else c # join_surrogates (d # r))"

fun key_name :: "pyval \<Rightarrow> pystr" where
  "key_name (PStr s) = s"
| "key_name (PInt i) = dec_int i"
| "key_name (PBool b) = (if b then lit ''true'' else lit ''false'')"
| "key_name _ = lit ''null''"

definition sort_items :: "(pyval \<times> 'a) list \<Rightarrow> (pyval \<times> 'a) list" where
  "sort_items es = (case sort_entries es of Inl _ \<Rightarrow> es | Inr es' \<Rightarrow> es')"

fun reread :: "pyval \<Rightarrow> pyval"
  and reread_list :: "pyval list \<Rightarrow> pyval list"
  and reread_items :: "(pyval \<times> pyval) list \<Rightarrow> (pyval \<times> pyval) list" where
  "reread (PStr s) = PStr (join_surrogates s)"
| "reread (PList xs) = PList (reread_list xs)"
| "reread (PTuple xs) = PList (reread_list xs)"
| "reread (PDict d) = PDict (fold (\<lambda>(k, v). dict_set (PStr (join_surrogates (key_name k))) v) (sort_items (reread_items d)) [])"
| "reread v = v"
| "reread_list [] = []"
| "reread_list (x # xs) = reread x # reread_list xs"
| "reread_items [] = []"
| "reread_items ((k, v) # d) = (k, reread v) # reread_items d"

section \<open>What reading back keeps\<close>

lemma join_surrogates_id: "(\<forall>c \<in> set s. \<not> is_surrogate c) \<Longrightarrow> join_surrogates s = s"
  by (induction s rule: join_surrogates.induct) (auto simp: is_surrogate_def)

lemma lit_small: "c \<in> set (lit s) \<Longrightarrow> c < 256"
  by (auto simp: lit_def of_char_of)

lemma join_surrogates_lit [simp]: "join_surrogates (lit s) = lit s"
  by (rule join_surrogates_id) (auto simp: is_surrogate_def dest: lit_small)

lemma join_surrogates_Nil [simp]: "join_surrogates s = [] \<longleftrightarrow> s = []"
  by (induction s rule: join_surrogates.induct) auto

lemma join_surrogates_length: "length (join_surrogates s) \<le> length s"
  by (induction s rule: join_surrogates.induct) auto

lemma reread_items_map: "reread_items d = map (\<lambda>(k, v). (k, reread v)) d"
  by (induction d) auto

lemma map_of_fold_dict_set:
  "map_of (fold (\<lambda>(k, v). dict_set (f k) v) es acc) = map_of acc ++ map_of (rev (map (\<lambda>(k, v). (f k, v)) es))"
proof (induction es arbitrary: acc)
  case (Cons e es)
  then show ?case by (cases e) (auto simp: map_add_def fun_eq_iff split: option.splits)
qed simp

lemma map_of_rev_distinct: "distinct (map fst xs) \<Longrightarrow> map_of (rev xs) = map_of xs"
  by (rule map_of_inject_set [THEN iffD2]) (simp_all flip: rev_map)

lemma reread_obj:
  assumes "distinct (map fst kvs)"
  shows "\<exists>d. reread (obj kvs) = PDict d \<and> (\<forall>k. dget d k = map_option reread (map_of kvs k))"
proof -
  let ?es = "map (\<lambda>(k, v). (PStr (lit k), reread v)) kvs"
  let ?ss = "sort_key (str_of \<circ> fst) ?es"
  let ?f = "\<lambda>k. PStr (join_surrogates (key_name k))"
  have 1: "reread_items (map (\<lambda>(k, v). (PStr (lit k), v)) kvs) = ?es"
    by (simp add: reread_items_map comp_def case_prod_unfold)
  have 2: "sort_items ?es = ?ss"
    by (simp add: sort_items_def sort_entries_def list_all_iff case_prod_unfold)
  have 3: "map (\<lambda>(k, v). (?f k, v)) ?ss = ?ss"
    by (rule map_idI) (auto simp: case_prod_unfold)
  have d: "distinct (map fst ?es)"
    using assms by (simp add: comp_def case_prod_unfold distinct_map inj_on_def)
  then have d': "distinct (map fst ?ss)" by (simp add: distinct_fst_sort_key)
  let ?r = "fold (\<lambda>(k, v). dict_set (?f k) v) ?ss []"
  have "map_of ?r = map_of ?es"
    unfolding map_of_fold_dict_set 3 using d d' by (simp add: map_of_rev_distinct map_of_sort_key)
  moreover have "map_of ?es (PStr (lit k)) = map_option reread (map_of kvs k)" for k
    by (induction kvs) auto
  moreover have "reread (obj kvs) = PDict ?r" by (simp add: obj_def 1 2)
  ultimately show ?thesis by (auto simp: dget_def)
qed

lemma is_space_small: "is_space c \<Longrightarrow> c < 12289" "is_space c \<Longrightarrow> \<not> is_surrogate c"
  by (auto simp: is_space_def is_surrogate_def)

lemma is_space_hd_join: "s \<noteq> [] \<Longrightarrow> is_space (hd (join_surrogates s)) \<longleftrightarrow> is_space (hd s)"
proof (induction s rule: join_surrogates.induct)
  case (3 c d r)
  show ?case
    using is_space_small [of c] is_space_small [of "65536 + (c - 55296) * 1024 + (d - 56320)"]
    by (auto simp: is_surrogate_def)
qed simp_all

lemma is_space_last_join: "s \<noteq> [] \<Longrightarrow> is_space (last (join_surrogates s)) \<longleftrightarrow> is_space (last s)"
proof (induction s rule: join_surrogates.induct)
  case (3 c d r)
  then show ?case
    using is_space_small [of d] is_space_small [of "65536 + (c - 55296) * 1024 + (d - 56320)"]
    by (cases "r = []") (auto simp: is_surrogate_def)
qed simp_all

lemma py_strip_fix: "py_strip s = s \<longleftrightarrow> s = [] \<or> (\<not> is_space (hd s) \<and> \<not> is_space (last s))"
proof
  assume a: "py_strip s = s"
  show "s = [] \<or> (\<not> is_space (hd s) \<and> \<not> is_space (last s))"
  proof (cases s)
    case (Cons c r)
    have l: "length (py_strip s) \<le> length (py_lstrip s)"
      using length_dropWhile_le [of is_space "rev (py_lstrip s)"] by (simp add: py_strip_def)
    have "\<not> is_space c"
    proof
      assume "is_space c"
      then have "length (py_lstrip s) < length s"
        using Cons by (simp add: py_lstrip_def length_dropWhile_le le_imp_less_Suc)
      with l a show False by simp
    qed
    then have "py_lstrip s = s" using Cons by (simp add: py_lstrip_def)
    then have "dropWhile is_space (rev s) = rev s" using a by (metis py_strip_def rev_rev_ident)
    then have "\<not> is_space (hd (rev s))" using Cons
      by (metis hd_dropWhile rev_is_Nil_conv list.distinct(1))
    then have "\<not> is_space (last s)" unfolding hd_rev .
    with Cons \<open>\<not> is_space c\<close> show ?thesis by simp
  qed simp
next
  assume "s = [] \<or> (\<not> is_space (hd s) \<and> \<not> is_space (last s))"
  then show "py_strip s = s"
    by (auto simp: py_strip_def py_lstrip_def dropWhile_hd_keep hd_rev)
qed

lemma py_strip_join: "py_strip s = s \<Longrightarrow> py_strip (join_surrogates s) = join_surrogates s"
  by (auto simp: py_strip_fix is_space_hd_join is_space_last_join)

section \<open>Values that have a JSON text\<close>

lemma bindE_ok: "is_ok (bindE m f) \<longleftrightarrow> (\<exists>x. m = Inr x \<and> is_ok (f x))"
  by (cases m) auto

lemma is_ok_iff: "is_ok m \<longleftrightarrow> (\<exists>x. m = Inr x)"
  by (cases m) auto

lemma dumps_items_ok: "(\<forall>(k, v) \<in> set d. is_str k \<and> is_ok (dumps a v)) \<Longrightarrow>
  \<exists>es. dumps_items a d = Inr es \<and> map fst es = map fst d"
proof (induction d)
  case (Cons kv d)
  obtain k v where kv: "kv = (k, v)" by force
  with Cons(2) obtain s t where "k = PStr s" "dumps a v = Inr t" by (auto simp: is_ok_iff is_str_iff)
  with Cons kv show ?case by auto
qed simp

lemma dumps_dict_ok: "(\<forall>(k, v) \<in> set d. is_str k \<and> is_ok (dumps a v)) \<Longrightarrow> is_ok (dumps a (PDict d))"
proof -
  assume a: "\<forall>(k, v) \<in> set d. is_str k \<and> is_ok (dumps a v)"
  from dumps_items_ok [OF this] obtain es where es: "dumps_items a d = Inr es" "map fst es = map fst d" by blast
  have "\<forall>k \<in> set (map fst es). is_str k" unfolding es(2) using a by auto
  then have "list_all (is_str \<circ> fst) es" by (simp add: list_all_iff)
  then show ?thesis by (simp add: es sort_entries_def)
qed

lemma set_fold_dict_set:
  "x \<in> set (fold (\<lambda>(k, v). dict_set (f k) v) es acc) \<Longrightarrow> x \<in> set acc \<or> (\<exists>(k, v) \<in> set es. x = (f k, v))"
proof (induction es arbitrary: acc)
  case (Cons e es)
  obtain k v where e: "e = (k, v)" by force
  from Cons(2) have "x \<in> set (fold (\<lambda>(k, v). dict_set (f k) v) es (dict_set (f k) v acc))" by (simp add: e)
  from Cons(1) [OF this] show ?case using set_dict_set [of x "f k" v acc] by (auto simp: e)
qed simp

lemma set_sort_items: "set (sort_items es) = set es"
  by (auto simp: sort_items_def sort_entries_def split: if_splits)

lemma dumps_items_values: "is_ok (dumps_items a d) \<Longrightarrow> (k, v) \<in> set d \<Longrightarrow> is_ok (dumps a v)"
  by (induction d) (auto simp: bindE_ok is_ok_iff)

lemma dumps_reread:
  "is_ok (dumps a v) \<Longrightarrow> is_ok (dumps a (reread v))"
  "is_ok (dumps_list a xs) \<Longrightarrow> is_ok (dumps_list a (reread_list xs))"
  "(\<forall>(k, v) \<in> set d. is_ok (dumps a v)) \<Longrightarrow> \<forall>(k, v) \<in> set (reread_items d). is_ok (dumps a v)"
proof (induction v and xs and d rule: reread_reread_list_reread_items.induct)
  case (4 d)
  have "is_ok (dumps_items a d)" using 4(2) by (auto simp: is_ok_iff)
  then have "\<forall>(k, v) \<in> set d. is_ok (dumps a v)" by (auto dest: dumps_items_values)
  from 4(1) [OF this] have v: "\<forall>(k, v) \<in> set (reread_items d). is_ok (dumps a v)" .
  show ?case unfolding reread.simps(4)
    by (rule dumps_dict_ok) (use v in \<open>auto dest!: set_fold_dict_set simp: set_sort_items\<close>)
qed (auto simp: is_ok_iff)

lemma dumps_obj_ok: "(\<forall>(k, v) \<in> set kvs. is_ok (dumps a v)) \<Longrightarrow> is_ok (dumps a (obj kvs))"
  unfolding obj_def by (rule dumps_dict_ok) auto

section \<open>Stored texts and faults\<close>

text \<open>
  A stored text is represented by the JSON value it parses to, or is no JSON. An operation on a store
  outside the process works, or fails before or after it took effect.
\<close>

datatype stored_file = Json pyval | Not_Json

datatype fault = No_Fault | Lost | Late

end
