(* ===== verification/Resource_Operations.thy ===== *)
theory Resource_Operations
  imports Py_Text
begin

text \<open>
  \<open>connection_hub/delegated_credentials/resource_operations.py\<close>: which operations a card allows on a
  resource. A card keeps a map from resource selectors to operations; a selector is matched against
  the requested resource by \<open>fnmatch\<close>, which is modelled after the standard library's translation of
  a shell pattern into a regular expression.

  A Python \<open>set\<close> given as a selection is outside the model (its elements have no order to list).
\<close>

section \<open>Selections and resources\<close>

definition string_tuple :: "pyval \<Rightarrow> exn + pystr list" where
  "string_tuple v =
     (case v of PNone \<Rightarrow> Inr []
      | PStr s \<Rightarrow> Inr (clean_sorted (map PStr (py_split (map (\<lambda>c. if c = 44 then 32 else c) s))))
      | PList xs \<Rightarrow> Inr (clean_sorted xs)
      | PTuple xs \<Rightarrow> Inr (clean_sorted xs)
      | _ \<Rightarrow> Inl (ValueError ''resource operation selection must be a list''))"

definition rstrip_slash :: "pystr \<Rightarrow> pystr" where
  "rstrip_slash s = rev (dropWhile (\<lambda>c. c = 47) (rev s))"

definition normalize_resource :: "pyval \<Rightarrow> pystr" where
  "normalize_resource v = rstrip_slash (takeWhile (\<lambda>c. c \<noteq> 63) (clean_text v))"

section \<open>fnmatch\<close>

text \<open>
  The pieces of a shell pattern. A set in brackets is a list of chunks: each character of a chunk is
  a member, and so is every character between the last of one chunk and the first of the next.
\<close>

datatype glob = GStar | GAny | GLit nat | GSet bool "pystr list" | GNever

text \<open>
  The text in brackets: up to the next closing bracket after the optional \<open>!\<close> and one character.
  \<open>None\<close> when there is none; the opening bracket then stands for itself.
\<close>

fun find_close :: "pystr \<Rightarrow> (pystr \<times> pystr) option" where
  "find_close [] = None"
| "find_close (c # r) = (if c = 93 then Some ([], r) else map_option (\<lambda>(a, b). (c # a, b)) (find_close r))"

definition bracket_rest :: "pystr \<Rightarrow> (pystr \<times> pystr) option" where
  "bracket_rest r = (case r of [] \<Rightarrow> None
     | c # q \<Rightarrow> if c = 93 then map_option (\<lambda>(a, b). (c # a, b)) (find_close q) else find_close r)"

definition bracket_text :: "pystr \<Rightarrow> (pystr \<times> pystr) option" where
  "bracket_text r = (case r of [] \<Rightarrow> None
     | c # q \<Rightarrow> if c = 33 then map_option (\<lambda>(a, b). (c # a, b)) (bracket_rest q) else bracket_rest r)"

text \<open>
  The chunks of a set: a hyphen separates two chunks when at least \<open>n\<close> characters stand before it;
  after the first chunk that is two. A hyphen at the very end belongs to the last chunk.
\<close>

function chunks_of :: "nat \<Rightarrow> pystr \<Rightarrow> pystr list" where
  "chunks_of n s =
     (let k = n + length (takeWhile (\<lambda>c. c \<noteq> 45) (drop n s))
      in if k < length s
         then (if drop (Suc k) s = [] then [take k s @ [45]] else take k s # chunks_of 2 (drop (Suc k) s))
         else [s])"
  by pat_completeness auto
termination
  by (relation "measure (\<lambda>(n, s). length s)") auto

declare chunks_of.simps [simp del]

text \<open>A range whose first end is greater than its second is removed, from the right.\<close>

fun merge_chunks :: "pystr list \<Rightarrow> pystr list" where
  "merge_chunks [] = []"
| "merge_chunks (c # cs) =
     (case merge_chunks cs of [] \<Rightarrow> [c]
      | d # ds \<Rightarrow> if c \<noteq> [] \<and> d \<noteq> [] \<and> hd d < last c then (butlast c @ tl d) # ds else c # d # ds)"

definition glob_set :: "pystr \<Rightarrow> glob" where
  "glob_set stuff =
     (let neg = (hd stuff = 33);
          chunks = (if 45 \<in> set stuff then merge_chunks (chunks_of (if neg then 2 else 1) stuff) else [stuff]);
          body = (if neg then tl (hd chunks) # tl chunks else chunks)
      in if body = [[]] then (if neg then GAny else GNever) else GSet neg body)"

lemma find_close_length: "find_close r = Some (a, b) \<Longrightarrow> length b < length r"
  by (induction r arbitrary: a) (auto split: if_splits)

lemma bracket_text_length: "bracket_text r = Some (a, b) \<Longrightarrow> length b < length r"
  by (auto simp: bracket_text_def bracket_rest_def split: list.splits if_splits dest!: find_close_length)

function translate :: "pystr \<Rightarrow> glob list" where
  "translate [] = []"
| "translate (c # r) =
     (if c = 42 then GStar # translate r
      else if c = 63 then GAny # translate r
      else if c = 91 then
        (case bracket_text r of None \<Rightarrow> GLit c # translate r
         | Some (stuff, q) \<Rightarrow> glob_set stuff # translate q)
      else GLit c # translate r)"
  by pat_completeness auto
termination
  by (relation "measure length") (auto dest: bracket_text_length)

fun in_chunks :: "pystr list \<Rightarrow> nat \<Rightarrow> bool" where
  "in_chunks [] c = False"
| "in_chunks [a] c = (c \<in> set a)"
| "in_chunks (a # b # cs) c =
     (c \<in> set a \<or> (a \<noteq> [] \<and> b \<noteq> [] \<and> last a \<le> c \<and> c \<le> hd b) \<or> in_chunks (b # cs) c)"

fun glob_char :: "glob \<Rightarrow> nat \<Rightarrow> bool" where
  "glob_char GAny c = True"
| "glob_char (GLit d) c = (c = d)"
| "glob_char (GSet neg chunks) c = (in_chunks chunks c \<noteq> neg)"
| "glob_char _ c = False"

fun glob_match :: "glob list \<Rightarrow> pystr \<Rightarrow> bool" where
  "glob_match [] s = (s = [])"
| "glob_match (GStar # ts) [] = glob_match ts []"
| "glob_match (GStar # ts) (c # s) = (glob_match ts (c # s) \<or> glob_match (GStar # ts) s)"
| "glob_match (t # ts) [] = False"
| "glob_match (t # ts) (c # s) = (glob_char t c \<and> glob_match ts s)"

definition fnmatch :: "pystr \<Rightarrow> pystr \<Rightarrow> bool" where
  "fnmatch name pat = glob_match (translate pat) name"

definition resource_matches :: "pyval \<Rightarrow> pyval \<Rightarrow> bool" where
  "resource_matches credential_resource request_resource =
     (let credential_resource = normalize_resource credential_resource;
          request_resource = normalize_resource request_resource
      in if credential_resource = [] \<or> request_resource = [] then False
         else credential_resource = request_resource \<or> fnmatch request_resource credential_resource)"

section \<open>Declared resources\<close>

text \<open>
  A row of the catalog. \<open>config.card_selector_config\<close> is a parameter: the function from a requested
  resource to the row that declares it, if any.
\<close>

record selector_row =
  sr_resource :: pyval
  sr_selector_type :: pyval

type_synonym selector_config = "pystr \<Rightarrow> selector_row option"

definition resolve_declared_resource :: "selector_config \<Rightarrow> pyval \<Rightarrow> pystr \<times> bool" where
  "resolve_declared_resource config resource =
     (let requested = clean_text resource;
          row = config requested;
          declared = (case row of None \<Rightarrow> [] | Some r \<Rightarrow> clean_text (sr_resource r));
          is_literal = (requested \<noteq> [] \<and> 42 \<notin> set requested \<and> 91 \<notin> set requested)
      in if (case row of None \<Rightarrow> [] | Some r \<Rightarrow> clean_text (sr_selector_type r)) = lit ''kdcube_secret''
         then (requested, is_literal)
         else if declared \<noteq> [] \<and> declared \<noteq> lit ''*'' \<and> declared \<noteq> requested then (declared, False)
         else (requested, is_literal))"

fun merge_values :: "pystr list \<Rightarrow> pyval list \<Rightarrow> pystr list" where
  "merge_values merged [] = merged"
| "merge_values merged (v # vs) =
     (let item = clean_text v
      in merge_values (if item \<noteq> [] \<and> item \<notin> set merged then merged @ [item] else merged) vs)"

definition get_list :: "pystr \<Rightarrow> (pystr \<times> pystr list) list \<Rightarrow> pystr list" where
  "get_list k d = (case map_of d k of None \<Rightarrow> [] | Some xs \<Rightarrow> xs)"

fun resolve_keys_loop ::
  "selector_config \<Rightarrow> pydict \<Rightarrow> (pystr \<times> pystr list) list \<Rightarrow> (pystr \<times> pystr) list
     \<Rightarrow> exn + (pystr \<times> pystr list) list \<times> (pystr \<times> pystr) list" where
  "resolve_keys_loop config [] resolved rewritten = Inr (resolved, rewritten)"
| "resolve_keys_loop config ((raw_resource, vs) # rest) resolved rewritten =
     (let resource = clean_text raw_resource
      in if resource = [] then resolve_keys_loop config rest resolved rewritten
         else let key = fst (resolve_declared_resource config (PStr resource));
                  rewritten' = (if key \<noteq> resource then dict_set resource key rewritten else rewritten)
              in bindE (iter_or_empty vs) (\<lambda>xs.
                   resolve_keys_loop config rest (dict_set key (merge_values (get_list key resolved) xs) resolved) rewritten'))"

definition resolve_declared_resource_keys ::
  "selector_config \<Rightarrow> pydict \<Rightarrow> exn + (pystr \<times> pystr list) list \<times> (pystr \<times> pystr) list" where
  "resolve_declared_resource_keys config resource_values = resolve_keys_loop config resource_values [] []"

section \<open>The operations of a card\<close>

fun normalize_loop :: "pydict \<Rightarrow> (pystr \<times> pystr list) list \<Rightarrow> exn + (pystr \<times> pystr list) list" where
  "normalize_loop [] out = Inr out"
| "normalize_loop ((raw_resource, operations) # rest) out =
     (let resource = clean_text raw_resource
      in if resource = [] then normalize_loop rest out
         else bindE (string_tuple operations) (\<lambda>ops. normalize_loop rest (dict_set resource ops out)))"

definition normalize_resource_operations :: "pyval \<Rightarrow> exn + (pystr \<times> pystr list) list" where
  "normalize_resource_operations v = (case v of PNone \<Rightarrow> Inr [] | PDict d \<Rightarrow> normalize_loop d []
     | _ \<Rightarrow> Inl (ValueError ''resource_operations must be an object''))"

definition normalize_resource_grants :: "pyval \<Rightarrow> exn + (pystr \<times> pystr list) list" where
  "normalize_resource_grants v = (case v of PNone \<Rightarrow> Inr [] | PDict d \<Rightarrow> normalize_loop d []
     | _ \<Rightarrow> Inl (ValueError ''resource_grants must be an object''))"

definition project_legacy_operations :: "pydict \<Rightarrow> pyval \<Rightarrow> exn + (pystr \<times> pystr list) list" where
  "project_legacy_operations resource_grants operations =
     bindE (iter_or_empty operations) (\<lambda>xs. bindE (string_tuple (PList xs)) (\<lambda>selected.
       let projected = fold (\<lambda>(k, _) out. if clean_text k = [] then out else dict_set (clean_text k) selected out)
                         resource_grants []
       in Inr (if projected = [] \<and> selected \<noteq> [] then [(lit ''*'', selected)] else projected)))"

fun union_values :: "pydict \<Rightarrow> exn + pyval list" where
  "union_values [] = Inr []"
| "union_values ((_, operations) # rest) =
     bindE (iter_or_empty operations) (\<lambda>xs. bindE (union_values rest) (\<lambda>ys. Inr (xs @ ys)))"

definition operation_union :: "pydict \<Rightarrow> exn + pystr list" where
  "operation_union resource_operations = bindE (union_values resource_operations) (\<lambda>xs. Inr (clean_sorted xs))"

definition operations_for_resource :: "pyval \<Rightarrow> pyval \<Rightarrow> pyval \<Rightarrow> exn + pystr list" where
  "operations_for_resource resource_operations request_resource matched_resource =
     bindE (normalize_resource_operations resource_operations) (\<lambda>normalized.
       let selected_key = clean_text matched_resource
       in if selected_key \<noteq> [] then
            (case map_of normalized selected_key of Some ops \<Rightarrow> Inr ops
             | None \<Rightarrow>
                (case find (\<lambda>(resource, _). normalize_resource (PStr resource) = normalize_resource (PStr selected_key)) normalized of
                   Some (_, ops) \<Rightarrow> Inr ops | None \<Rightarrow> Inr []))
          else Inr (sorted_list_of_set (\<Union>(resource, ops) \<in> set (filter (\<lambda>(resource, _). resource_matches (PStr resource) request_resource) normalized). set ops)))"

section \<open>What a selector matches\<close>

lemma translate_literal: "42 \<notin> set p \<Longrightarrow> 63 \<notin> set p \<Longrightarrow> 91 \<notin> set p \<Longrightarrow> translate (p @ q) = map GLit p @ translate q"
  by (induction p) auto

lemma glob_match_literal:
  "glob_match (map GLit p @ ts) s \<longleftrightarrow> (\<exists>r. s = p @ r \<and> glob_match ts r)"
proof (induction p arbitrary: s)
  case (Cons c p)
  then show ?case by (cases s) auto
qed simp

lemma glob_match_star: "glob_match [GStar] s"
  by (induction s) auto

lemma fnmatch_literal:
  assumes "42 \<notin> set p" "63 \<notin> set p" "91 \<notin> set p"
  shows "fnmatch s p \<longleftrightarrow> s = p" "fnmatch s (p @ [42]) \<longleftrightarrow> take (length p) s = p"
proof -
  show "fnmatch s p \<longleftrightarrow> s = p"
    using translate_literal [OF assms, of "[]"] glob_match_literal [of p "[]" s] by (auto simp: fnmatch_def)
  have "(\<exists>r. s = p @ r) \<longleftrightarrow> take (length p) s = p"
    by (metis append_eq_conv_conj append_take_drop_id)
  then show "fnmatch s (p @ [42]) \<longleftrightarrow> take (length p) s = p"
    using translate_literal [OF assms, of "[42]"] glob_match_literal [of p "[GStar]" s]
    by (simp add: fnmatch_def glob_match_star)
qed

lemma rstrip_slash_keep: "s = [] \<or> last s \<noteq> 47 \<Longrightarrow> rstrip_slash s = s"
  by (cases s rule: rev_cases) (auto simp: rstrip_slash_def)

lemma normalize_resource_no_query: "63 \<notin> set (normalize_resource v)"
proof -
  have "set (rstrip_slash s) \<subseteq> set s" for s
    using set_dropWhileD [of _ "\<lambda>c. c = 47" "rev s"] by (auto simp: rstrip_slash_def)
  then show ?thesis using set_takeWhileD [of 63 "\<lambda>c. c \<noteq> 63" "clean_text v"]
    unfolding normalize_resource_def by blast
qed

lemma literal_selector:
  assumes "42 \<notin> set p" "91 \<notin> set p" "normalize_resource c = p"
  shows "resource_matches c r \<longleftrightarrow> p \<noteq> [] \<and> normalize_resource r = p"
proof -
  have "63 \<notin> set p" using normalize_resource_no_query [of c] assms(3) by simp
  then have "fnmatch (normalize_resource r) p \<longleftrightarrow> normalize_resource r = p"
    using fnmatch_literal(1) assms by blast
  then show ?thesis unfolding resource_matches_def Let_def assms(3) by metis
qed

lemma star_selector:
  assumes "42 \<notin> set p" "91 \<notin> set p" "normalize_resource c = p @ [42]"
  shows "resource_matches c r \<longleftrightarrow> normalize_resource r \<noteq> [] \<and> take (length p) (normalize_resource r) = p"
proof -
  have "63 \<notin> set p" using normalize_resource_no_query [of c] assms(3) by simp
  then have "fnmatch (normalize_resource r) (p @ [42]) \<longleftrightarrow> take (length p) (normalize_resource r) = p"
    using fnmatch_literal(2) assms by blast
  moreover have "take (length p) (p @ [42]) = p" by simp
  ultimately show ?thesis unfolding resource_matches_def Let_def assms(3) by (metis snoc_eq_iff_butlast)
qed

text \<open>
  A selector without \<open>*\<close> and \<open>[\<close> admits exactly the requests that name the same resource once the
  query and trailing slashes are dropped, and a selector that is such a text followed by \<open>*\<close> admits
  exactly the non-empty requests that start with it: a card never covers a neighbouring resource.
\<close>

theorem selector_admits_exactly:
  assumes "42 \<notin> set p" "91 \<notin> set p"
  shows "(normalize_resource c = p \<longrightarrow> (resource_matches c r \<longleftrightarrow> p \<noteq> [] \<and> normalize_resource r = p))
    \<and> (normalize_resource c = p @ [42] \<longrightarrow>
        (resource_matches c r \<longleftrightarrow> normalize_resource r \<noteq> [] \<and> take (length p) (normalize_resource r) = p))"
  using literal_selector [OF assms] star_selector [OF assms] by blast

theorem selector_admits_exactly_witness:
  "resource_matches (PStr (lit ''https://h/mcp/'')) (PStr (lit ''https://h/mcp?x=1''))
   \<and> \<not> resource_matches (PStr (lit ''https://h/mcp'')) (PStr (lit ''https://h/mcp2''))
   \<and> resource_matches (PStr (lit ''https://h/*'')) (PStr (lit ''https://h/mcp''))"
proof -
  have n: "normalize_resource (PStr (lit ''https://h/mcp/'')) = lit ''https://h/mcp''"
    "normalize_resource (PStr (lit ''https://h/mcp'')) = lit ''https://h/mcp''"
    "normalize_resource (PStr (lit ''https://h/mcp?x=1'')) = lit ''https://h/mcp''"
    "normalize_resource (PStr (lit ''https://h/mcp2'')) = lit ''https://h/mcp2''"
    "normalize_resource (PStr (lit ''https://h/*'')) = lit ''https://h/'' @ [42]"
    by (simp_all add: normalize_resource_def rstrip_slash_def lit_def py_strip_def py_lstrip_def is_space_def)
  have p: "42 \<notin> set (lit ''https://h/mcp'')" "91 \<notin> set (lit ''https://h/mcp'')"
    "42 \<notin> set (lit ''https://h/'')" "91 \<notin> set (lit ''https://h/'')"
    by (simp_all add: lit_def)
  show ?thesis
    unfolding selector_admits_exactly [OF p(1,2), THEN conjunct1, rule_format, OF n(1)]
      selector_admits_exactly [OF p(1,2), THEN conjunct1, rule_format, OF n(2)]
      selector_admits_exactly [OF p(3,4), THEN conjunct2, rule_format, OF n(5)] n
    by (simp add: lit_def)
qed

section \<open>Declared resources\<close>



section \<open>The operations a request gets\<close>

lemma normalize_loop_map:
  "normalize_loop d out = Inr n \<Longrightarrow> distinct (map fst out) \<Longrightarrow>
     (\<forall>(k, ops) \<in> set out. k \<noteq> [] \<and> py_strip k = k \<and> sorted ops \<and> distinct ops \<and> (\<forall>t \<in> set ops. t \<noteq> [] \<and> py_strip t = t)) \<Longrightarrow>
   distinct (map fst n) \<and>
     (\<forall>(k, ops) \<in> set n. k \<noteq> [] \<and> py_strip k = k \<and> sorted ops \<and> distinct ops \<and> (\<forall>t \<in> set ops. t \<noteq> [] \<and> py_strip t = t))"
proof (induction d out rule: normalize_loop.induct)
  case (2 raw operations rest out)
  show ?case
  proof (cases "clean_text raw = []")
    case False
    with 2(3) obtain ops where ops: "string_tuple operations = Inr ops"
      "normalize_loop rest (dict_set (clean_text raw) ops out) = Inr n"
      by (auto simp: Let_def)
    have o: "\<exists>xs. ops = clean_sorted xs"
      using ops(1) clean_sorted_PStr [of "[]"] by (auto simp: string_tuple_def split: pyval.splits intro: sym)
    from set_dict_set [of _ "clean_text raw" ops out] 2(5) o False have "\<forall>(k, os) \<in> set (dict_set (clean_text raw) ops out). k \<noteq> [] \<and> py_strip k = k
        \<and> sorted os \<and> distinct os \<and> (\<forall>t \<in> set os. t \<noteq> [] \<and> py_strip t = t)"
      by (fastforce simp: sorted_clean_sorted set_clean_sorted)
    from 2(2) [OF refl False ops distinct_dict_set [OF 2(4)] this] show ?thesis .
  qed (use 2 in simp)
qed simp

text \<open>The maps \<open>normalize_resource_operations\<close> returns.\<close>

definition operations_map :: "(pystr \<times> pystr list) list \<Rightarrow> bool" where
  "operations_map n \<longleftrightarrow> distinct (map fst n) \<and>
     (\<forall>(k, ops) \<in> set n. k \<noteq> [] \<and> py_strip k = k \<and> sorted ops \<and> distinct ops \<and> (\<forall>t \<in> set ops. t \<noteq> [] \<and> py_strip t = t))"

lemma normalize_operations_map: "normalize_resource_operations v = Inr n \<Longrightarrow> operations_map n"
  using normalize_loop_map [of _ "[]" n]
  by (auto simp: normalize_resource_operations_def operations_map_def split: pyval.splits)

definition operations_value :: "(pystr \<times> pystr list) list \<Rightarrow> pyval" where
  "operations_value n = PDict (map (\<lambda>(k, ops). (PStr k, PTuple (map PStr ops))) n)"

lemma normalize_loop_again:
  "operations_map n \<Longrightarrow> set (map fst n) \<inter> set (map fst out) = {} \<Longrightarrow>
   normalize_loop (map (\<lambda>(k, ops). (PStr k, PTuple (map PStr ops))) n) out = Inr (out @ n)"
proof (induction n arbitrary: out)
  case (Cons kv n)
  obtain k ops where kv: "kv = (k, ops)" by force
  with Cons(2) have k: "k \<noteq> []" "py_strip k = k" "sorted ops" "distinct ops" "\<forall>t \<in> set ops. py_strip t = t \<and> t \<noteq> []"
    "operations_map n" "k \<notin> fst ` set n" by (auto simp: operations_map_def)
  with Cons(3) kv have "k \<notin> fst ` set out" by auto
  with Cons(1) [OF k(6), of "out @ [(k, ops)]"] Cons(3) kv k show ?case
    by (auto simp: Let_def string_tuple_def clean_sorted_PStr dict_set_fresh)
qed simp

text \<open>
  Normalising a card's operations gives one entry per resource, keys and operations stripped and
  non-empty, operations in order without repetition, and normalising the result again changes nothing.
\<close>

theorem normalized_operations_stable:
  assumes "normalize_resource_operations v = Inr n"
  shows "operations_map n \<and> normalize_resource_operations (operations_value n) = Inr n"
  using normalize_operations_map [OF assms] normalize_loop_again [of n "[]"]
  by (simp add: operations_value_def normalize_resource_operations_def)

theorem normalized_operations_stable_witness:
  "normalize_resource_operations (operations_value [(lit ''r'', [lit ''a'', lit ''b''])]) = Inr [(lit ''r'', [lit ''a'', lit ''b''])]"
proof -
  have "operations_map [(lit ''r'', [lit ''a'', lit ''b''])]"
    by (simp add: operations_map_def lit_def py_strip_def py_lstrip_def is_space_def)
  then have "normalize_resource_operations (PDict [(PStr (lit ''r''), PTuple [PStr (lit ''a''), PStr (lit ''b'')])])
      = Inr [(lit ''r'', [lit ''a'', lit ''b''])]"
    using normalize_loop_again [of "[(lit ''r'', [lit ''a'', lit ''b''])]" "[]"]
    by (simp add: normalize_resource_operations_def)
  from normalized_operations_stable [OF this] show ?thesis by simp
qed



end
