(* ===== verification/Invocation_Models.thy ===== *)
theory Invocation_Models
  imports Py_Text
begin

text \<open>
  \<open>connection_hub/invocation_policy/models.py\<close>: the records of the invocation policies. An authority
  names the exact operation a card grants; a policy says whether it may be used again and again or
  once; a policy change is the marker kept across a card change; a request permit is one approved
  invocation under a one-use policy; an invocation record is the idempotency record of one call.

  A dataclass is a record together with the function \<open>mk_...\<close>, which is its constructor with the checks
  of \<open>__post_init__\<close>; \<open>dataclasses.replace\<close> goes through the same function. A field that the checks
  leave as it was given (\<open>consumed_invocation_id\<close>, \<open>consumed_request_digest\<close>, \<open>policy_id\<close>) stays a Python
  value. Integer fields are integers: every caller in the repository passes \<open>int(...)\<close>.
\<close>

section \<open>Constants and text checks\<close>

definition INVOCATION_POLICY_SCHEMA :: pystr where
  "INVOCATION_POLICY_SCHEMA = lit ''connection_hub.invocation_policy.v1''"

definition INVOCATION_RECORD_SCHEMA :: pystr where
  "INVOCATION_RECORD_SCHEMA = lit ''connection_hub.invocation_record.v1''"

definition INVOCATION_POLICY_CHANGE_SCHEMA :: pystr where
  "INVOCATION_POLICY_CHANGE_SCHEMA = lit ''connection_hub.invocation_policy_change.v1''"

definition REQUEST_BOUND_PERMIT_SCHEMA :: pystr where
  "REQUEST_BOUND_PERMIT_SCHEMA = lit ''connection_hub.request_bound_permit.v1''"

datatype policy_mode = POLICY_ALWAYS | POLICY_ONCE

datatype policy_state = POLICY_AVAILABLE | POLICY_CONSUMED

datatype invocation_state = INVOCATION_RESERVED | INVOCATION_COMPLETED

datatype permit_state = REQUEST_PERMIT_AVAILABLE | REQUEST_PERMIT_CONSUMED

datatype change_state = POLICY_CHANGE_PREPARED | POLICY_CHANGE_COMMITTED

fun mode_text :: "policy_mode \<Rightarrow> pystr" where
  "mode_text POLICY_ALWAYS = lit ''always''" | "mode_text POLICY_ONCE = lit ''once''"

fun policy_state_text :: "policy_state \<Rightarrow> pystr" where
  "policy_state_text POLICY_AVAILABLE = lit ''available''" | "policy_state_text POLICY_CONSUMED = lit ''consumed''"

fun invocation_state_text :: "invocation_state \<Rightarrow> pystr" where
  "invocation_state_text INVOCATION_RESERVED = lit ''reserved''"
| "invocation_state_text INVOCATION_COMPLETED = lit ''completed''"

fun permit_state_text :: "permit_state \<Rightarrow> pystr" where
  "permit_state_text REQUEST_PERMIT_AVAILABLE = lit ''available''"
| "permit_state_text REQUEST_PERMIT_CONSUMED = lit ''consumed''"

fun change_state_text :: "change_state \<Rightarrow> pystr" where
  "change_state_text POLICY_CHANGE_PREPARED = lit ''prepared''"
| "change_state_text POLICY_CHANGE_COMMITTED = lit ''committed''"

text \<open>The sets \<open>POLICY_MODES\<close>, \<open>POLICY_STATES\<close>, ...: the member a text names.\<close>

definition member_of :: "('a \<Rightarrow> pystr) \<Rightarrow> 'a list \<Rightarrow> pystr \<Rightarrow> 'a option" where
  "member_of text_of xs t = find (\<lambda>x. text_of x = t) xs"

definition POLICY_MODES :: "pystr \<Rightarrow> policy_mode option" where
  "POLICY_MODES = member_of mode_text [POLICY_ALWAYS, POLICY_ONCE]"

definition POLICY_STATES :: "pystr \<Rightarrow> policy_state option" where
  "POLICY_STATES = member_of policy_state_text [POLICY_AVAILABLE, POLICY_CONSUMED]"

definition INVOCATION_STATES :: "pystr \<Rightarrow> invocation_state option" where
  "INVOCATION_STATES = member_of invocation_state_text [INVOCATION_RESERVED, INVOCATION_COMPLETED]"

definition REQUEST_PERMIT_STATES :: "pystr \<Rightarrow> permit_state option" where
  "REQUEST_PERMIT_STATES = member_of permit_state_text [REQUEST_PERMIT_AVAILABLE, REQUEST_PERMIT_CONSUMED]"

definition POLICY_CHANGE_STATES :: "pystr \<Rightarrow> change_state option" where
  "POLICY_CHANGE_STATES = member_of change_state_text [POLICY_CHANGE_PREPARED, POLICY_CHANGE_COMMITTED]"

text \<open>\<open>if value not in SET: raise ...\<close>, keeping the member.\<close>

definition member_or :: "'a option \<Rightarrow> string \<Rightarrow> exn + 'a" where
  "member_or x reason = (case x of None \<Rightarrow> Inl (InvocationPolicyRecordError reason) | Some y \<Rightarrow> Inr y)"

definition check_record :: "bool \<Rightarrow> string \<Rightarrow> exn + unit" where
  "check_record b reason = requireE b (InvocationPolicyRecordError reason)"

text \<open>\<open>[A-Za-z0-9_-]{1,128}\<close>\<close>

definition access_id_match :: "pystr \<Rightarrow> bool" where
  "access_id_match s \<longleftrightarrow> 1 \<le> length s \<and> length s \<le> 128 \<and> (\<forall>c \<in> set s. is_alnum c \<or> c = 95 \<or> c = 45)"

text \<open>\<open>[A-Za-z0-9][A-Za-z0-9._:/@~-]{0,255}\<close>\<close>

definition token_match :: "pystr \<Rightarrow> bool" where
  "token_match s \<longleftrightarrow> (case s of [] \<Rightarrow> False
     | c # r \<Rightarrow> is_alnum c \<and> length r \<le> 255
         \<and> (\<forall>d \<in> set r. is_alnum d \<or> d = 46 \<or> d = 95 \<or> d = 58 \<or> d = 47 \<or> d = 64 \<or> d = 126 \<or> d = 45))"

text \<open>The text has only ASCII characters (\<open>ensure_ascii\<close>), so its UTF-8 bytes are its code points.\<close>

definition canonical_json :: "pyval \<Rightarrow> exn + bytes" where
  "canonical_json v = (case dumps True v of
     Inl _ \<Rightarrow> Inl (InvocationPolicyRecordError ''request_not_canonical_json'') | Inr t \<Rightarrow> Inr (map word_of_nat t))"

definition canonical_request_digest :: "pyval \<Rightarrow> exn + pystr" where
  "canonical_request_digest v = bindE (canonical_json v) (\<lambda>b. Inr (sha256_hexdigest b))"

definition validated_request_digest :: "pyval \<Rightarrow> exn + pystr" where
  "validated_request_digest v =
     (let digest = py_lower (clean_text v)
      in if is_digest digest then Inr digest else Inl (InvocationPolicyRecordError ''request_digest_invalid''))"

definition validated_invocation_id :: "pyval \<Rightarrow> exn + pystr" where
  "validated_invocation_id v =
     (let invocation_id = clean_text v
      in if invocation_id = [] \<or> length invocation_id > 256 then Inl (InvocationPolicyRecordError ''invocation_id_invalid'')
         else if \<exists>c \<in> set invocation_id. c < 33 \<or> c > 126 then Inl (InvocationPolicyRecordError ''invocation_id_invalid'')
         else Inr invocation_id)"

section \<open>InvocationAuthority\<close>

record authority =
  ia_access_id :: pystr
  ia_resource :: pystr
  ia_surface :: pystr
  ia_operation :: pystr
  ia_provider_id :: pystr
  ia_account_id :: pystr

definition mk_authority :: "pyval \<Rightarrow> pyval \<Rightarrow> pyval \<Rightarrow> pyval \<Rightarrow> pyval \<Rightarrow> pyval \<Rightarrow> exn + authority" where
  "mk_authority access_id resource surface operation provider_id account_id =
     (let access_id = clean_text access_id;
          resource = clean_text resource;
          surface = py_lower (clean_text surface);
          operation = clean_text operation;
          provider_id = clean_text provider_id;
          account_id = clean_text account_id
      in bindE (check_record (access_id_match access_id) ''access_id_invalid'') (\<lambda>_.
         bindE (check_record (resource \<noteq> [] \<and> length resource \<le> 2048) ''resource_invalid'') (\<lambda>_.
         bindE (check_record (token_match surface) ''surface_invalid'') (\<lambda>_.
         bindE (check_record (operation \<noteq> [] \<and> length operation \<le> 512) ''operation_invalid'') (\<lambda>_.
         bindE (check_record ((provider_id \<noteq> []) = (account_id \<noteq> [])) ''account_binding_incomplete'') (\<lambda>_.
         bindE (check_record (provider_id = [] \<or> token_match provider_id) ''provider_id_invalid'') (\<lambda>_.
         bindE (check_record (account_id = [] \<or> length account_id \<le> 512) ''account_id_invalid'') (\<lambda>_.
         Inr \<lparr>ia_access_id = access_id, ia_resource = resource, ia_surface = surface, ia_operation = operation,
              ia_provider_id = provider_id, ia_account_id = account_id\<rparr>))))))))"

definition authority_from_mapping :: "pydict \<Rightarrow> exn + authority" where
  "authority_from_mapping d =
     (let account = (case dget d ''account'' of Some (PDict e) \<Rightarrow> e | _ \<Rightarrow> [])
      in mk_authority (dget_or d ''access_id'' (PStr [])) (dget_or d ''resource'' (PStr []))
           (dget_or d ''surface'' (PStr [])) (dget_or d ''operation'' (PStr []))
           (dget_or account ''provider_id'' (PStr [])) (dget_or account ''account_id'' (PStr [])))"

definition authority_to_dict :: "authority \<Rightarrow> pyval" where
  "authority_to_dict a = obj
     ([(''access_id'', PStr (ia_access_id a)), (''resource'', PStr (ia_resource a)),
       (''surface'', PStr (ia_surface a)), (''operation'', PStr (ia_operation a))]
      @ (if ia_provider_id a \<noteq> []
         then [(''account'', obj [(''provider_id'', PStr (ia_provider_id a)), (''account_id'', PStr (ia_account_id a))])]
         else []))"

text \<open>The property \<open>key\<close>. The dictionary is always canonical JSON (\<open>authority_key_ok\<close>).\<close>

definition authority_key :: "authority \<Rightarrow> pystr" where
  "authority_key a = (case canonical_json (authority_to_dict a) of Inl _ \<Rightarrow> [] | Inr b \<Rightarrow> sha256_hexdigest b)"

section \<open>InvocationPolicy\<close>

record policy =
  ip_authority :: authority
  ip_mode :: policy_mode
  ip_revision :: int
  ip_state :: policy_state
  ip_consumed_invocation_id :: pyval
  ip_consumed_request_digest :: pyval
  ip_consumed_at :: int
  ip_updated_at :: int

definition mk_policy ::
  "authority \<Rightarrow> pyval \<Rightarrow> int \<Rightarrow> pyval \<Rightarrow> pyval \<Rightarrow> pyval \<Rightarrow> int \<Rightarrow> int \<Rightarrow> exn + policy" where
  "mk_policy a mode revision state consumed_id consumed_digest consumed_at updated_at =
     bindE (member_or (POLICY_MODES (py_lower (clean_text mode))) ''policy_mode_invalid'') (\<lambda>m.
     bindE (member_or (POLICY_STATES (py_lower (clean_text state))) ''policy_state_invalid'') (\<lambda>st.
     bindE (check_record (1 \<le> revision) ''policy_revision_invalid'') (\<lambda>_.
     bindE (check_record (m = POLICY_ALWAYS \<longrightarrow> st = POLICY_AVAILABLE) ''reusable_policy_state_invalid'') (\<lambda>_.
     bindE (if st = POLICY_CONSUMED
            then bindE (validated_invocation_id consumed_id) (\<lambda>_.
                 bindE (validated_request_digest consumed_digest) (\<lambda>_.
                 check_record (1 \<le> consumed_at) ''consumed_at_invalid''))
            else Inr ()) (\<lambda>_.
     Inr \<lparr>ip_authority = a, ip_mode = m, ip_revision = revision, ip_state = st,
          ip_consumed_invocation_id = consumed_id, ip_consumed_request_digest = consumed_digest,
          ip_consumed_at = consumed_at, ip_updated_at = updated_at\<rparr>)))))"

definition policy_id :: "policy \<Rightarrow> pystr" where
  "policy_id p = lit ''invpol_'' @ take 24 (authority_key (ip_authority p))"

definition remaining :: "policy \<Rightarrow> int option" where
  "remaining p = (if ip_mode p = POLICY_ALWAYS then None else Some (if ip_state p = POLICY_CONSUMED then 0 else 1))"

text \<open>The check every \<open>from_mapping\<close> starts with: the schema, and the authority object.\<close>

definition schema_authority :: "pydict \<Rightarrow> pystr \<Rightarrow> string \<Rightarrow> string \<Rightarrow> exn + authority" where
  "schema_authority d schema schema_reason authority_reason =
     bindE (check_record (clean_text (dget_or d ''schema'' PNone) = schema) schema_reason) (\<lambda>_.
       case dget d ''authority'' of Some (PDict e) \<Rightarrow> authority_from_mapping e
       | _ \<Rightarrow> Inl (InvocationPolicyRecordError authority_reason))"

definition policy_from_mapping :: "pydict \<Rightarrow> exn + policy" where
  "policy_from_mapping d =
     bindE (schema_authority d INVOCATION_POLICY_SCHEMA ''policy_schema_mismatch'' ''policy_authority_invalid'') (\<lambda>a.
     bindE (int_or_zero (dget_or d ''revision'' PNone)) (\<lambda>revision.
     bindE (int_or_zero (dget_or d ''consumed_at'' PNone)) (\<lambda>consumed_at.
     bindE (int_or_zero (dget_or d ''updated_at'' PNone)) (\<lambda>updated_at.
       mk_policy a (dget_or d ''mode'' (PStr [])) revision
         (dget_or d ''state'' (PStr (policy_state_text POLICY_AVAILABLE)))
         (dget_or d ''consumed_invocation_id'' (PStr [])) (dget_or d ''consumed_request_digest'' (PStr []))
         consumed_at updated_at))))"

definition policy_items :: "policy \<Rightarrow> (string \<times> pyval) list" where
  "policy_items p =
     [(''schema'', PStr INVOCATION_POLICY_SCHEMA), (''policy_id'', PStr (policy_id p)),
      (''authority'', authority_to_dict (ip_authority p)), (''mode'', PStr (mode_text (ip_mode p))),
      (''revision'', PInt (ip_revision p)), (''state'', PStr (policy_state_text (ip_state p))),
      (''remaining'', case remaining p of None \<Rightarrow> PNone | Some n \<Rightarrow> PInt n), (''updated_at'', PInt (ip_updated_at p))]
     @ (if ip_state p = POLICY_CONSUMED
        then [(''consumed_invocation_id'', ip_consumed_invocation_id p),
              (''consumed_request_digest'', ip_consumed_request_digest p), (''consumed_at'', PInt (ip_consumed_at p))]
        else [])"

definition policy_to_dict :: "policy \<Rightarrow> pyval" where
  "policy_to_dict p = obj (policy_items p)"

definition policy_to_public_dict :: "policy \<Rightarrow> pyval" where
  "policy_to_public_dict p = obj (filter (\<lambda>kv. fst kv \<noteq> ''consumed_request_digest'') (policy_items p))"

section \<open>InvocationPolicyChange\<close>

record policy_change =
  pc_authority :: authority
  pc_change_id :: pystr
  pc_mode :: policy_mode
  pc_state :: change_state
  pc_expected_policy_revision :: int
  pc_policy_revision :: int
  pc_prepared_at :: int
  pc_committed_at :: int

definition mk_policy_change ::
  "authority \<Rightarrow> pyval \<Rightarrow> pyval \<Rightarrow> pyval \<Rightarrow> int \<Rightarrow> int \<Rightarrow> int \<Rightarrow> int \<Rightarrow> exn + policy_change" where
  "mk_policy_change a change_id mode state expected_revision policy_revision prepared_at committed_at =
     bindE (validated_invocation_id change_id) (\<lambda>cid.
     bindE (member_or (POLICY_MODES (py_lower (clean_text mode))) ''policy_mode_invalid'') (\<lambda>m.
     bindE (member_or (POLICY_CHANGE_STATES (py_lower (clean_text state))) ''policy_change_state_invalid'') (\<lambda>st.
     bindE (check_record (0 \<le> expected_revision \<and> 0 \<le> policy_revision) ''policy_revision_invalid'') (\<lambda>_.
     bindE (check_record (1 \<le> prepared_at) ''policy_change_prepared_at_invalid'') (\<lambda>_.
     bindE (if st = POLICY_CHANGE_PREPARED
            then check_record (policy_revision = 0 \<and> committed_at = 0) ''policy_change_not_committed''
            else check_record (policy_revision = expected_revision + 1 \<and> prepared_at \<le> committed_at)
                   ''policy_change_commit_invalid'') (\<lambda>_.
     Inr \<lparr>pc_authority = a, pc_change_id = cid, pc_mode = m, pc_state = st,
          pc_expected_policy_revision = expected_revision, pc_policy_revision = policy_revision,
          pc_prepared_at = prepared_at, pc_committed_at = committed_at\<rparr>))))))"

definition change_from_mapping :: "pydict \<Rightarrow> exn + policy_change" where
  "change_from_mapping d =
     bindE (schema_authority d INVOCATION_POLICY_CHANGE_SCHEMA ''policy_change_schema_mismatch''
              ''policy_change_authority_invalid'') (\<lambda>a.
     bindE (int_or_zero (dget_or d ''expected_policy_revision'' PNone)) (\<lambda>expected_revision.
     bindE (int_or_zero (dget_or d ''policy_revision'' PNone)) (\<lambda>policy_revision.
     bindE (int_or_zero (dget_or d ''prepared_at'' PNone)) (\<lambda>prepared_at.
     bindE (int_or_zero (dget_or d ''committed_at'' PNone)) (\<lambda>committed_at.
       mk_policy_change a (dget_or d ''change_id'' (PStr [])) (dget_or d ''mode'' (PStr []))
         (dget_or d ''state'' (PStr [])) expected_revision policy_revision prepared_at committed_at)))))"

definition change_to_dict :: "policy_change \<Rightarrow> pyval" where
  "change_to_dict c = obj
     [(''schema'', PStr INVOCATION_POLICY_CHANGE_SCHEMA), (''authority'', authority_to_dict (pc_authority c)),
      (''change_id'', PStr (pc_change_id c)), (''mode'', PStr (mode_text (pc_mode c))),
      (''state'', PStr (change_state_text (pc_state c))),
      (''expected_policy_revision'', PInt (pc_expected_policy_revision c)),
      (''policy_revision'', PInt (pc_policy_revision c)), (''prepared_at'', PInt (pc_prepared_at c)),
      (''committed_at'', PInt (pc_committed_at c))]"

section \<open>RequestBoundPermit\<close>

record permit =
  rp_authority :: authority
  rp_invocation_id :: pystr
  rp_request_digest :: pystr
  rp_card_revision :: int
  rp_authority_revision :: pystr
  rp_policy_revision :: int
  rp_revision :: int
  rp_state :: permit_state
  rp_issued_at :: int
  rp_expires_at :: int
  rp_consumed_at :: int

definition mk_permit ::
  "authority \<Rightarrow> pyval \<Rightarrow> pyval \<Rightarrow> int \<Rightarrow> pyval \<Rightarrow> int \<Rightarrow> int \<Rightarrow> pyval \<Rightarrow> int \<Rightarrow> int \<Rightarrow> int \<Rightarrow> exn + permit" where
  "mk_permit a invocation_id request_digest card_revision authority_revision policy_revision revision state
     issued_at expires_at consumed_at =
     bindE (validated_invocation_id invocation_id) (\<lambda>iid.
     bindE (validated_request_digest request_digest) (\<lambda>digest.
     bindE (member_or (REQUEST_PERMIT_STATES (py_lower (clean_text state))) ''request_permit_state_invalid'') (\<lambda>st.
     bindE (check_record (1 \<le> card_revision) ''request_permit_card_revision_invalid'') (\<lambda>_.
     bindE (check_record (clean_text authority_revision \<noteq> []) ''request_permit_authority_revision_missing'') (\<lambda>_.
     bindE (check_record (1 \<le> policy_revision \<and> 1 \<le> revision) ''request_permit_revision_invalid'') (\<lambda>_.
     bindE (check_record (1 \<le> issued_at \<and> issued_at < expires_at) ''request_permit_expiry_invalid'') (\<lambda>_.
     bindE (check_record (st = REQUEST_PERMIT_AVAILABLE \<longrightarrow> consumed_at = 0) ''request_permit_not_consumed'') (\<lambda>_.
     bindE (check_record (st = REQUEST_PERMIT_CONSUMED \<longrightarrow> issued_at \<le> consumed_at)
              ''request_permit_consumption_invalid'') (\<lambda>_.
     Inr \<lparr>rp_authority = a, rp_invocation_id = iid, rp_request_digest = digest, rp_card_revision = card_revision,
          rp_authority_revision = clean_text authority_revision, rp_policy_revision = policy_revision,
          rp_revision = revision, rp_state = st, rp_issued_at = issued_at, rp_expires_at = expires_at,
          rp_consumed_at = consumed_at\<rparr>)))))))))"

definition permit_from_mapping :: "pydict \<Rightarrow> exn + permit" where
  "permit_from_mapping d =
     bindE (schema_authority d REQUEST_BOUND_PERMIT_SCHEMA ''request_permit_schema_mismatch''
              ''request_permit_authority_invalid'') (\<lambda>a.
     bindE (int_or_zero (dget_or d ''card_revision'' PNone)) (\<lambda>card_revision.
     bindE (int_or_zero (dget_or d ''policy_revision'' PNone)) (\<lambda>policy_revision.
     bindE (int_or_zero (dget_or d ''revision'' PNone)) (\<lambda>revision.
     bindE (int_or_zero (dget_or d ''issued_at'' PNone)) (\<lambda>issued_at.
     bindE (int_or_zero (dget_or d ''expires_at'' PNone)) (\<lambda>expires_at.
     bindE (int_or_zero (dget_or d ''consumed_at'' PNone)) (\<lambda>consumed_at.
       mk_permit a (dget_or d ''invocation_id'' (PStr [])) (dget_or d ''request_digest'' (PStr [])) card_revision
         (dget_or d ''authority_revision'' (PStr [])) policy_revision revision (dget_or d ''state'' (PStr []))
         issued_at expires_at consumed_at)))))))"

definition permit_items :: "permit \<Rightarrow> (string \<times> pyval) list" where
  "permit_items r =
     [(''schema'', PStr REQUEST_BOUND_PERMIT_SCHEMA), (''authority'', authority_to_dict (rp_authority r)),
      (''invocation_id'', PStr (rp_invocation_id r)), (''request_digest'', PStr (rp_request_digest r)),
      (''card_revision'', PInt (rp_card_revision r)), (''authority_revision'', PStr (rp_authority_revision r)),
      (''policy_revision'', PInt (rp_policy_revision r)), (''revision'', PInt (rp_revision r)),
      (''state'', PStr (permit_state_text (rp_state r))), (''issued_at'', PInt (rp_issued_at r)),
      (''expires_at'', PInt (rp_expires_at r)), (''consumed_at'', PInt (rp_consumed_at r))]"

definition permit_to_dict :: "permit \<Rightarrow> pyval" where
  "permit_to_dict r = obj (permit_items r)"

definition permit_to_public_dict :: "permit \<Rightarrow> pyval" where
  "permit_to_public_dict r = obj (filter (\<lambda>kv. fst kv \<noteq> ''request_digest'') (permit_items r))"

section \<open>InvocationRecord\<close>

record invocation =
  ir_authority :: authority
  ir_invocation_id :: pystr
  ir_request_digest :: pystr
  ir_policy_id :: pyval
  ir_policy_revision :: int
  ir_policy_mode :: policy_mode
  ir_state :: invocation_state
  ir_card_revision :: int
  ir_authority_revision :: pystr
  ir_request_permit_revision :: int
  ir_result :: pyval
  ir_result_is_error :: bool
  ir_created_at :: int
  ir_completed_at :: int

definition mk_invocation ::
  "authority \<Rightarrow> pyval \<Rightarrow> pyval \<Rightarrow> pyval \<Rightarrow> int \<Rightarrow> pyval \<Rightarrow> pyval \<Rightarrow> int \<Rightarrow> pystr \<Rightarrow> int \<Rightarrow> pyval \<Rightarrow> bool \<Rightarrow> int \<Rightarrow> int
     \<Rightarrow> exn + invocation" where
  "mk_invocation a invocation_id request_digest pid policy_revision policy_mode state card_revision
     authority_revision request_permit_revision result result_is_error created_at completed_at =
     bindE (validated_invocation_id invocation_id) (\<lambda>iid.
     bindE (validated_request_digest request_digest) (\<lambda>digest.
     bindE (member_or (INVOCATION_STATES (py_lower (clean_text state))) ''invocation_state_invalid'') (\<lambda>st.
     bindE (member_or (POLICY_MODES (py_lower (clean_text policy_mode))) ''policy_mode_invalid'') (\<lambda>m.
     bindE (check_record (st = INVOCATION_COMPLETED \<longrightarrow> 1 \<le> completed_at) ''invocation_completed_at_invalid'') (\<lambda>_.
     bindE (canonical_json result) (\<lambda>_.
     Inr \<lparr>ir_authority = a, ir_invocation_id = iid, ir_request_digest = digest, ir_policy_id = pid,
          ir_policy_revision = policy_revision, ir_policy_mode = m, ir_state = st,
          ir_card_revision = max 0 card_revision, ir_authority_revision = authority_revision,
          ir_request_permit_revision = max 0 request_permit_revision, ir_result = result,
          ir_result_is_error = result_is_error, ir_created_at = created_at, ir_completed_at = completed_at\<rparr>))))))"

definition invocation_from_mapping :: "pydict \<Rightarrow> exn + invocation" where
  "invocation_from_mapping d =
     bindE (schema_authority d INVOCATION_RECORD_SCHEMA ''invocation_schema_mismatch''
              ''invocation_authority_invalid'') (\<lambda>a.
     bindE (int_or_zero (dget_or d ''policy_revision'' PNone)) (\<lambda>policy_revision.
     bindE (int_or_zero (dget_or d ''card_revision'' PNone)) (\<lambda>card_revision.
     bindE (int_or_zero (dget_or d ''request_permit_revision'' PNone)) (\<lambda>request_permit_revision.
     bindE (int_or_zero (dget_or d ''created_at'' PNone)) (\<lambda>created_at.
     bindE (int_or_zero (dget_or d ''completed_at'' PNone)) (\<lambda>completed_at.
       mk_invocation a (dget_or d ''invocation_id'' (PStr [])) (dget_or d ''request_digest'' (PStr []))
         (dget_or d ''policy_id'' (PStr [])) policy_revision (dget_or d ''policy_mode'' (PStr []))
         (dget_or d ''state'' (PStr [])) card_revision (clean_text (dget_or d ''authority_revision'' PNone))
         request_permit_revision (dget_or d ''result'' PNone) (truthy (dget_or d ''result_is_error'' (PBool False)))
         created_at completed_at))))))"

definition invocation_to_dict :: "invocation \<Rightarrow> pyval" where
  "invocation_to_dict r = obj
     [(''schema'', PStr INVOCATION_RECORD_SCHEMA), (''authority'', authority_to_dict (ir_authority r)),
      (''invocation_id'', PStr (ir_invocation_id r)), (''request_digest'', PStr (ir_request_digest r)),
      (''policy_id'', ir_policy_id r), (''policy_revision'', PInt (ir_policy_revision r)),
      (''policy_mode'', PStr (mode_text (ir_policy_mode r))), (''state'', PStr (invocation_state_text (ir_state r))),
      (''card_revision'', PInt (ir_card_revision r)), (''authority_revision'', PStr (ir_authority_revision r)),
      (''request_permit_revision'', PInt (ir_request_permit_revision r)), (''result'', ir_result r),
      (''result_is_error'', PBool (ir_result_is_error r)), (''created_at'', PInt (ir_created_at r)),
      (''completed_at'', PInt (ir_completed_at r))]"

section \<open>InvocationDecision\<close>

record decision =
  id_allowed :: bool
  id_reason :: string
  id_dispatch :: bool
  id_replay :: bool
  id_retryable :: bool
  id_policy :: "policy option"
  id_invocation :: "invocation option"
  id_request_permit :: "permit option"

text \<open>The constructor with its defaults: a decision with nothing but the first three fields.\<close>

definition mk_decision :: "bool \<Rightarrow> string \<Rightarrow> bool \<Rightarrow> decision" where
  "mk_decision allowed reason dispatch = \<lparr>id_allowed = allowed, id_reason = reason, id_dispatch = dispatch,
     id_replay = False, id_retryable = False, id_policy = None, id_invocation = None, id_request_permit = None\<rparr>"

definition decision_result :: "decision \<Rightarrow> pyval" where
  "decision_result d = (case id_invocation d of None \<Rightarrow> PNone | Some r \<Rightarrow> ir_result r)"

definition decision_result_is_error :: "decision \<Rightarrow> bool" where
  "decision_result_is_error d = (case id_invocation d of None \<Rightarrow> False | Some r \<Rightarrow> ir_result_is_error r)"

definition decision_to_dict :: "decision \<Rightarrow> pyval" where
  "decision_to_dict d = obj
     ([(''allowed'', PBool (id_allowed d)), (''reason'', PStr (lit (id_reason d))), (''dispatch'', PBool (id_dispatch d)),
       (''replay'', PBool (id_replay d)), (''retryable'', PBool (id_retryable d))]
      @ (case id_policy d of None \<Rightarrow> [] | Some p \<Rightarrow> [(''policy'', policy_to_public_dict p)])
      @ (case id_invocation d of None \<Rightarrow> []
         | Some r \<Rightarrow> [(''invocation'', obj
             [(''invocation_id'', PStr (ir_invocation_id r)), (''state'', PStr (invocation_state_text (ir_state r))),
              (''policy_revision'', PInt (ir_policy_revision r)), (''card_revision'', PInt (ir_card_revision r)),
              (''authority_revision'', PStr (ir_authority_revision r)),
              (''request_permit_revision'', PInt (ir_request_permit_revision r))])])
      @ (case id_request_permit d of None \<Rightarrow> [] | Some p \<Rightarrow> [(''request_permit'', permit_to_public_dict p)]))"

section \<open>Well-formed records\<close>

lemmas record_checks = check_record_def bindE_requireE

lemma member_of_texts [simp]:
  "POLICY_MODES (mode_text m) = Some m" "POLICY_STATES (policy_state_text ps) = Some ps"
  "INVOCATION_STATES (invocation_state_text st) = Some st" "REQUEST_PERMIT_STATES (permit_state_text rs) = Some rs"
  "POLICY_CHANGE_STATES (change_state_text cs) = Some cs"
  by (cases m; cases ps; cases st; cases rs; cases cs;
      simp add: POLICY_MODES_def POLICY_STATES_def INVOCATION_STATES_def REQUEST_PERMIT_STATES_def
        POLICY_CHANGE_STATES_def member_of_def)+

lemma member_or_simps [simp]: "member_or (Some x) r = Inr x" "member_or y r = Inr x \<longleftrightarrow> y = Some x"
  by (auto simp: member_or_def split: option.splits)

definition plain_text :: "pystr \<Rightarrow> bool" where
  "plain_text t \<longleftrightarrow> py_strip t = t \<and> py_lower t = t \<and> join_surrogates t = t"

lemma state_texts_plain:
  "plain_text (mode_text m)" "plain_text (policy_state_text ps)" "plain_text (invocation_state_text st)"
  "plain_text (permit_state_text rs)" "plain_text (change_state_text cs)"
  by (cases m; cases ps; cases st; cases rs; cases cs;
      simp add: plain_text_def lit_def py_strip_def py_lstrip_def is_space_def py_lower_def lower_char_def)+

lemma plain_textD [simp]: "plain_text t \<Longrightarrow> py_strip t = t" "plain_text t \<Longrightarrow> py_lower t = t" "plain_text t \<Longrightarrow> join_surrogates t = t"
  by (simp_all add: plain_text_def)

declare mode_text.simps [simp del] policy_state_text.simps [simp del] invocation_state_text.simps [simp del]
  permit_state_text.simps [simp del] change_state_text.simps [simp del]

lemmas state_texts [simp] = state_texts_plain [THEN plain_textD(1)] state_texts_plain [THEN plain_textD(2)]
  state_texts_plain [THEN plain_textD(3)]

lemma schema_texts [simp]:
  "py_strip INVOCATION_POLICY_SCHEMA = INVOCATION_POLICY_SCHEMA" "py_strip INVOCATION_RECORD_SCHEMA = INVOCATION_RECORD_SCHEMA"
  "py_strip INVOCATION_POLICY_CHANGE_SCHEMA = INVOCATION_POLICY_CHANGE_SCHEMA"
  "py_strip REQUEST_BOUND_PERMIT_SCHEMA = REQUEST_BOUND_PERMIT_SCHEMA"
  "join_surrogates INVOCATION_POLICY_SCHEMA = INVOCATION_POLICY_SCHEMA"
  "join_surrogates INVOCATION_RECORD_SCHEMA = INVOCATION_RECORD_SCHEMA"
  "join_surrogates INVOCATION_POLICY_CHANGE_SCHEMA = INVOCATION_POLICY_CHANGE_SCHEMA"
  "join_surrogates REQUEST_BOUND_PERMIT_SCHEMA = REQUEST_BOUND_PERMIT_SCHEMA"
  by (simp_all add: INVOCATION_POLICY_SCHEMA_def INVOCATION_RECORD_SCHEMA_def INVOCATION_POLICY_CHANGE_SCHEMA_def
      REQUEST_BOUND_PERMIT_SCHEMA_def py_strip_fix) (simp_all add: lit_def is_space_def)

text \<open>The identifiers and digests the validators return.\<close>

definition invocation_id_ok :: "pystr \<Rightarrow> bool" where
  "invocation_id_ok s \<longleftrightarrow> s \<noteq> [] \<and> length s \<le> 256 \<and> (\<forall>c \<in> set s. 33 \<le> c \<and> c \<le> 126)"

lemma invocation_id_plain: "invocation_id_ok s \<Longrightarrow> py_strip s = s \<and> join_surrogates s = s"
  by (auto simp: invocation_id_ok_def is_space_def is_surrogate_def intro!: py_strip_no_space join_surrogates_id)

lemma validated_invocation_id_iff:
  "validated_invocation_id v = Inr i \<longleftrightarrow> clean_text v = i \<and> invocation_id_ok i"
  by (auto simp: validated_invocation_id_def invocation_id_ok_def Let_def not_less not_le)

lemma validated_invocation_id_again [simp]:
  "invocation_id_ok i \<Longrightarrow> validated_invocation_id (PStr i) = Inr i"
  by (simp add: validated_invocation_id_iff invocation_id_plain)

lemma validated_request_digest_iff:
  "validated_request_digest v = Inr d \<longleftrightarrow> py_lower (clean_text v) = d \<and> is_digest d"
  by (auto simp: validated_request_digest_def Let_def)

lemma validated_request_digest_again [simp]:
  "is_digest d \<Longrightarrow> validated_request_digest (PStr d) = Inr d"
  by (simp add: validated_request_digest_iff digest_strip digest_lower)

lemma digest_join [simp]: "is_digest s \<Longrightarrow> join_surrogates s = s"
  by (intro join_surrogates_id) (auto simp: is_digest_def is_lower_hex_def is_digit_char_def is_surrogate_def)

lemma invocation_id_join [simp]: "invocation_id_ok s \<Longrightarrow> join_surrogates s = s"
  by (simp add: invocation_id_plain)

definition authority_ok :: "authority \<Rightarrow> bool" where
  "authority_ok a \<longleftrightarrow> mk_authority (PStr (ia_access_id a)) (PStr (ia_resource a)) (PStr (ia_surface a))
     (PStr (ia_operation a)) (PStr (ia_provider_id a)) (PStr (ia_account_id a)) = Inr a"

lemma visible_plain: "(\<forall>c \<in> set s. 33 \<le> c \<and> c \<le> 126) \<Longrightarrow> py_strip s = s \<and> join_surrogates s = s"
  by (auto simp: is_space_def is_surrogate_def intro!: py_strip_no_space join_surrogates_id)

lemma is_alnum_visible: "is_alnum c \<Longrightarrow> 33 \<le> c \<and> c \<le> 126"
  by (auto simp: is_alnum_def is_digit_char_def)

lemma access_id_plain: "access_id_match s \<Longrightarrow> py_strip s = s \<and> join_surrogates s = s"
  by (rule visible_plain) (auto simp: access_id_match_def dest: is_alnum_visible)

lemma token_plain: "token_match s \<Longrightarrow> py_strip s = s \<and> join_surrogates s = s"
  by (rule visible_plain) (auto simp: token_match_def split: list.splits dest: is_alnum_visible)

lemma py_strip_Nil [simp]: "py_strip [] = []"
  by (simp add: py_strip_def py_lstrip_def)

lemma py_lower_Nil [simp]: "py_lower [] = []"
  by (simp add: py_lower_def)

lemma dget_Nil [simp]: "dget [] k = None"
  by (simp add: dget_def)

lemma mk_authority_ok: "mk_authority v1 v2 v3 v4 v5 v6 = Inr a \<Longrightarrow> authority_ok a"
  unfolding mk_authority_def authority_ok_def Let_def
  by (auto simp: check_record_def token_plain)

text \<open>What reading a stored record makes of the free texts of an authority.\<close>

definition join_authority :: "authority \<Rightarrow> authority" where
  "join_authority a = a\<lparr>ia_resource := join_surrogates (ia_resource a), ia_operation := join_surrogates (ia_operation a),
     ia_account_id := join_surrogates (ia_account_id a)\<rparr>"

lemma authority_okD:
  assumes "authority_ok a"
  shows "access_id_match (ia_access_id a)" "py_strip (ia_resource a) = ia_resource a" "ia_resource a \<noteq> []"
    "length (ia_resource a) \<le> 2048" "token_match (ia_surface a)" "py_lower (ia_surface a) = ia_surface a"
    "py_strip (ia_operation a) = ia_operation a" "ia_operation a \<noteq> []" "length (ia_operation a) \<le> 512"
    "(ia_provider_id a \<noteq> []) = (ia_account_id a \<noteq> [])" "ia_provider_id a = [] \<or> token_match (ia_provider_id a)"
    "length (ia_account_id a) \<le> 512" "py_strip (ia_account_id a) = ia_account_id a"
proof -
  obtain i r su op p ac where a: "a = \<lparr>ia_access_id = i, ia_resource = r, ia_surface = su, ia_operation = op,
    ia_provider_id = p, ia_account_id = ac\<rparr>" by (cases a) simp
  have *: "access_id_match i \<and> py_strip r = r \<and> r \<noteq> [] \<and> length r \<le> 2048 \<and> token_match su \<and> py_lower su = su
    \<and> py_strip op = op \<and> op \<noteq> [] \<and> length op \<le> 512 \<and> (p \<noteq> []) = (ac \<noteq> []) \<and> (p = [] \<or> token_match p)
    \<and> length ac \<le> 512 \<and> py_strip ac = ac"
  proof -
    from assms have e: "access_id_match (py_strip i) \<and> py_strip r \<noteq> [] \<and> length (py_strip r) \<le> 2048
      \<and> token_match (py_lower (py_strip su)) \<and> py_strip op \<noteq> [] \<and> length (py_strip op) \<le> 512
      \<and> (py_strip p = []) = (py_strip ac = []) \<and> (py_strip p = [] \<or> token_match (py_strip p))
      \<and> (py_strip ac = [] \<or> length (py_strip ac) \<le> 512)
      \<and> py_strip i = i \<and> py_strip r = r \<and> py_lower (py_strip su) = su \<and> py_strip op = op \<and> py_strip p = p \<and> py_strip ac = ac"
      by (auto simp: a authority_ok_def mk_authority_def check_record_def Let_def)
    moreover have "py_lower su = su" using e by (metis py_lower_idem)
    ultimately show ?thesis by auto
  qed
  show "access_id_match (ia_access_id a)" "py_strip (ia_resource a) = ia_resource a" "ia_resource a \<noteq> []"
    "length (ia_resource a) \<le> 2048" "token_match (ia_surface a)" "py_lower (ia_surface a) = ia_surface a"
    "py_strip (ia_operation a) = ia_operation a" "ia_operation a \<noteq> []" "length (ia_operation a) \<le> 512"
    "(ia_provider_id a \<noteq> []) = (ia_account_id a \<noteq> [])" "ia_provider_id a = [] \<or> token_match (ia_provider_id a)"
    "length (ia_account_id a) \<le> 512" "py_strip (ia_account_id a) = ia_account_id a"
    using * by (auto simp: a)
qed

lemma join_authority_fields:
  "join_authority a = \<lparr>ia_access_id = ia_access_id a, ia_resource = join_surrogates (ia_resource a), ia_surface = ia_surface a,
     ia_operation = join_surrogates (ia_operation a), ia_provider_id = ia_provider_id a,
     ia_account_id = join_surrogates (ia_account_id a)\<rparr>"
  by (simp add: join_authority_def)

lemma reread_authority:
  assumes "authority_ok a"
  shows "\<exists>d. reread (authority_to_dict a) = PDict d \<and> authority_from_mapping d = Inr (join_authority a)"
proof -
  note ok = authority_okD [OF assms]
  obtain e where e: "reread (obj [(''provider_id'', PStr (ia_provider_id a)), (''account_id'', PStr (ia_account_id a))]) = PDict e"
    "\<And>k. dget e k = map_option reread (map_of [(''provider_id'', PStr (ia_provider_id a)), (''account_id'', PStr (ia_account_id a))] k)"
    using reread_obj [of "[(''provider_id'', PStr (ia_provider_id a)), (''account_id'', PStr (ia_account_id a))]"] by auto
  let ?kvs = "[(''access_id'', PStr (ia_access_id a)), (''resource'', PStr (ia_resource a)),
       (''surface'', PStr (ia_surface a)), (''operation'', PStr (ia_operation a))]
      @ (if ia_provider_id a \<noteq> []
         then [(''account'', obj [(''provider_id'', PStr (ia_provider_id a)), (''account_id'', PStr (ia_account_id a))])]
         else [])"
  have "distinct (map fst ?kvs)" by simp
  from reread_obj [OF this] obtain d where d: "reread (obj ?kvs) = PDict d" "\<And>k. dget d k = map_option reread (map_of ?kvs k)"
    by blast
  have jl: "length (join_surrogates s) \<le> n" if "length s \<le> n" for s n
    using join_surrogates_length [of s] that by simp
  have "authority_from_mapping d = Inr (join_authority a)"
    using ok access_id_plain [OF ok(1)] token_plain [OF ok(5)] ok(11) token_plain [of "ia_provider_id a"]
    by (auto simp: authority_from_mapping_def dget_or_def d e mk_authority_def check_record_def py_strip_join jl
        join_authority_fields)
  then show ?thesis using d(1) by (auto simp: authority_to_dict_def)
qed

section \<open>A record read back is the record written\<close>

definition policy_ok :: "policy \<Rightarrow> bool" where
  "policy_ok p \<longleftrightarrow> authority_ok (ip_authority p) \<and> 1 \<le> ip_revision p
     \<and> (ip_mode p = POLICY_ALWAYS \<longrightarrow> ip_state p = POLICY_AVAILABLE)
     \<and> (if ip_state p = POLICY_CONSUMED
        then (\<exists>i d. ip_consumed_invocation_id p = PStr i \<and> invocation_id_ok i
              \<and> ip_consumed_request_digest p = PStr d \<and> is_digest d) \<and> 1 \<le> ip_consumed_at p
        else ip_consumed_invocation_id p = PStr [] \<and> ip_consumed_request_digest p = PStr [] \<and> ip_consumed_at p = 0)"

definition change_ok :: "policy_change \<Rightarrow> bool" where
  "change_ok c \<longleftrightarrow> authority_ok (pc_authority c) \<and> invocation_id_ok (pc_change_id c)
     \<and> 0 \<le> pc_expected_policy_revision c \<and> 1 \<le> pc_prepared_at c
     \<and> (if pc_state c = POLICY_CHANGE_PREPARED then pc_policy_revision c = 0 \<and> pc_committed_at c = 0
        else pc_policy_revision c = pc_expected_policy_revision c + 1 \<and> pc_prepared_at c \<le> pc_committed_at c)"

definition permit_ok :: "permit \<Rightarrow> bool" where
  "permit_ok r \<longleftrightarrow> authority_ok (rp_authority r) \<and> invocation_id_ok (rp_invocation_id r) \<and> is_digest (rp_request_digest r)
     \<and> 1 \<le> rp_card_revision r \<and> rp_authority_revision r \<noteq> [] \<and> py_strip (rp_authority_revision r) = rp_authority_revision r
     \<and> 1 \<le> rp_policy_revision r \<and> 1 \<le> rp_revision r \<and> 1 \<le> rp_issued_at r \<and> rp_issued_at r < rp_expires_at r
     \<and> (if rp_state r = REQUEST_PERMIT_AVAILABLE then rp_consumed_at r = 0 else rp_issued_at r \<le> rp_consumed_at r)"

definition invocation_ok :: "invocation \<Rightarrow> bool" where
  "invocation_ok r \<longleftrightarrow> authority_ok (ir_authority r) \<and> invocation_id_ok (ir_invocation_id r) \<and> is_digest (ir_request_digest r)
     \<and> (ir_state r = INVOCATION_COMPLETED \<longrightarrow> 1 \<le> ir_completed_at r) \<and> is_ok (canonical_json (ir_result r))
     \<and> 0 \<le> ir_card_revision r \<and> 0 \<le> ir_request_permit_revision r
     \<and> py_strip (ir_authority_revision r) = ir_authority_revision r"

lemma mk_policy_change_ok:
  "mk_policy_change a i m st e r p c = Inr x \<Longrightarrow> authority_ok a \<Longrightarrow> change_ok x \<and> pc_authority x = a"
  by (auto simp: mk_policy_change_def check_record_def change_ok_def validated_invocation_id_iff split: if_splits)

lemma mk_permit_ok:
  "mk_permit a i d cr ar pr r st iss ex con = Inr x \<Longrightarrow> authority_ok a \<Longrightarrow> permit_ok x \<and> rp_authority x = a"
  by (cases "rp_state x") (auto simp: mk_permit_def check_record_def permit_ok_def validated_invocation_id_iff
      validated_request_digest_iff)

lemma mk_invocation_ok:
  "mk_invocation a i d pid pr m st cr ar rr res err created completed = Inr x \<Longrightarrow> authority_ok a \<Longrightarrow> py_strip ar = ar
   \<Longrightarrow> invocation_ok x \<and> ir_authority x = a"
  by (auto simp: mk_invocation_def check_record_def invocation_ok_def validated_invocation_id_iff
      validated_request_digest_iff)

lemma schema_authority_read:
  assumes "authority_ok a" "dget d ''schema'' = Some (PStr s)" "py_strip s = s" "dget d ''authority'' = Some (reread (authority_to_dict a))"
  shows "schema_authority d s r1 r2 = Inr (join_authority a)"
  using reread_authority [OF assms(1)] assms(2-) by (auto simp: schema_authority_def dget_or_def check_record_def)

lemma schema_authority_ok: "schema_authority d s r1 r2 = Inr a \<Longrightarrow> authority_ok a"
  by (auto simp: schema_authority_def check_record_def authority_from_mapping_def Let_def split: option.splits pyval.splits
      intro: mk_authority_ok)

lemma with_authority:
  "p\<lparr>ip_authority := a\<rparr> = \<lparr>ip_authority = a, ip_mode = ip_mode p, ip_revision = ip_revision p, ip_state = ip_state p,
     ip_consumed_invocation_id = ip_consumed_invocation_id p, ip_consumed_request_digest = ip_consumed_request_digest p,
     ip_consumed_at = ip_consumed_at p, ip_updated_at = ip_updated_at p\<rparr>"
  "c\<lparr>pc_authority := a\<rparr> = \<lparr>pc_authority = a, pc_change_id = pc_change_id c, pc_mode = pc_mode c, pc_state = pc_state c,
     pc_expected_policy_revision = pc_expected_policy_revision c, pc_policy_revision = pc_policy_revision c,
     pc_prepared_at = pc_prepared_at c, pc_committed_at = pc_committed_at c\<rparr>"
  "r\<lparr>rp_authority := a, rp_authority_revision := t\<rparr> = \<lparr>rp_authority = a, rp_invocation_id = rp_invocation_id r,
     rp_request_digest = rp_request_digest r, rp_card_revision = rp_card_revision r, rp_authority_revision = t,
     rp_policy_revision = rp_policy_revision r, rp_revision = rp_revision r, rp_state = rp_state r,
     rp_issued_at = rp_issued_at r, rp_expires_at = rp_expires_at r, rp_consumed_at = rp_consumed_at r\<rparr>"
  by simp_all

lemma reread_policy:
  assumes "policy_ok p"
  shows "\<exists>d. reread (policy_to_dict p) = PDict d
    \<and> policy_from_mapping d = Inr (p\<lparr>ip_authority := join_authority (ip_authority p)\<rparr>)"
proof -
  have a: "authority_ok (ip_authority p)" using assms by (simp add: policy_ok_def)
  have "distinct (map fst (policy_items p))" by (cases "ip_state p") (simp_all add: policy_items_def)
  from reread_obj [OF this] obtain d where d: "reread (policy_to_dict p) = PDict d"
    "\<And>k. dget d k = map_option reread (map_of (policy_items p) k)" by (auto simp: policy_to_dict_def)
  have sa: "schema_authority d INVOCATION_POLICY_SCHEMA r1 r2 = Inr (join_authority (ip_authority p))" for r1 r2
    by (rule schema_authority_read [OF a]) (simp_all add: d policy_items_def)
  show ?thesis
  proof (cases "ip_state p")
    case POLICY_AVAILABLE
    then show ?thesis using assms d(1)
      by (simp add: policy_from_mapping_def sa dget_or_def d policy_items_def mk_policy_def check_record_def policy_ok_def
        int_or_zero_def with_authority)
  next
    case POLICY_CONSUMED
    then show ?thesis using assms d(1)
      by (auto simp add: policy_from_mapping_def sa dget_or_def d policy_items_def mk_policy_def check_record_def policy_ok_def
        int_or_zero_def with_authority)
  qed
qed

lemma reread_change:
  assumes "change_ok c"
  shows "\<exists>d. reread (change_to_dict c) = PDict d
    \<and> change_from_mapping d = Inr (c\<lparr>pc_authority := join_authority (pc_authority c)\<rparr>)"
proof -
  have a: "authority_ok (pc_authority c)" using assms by (simp add: change_ok_def)
  obtain kvs where kvs: "change_to_dict c = obj kvs" "distinct (map fst kvs)" and
    k: "kvs = [(''schema'', PStr INVOCATION_POLICY_CHANGE_SCHEMA), (''authority'', authority_to_dict (pc_authority c)),
      (''change_id'', PStr (pc_change_id c)), (''mode'', PStr (mode_text (pc_mode c))),
      (''state'', PStr (change_state_text (pc_state c))),
      (''expected_policy_revision'', PInt (pc_expected_policy_revision c)),
      (''policy_revision'', PInt (pc_policy_revision c)), (''prepared_at'', PInt (pc_prepared_at c)),
      (''committed_at'', PInt (pc_committed_at c))]"
    by (simp add: change_to_dict_def)
  from reread_obj [OF kvs(2)] obtain d where d: "reread (change_to_dict c) = PDict d"
    "\<And>x. dget d x = map_option reread (map_of kvs x)" by (auto simp: kvs(1))
  have sa: "schema_authority d INVOCATION_POLICY_CHANGE_SCHEMA r1 r2 = Inr (join_authority (pc_authority c))" for r1 r2
    by (rule schema_authority_read [OF a]) (simp_all add: d k)
  show ?thesis using assms d(1)
    by (auto simp: change_from_mapping_def sa dget_or_def d k mk_policy_change_def check_record_def change_ok_def
        int_or_zero_def with_authority invocation_id_plain split: if_splits)
qed

lemma reread_permit:
  assumes "permit_ok r"
  shows "\<exists>d. reread (permit_to_dict r) = PDict d \<and> permit_from_mapping d =
    Inr (r\<lparr>rp_authority := join_authority (rp_authority r), rp_authority_revision := join_surrogates (rp_authority_revision r)\<rparr>)"
proof -
  have a: "authority_ok (rp_authority r)" using assms by (simp add: permit_ok_def)
  have "distinct (map fst (permit_items r))" by (simp add: permit_items_def)
  from reread_obj [OF this] obtain d where d: "reread (permit_to_dict r) = PDict d"
    "\<And>k. dget d k = map_option reread (map_of (permit_items r) k)" by (auto simp: permit_to_dict_def)
  have sa: "schema_authority d REQUEST_BOUND_PERMIT_SCHEMA r1 r2 = Inr (join_authority (rp_authority r))" for r1 r2
    by (rule schema_authority_read [OF a]) (simp_all add: d permit_items_def)
  show ?thesis using assms d(1) permit_state.exhaust [of "rp_state r"]
    by (auto simp: permit_from_mapping_def sa dget_or_def d permit_items_def mk_permit_def check_record_def permit_ok_def
        int_or_zero_def with_authority py_strip_join invocation_id_plain split: if_splits)
qed

lemma canonical_json_ok: "is_ok (canonical_json v) \<longleftrightarrow> is_ok (dumps True v)"
  by (auto simp: canonical_json_def is_ok_def split: sum.splits)

text \<open>The record a stored invocation is read back as.\<close>

definition reread_record :: "invocation \<Rightarrow> invocation" where
  "reread_record r = r\<lparr>ir_authority := join_authority (ir_authority r), ir_policy_id := reread (ir_policy_id r),
     ir_authority_revision := join_surrogates (ir_authority_revision r), ir_result := reread (ir_result r)\<rparr>"

lemma reread_invocation:
  assumes "invocation_ok r"
  shows "\<exists>d. reread (invocation_to_dict r) = PDict d \<and> invocation_from_mapping d = Inr (reread_record r)"
proof -
  have a: "authority_ok (ir_authority r)" using assms by (simp add: invocation_ok_def)
  obtain kvs where kvs: "invocation_to_dict r = obj kvs" "distinct (map fst kvs)" and k: "kvs =
     [(''schema'', PStr INVOCATION_RECORD_SCHEMA), (''authority'', authority_to_dict (ir_authority r)),
      (''invocation_id'', PStr (ir_invocation_id r)), (''request_digest'', PStr (ir_request_digest r)),
      (''policy_id'', ir_policy_id r), (''policy_revision'', PInt (ir_policy_revision r)),
      (''policy_mode'', PStr (mode_text (ir_policy_mode r))), (''state'', PStr (invocation_state_text (ir_state r))),
      (''card_revision'', PInt (ir_card_revision r)), (''authority_revision'', PStr (ir_authority_revision r)),
      (''request_permit_revision'', PInt (ir_request_permit_revision r)), (''result'', ir_result r),
      (''result_is_error'', PBool (ir_result_is_error r)), (''created_at'', PInt (ir_created_at r)),
      (''completed_at'', PInt (ir_completed_at r))]"
    by (simp add: invocation_to_dict_def)
  from reread_obj [OF kvs(2)] obtain d where d: "reread (invocation_to_dict r) = PDict d"
    "\<And>x. dget d x = map_option reread (map_of kvs x)" by (auto simp: kvs(1))
  have sa: "schema_authority d INVOCATION_RECORD_SCHEMA r1 r2 = Inr (join_authority (ir_authority r))" for r1 r2
    by (rule schema_authority_read [OF a]) (simp_all add: d k)
  obtain b where b: "canonical_json (reread (ir_result r)) = Inr b"
    using assms dumps_reread(1) [of True "ir_result r"] canonical_json_ok
    by (auto simp: invocation_ok_def is_ok_iff)
  show ?thesis using assms d(1)
    by (auto simp: invocation_from_mapping_def sa dget_or_def d k mk_invocation_def check_record_def invocation_ok_def
        int_or_zero_def reread_record_def py_strip_join invocation_id_plain b max_absorb2 split: if_splits)
qed

lemma authority_key_ok: "\<exists>b. canonical_json (authority_to_dict a) = Inr b \<and> authority_key a = sha256_hexdigest b"
proof -
  have s: "is_ok (dumps True (obj kvs))" if "\<forall>(k, v) \<in> set kvs. is_ok (dumps True v)" for kvs
    unfolding obj_def by (rule dumps_dict_ok) (use that in auto)
  have "is_ok (dumps True (authority_to_dict a))"
    unfolding authority_to_dict_def by (intro s) (auto intro!: s)
  then have "is_ok (canonical_json (authority_to_dict a))" by (simp add: canonical_json_ok)
  then show ?thesis by (auto simp: authority_key_def is_ok_iff)
qed

lemma authority_key_digest [simp]: "is_digest (authority_key a)"
  using authority_key_ok [of a] by auto


definition sample_authority :: authority where
  "sample_authority = \<lparr>ia_access_id = lit ''card1'', ia_resource = lit ''https://h/mcp'', ia_surface = lit ''outer'',
     ia_operation = lit ''read'', ia_provider_id = [], ia_account_id = []\<rparr>"

lemma sample_authority_ok: "authority_ok sample_authority" "join_authority sample_authority = sample_authority"
  by (simp_all add: authority_ok_def sample_authority_def mk_authority_def check_record_def access_id_match_def token_match_def
      is_alnum_def is_digit_char_def is_space_def py_lower_def lower_char_def join_authority_def Let_def lit_def
      py_strip_def py_lstrip_def)

definition sample_policy :: policy where
  "sample_policy = \<lparr>ip_authority = sample_authority, ip_mode = POLICY_ONCE, ip_revision = 1, ip_state = POLICY_AVAILABLE,
     ip_consumed_invocation_id = PStr [], ip_consumed_request_digest = PStr [], ip_consumed_at = 0, ip_updated_at = 5\<rparr>"

lemma sample_policy_ok: "policy_ok sample_policy" "ip_authority sample_policy = sample_authority"
  by (simp_all add: policy_ok_def sample_policy_def sample_authority_ok)


end
