(* ===== verification/Durable_Files.thy ===== *)
theory Durable_Files
  imports Py_Text
begin

text \<open>
  The file operations of \<open>connection_hub/delegated_credentials/durable_io.py\<close>, on which the invocation policies and
  the account fences keep their records.

  A file is the JSON value of its text, or text that is no JSON. \<open>write_json_atomic\<close> replaces a whole
  file by the value that reading its text gives. Every file operation has a number, and the state says
  which operations fail: a \<open>Lost\<close> one fails before it has an effect (a full disk, a crash
  before the rename), a \<open>Late\<close> one after its effect (a crash after the rename). The write guards are in
  \<open>Card_Locks\<close>; publish deadlines are not modelled.
\<close>

section \<open>Files\<close>

type_synonym path = "pystr list"

record fs =
  fs_files :: "(path \<times> stored_file) list"
  fs_fault :: "nat \<Rightarrow> fault"
  fs_ops :: nat

definition fs_lookup :: "fs \<Rightarrow> path \<Rightarrow> stored_file option" where
  "fs_lookup s p = map_of (fs_files s) p"

definition fs_tick :: "fs \<Rightarrow> fs" where
  "fs_tick s = s\<lparr>fs_ops := Suc (fs_ops s)\<rparr>"

definition fs_next :: "fs \<Rightarrow> fault" where
  "fs_next s = fs_fault s (fs_ops s)"

text \<open>The parsed content of a file; an absent file and the JSON \<open>null\<close> are both \<open>None\<close>.\<close>

definition parsed :: "stored_file option \<Rightarrow> exn + pyval option" where
  "parsed f = (case f of None \<Rightarrow> Inr None | Some Not_Json \<Rightarrow> Inl (DurableDecodeError ''object_not_json'')
     | Some (Json v) \<Rightarrow> Inr (if v = PNone then None else Some v))"

definition read_json_or_none :: "path \<Rightarrow> (fs, pyval option) action" where
  "read_json_or_none p = (\<lambda>s. (fs_tick s,
     if fs_next s \<noteq> No_Fault then Inl (DurableStorageError ''read_failed'') else parsed (fs_lookup s p)))"

definition fs_put :: "path \<Rightarrow> pyval \<Rightarrow> fs \<Rightarrow> fs" where
  "fs_put p v s = s\<lparr>fs_files := dict_set p (Json (reread v)) (fs_files s)\<rparr>"

definition write_json_atomic :: "path \<Rightarrow> pyval \<Rightarrow> (fs, unit) action" where
  "write_json_atomic p v = (\<lambda>s.
     case dumps True v of Inl e \<Rightarrow> (s, Inl e)
     | Inr _ \<Rightarrow>
        (case fs_next s of No_Fault \<Rightarrow> (fs_put p v (fs_tick s), Inr ())
         | Lost \<Rightarrow> (fs_tick s, Inl (DurableStorageError ''write_failed''))
         | Late \<Rightarrow> (fs_put p v (fs_tick s), Inl (DurableStorageError ''write_failed''))))"

text \<open>\<open>pathlib.Path.unlink(missing_ok=True)\<close>; the flag is false for an \<open>OSError\<close>.\<close>

definition fs_remove :: "path \<Rightarrow> fs \<Rightarrow> fs" where
  "fs_remove p s = s\<lparr>fs_files := filter (\<lambda>(q, _). q \<noteq> p) (fs_files s)\<rparr>"

definition unlink :: "path \<Rightarrow> fs \<Rightarrow> fs \<times> bool" where
  "unlink p s = (case fs_next s of No_Fault \<Rightarrow> (fs_remove p (fs_tick s), True) | Lost \<Rightarrow> (fs_tick s, False)
     | Late \<Rightarrow> (fs_remove p (fs_tick s), False))"

text \<open>The names below a directory that lead to a file.\<close>

definition child_names :: "(path \<times> stored_file) list \<Rightarrow> path \<Rightarrow> pystr list" where
  "child_names files d = sorted_list_of_set (set (map (\<lambda>(p, _). p ! length d)
     (filter (\<lambda>(p, _). length d < length p \<and> take (length d) p = d) files)))"

definition list_child_names :: "path \<Rightarrow> (fs, pystr list) action" where
  "list_child_names d = (\<lambda>s. (fs_tick s,
     if fs_next s \<noteq> No_Fault then Inl (DurableStorageError ''list_failed'') else Inr (child_names (fs_files s) d)))"

section \<open>Effects\<close>

lemma map_of_filter_key: "map_of (filter (\<lambda>(q, _). q \<noteq> p) al) = (map_of al)(p := None)"
  by (induction al) (auto simp: fun_eq_iff)

lemma fs_effects:
  "fs_lookup (fs_remove p s) = (fs_lookup s)(p := None)" "fs_fault (fs_remove p s) = fs_fault s" "fs_ops (fs_remove p s) = fs_ops s"
  "fs_fault (fs_tick s) = fs_fault s" "fs_ops (fs_tick s) = Suc (fs_ops s)" "fs_lookup (fs_tick s) = fs_lookup s"
  "fs_lookup (fs_put p v s) = (fs_lookup s)(p \<mapsto> Json (reread v))" "fs_fault (fs_put p v s) = fs_fault s" "fs_ops (fs_put p v s) = fs_ops s"
  by (simp_all add: fs_lookup_def fs_remove_def fs_tick_def fs_put_def map_of_filter_key fun_eq_iff)

definition same_files :: "fs \<Rightarrow> fs \<Rightarrow> bool" where
  "same_files s s' \<longleftrightarrow> fs_lookup s' = fs_lookup s \<and> fs_fault s' = fs_fault s \<and> fs_ops s \<le> fs_ops s'"

lemma same_files_refl [simp]: "same_files s s" "same_files s (fs_tick s)"
  by (simp_all add: same_files_def fs_tick_def fs_lookup_def fun_eq_iff)

lemma same_files_trans: "same_files s s1 \<Longrightarrow> same_files s1 s2 \<Longrightarrow> same_files s s2"
  by (simp add: same_files_def)

text \<open>No operation from now on fails.\<close>

definition no_fault :: "fs \<Rightarrow> bool" where
  "no_fault s \<longleftrightarrow> (\<forall>n \<ge> fs_ops s. fs_fault s n = No_Fault)"

lemma no_fault_next: "no_fault s \<Longrightarrow> fs_next s = No_Fault"
  by (simp add: no_fault_def fs_next_def)

lemma no_fault_same: "no_fault s \<Longrightarrow> same_files s s' \<Longrightarrow> no_fault s'"
  by (simp add: no_fault_def same_files_def)

end
