(* ===== verification/Invocation_Store.thy ===== *)
theory Invocation_Store
  imports Invocation_Models Durable_Files
begin

text \<open>
  \<open>connection_hub/invocation_policy/store.py\<close>: the invocation records as JSON files. Paths are relative to
  the storage root. Results hold for every choice of faults unless they say otherwise.
\<close>

section \<open>Paths\<close>

definition POLICIES_DIRNAME :: pystr where "POLICIES_DIRNAME = lit ''invocation-policies''"
definition POLICIES_LAYOUT_VERSION :: pystr where "POLICIES_LAYOUT_VERSION = lit ''v1''"
definition GRANTORS_DIRNAME :: pystr where "GRANTORS_DIRNAME = lit ''grantors''"
definition CARDS_DIRNAME :: pystr where "CARDS_DIRNAME = lit ''cards''"
definition AUTHORITIES_DIRNAME :: pystr where "AUTHORITIES_DIRNAME = lit ''authorities''"
definition INVOCATIONS_DIRNAME :: pystr where "INVOCATIONS_DIRNAME = lit ''invocations''"
definition REQUEST_PERMITS_DIRNAME :: pystr where "REQUEST_PERMITS_DIRNAME = lit ''request-permits''"
definition POLICY_FILENAME :: pystr where "POLICY_FILENAME = lit ''policy.json''"
definition POLICY_CHANGE_FILENAME :: pystr where "POLICY_CHANGE_FILENAME = lit ''policy-change.json''"

definition owner_hash_for :: "pystr \<Rightarrow> exn + pystr" where
  "owner_hash_for owner_subject = bindE (utf8_encode owner_subject) (\<lambda>b. Inr (sha256_hexdigest b))"

definition validated_hash :: "pystr \<Rightarrow> string \<Rightarrow> exn + pystr" where
  "validated_hash v reason =
     (let digest = py_lower (py_strip v)
      in if is_digest digest then Inr digest else Inl (InvocationPolicyStorageError reason))"

definition validated_access_id :: "pystr \<Rightarrow> exn + pystr" where
  "validated_access_id v =
     (let access_id = py_strip v
      in if access_id_match access_id then Inr access_id else Inl (InvocationPolicyStorageError ''access_id_invalid''))"

definition invocation_hash_for :: "pystr \<Rightarrow> exn + pystr" where
  "invocation_hash_for invocation_id =
     bindE (validated_invocation_id (PStr invocation_id)) (\<lambda>i. bindE (utf8_encode i) (\<lambda>b. Inr (sha256_hexdigest b)))"

definition store_root :: path where
  "store_root = [POLICIES_DIRNAME, POLICIES_LAYOUT_VERSION]"

definition card_path :: "pystr \<Rightarrow> pystr \<Rightarrow> exn + path" where
  "card_path owner_hash access_id =
     bindE (validated_hash owner_hash ''owner_hash_invalid'') (\<lambda>h.
     bindE (validated_access_id access_id) (\<lambda>i.
       Inr (store_root @ [GRANTORS_DIRNAME, h, CARDS_DIRNAME, i])))"

definition authority_path :: "pystr \<Rightarrow> authority \<Rightarrow> exn + path" where
  "authority_path owner_hash a =
     bindE (card_path owner_hash (ia_access_id a)) (\<lambda>p.
     bindE (validated_hash (authority_key a) ''authority_key_invalid'') (\<lambda>k.
       Inr (p @ [AUTHORITIES_DIRNAME, k])))"

definition policy_path :: "pystr \<Rightarrow> authority \<Rightarrow> exn + path" where
  "policy_path owner_hash a = bindE (authority_path owner_hash a) (\<lambda>p. Inr (p @ [POLICY_FILENAME]))"

definition policy_change_path :: "pystr \<Rightarrow> authority \<Rightarrow> exn + path" where
  "policy_change_path owner_hash a = bindE (authority_path owner_hash a) (\<lambda>p. Inr (p @ [POLICY_CHANGE_FILENAME]))"

definition invocation_path :: "pystr \<Rightarrow> authority \<Rightarrow> pystr \<Rightarrow> exn + path" where
  "invocation_path owner_hash a invocation_id =
     bindE (authority_path owner_hash a) (\<lambda>p. bindE (invocation_hash_for invocation_id) (\<lambda>h.
       Inr (p @ [INVOCATIONS_DIRNAME, h @ lit ''.json''])))"

definition request_permit_path :: "pystr \<Rightarrow> authority \<Rightarrow> pystr \<Rightarrow> exn + path" where
  "request_permit_path owner_hash a invocation_id =
     bindE (authority_path owner_hash a) (\<lambda>p. bindE (invocation_hash_for invocation_id) (\<lambda>h.
       Inr (p @ [REQUEST_PERMITS_DIRNAME, h @ lit ''.json''])))"

section \<open>BundleStorageInvocationPolicyStore\<close>

text \<open>A payload that is no object has no \<open>get\<close>.\<close>

definition mapping_of :: "pyval \<Rightarrow> exn + pydict" where
  "mapping_of v = (case v of PDict d \<Rightarrow> Inr d | _ \<Rightarrow> Inl AttributeError)"

text \<open>
  What the four reads have in common: \<open>None\<close> for an absent file, otherwise the record its object
  denotes, if it passes the checks against the key it was read under.
\<close>

definition payload_record :: "(pydict \<Rightarrow> exn + 'r) \<Rightarrow> pyval option \<Rightarrow> exn + 'r option" where
  "payload_record dec payload = (case payload of None \<Rightarrow> Inr None
     | Some v \<Rightarrow> bindE (mapping_of v) (\<lambda>d. bindE (dec d) (\<lambda>r. Inr (Some r))))"

definition read_record :: "exn + path \<Rightarrow> (pydict \<Rightarrow> exn + 'r) \<Rightarrow> (fs, 'r option) action" where
  "read_record path dec = bindS (liftS path) (\<lambda>p. bindS (read_json_or_none p) (\<lambda>payload. liftS (payload_record dec payload)))"

definition write_record :: "exn + path \<Rightarrow> pyval \<Rightarrow> (fs, unit) action" where
  "write_record path v = bindS (liftS path) (\<lambda>p. write_json_atomic p v)"

definition decode_policy :: "authority \<Rightarrow> pydict \<Rightarrow> exn + policy" where
  "decode_policy a d = bindE (policy_from_mapping d) (\<lambda>p.
     bindE (check_record (ip_authority p = a) ''policy_authority_mismatch'') (\<lambda>_. Inr p))"

definition read_policy :: "pystr \<Rightarrow> authority \<Rightarrow> (fs, policy option) action" where
  "read_policy owner_hash a = read_record (policy_path owner_hash a) (decode_policy a)"

definition write_policy :: "pystr \<Rightarrow> policy \<Rightarrow> (fs, unit) action" where
  "write_policy owner_hash p = write_record (policy_path owner_hash (ip_authority p)) (policy_to_dict p)"

definition decode_change :: "authority \<Rightarrow> pydict \<Rightarrow> exn + policy_change" where
  "decode_change a d = bindE (change_from_mapping d) (\<lambda>c.
     bindE (check_record (pc_authority c = a) ''policy_change_authority_mismatch'') (\<lambda>_. Inr c))"

definition read_policy_change :: "pystr \<Rightarrow> authority \<Rightarrow> (fs, policy_change option) action" where
  "read_policy_change owner_hash a = read_record (policy_change_path owner_hash a) (decode_change a)"

definition write_policy_change :: "pystr \<Rightarrow> policy_change \<Rightarrow> (fs, unit) action" where
  "write_policy_change owner_hash c = write_record (policy_change_path owner_hash (pc_authority c)) (change_to_dict c)"

definition delete_policy_change :: "pystr \<Rightarrow> authority \<Rightarrow> (fs, unit) action" where
  "delete_policy_change owner_hash a = bindS (liftS (policy_change_path owner_hash a)) (\<lambda>p s.
     case unlink p s of (s', ok) \<Rightarrow>
       (s', if ok then Inr () else Inl (InvocationPolicyRecordError ''policy_change_release_failed'')))"

definition decode_invocation :: "authority \<Rightarrow> pystr \<Rightarrow> pydict \<Rightarrow> exn + invocation" where
  "decode_invocation a invocation_id d = bindE (invocation_from_mapping d) (\<lambda>r.
     bindE (check_record (ir_authority r = a) ''invocation_authority_mismatch'') (\<lambda>_.
     bindE (validated_invocation_id (PStr invocation_id)) (\<lambda>i.
     bindE (check_record (ir_invocation_id r = i) ''invocation_id_mismatch'') (\<lambda>_. Inr r))))"

definition read_invocation :: "pystr \<Rightarrow> authority \<Rightarrow> pystr \<Rightarrow> (fs, invocation option) action" where
  "read_invocation owner_hash a invocation_id =
     read_record (invocation_path owner_hash a invocation_id) (decode_invocation a invocation_id)"

definition write_invocation :: "pystr \<Rightarrow> invocation \<Rightarrow> (fs, unit) action" where
  "write_invocation owner_hash r =
     write_record (invocation_path owner_hash (ir_authority r) (ir_invocation_id r)) (invocation_to_dict r)"

definition decode_permit :: "authority \<Rightarrow> pystr \<Rightarrow> pydict \<Rightarrow> exn + permit" where
  "decode_permit a invocation_id d = bindE (permit_from_mapping d) (\<lambda>r.
     bindE (check_record (rp_authority r = a) ''request_permit_authority_mismatch'') (\<lambda>_.
     bindE (validated_invocation_id (PStr invocation_id)) (\<lambda>i.
     bindE (check_record (rp_invocation_id r = i) ''request_permit_invocation_id_mismatch'') (\<lambda>_. Inr r))))"

definition read_request_permit :: "pystr \<Rightarrow> authority \<Rightarrow> pystr \<Rightarrow> (fs, permit option) action" where
  "read_request_permit owner_hash a invocation_id =
     read_record (request_permit_path owner_hash a invocation_id) (decode_permit a invocation_id)"

definition write_request_permit :: "pystr \<Rightarrow> permit \<Rightarrow> (fs, unit) action" where
  "write_request_permit owner_hash r =
     write_record (request_permit_path owner_hash (rp_authority r) (rp_invocation_id r)) (permit_to_dict r)"

definition decode_listed :: "pystr \<Rightarrow> pystr \<Rightarrow> pydict \<Rightarrow> exn + policy" where
  "decode_listed access_id authority_key_name d = bindE (policy_from_mapping d) (\<lambda>p.
     bindE (check_record (ia_access_id (ip_authority p) = access_id \<and> authority_key (ip_authority p) = authority_key_name)
       ''policy_storage_scope_mismatch'') (\<lambda>_. Inr p))"

fun list_policies_loop :: "path \<Rightarrow> pystr \<Rightarrow> pystr list \<Rightarrow> policy list \<Rightarrow> (fs, policy list) action" where
  "list_policies_loop root access_id [] policies = retS policies"
| "list_policies_loop root access_id (k # ks) policies =
     (case validated_hash k ''authority_key_invalid'' of Inl _ \<Rightarrow> list_policies_loop root access_id ks policies
      | Inr _ \<Rightarrow> bindS (read_record (Inr (root @ [k, POLICY_FILENAME])) (decode_listed access_id k)) (\<lambda>p.
          case p of None \<Rightarrow> list_policies_loop root access_id ks policies
          | Some q \<Rightarrow> list_policies_loop root access_id ks (policies @ [q])))"

definition policy_sort_key :: "policy \<Rightarrow> pystr list" where
  "policy_sort_key p = (let a = ip_authority p
     in [ia_resource a, ia_surface a, ia_operation a, ia_provider_id a, ia_account_id a])"

definition list_policies :: "pystr \<Rightarrow> pystr \<Rightarrow> (fs, policy list) action" where
  "list_policies owner_hash access_id =
     bindS (liftS (card_path owner_hash access_id)) (\<lambda>card.
     let root = card @ [AUTHORITIES_DIRNAME]
     in bindS (list_child_names root) (\<lambda>names.
        bindS (list_policies_loop root access_id names []) (\<lambda>policies.
          retS (sort_key policy_sort_key policies))))"

section \<open>What an operation does to the files\<close>

text \<open>The effects of the store's operations, whatever fails: reading leaves the files, writing and
  deleting change one file or nothing.\<close>

definition stored :: "exn + path \<Rightarrow> (pydict \<Rightarrow> exn + 'r) \<Rightarrow> fs \<Rightarrow> exn + 'r option" where
  "stored path dec s = bindE path (\<lambda>p. bindE (parsed (fs_lookup s p)) (payload_record dec))"

lemma stored_same: "same_files s s' \<Longrightarrow> stored path dec s' = stored path dec s"
  by (simp add: stored_def same_files_def)

lemma read_record_run:
  assumes "read_record path dec s = (s', r)"
  shows "same_files s s'" "r = Inr x \<Longrightarrow> stored path dec s = Inr x"
  using assms
  by (auto simp: read_record_def bindS_def read_json_or_none_def stored_def bindE_def split: sum.splits if_splits)

lemma read_record_ok:
  assumes "no_fault s"
  shows "\<exists>s'. read_record path dec s = (s', stored path dec s) \<and> same_files s s'"
  using no_fault_next [OF assms]
  by (cases path; cases "case path of Inr p \<Rightarrow> parsed (fs_lookup s p)")
     (auto simp: read_record_def bindS_def read_json_or_none_def stored_def split: sum.splits)

definition puts :: "exn + path \<Rightarrow> pyval \<Rightarrow> fs \<Rightarrow> fs \<Rightarrow> bool" where
  "puts path v s s' \<longleftrightarrow> (\<exists>p. path = Inr p \<and> fs_lookup s' = (fs_lookup s)(p \<mapsto> Json (reread v))
     \<and> fs_fault s' = fs_fault s \<and> fs_ops s \<le> fs_ops s')"

lemma write_record_run:
  assumes "write_record path v s = (s', r)"
  shows "same_files s s' \<or> puts path v s s'" "r = Inr u \<Longrightarrow> puts path v s s'"
proof -
  show "same_files s s' \<or> puts path v s s'"
    using assms by (auto simp: write_record_def bindS_def write_json_atomic_def puts_def same_files_def fs_put_def fs_tick_def
        fs_lookup_def fun_eq_iff split: sum.splits fault.splits)
  show "r = Inr u \<Longrightarrow> puts path v s s'"
    using assms by (auto simp: write_record_def bindS_def write_json_atomic_def puts_def fs_put_def fs_tick_def
        fs_lookup_def fun_eq_iff split: sum.splits fault.splits)
qed

lemma write_record_ok:
  assumes "no_fault s" "path = Inr p" "is_ok (dumps True v)"
  shows "\<exists>s'. write_record path v s = (s', Inr ()) \<and> puts path v s s' \<and> no_fault s'"
proof -
  obtain t where "dumps True v = Inr t" using assms(3) by (auto simp: is_ok_iff)
  then show ?thesis using no_fault_next [OF assms(1)] assms(1,2)
    by (auto simp: write_record_def bindS_def write_json_atomic_def puts_def fs_put_def fs_tick_def fs_lookup_def no_fault_def)
qed

definition drops :: "exn + path \<Rightarrow> fs \<Rightarrow> fs \<Rightarrow> bool" where
  "drops path s s' \<longleftrightarrow> (\<exists>p. path = Inr p \<and> fs_lookup s' = (fs_lookup s)(p := None)
     \<and> fs_fault s' = fs_fault s \<and> fs_ops s \<le> fs_ops s')"

lemma delete_policy_change_run:
  assumes "delete_policy_change oh a s = (s', r)"
  shows "same_files s s' \<or> drops (policy_change_path oh a) s s'" "r = Inr u \<Longrightarrow> drops (policy_change_path oh a) s s'"
proof -
  show "same_files s s' \<or> drops (policy_change_path oh a) s s'" "r = Inr u \<Longrightarrow> drops (policy_change_path oh a) s s'"
    using assms by (auto simp: delete_policy_change_def bindS_def unlink_def drops_def same_files_def fs_effects
        split: sum.splits fault.splits)
qed

lemma delete_policy_change_ok:
  assumes "no_fault s" "policy_change_path oh a = Inr p"
  shows "\<exists>s'. delete_policy_change oh a s = (s', Inr ()) \<and> drops (policy_change_path oh a) s s' \<and> no_fault s'"
  using no_fault_next [OF assms(1)] assms
  by (auto simp: delete_policy_change_def bindS_def unlink_def drops_def fs_remove_def fs_tick_def fs_lookup_def
      map_of_filter_key no_fault_def)

section \<open>The four kinds of file\<close>

definition path_kind :: "path \<Rightarrow> nat \<times> pystr" where
  "path_kind p = (length p, p ! 8)"

definition POLICY_KIND :: "nat \<times> pystr" where "POLICY_KIND = (9, POLICY_FILENAME)"
definition CHANGE_KIND :: "nat \<times> pystr" where "CHANGE_KIND = (9, POLICY_CHANGE_FILENAME)"
definition INVOCATION_KIND :: "nat \<times> pystr" where "INVOCATION_KIND = (10, INVOCATIONS_DIRNAME)"
definition PERMIT_KIND :: "nat \<times> pystr" where "PERMIT_KIND = (10, REQUEST_PERMITS_DIRNAME)"

lemma kinds_distinct [simp]:
  "POLICY_KIND \<noteq> CHANGE_KIND" "POLICY_KIND \<noteq> INVOCATION_KIND" "POLICY_KIND \<noteq> PERMIT_KIND"
  "CHANGE_KIND \<noteq> INVOCATION_KIND" "CHANGE_KIND \<noteq> PERMIT_KIND" "INVOCATION_KIND \<noteq> PERMIT_KIND"
  "CHANGE_KIND \<noteq> POLICY_KIND" "INVOCATION_KIND \<noteq> POLICY_KIND" "PERMIT_KIND \<noteq> POLICY_KIND"
  "INVOCATION_KIND \<noteq> CHANGE_KIND" "PERMIT_KIND \<noteq> CHANGE_KIND" "PERMIT_KIND \<noteq> INVOCATION_KIND"
  by (simp_all add: POLICY_KIND_def CHANGE_KIND_def INVOCATION_KIND_def PERMIT_KIND_def POLICY_FILENAME_def
      POLICY_CHANGE_FILENAME_def INVOCATIONS_DIRNAME_def REQUEST_PERMITS_DIRNAME_def)

lemma authority_path_length: "authority_path oh a = Inr p \<Longrightarrow> length p = 8"
  by (auto simp: authority_path_def card_path_def store_root_def)

lemma path_kinds:
  "policy_path oh a = Inr p \<Longrightarrow> path_kind p = POLICY_KIND"
  "policy_change_path oh a = Inr p \<Longrightarrow> path_kind p = CHANGE_KIND"
  "invocation_path oh a i = Inr p \<Longrightarrow> path_kind p = INVOCATION_KIND"
  "request_permit_path oh a i = Inr p \<Longrightarrow> path_kind p = PERMIT_KIND"
  by (auto simp: policy_path_def policy_change_path_def invocation_path_def request_permit_path_def path_kind_def nth_append
      POLICY_KIND_def CHANGE_KIND_def INVOCATION_KIND_def PERMIT_KIND_def dest!: authority_path_length)

text \<open>An authority whose texts reading as_read leaves alone, and the hash of an owner.\<close>

definition stable_authority :: "authority \<Rightarrow> bool" where
  "stable_authority a \<longleftrightarrow> authority_ok a \<and> join_authority a = a"

definition owner_hash_ok :: "pystr \<Rightarrow> bool" where
  "owner_hash_ok oh \<longleftrightarrow> is_ok (validated_hash oh ''owner_hash_invalid'')"

lemma owner_hash_for_ok: "owner_hash_for owner = Inr oh \<Longrightarrow> owner_hash_ok oh"
  by (auto simp: owner_hash_for_def owner_hash_ok_def validated_hash_def digest_strip digest_lower)

lemma authority_path_ok: "owner_hash_ok oh \<Longrightarrow> authority_ok a \<Longrightarrow> \<exists>p. authority_path oh a = Inr p"
  using access_id_plain authority_okD(1)
  by (auto simp: owner_hash_ok_def is_ok_iff authority_path_def card_path_def validated_access_id_def validated_hash_def
      digest_strip digest_lower Let_def)

lemma invocation_hash_ok: "invocation_id_ok i \<Longrightarrow> \<exists>h. invocation_hash_for i = Inr h"
proof -
  assume i: "invocation_id_ok i"
  then have "encodable i" by (auto simp: invocation_id_ok_def intro!: encodable_ascii)
  with i show ?thesis by (simp add: invocation_hash_for_def utf8_encode_def)
qed

lemma paths_ok:
  assumes "owner_hash_ok oh" "authority_ok a"
  shows "\<exists>p. policy_path oh a = Inr p" "\<exists>p. policy_change_path oh a = Inr p"
    "invocation_id_ok i \<Longrightarrow> \<exists>p. invocation_path oh a i = Inr p"
    "invocation_id_ok i \<Longrightarrow> \<exists>p. request_permit_path oh a i = Inr p"
  using authority_path_ok [OF assms] invocation_hash_ok [of i]
  by (auto simp: policy_path_def policy_change_path_def invocation_path_def request_permit_path_def)

text \<open>
  The contract the four kinds of record share: a record that fits its key is written to a path of its
  kind, is JSON, and is decoded under that key as \<open>as_read\<close> says.
\<close>

locale record_kind =
  fixes path :: "'k \<Rightarrow> exn + path" and kind :: "nat \<times> pystr" and enc :: "'r \<Rightarrow> pyval"
    and dec :: "'k \<Rightarrow> pydict \<Rightarrow> exn + 'r" and fits :: "'k \<Rightarrow> 'r \<Rightarrow> bool" and as_read :: "'r \<Rightarrow> 'r"
  assumes kind: "path k = Inr p \<Longrightarrow> path_kind p = kind"
    and path_ok: "fits k r \<Longrightarrow> \<exists>p. path k = Inr p"
    and round_trip: "fits k r \<Longrightarrow> \<exists>d. reread (enc r) = PDict d \<and> dec k d = Inr (as_read r)"
    and writable: "fits k r \<Longrightarrow> is_ok (dumps True (enc r))"
begin

lemma read_written: "fits k r \<Longrightarrow> puts (path k) (enc r) s s' \<Longrightarrow> stored (path k) (dec k) s' = Inr (Some (as_read r))"
  using round_trip [of k r] by (auto simp: puts_def stored_def parsed_def payload_record_def mapping_of_def)

lemma read_other_kind:
  "puts q v s s' \<Longrightarrow> (\<And>p. q = Inr p \<Longrightarrow> path_kind p \<noteq> kind) \<Longrightarrow> stored (path k) (dec k) s' = stored (path k) (dec k) s"
  using kind [of k] by (cases "path k") (auto simp: puts_def stored_def)

lemma read_dropped:
  "drops q s s' \<Longrightarrow> (\<And>p. q = Inr p \<Longrightarrow> path_kind p \<noteq> kind) \<Longrightarrow> stored (path k) (dec k) s' = stored (path k) (dec k) s"
  using kind [of k] by (cases "path k") (auto simp: drops_def stored_def)

lemma write_ok:
  assumes "no_fault s" "fits k r"
  shows "\<exists>s'. write_record (path k) (enc r) s = (s', Inr ()) \<and> puts (path k) (enc r) s s' \<and> no_fault s'
    \<and> stored (path k) (dec k) s' = Inr (Some (as_read r))"
proof -
  obtain p where "path k = Inr p" using path_ok [OF assms(2)] by blast
  from write_record_ok [OF assms(1) this writable [OF assms(2)]] read_written [OF assms(2)] show ?thesis by blast
qed

end

lemma dumps_authority_ok: "is_ok (dumps a (authority_to_dict x))"
  unfolding authority_to_dict_def by (intro dumps_obj_ok) (auto intro!: dumps_obj_ok)

fun policy_fits :: "pystr \<times> authority \<Rightarrow> policy \<Rightarrow> bool" where
  "policy_fits (oh, a) p \<longleftrightarrow> owner_hash_ok oh \<and> stable_authority a \<and> policy_ok p \<and> ip_authority p = a"

fun change_fits :: "pystr \<times> authority \<Rightarrow> policy_change \<Rightarrow> bool" where
  "change_fits (oh, a) c \<longleftrightarrow> owner_hash_ok oh \<and> stable_authority a \<and> change_ok c \<and> pc_authority c = a"

fun permit_fits :: "pystr \<times> authority \<times> pystr \<Rightarrow> permit \<Rightarrow> bool" where
  "permit_fits (oh, a, i) r \<longleftrightarrow> owner_hash_ok oh \<and> stable_authority a \<and> permit_ok r \<and> rp_authority r = a \<and> rp_invocation_id r = i"

fun invocation_fits :: "pystr \<times> authority \<times> pystr \<Rightarrow> invocation \<Rightarrow> bool" where
  "invocation_fits (oh, a, i) r \<longleftrightarrow> owner_hash_ok oh \<and> stable_authority a \<and> invocation_ok r \<and> is_ok (dumps True (ir_policy_id r))
     \<and> ir_authority r = a \<and> ir_invocation_id r = i"

interpretation policy_kind: record_kind "\<lambda>(oh, a). policy_path oh a" POLICY_KIND policy_to_dict
  "\<lambda>(oh, a). decode_policy a" policy_fits id
proof (unfold_locales, goal_cases)
  case (1 k p)
  then show ?case by (cases k) (simp add: path_kinds)
next
  case (2 k r)
  then show ?case by (cases k) (auto simp: stable_authority_def paths_ok)
next
  case (3 k r)
  then obtain oh a where k: "k = (oh, a)" "policy_ok r" "join_authority a = a" "ip_authority r = a"
    by (cases k) (auto simp: stable_authority_def)
  with reread_policy [of r] show ?case
    by (auto simp: decode_policy_def check_record_def)
next
  case (4 k r)
  have "\<forall>(x, v) \<in> set (policy_items r). is_ok (dumps True v)" if "policy_ok r"
    using that by (auto simp: policy_items_def policy_ok_def dumps_authority_ok split: option.splits if_splits)
  with 4 show ?case by (cases k) (auto simp: policy_to_dict_def intro!: dumps_obj_ok)
qed

interpretation change_kind: record_kind "\<lambda>(oh, a). policy_change_path oh a" CHANGE_KIND change_to_dict
  "\<lambda>(oh, a). decode_change a" change_fits id
proof (unfold_locales, goal_cases)
  case (1 k p)
  then show ?case by (cases k) (simp add: path_kinds)
next
  case (2 k r)
  then show ?case by (cases k) (auto simp: stable_authority_def paths_ok)
next
  case (3 k r)
  then obtain oh a where k: "k = (oh, a)" "change_ok r" "join_authority a = a" "pc_authority r = a"
    by (cases k) (auto simp: stable_authority_def)
  with reread_change [of r] show ?case
    by (auto simp: decode_change_def check_record_def)
next
  case (4 k r)
  show ?case unfolding change_to_dict_def by (rule dumps_obj_ok) (simp add: dumps_authority_ok)
qed

interpretation permit_kind: record_kind "\<lambda>(oh, a, i). request_permit_path oh a i" PERMIT_KIND permit_to_dict
  "\<lambda>(oh, a, i). decode_permit a i" permit_fits
  "\<lambda>r. r\<lparr>rp_authority_revision := join_surrogates (rp_authority_revision r)\<rparr>"
proof (unfold_locales, goal_cases)
  case (1 k p)
  then show ?case by (cases k) (auto simp: path_kinds)
next
  case (2 k r)
  then show ?case by (cases k) (auto simp: stable_authority_def permit_ok_def paths_ok)
next
  case (3 k r)
  then obtain oh a i where k: "k = (oh, a, i)" "permit_ok r" "join_authority a = a" "rp_authority r = a"
    "rp_invocation_id r = i" "invocation_id_ok i" by (cases k) (auto simp: stable_authority_def permit_ok_def)
  with reread_permit [of r] show ?case
    by (auto simp: decode_permit_def check_record_def)
next
  case (4 k r)
  show ?case unfolding permit_to_dict_def permit_items_def by (rule dumps_obj_ok) (simp add: dumps_authority_ok)
qed

interpretation invocation_kind: record_kind "\<lambda>(oh, a, i). invocation_path oh a i" INVOCATION_KIND invocation_to_dict
  "\<lambda>(oh, a, i). decode_invocation a i" invocation_fits reread_record
proof (unfold_locales, goal_cases)
  case (1 k p)
  then show ?case by (cases k) (auto simp: path_kinds)
next
  case (2 k r)
  then show ?case by (cases k) (auto simp: stable_authority_def invocation_ok_def paths_ok)
next
  case (3 k r)
  then obtain oh a i where k: "k = (oh, a, i)" "invocation_ok r" "join_authority a = a" "ir_authority r = a"
    "ir_invocation_id r = i" "invocation_id_ok i" by (cases k) (auto simp: stable_authority_def invocation_ok_def)
  with reread_invocation [of r] show ?case
    by (auto simp: decode_invocation_def check_record_def reread_record_def)
next
  case (4 k r)
  then show ?case unfolding invocation_to_dict_def
    by (cases k) (auto simp: dumps_authority_ok invocation_ok_def canonical_json_ok intro!: dumps_obj_ok)
qed

end
