(* ===== verification/Invocation_Service.thy ===== *)
theory Invocation_Service
  imports Invocation_Store Resource_Operations
begin

text \<open>
  \<open>connection_hub/invocation_policy/service.py\<close>: setting and changing a policy, issuing a request
  permit, and admitting, replaying and completing an invocation.

  The service's collaborators are parameters. \<open>sv_lock\<close> acquires the mutation lock of an authority: it
  may fail, and while it waits other holders of the lock run, so it is an action on the files. Between
  acquiring a lock and returning, a request has the authority's files for itself. \<open>sv_settler\<close> is the
  host's route for finishing an interrupted card transaction, also an action on the files. \<open>sv_time\<close> is
  the clock a call reads when it is given no time. Arguments annotated as \<open>str\<close> are texts.
\<close>

section \<open>Collaborators, conflicts and markers\<close>

record service =
  sv_lock :: "path \<Rightarrow> pystr \<Rightarrow> (fs, unit) action"
  sv_settler :: "(policy_change \<Rightarrow> pystr \<Rightarrow> (fs, bool) action) option"
  sv_time :: "fs \<Rightarrow> int"

definition MUTATION_LOCK_FILENAME :: pystr where "MUTATION_LOCK_FILENAME = lit ''.mutation.lock''"

definition ends_with :: "pystr \<Rightarrow> pystr \<Rightarrow> bool" where
  "ends_with s t \<longleftrightarrow> length t \<le> length s \<and> drop (length s - length t) s = t"

definition marker_suffix :: "policy_change \<Rightarrow> pystr" where
  "marker_suffix c = lit '':'' @ authority_key (pc_authority c)"

definition recovery_transaction_ref :: "policy_change option \<Rightarrow> pystr option" where
  "recovery_transaction_ref change = (case change of None \<Rightarrow> None
     | Some c \<Rightarrow>
        if \<not> ends_with (pc_change_id c) (marker_suffix c) then None
        else let member_id = take (length (pc_change_id c) - length (marker_suffix c)) (pc_change_id c)
             in if length member_id \<noteq> 64 \<or> (\<exists>x \<in> set member_id. \<not> is_lower_hex x) then None else Some member_id)"

definition conflict :: "string \<Rightarrow> exn" where
  "conflict reason = InvocationPolicyConflict reason 0 None"

definition conflict_at :: "string \<Rightarrow> int \<Rightarrow> exn" where
  "conflict_at reason current_revision = InvocationPolicyConflict reason current_revision None"

definition undecided :: "policy_change option \<Rightarrow> exn" where
  "undecided change = InvocationPolicyConflict ''invocation_policy_earlier_change_undecided'' 0 (recovery_transaction_ref change)"

definition invocation_policy_conflict_response :: "string \<Rightarrow> int \<Rightarrow> pystr option \<Rightarrow> pyval" where
  "invocation_policy_conflict_response reason current_revision transaction_ref = obj
     ([(''ok'', PBool False), (''error'', PStr (lit reason)), (''status'', PInt 409), (''current_revision'', PInt current_revision)]
      @ (if reason = ''invocation_policy_earlier_change_undecided''
         then (''retryable'', PBool True) # (case transaction_ref of None \<Rightarrow> []
                | Some m \<Rightarrow> [(''transaction_ref'', obj [(''member_transaction_id'', PStr m)])])
         else []))"

definition transaction_owned :: "policy_change \<Rightarrow> bool" where
  "transaction_owned c = ends_with (pc_change_id c) (marker_suffix c)"

definition critical_section :: "service \<Rightarrow> pystr \<Rightarrow> authority \<Rightarrow> (fs, unit) action" where
  "critical_section sv oh a = bindS (liftS (authority_path oh a)) (\<lambda>p.
     sv_lock sv (p @ [MUTATION_LOCK_FILENAME]) (lit ''invocation-policy:'' @ authority_key a))"

definition policy_authorities :: "authority \<Rightarrow> exn + authority list" where
  "policy_authorities a =
     (if ia_provider_id a = [] then Inr [a]
      else bindE (mk_authority (PStr (ia_access_id a)) (PStr (ia_resource a)) (PStr (ia_surface a)) (PStr (ia_operation a))
                    (PStr []) (PStr [])) (\<lambda>general. Inr (sort_key authority_key [a, general])))"

definition validated_policy_authority :: "authority \<Rightarrow> authority option \<Rightarrow> exn + authority" where
  "validated_policy_authority a policy_authority =
     (let selected = (case policy_authority of None \<Rightarrow> a | Some b \<Rightarrow> b);
          same_boundary = (ia_access_id selected = ia_access_id a \<and> ia_surface selected = ia_surface a
            \<and> ia_operation selected = ia_operation a \<and> ia_provider_id selected = ia_provider_id a
            \<and> ia_account_id selected = ia_account_id a)
      in if \<not> same_boundary \<or> \<not> resource_matches (PStr (ia_resource selected)) (PStr (ia_resource a))
         then Inl (InvocationPolicyRecordError ''policy_authority_invalid'') else Inr selected)"

definition require_owner :: "pystr \<Rightarrow> (fs, unit) action" where
  "require_owner owner = liftS (check_record (owner \<noteq> []) ''owner_subject_missing'')"

definition moment_of :: "service \<Rightarrow> int option \<Rightarrow> (fs, int) action" where
  "moment_of sv now = (\<lambda>s. (s, Inr (case now of Some n \<Rightarrow> n | None \<Rightarrow> sv_time sv s)))"

definition revision_of :: "policy option \<Rightarrow> int" where
  "revision_of current = (case current of None \<Rightarrow> 0 | Some p \<Rightarrow> ip_revision p)"

section \<open>Reads\<close>

definition list_for_card :: "pystr \<Rightarrow> pystr \<Rightarrow> (fs, policy list) action" where
  "list_for_card owner_subject access_id =
     (let owner = py_strip owner_subject
      in bindS (require_owner owner) (\<lambda>_. bindS (liftS (owner_hash_for owner)) (\<lambda>oh. list_policies oh access_id)))"

definition get_policy :: "pystr \<Rightarrow> authority \<Rightarrow> (fs, policy option) action" where
  "get_policy owner_subject a =
     (let owner = py_strip owner_subject
      in bindS (require_owner owner) (\<lambda>_. bindS (liftS (owner_hash_for owner)) (\<lambda>oh. read_policy oh a)))"

definition get_policy_change :: "pystr \<Rightarrow> authority \<Rightarrow> (fs, policy_change option) action" where
  "get_policy_change owner_subject a =
     (let owner = py_strip owner_subject
      in bindS (require_owner owner) (\<lambda>_. bindS (liftS (owner_hash_for owner)) (\<lambda>oh. read_policy_change oh a)))"

section \<open>Setting a policy\<close>

text \<open>
  A round of \<open>set_policy\<close> or \<open>prepare_policy_change\<close> returns its result, or the marker of a card
  transaction to be settled first.
\<close>

datatype 'a round = Done 'a | Settle policy_change

definition marker_moved :: "policy_change \<Rightarrow> policy_change \<Rightarrow> bool" where
  "marker_moved settling c \<longleftrightarrow> pc_state c = POLICY_CHANGE_PREPARED \<or> pc_change_id c \<noteq> pc_change_id settling
     \<or> pc_authority c \<noteq> pc_authority settling \<or> pc_mode c \<noteq> pc_mode settling
     \<or> pc_expected_policy_revision c \<noteq> pc_expected_policy_revision settling
     \<or> pc_prepared_at c \<noteq> pc_prepared_at settling
     \<or> (pc_state settling = POLICY_CHANGE_COMMITTED \<and> pc_committed_at c \<noteq> pc_committed_at settling)"

text \<open>The settled marker is retired only when the policy it published is the current one.\<close>

definition retire_settled ::
  "pystr \<Rightarrow> authority \<Rightarrow> policy_change option \<Rightarrow> policy_change option \<Rightarrow> bool \<Rightarrow> policy option \<Rightarrow> (fs, unit) action" where
  "retire_settled oh a change settling settled current =
     (case (change, settling) of (Some c, Some _) \<Rightarrow>
        if \<not> settled \<or> pc_state c \<noteq> POLICY_CHANGE_COMMITTED
           \<or> (case current of None \<Rightarrow> True | Some p \<Rightarrow> ip_revision p \<noteq> pc_policy_revision c \<or> ip_mode p \<noteq> pc_mode c)
        then failS (undecided (Some c)) else delete_policy_change oh a
      | _ \<Rightarrow> retS ())"

definition check_expected :: "int option \<Rightarrow> int \<Rightarrow> (fs, unit) action" where
  "check_expected expected current_revision =
     liftS (requireE (case expected of None \<Rightarrow> True | Some e \<Rightarrow> e = current_revision)
       (conflict_at ''invocation_policy_revision_moved'' current_revision))"

definition is_prepared :: "policy_change option \<Rightarrow> bool" where
  "is_prepared change = (case change of None \<Rightarrow> False | Some c \<Rightarrow> pc_state c = POLICY_CHANGE_PREPARED)"

definition publish_policy :: "pystr \<Rightarrow> authority \<Rightarrow> policy_mode \<Rightarrow> int \<Rightarrow> int \<Rightarrow> (fs, policy) action" where
  "publish_policy oh a mode revision moment =
     bindS (liftS (mk_policy a (PStr (mode_text mode)) revision (PStr (policy_state_text POLICY_AVAILABLE))
       (PStr []) (PStr []) 0 moment)) (\<lambda>p.
     bindS (write_policy oh p) (\<lambda>_. retS p))"

definition set_policy_round ::
  "service \<Rightarrow> pystr \<Rightarrow> authority \<Rightarrow> policy_mode \<Rightarrow> int option \<Rightarrow> int \<Rightarrow> policy_change option \<Rightarrow> bool \<Rightarrow> (fs, policy round) action" where
  "set_policy_round sv oh a mode expected moment settling settled =
     bindS (critical_section sv oh a) (\<lambda>_.
     bindS (read_policy_change oh a) (\<lambda>change.
     bindS (read_policy oh a) (\<lambda>current.
     bindS (check_expected expected (revision_of current)) (\<lambda>_.
       case (change, settling) of
         (Some c, None) \<Rightarrow>
           if transaction_owned c then retS (Settle c)
           else bindS (if is_prepared change then delete_policy_change oh a else retS ()) (\<lambda>_.
                bindS (publish_policy oh a mode (revision_of current + 1) moment) (\<lambda>p. retS (Done p)))
       | (Some c, Some st) \<Rightarrow>
           if marker_moved st c then failS (undecided change)
           else bindS (retire_settled oh a change settling settled current) (\<lambda>_.
                bindS (if is_prepared change then delete_policy_change oh a else retS ()) (\<lambda>_.
                bindS (publish_policy oh a mode (revision_of current + 1) moment) (\<lambda>p. retS (Done p))))
       | (None, _) \<Rightarrow> bindS (publish_policy oh a mode (revision_of current + 1) moment) (\<lambda>p. retS (Done p))))))"

fun settle_rounds ::
  "service \<Rightarrow> pystr \<Rightarrow> (policy_change option \<Rightarrow> bool \<Rightarrow> (fs, 'a round) action) \<Rightarrow> nat \<Rightarrow> policy_change option \<Rightarrow> bool \<Rightarrow> (fs, 'a) action" where
  "settle_rounds sv owner round 0 settling settled = failS (undecided settling)"
| "settle_rounds sv owner round (Suc n) settling settled =
     bindS (round settling settled) (\<lambda>r.
       case r of Done x \<Rightarrow> retS x
       | Settle c \<Rightarrow>
          (case sv_settler sv of None \<Rightarrow> failS (conflict ''invocation_policy_change_in_progress'')
           | Some settler \<Rightarrow> bindS (settler c owner) (\<lambda>ok.
               if ok then settle_rounds sv owner round n (Some c) True else failS (undecided (Some c)))))"

definition set_policy :: "service \<Rightarrow> pystr \<Rightarrow> authority \<Rightarrow> pystr \<Rightarrow> int option \<Rightarrow> int option \<Rightarrow> (fs, policy) action" where
  "set_policy sv owner_subject a mode expected now =
     (let owner = py_strip owner_subject
      in bindS (require_owner owner) (\<lambda>_.
         bindS (liftS (member_or (POLICY_MODES (py_lower (py_strip mode))) ''policy_mode_invalid'')) (\<lambda>m.
         bindS (liftS (owner_hash_for owner)) (\<lambda>oh.
         bindS (moment_of sv now) (\<lambda>moment.
           settle_rounds sv owner (set_policy_round sv oh a m expected moment) 2 None False)))))"

section \<open>Changing a policy together with a card\<close>

definition place_marker :: "pystr \<Rightarrow> authority \<Rightarrow> policy_mode \<Rightarrow> pystr \<Rightarrow> int \<Rightarrow> int \<Rightarrow> (fs, policy_change) action" where
  "place_marker oh a mode cid current_revision moment =
     bindS (liftS (mk_policy_change a (PStr cid) (PStr (mode_text mode)) (PStr (change_state_text POLICY_CHANGE_PREPARED))
       current_revision 0 moment 0)) (\<lambda>c.
     bindS (write_policy_change oh c) (\<lambda>_. retS c))"

definition prepare_round ::
  "service \<Rightarrow> pystr \<Rightarrow> authority \<Rightarrow> policy_mode \<Rightarrow> pystr \<Rightarrow> int option \<Rightarrow> int \<Rightarrow> policy_change option \<Rightarrow> bool
     \<Rightarrow> (fs, policy_change round) action" where
  "prepare_round sv oh a mode cid expected moment settling settled =
     bindS (critical_section sv oh a) (\<lambda>_.
     bindS (read_policy_change oh a) (\<lambda>existing.
       if (case existing of None \<Rightarrow> False | Some c \<Rightarrow> pc_change_id c = cid)
       then (if pc_mode (the existing) = mode then retS (Done (the existing))
             else failS (conflict ''invocation_policy_change_in_progress''))
       else
         bindS (read_policy oh a) (\<lambda>current.
         bindS (check_expected expected (revision_of current)) (\<lambda>_.
           case (existing, settling) of
             (Some c, None) \<Rightarrow>
               if transaction_owned c then retS (Settle c)
               else bindS (place_marker oh a mode cid (revision_of current) moment) (\<lambda>x. retS (Done x))
           | (Some c, Some st) \<Rightarrow>
               if marker_moved st c then failS (undecided existing)
               else bindS (retire_settled oh a existing settling settled current) (\<lambda>_.
                    bindS (place_marker oh a mode cid (revision_of current) moment) (\<lambda>x. retS (Done x)))
           | (None, _) \<Rightarrow> bindS (place_marker oh a mode cid (revision_of current) moment) (\<lambda>x. retS (Done x))))))"

definition prepare_policy_change ::
  "service \<Rightarrow> pystr \<Rightarrow> authority \<Rightarrow> pystr \<Rightarrow> pystr \<Rightarrow> int option \<Rightarrow> int option \<Rightarrow> (fs, policy_change) action" where
  "prepare_policy_change sv owner_subject a mode change_id expected now =
     (let owner = py_strip owner_subject
      in bindS (liftS (validated_invocation_id (PStr change_id))) (\<lambda>cid.
         bindS (require_owner owner) (\<lambda>_.
         bindS (liftS (member_or (POLICY_MODES (py_lower (py_strip mode))) ''policy_mode_invalid'')) (\<lambda>m.
         bindS (liftS (owner_hash_for owner)) (\<lambda>oh.
         bindS (moment_of sv now) (\<lambda>moment.
           settle_rounds sv owner (prepare_round sv oh a m cid expected moment) 2 None False))))))"

definition commit_marker :: "pystr \<Rightarrow> policy_change \<Rightarrow> int \<Rightarrow> int \<Rightarrow> (fs, unit) action" where
  "commit_marker oh c target_revision moment =
     bindS (liftS (mk_policy_change (pc_authority c) (PStr (pc_change_id c)) (PStr (mode_text (pc_mode c)))
       (PStr (change_state_text POLICY_CHANGE_COMMITTED)) (pc_expected_policy_revision c) target_revision
       (pc_prepared_at c) moment)) (\<lambda>committed. write_policy_change oh committed)"

definition commit_policy_change :: "service \<Rightarrow> pystr \<Rightarrow> authority \<Rightarrow> pystr \<Rightarrow> int option \<Rightarrow> (fs, policy) action" where
  "commit_policy_change sv owner_subject a change_id now =
     (let owner = py_strip owner_subject
      in bindS (liftS (validated_invocation_id (PStr change_id))) (\<lambda>cid.
         bindS (require_owner owner) (\<lambda>_.
         bindS (liftS (owner_hash_for owner)) (\<lambda>oh.
         bindS (moment_of sv now) (\<lambda>moment.
         bindS (critical_section sv oh a) (\<lambda>_.
         bindS (read_policy_change oh a) (\<lambda>change.
           case change of None \<Rightarrow> failS (conflict ''invocation_policy_change_missing'')
           | Some c \<Rightarrow>
              if pc_change_id c \<noteq> cid then failS (conflict ''invocation_policy_change_missing'')
              else bindS (read_policy oh a) (\<lambda>current.
                let target_revision = pc_expected_policy_revision c + 1
                in if pc_state c = POLICY_CHANGE_COMMITTED then
                     (case current of None \<Rightarrow> failS (conflict_at ''invocation_policy_change_commit_moved'' 0)
                      | Some p \<Rightarrow>
                         if ip_revision p \<noteq> pc_policy_revision c \<or> ip_mode p \<noteq> pc_mode c
                         then failS (conflict_at ''invocation_policy_change_commit_moved'' (ip_revision p))
                         else retS p)
                   else bindS
                     (if revision_of current = pc_expected_policy_revision c
                      then publish_policy oh a (pc_mode c) target_revision moment
                      else case current of None \<Rightarrow> failS (conflict_at ''invocation_policy_change_commit_moved'' 0)
                        | Some p \<Rightarrow>
                           if ip_revision p = target_revision \<and> ip_mode p = pc_mode c \<and> ip_state p = POLICY_AVAILABLE
                           then retS p
                           else failS (conflict_at ''invocation_policy_change_commit_moved'' (ip_revision p))) (\<lambda>p.
                     bindS (commit_marker oh c target_revision moment) (\<lambda>_. retS p))))))))))"

definition release_policy_change :: "service \<Rightarrow> pystr \<Rightarrow> authority \<Rightarrow> pystr \<Rightarrow> (fs, bool) action" where
  "release_policy_change sv owner_subject a change_id =
     (let owner = py_strip owner_subject
      in bindS (liftS (validated_invocation_id (PStr change_id))) (\<lambda>cid.
         bindS (require_owner owner) (\<lambda>_.
         bindS (liftS (owner_hash_for owner)) (\<lambda>oh.
         bindS (critical_section sv oh a) (\<lambda>_.
         bindS (read_policy_change oh a) (\<lambda>change.
           if (case change of None \<Rightarrow> True | Some c \<Rightarrow> pc_change_id c \<noteq> cid \<or> pc_state c \<noteq> POLICY_CHANGE_PREPARED)
           then retS False
           else bindS (delete_policy_change oh a) (\<lambda>_. retS True)))))))"

section \<open>Request permits\<close>

fun lock_all :: "service \<Rightarrow> pystr \<Rightarrow> authority list \<Rightarrow> (fs, unit) action" where
  "lock_all sv oh [] = retS ()"
| "lock_all sv oh (a # as) = bindS (critical_section sv oh a) (\<lambda>_. lock_all sv oh as)"

text \<open>The policy that governs an authority: its own if it has one, else the general one.\<close>

fun permit_policy :: "pystr \<Rightarrow> authority \<Rightarrow> authority list \<Rightarrow> policy option \<Rightarrow> (fs, policy option) action" where
  "permit_policy oh a [] found = retS found"
| "permit_policy oh a (b # bs) found =
     bindS (read_policy_change oh b) (\<lambda>change.
       if is_prepared change then failS (conflict ''invocation_policy_change_in_progress'')
       else bindS (read_policy oh b) (\<lambda>candidate.
         permit_policy oh a bs
           (case candidate of None \<Rightarrow> found
            | Some p \<Rightarrow> if found = None \<or> ip_authority p = a then Some p else found)))"

definition issue_request_permit ::
  "service \<Rightarrow> pystr \<Rightarrow> authority \<Rightarrow> pystr \<Rightarrow> pystr \<Rightarrow> int \<Rightarrow> pystr \<Rightarrow> int \<Rightarrow> int option \<Rightarrow> (fs, permit) action" where
  "issue_request_permit sv owner_subject a invocation_id request_digest card_revision authority_revision ttl_seconds now =
     (let owner = py_strip owner_subject
      in bindS (require_owner owner) (\<lambda>_.
         bindS (liftS (validated_invocation_id (PStr invocation_id))) (\<lambda>iid.
         bindS (liftS (validated_request_digest (PStr request_digest))) (\<lambda>digest.
         let clean_authority_revision = py_strip authority_revision
         in bindS (liftS (check_record (1 \<le> card_revision) ''request_permit_card_revision_invalid'')) (\<lambda>_.
            bindS (liftS (check_record (clean_authority_revision \<noteq> []) ''request_permit_authority_revision_missing'')) (\<lambda>_.
            bindS (liftS (check_record (1 \<le> ttl_seconds) ''request_permit_ttl_invalid'')) (\<lambda>_.
            bindS (liftS (owner_hash_for owner)) (\<lambda>oh.
            bindS (moment_of sv now) (\<lambda>moment.
            bindS (liftS (policy_authorities a)) (\<lambda>as.
            bindS (lock_all sv oh as) (\<lambda>_.
            bindS (permit_policy oh a as None) (\<lambda>found.
              case found of None \<Rightarrow> failS (conflict ''request_permit_requires_once_policy'')
              | Some p \<Rightarrow>
                 if ip_mode p \<noteq> POLICY_ONCE then failS (conflict ''request_permit_requires_once_policy'')
                 else if ip_state p \<noteq> POLICY_AVAILABLE then failS (conflict ''delegated_invocation_limit_exhausted'')
                 else bindS (read_request_permit oh a iid) (\<lambda>existing.
                   case existing of
                     Some r \<Rightarrow>
                       if rp_request_digest r = digest \<and> rp_card_revision r = card_revision
                          \<and> rp_authority_revision r = clean_authority_revision \<and> rp_policy_revision r = ip_revision p
                       then retS r else failS (conflict ''request_permit_identity_moved'')
                   | None \<Rightarrow>
                       bindS (liftS (mk_permit a (PStr iid) (PStr digest) card_revision (PStr clean_authority_revision)
                         (ip_revision p) 1 (PStr (permit_state_text REQUEST_PERMIT_AVAILABLE)) moment (moment + ttl_seconds) 0)) (\<lambda>r.
                       bindS (write_request_permit oh r) (\<lambda>_. retS r)))))))))))))))"

section \<open>Admitting an invocation\<close>

definition refused :: "string \<Rightarrow> policy option \<Rightarrow> decision" where
  "refused reason p = (mk_decision False reason False)\<lparr>id_policy := p\<rparr>"

text \<open>What a call with a known invocation id gets: never a dispatch.\<close>

definition replay_decision :: "policy option \<Rightarrow> invocation \<Rightarrow> pystr \<Rightarrow> bool \<Rightarrow> int \<Rightarrow> pystr \<Rightarrow> decision" where
  "replay_decision p existing digest require_request_permit card_revision authority_revision =
     (if ir_request_digest existing \<noteq> digest
      then (refused ''delegated_invocation_id_conflict'' p)\<lparr>id_invocation := Some existing\<rparr>
      else if require_request_permit \<and> (ir_card_revision existing \<noteq> max 0 card_revision
             \<or> ir_authority_revision existing \<noteq> py_strip authority_revision)
      then (refused ''delegated_request_authority_moved'' p)\<lparr>id_invocation := Some existing\<rparr>
      else if ir_state existing = INVOCATION_COMPLETED
      then (mk_decision (\<not> ir_result_is_error existing)
             (if \<not> ir_result_is_error existing then ''delegated_invocation_replayed''
              else ''delegated_invocation_terminal_error_replayed'') False)
             \<lparr>id_replay := True, id_policy := p, id_invocation := Some existing\<rparr>
      else (refused ''delegated_invocation_outcome_pending'' p)
             \<lparr>id_replay := True, id_retryable := True, id_invocation := Some existing\<rparr>)"

text \<open>The refusal of a request permit that cannot be used, if any.\<close>

definition permit_refusal :: "policy \<Rightarrow> permit option \<Rightarrow> pystr \<Rightarrow> int \<Rightarrow> pystr \<Rightarrow> int \<Rightarrow> decision option" where
  "permit_refusal p found digest card_revision authority_revision moment =
     (case found of None \<Rightarrow> Some (refused ''delegated_request_permit_required'' (Some p))
      | Some r \<Rightarrow>
         (let refuse = (\<lambda>reason. Some ((refused reason (Some p))\<lparr>id_request_permit := Some r\<rparr>))
          in if rp_request_digest r \<noteq> digest then refuse ''delegated_request_permit_mismatch''
             else if rp_state r \<noteq> REQUEST_PERMIT_AVAILABLE then refuse ''delegated_request_permit_consumed''
             else if rp_expires_at r \<le> moment then refuse ''delegated_request_permit_expired''
             else if rp_card_revision r \<noteq> max 0 card_revision \<or> rp_authority_revision r \<noteq> py_strip authority_revision
                     \<or> rp_policy_revision r \<noteq> ip_revision p
             then refuse ''delegated_request_permit_stale''
             else None))"

definition is_once :: "policy option \<Rightarrow> bool" where
  "is_once p = (case p of None \<Rightarrow> False | Some q \<Rightarrow> ip_mode q = POLICY_ONCE)"

definition consume_permit :: "pystr \<Rightarrow> permit option \<Rightarrow> int \<Rightarrow> (fs, permit option) action" where
  "consume_permit oh found moment = (case found of None \<Rightarrow> retS None
     | Some r \<Rightarrow>
        bindS (liftS (mk_permit (rp_authority r) (PStr (rp_invocation_id r)) (PStr (rp_request_digest r)) (rp_card_revision r)
          (PStr (rp_authority_revision r)) (rp_policy_revision r) (rp_revision r)
          (PStr (permit_state_text REQUEST_PERMIT_CONSUMED)) (rp_issued_at r) (rp_expires_at r) moment)) (\<lambda>used.
        bindS (write_request_permit oh used) (\<lambda>_. retS (Some used))))"

definition consume_policy :: "pystr \<Rightarrow> policy option \<Rightarrow> pystr \<Rightarrow> pystr \<Rightarrow> int \<Rightarrow> (fs, policy option) action" where
  "consume_policy oh p iid digest moment = (case p of None \<Rightarrow> retS None
     | Some q \<Rightarrow>
        if ip_mode q \<noteq> POLICY_ONCE then retS p
        else bindS (liftS (mk_policy (ip_authority q) (PStr (mode_text (ip_mode q))) (ip_revision q)
               (PStr (policy_state_text POLICY_CONSUMED)) (PStr iid) (PStr digest) moment moment)) (\<lambda>used.
             bindS (write_policy oh used) (\<lambda>_. retS (Some used))))"

text \<open>The reservation is written before the permit and the policy are consumed.\<close>

definition dispatch_new ::
  "pystr \<Rightarrow> authority \<Rightarrow> policy option \<Rightarrow> permit option \<Rightarrow> pystr \<Rightarrow> pystr \<Rightarrow> int \<Rightarrow> pystr \<Rightarrow> int \<Rightarrow> (fs, decision) action" where
  "dispatch_new oh a p found iid digest card_revision authority_revision moment =
     bindS (liftS (mk_invocation a (PStr iid) (PStr digest)
       (PStr (case p of Some q \<Rightarrow> policy_id q | None \<Rightarrow> lit ''default_'' @ take 24 (authority_key a)))
       (revision_of p) (PStr (mode_text (if is_once p then POLICY_ONCE else POLICY_ALWAYS)))
       (PStr (invocation_state_text INVOCATION_RESERVED)) card_revision (py_strip authority_revision)
       (case found of Some r \<Rightarrow> rp_revision r | None \<Rightarrow> 0) PNone False moment 0)) (\<lambda>reservation.
     bindS (write_invocation oh reservation) (\<lambda>_.
     bindS (consume_permit oh found moment) (\<lambda>used_permit.
     bindS (consume_policy oh p iid digest moment) (\<lambda>used_policy.
       retS ((mk_decision True ''delegated_invocation_allowed'' True)
         \<lparr>id_policy := used_policy, id_invocation := Some reservation, id_request_permit := used_permit\<rparr>)))))"

definition begin_locked ::
  "pystr \<Rightarrow> authority \<Rightarrow> policy option \<Rightarrow> pystr \<Rightarrow> pystr \<Rightarrow> int \<Rightarrow> pystr \<Rightarrow> bool \<Rightarrow> bool \<Rightarrow> int \<Rightarrow> (fs, decision) action" where
  "begin_locked oh a p invocation_id request_digest card_revision authority_revision
     require_request_permit require_explicit_policy moment =
     (if require_explicit_policy \<and> p = None then retS (refused ''delegated_invocation_policy_required'' None)
      else if require_request_permit \<and> p = None then retS (refused ''delegated_request_policy_required'' None)
      else if py_strip invocation_id = [] then
        (if is_once p \<or> require_request_permit then retS (refused ''delegated_invocation_id_required'' p)
         else retS ((mk_decision True ''delegated_invocation_allowed'' True)\<lparr>id_policy := p\<rparr>))
      else
        bindS (liftS (validated_invocation_id (PStr invocation_id))) (\<lambda>iid.
        bindS (liftS (validated_request_digest (PStr request_digest))) (\<lambda>digest.
        bindS (read_invocation oh a iid) (\<lambda>existing.
          case existing of
            Some r \<Rightarrow> retS (replay_decision p r digest require_request_permit card_revision authority_revision)
          | None \<Rightarrow>
             (case p of
                Some q \<Rightarrow>
                  if ip_mode q = POLICY_ONCE \<and> ip_state q = POLICY_CONSUMED
                  then retS (refused ''delegated_invocation_limit_exhausted'' p)
                  else if require_request_permit \<and> ip_mode q = POLICY_ONCE then
                    bindS (read_request_permit oh a iid) (\<lambda>found.
                      case permit_refusal q found digest card_revision authority_revision moment of
                        Some d \<Rightarrow> retS d
                      | None \<Rightarrow> dispatch_new oh a p found iid digest card_revision authority_revision moment)
                  else dispatch_new oh a p None iid digest card_revision authority_revision moment
              | None \<Rightarrow> dispatch_new oh a p None iid digest card_revision authority_revision moment)))))"

definition changing :: "policy option \<Rightarrow> decision" where
  "changing p = (refused ''delegated_invocation_policy_changing'' p)\<lparr>id_retryable := True\<rparr>"

definition begin_invocation ::
  "service \<Rightarrow> pystr \<Rightarrow> authority \<Rightarrow> pystr \<Rightarrow> pystr \<Rightarrow> int \<Rightarrow> pystr \<Rightarrow> bool \<Rightarrow> bool \<Rightarrow> authority option \<Rightarrow> int option
     \<Rightarrow> (fs, decision) action" where
  "begin_invocation sv owner_subject a invocation_id request_digest card_revision authority_revision
     require_request_permit require_explicit_policy policy_authority now =
     (let owner = py_strip owner_subject
      in bindS (require_owner owner) (\<lambda>_.
         bindS (liftS (owner_hash_for owner)) (\<lambda>oh.
         bindS (moment_of sv now) (\<lambda>moment.
         bindS (liftS (validated_policy_authority a policy_authority)) (\<lambda>selected.
         bindS (liftS (policy_authorities selected)) (\<lambda>as.
         bindS (liftS (policy_authorities a)) (\<lambda>own.
         bindS (lock_all sv oh (sort_key authority_key (remdups (own @ as)))) (\<lambda>_.
         bindS (read_policy oh selected) (\<lambda>exact_policy.
         bindS (read_policy_change oh selected) (\<lambda>exact_change.
           if is_prepared exact_change then retS (changing exact_policy)
           else
             (case (exact_policy, find (\<lambda>b. b \<noteq> selected) as) of
                (None, Some general) \<Rightarrow>
                  bindS (read_policy_change oh general) (\<lambda>general_change.
                    if is_prepared general_change then retS (changing None)
                    else bindS (read_policy oh general) (\<lambda>p.
                      begin_locked oh a p invocation_id request_digest card_revision authority_revision
                        require_request_permit require_explicit_policy moment))
              | _ \<Rightarrow> begin_locked oh a exact_policy invocation_id request_digest card_revision authority_revision
                       require_request_permit require_explicit_policy moment)))))))))))"

section \<open>Completing an invocation\<close>

definition complete_invocation ::
  "service \<Rightarrow> pystr \<Rightarrow> authority \<Rightarrow> pystr \<Rightarrow> pystr \<Rightarrow> pyval \<Rightarrow> bool \<Rightarrow> int option \<Rightarrow> (fs, invocation) action" where
  "complete_invocation sv owner_subject a invocation_id request_digest result result_is_error now =
     (let owner = py_strip owner_subject
      in bindS (require_owner owner) (\<lambda>_.
         bindS (liftS (owner_hash_for owner)) (\<lambda>oh.
         bindS (liftS (validated_invocation_id (PStr invocation_id))) (\<lambda>iid.
         bindS (liftS (validated_request_digest (PStr request_digest))) (\<lambda>digest.
         bindS (moment_of sv now) (\<lambda>moment.
         bindS (critical_section sv oh a) (\<lambda>_.
         bindS (read_invocation oh a iid) (\<lambda>existing.
           case existing of None \<Rightarrow> failS (conflict ''invocation_reservation_missing'')
           | Some r \<Rightarrow>
              if ir_request_digest r \<noteq> digest then failS (conflict ''invocation_request_digest_moved'')
              else if ir_state r = INVOCATION_COMPLETED then retS r
              else
                bindS (liftS (mk_invocation (ir_authority r) (PStr (ir_invocation_id r)) (PStr (ir_request_digest r)) (ir_policy_id r)
                  (ir_policy_revision r) (PStr (mode_text (ir_policy_mode r)))
                  (PStr (invocation_state_text INVOCATION_COMPLETED)) (ir_card_revision r) (ir_authority_revision r)
                  (ir_request_permit_revision r) result result_is_error (ir_created_at r) moment)) (\<lambda>completed.
                bindS (write_invocation oh completed) (\<lambda>_. retS completed))))))))))"

end
