(* ===== verification/Invocation_Safety.thy ===== *)
theory Invocation_Safety
  imports Invocation_Service
begin

text \<open>
  What the invocation policies of \<open>connection_hub/invocation_policy\<close> promise over whole histories of
  requests. First an order on the stored files that every operation of the service follows, shown with
  triples over the service's actions; then what a dispatch needs and what it leaves behind; then that a
  history of requests, with every fault of the store and whatever runs while a lock is awaited, follows
  the order too.
\<close>

section \<open>What never goes back\<close>

definition present :: "stored_file option \<Rightarrow> bool" where
  "present f \<longleftrightarrow> f \<noteq> None \<and> f \<noteq> Some (Json PNone)"

definition record_in :: "(pydict \<Rightarrow> exn + 'r) \<Rightarrow> stored_file option \<Rightarrow> 'r option" where
  "record_in dec f = (case f of Some (Json (PDict d)) \<Rightarrow> (case dec d of Inr r \<Rightarrow> Some r | Inl _ \<Rightarrow> None) | _ \<Rightarrow> None)"

lemma record_in_Json [simp]: "record_in dec (Some (Json (PDict d))) = (case dec d of Inr r \<Rightarrow> Some r | Inl _ \<Rightarrow> None)"
  by (simp add: record_in_def)

definition policy_le :: "policy \<Rightarrow> policy \<Rightarrow> bool" where
  "policy_le p q \<longleftrightarrow> ip_revision p < ip_revision q \<or>
     (ip_revision p = ip_revision q \<and> ip_mode q = ip_mode p \<and> (ip_state p = POLICY_CONSUMED \<longrightarrow> ip_state q = POLICY_CONSUMED))"

definition policy_file_le :: "stored_file option \<Rightarrow> stored_file option \<Rightarrow> bool" where
  "policy_file_le f g \<longleftrightarrow> (\<forall>p. record_in policy_from_mapping f = Some p \<longrightarrow>
     (\<exists>q. record_in policy_from_mapping g = Some q \<and> policy_le p q))"

definition invocation_file_le :: "stored_file option \<Rightarrow> stored_file option \<Rightarrow> bool" where
  "invocation_file_le f g \<longleftrightarrow> (present f \<longrightarrow> present g) \<and>
     (\<forall>r. record_in invocation_from_mapping f = Some r \<longrightarrow>
       (\<exists>q. record_in invocation_from_mapping g = Some q \<and> ir_request_digest q = ir_request_digest r
          \<and> (ir_state r = INVOCATION_COMPLETED \<longrightarrow> g = f)))"

text \<open>
  The order on states: the revision of a stored policy never falls and a consumed policy stays
  consumed until its revision rises; an invocation record never disappears, keeps its request
  digest, and is final once it is completed.
\<close>

definition progress :: "fs \<Rightarrow> fs \<Rightarrow> bool" where
  "progress s s' \<longleftrightarrow>
     (\<forall>p. path_kind p = POLICY_KIND \<longrightarrow> policy_file_le (fs_lookup s p) (fs_lookup s' p)) \<and>
     (\<forall>p. path_kind p = INVOCATION_KIND \<longrightarrow> invocation_file_le (fs_lookup s p) (fs_lookup s' p))"

lemma policy_file_le_refl [simp]: "policy_file_le f f"
  by (auto simp: policy_file_le_def policy_le_def)

lemma policy_file_le_trans: "policy_file_le f g \<Longrightarrow> policy_file_le g h \<Longrightarrow> policy_file_le f h"
  unfolding policy_file_le_def policy_le_def by (smt (verit))

lemma invocation_file_le_refl [simp]: "invocation_file_le f f"
  by (auto simp: invocation_file_le_def)

lemma invocation_file_le_trans: "invocation_file_le f g \<Longrightarrow> invocation_file_le g h \<Longrightarrow> invocation_file_le f h"
  unfolding invocation_file_le_def by (smt (verit) option.inject)

lemma progress_same: "same_files s s' \<Longrightarrow> progress s s'"
  by (simp add: progress_def same_files_def)

lemma progress_refl [simp]: "progress s s"
  by (simp add: progress_same)

lemma progress_trans: "progress s s1 \<Longrightarrow> progress s1 s2 \<Longrightarrow> progress s s2"
  unfolding progress_def by (meson policy_file_le_trans invocation_file_le_trans)

lemma progress_other_kind:
  "puts path v s s' \<Longrightarrow> (\<And>p. path = Inr p \<Longrightarrow> path_kind p \<noteq> POLICY_KIND \<and> path_kind p \<noteq> INVOCATION_KIND) \<Longrightarrow> progress s s'"
  "drops path s s' \<Longrightarrow> (\<And>p. path = Inr p \<Longrightarrow> path_kind p \<noteq> POLICY_KIND \<and> path_kind p \<noteq> INVOCATION_KIND) \<Longrightarrow> progress s s'"
  by (auto simp: progress_def puts_def drops_def)

section \<open>Operations that make progress\<close>

text \<open>\<open>proves P m Q\<close>: from a state with \<open>P\<close>, \<open>m\<close> makes progress and ends in \<open>Q\<close> if it returns.\<close>

definition proves :: "(fs \<Rightarrow> bool) \<Rightarrow> (fs, 'a) action \<Rightarrow> ('a \<Rightarrow> fs \<Rightarrow> bool) \<Rightarrow> bool" where
  "proves P m Q \<longleftrightarrow> (\<forall>s s' r. P s \<longrightarrow> m s = (s', r) \<longrightarrow> progress s s' \<and> (\<forall>x. r = Inr x \<longrightarrow> Q x s'))"

lemma proves_bind: "proves P m Q \<Longrightarrow> (\<And>x. proves (Q x) (f x) R) \<Longrightarrow> proves P (bindS m f) R"
  unfolding proves_def by (blast elim!: bindS_cases intro: progress_trans)

lemma proves_weaken: "proves P m Q \<Longrightarrow> (\<And>s. P' s \<Longrightarrow> P s) \<Longrightarrow> (\<And>x s. Q x s \<Longrightarrow> Q' x s) \<Longrightarrow> proves P' m Q'"
  unfolding proves_def by blast

lemma proves_simple [intro]:
  "(\<And>s. P s \<Longrightarrow> Q x s) \<Longrightarrow> proves P (retS x) Q"
  "proves P (failS e) Q"
  "(\<And>s x. P s \<Longrightarrow> r = Inr x \<Longrightarrow> Q x s) \<Longrightarrow> proves P (liftS r) Q"
  by (auto simp: proves_def)

definition stable :: "(fs \<Rightarrow> bool) \<Rightarrow> bool" where
  "stable P \<longleftrightarrow> (\<forall>s s'. same_files s s' \<longrightarrow> P s \<longrightarrow> P s')"

lemma stable_simps [simp]: "stable (\<lambda>_. b)" "stable P \<Longrightarrow> stable Q \<Longrightarrow> stable (\<lambda>s. P s \<and> Q s)"
  "stable (\<lambda>s. stored path dec s = x)"
  by (auto simp: stable_def stored_same)

lemma proves_read: "stable P \<Longrightarrow> proves P (read_record path dec) (\<lambda>x s. P s \<and> stored path dec s = Inr x)"
  unfolding proves_def stable_def by (metis progress_same read_record_run stored_same)

lemma proves_moment: "proves P (moment_of sv now) (\<lambda>_. P)"
  by (auto simp: proves_def moment_of_def)

lemma proves_write_other:
  assumes "\<And>p. path = Inr p \<Longrightarrow> path_kind p \<noteq> POLICY_KIND \<and> path_kind p \<noteq> INVOCATION_KIND"
  shows "proves P (write_record path v) (\<lambda>_ s'. \<exists>s. P s \<and> puts path v s s')"
  unfolding proves_def using write_record_run [of path v] progress_other_kind(1) [of path v] progress_same assms by (metis old.unit.exhaust)

lemma proves_delete:
  "proves P (delete_policy_change oh a) (\<lambda>_ s'. \<exists>s. P s \<and> drops (policy_change_path oh a) s s')"
  unfolding proves_def using delete_policy_change_run [of oh a] progress_other_kind(2) [of "policy_change_path oh a"]
    progress_same path_kinds(2) kinds_distinct by (metis old.unit.exhaust)

abbreviation policy_at :: "pystr \<Rightarrow> authority \<Rightarrow> policy option \<Rightarrow> fs \<Rightarrow> bool" where
  "policy_at oh a x s \<equiv> stored (policy_path oh a) (decode_policy a) s = Inr x"

abbreviation change_at :: "pystr \<Rightarrow> authority \<Rightarrow> policy_change option \<Rightarrow> fs \<Rightarrow> bool" where
  "change_at oh a x s \<equiv> stored (policy_change_path oh a) (decode_change a) s = Inr x"

abbreviation invocation_at :: "pystr \<Rightarrow> authority \<Rightarrow> pystr \<Rightarrow> invocation option \<Rightarrow> fs \<Rightarrow> bool" where
  "invocation_at oh a i x s \<equiv> stored (invocation_path oh a i) (decode_invocation a i) s = Inr x"

abbreviation permit_at :: "pystr \<Rightarrow> authority \<Rightarrow> pystr \<Rightarrow> permit option \<Rightarrow> fs \<Rightarrow> bool" where
  "permit_at oh a i x s \<equiv> stored (request_permit_path oh a i) (decode_permit a i) s = Inr x"

lemma payload_Some: "bindE (parsed f) (payload_record dec) = Inr (Some r) \<longleftrightarrow> (\<exists>d. f = Some (Json (PDict d)) \<and> dec d = Inr r)"
proof (cases f)
  case (Some g)
  show ?thesis
  proof (cases g)
    case (Json v)
    then show ?thesis using Some by (cases v) (auto simp: parsed_def payload_record_def mapping_of_def)
  qed (simp add: Some parsed_def)
qed (simp add: parsed_def payload_record_def)

lemma payload_None: "bindE (parsed f) (payload_record dec) = Inr None \<longleftrightarrow> \<not> present f"
proof (cases f)
  case (Some g)
  show ?thesis
  proof (cases g)
    case (Json v)
    then show ?thesis using Some by (cases v) (auto simp: parsed_def payload_record_def mapping_of_def present_def)
  qed (simp add: Some parsed_def present_def)
qed (simp add: parsed_def payload_record_def present_def)

lemma stored_Some:
  "stored path dec s = Inr (Some r) \<longleftrightarrow> (\<exists>p d. path = Inr p \<and> fs_lookup s p = Some (Json (PDict d)) \<and> dec d = Inr r)"
  unfolding stored_def by (cases path) (simp_all add: payload_Some del: bindE_eq_Inr)

lemma stored_None: "stored path dec s = Inr None \<longleftrightarrow> (\<exists>p. path = Inr p \<and> \<not> present (fs_lookup s p))"
  unfolding stored_def by (cases path) (simp_all add: payload_None del: bindE_eq_Inr)

lemma policy_at_Some: "policy_at oh a (Some p) s \<Longrightarrow> ip_authority p = a
  \<and> (\<exists>path. policy_path oh a = Inr path \<and> record_in policy_from_mapping (fs_lookup s path) = Some p)"
  by (auto simp: stored_Some decode_policy_def check_record_def)

lemma policy_at_file:
  assumes "policy_at oh a x s" "policy_path oh a = Inr path"
  shows "record_in policy_from_mapping (fs_lookup s path) = x"
proof (cases x)
  case None
  with assms show ?thesis by (auto simp: stored_None present_def record_in_def)
next
  case (Some p)
  with policy_at_Some assms show ?thesis by fastforce
qed

section \<open>The writes of the service\<close>

lemma puts_policy_progress:
  assumes w: "puts (policy_path oh (ip_authority p)) (policy_to_dict p) s s'" and ok: "policy_ok p"
    and at: "policy_at oh (ip_authority p) current s"
    and le: "\<And>q. current = Some q \<Longrightarrow> policy_le q p"
  shows "progress s s'"
proof -
  obtain path where path: "policy_path oh (ip_authority p) = Inr path"
    and l: "fs_lookup s' = (fs_lookup s)(path \<mapsto> Json (reread (policy_to_dict p)))" using w by (auto simp: puts_def)
  obtain d where d: "reread (policy_to_dict p) = PDict d"
    "policy_from_mapping d = Inr (p\<lparr>ip_authority := join_authority (ip_authority p)\<rparr>)" using reread_policy [OF ok] by blast
  have "policy_file_le (fs_lookup s path) (fs_lookup s' path)"
    using policy_at_file [OF at path] le d unfolding policy_file_le_def l by (auto simp: policy_le_def)
  moreover have "path_kind path \<noteq> INVOCATION_KIND" using path_kinds(1) [OF path] by simp
  ultimately show ?thesis by (auto simp: progress_def l)
qed

lemma proves_write_policy:
  assumes "policy_ok p" "\<And>q. current = Some q \<Longrightarrow> policy_le q p"
  shows "proves (policy_at oh (ip_authority p) current) (write_policy oh p)
    (\<lambda>_ s'. \<exists>s. policy_at oh (ip_authority p) current s \<and> puts (policy_path oh (ip_authority p)) (policy_to_dict p) s s')"
  unfolding proves_def write_policy_def
  using write_record_run [of "policy_path oh (ip_authority p)" "policy_to_dict p"] puts_policy_progress [OF _ assms(1) _ assms(2)]
    progress_same by (metis old.unit.exhaust)

lemma puts_invocation_progress:
  assumes w: "puts (invocation_path oh a i) (invocation_to_dict r) s s'" and ok: "invocation_ok r"
    and at: "invocation_at oh a i x s"
    and le: "\<And>q. x = Some q \<Longrightarrow> ir_state q \<noteq> INVOCATION_COMPLETED \<and> ir_request_digest r = ir_request_digest q"
  shows "progress s s'"
proof -
  obtain path where path: "invocation_path oh a i = Inr path"
    and l: "fs_lookup s' = (fs_lookup s)(path \<mapsto> Json (reread (invocation_to_dict r)))" using w by (auto simp: puts_def)
  obtain d where d: "reread (invocation_to_dict r) = PDict d" "invocation_from_mapping d = Inr (reread_record r)"
    using reread_invocation [OF ok] by blast
  have "record_in invocation_from_mapping (fs_lookup s path) = Some q \<Longrightarrow>
      ir_state q \<noteq> INVOCATION_COMPLETED \<and> ir_request_digest r = ir_request_digest q" for q
    using at le path by (cases x) (auto simp: stored_None stored_Some present_def record_in_def decode_invocation_def check_record_def)
  then have "invocation_file_le (fs_lookup s path) (fs_lookup s' path)"
    using d unfolding invocation_file_le_def l by (auto simp: present_def reread_record_def)
  moreover have "path_kind path \<noteq> POLICY_KIND" using path_kinds(3) [OF path] by simp
  ultimately show ?thesis by (auto simp: progress_def l)
qed

lemma proves_write_invocation:
  assumes "invocation_ok r" "\<And>q. x = Some q \<Longrightarrow> ir_state q \<noteq> INVOCATION_COMPLETED \<and> ir_request_digest r = ir_request_digest q"
    and P: "\<And>s. P s \<Longrightarrow> invocation_at oh (ir_authority r) (ir_invocation_id r) x s"
  shows "proves P (write_invocation oh r)
    (\<lambda>_ s'. \<exists>s. P s \<and> puts (invocation_path oh (ir_authority r) (ir_invocation_id r)) (invocation_to_dict r) s s')"
  unfolding proves_def write_invocation_def
  using write_record_run [of "invocation_path oh (ir_authority r) (ir_invocation_id r)" "invocation_to_dict r"]
    puts_invocation_progress [OF _ assms(1) _ assms(2)] progress_same P by (metis old.unit.exhaust)

text \<open>The collaborators of a service may run other requests, but they too only make progress.\<close>

definition service_ok :: "service \<Rightarrow> bool" where
  "service_ok sv \<longleftrightarrow> (\<forall>p k s. progress s (fst (sv_lock sv p k s))) \<and>
     (\<forall>f c owner s. sv_settler sv = Some f \<longrightarrow> progress s (fst (f c owner s)))"

lemma bindS_retS [simp]: "bindS (retS x) f = f x"
  by (simp add: bindS_def fun_eq_iff)

lemma proves_critical: "service_ok sv \<Longrightarrow> proves P (critical_section sv oh a) (\<lambda>_ _. True)"
  unfolding proves_def critical_section_def service_ok_def
  by (auto elim!: bindS_cases) (metis fst_conv)

lemma proves_settler: "service_ok sv \<Longrightarrow> sv_settler sv = Some f \<Longrightarrow> proves P (f c owner) (\<lambda>_ _. True)"
  unfolding proves_def service_ok_def by (metis fst_conv)

lemma proves_lock_all: "service_ok sv \<Longrightarrow> proves (\<lambda>_. True) (lock_all sv oh as) (\<lambda>_ _. True)"
  by (induction as) (auto intro!: proves_simple proves_bind [OF proves_critical])

lemma proves_owner: "proves P (require_owner owner) (\<lambda>_. P)"
  by (auto simp: require_owner_def intro!: proves_simple)

lemma proves_lift: "proves P (liftS r) (\<lambda>x s. P s \<and> r = Inr x)"
  by (auto intro!: proves_simple)

lemma proves_expected: "proves P (check_expected e c) (\<lambda>_. P)"
  by (auto simp: check_expected_def intro!: proves_simple)

lemma policy_kept:
  "puts path v s s' \<Longrightarrow> (\<And>p. path = Inr p \<Longrightarrow> path_kind p \<noteq> POLICY_KIND) \<Longrightarrow> policy_at oh a x s' \<longleftrightarrow> policy_at oh a x s"
  "drops path s s' \<Longrightarrow> (\<And>p. path = Inr p \<Longrightarrow> path_kind p \<noteq> POLICY_KIND) \<Longrightarrow> policy_at oh a x s' \<longleftrightarrow> policy_at oh a x s"
  using policy_kind.read_other_kind [of path v s s' "(oh, a)"] policy_kind.read_dropped [of path s s' "(oh, a)"] by auto

lemma proves_delete_keep: "proves (policy_at oh a x) (delete_policy_change oh' a') (\<lambda>_. policy_at oh a x)"
proof (rule proves_weaken [OF proves_delete])
  show "policy_at oh a x s'" if "\<exists>s. policy_at oh a x s \<and> drops (policy_change_path oh' a') s s'" for s'
    using that policy_kept(2) [of "policy_change_path oh' a'" _ s' oh a x] path_kinds(2) by fastforce
qed

lemma proves_retire: "proves (policy_at oh a x) (retire_settled oh a change settling settled current) (\<lambda>_. policy_at oh a x)"
  unfolding retire_settled_def by (auto intro!: proves_simple proves_delete_keep split: option.splits)

lemma mk_available_policy:
  assumes "mk_policy a (PStr (mode_text m)) rv (PStr (policy_state_text POLICY_AVAILABLE)) (PStr []) (PStr []) 0 t = Inr p"
    "authority_ok a"
  shows "policy_ok p" "ip_authority p = a" "ip_mode p = m" "ip_revision p = rv" "ip_state p = POLICY_AVAILABLE" "ip_updated_at p = t"
  using assms by (auto simp: mk_policy_def check_record_def policy_ok_def)

lemma proves_publish:
  assumes "authority_ok a" "rv = revision_of current + 1"
  shows "proves (policy_at oh a current) (publish_policy oh a m rv t)
    (\<lambda>p s'. policy_ok p \<and> ip_authority p = a \<and> ip_mode p = m \<and> ip_revision p = rv \<and> ip_state p = POLICY_AVAILABLE
       \<and> (\<exists>s. policy_at oh a current s \<and> puts (policy_path oh a) (policy_to_dict p) s s'))"
  unfolding publish_policy_def
proof (rule proves_bind [OF proves_lift], goal_cases)
  case (1 p)
  show ?case
  proof (cases "mk_policy a (PStr (mode_text m)) rv (PStr (policy_state_text POLICY_AVAILABLE)) (PStr []) (PStr []) 0 t = Inr p")
    case True
    note p = mk_available_policy [OF this assms(1)]
    have "\<And>q. current = Some q \<Longrightarrow> policy_le q p" using p assms(2) by (simp add: policy_le_def revision_of_def)
    from proves_write_policy [where oh = oh, OF p(1) this] show ?thesis unfolding p(2)
      by (intro proves_bind [where Q = "\<lambda>_ s'. \<exists>s. policy_at oh a current s \<and> puts (policy_path oh a) (policy_to_dict p) s s'"])
         (auto intro!: proves_simple simp: p intro: proves_weaken)
  qed (simp add: proves_def)
qed

lemma proves_if: "(b \<Longrightarrow> proves P m Q) \<Longrightarrow> (\<not> b \<Longrightarrow> proves P n Q) \<Longrightarrow> proves P (if b then m else n) Q"
  by simp

lemma proves_stuck: "proves (policy_at oh a x) (if b then delete_policy_change oh a else retS ()) (\<lambda>_. policy_at oh a x)"
  by (auto intro!: proves_delete_keep proves_simple)

lemma proves_read_policy: "stable P \<Longrightarrow> proves P (read_policy oh a) (\<lambda>x s. P s \<and> policy_at oh a x s)"
  unfolding read_policy_def by (rule proves_read)

lemma proves_read_change: "stable P \<Longrightarrow> proves P (read_policy_change oh a) (\<lambda>x s. P s \<and> change_at oh a x s)"
  unfolding read_policy_change_def by (rule proves_read)

lemma proves_read_invocation: "stable P \<Longrightarrow> proves P (read_invocation oh a i) (\<lambda>x s. P s \<and> invocation_at oh a i x s)"
  unfolding read_invocation_def by (rule proves_read)

lemma proves_read_permit: "stable P \<Longrightarrow> proves P (read_request_permit oh a i) (\<lambda>x s. P s \<and> permit_at oh a i x s)"
  unfolding read_request_permit_def by (rule proves_read)

abbreviation anything :: "'a \<Rightarrow> fs \<Rightarrow> bool" where
  "anything \<equiv> (\<lambda>_ _. True)"

lemma proves_publish_done:
  "authority_ok a \<Longrightarrow>
   proves (policy_at oh a current) (bindS (publish_policy oh a m (revision_of current + 1) t) (\<lambda>p. retS (Done p))) anything"
  by (rule proves_bind [OF proves_publish]) (auto intro: proves_simple)

lemma proves_set_policy_round:
  assumes "service_ok sv" "authority_ok a"
  shows "proves (\<lambda>_. True) (set_policy_round sv oh a m e t settling settled) anything"
  unfolding set_policy_round_def
  apply (rule proves_bind [OF proves_critical [OF assms(1)]])
  apply (rule proves_bind [OF proves_read_change], simp)
  apply (rule proves_weaken [where P = "\<lambda>_. True" and Q = anything])
    apply (rule proves_bind [OF proves_read_policy], simp)
    apply (rule proves_weaken [where P = "policy_at oh a _" and Q = anything])
      apply (rule proves_bind [OF proves_expected])
      apply (auto split: option.split intro!: proves_simple proves_publish_done [OF assms(2)] proves_bind [OF proves_delete_keep] proves_bind [OF proves_retire])
  done

lemma proves_settle_rounds:
  assumes "service_ok sv" "\<And>settling settled. proves (\<lambda>_. True) (round settling settled) anything"
  shows "proves (\<lambda>_. True) (settle_rounds sv owner round n settling settled) anything"
proof (induction n arbitrary: settling settled)
  case (Suc n)
  show ?case unfolding settle_rounds.simps
    by (rule proves_bind [OF assms(2)])
       (auto split: round.split option.split intro!: proves_simple proves_bind [OF proves_settler [OF assms(1)]] proves_if Suc)
qed (auto intro: proves_simple)

text \<open>What every call starts with: checks and conversions that leave the files alone.\<close>

lemma proves_start:
  "(\<And>x. proves (\<lambda>_. True) (f x) anything) \<Longrightarrow> proves (\<lambda>_. True) (bindS (liftS r) f) anything"
  "(\<And>x. proves (\<lambda>_. True) (h x) anything) \<Longrightarrow> proves (\<lambda>_. True) (bindS (require_owner owner) h) anything"
  "(\<And>x. proves (\<lambda>_. True) (g x) anything) \<Longrightarrow> proves (\<lambda>_. True) (bindS (moment_of sv now) g) anything"
  by (auto intro!: proves_bind [OF proves_owner] proves_bind [OF proves_moment] proves_bind [where Q = anything] proves_simple)

lemma proves_set_policy:
  "service_ok sv \<Longrightarrow> authority_ok a \<Longrightarrow> proves (\<lambda>_. True) (set_policy sv owner a mode e now) anything"
  unfolding set_policy_def Let_def
  by (intro proves_start proves_settle_rounds proves_set_policy_round)

lemma proves_write_change: "proves P (write_policy_change oh c) anything"
  unfolding write_policy_change_def
  by (rule proves_weaken [OF proves_write_other]) (auto dest: path_kinds(2))

lemma proves_write_permit: "proves P (write_request_permit oh r) anything"
  unfolding write_request_permit_def
  by (rule proves_weaken [OF proves_write_other]) (auto dest: path_kinds(4))

lemma proves_place_marker: "proves P (place_marker oh a m cid r t) anything"
  unfolding place_marker_def
  by (rule proves_bind [OF proves_lift], rule proves_bind [OF proves_write_change]) (auto intro: proves_simple)

lemma proves_any: "proves (\<lambda>_. True) m anything \<Longrightarrow> proves P m anything"
  by (erule proves_weaken) auto

lemma proves_retire_any: "proves P (retire_settled oh a change settling settled current) anything"
  unfolding retire_settled_def
  by (auto intro!: proves_simple proves_weaken [OF proves_delete] split: option.splits)

lemma proves_prepare_round:
  assumes "service_ok sv"
  shows "proves (\<lambda>_. True) (prepare_round sv oh a m cid e t settling settled) anything"
  unfolding prepare_round_def
  apply (rule proves_bind [OF proves_critical [OF assms(1)]])
  apply (rule proves_bind [OF proves_read_change], simp)
  apply (rule proves_any)
  apply (rule proves_if)
  subgoal by (auto intro!: proves_simple proves_if)
  apply (rule proves_bind [OF proves_read_policy], simp)
  apply (rule proves_any)
  apply (rule proves_bind [OF proves_expected])
  apply (auto split: option.split intro!: proves_simple proves_bind [OF proves_place_marker] proves_bind [OF proves_retire_any])
  done

lemma proves_prepare:
  "service_ok sv \<Longrightarrow> proves (\<lambda>_. True) (prepare_policy_change sv owner a mode cid e now) anything"
  unfolding prepare_policy_change_def Let_def
  by (intro proves_start proves_settle_rounds proves_prepare_round)

lemma proves_commit_marker: "proves P (commit_marker oh c r t) anything"
  unfolding commit_marker_def by (rule proves_bind [OF proves_lift], rule proves_write_change)

lemma proves_commit:
  assumes "service_ok sv" "authority_ok a"
  shows "proves (\<lambda>_. True) (commit_policy_change sv owner a cid now) anything"
proof -
  have publish: "proves (policy_at oh a current) (publish_policy oh a m r t) anything" if "r = revision_of current + 1" for oh current m r t
    by (rule proves_weaken [OF proves_publish [OF assms(2) that]]) auto
  show ?thesis unfolding commit_policy_change_def Let_def
    apply (intro proves_start)
    apply (rule proves_bind [OF proves_critical [OF assms(1)]])
    apply (rule proves_bind [OF proves_read_change], simp)
    apply (rule proves_any)
    subgoal for cid u oh t v w
      apply (cases w)
       apply (auto intro!: proves_simple proves_if)
      apply (rule proves_bind [OF proves_read_policy], simp)
      subgoal for c current
        apply (rule proves_weaken [where P = "policy_at oh a current" and Q = anything])
          apply (rule proves_if)
        subgoal by (auto split: option.split intro!: proves_simple proves_if)
          apply (rule proves_bind [where Q = anything])
           apply (auto split: option.split intro!: proves_simple proves_if publish proves_bind [OF proves_commit_marker])
        done
      done
    done
qed

lemma proves_release:
  assumes "service_ok sv"
  shows "proves (\<lambda>_. True) (release_policy_change sv owner a cid) anything"
  unfolding release_policy_change_def Let_def
  apply (intro proves_start)
  apply (rule proves_bind [OF proves_critical [OF assms(1)]])
  apply (rule proves_bind [OF proves_read_change], simp)
  apply (auto split: option.split intro!: proves_simple proves_if proves_bind [OF proves_delete])
  done

definition governed :: "pystr \<Rightarrow> policy option \<Rightarrow> fs \<Rightarrow> bool" where
  "governed oh p s \<longleftrightarrow> (case p of None \<Rightarrow> True | Some q \<Rightarrow> policy_at oh (ip_authority q) (Some q) s)"

lemma stable_governed [simp]: "stable (governed oh p)"
  by (cases p) (simp_all add: governed_def [abs_def])

lemma governed_kept:
  "puts path v s s' \<Longrightarrow> (\<And>p. path = Inr p \<Longrightarrow> path_kind p \<noteq> POLICY_KIND) \<Longrightarrow> governed oh p s \<Longrightarrow> governed oh p s'"
  by (auto simp: governed_def policy_kept(1) split: option.splits)

lemma governed_kept_kinds:
  "puts (invocation_path oh' a i) v s s' \<Longrightarrow> governed oh p s \<Longrightarrow> governed oh p s'"
  "puts (request_permit_path oh' a i) v s s' \<Longrightarrow> governed oh p s \<Longrightarrow> governed oh p s'"
  using governed_kept [of "invocation_path oh' a i" v s s' oh p] governed_kept [of "request_permit_path oh' a i" v s s' oh p]
    path_kinds(3,4) by fastforce+

lemma policy_at_authority_ok: "policy_at oh a (Some q) s \<Longrightarrow> authority_ok (ip_authority q)"
  by (auto simp: stored_Some decode_policy_def policy_from_mapping_def mk_policy_def check_record_def dest!: schema_authority_ok)

lemma mk_consumed_policy:
  assumes "mk_policy (ip_authority q) (PStr (mode_text (ip_mode q))) (ip_revision q) (PStr (policy_state_text POLICY_CONSUMED))
      (PStr i) (PStr d) t t = Inr p" "authority_ok (ip_authority q)" "invocation_id_ok i" "is_digest d"
  shows "policy_ok p \<and> ip_authority p = ip_authority q \<and> ip_mode p = ip_mode q \<and> ip_revision p = ip_revision q
    \<and> ip_state p = POLICY_CONSUMED \<and> ip_mode q = POLICY_ONCE \<and> ip_consumed_invocation_id p = PStr i
    \<and> ip_consumed_request_digest p = PStr d"
proof -
  have "ip_mode q \<noteq> POLICY_ALWAYS \<and> 1 \<le> t \<and> 1 \<le> ip_revision q \<and>
    p = \<lparr>ip_authority = ip_authority q, ip_mode = ip_mode q, ip_revision = ip_revision q, ip_state = POLICY_CONSUMED,
      ip_consumed_invocation_id = PStr i, ip_consumed_request_digest = PStr d, ip_consumed_at = t, ip_updated_at = t\<rparr>"
    using assms(1,3,4) by (auto simp: mk_policy_def check_record_def)
  then show ?thesis using assms(2-4) by (cases "ip_mode q") (simp_all add: policy_ok_def)
qed

lemma proves_consume_policy:
  assumes "invocation_id_ok i" "is_digest d"
  shows "proves (governed oh p) (consume_policy oh p i d t) anything"
proof (cases p)
  case None
  then show ?thesis by (auto simp: consume_policy_def intro: proves_simple)
next
  case (Some q)
  show ?thesis
  proof (cases "authority_ok (ip_authority q)")
    case True
    have w: "proves (governed oh p) (bindS (write_policy oh used) (\<lambda>_. retS (Some used))) anything"
      if "mk_policy (ip_authority q) (PStr (mode_text (ip_mode q))) (ip_revision q) (PStr (policy_state_text POLICY_CONSUMED))
        (PStr i) (PStr d) t t = Inr used" for used
    proof -
      note u = mk_consumed_policy [OF that True assms]
      have "policy_le q used" using u by (simp add: policy_le_def)
      with u proves_write_policy [of used "Some q" oh]
      have "proves (governed oh p) (write_policy oh used) anything"
        by (auto simp: governed_def Some intro: proves_weaken)
      then show ?thesis by (rule proves_bind) (auto intro: proves_simple)
    qed
    show ?thesis unfolding consume_policy_def Some
      by (auto intro!: proves_simple) (rule proves_bind [OF proves_lift], use w Some in \<open>auto simp: proves_def\<close>)
  next
    case False
    then show ?thesis using policy_at_authority_ok by (auto simp: proves_def governed_def Some)
  qed
qed

lemma proves_consume_permit: "proves (governed oh p) (consume_permit oh found t) (\<lambda>_. governed oh p)"
proof (cases found)
  case (Some r)
  have "proves (governed oh p) (write_request_permit oh u) (\<lambda>_. governed oh p)" for u
    unfolding write_request_permit_def
    by (rule proves_weaken [OF proves_write_other [where P = "governed oh p"]])
       (auto dest: path_kinds(4) governed_kept_kinds(2))
  then have w: "proves (\<lambda>s. governed oh p s \<and> X) (write_request_permit oh u) (\<lambda>_. governed oh p)" for u X
    by (rule proves_weaken) auto
  show ?thesis unfolding consume_permit_def Some
    by simp (rule proves_bind [OF proves_lift], rule proves_bind [OF w], auto intro: proves_simple)
qed (auto simp: consume_permit_def intro: proves_simple)

lemma proves_dispatch:
  assumes "authority_ok a" "invocation_id_ok i" "is_digest d"
  shows "proves (\<lambda>s. governed oh p s \<and> invocation_at oh a i None s) (dispatch_new oh a p found i d cr ar t) anything"
  unfolding dispatch_new_def
proof (rule proves_bind [OF proves_lift], goal_cases)
  case (1 r)
  let ?P = "\<lambda>s. governed oh p s \<and> invocation_at oh a i None s"
  show ?case
  proof (cases "mk_invocation a (PStr i) (PStr d)
       (PStr (case p of Some q \<Rightarrow> policy_id q | None \<Rightarrow> lit ''default_'' @ take 24 (authority_key a)))
       (revision_of p) (PStr (mode_text (if is_once p then POLICY_ONCE else POLICY_ALWAYS)))
       (PStr (invocation_state_text INVOCATION_RESERVED)) cr (py_strip ar)
       (case found of Some r \<Rightarrow> rp_revision r | None \<Rightarrow> 0) PNone False t 0 = Inr r")
    case True
    from mk_invocation_ok [OF this assms(1)] have ok: "invocation_ok r" "ir_authority r = a" by simp_all
    have i: "ir_invocation_id r = i"
      using True assms(2) by (auto simp: mk_invocation_def)
    have "proves ?P (write_invocation oh r) (\<lambda>_. governed oh p)"
      by (rule proves_weaken [OF proves_write_invocation [OF ok(1), of None ?P oh]])
         (auto simp: ok i dest: governed_kept_kinds(1))
    then have "proves ?P (bindS (write_invocation oh r) (\<lambda>_. bindS (consume_permit oh found t) (\<lambda>up.
        bindS (consume_policy oh p i d t) (\<lambda>upol. retS ((mk_decision True ''delegated_invocation_allowed'' True)
         \<lparr>id_policy := upol, id_invocation := Some r, id_request_permit := up\<rparr>))))) anything"
      by (rule proves_bind) (rule proves_bind [OF proves_consume_permit], rule proves_bind [OF proves_consume_policy [OF assms(2,3)]], auto intro: proves_simple)
    then show ?thesis by (rule proves_weaken) auto
  qed (simp add: proves_def)
qed

lemma proves_begin_locked:
  assumes "authority_ok a"
  shows "proves (governed oh p) (begin_locked oh a p iv dig cr ar rrp rep t) anything"
proof -
  have d: "proves (\<lambda>s. governed oh p s \<and> invocation_at oh a i None s) (dispatch_new oh a p found i d cr ar t) anything"
    if "validated_invocation_id (PStr iv) = Inr i" "validated_request_digest (PStr dig) = Inr d" for i d found p
    by (rule proves_dispatch [OF assms]) (use that in \<open>auto simp: validated_invocation_id_iff validated_request_digest_iff\<close>)
  have d': "proves (\<lambda>s. governed oh p s \<and> invocation_at oh a i None s \<and> X s) (dispatch_new oh a p found i d cr ar t) anything"
    if "validated_invocation_id (PStr iv) = Inr i" "validated_request_digest (PStr dig) = Inr d" for i d found X p
    by (rule proves_weaken [OF d [OF that]]) auto
  show ?thesis unfolding begin_locked_def
    apply (intro proves_if proves_simple; simp?)
    apply (rule proves_bind [OF proves_lift])
    subgoal for i
      apply (cases "validated_invocation_id (PStr iv) = Inr i"; simp add: proves_def [of "\<lambda>_. False"])
      apply (rule proves_bind [OF proves_lift])
      subgoal for dd
        apply (cases "validated_request_digest (PStr dig) = Inr dd"; simp add: proves_def [of "\<lambda>_. False"])
        apply (rule proves_bind [OF proves_read_invocation], simp)
        subgoal for x
          by (cases x; cases p)
             (auto split: option.split intro!: proves_simple proves_if d d' proves_bind [OF proves_read_permit])
        done
      done
    done
qed

lemma proves_start_lift:
  "(\<And>x. r = Inr x \<Longrightarrow> proves (\<lambda>_. True) (f x) anything) \<Longrightarrow> proves (\<lambda>_. True) (bindS (liftS r) f) anything"
  by (cases r) (auto simp: proves_def bindS_def)

lemma proves_permit_policy: "proves (\<lambda>_. True) (permit_policy oh a as found) anything"
proof (induction as arbitrary: found)
  case (Cons b bs)
  have rest: "proves P (permit_policy oh a bs x) anything" for P x
    by (rule proves_any [OF Cons.IH])
  show ?case unfolding permit_policy.simps
    by (rule proves_bind [OF proves_read_change]) (auto intro!: proves_simple proves_bind [OF proves_read_policy] rest)
qed (auto intro: proves_simple)

lemma proves_issue:
  assumes "service_ok sv"
  shows "proves (\<lambda>_. True) (issue_request_permit sv owner a iv dig cr ar ttl now) anything"
  unfolding issue_request_permit_def Let_def
  apply (intro proves_start)
  apply (rule proves_bind [OF proves_lock_all [OF assms]])
  apply (rule proves_bind [OF proves_permit_policy])
  apply (auto split: option.split intro!: proves_simple proves_bind [OF proves_read_permit] proves_bind [OF proves_lift]
      proves_bind [OF proves_write_permit])
  done

lemma policy_authorities_ok:
  "policy_authorities a = Inr as \<Longrightarrow> authority_ok a \<Longrightarrow> \<forall>b \<in> set as. authority_ok b"
  by (auto simp: policy_authorities_def split: if_splits intro: mk_authority_ok)

lemma governed_read: "policy_at oh a x s \<Longrightarrow> governed oh x s"
  using policy_at_Some by (cases x) (auto simp: governed_def)

lemma proves_begin:
  assumes "service_ok sv" "authority_ok a"
  shows "proves (\<lambda>_. True) (begin_invocation sv owner a iv dig cr ar rrp rep pa now) anything"
proof -
  have l: "proves P (begin_locked oh a p iv dig cr ar rrp rep t) anything" if "\<And>s. P s \<Longrightarrow> governed oh p s" for P oh p t
    by (rule proves_weaken [OF proves_begin_locked [OF assms(2)]]) (use that in auto)
  show ?thesis unfolding begin_invocation_def Let_def
    apply (intro proves_start)
    apply (rule proves_bind [OF proves_lock_all [OF assms(1)]])
    apply (rule proves_bind [OF proves_read_policy], simp)
    apply (rule proves_bind [OF proves_read_change], simp)
    apply (auto split: option.split intro!: proves_simple proves_if l governed_read proves_bind [OF proves_read_policy]
        proves_bind [OF proves_read_change])
    done
qed

lemma proves_complete:
  assumes "service_ok sv" "authority_ok a"
  shows "proves (\<lambda>_. True) (complete_invocation sv owner a iv dig res err now) anything"
proof -
  have w: "proves (invocation_at oh a i (Some r)) (bindS (liftS (mk_invocation (ir_authority r) (PStr (ir_invocation_id r))
        (PStr (ir_request_digest r)) (ir_policy_id r) (ir_policy_revision r) (PStr (mode_text (ir_policy_mode r)))
        (PStr (invocation_state_text INVOCATION_COMPLETED)) (ir_card_revision r) (ir_authority_revision r)
        (ir_request_permit_revision r) res err (ir_created_at r) t)) (\<lambda>x. bindS (write_invocation oh x) (\<lambda>_. retS x))) anything"
    if n: "ir_state r \<noteq> INVOCATION_COMPLETED" "invocation_id_ok i" for oh i r t
  proof (rule proves_bind [OF proves_lift], goal_cases)
    case (1 x)
    show ?case
    proof (cases "(\<exists>s. invocation_at oh a i (Some r) s) \<and> mk_invocation (ir_authority r) (PStr (ir_invocation_id r))
        (PStr (ir_request_digest r)) (ir_policy_id r) (ir_policy_revision r) (PStr (mode_text (ir_policy_mode r)))
        (PStr (invocation_state_text INVOCATION_COMPLETED)) (ir_card_revision r) (ir_authority_revision r)
        (ir_request_permit_revision r) res err (ir_created_at r) t = Inr x")
      case True
      then have r: "ir_authority r = a" "ir_invocation_id r = i" "is_digest (ir_request_digest r)"
        "py_strip (ir_authority_revision r) = ir_authority_revision r"
        using n(2) by (auto simp: stored_Some decode_invocation_def check_record_def invocation_from_mapping_def mk_invocation_def
            validated_request_digest_iff)
      have x: "invocation_ok x" "ir_authority x = a" using mk_invocation_ok [of "ir_authority r"] True r assms(2) by blast+
      have f: "ir_invocation_id x = i" "ir_request_digest x = ir_request_digest r"
        using True r n(2) by (auto simp: mk_invocation_def)
      show ?thesis
        by (rule proves_bind, rule proves_weaken [OF proves_write_invocation [OF x(1), of "Some r" "invocation_at oh a i (Some r)"]])
           (use x f n in \<open>auto intro: proves_simple\<close>)
    qed (auto simp: proves_def)
  qed
  show ?thesis unfolding complete_invocation_def Let_def
    apply (rule proves_start)
    apply (rule proves_start)
    apply (rule proves_start_lift)
    apply (rule proves_start)
    apply (rule proves_start)
    apply (rule proves_bind [OF proves_critical [OF assms(1)]])
    apply (rule proves_bind [OF proves_read_invocation], simp)
    apply (auto split: option.split intro!: proves_simple proves_if w simp: validated_invocation_id_iff)
    done
qed

section \<open>A dispatch and what it needs\<close>

lemma write_puts:
  "write_policy oh p s = (s', Inr u) \<Longrightarrow> puts (policy_path oh (ip_authority p)) (policy_to_dict p) s s'"
  "write_policy_change oh c s = (s', Inr u) \<Longrightarrow> puts (policy_change_path oh (pc_authority c)) (change_to_dict c) s s'"
  "write_invocation oh r s = (s', Inr u) \<Longrightarrow> puts (invocation_path oh (ir_authority r) (ir_invocation_id r)) (invocation_to_dict r) s s'"
  "write_request_permit oh t s = (s', Inr u) \<Longrightarrow> puts (request_permit_path oh (rp_authority t) (rp_invocation_id t)) (permit_to_dict t) s s'"
  using write_record_run(2) unfolding write_policy_def write_policy_change_def write_invocation_def write_request_permit_def by blast+

text \<open>A file holds what was written.\<close>

definition holds :: "exn + path \<Rightarrow> pyval \<Rightarrow> fs \<Rightarrow> bool" where
  "holds path v s \<longleftrightarrow> (\<exists>p. path = Inr p \<and> fs_lookup s p = Some (Json (reread v)))"

lemma puts_holds: "puts path v s s' \<Longrightarrow> holds path v s'"
  by (auto simp: puts_def holds_def)

lemma holds_kept:
  "puts q w s s' \<Longrightarrow> holds path v s \<Longrightarrow> (\<And>x y. q = Inr x \<Longrightarrow> path = Inr y \<Longrightarrow> path_kind x \<noteq> path_kind y) \<Longrightarrow> holds path v s'"
  by (fastforce simp: puts_def holds_def)

lemma consume_permit_run:
  assumes "consume_permit oh found t s = (s', Inr up)"
  shows "(found = None \<and> up = None \<and> s' = s) \<or>
    (\<exists>r u. found = Some r \<and> up = Some u \<and> puts (request_permit_path oh (rp_authority u) (rp_invocation_id u)) (permit_to_dict u) s s'
      \<and> rp_state u = REQUEST_PERMIT_CONSUMED \<and> rp_consumed_at u = t \<and> rp_authority u = rp_authority r
      \<and> (invocation_id_ok (rp_invocation_id r) \<longrightarrow> rp_invocation_id u = rp_invocation_id r))"
proof (cases found)
  case (Some r)
  with assms obtain u where u: "mk_permit (rp_authority r) (PStr (rp_invocation_id r)) (PStr (rp_request_digest r)) (rp_card_revision r)
          (PStr (rp_authority_revision r)) (rp_policy_revision r) (rp_revision r)
          (PStr (permit_state_text REQUEST_PERMIT_CONSUMED)) (rp_issued_at r) (rp_expires_at r) t = Inr u"
    "write_request_permit oh u s = (s', Inr ())" "up = Some u"
    by (auto simp: consume_permit_def bindS_eq_Inr)
  from u(1) have "rp_state u = REQUEST_PERMIT_CONSUMED \<and> rp_consumed_at u = t \<and> rp_authority u = rp_authority r
      \<and> (invocation_id_ok (rp_invocation_id r) \<longrightarrow> rp_invocation_id u = rp_invocation_id r)"
    by (auto simp: mk_permit_def check_record_def)
  with u write_puts(4) [OF u(2)] Some show ?thesis by auto
qed (use assms in \<open>simp add: consume_permit_def\<close>)

lemma consume_policy_run:
  assumes "consume_policy oh p i d t s = (s', Inr up)" "governed oh p s" "invocation_id_ok i" "is_digest d"
  shows "(\<not> is_once p \<and> up = p \<and> s' = s) \<or>
    (\<exists>q u. p = Some q \<and> ip_mode q = POLICY_ONCE \<and> up = Some u \<and> puts (policy_path oh (ip_authority u)) (policy_to_dict u) s s'
      \<and> policy_ok u \<and> ip_authority u = ip_authority q \<and> ip_mode u = POLICY_ONCE \<and> ip_revision u = ip_revision q
      \<and> ip_state u = POLICY_CONSUMED \<and> ip_consumed_invocation_id u = PStr i \<and> ip_consumed_request_digest u = PStr d)"
proof (cases "is_once p")
  case True
  then obtain q where q: "p = Some q" "ip_mode q = POLICY_ONCE" by (auto simp: is_once_def split: option.splits)
  with assms(1) obtain u where u: "mk_policy (ip_authority q) (PStr (mode_text (ip_mode q))) (ip_revision q)
      (PStr (policy_state_text POLICY_CONSUMED)) (PStr i) (PStr d) t t = Inr u" "write_policy oh u s = (s', Inr ())" "up = Some u"
    by (auto simp: consume_policy_def bindS_eq_Inr)
  have "authority_ok (ip_authority q)" using assms(2) policy_at_authority_ok by (simp add: governed_def q)
  from mk_consumed_policy [OF u(1) this assms(3,4)] write_puts(1) [OF u(2)] q u(3) show ?thesis by auto
next
  case False
  then show ?thesis using assms(1)
    by (cases p) (auto simp: consume_policy_def is_once_def split: if_splits)
qed

text \<open>What a dispatch leaves behind.\<close>

lemma dispatch_new_run:
  assumes run: "dispatch_new oh a p found i d cr ar t s = (s', Inr dec)"
    and ok: "authority_ok a" "invocation_id_ok i" "is_digest d" "governed oh p s"
    and pf: "\<And>r. found = Some r \<Longrightarrow> rp_authority r = a \<and> rp_invocation_id r = i"
  shows "\<exists>r. id_invocation dec = Some r \<and> invocation_ok r \<and> ir_authority r = a \<and> ir_invocation_id r = i \<and> ir_request_digest r = d
      \<and> ir_state r = INVOCATION_RESERVED \<and> ir_policy_revision r = revision_of p
      \<and> holds (invocation_path oh a i) (invocation_to_dict r) s'"
    and "is_once p \<Longrightarrow> \<exists>u. id_policy dec = Some u \<and> policy_ok u \<and> ip_mode u = POLICY_ONCE \<and> ip_state u = POLICY_CONSUMED
      \<and> ip_revision u = revision_of p \<and> map_option ip_authority p = Some (ip_authority u)
      \<and> ip_consumed_invocation_id u = PStr i \<and> holds (policy_path oh (ip_authority u)) (policy_to_dict u) s'"
    and "\<not> is_once p \<Longrightarrow> id_policy dec = p"
    and "found = Some pr \<Longrightarrow> \<exists>u. id_request_permit dec = Some u \<and> rp_state u = REQUEST_PERMIT_CONSUMED
      \<and> holds (request_permit_path oh a i) (permit_to_dict u) s'"
proof -
  from run obtain r s2 up s3 upol where r: "mk_invocation a (PStr i) (PStr d)
       (PStr (case p of Some q \<Rightarrow> policy_id q | None \<Rightarrow> lit ''default_'' @ take 24 (authority_key a)))
       (revision_of p) (PStr (mode_text (if is_once p then POLICY_ONCE else POLICY_ALWAYS)))
       (PStr (invocation_state_text INVOCATION_RESERVED)) cr (py_strip ar)
       (case found of Some r \<Rightarrow> rp_revision r | None \<Rightarrow> 0) PNone False t 0 = Inr r"
    and w: "write_invocation oh r s = (s2, Inr ())" "consume_permit oh found t s2 = (s3, Inr up)"
      "consume_policy oh p i d t s3 = (s', Inr upol)"
    and dec: "dec = (mk_decision True ''delegated_invocation_allowed'' True)
         \<lparr>id_policy := upol, id_invocation := Some r, id_request_permit := up\<rparr>"
    by (auto simp: dispatch_new_def bindS_eq_Inr)
  have rok: "invocation_ok r" using mk_invocation_ok [OF r ok(1)] by simp
  have rf: "ir_authority r = a" "ir_invocation_id r = i" "ir_request_digest r = d" "ir_state r = INVOCATION_RESERVED"
    "ir_policy_revision r = revision_of p"
    using r ok by (auto simp: mk_invocation_def)
  have p1: "puts (invocation_path oh a i) (invocation_to_dict r) s s2" using write_puts(3) [OF w(1)] rf by simp
  note cp = consume_permit_run [OF w(2)]
  have g2: "governed oh p s2" using governed_kept_kinds(1) [OF p1 ok(4)] .
  have g3: "governed oh p s3" using cp g2 governed_kept_kinds(2) by auto
  note cq = consume_policy_run [OF w(3) g3 ok(2,3)]
  have h2: "holds (invocation_path oh a i) (invocation_to_dict r) s2" using puts_holds [OF p1] .
  have h3: "holds (invocation_path oh a i) (invocation_to_dict r) s3"
    using cp h2 by (auto elim!: holds_kept dest!: path_kinds)
  have h4: "holds (invocation_path oh a i) (invocation_to_dict r) s'"
    using cq h3 by (auto elim!: holds_kept dest!: path_kinds)
  show "\<exists>r. id_invocation dec = Some r \<and> invocation_ok r \<and> ir_authority r = a \<and> ir_invocation_id r = i \<and> ir_request_digest r = d
      \<and> ir_state r = INVOCATION_RESERVED \<and> ir_policy_revision r = revision_of p
      \<and> holds (invocation_path oh a i) (invocation_to_dict r) s'"
    by (rule exI [of _ r]) (simp add: dec rok rf h4)
  show "is_once p \<Longrightarrow> \<exists>u. id_policy dec = Some u \<and> policy_ok u \<and> ip_mode u = POLICY_ONCE \<and> ip_state u = POLICY_CONSUMED
      \<and> ip_revision u = revision_of p \<and> map_option ip_authority p = Some (ip_authority u)
      \<and> ip_consumed_invocation_id u = PStr i \<and> holds (policy_path oh (ip_authority u)) (policy_to_dict u) s'"
    using cq by (auto simp: dec revision_of_def dest: puts_holds)
  show "\<not> is_once p \<Longrightarrow> id_policy dec = p" using cq by (auto simp: dec is_once_def)
  show "\<exists>u. id_request_permit dec = Some u \<and> rp_state u = REQUEST_PERMIT_CONSUMED
      \<and> holds (request_permit_path oh a i) (permit_to_dict u) s'" if "found = Some pr"
  proof -
    from cp that obtain u where "up = Some u" "rp_state u = REQUEST_PERMIT_CONSUMED" "rp_authority u = rp_authority pr"
      "puts (request_permit_path oh (rp_authority u) (rp_invocation_id u)) (permit_to_dict u) s2 s3"
      "invocation_id_ok (rp_invocation_id pr) \<longrightarrow> rp_invocation_id u = rp_invocation_id pr" by auto
    with pf [OF that] ok(2) have u: "up = Some u" "rp_state u = REQUEST_PERMIT_CONSUMED"
      "puts (request_permit_path oh a i) (permit_to_dict u) s2 s3" by simp_all
    have "holds (request_permit_path oh a i) (permit_to_dict u) s'"
      using cq puts_holds [OF u(3)] by (auto elim!: holds_kept dest!: path_kinds)
    with u show ?thesis by (auto simp: dec)
  qed
qed

lemma read_runs:
  "read_policy oh a s = (s', Inr x) \<Longrightarrow> same_files s s' \<and> policy_at oh a x s"
  "read_policy_change oh a s = (s', Inr y) \<Longrightarrow> same_files s s' \<and> change_at oh a y s"
  "read_invocation oh a i s = (s', Inr z) \<Longrightarrow> same_files s s' \<and> invocation_at oh a i z s"
  "read_request_permit oh a i s = (s', Inr w) \<Longrightarrow> same_files s s' \<and> permit_at oh a i w s"
  unfolding read_policy_def read_policy_change_def read_invocation_def read_request_permit_def
  using read_record_run by blast+

text \<open>The moment a call takes for now.\<close>

definition moment_at :: "service \<Rightarrow> int option \<Rightarrow> fs \<Rightarrow> int" where
  "moment_at sv now s = (case now of Some n \<Rightarrow> n | None \<Rightarrow> sv_time sv s)"

lemma moment_of_at: "moment_of sv now s = (s, Inr (moment_at sv now s))"
  by (simp add: moment_of_def moment_at_def)

text \<open>
  The facts under which a call with an invocation id is dispatched, in the state \<open>s1\<close> it finds once it
  holds the locks: \<open>p\<close> is the policy that governs it, \<open>found\<close> the permit it uses.
\<close>

definition admitted ::
  "pystr \<Rightarrow> authority \<Rightarrow> policy option \<Rightarrow> permit option \<Rightarrow> pystr \<Rightarrow> pystr \<Rightarrow> int \<Rightarrow> pystr \<Rightarrow> bool \<Rightarrow> bool \<Rightarrow> int \<Rightarrow> fs \<Rightarrow> bool" where
  "admitted oh a p found i d cr ar rrp rep t s1 \<longleftrightarrow>
     governed oh p s1 \<and> invocation_at oh a i None s1 \<and> (rep \<or> rrp \<longrightarrow> p \<noteq> None)
     \<and> (\<forall>q. p = Some q \<longrightarrow> (\<exists>c. change_at oh (ip_authority q) c s1 \<and> \<not> is_prepared c))
     \<and> (\<forall>q. p = Some q \<and> ip_mode q = POLICY_ONCE \<longrightarrow> ip_state q = POLICY_AVAILABLE)
     \<and> (if rrp \<and> is_once p
        then (\<exists>r. found = Some r \<and> permit_at oh a i found s1 \<and> rp_state r = REQUEST_PERMIT_AVAILABLE \<and> t < rp_expires_at r
               \<and> rp_request_digest r = d \<and> rp_card_revision r = max 0 cr \<and> rp_authority_revision r = py_strip ar
               \<and> rp_policy_revision r = revision_of p)
        else found = None)"

lemma permit_refusal_None:
  "permit_refusal q found d cr ar t = None \<longleftrightarrow> (\<exists>r. found = Some r \<and> rp_state r = REQUEST_PERMIT_AVAILABLE \<and> t < rp_expires_at r
     \<and> rp_request_digest r = d \<and> rp_card_revision r = max 0 cr \<and> rp_authority_revision r = py_strip ar
     \<and> rp_policy_revision r = ip_revision q)"
  by (auto simp: permit_refusal_def Let_def split: option.splits)

lemma replay_no_dispatch [simp]: "\<not> id_dispatch (replay_decision p r d rrp cr ar)"
  by (simp add: replay_decision_def refused_def mk_decision_def)

lemma refused_no_dispatch [simp]: "\<not> id_dispatch (refused reason p)" "\<not> id_dispatch (changing p)"
  by (simp_all add: refused_def changing_def mk_decision_def)

lemma permit_refusal_no_dispatch: "permit_refusal q found d cr ar t = Some x \<Longrightarrow> \<not> id_dispatch x"
  by (auto simp: permit_refusal_def refused_def mk_decision_def Let_def split: option.splits if_splits)

lemma begin_locked_dispatch:
  assumes run: "begin_locked oh a p iv dig cr ar rrp rep t s = (s', Inr dec)" and dis: "id_dispatch dec" "py_strip iv \<noteq> []"
    and g: "governed oh p s" and c: "\<And>q. p = Some q \<Longrightarrow> \<exists>c. change_at oh (ip_authority q) c s \<and> \<not> is_prepared c"
  shows "\<exists>i d found s2. validated_invocation_id (PStr iv) = Inr i \<and> validated_request_digest (PStr dig) = Inr d
    \<and> admitted oh a p found i d cr ar rrp rep t s \<and> same_files s s2
    \<and> dispatch_new oh a p found i d cr ar t s2 = (s', Inr dec)"
proof -
  from dis have n: "py_strip iv \<noteq> []" "\<not> (rep \<and> p = None)" "\<not> (rrp \<and> p = None)"
    using run by (auto simp: begin_locked_def split: if_splits)
  with run obtain i d s1 x where i: "validated_invocation_id (PStr iv) = Inr i" "validated_request_digest (PStr dig) = Inr d"
    and r1: "read_invocation oh a i s = (s1, Inr x)"
    and r2: "(case x of Some r \<Rightarrow> retS (replay_decision p r d rrp cr ar)
          | None \<Rightarrow>
             (case p of
                Some q \<Rightarrow>
                  if ip_mode q = POLICY_ONCE \<and> ip_state q = POLICY_CONSUMED
                  then retS (refused ''delegated_invocation_limit_exhausted'' p)
                  else if rrp \<and> ip_mode q = POLICY_ONCE then
                    bindS (read_request_permit oh a i) (\<lambda>found.
                      case permit_refusal q found d cr ar t of
                        Some d \<Rightarrow> retS d
                      | None \<Rightarrow> dispatch_new oh a p found i d cr ar t)
                  else dispatch_new oh a p None i d cr ar t
              | None \<Rightarrow> dispatch_new oh a p None i d cr ar t)) s1 = (s', Inr dec)"
    by (auto simp: begin_locked_def bindS_eq_Inr simp del: not_None_eq split del: option.splits if_splits)
  note s1 = read_runs(3) [OF r1]
  have x: "x = None" using r2 dis(1) by (cases x) auto
  show ?thesis
  proof (cases "rrp \<and> is_once p")
    case True
    then obtain q where q: "p = Some q" "ip_mode q = POLICY_ONCE" by (auto simp: is_once_def split: option.splits)
    with r2 x True dis(1) obtain found s2 where r3: "ip_state q \<noteq> POLICY_CONSUMED" "read_request_permit oh a i s1 = (s2, Inr found)"
      "permit_refusal q found d cr ar t = None" "dispatch_new oh a p found i d cr ar t s2 = (s', Inr dec)"
      by (auto simp: bindS_eq_Inr split: if_splits option.splits dest: permit_refusal_no_dispatch)
    note s2 = read_runs(4) [OF r3(2)]
    have "permit_at oh a i found s" using s1 s2 stored_same [of s s1 "request_permit_path oh a i" "decode_permit a i"] by auto
    moreover have "ip_state q = POLICY_AVAILABLE" using r3(1) by (cases "ip_state q") simp_all
    ultimately have "admitted oh a p found i d cr ar rrp rep t s"
      using g c n s1 x True r3(3) q unfolding admitted_def permit_refusal_None by (auto simp: revision_of_def)
    with i r3(4) s1 s2 same_files_trans show ?thesis by blast
  next
    case False
    with r2 x dis(1) have r3: "dispatch_new oh a p None i d cr ar t s1 = (s', Inr dec)"
      and st: "\<And>q. p = Some q \<Longrightarrow> ip_mode q = POLICY_ONCE \<Longrightarrow> ip_state q \<noteq> POLICY_CONSUMED"
      by (auto simp: is_once_def split: if_splits option.splits)
    have "\<And>q. p = Some q \<Longrightarrow> ip_mode q = POLICY_ONCE \<Longrightarrow> ip_state q = POLICY_AVAILABLE"
      using st policy_state.exhaust by blast
    then have "admitted oh a p None i d cr ar rrp rep t s"
      using g c n s1 x False unfolding admitted_def by auto
    with i r3 s1 show ?thesis by blast
  qed
qed

lemma dispatch_from_start:
  assumes run: "begin_invocation sv owner a iv dig cr ar rrp rep pa now s = (s', Inr dec)"
    and dis: "id_dispatch dec" "py_strip iv \<noteq> []" and sv: "service_ok sv"
  shows "\<exists>oh i d p found s1 s2. owner_hash_for (py_strip owner) = Inr oh \<and> validated_invocation_id (PStr iv) = Inr i
    \<and> validated_request_digest (PStr dig) = Inr d \<and> progress s s1 \<and> same_files s1 s2
    \<and> admitted oh a p found i d cr ar rrp rep (moment_at sv now s) s1
    \<and> dispatch_new oh a p found i d cr ar (moment_at sv now s) s2 = (s', Inr dec)"
proof -
  let ?t = "moment_at sv now s"
  from run obtain oh selected as own u sL sP ep sC ec where oh: "owner_hash_for (py_strip owner) = Inr oh"
    and l: "lock_all sv oh (sort_key authority_key (remdups (own @ as))) s = (sL, Inr u)"
    and rp: "read_policy oh selected sL = (sP, Inr ep)" and rc: "read_policy_change oh selected sP = (sC, Inr ec)"
    and rest: "(if is_prepared ec then retS (changing ep)
           else
             (case (ep, find (\<lambda>b. b \<noteq> selected) as) of
                (None, Some general) \<Rightarrow>
                  bindS (read_policy_change oh general) (\<lambda>general_change.
                    if is_prepared general_change then retS (changing None)
                    else bindS (read_policy oh general) (\<lambda>p. begin_locked oh a p iv dig cr ar rrp rep ?t))
              | _ \<Rightarrow> begin_locked oh a ep iv dig cr ar rrp rep ?t)) sC = (s', Inr dec)"
    unfolding begin_invocation_def Let_def bindS_eq_Inr by (auto simp: require_owner_def moment_of_at)
  have pL: "progress s sL" using proves_lock_all [OF sv] l unfolding proves_def by blast
  have sC: "same_files sL sC" "policy_at oh selected ep sC" "change_at oh selected ec sC" "\<not> is_prepared ec"
    using read_runs(1) [OF rp] read_runs(2) [OF rc] same_files_trans stored_same [of sL sC "policy_path oh selected" "decode_policy selected"]
      stored_same [of sP sC "policy_change_path oh selected" "decode_change selected"] rest dis(1)
    by (auto split: if_splits)
  have "\<exists>p sX. same_files sC sX \<and> governed oh p sX \<and> begin_locked oh a p iv dig cr ar rrp rep ?t sX = (s', Inr dec)
     \<and> (\<forall>q. p = Some q \<longrightarrow> (\<exists>c. change_at oh (ip_authority q) c sX \<and> \<not> is_prepared c))"
  proof (cases "ep = None \<and> find (\<lambda>b. b \<noteq> selected) as \<noteq> None")
    case True
    then obtain g where g: "ep = None" "find (\<lambda>b. b \<noteq> selected) as = Some g" by auto
    with rest sC(4) dis(1) obtain gc s1 p sX where r: "read_policy_change oh g sC = (s1, Inr gc)" "\<not> is_prepared gc"
      "read_policy oh g s1 = (sX, Inr p)" "begin_locked oh a p iv dig cr ar rrp rep ?t sX = (s', Inr dec)"
      by (auto simp: bindS_eq_Inr split: if_splits)
    have x: "same_files sC sX" "policy_at oh g p sX" "change_at oh g gc sX"
      using read_runs(2) [OF r(1)] read_runs(1) [OF r(3)] same_files_trans stored_same [of s1 sX "policy_path oh g" "decode_policy g"]
        stored_same [of sC sX "policy_change_path oh g" "decode_change g"] by auto
    with r governed_read [OF x(2)] show ?thesis by (metis policy_at_Some)
  next
    case False
    then have "begin_locked oh a ep iv dig cr ar rrp rep ?t sC = (s', Inr dec)"
      using rest sC(4) by (auto split: option.splits)
    with sC governed_read [OF sC(2)] same_files_refl(1) show ?thesis by (metis policy_at_Some)
  qed
  then obtain p sX where X: "same_files sC sX" "governed oh p sX" "begin_locked oh a p iv dig cr ar rrp rep ?t sX = (s', Inr dec)"
    "\<And>q. p = Some q \<Longrightarrow> (\<exists>c. change_at oh (ip_authority q) c sX \<and> \<not> is_prepared c)" by blast
  have "progress s sX" using pL sC(1) X(1) by (meson progress_same progress_trans)
  with begin_locked_dispatch [OF X(3) dis X(2,4)] oh show ?thesis by blast
qed

section \<open>Histories of calls\<close>

datatype call =
    Set_Policy pystr authority pystr "int option" "int option"
  | Prepare pystr authority pystr pystr "int option" "int option"
  | Commit pystr authority pystr "int option"
  | Release pystr authority pystr
  | Issue pystr authority pystr pystr int pystr int "int option"
  | Begin pystr authority pystr pystr int pystr bool bool "authority option" "int option"
  | Complete pystr authority pystr pystr pyval bool "int option"

fun after :: "service \<Rightarrow> call \<Rightarrow> fs \<Rightarrow> fs" where
  "after sv (Set_Policy owner a mode e now) s = fst (set_policy sv owner a mode e now s)"
| "after sv (Prepare owner a mode cid e now) s = fst (prepare_policy_change sv owner a mode cid e now s)"
| "after sv (Commit owner a cid now) s = fst (commit_policy_change sv owner a cid now s)"
| "after sv (Release owner a cid) s = fst (release_policy_change sv owner a cid s)"
| "after sv (Issue owner a iv dig cr ar ttl now) s = fst (issue_request_permit sv owner a iv dig cr ar ttl now s)"
| "after sv (Begin owner a iv dig cr ar rrp rep pa now) s = fst (begin_invocation sv owner a iv dig cr ar rrp rep pa now s)"
| "after sv (Complete owner a iv dig res err now) s = fst (complete_invocation sv owner a iv dig res err now s)"

fun call_authority :: "call \<Rightarrow> authority" where
  "call_authority (Set_Policy _ a _ _ _) = a"
| "call_authority (Prepare _ a _ _ _ _) = a"
| "call_authority (Commit _ a _ _) = a"
| "call_authority (Release _ a _) = a"
| "call_authority (Issue _ a _ _ _ _ _ _) = a"
| "call_authority (Begin _ a _ _ _ _ _ _ _ _) = a"
| "call_authority (Complete _ a _ _ _ _ _) = a"

text \<open>A request: the service object that serves it, and the call. Its authority is a constructed one.\<close>

type_synonym request = "service \<times> call"

definition serve :: "request \<Rightarrow> fs \<Rightarrow> fs" where
  "serve r s = after (fst r) (snd r) s"

definition request_ok :: "request \<Rightarrow> bool" where
  "request_ok r \<longleftrightarrow> service_ok (fst r) \<and> authority_ok (call_authority (snd r))"

lemma proves_progress: "proves (\<lambda>_. True) m Q \<Longrightarrow> progress s (fst (m s))"
  by (cases "m s") (auto simp: proves_def)

lemma serve_progress: "request_ok r \<Longrightarrow> progress s (serve r s)"
  by (cases r; cases "snd r")
     (auto simp: request_ok_def serve_def intro!: proves_progress proves_set_policy proves_prepare proves_commit proves_release
       proves_issue proves_begin proves_complete)

interpretation requests: forward_steps serve progress request_ok
  by unfold_locales (auto intro: progress_trans serve_progress)

text \<open>
  The hypothesis on a service's collaborators is met by any that run other requests: a lock whose
  waiters see the requests of the earlier holders, and a settler made of requests.
\<close>

lemma service_ok_requests:
  assumes "\<And>p k s r. r \<in> set (waits p k s) \<Longrightarrow> request_ok r" "\<And>c owner s r. r \<in> set (settles c owner s) \<Longrightarrow> request_ok r"
  shows "service_ok \<lparr>sv_lock = (\<lambda>p k s. (fold serve (waits p k s) s, out p k s)),
    sv_settler = Some (\<lambda>c owner s. (fold serve (settles c owner s) s, res c owner s)), sv_time = clock\<rparr>"
  using assms by (auto simp: service_ok_def intro!: requests.history_forward)

section \<open>What a dispatch leaves\<close>

lemma holds_present: "holds (invocation_path oh a i) (invocation_to_dict r) s \<Longrightarrow> invocation_ok r \<Longrightarrow>
  \<exists>p. invocation_path oh a i = Inr p \<and> present (fs_lookup s p)"
  using reread_invocation [of r] by (auto simp: holds_def present_def)

lemma dispatch_leaves:
  assumes "begin_invocation sv owner a iv dig cr ar rrp rep pa now s = (s', Inr d)" "id_dispatch d" "py_strip iv \<noteq> []"
    "service_ok sv" "authority_ok a"
  obtains oh p i where "owner_hash_for (py_strip owner) = Inr oh" "i = py_strip iv" "invocation_path oh a i = Inr p" "present (fs_lookup s' p)"
proof -
  from dispatch_from_start [OF assms(1-4)] obtain oh i dg p found s1 s2 where
    f: "owner_hash_for (py_strip owner) = Inr oh" "validated_invocation_id (PStr iv) = Inr i" "validated_request_digest (PStr dig) = Inr dg"
    "same_files s1 s2" "admitted oh a p found i dg cr ar rrp rep (moment_at sv now s) s1"
    "dispatch_new oh a p found i dg cr ar (moment_at sv now s) s2 = (s', Inr d)" by blast
  have ids: "invocation_id_ok i" "is_digest dg" "i = py_strip iv"
    using f(2,3) by (auto simp: validated_invocation_id_iff validated_request_digest_iff)
  have g: "governed oh p s2" using f(4,5) stable_governed [of oh p] by (auto simp: admitted_def stable_def)
  have pf: "found = Some r \<Longrightarrow> rp_authority r = a \<and> rp_invocation_id r = i" for r
    using f(5) ids by (auto simp: admitted_def stored_Some decode_permit_def check_record_def split: if_splits)
  from dispatch_new_run(1) [OF f(6) assms(5) ids(1,2) g pf] obtain r where
    "invocation_ok r" "holds (invocation_path oh a i) (invocation_to_dict r) s'" by blast
  with holds_present f(1) ids(3) that show thesis by blast
qed

end
