(* ===== verification/Invocation_Runs.thy ===== *)
theory Invocation_Runs
  imports Invocation_Safety
begin

text \<open>
  Runs of the invocation service in which no file operation fails and the locks are free: what each
  operation then does, and which calls are dispatched. A sample run shows that the hypotheses of
  the properties on histories can be met.
\<close>

section \<open>Reads, writes and locks that succeed\<close>

text \<open>A service whose locks are free.\<close>

definition calm :: "service \<Rightarrow> bool" where
  "calm sv \<longleftrightarrow> (\<forall>p k s. sv_lock sv p k s = (s, Inr ()))"

lemma read_record_at:
  assumes "no_fault s" "stored path dec s = Inr x"
  obtains s' where "read_record path dec s = (s', Inr x)" "same_files s s'" "no_fault s'"
  using read_record_ok [OF assms(1), of path dec] assms no_fault_same by auto

lemma reads_at:
  assumes "no_fault s"
  shows "policy_at oh a x s \<Longrightarrow> \<exists>s'. read_policy oh a s = (s', Inr x) \<and> same_files s s' \<and> no_fault s'"
    "change_at oh a y s \<Longrightarrow> \<exists>s'. read_policy_change oh a s = (s', Inr y) \<and> same_files s s' \<and> no_fault s'"
    "invocation_at oh a i z s \<Longrightarrow> \<exists>s'. read_invocation oh a i s = (s', Inr z) \<and> same_files s s' \<and> no_fault s'"
    "permit_at oh a i w s \<Longrightarrow> \<exists>s'. read_request_permit oh a i s = (s', Inr w) \<and> same_files s s' \<and> no_fault s'"
  using read_record_at [OF assms] unfolding read_policy_def read_policy_change_def read_invocation_def read_request_permit_def
  by metis+

lemma critical_free: "calm sv \<Longrightarrow> owner_hash_ok oh \<Longrightarrow> authority_ok a \<Longrightarrow> critical_section sv oh a s = (s, Inr ())"
  using authority_path_ok [of oh a] by (auto simp: critical_section_def calm_def)

lemma lock_all_free: "calm sv \<Longrightarrow> owner_hash_ok oh \<Longrightarrow> \<forall>a \<in> set as. authority_ok a \<Longrightarrow> lock_all sv oh as s = (s, Inr ())"
  by (induction as) (simp_all add: critical_free)

lemma kept_other_kind:
  assumes "puts path v s s'" "\<And>p. path = Inr p \<Longrightarrow> path_kind p = k"
  shows "k \<noteq> POLICY_KIND \<Longrightarrow> policy_at oh a x s' \<longleftrightarrow> policy_at oh a x s"
    "k \<noteq> CHANGE_KIND \<Longrightarrow> change_at oh a y s' \<longleftrightarrow> change_at oh a y s"
    "k \<noteq> INVOCATION_KIND \<Longrightarrow> invocation_at oh a i z s' \<longleftrightarrow> invocation_at oh a i z s"
    "k \<noteq> PERMIT_KIND \<Longrightarrow> permit_at oh a i w s' \<longleftrightarrow> permit_at oh a i w s"
  using policy_kind.read_other_kind [OF assms(1), of "(oh, a)"] change_kind.read_other_kind [OF assms(1), of "(oh, a)"]
    invocation_kind.read_other_kind [OF assms(1), of "(oh, a, i)"] permit_kind.read_other_kind [OF assms(1), of "(oh, a, i)"] assms(2)
  by auto

lemma write_policy_at:
  assumes "no_fault s" "owner_hash_ok oh" "stable_authority (ip_authority p)" "policy_ok p"
  shows "\<exists>s'. write_policy oh p s = (s', Inr ()) \<and> no_fault s' \<and> policy_at oh (ip_authority p) (Some p) s'
    \<and> puts (policy_path oh (ip_authority p)) (policy_to_dict p) s s'"
  using policy_kind.write_ok [OF assms(1), of "(oh, ip_authority p)" p] assms by (auto simp: write_policy_def)

lemma write_change_at:
  assumes "no_fault s" "owner_hash_ok oh" "stable_authority (pc_authority c)" "change_ok c"
  shows "\<exists>s'. write_policy_change oh c s = (s', Inr ()) \<and> no_fault s' \<and> change_at oh (pc_authority c) (Some c) s'
    \<and> puts (policy_change_path oh (pc_authority c)) (change_to_dict c) s s'"
  using change_kind.write_ok [OF assms(1), of "(oh, pc_authority c)" c] assms by (auto simp: write_policy_change_def)

lemma write_permit_at:
  assumes "no_fault s" "owner_hash_ok oh" "stable_authority (rp_authority r)" "permit_ok r"
  shows "\<exists>s'. write_request_permit oh r s = (s', Inr ()) \<and> no_fault s'
    \<and> permit_at oh (rp_authority r) (rp_invocation_id r) (Some (r\<lparr>rp_authority_revision := join_surrogates (rp_authority_revision r)\<rparr>)) s'
    \<and> puts (request_permit_path oh (rp_authority r) (rp_invocation_id r)) (permit_to_dict r) s s'"
  using permit_kind.write_ok [OF assms(1), of "(oh, rp_authority r, rp_invocation_id r)" r] assms by (auto simp: write_request_permit_def)

lemma write_invocation_at:
  assumes "no_fault s" "owner_hash_ok oh" "stable_authority (ir_authority r)" "invocation_ok r" "is_ok (dumps True (ir_policy_id r))"
  shows "\<exists>s'. write_invocation oh r s = (s', Inr ()) \<and> no_fault s'
    \<and> invocation_at oh (ir_authority r) (ir_invocation_id r) (Some (reread_record r)) s'
    \<and> puts (invocation_path oh (ir_authority r) (ir_invocation_id r)) (invocation_to_dict r) s s'"
  using invocation_kind.write_ok [OF assms(1), of "(oh, ir_authority r, ir_invocation_id r)" r] assms by (auto simp: write_invocation_def)

section \<open>Runs that succeed\<close>

text \<open>What every record read from the store satisfies.\<close>

lemma policy_at_ok: "policy_at oh a (Some p) s \<Longrightarrow> ip_authority p = a \<and> authority_ok a \<and> 1 \<le> ip_revision p"
  by (auto simp: stored_Some decode_policy_def policy_from_mapping_def mk_policy_def check_record_def dest!: schema_authority_ok)

lemma change_at_ok: "change_at oh a (Some c) s \<Longrightarrow> change_ok c \<and> pc_authority c = a"
  by (auto simp: stored_Some decode_change_def check_record_def change_from_mapping_def dest!: mk_policy_change_ok schema_authority_ok)

lemma permit_at_ok: "permit_at oh a i (Some r) s \<Longrightarrow> permit_ok r \<and> rp_authority r = a"
  by (auto simp: stored_Some decode_permit_def check_record_def permit_from_mapping_def dest!: mk_permit_ok schema_authority_ok)

lemma revision_nonneg: "policy_at oh a x s \<Longrightarrow> 0 \<le> revision_of x"
  using policy_at_ok by (cases x) (fastforce simp: revision_of_def)+

lemma publish_runs:
  assumes "no_fault s" "owner_hash_ok oh" "stable_authority a" "1 \<le> rv"
  shows "\<exists>s' p. publish_policy oh a m rv t s = (s', Inr p) \<and> no_fault s' \<and> policy_at oh a (Some p) s'
    \<and> ip_authority p = a \<and> ip_mode p = m \<and> ip_revision p = rv \<and> ip_state p = POLICY_AVAILABLE \<and> puts (policy_path oh a) (policy_to_dict p) s s'"
proof -
  let ?m = "mk_policy a (PStr (mode_text m)) rv (PStr (policy_state_text POLICY_AVAILABLE)) (PStr []) (PStr []) 0 t"
  have a: "authority_ok a" using assms(3) by (simp add: stable_authority_def)
  have "is_ok ?m" using assms(4) by (simp add: mk_policy_def check_record_def)
  then obtain p where p: "?m = Inr p" by (auto simp: is_ok_iff)
  note f = mk_available_policy [OF p a]
  obtain s' where "write_policy oh p s = (s', Inr ())" "no_fault s'" "policy_at oh a (Some p) s'"
     "puts (policy_path oh a) (policy_to_dict p) s s'"
    using write_policy_at [OF assms(1,2), of p] f assms(3) by auto
  with f p show ?thesis by (auto simp: publish_policy_def)
qed

text \<open>The owner and authority of a call that passes the checks at its start.\<close>

definition caller_ok :: "pystr \<Rightarrow> pystr \<Rightarrow> authority \<Rightarrow> bool" where
  "caller_ok owner oh a \<longleftrightarrow> py_strip owner \<noteq> [] \<and> owner_hash_for (py_strip owner) = Inr oh \<and> stable_authority a"

lemma caller_okD:
  assumes "caller_ok owner oh a"
  shows "require_owner (py_strip owner) = retS ()" "owner_hash_for (py_strip owner) = Inr oh" "owner_hash_ok oh"
    "authority_ok a" "stable_authority a"
  using assms owner_hash_for_ok by (auto simp: caller_ok_def require_owner_def check_record_def stable_authority_def fun_eq_iff)

lemma check_expected_runs: "e = None \<or> e = Some n \<Longrightarrow> check_expected e n s = (s, Inr ())"
  by (auto simp: check_expected_def)

lemma set_policy_runs:
  assumes "calm sv" "no_fault s" "caller_ok owner oh a" "POLICY_MODES (py_lower (py_strip mode)) = Some m"
    "change_at oh a None s" "policy_at oh a x s" "e = None \<or> e = Some (revision_of x)"
  shows "\<exists>s' p. set_policy sv owner a mode e now s = (s', Inr p) \<and> no_fault s' \<and> policy_at oh a (Some p) s'
    \<and> ip_mode p = m \<and> ip_revision p = revision_of x + 1 \<and> ip_state p = POLICY_AVAILABLE
    \<and> puts (policy_path oh a) (policy_to_dict p) s s'"
proof -
  note c = caller_okD [OF assms(3)]
  obtain s1 where s1: "read_policy_change oh a s = (s1, Inr None)" "same_files s s1" "no_fault s1"
    using reads_at(2) [OF assms(2,5)] by blast
  have "policy_at oh a x s1" using assms(6) s1(2) by (simp add: stored_same)
  then obtain s2 where s2: "read_policy oh a s1 = (s2, Inr x)" "same_files s1 s2" "no_fault s2"
    using reads_at(1) [OF s1(3)] by blast
  obtain s' p where p: "publish_policy oh a m (revision_of x + 1) (moment_at sv now s) s2 = (s', Inr p)" "no_fault s'"
    "policy_at oh a (Some p) s'" "ip_mode p = m" "ip_revision p = revision_of x + 1" "ip_state p = POLICY_AVAILABLE"
    "puts (policy_path oh a) (policy_to_dict p) s2 s'"
    using publish_runs [OF s2(3) c(3,5), of "revision_of x + 1" m "moment_at sv now s"] revision_nonneg [OF assms(6)] by auto
  have "puts (policy_path oh a) (policy_to_dict p) s s'"
    using p(7) s1(2) s2(2) by (auto simp: puts_def same_files_def)
  moreover have "set_policy_round sv oh a m e (moment_at sv now s) None False s = (s', Inr (Done p))"
    using s1(1) s2(1) p(1) assms(7) c by (simp add: set_policy_round_def critical_free [OF assms(1)] check_expected_runs)
  then have "set_policy sv owner a mode e now s = (s', Inr p)"
    using assms(4) c(1,2) by (simp add: set_policy_def Let_def moment_of_at numeral_2_eq_2)
  ultimately show ?thesis using p by blast
qed

lemma prepare_runs:
  assumes "calm sv" "no_fault s" "caller_ok owner oh a" "POLICY_MODES (py_lower (py_strip mode)) = Some m"
    "validated_invocation_id (PStr cid) = Inr i" "change_at oh a None s" "policy_at oh a x s" "e = None \<or> e = Some (revision_of x)"
    "1 \<le> moment_at sv now s"
  shows "\<exists>s' c. prepare_policy_change sv owner a mode cid e now s = (s', Inr c) \<and> no_fault s' \<and> change_at oh a (Some c) s'
    \<and> pc_state c = POLICY_CHANGE_PREPARED \<and> pc_mode c = m \<and> pc_change_id c = i \<and> pc_expected_policy_revision c = revision_of x
    \<and> pc_prepared_at c = moment_at sv now s \<and> policy_at oh a x s'"
proof -
  note k = caller_okD [OF assms(3)]
  obtain s1 where s1: "read_policy_change oh a s = (s1, Inr None)" "same_files s s1" "no_fault s1"
    using reads_at(2) [OF assms(2,6)] by blast
  have "policy_at oh a x s1" using assms(7) s1(2) by (simp add: stored_same)
  then obtain s2 where s2: "read_policy oh a s1 = (s2, Inr x)" "same_files s1 s2" "no_fault s2"
    using reads_at(1) [OF s1(3)] by blast
  let ?c = "\<lparr>pc_authority = a, pc_change_id = i, pc_mode = m, pc_state = POLICY_CHANGE_PREPARED,
     pc_expected_policy_revision = revision_of x, pc_policy_revision = 0, pc_prepared_at = moment_at sv now s, pc_committed_at = 0\<rparr>"
  have i: "invocation_id_ok i" using assms(5) by (simp add: validated_invocation_id_iff)
  have mk: "mk_policy_change a (PStr i) (PStr (mode_text m)) (PStr (change_state_text POLICY_CHANGE_PREPARED))
       (revision_of x) 0 (moment_at sv now s) 0 = Inr ?c"
    using i assms(9) revision_nonneg [OF assms(7)] by (simp add: mk_policy_change_def check_record_def)
  have "change_ok ?c" using mk_policy_change_ok [OF mk k(4)] by simp
  then obtain s' where w: "write_policy_change oh ?c s2 = (s', Inr ())" "no_fault s'" "change_at oh a (Some ?c) s'"
    "puts (policy_change_path oh a) (change_to_dict ?c) s2 s'"
    using write_change_at [OF s2(3) k(3), of ?c] k(5) by auto
  have "policy_at oh a x s'"
    using kept_other_kind(1) [OF w(4), of CHANGE_KIND] assms(7) s1(2) s2(2) by (simp add: path_kinds(2) stored_same)
  moreover have "prepare_round sv oh a m i e (moment_at sv now s) None False s = (s', Inr (Done ?c))"
    using s1(1) s2(1) w(1) assms(8) k mk by (simp add: prepare_round_def place_marker_def critical_free [OF assms(1)] check_expected_runs)
  then have "prepare_policy_change sv owner a mode cid e now s = (s', Inr ?c)"
    using assms(4,5) k(1,2) by (simp add: prepare_policy_change_def Let_def moment_of_at numeral_2_eq_2)
  ultimately show ?thesis using w by fastforce
qed

lemma commit_runs:
  assumes "calm sv" "no_fault s" "caller_ok owner oh a" "validated_invocation_id (PStr cid) = Inr i"
    "change_at oh a (Some c) s" "pc_change_id c = i" "pc_state c = POLICY_CHANGE_PREPARED" "policy_at oh a x s"
    "revision_of x = pc_expected_policy_revision c \<or>
      (\<exists>p. x = Some p \<and> ip_revision p = pc_expected_policy_revision c + 1 \<and> ip_mode p = pc_mode c \<and> ip_state p = POLICY_AVAILABLE)"
    "pc_prepared_at c \<le> moment_at sv now s"
  shows "\<exists>s' p k. commit_policy_change sv owner a cid now s = (s', Inr p) \<and> no_fault s' \<and> policy_at oh a (Some p) s'
    \<and> ip_mode p = pc_mode c \<and> ip_revision p = pc_expected_policy_revision c + 1 \<and> ip_state p = POLICY_AVAILABLE
    \<and> change_at oh a (Some k) s' \<and> pc_state k = POLICY_CHANGE_COMMITTED \<and> pc_change_id k = i"
proof -
  note k = caller_okD [OF assms(3)]
  note co = change_at_ok [OF assms(5)]
  let ?t = "moment_at sv now s" and ?r = "pc_expected_policy_revision c + 1"
  obtain s1 where s1: "read_policy_change oh a s = (s1, Inr (Some c))" "same_files s s1" "no_fault s1"
    using reads_at(2) [OF assms(2,5)] by blast
  have "policy_at oh a x s1" using assms(8) s1(2) by (simp add: stored_same)
  then obtain s2 where s2: "read_policy oh a s1 = (s2, Inr x)" "same_files s1 s2" "no_fault s2"
    using reads_at(1) [OF s1(3)] by blast
  have x2: "policy_at oh a x s2" "change_at oh a (Some c) s2" using assms(5,8) s1(2) s2(2) by (simp_all add: stored_same)
  let ?pub = "if revision_of x = pc_expected_policy_revision c then publish_policy oh a (pc_mode c) ?r ?t
     else case x of None \<Rightarrow> failS (conflict_at ''invocation_policy_change_commit_moved'' 0)
       | Some p \<Rightarrow> if ip_revision p = ?r \<and> ip_mode p = pc_mode c \<and> ip_state p = POLICY_AVAILABLE then retS p
           else failS (conflict_at ''invocation_policy_change_commit_moved'' (ip_revision p))"
  have e: "0 \<le> pc_expected_policy_revision c" using co by (simp add: change_ok_def)
  obtain s3 p where p: "?pub s2 = (s3, Inr p)" "no_fault s3" "policy_at oh a (Some p) s3" "ip_mode p = pc_mode c" "ip_revision p = ?r"
    "ip_state p = POLICY_AVAILABLE"
  proof (cases "revision_of x = pc_expected_policy_revision c")
    case True
    with publish_runs [OF s2(3) k(3,5), of ?r "pc_mode c" ?t] e that show thesis by fastforce
  next
    case False
    with assms(9) x2 s2(3) that show thesis by (auto simp: revision_of_def)
  qed
  let ?k = "c\<lparr>pc_state := POLICY_CHANGE_COMMITTED, pc_policy_revision := ?r, pc_committed_at := ?t\<rparr>"
  have mk: "mk_policy_change (pc_authority c) (PStr (pc_change_id c)) (PStr (mode_text (pc_mode c)))
       (PStr (change_state_text POLICY_CHANGE_COMMITTED)) (pc_expected_policy_revision c) ?r (pc_prepared_at c) ?t = Inr ?k"
    using co assms(7,10) by (cases c) (auto simp: mk_policy_change_def check_record_def change_ok_def)
  have "change_ok ?k" "pc_authority ?k = a" using mk_policy_change_ok [OF mk] co k(4) by auto
  then obtain s' where w: "write_policy_change oh ?k s3 = (s', Inr ())" "no_fault s'" "change_at oh a (Some ?k) s'"
    "puts (policy_change_path oh a) (change_to_dict ?k) s3 s'"
    using write_change_at [OF p(2) k(3), of ?k] k(5) by auto
  have "policy_at oh a (Some p) s'"
    using kept_other_kind(1) [OF w(4), of CHANGE_KIND] p(3) by (simp add: path_kinds(2))
  moreover have "commit_policy_change sv owner a cid now s = (s', Inr p)"
    using s1(1) s2(1) w(1) assms(4,6,7) k mk p(1)
    by (simp add: commit_policy_change_def Let_def moment_of_at commit_marker_def critical_free [OF assms(1)])
  moreover have "pc_state ?k = POLICY_CHANGE_COMMITTED" "pc_change_id ?k = i" using assms(6) by simp_all
  ultimately show ?thesis using w(2,3) p(4-6) by blast
qed

lemma consume_permit_runs:
  assumes "no_fault s" "owner_hash_ok oh" "stable_authority a" "found = None \<or> (\<exists>s0. permit_at oh a i found s0)"
    "\<And>r. found = Some r \<Longrightarrow> rp_issued_at r \<le> t"
  shows "\<exists>s' u. consume_permit oh found t s = (s', Inr u) \<and> no_fault s'"
proof (cases found)
  case (Some r)
  then have r: "permit_ok r" "rp_authority r = a" using assms(4) permit_at_ok by auto
  let ?mk = "mk_permit (rp_authority r) (PStr (rp_invocation_id r)) (PStr (rp_request_digest r)) (rp_card_revision r)
          (PStr (rp_authority_revision r)) (rp_policy_revision r) (rp_revision r)
          (PStr (permit_state_text REQUEST_PERMIT_CONSUMED)) (rp_issued_at r) (rp_expires_at r) t"
  have "is_ok ?mk" using r(1) assms(5) [OF Some] by (auto simp: mk_permit_def check_record_def permit_ok_def)
  then obtain u where u: "?mk = Inr u" by (auto simp: is_ok_iff)
  have "permit_ok u" "rp_authority u = a"
    using mk_permit_ok [OF u] r assms(3) by (auto simp: stable_authority_def)
  with write_permit_at [OF assms(1,2), of u] assms(3) u Some show ?thesis by (auto simp: consume_permit_def)
qed (use assms(1) in \<open>simp add: consume_permit_def\<close>)

lemma consume_policy_runs:
  assumes "no_fault s" "owner_hash_ok oh" "p = None \<or> (\<exists>q s0. p = Some q \<and> stable_authority (ip_authority q) \<and> policy_at oh (ip_authority q) p s0)"
    "invocation_id_ok i" "is_digest d" "1 \<le> t"
  shows "\<exists>s' u. consume_policy oh p i d t s = (s', Inr u) \<and> no_fault s'"
proof (cases "is_once p")
  case True
  then obtain q where q: "p = Some q" "ip_mode q = POLICY_ONCE" by (auto simp: is_once_def split: option.splits)
  with assms(3) have a: "stable_authority (ip_authority q)" "1 \<le> ip_revision q" "authority_ok (ip_authority q)"
    using policy_at_ok by blast+
  let ?mk = "mk_policy (ip_authority q) (PStr (mode_text (ip_mode q))) (ip_revision q)
               (PStr (policy_state_text POLICY_CONSUMED)) (PStr i) (PStr d) t t"
  have "is_ok ?mk" using a(2) assms(4-6) q(2) by (auto simp: mk_policy_def check_record_def)
  then obtain u where u: "?mk = Inr u" by (auto simp: is_ok_iff)
  note f = mk_consumed_policy [OF u a(3) assms(4,5)]
  with write_policy_at [OF assms(1,2), of u] a(1) u q show ?thesis by (auto simp: consume_policy_def)
qed (use assms(1) in \<open>auto simp: consume_policy_def is_once_def split: option.splits\<close>)

lemma dispatch_runs:
  assumes "no_fault s" "owner_hash_ok oh" "stable_authority a" "invocation_id_ok i" "is_digest d" "1 \<le> t"
    "p = None \<or> (\<exists>q s0. p = Some q \<and> stable_authority (ip_authority q) \<and> policy_at oh (ip_authority q) p s0)"
    "found = None \<or> (\<exists>s0. permit_at oh a i found s0)" "\<And>r. found = Some r \<Longrightarrow> rp_issued_at r \<le> t"
  shows "\<exists>s' dec. dispatch_new oh a p found i d cr ar t s = (s', Inr dec) \<and> no_fault s' \<and> id_dispatch dec \<and> id_allowed dec
    \<and> id_reason dec = ''delegated_invocation_allowed''"
proof -
  let ?mk = "mk_invocation a (PStr i) (PStr d)
       (PStr (case p of Some q \<Rightarrow> policy_id q | None \<Rightarrow> lit ''default_'' @ take 24 (authority_key a)))
       (revision_of p) (PStr (mode_text (if is_once p then POLICY_ONCE else POLICY_ALWAYS)))
       (PStr (invocation_state_text INVOCATION_RESERVED)) cr (py_strip ar)
       (case found of Some r \<Rightarrow> rp_revision r | None \<Rightarrow> 0) PNone False t 0"
  have "is_ok (canonical_json PNone)" by (simp add: canonical_json_ok)
  then have "is_ok ?mk" using assms(4,5) by (auto simp: mk_invocation_def check_record_def is_ok_iff)
  then obtain r where r: "?mk = Inr r" by (auto simp: is_ok_iff)
  have a: "authority_ok a" using assms(3) by (simp add: stable_authority_def)
  have ok: "invocation_ok r" "ir_authority r = a" using mk_invocation_ok [OF r a] by simp_all
  have f: "ir_invocation_id r = i" "is_ok (dumps True (ir_policy_id r))" using r assms(4,5) by (auto simp: mk_invocation_def)
  obtain s1 where s1: "write_invocation oh r s = (s1, Inr ())" "no_fault s1"
    using write_invocation_at [OF assms(1,2), of r] ok f assms(3) by auto
  obtain s2 u where s2: "consume_permit oh found t s1 = (s2, Inr u)" "no_fault s2"
    using consume_permit_runs [OF s1(2) assms(2,3,8,9)] by auto
  obtain s3 v where s3: "consume_policy oh p i d t s2 = (s3, Inr v)" "no_fault s3"
    using consume_policy_runs [OF s2(2) assms(2,7,4-6)] by auto
  show ?thesis using r s1 s2 s3 by (auto simp: dispatch_new_def mk_decision_def)
qed

lemma policy_authorities_runs: "authority_ok a \<Longrightarrow> \<exists>as. policy_authorities a = Inr as \<and> (\<forall>b \<in> set as. authority_ok b)"
proof -
  assume a: "authority_ok a"
  have "\<exists>g. mk_authority (PStr (ia_access_id a)) (PStr (ia_resource a)) (PStr (ia_surface a)) (PStr (ia_operation a)) (PStr []) (PStr []) = Inr g"
    using authority_okD [OF a] access_id_plain token_plain by (auto simp: mk_authority_def check_record_def Let_def)
  then have "\<exists>as. policy_authorities a = Inr as" by (auto simp: policy_authorities_def)
  with policy_authorities_ok a show ?thesis by blast
qed

lemma begin_runs:
  assumes "calm sv" "no_fault s" "caller_ok owner oh a" "resource_matches (PStr (ia_resource a)) (PStr (ia_resource a))"
    "policy_at oh a p s" "p \<noteq> None \<or> ia_provider_id a = []" "change_at oh a c s" "\<not> is_prepared c"
  obtains s1 where "begin_invocation sv owner a iv dig cr ar rrp rep None now s = begin_locked oh a p iv dig cr ar rrp rep (moment_at sv now s) s1"
    "same_files s s1" "no_fault s1"
proof -
  note k = caller_okD [OF assms(3)]
  obtain as where as: "policy_authorities a = Inr as" "\<forall>b \<in> set as. authority_ok b" using policy_authorities_runs [OF k(4)] by blast
  obtain s1 where s1: "read_policy oh a s = (s1, Inr p)" "same_files s s1" "no_fault s1" using reads_at(1) [OF assms(2,5)] by blast
  have "change_at oh a c s1" using assms(7) s1(2) by (simp add: stored_same)
  then obtain s2 where s2: "read_policy_change oh a s1 = (s2, Inr c)" "same_files s1 s2" "no_fault s2"
    using reads_at(2) [OF s1(3)] by blast
  have none: "p = None \<Longrightarrow> find (\<lambda>b. b \<noteq> a) as = None"
    using assms(6) as(1) by (auto simp: policy_authorities_def)
  have l: "lock_all sv oh (sort_key authority_key (remdups (as @ as))) s = (s, Inr ())"
    using as(2) by (intro lock_all_free [OF assms(1) k(3)]) auto
  have "begin_invocation sv owner a iv dig cr ar rrp rep None now s = begin_locked oh a p iv dig cr ar rrp rep (moment_at sv now s) s2"
    using k(1,2) as(1) s1(1) s2(1) assms(4,8) none l
    by (cases p) (simp_all add: begin_invocation_def Let_def moment_of_at validated_policy_authority_def)
  with s1 s2 same_files_trans that show thesis by blast
qed

section \<open>Samples\<close>

definition sample_service :: service where
  "sample_service = \<lparr>sv_lock = (\<lambda>_ _ s. (s, Inr ())), sv_settler = None, sv_time = (\<lambda>_. 10)\<rparr>"

definition empty_fs :: fs where
  "empty_fs = \<lparr>fs_files = [], fs_fault = (\<lambda>_. No_Fault), fs_ops = 0\<rparr>"

definition sample_request_digest :: pystr where "sample_request_digest = replicate 64 48"

definition sample_hash :: pystr where
  "sample_hash = (case owner_hash_for (lit ''o'') of Inr h \<Rightarrow> h | Inl _ \<Rightarrow> [])"

lemma sample_service_ok [simp]: "calm sample_service" "service_ok sample_service" "moment_at sample_service None s = 10"
  by (simp_all add: sample_service_def calm_def service_ok_def moment_at_def)

lemma sample_stable [simp]: "stable_authority sample_authority" "authority_ok sample_authority"
  by (simp_all add: stable_authority_def sample_authority_ok)

lemma sample_caller: "caller_ok (lit ''o'') sample_hash sample_authority"
  by (auto simp: caller_ok_def sample_hash_def owner_hash_for_def utf8_encode_def py_strip_fix encodable_ascii lit_def is_surrogate_def
      py_strip_def py_lstrip_def is_space_def)

lemma sample_request_digest_ok [simp]: "is_digest sample_request_digest" "validated_request_digest (PStr sample_request_digest) = Inr sample_request_digest"
proof -
  show "is_digest sample_request_digest" by (simp add: sample_request_digest_def is_digest_def is_lower_hex_def is_digit_char_def)
  then show "validated_request_digest (PStr sample_request_digest) = Inr sample_request_digest" by simp
qed

lemma sample_ids [simp]: "invocation_id_ok (lit ''i'')" "py_strip (lit ''i'') = lit ''i''" "lit ''i'' \<noteq> []"
  "invocation_id_ok (lit ''j'')" "py_strip (lit ''j'') = lit ''j''" "lit ''j'' \<noteq> []"
  by (simp_all add: invocation_id_ok_def lit_def py_strip_def py_lstrip_def is_space_def)

lemma sample_resource [simp]: "resource_matches (PStr (ia_resource sample_authority)) (PStr (ia_resource sample_authority))"
proof -
  have "normalize_resource (PStr (ia_resource sample_authority)) = lit ''https://h/mcp''"
    by (simp add: sample_authority_def normalize_resource_def rstrip_slash_def lit_def py_strip_def py_lstrip_def is_space_def)
  with literal_selector [OF _ _ this] show ?thesis by (simp add: lit_def)
qed

lemma sample_modes [simp]: "POLICY_MODES (py_lower (py_strip (lit ''once''))) = Some POLICY_ONCE"
  by code_simp

lemma sample_no_provider [simp]: "ia_provider_id sample_authority = []"
  by (simp add: sample_authority_def)

lemma empty_fs_at [simp]: "no_fault empty_fs"
  "policy_at sample_hash sample_authority None empty_fs" "change_at sample_hash sample_authority None empty_fs"
  "invocation_id_ok i \<Longrightarrow> invocation_at sample_hash sample_authority i None empty_fs"
proof -
  have o: "owner_hash_ok sample_hash" using caller_okD(3) [OF sample_caller] .
  show "no_fault empty_fs" by (simp add: no_fault_def empty_fs_def)
  show "policy_at sample_hash sample_authority None empty_fs" "change_at sample_hash sample_authority None empty_fs"
    "invocation_id_ok i \<Longrightarrow> invocation_at sample_hash sample_authority i None empty_fs"
    using paths_ok [OF o sample_stable(2)] by (auto simp: stored_None present_def empty_fs_def fs_lookup_def)
qed

section \<open>Which invocations are dispatched\<close>

lemma begin_locked_admitted:
  assumes "no_fault s" "owner_hash_ok oh" "stable_authority a" "policy_at oh a p s"
    "validated_invocation_id (PStr iv) = Inr i" "validated_request_digest (PStr dig) = Inr d" "1 \<le> t"
    "admitted oh a p found i d cr ar rrp rep t s" "\<And>r. found = Some r \<Longrightarrow> rp_issued_at r \<le> t"
  shows "\<exists>s' dec. begin_locked oh a p iv dig cr ar rrp rep t s = (s', Inr dec) \<and> no_fault s' \<and> id_dispatch dec \<and> id_allowed dec"
proof -
  have ids: "invocation_id_ok i" "is_digest d" "py_strip iv = i" "i \<noteq> []"
    using assms(5,6) by (auto simp: validated_invocation_id_iff validated_request_digest_iff invocation_id_ok_def)
  have adm: "invocation_at oh a i None s" "rep \<or> rrp \<longrightarrow> p \<noteq> None"
    "\<And>q. p = Some q \<Longrightarrow> ip_mode q = POLICY_ONCE \<Longrightarrow> ip_state q = POLICY_AVAILABLE"
    using assms(8) by (auto simp: admitted_def)
  have g: "p = None \<or> (\<exists>q s0. p = Some q \<and> stable_authority (ip_authority q) \<and> policy_at oh (ip_authority q) p s0)"
    using assms(3,4) policy_at_ok by (cases p) blast+
  obtain s1 where s1: "read_invocation oh a i s = (s1, Inr None)" "same_files s s1" "no_fault s1"
    using reads_at(3) [OF assms(1) adm(1)] by blast
  show ?thesis
  proof (cases "rrp \<and> is_once p")
    case True
    then obtain q where q: "p = Some q" "ip_mode q = POLICY_ONCE" by (auto simp: is_once_def split: option.splits)
    from True assms(8) have f: "permit_at oh a i found s" "permit_refusal q found d cr ar t = None"
      using q by (auto simp: admitted_def permit_refusal_None revision_of_def)
    have "permit_at oh a i found s1" using f(1) s1(2) by (simp add: stored_same)
    then obtain s2 where s2: "read_request_permit oh a i s1 = (s2, Inr found)" "no_fault s2" using reads_at(4) [OF s1(3)] by blast
    from dispatch_runs [OF s2(2) assms(2,3) ids(1,2) assms(7) g _ assms(9), where cr = cr and ar = ar] f(1)
    obtain s' dec where "dispatch_new oh a p found i d cr ar t s2 = (s', Inr dec)" "no_fault s'" "id_dispatch dec" "id_allowed dec" by blast
    moreover have "ip_state q = POLICY_AVAILABLE" using adm(3) q by blast
    ultimately show ?thesis using q True s1(1) s2(1) f(2) ids assms(5,6) by (simp add: begin_locked_def)
  next
    case False
    from dispatch_runs [OF s1(3) assms(2,3) ids(1,2) assms(7) g, where found = None and cr = cr and ar = ar]
    obtain s' dec where "dispatch_new oh a p None i d cr ar t s1 = (s', Inr dec)" "no_fault s'" "id_dispatch dec" "id_allowed dec" by auto
    moreover have "begin_locked oh a p iv dig cr ar rrp rep t s = dispatch_new oh a p None i d cr ar t s1"
      using False s1(1) ids assms(5,6) adm by (cases p) (auto simp: begin_locked_def is_once_def)
    ultimately show ?thesis by simp
  qed
qed

text \<open>
  C10. An invocation that meets the conditions is dispatched. If no file operation fails and the locks
  are free, and in the stored state the id is new, no change of the governing policy is prepared, a
  one-use policy is still available and a required permit is stored, unexpired and bound to this request and
  these revisions, then \<open>begin\<close> returns a dispatch.
\<close>

theorem admitted_invocation_is_dispatched:
  assumes "calm sv" "no_fault s" "caller_ok owner oh a" "resource_matches (PStr (ia_resource a)) (PStr (ia_resource a))"
    "policy_at oh a p s" "p \<noteq> None \<or> ia_provider_id a = []" "change_at oh a c s" "\<not> is_prepared c"
    "validated_invocation_id (PStr iv) = Inr i" "validated_request_digest (PStr dig) = Inr d" "1 \<le> moment_at sv now s"
    "admitted oh a p found i d cr ar rrp rep (moment_at sv now s) s" "\<And>r. found = Some r \<Longrightarrow> rp_issued_at r \<le> moment_at sv now s"
  shows "\<exists>s' dec. begin_invocation sv owner a iv dig cr ar rrp rep None now s = (s', Inr dec) \<and> no_fault s' \<and> id_dispatch dec \<and> id_allowed dec"
proof -
  let ?t = "moment_at sv now s"
  obtain s1 where s1: "begin_invocation sv owner a iv dig cr ar rrp rep None now s = begin_locked oh a p iv dig cr ar rrp rep ?t s1"
    "same_files s s1" "no_fault s1"
    using begin_runs [OF assms(1-8)] by blast
  note k = caller_okD [OF assms(3)]
  have "policy_at oh a p s1" "admitted oh a p found i d cr ar rrp rep ?t s1"
    using assms(5,12) s1(2) stable_governed [of oh p] by (auto simp: admitted_def stored_same stable_def)
  from begin_locked_admitted [OF s1(3) k(3,5) this(1) assms(9-11) this(2) assms(13)] s1(1) show ?thesis by simp
qed

lemma sample_admitted:
  "admitted sample_hash sample_authority None None (lit ''i'') sample_request_digest 1 (lit ''1'') False False 10 empty_fs"
  by (simp add: admitted_def governed_def)

theorem admitted_invocation_is_dispatched_witness:
  "\<exists>s' dec. begin_invocation sample_service (lit ''o'') sample_authority (lit ''i'') sample_request_digest 1 (lit ''1'') False False None None empty_fs
     = (s', Inr dec) \<and> no_fault s' \<and> id_dispatch dec \<and> id_allowed dec"
  by (rule admitted_invocation_is_dispatched [OF _ _ sample_caller, where p = None and c = None and found = None and i = "lit ''i''"
      and d = sample_request_digest])
     (simp_all add: sample_admitted is_prepared_def)


text \<open>A sample run: a one-use policy is set and an invocation dispatched under it.\<close>

lemma dispatch_keeps_change:
  assumes "dispatch_new oh a p found i d cr ar t s = (s', Inr dec)" "governed oh p s" "invocation_id_ok i" "is_digest d"
  shows "change_at oh b y s' \<longleftrightarrow> change_at oh b y s"
proof -
  from assms(1) obtain r s1 up s2 upol where w: "write_invocation oh r s = (s1, Inr ())"
    "consume_permit oh found t s1 = (s2, Inr up)" "consume_policy oh p i d t s2 = (s', Inr upol)"
    by (auto simp: dispatch_new_def bindS_eq_Inr)
  note p1 = write_puts(3) [OF w(1)]
  have g: "governed oh p s2" using consume_permit_run [OF w(2)] governed_kept_kinds(1) [OF p1 assms(2)] governed_kept_kinds(2) by auto
  have "change_at oh b y s1 \<longleftrightarrow> change_at oh b y s"
    using kept_other_kind(2) [OF p1 path_kinds(3)] by auto
  moreover have "change_at oh b y s2 \<longleftrightarrow> change_at oh b y s1"
    using consume_permit_run [OF w(2)] kept_other_kind(2) [OF _ path_kinds(4)] by auto
  moreover have "change_at oh b y s' \<longleftrightarrow> change_at oh b y s2"
    using consume_policy_run [OF w(3) g assms(3,4)] kept_other_kind(2) [OF _ path_kinds(1)] by auto
  ultimately show ?thesis by simp
qed

lemma holds_policy_at:
  assumes "holds (policy_path oh (ip_authority u)) (policy_to_dict u) s" "policy_ok u" "stable_authority (ip_authority u)"
  shows "policy_at oh (ip_authority u) (Some u) s"
  using assms(1,3) reread_policy [OF assms(2)]
  by (auto simp: holds_def stored_def parsed_def payload_record_def mapping_of_def decode_policy_def check_record_def stable_authority_def)

lemma holds_invocation_at:
  assumes "holds (invocation_path oh (ir_authority r) (ir_invocation_id r)) (invocation_to_dict r) s" "invocation_ok r"
    "stable_authority (ir_authority r)"
  shows "invocation_at oh (ir_authority r) (ir_invocation_id r) (Some (reread_record r)) s"
  using assms(1,3) reread_invocation [OF assms(2)] assms(2)
  by (auto simp: holds_def stored_def parsed_def payload_record_def mapping_of_def decode_invocation_def check_record_def
      stable_authority_def reread_record_def invocation_ok_def)

lemma none_prepared [simp]: "\<not> is_prepared None"
  by (simp add: is_prepared_def)

lemma begin_replays:
  assumes "calm sv" "no_fault s" "caller_ok owner oh a" "resource_matches (PStr (ia_resource a)) (PStr (ia_resource a))"
    "policy_at oh a p s" "p \<noteq> None \<or> ia_provider_id a = []" "change_at oh a c s" "\<not> is_prepared c"
    "validated_invocation_id (PStr iv) = Inr i" "validated_request_digest (PStr dig) = Inr d" "invocation_at oh a i (Some r) s"
    "rep \<or> rrp \<longrightarrow> p \<noteq> None"
  shows "\<exists>s'. begin_invocation sv owner a iv dig cr ar rrp rep None now s = (s', Inr (replay_decision p r d rrp cr ar)) \<and> no_fault s' \<and> same_files s s'"
proof -
  obtain s1 where s1: "begin_invocation sv owner a iv dig cr ar rrp rep None now s = begin_locked oh a p iv dig cr ar rrp rep (moment_at sv now s) s1"
    "same_files s s1" "no_fault s1"
    using begin_runs [OF assms(1-8)] by blast
  have i: "py_strip iv \<noteq> []" using assms(9) by (auto simp: validated_invocation_id_iff invocation_id_ok_def)
  have "invocation_at oh a i (Some r) s1" using assms(11) s1(2) by (simp add: stored_same)
  then obtain s2 where "read_invocation oh a i s1 = (s2, Inr (Some r))" "same_files s1 s2" "no_fault s2" using reads_at(3) [OF s1(3)] by blast
  with s1 assms(9,10,12) i same_files_trans show ?thesis by (auto simp: begin_locked_def)
qed

text \<open>Setting a one-use policy and dispatching an invocation under it, from a store without files.\<close>

lemma sample_run:
  obtains s1 p s2 d u r where
    "set_policy sample_service (lit ''o'') sample_authority (lit ''once'') None None empty_fs = (s1, Inr p)" "no_fault s1"
    "ip_revision p = 1" "policy_at sample_hash sample_authority (Some p) s1"
    "begin_invocation sample_service (lit ''o'') sample_authority (lit ''i'') sample_request_digest 1 (lit ''1'') False False None None s1 = (s2, Inr d)"
    "no_fault s2" "id_dispatch d" "id_policy d = Some u" "ip_mode u = POLICY_ONCE" "ip_revision u = 1" "ip_authority u = sample_authority"
    "policy_at sample_hash sample_authority (Some u) s2" "change_at sample_hash sample_authority None s2"
    "invocation_at sample_hash sample_authority (lit ''i'') (Some r) s2" "ir_request_digest r = sample_request_digest" "ir_state r = INVOCATION_RESERVED"
proof -
  let ?h = sample_hash and ?a = sample_authority and ?i = "lit ''i''" and ?d = sample_request_digest
  note k = caller_okD [OF sample_caller]
  from set_policy_runs [OF sample_service_ok(1) _ sample_caller sample_modes, of empty_fs None None None]
  obtain s1 p where s1: "set_policy sample_service (lit ''o'') ?a (lit ''once'') None None empty_fs = (s1, Inr p)" "no_fault s1"
    "policy_at ?h ?a (Some p) s1" "ip_mode p = POLICY_ONCE" "ip_revision p = 1" "ip_state p = POLICY_AVAILABLE"
    "puts (policy_path ?h ?a) (policy_to_dict p) empty_fs s1" by (auto simp: revision_of_def)
  have c1: "change_at ?h ?a None s1" "invocation_at ?h ?a ?i None s1"
    using kept_other_kind(2,3) [OF s1(7) path_kinds(1)] by auto
  have adm: "admitted ?h ?a (Some p) None ?i ?d 1 (lit ''1'') False False 10 s1"
    using policy_at_ok [OF s1(3)] s1 c1 by (auto simp: admitted_def governed_def is_prepared_def)
  obtain sB where sB: "begin_invocation sample_service (lit ''o'') ?a ?i ?d 1 (lit ''1'') False False None None s1
      = begin_locked ?h ?a (Some p) ?i ?d 1 (lit ''1'') False False (moment_at sample_service None s1) sB" "same_files s1 sB" "no_fault sB"
    using begin_runs [OF sample_service_ok(1) s1(2) sample_caller sample_resource s1(3) _ c1(1)] none_prepared by blast
  have pB: "policy_at ?h ?a (Some p) sB" "admitted ?h ?a (Some p) None ?i ?d 1 (lit ''1'') False False 10 sB" "change_at ?h ?a None sB"
    using s1(3) adm c1 sB(2) stable_governed [of ?h "Some p"] by (auto simp: admitted_def stored_same stable_def)
  from begin_locked_admitted [OF sB(3) k(3,5) pB(1) _ sample_request_digest_ok(2) _ pB(2), of ?i] obtain s2 d where
    s2: "begin_locked ?h ?a (Some p) ?i ?d 1 (lit ''1'') False False 10 sB = (s2, Inr d)" "no_fault s2" "id_dispatch d" by auto
  have gB: "governed ?h (Some p) sB" using pB(2) by (simp add: admitted_def)
  from begin_locked_dispatch [OF s2(1,3)] gB pB(3) obtain sD where
    sD: "same_files sB sD" "dispatch_new ?h ?a (Some p) None ?i ?d 1 (lit ''1'') 10 sD = (s2, Inr d)"
    using policy_at_ok [OF pB(1)] by (auto simp: is_prepared_def admitted_def is_once_def)
  have gD: "governed ?h (Some p) sD" using gB sD(1) stable_governed [of ?h "Some p"] by (auto simp: stable_def)
  note run = dispatch_new_run [OF sD(2) sample_stable(2) sample_ids(1) sample_request_digest_ok(1) gD]
  have o: "is_once (Some p)" using s1(4) by (simp add: is_once_def)
  obtain u where u: "id_policy d = Some u" "policy_ok u" "ip_mode u = POLICY_ONCE" "ip_revision u = 1" "ip_authority u = ?a"
    "holds (policy_path ?h (ip_authority u)) (policy_to_dict u) s2"
    using run(2) [OF _ o] s1(5) policy_at_ok [OF s1(3)] by (auto simp: revision_of_def)
  obtain r where r: "invocation_ok r" "ir_authority r = ?a" "ir_invocation_id r = ?i" "ir_request_digest r = ?d" "ir_state r = INVOCATION_RESERVED"
    "holds (invocation_path ?h ?a ?i) (invocation_to_dict r) s2" using run(1) by auto
  have "policy_at ?h ?a (Some u) s2" using holds_policy_at [OF u(6,2)] u(5) by simp
  moreover have "change_at ?h ?a None s2"
    using dispatch_keeps_change [OF sD(2) gD sample_ids(1) sample_request_digest_ok(1)] pB(3) sD(1) by (simp add: stored_same)
  moreover have "invocation_at ?h ?a ?i (Some (reread_record r)) s2"
    using holds_invocation_at [of ?h r s2] r by simp
  moreover have "ir_request_digest (reread_record r) = ?d" "ir_state (reread_record r) = INVOCATION_RESERVED"
    using r by (simp_all add: reread_record_def)
  moreover have "begin_invocation sample_service (lit ''o'') ?a ?i ?d 1 (lit ''1'') False False None None s1 = (s2, Inr d)"
    using sB(1) s2(1) by simp
  ultimately show thesis using that s1 s2 u by blast
qed

text \<open>The same call again is answered from the record of the first.\<close>

lemma sample_rerun:
  obtains s1 s2 d u s3 d' where
    "begin_invocation sample_service (lit ''o'') sample_authority (lit ''i'') sample_request_digest 1 (lit ''1'') False False None None s1 = (s2, Inr d)"
    "id_dispatch d" "id_policy d = Some u" "ip_mode u = POLICY_ONCE" "ip_revision u = 1" "ip_authority u = sample_authority"
    "begin_invocation sample_service (lit ''o'') sample_authority (lit ''i'') sample_request_digest 1 (lit ''1'') False False None None s2 = (s3, Inr d')"
    "id_policy d' = Some u"
proof -
  from sample_run obtain s1 s2 d u r where s2:
    "begin_invocation sample_service (lit ''o'') sample_authority (lit ''i'') sample_request_digest 1 (lit ''1'') False False None None s1 = (s2, Inr d)"
    "no_fault s2" "id_dispatch d" "id_policy d = Some u" "ip_mode u = POLICY_ONCE" "ip_revision u = 1" "ip_authority u = sample_authority"
    "policy_at sample_hash sample_authority (Some u) s2" "change_at sample_hash sample_authority None s2"
    "invocation_at sample_hash sample_authority (lit ''i'') (Some r) s2" by metis
  from begin_replays [OF sample_service_ok(1) s2(2) sample_caller sample_resource s2(8) _ s2(9) _ _ sample_request_digest_ok(2) s2(10),
      of "lit ''i''" False False 1 "lit ''1''" None]
  obtain s3 where "begin_invocation sample_service (lit ''o'') sample_authority (lit ''i'') sample_request_digest 1 (lit ''1'') False False None None s2
     = (s3, Inr (replay_decision (Some u) r sample_request_digest False 1 (lit ''1'')))" by (auto simp: is_prepared_def)
  moreover have "id_policy (replay_decision (Some u) r sample_request_digest False 1 (lit ''1'')) = Some u"
    by (simp add: replay_decision_def refused_def mk_decision_def)
  ultimately show thesis using that s2 by blast
qed


end
