(* ===== verification/Invocation_Histories.thy ===== *)
theory Invocation_Histories
  imports Invocation_Runs
begin

text \<open>
  Properties of the invocation policies over histories of requests: at most one dispatch of an invocation and
  one use of a one-use policy, the outcome of a completed invocation, changing a policy in step with
  a card transaction (prepare, commit, settle, release), and request permits.
\<close>

section \<open>At most one dispatch\<close>

text \<open>
  C1. An invocation id is dispatched at most once for an owner and an authority. After a call of
  \<open>begin\<close> returned a dispatch, no later \<open>begin\<close> with the same id does, whatever requests were served in
  between (also policy changes, completions and calls with other ids, by any service objects),
  whatever policy it selects, and whichever file operations failed before or after taking effect.
\<close>

theorem invocation_dispatched_once:
  assumes "service_ok sv" "service_ok sv'" "authority_ok a" "\<forall>r \<in> set rs. request_ok r"
    "begin_invocation sv owner a iv dig cr ar rrp rep pa now s = (s1, Inr d1)" "id_dispatch d1" "py_strip iv \<noteq> []"
    "begin_invocation sv' owner' a iv' dig' cr' ar' rrp' rep' pa' now' (fold serve rs s1) = (s3, Inr d2)"
    "py_strip owner' = py_strip owner" "py_strip iv' = py_strip iv"
  shows "\<not> id_dispatch d2"
proof
  assume d2: "id_dispatch d2"
  from dispatch_leaves [OF assms(5-7) assms(1,3)] obtain oh p where
    p: "owner_hash_for (py_strip owner) = Inr oh" "invocation_path oh a (py_strip iv) = Inr p" "present (fs_lookup s1 p)" by metis
  have "py_strip iv' \<noteq> []" using assms(7,10) by simp
  from dispatch_from_start [OF assms(8) d2 this assms(2)] obtain i' s2 where
    n: "validated_invocation_id (PStr iv') = Inr i'" "progress (fold serve rs s1) s2" "invocation_at oh a i' None s2"
    unfolding assms(9) p(1) admitted_def by auto
  have "progress s1 s2" using requests.history_forward [OF assms(4)] n(2) by (blast intro: progress_trans)
  moreover have "path_kind p = INVOCATION_KIND" using path_kinds(3) [OF p(2)] .
  ultimately have "present (fs_lookup s2 p)" using p(3) by (auto simp: progress_def invocation_file_le_def)
  moreover have "i' = py_strip iv" using n(1) assms(10) by (simp add: validated_invocation_id_iff)
  ultimately show False using n(3) p(2) by (auto simp: stored_None)
qed

theorem invocation_dispatched_once_witness:
  "\<exists>s1 s2 d s3 d'. begin_invocation sample_service (lit ''o'') sample_authority (lit ''i'') sample_request_digest 1 (lit ''1'') False False None None s1
       = (s2, Inr d) \<and> id_dispatch d
     \<and> begin_invocation sample_service (lit ''o'') sample_authority (lit ''i'') sample_request_digest 1 (lit ''1'') False False None None s2 = (s3, Inr d')
     \<and> \<not> id_dispatch d'"
proof -
  from sample_rerun obtain s1 s2 d s3 d' where
    r: "begin_invocation sample_service (lit ''o'') sample_authority (lit ''i'') sample_request_digest 1 (lit ''1'') False False None None s1 = (s2, Inr d)"
    "id_dispatch d"
    "begin_invocation sample_service (lit ''o'') sample_authority (lit ''i'') sample_request_digest 1 (lit ''1'') False False None None s2 = (s3, Inr d')"
    by metis
  have "\<not> id_dispatch d'"
    using invocation_dispatched_once [OF sample_service_ok(2,2) sample_stable(2) _ r(1,2), where rs = "[]" and owner' = "lit ''o''"
        and iv' = "lit ''i''"] r(3) by simp
  with r show ?thesis by blast
qed

lemma begin_locked_once_needs_id:
  assumes "begin_locked oh a p iv dig cr ar rrp rep t s = (s', Inr d)" "id_dispatch d" "id_policy d = Some u" "ip_mode u = POLICY_ONCE"
  shows "py_strip iv \<noteq> []"
  using assms by (auto simp: begin_locked_def is_once_def mk_decision_def split: if_splits)

lemma once_dispatch_needs_id:
  assumes "begin_invocation sv owner a iv dig cr ar rrp rep pa now s = (s', Inr d)" "id_dispatch d" "id_policy d = Some u"
    "ip_mode u = POLICY_ONCE"
  shows "py_strip iv \<noteq> []"
proof -
  have "\<exists>oh p t s1. begin_locked oh a p iv dig cr ar rrp rep t s1 = (s', Inr d)"
    using assms(1,2) unfolding begin_invocation_def Let_def bindS_eq_Inr
    by (auto simp: bindS_eq_Inr split: if_splits option.splits)
  with begin_locked_once_needs_id assms(2-4) show ?thesis by blast
qed

lemma dispatch_used_policy:
  assumes "begin_invocation sv owner a iv dig cr ar rrp rep pa now s = (s', Inr d)" "id_dispatch d" "py_strip iv \<noteq> []"
    "service_ok sv" "authority_ok a" "id_policy d = Some u" "ip_mode u = POLICY_ONCE"
  shows "\<exists>oh q s1. owner_hash_for (py_strip owner) = Inr oh \<and> progress s s1 \<and> policy_at oh (ip_authority u) (Some q) s1
    \<and> ip_state q = POLICY_AVAILABLE \<and> ip_mode q = POLICY_ONCE \<and> ip_revision q = ip_revision u
    \<and> policy_ok u \<and> ip_state u = POLICY_CONSUMED \<and> holds (policy_path oh (ip_authority u)) (policy_to_dict u) s'"
proof -
  from dispatch_from_start [OF assms(1-4)] obtain oh i dg p found s1 s2 where
    f: "owner_hash_for (py_strip owner) = Inr oh" "validated_invocation_id (PStr iv) = Inr i" "validated_request_digest (PStr dig) = Inr dg"
    "progress s s1" "same_files s1 s2" "admitted oh a p found i dg cr ar rrp rep (moment_at sv now s) s1"
    "dispatch_new oh a p found i dg cr ar (moment_at sv now s) s2 = (s', Inr d)" by blast
  have ids: "invocation_id_ok i" "is_digest dg"
    using f(2,3) by (auto simp: validated_invocation_id_iff validated_request_digest_iff)
  have g: "governed oh p s2" using f(5,6) stable_governed [of oh p] by (auto simp: admitted_def stable_def)
  have pf: "found = Some r \<Longrightarrow> rp_authority r = a \<and> rp_invocation_id r = i" for r
    using f(6) ids by (auto simp: admitted_def stored_Some decode_permit_def check_record_def split: if_splits)
  note run = dispatch_new_run [OF f(7) assms(5) ids g pf]
  have once: "is_once p"
  proof (rule ccontr)
    assume "\<not> is_once p"
    with run(3) assms(6) have "p = Some u" by simp
    with \<open>\<not> is_once p\<close> assms(7) show False by (simp add: is_once_def)
  qed
  from once obtain q where q: "p = Some q" "ip_mode q = POLICY_ONCE" by (auto simp: is_once_def split: option.splits)
  from run(2) [OF _ once] assms(6) q(1) have u: "policy_ok u" "ip_state u = POLICY_CONSUMED" "ip_revision u = ip_revision q"
    "ip_authority u = ip_authority q" "holds (policy_path oh (ip_authority u)) (policy_to_dict u) s'"
    by (auto simp: revision_of_def)
  have "policy_at oh (ip_authority u) (Some q) s1" "ip_state q = POLICY_AVAILABLE"
    using f(6) q by (auto simp: admitted_def governed_def u(4))
  with f(1,4) u q(2) show ?thesis by metis
qed

text \<open>
  C2. A one-use policy is used once. After a call of \<open>begin\<close> was dispatched under a one-use policy, no later
  call under a policy of the same owner and authority with the same or a lower revision is dispatched:
  only setting or committing a new policy makes another use possible, whatever was called in between and
  whichever file operations failed.
\<close>

theorem once_policy_used_once_per_revision:
  assumes "service_ok sv" "service_ok sv'" "authority_ok a" "authority_ok a'" "\<forall>r \<in> set rs. request_ok r"
    "begin_invocation sv owner a iv dig cr ar rrp rep pa now s = (s1, Inr d1)" "id_dispatch d1"
    "id_policy d1 = Some p1" "ip_mode p1 = POLICY_ONCE"
    "begin_invocation sv' owner' a' iv' dig' cr' ar' rrp' rep' pa' now' (fold serve rs s1) = (s3, Inr d2)"
    "id_policy d2 = Some p2" "ip_mode p2 = POLICY_ONCE"
    "py_strip owner' = py_strip owner" "ip_authority p2 = ip_authority p1" "ip_revision p2 \<le> ip_revision p1"
  shows "\<not> id_dispatch d2"
proof
  assume d2: "id_dispatch d2"
  note n1 = once_dispatch_needs_id [OF assms(6-9)] and n2 = once_dispatch_needs_id [OF assms(10) d2 assms(11,12)]
  from dispatch_used_policy [OF assms(6,7) n1 assms(1,3,8,9)] obtain oh q1 sA where
    q1: "owner_hash_for (py_strip owner) = Inr oh" "policy_ok p1" "ip_state p1 = POLICY_CONSUMED"
      "holds (policy_path oh (ip_authority p1)) (policy_to_dict p1) s1" by metis
  from dispatch_used_policy [OF assms(10) d2 n2 assms(2,4,11,12)] q1(1) assms(13,14) obtain q2 sB where
    q2: "progress (fold serve rs s1) sB" "policy_at oh (ip_authority p1) (Some q2) sB" "ip_state q2 = POLICY_AVAILABLE"
      "ip_revision q2 = ip_revision p2" by (metis sum.inject(2))
  obtain path where path: "policy_path oh (ip_authority p1) = Inr path" using q1(4) by (auto simp: holds_def)
  obtain u where u: "record_in policy_from_mapping (fs_lookup s1 path) = Some u" "ip_revision u = ip_revision p1" "ip_state u = POLICY_CONSUMED"
    using reread_policy [OF q1(2)] q1(3,4) path by (auto simp: holds_def)
  have "progress s1 sB" using requests.history_forward [OF assms(5)] q2(1) by (blast intro: progress_trans)
  with u(1) path_kinds(1) [OF path] have "\<exists>v. record_in policy_from_mapping (fs_lookup sB path) = Some v \<and> policy_le u v"
    by (auto simp: progress_def policy_file_le_def)
  with policy_at_file [OF q2(2) path] have "policy_le u q2" by auto
  with u q2(3,4) assms(15) show False by (auto simp: policy_le_def)
qed

theorem once_policy_used_once_per_revision_witness:
  "\<exists>s1 s2 d u s3 d'. begin_invocation sample_service (lit ''o'') sample_authority (lit ''i'') sample_request_digest 1 (lit ''1'') False False None None s1
       = (s2, Inr d) \<and> id_dispatch d \<and> id_policy d = Some u \<and> ip_mode u = POLICY_ONCE
     \<and> begin_invocation sample_service (lit ''o'') sample_authority (lit ''i'') sample_request_digest 1 (lit ''1'') False False None None s2 = (s3, Inr d')
     \<and> id_policy d' = Some u \<and> \<not> id_dispatch d'"
proof -
  from sample_rerun obtain s1 s2 d u s3 d' where
    r: "begin_invocation sample_service (lit ''o'') sample_authority (lit ''i'') sample_request_digest 1 (lit ''1'') False False None None s1 = (s2, Inr d)"
    "id_dispatch d" "id_policy d = Some u" "ip_mode u = POLICY_ONCE"
    "begin_invocation sample_service (lit ''o'') sample_authority (lit ''i'') sample_request_digest 1 (lit ''1'') False False None None s2 = (s3, Inr d')"
    "id_policy d' = Some u" by metis
  have "\<not> id_dispatch d'"
    using once_policy_used_once_per_revision [OF sample_service_ok(2,2) sample_stable(2,2) _ r(1-4) _ r(6,4), where rs = "[]"
        and owner' = "lit ''o''"] r(5) by simp
  with r show ?thesis by blast
qed

section \<open>Changing a policy\<close>

lemma settle_rounds_done:
  "settle_rounds sv owner f n settling settled s = (s', Inr x) \<Longrightarrow> \<exists>st sd s0. f st sd s0 = (s', Inr (Done x))"
proof (induction n arbitrary: settling settled s)
  case (Suc n)
  from Suc.prems obtain s1 r where r: "f settling settled s = (s1, Inr r)"
    "(case r of Done x \<Rightarrow> retS x
       | Settle c \<Rightarrow>
          (case sv_settler sv of None \<Rightarrow> failS (conflict ''invocation_policy_change_in_progress'')
           | Some settler \<Rightarrow> bindS (settler c owner) (\<lambda>ok.
               if ok then settle_rounds sv owner f n (Some c) True else failS (undecided (Some c))))) s1 = (s', Inr x)"
    by (auto simp: bindS_eq_Inr simp del: not_None_eq)
  show ?case
  proof (cases r)
    case (Settle c)
    with r(2) show ?thesis by (auto simp: bindS_eq_Inr split: option.splits if_splits intro: Suc.IH)
  qed (use r in auto)
qed simp

lemma place_marker_returned:
  assumes "place_marker oh a m cid rv t s = (s', Inr c)" "owner_hash_ok oh" "stable_authority a"
  shows "change_at oh a (Some c) s'"
proof -
  from assms(1) have mk: "mk_policy_change a (PStr cid) (PStr (mode_text m)) (PStr (change_state_text POLICY_CHANGE_PREPARED)) rv 0 t 0 = Inr c"
    and w: "write_policy_change oh c s = (s', Inr ())" by (auto simp: place_marker_def bindS_eq_Inr)
  have "change_ok c" "pc_authority c = a" using mk_policy_change_ok [OF mk] assms(3) by (auto simp: stable_authority_def)
  with change_kind.read_written [of "(oh, a)" c s s'] write_puts(2) [OF w] assms(2,3) show ?thesis by auto
qed

lemma prepare_returned:
  assumes "prepare_policy_change sv owner a mode cid e now s = (s', Inr c)" "stable_authority a"
  shows "\<exists>oh. owner_hash_for (py_strip owner) = Inr oh \<and> change_at oh a (Some c) s'"
proof -
  from assms(1) obtain oh m i t s0 where oh: "owner_hash_for (py_strip owner) = Inr oh"
    and sr: "settle_rounds sv (py_strip owner) (prepare_round sv oh a m i e t) 2 None False s0 = (s', Inr c)"
    by (auto simp: prepare_policy_change_def Let_def bindS_eq_Inr)
  from settle_rounds_done [OF sr] obtain st sd s1 where r: "prepare_round sv oh a m i e t st sd s1 = (s', Inr (Done c))" by blast
  note ok = owner_hash_for_ok [OF oh]
  from r obtain s2 x s3 where rd: "read_policy_change oh a s2 = (s3, Inr x)"
    and r2: "(if (case x of None \<Rightarrow> False | Some c \<Rightarrow> pc_change_id c = i)
       then (if pc_mode (the x) = m then retS (Done (the x))
             else failS (conflict ''invocation_policy_change_in_progress''))
       else
         bindS (read_policy oh a) (\<lambda>current.
         bindS (check_expected e (revision_of current)) (\<lambda>_.
           case (x, st) of
             (Some c, None) \<Rightarrow>
               if transaction_owned c then retS (Settle c)
               else bindS (place_marker oh a m i (revision_of current) t) (\<lambda>x. retS (Done x))
           | (Some c, Some st') \<Rightarrow>
               if marker_moved st' c then failS (undecided x)
               else bindS (retire_settled oh a x st sd current) (\<lambda>_.
                    bindS (place_marker oh a m i (revision_of current) t) (\<lambda>x. retS (Done x)))
           | (None, _) \<Rightarrow> bindS (place_marker oh a m i (revision_of current) t) (\<lambda>x. retS (Done x))))) s3 = (s', Inr (Done c))"
    unfolding prepare_round_def bindS_eq_Inr by blast
  have rest: "(x = Some c \<and> s' = s3) \<or> (\<exists>s4 rv. place_marker oh a m i rv t s4 = (s', Inr c))"
    using r2 by (cases x; cases st) (auto simp: bindS_eq_Inr split: if_splits)
  show ?thesis
    using rest read_runs(2) [OF rd] place_marker_returned [OF _ ok assms(2)] oh by (auto simp: stored_same)
qed

lemma begin_selected:
  assumes "begin_invocation sv owner a iv dig cr ar rrp rep pa now s = (s', r)" "calm sv" "authority_ok a"
    "owner_hash_for (py_strip owner) = Inr oh" "validated_policy_authority a pa = Inr b" "authority_ok b" "change_at oh b (Some c) s"
    "pc_state c = POLICY_CHANGE_PREPARED" "r = Inr d"
  shows "same_files s s' \<and> (\<exists>p. d = changing p)"
proof -
  obtain as own where as: "policy_authorities b = Inr as" "policy_authorities a = Inr own" "\<forall>x \<in> set as. authority_ok x" "\<forall>x \<in> set own. authority_ok x"
    using policy_authorities_runs assms(3,6) by metis
  have l: "lock_all sv oh (sort_key authority_key (remdups (own @ as))) s0 = (s0, Inr ())" for s0
    using as(3,4) by (intro lock_all_free [OF assms(2) owner_hash_for_ok [OF assms(4)]]) auto
  from assms(1,9) obtain sP ep sC ec where rp: "read_policy oh b s = (sP, Inr ep)" and rc: "read_policy_change oh b sP = (sC, Inr ec)"
    and rest: "is_prepared ec \<longrightarrow> s' = sC \<and> d = changing ep"
    unfolding begin_invocation_def Let_def
    by (auto simp: bindS_eq_Inr require_owner_def moment_of_at assms(4,5) as(1,2) l split: if_splits)
  have f: "same_files s sP" "same_files sP sC" "change_at oh b ec sP"
    using read_runs(1) [OF rp] read_runs(2) [OF rc] by simp_all
  have "ec = Some c" using f(1,3) assms(7) by (simp add: stored_same)
  with rest assms(8) f same_files_trans show ?thesis by (auto simp: is_prepared_def)
qed


lemma sample_prepare:
  obtains s1 c where "prepare_policy_change sample_service (lit ''o'') sample_authority (lit ''once'') (lit ''i'') None None empty_fs = (s1, Inr c)"
    "no_fault s1" "change_at sample_hash sample_authority (Some c) s1" "pc_state c = POLICY_CHANGE_PREPARED"
    "pc_mode c = POLICY_ONCE" "pc_change_id c = lit ''i''" "pc_expected_policy_revision c = 0" "pc_prepared_at c = 10"
    "policy_at sample_hash sample_authority None s1"
  using prepare_runs [OF sample_service_ok(1) empty_fs_at(1) sample_caller sample_modes, of "lit ''i''" "lit ''i''" None None None]
  by (auto simp: revision_of_def)

lemma begin_prepared_runs:
  assumes "calm sv" "no_fault s" "caller_ok owner oh a" "resource_matches (PStr (ia_resource a)) (PStr (ia_resource a))"
    "policy_at oh a p s" "change_at oh a (Some c) s" "pc_state c = POLICY_CHANGE_PREPARED"
  shows "\<exists>s'. begin_invocation sv owner a iv dig cr ar rrp rep None now s = (s', Inr (changing p))"
proof -
  note k = caller_okD [OF assms(3)]
  obtain as where as: "policy_authorities a = Inr as" "\<forall>b \<in> set as. authority_ok b" using policy_authorities_runs [OF k(4)] by blast
  obtain s1 where s1: "read_policy oh a s = (s1, Inr p)" "same_files s s1" "no_fault s1" using reads_at(1) [OF assms(2,5)] by blast
  have "change_at oh a (Some c) s1" using assms(6) s1(2) by (simp add: stored_same)
  then obtain s2 where s2: "read_policy_change oh a s1 = (s2, Inr (Some c))" using reads_at(2) [OF s1(3)] by blast
  have l: "lock_all sv oh (sort_key authority_key (remdups (as @ as))) s = (s, Inr ())"
    using as(2) by (intro lock_all_free [OF assms(1) k(3)]) auto
  show ?thesis
    using k(1,2) as(1) s1(1) s2(1) assms(4,7) l
    by (simp add: begin_invocation_def Let_def moment_of_at validated_policy_authority_def is_prepared_def)
qed


section \<open>Completed invocations\<close>

lemma begin_reaches:
  assumes run: "begin_invocation sv owner a iv dig cr ar rrp rep pa now s = (s', Inr d)" and sv: "service_ok sv"
  shows "(\<exists>p. d = changing p) \<or> (\<exists>oh p sX. owner_hash_for (py_strip owner) = Inr oh \<and> progress s sX
    \<and> begin_locked oh a p iv dig cr ar rrp rep (moment_at sv now s) sX = (s', Inr d))"
proof -
  let ?t = "moment_at sv now s"
  from run obtain oh selected as own u sL sP ep sC ec where oh: "owner_hash_for (py_strip owner) = Inr oh"
    and l: "lock_all sv oh (sort_key authority_key (remdups (own @ as))) s = (sL, Inr u)"
    and rp: "read_policy oh selected sL = (sP, Inr ep)" and rc: "read_policy_change oh selected sP = (sC, Inr ec)"
    and rest: "(if is_prepared ec then retS (changing ep)
           else
             (case (ep, find (\<lambda>b. b \<noteq> selected) as) of
                (None, Some general) \<Rightarrow>
                  bindS (read_policy_change oh general) (\<lambda>general_change.
                    if is_prepared general_change then retS (changing None)
                    else bindS (read_policy oh general) (\<lambda>p. begin_locked oh a p iv dig cr ar rrp rep ?t))
              | _ \<Rightarrow> begin_locked oh a ep iv dig cr ar rrp rep ?t)) sC = (s', Inr d)"
    unfolding begin_invocation_def Let_def bindS_eq_Inr by (auto simp: require_owner_def moment_of_at)
  have "progress s sL" using proves_lock_all [OF sv] l unfolding proves_def by blast
  then have pC: "progress s sC"
    using read_runs(1) [OF rp] read_runs(2) [OF rc] by (meson progress_same progress_trans)
  have "(\<exists>p. d = changing p) \<or> (\<exists>p sX. same_files sC sX \<and> begin_locked oh a p iv dig cr ar rrp rep ?t sX = (s', Inr d))"
  proof (cases "\<not> is_prepared ec \<and> ep = None \<and> find (\<lambda>b. b \<noteq> selected) as \<noteq> None")
    case True
    then obtain g where g: "ep = None" "find (\<lambda>b. b \<noteq> selected) as = Some g" by auto
    with rest True obtain gc s1 where r: "read_policy_change oh g sC = (s1, Inr gc)"
      "(if is_prepared gc then retS (changing None) else bindS (read_policy oh g) (\<lambda>p. begin_locked oh a p iv dig cr ar rrp rep ?t)) s1 = (s', Inr d)"
      by (auto simp: bindS_eq_Inr)
    show ?thesis
    proof (cases "is_prepared gc")
      case False
      with r(2) obtain p sX where "read_policy oh g s1 = (sX, Inr p)" "begin_locked oh a p iv dig cr ar rrp rep ?t sX = (s', Inr d)"
        by (auto simp: bindS_eq_Inr)
      with read_runs(2) [OF r(1)] read_runs(1) same_files_trans show ?thesis by blast
    qed (use r in auto)
  next
    case False
    then show ?thesis using rest same_files_refl(1) by (cases "is_prepared ec") (auto split: option.splits)
  qed
  with oh pC show ?thesis by (meson progress_same progress_trans)
qed

lemma begin_locked_shows:
  assumes "begin_locked oh a p iv dig cr ar rrp rep t s = (s', Inr d)" "id_invocation d = Some q" "\<not> id_dispatch d"
  shows "\<exists>i. validated_invocation_id (PStr iv) = Inr i \<and> invocation_at oh a i (Some q) s"
proof -
  have nd: "\<not> (\<exists>found i dg s1 s2. dispatch_new oh a p found i dg cr ar t s1 = (s2, Inr d))"
    using assms(3) by (auto simp: dispatch_new_def bindS_eq_Inr mk_decision_def)
  have np: "permit_refusal q' found dg cr ar t = Some d \<Longrightarrow> False" for q' found dg
    using assms(2) by (auto simp: permit_refusal_def refused_def mk_decision_def Let_def split: option.splits if_splits)
  have n: "py_strip iv \<noteq> []" "\<not> (rep \<and> p = None)" "\<not> (rrp \<and> p = None)"
    using assms by (auto simp: begin_locked_def refused_def mk_decision_def split: if_splits)
  with assms(1) obtain i dg s1 x where i: "validated_invocation_id (PStr iv) = Inr i"
    and r1: "read_invocation oh a i s = (s1, Inr x)"
    and r2: "(case x of Some r \<Rightarrow> retS (replay_decision p r dg rrp cr ar)
          | None \<Rightarrow>
             (case p of
                Some q \<Rightarrow>
                  if ip_mode q = POLICY_ONCE \<and> ip_state q = POLICY_CONSUMED
                  then retS (refused ''delegated_invocation_limit_exhausted'' p)
                  else if rrp \<and> ip_mode q = POLICY_ONCE then
                    bindS (read_request_permit oh a i) (\<lambda>found.
                      case permit_refusal q found dg cr ar t of
                        Some d \<Rightarrow> retS d
                      | None \<Rightarrow> dispatch_new oh a p found i dg cr ar t)
                  else dispatch_new oh a p None i dg cr ar t
              | None \<Rightarrow> dispatch_new oh a p None i dg cr ar t)) s1 = (s', Inr d)"
    by (auto simp: begin_locked_def bindS_eq_Inr simp del: not_None_eq split del: option.splits if_splits)
  have "x = Some q"
  proof (cases x)
    case None
    then show ?thesis using r2 nd np assms(2)
      by (auto simp: bindS_eq_Inr refused_def mk_decision_def split: option.splits if_splits)
  next
    case (Some r)
    then show ?thesis using r2 assms(2) by (auto simp: replay_decision_def refused_def mk_decision_def split: if_splits)
  qed
  with i read_runs(3) [OF r1] show ?thesis by blast
qed

lemma complete_returned:
  assumes "complete_invocation sv owner a iv dig res err now s = (s1, Inr r)" "calm sv" "authority_ok a"
    "owner_hash_for (py_strip owner) = Inr oh" "invocation_at oh a (py_strip iv) (Some r0) s" "ir_state r0 \<noteq> INVOCATION_COMPLETED"
  shows "invocation_ok r" "ir_authority r = a" "ir_invocation_id r = py_strip iv" "ir_state r = INVOCATION_COMPLETED"
    "ir_result r = res" "ir_result_is_error r = err" "ir_request_digest r = ir_request_digest r0"
    "holds (invocation_path oh a (py_strip iv)) (invocation_to_dict r) s1"
proof -
  have c: "critical_section sv oh a s0 = (s0, Inr ())" for s0
    using critical_free [OF assms(2) owner_hash_for_ok [OF assms(4)] assms(3)] .
  from assms(1) obtain i dg s2 x where i: "validated_invocation_id (PStr iv) = Inr i" and r1: "read_invocation oh a i s = (s2, Inr x)"
    and r2: "(case x of None \<Rightarrow> failS (conflict ''invocation_reservation_missing'')
           | Some r \<Rightarrow>
              if ir_request_digest r \<noteq> dg then failS (conflict ''invocation_request_digest_moved'')
              else if ir_state r = INVOCATION_COMPLETED then retS r
              else
                bindS (liftS (mk_invocation (ir_authority r) (PStr (ir_invocation_id r)) (PStr (ir_request_digest r)) (ir_policy_id r)
                  (ir_policy_revision r) (PStr (mode_text (ir_policy_mode r)))
                  (PStr (invocation_state_text INVOCATION_COMPLETED)) (ir_card_revision r) (ir_authority_revision r)
                  (ir_request_permit_revision r) res err (ir_created_at r) (moment_at sv now s))) (\<lambda>completed.
                bindS (write_invocation oh completed) (\<lambda>_. retS completed))) s2 = (s1, Inr r)"
    unfolding complete_invocation_def Let_def bindS_eq_Inr by (auto simp: require_owner_def assms(4) c moment_of_at)
  have ii: "i = py_strip iv" "invocation_id_ok i" using i by (auto simp: validated_invocation_id_iff)
  have x: "x = Some r0" using read_runs(3) [OF r1] assms(5) ii by simp
  from r2 assms(6) obtain dg' where mk: "mk_invocation (ir_authority r0) (PStr (ir_invocation_id r0)) (PStr (ir_request_digest r0)) (ir_policy_id r0)
                  (ir_policy_revision r0) (PStr (mode_text (ir_policy_mode r0)))
                  (PStr (invocation_state_text INVOCATION_COMPLETED)) (ir_card_revision r0) (ir_authority_revision r0)
                  (ir_request_permit_revision r0) res err (ir_created_at r0) (moment_at sv now s) = Inr r"
    and w: "write_invocation oh r s2 = (s1, Inr ())" by (auto simp: x bindS_eq_Inr split: if_splits)
  have r0: "ir_authority r0 = a" "ir_invocation_id r0 = i" "is_digest (ir_request_digest r0)" "py_strip (ir_authority_revision r0) = ir_authority_revision r0"
    using assms(5) ii by (auto simp: stored_Some decode_invocation_def check_record_def invocation_from_mapping_def mk_invocation_def
        validated_request_digest_iff)
  show ok: "invocation_ok r" "ir_authority r = a" using mk_invocation_ok [OF mk] r0 assms(3) by blast+
  show id: "ir_invocation_id r = py_strip iv" and "ir_state r = INVOCATION_COMPLETED"
    "ir_result r = res" "ir_result_is_error r = err" "ir_request_digest r = ir_request_digest r0"
    using mk r0 ii by (auto simp: mk_invocation_def)
  show "holds (invocation_path oh a (py_strip iv)) (invocation_to_dict r) s1"
    using puts_holds [OF write_puts(3) [OF w]] ok(2) id by simp
qed

text \<open>
  C11. The first completion of an invocation is its outcome for good. Once \<open>complete\<close> returned for a reserved
  invocation, every later \<open>begin\<close> with its id, after whatever requests, does not dispatch it again, and if it
  shows a record then the one with this result (as its JSON text gives it back).
\<close>

theorem completed_result_is_final:
  assumes "complete_invocation sv owner a iv dig res err now s = (s1, Inr r)" "calm sv" "stable_authority a"
    "owner_hash_for (py_strip owner) = Inr oh" "invocation_at oh a (py_strip iv) (Some r0) s" "ir_state r0 = INVOCATION_RESERVED"
    "\<forall>x \<in> set rs. request_ok x" "service_ok sv'" "begin_invocation sv' owner' a iv' dig' cr ar rrp rep pa now' (fold serve rs s1) = (s3, Inr d)"
    "py_strip owner' = py_strip owner" "py_strip iv' = py_strip iv"
  shows "ir_result r = res \<and> ir_result_is_error r = err \<and> \<not> id_dispatch d \<and> (\<forall>q. id_invocation d = Some q \<longrightarrow> q = reread_record r)"
proof -
  have a: "authority_ok a" using assms(3) by (simp add: stable_authority_def)
  have nc: "ir_state r0 \<noteq> INVOCATION_COMPLETED" using assms(6) by simp
  note c = complete_returned [OF assms(1,2) a assms(4,5) nc]
  have i: "invocation_id_ok (py_strip iv)" using c(1,3) by (metis invocation_ok_def)
  obtain p where p: "invocation_path oh a (py_strip iv) = Inr p" "fs_lookup s1 p = Some (Json (reread (invocation_to_dict r)))"
    using c(8) by (auto simp: holds_def)
  have fin: "fs_lookup s2 p = fs_lookup s1 p" if "progress s1 s2" for s2
    using that path_kinds(3) [OF p(1)] reread_invocation [OF c(1)] p(2) c(4)
    by (fastforce simp: progress_def invocation_file_le_def reread_record_def)
  have at: "invocation_at oh a (py_strip iv) (Some q) s2 \<longleftrightarrow> q = reread_record r" if "progress s1 s2" for s2 q
  proof -
    have "invocation_at oh a (py_strip iv) (Some (reread_record r)) s1"
      using holds_invocation_at [of oh r s1] c(1-3,8) assms(3) by simp
    then show ?thesis using fin [OF that] p by (auto simp: stored_def)
  qed
  have "progress s1 (fold serve rs s1)" using requests.history_forward [OF assms(7)] .
  then have pr: "progress (fold serve rs s1) s2 \<Longrightarrow> progress s1 s2" for s2 by (blast intro: progress_trans)
  have nd: "\<not> id_dispatch d"
  proof
    assume "id_dispatch d"
    with dispatch_from_start [OF assms(9) _ _ assms(8)] i assms(11) obtain oh' i' s2 where
      n: "owner_hash_for (py_strip owner') = Inr oh'" "validated_invocation_id (PStr iv') = Inr i'" "progress (fold serve rs s1) s2" "invocation_at oh' a i' None s2"
      by (auto simp: admitted_def invocation_id_ok_def)
    have "oh' = oh" "i' = py_strip iv" using n(1,2) assms(4,10,11) by (auto simp: validated_invocation_id_iff)
    with at [OF pr [OF n(3)], of "reread_record r"] n(4) show False by simp
  qed
  have "q = reread_record r" if q: "id_invocation d = Some q" for q
  proof -
    have "d \<noteq> changing p" for p using q by (auto simp: changing_def refused_def mk_decision_def)
    with begin_reaches [OF assms(9,8)] obtain oh' p' sX where
      x: "owner_hash_for (py_strip owner') = Inr oh'" "progress (fold serve rs s1) sX"
        "begin_locked oh' a p' iv' dig' cr ar rrp rep (moment_at sv' now' (fold serve rs s1)) sX = (s3, Inr d)" by blast
    obtain i' where "validated_invocation_id (PStr iv') = Inr i'" "invocation_at oh' a i' (Some q) sX"
      using begin_locked_shows [OF x(3) q nd] by blast
    with at [OF pr [OF x(2)]] x(1) assms(4,10,11) show ?thesis by (auto simp: validated_invocation_id_iff)
  qed
  with c(5,6) nd show ?thesis by blast
qed

definition sample_invocation :: invocation where
  "sample_invocation = \<lparr>ir_authority = sample_authority, ir_invocation_id = lit ''i'', ir_request_digest = sample_request_digest,
     ir_policy_id = PStr (lit ''p''), ir_policy_revision = 1, ir_policy_mode = POLICY_ONCE, ir_state = INVOCATION_RESERVED,
     ir_card_revision = 1, ir_authority_revision = lit ''1'', ir_request_permit_revision = 0, ir_result = PNone,
     ir_result_is_error = False, ir_created_at = 9, ir_completed_at = 0\<rparr>"

lemma sample_invocation_ok: "invocation_ok sample_invocation" "reread_record sample_invocation = sample_invocation"
proof -
  have "py_strip (lit ''1'') = lit ''1''" "join_surrogates (lit ''1'') = lit ''1''" "join_surrogates (lit ''p'') = lit ''p''"
    by (simp_all add: lit_def py_strip_def py_lstrip_def is_space_def join_surrogates_id is_surrogate_def)
  then show "invocation_ok sample_invocation" "reread_record sample_invocation = sample_invocation"
    using sample_authority_ok by (simp_all add: invocation_ok_def sample_invocation_def canonical_json_ok reread_record_def)
qed

lemma sample_reserved:
  obtains s where "no_fault s" "invocation_at sample_hash sample_authority (lit ''i'') (Some sample_invocation) s"
    "policy_at sample_hash sample_authority None s" "change_at sample_hash sample_authority None s"
proof -
  have f: "ir_authority sample_invocation = sample_authority" "ir_invocation_id sample_invocation = lit ''i''"
    "is_ok (dumps True (ir_policy_id sample_invocation))" by (simp_all add: sample_invocation_def)
  from write_invocation_at [OF empty_fs_at(1) caller_okD(3) [OF sample_caller], of sample_invocation] f sample_invocation_ok
  obtain s where s: "no_fault s" "invocation_at sample_hash sample_authority (lit ''i'') (Some sample_invocation) s"
    "puts (invocation_path sample_hash sample_authority (lit ''i'')) (invocation_to_dict sample_invocation) empty_fs s" by auto
  with kept_other_kind(1,2) [OF s(3) path_kinds(3)] that show thesis by auto
qed

lemma complete_runs:
  assumes "calm sv" "no_fault s" "caller_ok owner oh a" "invocation_id_ok i" "py_strip iv = i" "validated_request_digest (PStr dig) = Inr d"
    "invocation_at oh a i (Some r0) s" "ir_state r0 = INVOCATION_RESERVED" "ir_request_digest r0 = d" "is_ok (dumps True (ir_policy_id r0))"
    "is_ok (canonical_json res)" "1 \<le> moment_at sv now s"
  shows "\<exists>s1 r. complete_invocation sv owner a iv dig res err now s = (s1, Inr r) \<and> no_fault s1
    \<and> (\<forall>x. policy_at oh a x s \<longrightarrow> policy_at oh a x s1) \<and> (\<forall>y. change_at oh a y s \<longrightarrow> change_at oh a y s1)"
proof -
  note k = caller_okD [OF assms(3)]
  obtain s2 where s2: "read_invocation oh a i s = (s2, Inr (Some r0))" "same_files s s2" "no_fault s2"
    using reads_at(3) [OF assms(2,7)] by blast
  have r0: "ir_authority r0 = a" "ir_invocation_id r0 = i" "is_digest (ir_request_digest r0)" "py_strip (ir_authority_revision r0) = ir_authority_revision r0"
    using assms(4,7) by (auto simp: stored_Some decode_invocation_def check_record_def invocation_from_mapping_def mk_invocation_def
        validated_request_digest_iff)
  let ?mk = "mk_invocation (ir_authority r0) (PStr (ir_invocation_id r0)) (PStr (ir_request_digest r0)) (ir_policy_id r0)
                  (ir_policy_revision r0) (PStr (mode_text (ir_policy_mode r0)))
                  (PStr (invocation_state_text INVOCATION_COMPLETED)) (ir_card_revision r0) (ir_authority_revision r0)
                  (ir_request_permit_revision r0) res err (ir_created_at r0) (moment_at sv now s)"
  have "is_ok ?mk" using r0 assms(4,11,12) by (auto simp: mk_invocation_def check_record_def is_ok_iff)
  then obtain r where r: "?mk = Inr r" by (auto simp: is_ok_iff)
  have ok: "invocation_ok r" "ir_authority r = a" using mk_invocation_ok [OF r] r0 k(4) by blast+
  have f: "ir_invocation_id r = i" "ir_policy_id r = ir_policy_id r0" using r r0 assms(4) by (auto simp: mk_invocation_def)
  obtain s1 where s1: "write_invocation oh r s2 = (s1, Inr ())" "no_fault s1"
    "puts (invocation_path oh a i) (invocation_to_dict r) s2 s1"
    using write_invocation_at [OF s2(3) k(3), of r] ok f k(5) assms(10) by auto
  have "complete_invocation sv owner a iv dig res err now s = (s1, Inr r)"
    using k(1,2) s2(1) s1(1) assms(4-6,8,9) r
    by (simp add: complete_invocation_def Let_def moment_of_at critical_free [OF assms(1) k(3,4)] validated_invocation_id_def [symmetric]
        invocation_id_plain validated_invocation_id_iff [THEN iffD2])
  moreover have "policy_at oh a x s1 \<longleftrightarrow> policy_at oh a x s" "change_at oh a y s1 \<longleftrightarrow> change_at oh a y s" for x y
    using kept_other_kind(1,2) [OF s1(3) path_kinds(3)] s2(2) by (simp_all add: stored_same)
  ultimately show ?thesis using s1(2) by blast
qed

theorem completed_result_is_final_witness:
  "\<exists>s s1 r s3 d. complete_invocation sample_service (lit ''o'') sample_authority (lit ''i'') sample_request_digest (PInt 7) False None s = (s1, Inr r)
     \<and> begin_invocation sample_service (lit ''o'') sample_authority (lit ''i'') sample_request_digest 1 (lit ''1'') False False None None s1 = (s3, Inr d)
     \<and> id_replay d \<and> id_invocation d = Some (reread_record r) \<and> ir_result r = PInt 7 \<and> \<not> id_dispatch d"
proof -
  obtain s where s: "no_fault s" "invocation_at sample_hash sample_authority (lit ''i'') (Some sample_invocation) s"
    "policy_at sample_hash sample_authority None s" "change_at sample_hash sample_authority None s" using sample_reserved by blast
  have f: "ir_state sample_invocation = INVOCATION_RESERVED" "ir_request_digest sample_invocation = sample_request_digest"
    "is_ok (dumps True (ir_policy_id sample_invocation))" "is_ok (canonical_json (PInt 7))"
    by (simp_all add: sample_invocation_def canonical_json_ok)
  from complete_runs [OF sample_service_ok(1) s(1) sample_caller sample_ids(1,2) sample_request_digest_ok(2) s(2) f, of None False]
  obtain s1 r where c: "complete_invocation sample_service (lit ''o'') sample_authority (lit ''i'') sample_request_digest (PInt 7) False None s = (s1, Inr r)"
    "no_fault s1" "policy_at sample_hash sample_authority None s1" "change_at sample_hash sample_authority None s1" using s by auto
  have s2: "invocation_at sample_hash sample_authority (py_strip (lit ''i'')) (Some sample_invocation) s" using s(2) by simp
  note oh = caller_okD(2) [OF sample_caller]
  have nc: "ir_state sample_invocation \<noteq> INVOCATION_COMPLETED" by (simp add: f)
  note cr = complete_returned [OF c(1) sample_service_ok(1) sample_stable(2) oh s2 nc]
  have "invocation_at sample_hash sample_authority (lit ''i'') (Some (reread_record r)) s1"
    using holds_invocation_at [of sample_hash r s1] cr(1-3,8) by simp
  from begin_replays [OF sample_service_ok(1) c(2) sample_caller sample_resource c(3) _ c(4) _ _ sample_request_digest_ok(2) this,
      of "lit ''i''" False False 1 "lit ''1''" None]
  obtain s3 where b: "begin_invocation sample_service (lit ''o'') sample_authority (lit ''i'') sample_request_digest 1 (lit ''1'') False False None None s1
     = (s3, Inr (replay_decision None (reread_record r) sample_request_digest False 1 (lit ''1'')))" (is "_ = (s3, Inr ?d)") by auto
  have "id_replay ?d" "id_invocation ?d = Some (reread_record r)"
    using cr(4,7) f(2) by (simp_all add: replay_decision_def mk_decision_def reread_record_def)
  moreover have "ir_result r = PInt 7 \<and> \<not> id_dispatch ?d"
    using completed_result_is_final [OF c(1) sample_service_ok(1) sample_stable(1) oh s2 f(1) _ sample_service_ok(2), where rs = "[]"
      and owner' = "lit ''o''" and iv' = "lit ''i''"] b by simp
  ultimately show ?thesis using c(1) b by blast
qed

section \<open>Committing a change\<close>

text \<open>What a commit of the change \<open>c\<close> leaves: nothing done, the policy published, or both files written.\<close>

definition committing :: "pystr \<Rightarrow> authority \<Rightarrow> policy_change \<Rightarrow> policy option \<Rightarrow> fs \<Rightarrow> bool" where
  "committing oh a c x s \<longleftrightarrow>
     (change_at oh a (Some c) s \<and> (policy_at oh a x s \<or> (\<exists>p. policy_at oh a (Some p) s
        \<and> ip_revision p = pc_expected_policy_revision c + 1 \<and> ip_mode p = pc_mode c \<and> ip_state p = POLICY_AVAILABLE)))
     \<or> (\<exists>k p. change_at oh a (Some k) s \<and> pc_state k = POLICY_CHANGE_COMMITTED \<and> pc_change_id k = pc_change_id c \<and> pc_mode k = pc_mode c
        \<and> pc_policy_revision k = pc_expected_policy_revision c + 1 \<and> policy_at oh a (Some p) s
        \<and> ip_revision p = pc_policy_revision k \<and> ip_mode p = pc_mode c \<and> ip_state p = POLICY_AVAILABLE)"

lemma committing_same: "same_files s s' \<Longrightarrow> committing oh a c x s \<Longrightarrow> committing oh a c x s'"
  by (simp add: committing_def stored_same)

lemma publish_any:
  assumes "publish_policy oh a m rv t s = (s', r)" "owner_hash_ok oh" "stable_authority a"
  shows "(same_files s s' \<and> (\<nexists>p. r = Inr p)) \<or> (\<exists>p. policy_at oh a (Some p) s' \<and> ip_revision p = rv \<and> ip_mode p = m \<and> ip_state p = POLICY_AVAILABLE
      \<and> puts (policy_path oh a) (policy_to_dict p) s s' \<and> (\<forall>q. r = Inr q \<longrightarrow> q = p))"
proof (cases "mk_policy a (PStr (mode_text m)) rv (PStr (policy_state_text POLICY_AVAILABLE)) (PStr []) (PStr []) 0 t")
  case (Inl e)
  then show ?thesis using assms(1) by (auto simp: publish_policy_def bindS_def)
next
  case (Inr p)
  have a: "authority_ok a" using assms(3) by (simp add: stable_authority_def)
  note f = mk_available_policy [OF Inr a]
  obtain r' where w: "write_policy oh p s = (s', r')" "(\<exists>e. r' = Inl e \<and> r = Inl e) \<or> (r' = Inr () \<and> r = Inr p)"
    using assms(1) Inr by (auto simp: publish_policy_def bindS_def split: prod.splits sum.splits)
  have "puts (policy_path oh a) (policy_to_dict p) s s' \<Longrightarrow> policy_at oh a (Some p) s'"
    using policy_kind.read_written [of "(oh, a)" p s s'] f assms(2,3) by auto
  then show ?thesis using write_record_run [OF w(1) [unfolded write_policy_def]] w(2) f by auto
qed

lemma commit_marker_any:
  assumes "commit_marker oh c (pc_expected_policy_revision c + 1) t s = (s', r)" "owner_hash_ok oh" "stable_authority a" "pc_authority c = a"
    "policy_at oh a (Some p) s" "ip_revision p = pc_expected_policy_revision c + 1" "ip_mode p = pc_mode c" "ip_state p = POLICY_AVAILABLE"
    "change_at oh a (Some c) s"
  shows "committing oh a c x s'"
proof -
  have start: "committing oh a c x s" unfolding committing_def using assms(5-9) by blast
  show ?thesis
  proof (cases "mk_policy_change (pc_authority c) (PStr (pc_change_id c)) (PStr (mode_text (pc_mode c)))
         (PStr (change_state_text POLICY_CHANGE_COMMITTED)) (pc_expected_policy_revision c) (pc_expected_policy_revision c + 1)
         (pc_prepared_at c) t")
    case (Inl e)
    then have "s' = s" using assms(1) by (simp add: commit_marker_def bindS_def)
    then show ?thesis using start by simp
  next
    case (Inr k)
    have ci: "invocation_id_ok (pc_change_id c)" using change_at_ok [OF assms(9)] by (simp add: change_ok_def)
    have k: "change_ok k" "pc_authority k = a" "pc_state k = POLICY_CHANGE_COMMITTED" "pc_change_id k = pc_change_id c" "pc_mode k = pc_mode c"
      "pc_policy_revision k = pc_expected_policy_revision c + 1"
      using mk_policy_change_ok [OF Inr] Inr assms(3,4) ci by (auto simp: stable_authority_def mk_policy_change_def check_record_def)
    have w: "write_record (policy_change_path oh (pc_authority k)) (change_to_dict k) s = (s', r)"
      using assms(1) Inr by (simp add: commit_marker_def write_policy_change_def)
    from write_record_run(1) [OF w] show ?thesis
    proof
      assume "same_files s s'"
      then show ?thesis using committing_same start by blast
    next
      assume pu: "puts (policy_change_path oh (pc_authority k)) (change_to_dict k) s s'"
      have "change_at oh a (Some k) s'" using change_kind.read_written [of "(oh, a)" k s s'] pu k(1,2) assms(2,3) by auto
      moreover have "policy_at oh a (Some p) s'" using kept_other_kind(1) [OF pu path_kinds(2)] assms(5) by simp
      ultimately show ?thesis unfolding committing_def using k(3-6) assms(6-8) by metis
    qed
  qed
qed

lemma commit_leaves:
  assumes "commit_policy_change sv owner a cid now s = (s', r)" "calm sv" "caller_ok owner oh a"
    "validated_invocation_id (PStr cid) = Inr i" "change_at oh a (Some c) s" "pc_change_id c = i" "pc_state c = POLICY_CHANGE_PREPARED"
    "policy_at oh a x s" "revision_of x = pc_expected_policy_revision c"
  shows "committing oh a c x s'"
proof -
  note k = caller_okD [OF assms(3)]
  have start: "committing oh a c x s" using assms(5,8) by (simp add: committing_def)
  obtain s1 r1 where r1: "read_policy_change oh a s = (s1, r1)" by fastforce
  have f1: "same_files s s1" "r1 = Inr y \<Longrightarrow> y = Some c" for y
    using read_record_run [OF r1 [unfolded read_policy_change_def]] assms(5) by auto
  obtain s2 r2 where r2: "read_policy oh a s1 = (s2, r2)" by fastforce
  have f2: "same_files s1 s2" "r2 = Inr y \<Longrightarrow> y = x" for y
    using read_record_run [OF r2 [unfolded read_policy_def]] assms(8) f1(1) by (auto simp: stored_same)
  let ?t = "moment_at sv now s" and ?e = "pc_expected_policy_revision c + 1"
  obtain s3 r3 where r3: "publish_policy oh a (pc_mode c) ?e ?t s2 = (s3, r3)" by fastforce
  have s2: "committing oh a c x s2" "change_at oh a (Some c) s2"
    using committing_same [OF same_files_trans [OF f1(1) f2(1)] start] assms(5) f1(1) f2(1) by (simp_all add: stored_same)
  have run: "commit_policy_change sv owner a cid now s = (case r1 of Inl e \<Rightarrow> (s1, Inl e) | Inr _ \<Rightarrow>
     (case r2 of Inl e \<Rightarrow> (s2, Inl e) | Inr _ \<Rightarrow>
       (case r3 of Inl e \<Rightarrow> (s3, Inl e) | Inr p \<Rightarrow> bindS (commit_marker oh c ?e ?t) (\<lambda>_. retS p) s3)))"
    using k(1,2) r1 r2 r3 f1(2) f2(2) assms(4,6,7,9)
    by (cases r1; cases r2; cases r3) (simp_all add: commit_policy_change_def Let_def moment_of_at critical_free [OF assms(2) k(3,4)])
  show ?thesis
  proof (cases "(\<exists>y. r1 = Inr y) \<and> (\<exists>y. r2 = Inr y)")
    case False
    then show ?thesis using run assms(1) committing_same [OF f1(1) start] s2(1) by (cases r1; cases r2) auto
  next
    case True
    show ?thesis
    proof (cases r3)
      case (Inl e)
      then have "s' = s3" using True run assms(1) by auto
      moreover have "committing oh a c x s3" using publish_any [OF r3 k(3,5)]
      proof
        assume "same_files s2 s3 \<and> (\<nexists>p. r3 = Inr p)"
        then show ?thesis using committing_same [OF _ s2(1)] by blast
      next
        assume "\<exists>p. policy_at oh a (Some p) s3 \<and> ip_revision p = ?e \<and> ip_mode p = pc_mode c \<and> ip_state p = POLICY_AVAILABLE
          \<and> puts (policy_path oh a) (policy_to_dict p) s2 s3 \<and> (\<forall>q. r3 = Inr q \<longrightarrow> q = p)"
        then show ?thesis using kept_other_kind(2) [OF _ path_kinds(1)] s2(2) by (auto simp: committing_def)
      qed
      ultimately show ?thesis by simp
    next
      case (Inr q)
      with publish_any [OF r3 k(3,5)] have p: "policy_at oh a (Some q) s3" "ip_revision q = ?e" "ip_mode q = pc_mode c" "ip_state q = POLICY_AVAILABLE"
        "puts (policy_path oh a) (policy_to_dict q) s2 s3" by auto
      have "change_at oh a (Some c) s3" using kept_other_kind(2) [OF p(5) path_kinds(1)] s2(2) by simp
      moreover obtain r4 where "commit_marker oh c ?e ?t s3 = (s', r4)"
        using True run assms(1) Inr by (auto simp: bindS_def split: prod.splits sum.splits)
      ultimately show ?thesis using commit_marker_any p change_at_ok [OF assms(5)] k(3,5) by blast
    qed
  qed
qed

lemma commit_again_runs:
  assumes "calm sv" "no_fault s" "caller_ok owner oh a" "validated_invocation_id (PStr cid) = Inr i"
    "change_at oh a (Some k) s" "pc_change_id k = i" "pc_state k = POLICY_CHANGE_COMMITTED" "policy_at oh a (Some p) s"
    "ip_revision p = pc_policy_revision k" "ip_mode p = pc_mode k"
  shows "\<exists>s'. commit_policy_change sv owner a cid now s = (s', Inr p) \<and> same_files s s' \<and> no_fault s'"
proof -
  note c = caller_okD [OF assms(3)]
  obtain s1 where s1: "read_policy_change oh a s = (s1, Inr (Some k))" "same_files s s1" "no_fault s1"
    using reads_at(2) [OF assms(2,5)] by blast
  have "policy_at oh a (Some p) s1" using assms(8) s1(2) by (simp add: stored_same)
  then obtain s2 where s2: "read_policy oh a s1 = (s2, Inr (Some p))" "same_files s1 s2" "no_fault s2"
    using reads_at(1) [OF s1(3)] by blast
  have "commit_policy_change sv owner a cid now s = (s2, Inr p)"
    using s1(1) s2(1) assms(4,6,7,9,10) c
    by (simp add: commit_policy_change_def Let_def moment_of_at critical_free [OF assms(1)])
  with s1 s2 same_files_trans show ?thesis by blast
qed

text \<open>
  C12. Committing a policy change is safe to retry. Whatever file operation of a commit failed, and at
  whichever point, a later commit of the same change on the files it left succeeds: it publishes the
  policy with the prepared mode at exactly the next revision, available, and marks the change committed.
\<close>

theorem commit_retry_completes:
  assumes "calm sv" "calm sv'" "caller_ok owner oh a" "validated_invocation_id (PStr cid) = Inr i"
    "change_at oh a (Some c) s" "pc_change_id c = i" "pc_state c = POLICY_CHANGE_PREPARED"
    "policy_at oh a x s" "revision_of x = pc_expected_policy_revision c"
    "commit_policy_change sv owner a cid now s = (s1, r)" "fs_lookup s2 = fs_lookup s1" "no_fault s2" "pc_prepared_at c \<le> moment_at sv' now' s2"
  shows "\<exists>s3 p k. commit_policy_change sv' owner a cid now' s2 = (s3, Inr p) \<and> policy_at oh a (Some p) s3
    \<and> ip_mode p = pc_mode c \<and> ip_revision p = revision_of x + 1 \<and> ip_state p = POLICY_AVAILABLE
    \<and> change_at oh a (Some k) s3 \<and> pc_state k = POLICY_CHANGE_COMMITTED \<and> pc_change_id k = i"
proof -
  have "committing oh a c x s2"
    using commit_leaves [OF assms(10,1,3,4-9)] assms(11) by (simp add: committing_def stored_def)
  then show ?thesis unfolding committing_def
  proof
    assume "change_at oh a (Some c) s2 \<and> (policy_at oh a x s2 \<or> (\<exists>p. policy_at oh a (Some p) s2
        \<and> ip_revision p = pc_expected_policy_revision c + 1 \<and> ip_mode p = pc_mode c \<and> ip_state p = POLICY_AVAILABLE))"
    then obtain y where y: "change_at oh a (Some c) s2" "policy_at oh a y s2" "revision_of y = pc_expected_policy_revision c \<or>
      (\<exists>p. y = Some p \<and> ip_revision p = pc_expected_policy_revision c + 1 \<and> ip_mode p = pc_mode c \<and> ip_state p = POLICY_AVAILABLE)"
      using assms(9) by blast
    from commit_runs [OF assms(2,12,3,4) y(1) assms(6,7) y(2,3) assms(13)] assms(9) show ?thesis by fastforce
  next
    assume "\<exists>k p. change_at oh a (Some k) s2 \<and> pc_state k = POLICY_CHANGE_COMMITTED \<and> pc_change_id k = pc_change_id c \<and> pc_mode k = pc_mode c
        \<and> pc_policy_revision k = pc_expected_policy_revision c + 1 \<and> policy_at oh a (Some p) s2
        \<and> ip_revision p = pc_policy_revision k \<and> ip_mode p = pc_mode c \<and> ip_state p = POLICY_AVAILABLE"
    then obtain k p where kp: "change_at oh a (Some k) s2" "pc_state k = POLICY_CHANGE_COMMITTED" "pc_change_id k = i" "pc_mode k = pc_mode c"
      "pc_policy_revision k = revision_of x + 1" "policy_at oh a (Some p) s2" "ip_revision p = pc_policy_revision k" "ip_mode p = pc_mode k"
      "ip_state p = POLICY_AVAILABLE" using assms(6,9) by auto
    from commit_again_runs [OF assms(2,12,3,4) kp(1,3,2,6,7,8)] obtain s3 where
      "commit_policy_change sv' owner a cid now' s2 = (s3, Inr p)" "same_files s2 s3" by blast
    with kp show ?thesis by (auto simp: stored_same)
  qed
qed

theorem commit_retry_completes_witness:
  "\<exists>s0 s1 r s3 p. commit_policy_change sample_service (lit ''o'') sample_authority (lit ''i'') None s0 = (s1, r)
     \<and> commit_policy_change sample_service (lit ''o'') sample_authority (lit ''i'') None s1 = (s3, Inr p)
     \<and> ip_mode p = POLICY_ONCE \<and> ip_revision p = 1"
proof -
  obtain s0 c where c: "no_fault s0" "change_at sample_hash sample_authority (Some c) s0" "pc_state c = POLICY_CHANGE_PREPARED"
    "pc_mode c = POLICY_ONCE" "pc_change_id c = lit ''i''" "pc_expected_policy_revision c = 0" "pc_prepared_at c = 10"
    "policy_at sample_hash sample_authority None s0" using sample_prepare by metis
  have v: "validated_invocation_id (PStr (lit ''i'')) = Inr (lit ''i'')" by simp
  have n: "revision_of None = pc_expected_policy_revision c" by (simp add: revision_of_def c)
  obtain s1 p where r: "commit_policy_change sample_service (lit ''o'') sample_authority (lit ''i'') None s0 = (s1, Inr p)" "no_fault s1"
    using commit_runs [OF sample_service_ok(1) c(1) sample_caller v c(2,5,3,8) _, of None] n c(7) by auto
  from commit_retry_completes [OF sample_service_ok(1,1) sample_caller v c(2,5,3,8) n r(1) refl r(2), of None] c(4,7) r show ?thesis
    by (auto simp: revision_of_def)
qed

section \<open>Markers of card transactions\<close>

lemma critical_calm:
  "calm sv \<Longrightarrow> caller_ok owner oh a \<Longrightarrow> bindS (critical_section sv oh a) f s = f () s"
  using critical_free [of sv oh a] caller_okD [of owner oh a] by simp

lemma check_expected_cases:
  obtains "check_expected e n s = (s, Inr ())" | err where "check_expected e n s = (s, Inl err)"
  by (cases "case e of None \<Rightarrow> True | Some k \<Rightarrow> k = n") (auto simp: check_expected_def requireE_def)

text \<open>The reads a round starts with.\<close>

lemma round_reads:
  assumes "set_policy_round sv oh a m e t settling settled s = (s', Inr r)" "calm sv" "caller_ok owner oh a"
  obtains x change sC sP where "read_policy_change oh a s = (sC, Inr change)" "read_policy oh a sC = (sP, Inr x)"
    "check_expected e (revision_of x) sP = (sP, Inr ())" "same_files s sP" "policy_at oh a x s" "change_at oh a change s"
proof -
  from assms(1) obtain sC change where rc: "read_policy_change oh a s = (sC, Inr change)"
    unfolding set_policy_round_def critical_calm [OF assms(2,3)] by (auto elim!: bindS_cases)
  from assms(1) rc obtain sP x where rp: "read_policy oh a sC = (sP, Inr x)"
    unfolding set_policy_round_def critical_calm [OF assms(2,3)] bindS_run(1) [where m = "read_policy_change oh a", OF rc] by (auto elim!: bindS_cases)
  have ce: "check_expected e (revision_of x) sP = (sP, Inr ())"
  proof (rule check_expected_cases [of e "revision_of x" sP])
    fix err assume "check_expected e (revision_of x) sP = (sP, Inl err)"
    with assms(1) show ?thesis
      unfolding set_policy_round_def critical_calm [OF assms(2,3)] bindS_run(1) [where m = "read_policy_change oh a", OF rc] bindS_run(1) [where m = "read_policy oh a", OF rp] by simp
  qed
  from that [OF rc rp ce] read_runs(2) [OF rc] read_runs(1) [OF rp] same_files_trans show thesis by (metis stored_same)
qed

lemma publish_revision: "publish_policy oh a m rv t s = (s', Inr p) \<Longrightarrow> authority_ok a \<Longrightarrow> ip_revision p = rv"
  by (auto simp: publish_policy_def bindS_eq_Inr dest: mk_available_policy)

lemma settled_round:
  assumes "set_policy_round sv oh a m e t (Some c) True s = (s', Inr r)" "calm sv" "caller_ok owner oh a"
  shows "\<exists>p x. r = Done p \<and> policy_at oh a x s \<and> ip_revision p = revision_of x + 1 \<and> (change_at oh a None s
    \<or> (\<exists>k q. change_at oh a (Some k) s \<and> pc_change_id k = pc_change_id c \<and> pc_state k = POLICY_CHANGE_COMMITTED
        \<and> x = Some q \<and> ip_revision q = pc_policy_revision k \<and> ip_mode q = pc_mode k))"
proof -
  note a = caller_okD(4) [OF assms(3)]
  obtain x change sC sP where rc: "read_policy_change oh a s = (sC, Inr change)" and rp: "read_policy oh a sC = (sP, Inr x)"
    and ce: "check_expected e (revision_of x) sP = (sP, Inr ())" and "same_files s sP" and f: "policy_at oh a x s" "change_at oh a change s"
    by (rule round_reads [OF assms])
  note run = assms(1) [unfolded set_policy_round_def critical_calm [OF assms(2,3)] bindS_run(1) [where m = "read_policy_change oh a", OF rc] bindS_run(1) [where m = "read_policy oh a", OF rp] bindS_run(1) [where m = "check_expected e (revision_of x)", OF ce]]
  show ?thesis
  proof (cases change)
    case None
    then show ?thesis using run f publish_revision [OF _ a] by (fastforce simp: bindS_eq_Inr)
  next
    case (Some k)
    have m: "\<not> marker_moved c k" using run Some by (auto split: if_splits)
    then have i: "pc_change_id k = pc_change_id c" by (simp add: marker_moved_def)
    from run m Some obtain s1 s2 p where rt: "retire_settled oh a (Some k) (Some c) True x sP = (s1, Inr ())"
      and p: "r = Done p" "publish_policy oh a m (revision_of x + 1) t s2 = (s', Inr p)" by (auto simp: bindS_eq_Inr)
    from rt obtain q where "pc_state k = POLICY_CHANGE_COMMITTED" "x = Some q" "ip_revision q = pc_policy_revision k" "ip_mode q = pc_mode k"
      by (auto simp: retire_settled_def split: if_splits option.splits)
    with p i Some f publish_revision [OF p(2) a] show ?thesis by blast
  qed
qed

text \<open>
  C14. Setting a policy never overrides a card transaction that is still undecided. When a marker owned by
  a transaction stands in the way, \<open>set_policy\<close> succeeds only after the host's settler said it settled that
  marker, and only if the marker is then gone or is the same change, committed, with the policy it
  published in place; the new policy comes one revision after the settled one.
\<close>

theorem set_policy_waits_for_transaction:
  assumes "set_policy sv owner a mode e now s = (s', Inr p)" "calm sv" "caller_ok owner oh a" "change_at oh a (Some c) s" "transaction_owned c"
  shows "\<exists>f s0 sX x. sv_settler sv = Some f \<and> same_files s s0 \<and> f c (py_strip owner) s0 = (sX, Inr True)
    \<and> policy_at oh a x sX \<and> ip_revision p = revision_of x + 1 \<and> (change_at oh a None sX
    \<or> (\<exists>k q. change_at oh a (Some k) sX \<and> pc_change_id k = pc_change_id c \<and> pc_state k = POLICY_CHANGE_COMMITTED
        \<and> x = Some q \<and> ip_revision q = pc_policy_revision k \<and> ip_mode q = pc_mode k))"
proof -
  from assms(1) caller_okD(1,2) [OF assms(3)] obtain m t where
    st: "settle_rounds sv (py_strip owner) (set_policy_round sv oh a m e t) 2 None False s = (s', Inr p)"
    by (auto simp: set_policy_def Let_def bindS_eq_Inr moment_of_at)
  let ?f = "set_policy_round sv oh a m e t"
  from st obtain s0 r where r: "?f None False s = (s0, Inr r)" unfolding numeral_2_eq_2 settle_rounds.simps by (auto elim!: bindS_cases)
  obtain x change sC sP where rc: "read_policy_change oh a s = (sC, Inr change)" and rp: "read_policy oh a sC = (sP, Inr x)"
    and ce: "check_expected e (revision_of x) sP = (sP, Inr ())" and f: "same_files s sP" "policy_at oh a x s" "change_at oh a change s"
    by (rule round_reads [OF r assms(2,3)])
  have ch: "change = Some c" using f(3) assms(4) by simp
  have rs: "r = Settle c" "s0 = sP"
    using r [unfolded set_policy_round_def critical_calm [OF assms(2,3)] bindS_run(1) [where m = "read_policy_change oh a", OF rc] bindS_run(1) [where m = "read_policy oh a", OF rp] bindS_run(1) [where m = "check_expected e (revision_of x)", OF ce]]
      ch assms(5) by auto
  from st [unfolded numeral_2_eq_2 settle_rounds.simps(2) bindS_run(1) [where m = "?f None False", OF r]] rs(1) obtain g where g: "sv_settler sv = Some g"
    by (cases "sv_settler sv") auto
  with st [unfolded numeral_2_eq_2 settle_rounds.simps(2) bindS_run(1) [where m = "?f None False", OF r]] rs(1) obtain sX where
    sX: "g c (py_strip owner) s0 = (sX, Inr True)" "settle_rounds sv (py_strip owner) ?f (Suc 0) (Some c) True sX = (s', Inr p)"
    by (auto simp: bindS_eq_Inr split: if_splits)
  then obtain s2 r2 where r2: "?f (Some c) True sX = (s2, Inr r2)" by (auto elim!: bindS_cases)
  obtain p' y where y: "r2 = Done p'" "policy_at oh a y sX" "ip_revision p' = revision_of y + 1" "change_at oh a None sX
    \<or> (\<exists>k q. change_at oh a (Some k) sX \<and> pc_change_id k = pc_change_id c \<and> pc_state k = POLICY_CHANGE_COMMITTED
        \<and> y = Some q \<and> ip_revision q = pc_policy_revision k \<and> ip_mode q = pc_mode k)"
    using settled_round [OF r2 assms(2,3)] by blast
  have "p' = p" using sX(2) r2 y(1) by simp
  with y g sX(1) f(1) rs(2) show ?thesis by blast
qed

definition settling_service :: service where
  "settling_service = sample_service\<lparr>sv_settler := Some (\<lambda>c owner.
     bindS (delete_policy_change sample_hash sample_authority) (\<lambda>_. retS True))\<rparr>"

definition transaction_change_id :: pystr where
  "transaction_change_id = lit ''t:'' @ authority_key sample_authority"

lemma transaction_change_id_ok: "invocation_id_ok transaction_change_id"
  using authority_key_digest [of sample_authority]
  by (auto simp: transaction_change_id_def invocation_id_ok_def is_digest_def is_lower_hex_def is_digit_char_def lit_def)

theorem set_policy_waits_for_transaction_witness:
  "\<exists>s c s' p. change_at sample_hash sample_authority (Some c) s \<and> transaction_owned c
     \<and> set_policy settling_service (lit ''o'') sample_authority (lit ''once'') None None s = (s', Inr p) \<and> ip_revision p = 1"
proof -
  let ?h = sample_hash and ?a = sample_authority and ?sv = settling_service
  note k = caller_okD [OF sample_caller]
  have calm: "calm ?sv" by (simp add: settling_service_def calm_def sample_service_def)
  have v: "validated_invocation_id (PStr transaction_change_id) = Inr transaction_change_id" by (simp add: transaction_change_id_ok)
  obtain s c where c: "no_fault s" "change_at ?h ?a (Some c) s" "pc_change_id c = transaction_change_id" "policy_at ?h ?a None s"
    using prepare_runs [OF sample_service_ok(1) empty_fs_at(1) sample_caller sample_modes v, of None None None] by auto
  have t: "transaction_owned c"
    using change_at_ok [OF c(2)] by (simp add: transaction_owned_def ends_with_def marker_suffix_def c(3) transaction_change_id_def lit_def)
  obtain s1 where s1: "read_policy_change ?h ?a s = (s1, Inr (Some c))" "same_files s s1" "no_fault s1" using reads_at(2) [OF c(1,2)] by blast
  have "policy_at ?h ?a None s1" using c(4) s1(2) by (simp add: stored_same)
  then obtain s2 where s2: "read_policy ?h ?a s1 = (s2, Inr None)" "same_files s1 s2" "no_fault s2" using reads_at(1) [OF s1(3)] by blast
  obtain path where path: "policy_change_path ?h ?a = Inr path" using paths_ok(2) [OF k(3,4)] by blast
  obtain s3 where s3: "delete_policy_change ?h ?a s2 = (s3, Inr ())" "drops (policy_change_path ?h ?a) s2 s3" "no_fault s3"
    using delete_policy_change_ok [OF s2(3) path] by blast
  have at3: "change_at ?h ?a None s3" "policy_at ?h ?a None s3"
    using s3(2) path policy_kind.read_dropped [OF s3(2), of "(?h, ?a)"] path_kinds(2) [OF path] c(4) s1(2) s2(2)
    by (auto simp: drops_def stored_None present_def stored_same)
  obtain s4 where s4: "read_policy_change ?h ?a s3 = (s4, Inr None)" "same_files s3 s4" "no_fault s4" using reads_at(2) [OF s3(3) at3(1)] by blast
  have "policy_at ?h ?a None s4" using at3(2) s4(2) by (simp add: stored_same)
  then obtain s5 where s5: "read_policy ?h ?a s4 = (s5, Inr None)" "no_fault s5" using reads_at(1) [OF s4(3)] by blast
  let ?t = "moment_at ?sv None s"
  obtain s6 p where p: "publish_policy ?h ?a POLICY_ONCE 1 ?t s5 = (s6, Inr p)" "ip_revision p = 1"
    using publish_runs [OF s5(2) k(3,5), of 1 POLICY_ONCE ?t] by auto
  have r1: "set_policy_round ?sv ?h ?a POLICY_ONCE None ?t None False s = (s2, Inr (Settle c))"
    using s1(1) s2(1) t by (simp add: set_policy_round_def critical_calm [OF calm sample_caller] check_expected_runs)
  have r2: "set_policy_round ?sv ?h ?a POLICY_ONCE None ?t (Some c) True s3 = (s6, Inr (Done p))"
    using s4(1) s5(1) p(1) by (simp add: set_policy_round_def critical_calm [OF calm sample_caller] check_expected_runs revision_of_def)
  have se: "sv_settler ?sv = Some (\<lambda>c owner. bindS (delete_policy_change ?h ?a) (\<lambda>_. retS True))"
    by (simp add: settling_service_def)
  have "settle_rounds ?sv (py_strip (lit ''o'')) (set_policy_round ?sv ?h ?a POLICY_ONCE None ?t) 2 None False s = (s6, Inr p)"
    using r1 r2 s3(1) se by (simp add: numeral_2_eq_2)
  then have run: "set_policy ?sv (lit ''o'') ?a (lit ''once'') None None s = (s6, Inr p)"
    using k(1,2) sample_modes by (simp add: set_policy_def Let_def moment_of_at)
  from set_policy_waits_for_transaction [OF run calm sample_caller c(2) t] have "0 \<le> ip_revision p" using revision_nonneg by fastforce
  with run c(2) t p(2) show ?thesis by blast
qed

section \<open>Releasing a marker\<close>

text \<open>
  Releasing a change removes its own prepared marker and nothing else: \<open>release\<close> returns true exactly
  when the stored marker is this change and still prepared, and then the marker is gone and every other file is
  as before; otherwise it returns false and changes nothing.
\<close>

theorem release_only_own_prepared_marker:
  assumes "release_policy_change sv owner a cid s = (s', Inr b)" "calm sv" "caller_ok owner oh a" "change_at oh a x s"
  shows "(b \<longleftrightarrow> (\<exists>c. x = Some c \<and> pc_change_id c = py_strip cid \<and> pc_state c = POLICY_CHANGE_PREPARED))
    \<and> (if b then drops (policy_change_path oh a) s s' \<and> change_at oh a None s' else same_files s s')"
proof -
  note k = caller_okD [OF assms(3)]
  from assms(1) obtain i where i: "validated_invocation_id (PStr cid) = Inr i"
    by (auto simp: release_policy_change_def Let_def bindS_eq_Inr)
  then have ii: "i = py_strip cid" by (simp add: validated_invocation_id_iff)
  note run = assms(1) [unfolded release_policy_change_def Let_def i k(1,2), simplified critical_calm [OF assms(2,3)], simplified]
  from run obtain s1 y where r1: "read_policy_change oh a s = (s1, Inr y)"
    and r2: "(if (case y of None \<Rightarrow> True | Some c \<Rightarrow> pc_change_id c \<noteq> i \<or> pc_state c \<noteq> POLICY_CHANGE_PREPARED)
           then retS False
           else bindS (delete_policy_change oh a) (\<lambda>_. retS True)) s1 = (s', Inr b)"
    by (auto simp: critical_calm [OF assms(2,3)] elim!: bindS_cases)
  have f: "same_files s s1" "y = x" using read_runs(2) [OF r1] assms(4) by auto
  show ?thesis
  proof (cases "case x of None \<Rightarrow> True | Some c \<Rightarrow> pc_change_id c \<noteq> i \<or> pc_state c \<noteq> POLICY_CHANGE_PREPARED")
    case True
    then show ?thesis using r2 f ii by (auto split: option.splits)
  next
    case False
    then have b: "b" and d: "delete_policy_change oh a s1 = (s', Inr ())" using r2 f by (auto simp: bindS_eq_Inr)
    have "drops (policy_change_path oh a) s1 s'" using delete_policy_change_run(2) [OF d] by simp
    then have dr: "drops (policy_change_path oh a) s s'" using f(1) by (auto simp: drops_def same_files_def)
    then have "change_at oh a None s'" by (auto simp: drops_def stored_None present_def)
    then show ?thesis using b dr False ii by (auto split: option.splits)
  qed
qed

theorem release_only_own_prepared_marker_witness:
  "\<exists>s s' c. change_at sample_hash sample_authority (Some c) s
     \<and> release_policy_change sample_service (lit ''o'') sample_authority (lit ''i'') s = (s', Inr True)
     \<and> change_at sample_hash sample_authority None s'"
proof -
  let ?h = sample_hash and ?a = sample_authority
  note k = caller_okD [OF sample_caller]
  obtain s c where c: "no_fault s" "change_at ?h ?a (Some c) s" "pc_state c = POLICY_CHANGE_PREPARED" "pc_change_id c = lit ''i''"
    using sample_prepare by metis
  obtain s1 where s1: "read_policy_change ?h ?a s = (s1, Inr (Some c))" "no_fault s1" using reads_at(2) [OF c(1,2)] by blast
  obtain path where path: "policy_change_path ?h ?a = Inr path" using paths_ok(2) [OF k(3,4)] by blast
  obtain s2 where s2: "delete_policy_change ?h ?a s1 = (s2, Inr ())" using delete_policy_change_ok [OF s1(2) path] by blast
  have run: "release_policy_change sample_service (lit ''o'') ?a (lit ''i'') s = (s2, Inr True)"
    using k(1,2) s1(1) s2 c(3,4) by (simp add: release_policy_change_def Let_def critical_calm [OF sample_service_ok(1) sample_caller])
  from release_only_own_prepared_marker [OF run sample_service_ok(1) sample_caller c(2)] run c(2) show ?thesis by auto
qed

section \<open>Request permits\<close>

lemma permit_policy_found:
  assumes "permit_policy oh a as found s = (s', Inr (Some q))"
  shows "same_files s s' \<and> (found = Some q \<or> (\<exists>b \<in> set as. policy_at oh b (Some q) s \<and> (\<exists>c. change_at oh b c s \<and> \<not> is_prepared c)))"
  using assms
proof (induction as arbitrary: found s)
  case (Cons b bs)
  from Cons.prems obtain s1 c where r1: "read_policy_change oh b s = (s1, Inr c)" by (auto elim!: bindS_cases)
  with Cons.prems obtain s2 x where np: "\<not> is_prepared c" and r2: "read_policy oh b s1 = (s2, Inr x)"
    and rest: "permit_policy oh a bs (case x of None \<Rightarrow> found | Some p \<Rightarrow> if found = None \<or> ip_authority p = a then Some p else found) s2 = (s', Inr (Some q))"
    by (auto simp: bindS_eq_Inr split: if_splits)
  have f: "same_files s s1" "same_files s1 s2" "same_files s s2" "change_at oh b c s" "policy_at oh b x s"
    using read_runs(2) [OF r1] read_runs(1) [OF r2] same_files_trans by (auto simp: stored_same)
  note ih = Cons.IH [OF rest]
  have "same_files s s'" using ih f(3) same_files_trans by blast
  moreover have "found = Some q \<or> (\<exists>b' \<in> set (b # bs). policy_at oh b' (Some q) s \<and> (\<exists>c. change_at oh b' c s \<and> \<not> is_prepared c))"
    using ih f(4,5) np by (auto simp: stored_same [OF f(3)] split: option.splits if_splits)
  ultimately show ?case by blast
qed simp

lemma issue_reaches:
  assumes run: "issue_request_permit sv owner a iv dig cr ar ttl now s = (s', Inr r)" and sv: "service_ok sv"
  shows "\<exists>oh i d as q s1 s2 x s3. owner_hash_for (py_strip owner) = Inr oh \<and> validated_invocation_id (PStr iv) = Inr i
    \<and> validated_request_digest (PStr dig) = Inr d \<and> policy_authorities a = Inr as \<and> progress s s1
    \<and> permit_policy oh a as None s1 = (s2, Inr (Some q)) \<and> ip_mode q = POLICY_ONCE \<and> ip_state q = POLICY_AVAILABLE
    \<and> read_request_permit oh a i s2 = (s3, Inr x)
    \<and> (case x of Some r' \<Rightarrow> r' = r \<and> s' = s3 \<and> rp_request_digest r = d \<and> rp_card_revision r = cr
          \<and> rp_authority_revision r = py_strip ar \<and> rp_policy_revision r = ip_revision q
       | None \<Rightarrow> mk_permit a (PStr i) (PStr d) cr (PStr (py_strip ar)) (ip_revision q) 1 (PStr (permit_state_text REQUEST_PERMIT_AVAILABLE))
            (moment_at sv now s) (moment_at sv now s + ttl) 0 = Inr r \<and> write_request_permit oh r s3 = (s', Inr ()))"
proof -
  from run obtain oh i d as where h: "owner_hash_for (py_strip owner) = Inr oh" "validated_invocation_id (PStr iv) = Inr i"
    "validated_request_digest (PStr dig) = Inr d" "policy_authorities a = Inr as"
    unfolding issue_request_permit_def Let_def by (auto simp: bindS_eq_Inr)
  from run obtain s1 s2 found where l: "lock_all sv oh as s = (s1, Inr ())" and p: "permit_policy oh a as None s1 = (s2, Inr found)"
    and rest: "(case found of None \<Rightarrow> failS (conflict ''request_permit_requires_once_policy'')
              | Some p \<Rightarrow>
                 if ip_mode p \<noteq> POLICY_ONCE then failS (conflict ''request_permit_requires_once_policy'')
                 else if ip_state p \<noteq> POLICY_AVAILABLE then failS (conflict ''delegated_invocation_limit_exhausted'')
                 else bindS (read_request_permit oh a i) (\<lambda>existing.
                   case existing of
                     Some r \<Rightarrow>
                       if rp_request_digest r = d \<and> rp_card_revision r = cr
                          \<and> rp_authority_revision r = py_strip ar \<and> rp_policy_revision r = ip_revision p
                       then retS r else failS (conflict ''request_permit_identity_moved'')
                   | None \<Rightarrow>
                       bindS (liftS (mk_permit a (PStr i) (PStr d) cr (PStr (py_strip ar))
                         (ip_revision p) 1 (PStr (permit_state_text REQUEST_PERMIT_AVAILABLE)) (moment_at sv now s) (moment_at sv now s + ttl) 0)) (\<lambda>r.
                       bindS (write_request_permit oh r) (\<lambda>_. retS r)))) s2 = (s', Inr r)"
    unfolding issue_request_permit_def Let_def bindS_eq_Inr by (auto simp: require_owner_def moment_of_at h)
  have "progress s s1" using proves_lock_all [OF sv] l unfolding proves_def by blast
  moreover from rest obtain q where q: "found = Some q" "ip_mode q = POLICY_ONCE" "ip_state q = POLICY_AVAILABLE"
    by (auto split: option.splits if_splits)
  moreover from rest q obtain s3 x where x: "read_request_permit oh a i s2 = (s3, Inr x)" by (auto elim!: bindS_cases)
  moreover have "case x of Some r' \<Rightarrow> r' = r \<and> s' = s3 \<and> rp_request_digest r = d \<and> rp_card_revision r = cr
          \<and> rp_authority_revision r = py_strip ar \<and> rp_policy_revision r = ip_revision q
       | None \<Rightarrow> mk_permit a (PStr i) (PStr d) cr (PStr (py_strip ar)) (ip_revision q) 1 (PStr (permit_state_text REQUEST_PERMIT_AVAILABLE))
            (moment_at sv now s) (moment_at sv now s + ttl) 0 = Inr r \<and> write_request_permit oh r s3 = (s', Inr ())"
    using rest q x by (cases x) (auto simp: bindS_eq_Inr split: if_splits)
  ultimately show ?thesis using h p by blast
qed

text \<open>
  C15. A request permit is bound to one request under one policy revision. When \<open>issue_request_permit\<close>
  returns a permit, a one-use policy that governs the authority was stored, available and not being changed;
  the permit carries this invocation id, digest, card revision and authority revision and the revision of
  that policy; and the permit is on disk under its invocation.
\<close>

theorem request_permit_is_bound:
  assumes "issue_request_permit sv owner a iv dig cr ar ttl now s = (s', Inr r)" "service_ok sv" "stable_authority a"
  shows "\<exists>oh i d q s1 b. owner_hash_for (py_strip owner) = Inr oh \<and> validated_invocation_id (PStr iv) = Inr i
    \<and> validated_request_digest (PStr dig) = Inr d \<and> progress s s1
    \<and> policy_at oh b (Some q) s1 \<and> (b = a \<or> (ia_provider_id b = [] \<and> ia_resource b = ia_resource a \<and> ia_operation b = ia_operation a))
    \<and> (\<exists>c. change_at oh b c s1 \<and> \<not> is_prepared c) \<and> ip_mode q = POLICY_ONCE \<and> ip_state q = POLICY_AVAILABLE
    \<and> rp_authority r = a \<and> rp_invocation_id r = i \<and> rp_request_digest r = d \<and> rp_card_revision r = cr
    \<and> rp_authority_revision r = py_strip ar \<and> rp_policy_revision r = ip_revision q
    \<and> (\<exists>r'. permit_at oh a i (Some r') s' \<and> r' = r\<lparr>rp_authority_revision := rp_authority_revision r'\<rparr>)"
proof -
  from issue_reaches [OF assms(1,2)] obtain oh i d as q s1 s2 x s3 where
    h: "owner_hash_for (py_strip owner) = Inr oh" "validated_invocation_id (PStr iv) = Inr i" "validated_request_digest (PStr dig) = Inr d"
    "policy_authorities a = Inr as" "progress s s1" "permit_policy oh a as None s1 = (s2, Inr (Some q))"
    "ip_mode q = POLICY_ONCE" "ip_state q = POLICY_AVAILABLE" "read_request_permit oh a i s2 = (s3, Inr x)"
    and rest: "case x of Some r' \<Rightarrow> r' = r \<and> s' = s3 \<and> rp_request_digest r = d \<and> rp_card_revision r = cr
          \<and> rp_authority_revision r = py_strip ar \<and> rp_policy_revision r = ip_revision q
       | None \<Rightarrow> mk_permit a (PStr i) (PStr d) cr (PStr (py_strip ar)) (ip_revision q) 1 (PStr (permit_state_text REQUEST_PERMIT_AVAILABLE))
            (moment_at sv now s) (moment_at sv now s + ttl) 0 = Inr r \<and> write_request_permit oh r s3 = (s', Inr ())" by blast
  have a: "authority_ok a" using assms(3) by (simp add: stable_authority_def)
  have ids: "invocation_id_ok i" "is_digest d" using h(2,3) by (auto simp: validated_invocation_id_iff validated_request_digest_iff)
  from permit_policy_found [OF h(6)] obtain b where b: "b \<in> set as" "policy_at oh b (Some q) s1" "\<exists>c. change_at oh b c s1 \<and> \<not> is_prepared c" by auto
  have bb: "b = a \<or> (ia_provider_id b = [] \<and> ia_resource b = ia_resource a \<and> ia_operation b = ia_operation a)"
    using h(4) b(1) authority_okD(2,7) [OF a]
    by (auto simp: policy_authorities_def mk_authority_def check_record_def Let_def split: if_splits)
  note oh = owner_hash_for_ok [OF h(1)]
  have "rp_authority r = a \<and> rp_invocation_id r = i \<and> rp_request_digest r = d \<and> rp_card_revision r = cr
    \<and> rp_authority_revision r = py_strip ar \<and> rp_policy_revision r = ip_revision q
    \<and> (\<exists>r'. permit_at oh a i (Some r') s' \<and> r' = r\<lparr>rp_authority_revision := rp_authority_revision r'\<rparr>)"
  proof (cases x)
    case None
    then have mk: "mk_permit a (PStr i) (PStr d) cr (PStr (py_strip ar)) (ip_revision q) 1 (PStr (permit_state_text REQUEST_PERMIT_AVAILABLE))
            (moment_at sv now s) (moment_at sv now s + ttl) 0 = Inr r" and w: "write_request_permit oh r s3 = (s', Inr ())" using rest by auto
    have ok: "permit_ok r" "rp_authority r = a" using mk_permit_ok [OF mk a] by auto
    have f: "rp_invocation_id r = i" "rp_request_digest r = d" "rp_card_revision r = cr" "rp_authority_revision r = py_strip ar"
      "rp_policy_revision r = ip_revision q" using mk ids by (auto simp: mk_permit_def check_record_def)
    have "permit_at oh a i (Some (r\<lparr>rp_authority_revision := join_surrogates (rp_authority_revision r)\<rparr>)) s'"
      using permit_kind.read_written [of "(oh, a, i)" r s3 s'] write_puts(4) [OF w] ok f(1) oh assms(3) by auto
    moreover have "r\<lparr>rp_authority_revision := join_surrogates (rp_authority_revision r)\<rparr> = r\<lparr>rp_authority_revision :=
      rp_authority_revision (r\<lparr>rp_authority_revision := join_surrogates (rp_authority_revision r)\<rparr>)\<rparr>" by simp
    ultimately show ?thesis using ok f by blast
  next
    case (Some r')
    with rest h(9) have "permit_at oh a i (Some r) s'" using read_runs(4) [OF h(9)] by (auto simp: stored_same)
    moreover have "rp_authority r = a" "rp_invocation_id r = i" using calculation ids
      by (auto simp: stored_Some decode_permit_def check_record_def)
    ultimately show ?thesis using rest Some by auto
  qed
  with h b bb show ?thesis by blast
qed

lemma issue_runs:
  assumes "calm sv" "no_fault s" "caller_ok owner oh a" "ia_provider_id a = []" "validated_invocation_id (PStr iv) = Inr i"
    "validated_request_digest (PStr dig) = Inr d" "1 \<le> cr" "py_strip ar \<noteq> []" "1 \<le> ttl" "1 \<le> moment_at sv now s"
    "policy_at oh a (Some q) s" "ip_mode q = POLICY_ONCE" "ip_state q = POLICY_AVAILABLE" "change_at oh a c s" "\<not> is_prepared c"
    "permit_at oh a i None s"
  shows "\<exists>s' r. issue_request_permit sv owner a iv dig cr ar ttl now s = (s', Inr r) \<and> no_fault s' \<and> rp_state r = REQUEST_PERMIT_AVAILABLE
    \<and> rp_expires_at r = moment_at sv now s + ttl"
proof -
  note k = caller_okD [OF assms(3)]
  let ?t = "moment_at sv now s"
  have ids: "invocation_id_ok i" "is_digest d" using assms(5,6) by (auto simp: validated_invocation_id_iff validated_request_digest_iff)
  have as: "policy_authorities a = Inr [a]" using assms(4) by (simp add: policy_authorities_def)
  obtain s1 where s1: "read_policy_change oh a s = (s1, Inr c)" "same_files s s1" "no_fault s1" using reads_at(2) [OF assms(2,14)] by blast
  have "policy_at oh a (Some q) s1" using assms(11) s1(2) by (simp add: stored_same)
  then obtain s2 where s2: "read_policy oh a s1 = (s2, Inr (Some q))" "same_files s1 s2" "no_fault s2" using reads_at(1) [OF s1(3)] by blast
  have "permit_at oh a i None s2" using assms(16) s1(2) s2(2) by (simp add: stored_same)
  then obtain s3 where s3: "read_request_permit oh a i s2 = (s3, Inr None)" "no_fault s3" using reads_at(4) [OF s2(3)] by blast
  let ?mk = "mk_permit a (PStr i) (PStr d) cr (PStr (py_strip ar)) (ip_revision q) 1 (PStr (permit_state_text REQUEST_PERMIT_AVAILABLE)) ?t (?t + ttl) 0"
  have "is_ok ?mk" using ids assms(7-10) policy_at_ok [OF assms(11)] by (auto simp: mk_permit_def check_record_def)
  then obtain r where r: "?mk = Inr r" by (auto simp: is_ok_iff)
  have ok: "permit_ok r" "rp_authority r = a" using mk_permit_ok [OF r k(4)] by auto
  have f: "rp_state r = REQUEST_PERMIT_AVAILABLE" "rp_expires_at r = ?t + ttl" using r ids by (auto simp: mk_permit_def check_record_def)
  obtain s4 where s4: "write_request_permit oh r s3 = (s4, Inr ())" "no_fault s4" using write_permit_at [OF s3(2) k(3), of r] ok k(5) by auto
  have l: "lock_all sv oh [a] s = (s, Inr ())" by (rule lock_all_free [OF assms(1) k(3)]) (simp add: k(4))
  have "issue_request_permit sv owner a iv dig cr ar ttl now s = (s4, Inr r)"
    using k(1,2) as l s1(1) s2(1) s3(1) s4(1) r assms(5-9,12,13,15)
    by (simp add: issue_request_permit_def Let_def moment_of_at check_record_def del: lock_all.simps)
  with s4 f show ?thesis by blast
qed

theorem request_permit_is_bound_witness:
  "\<exists>s s' r. issue_request_permit sample_service (lit ''o'') sample_authority (lit ''i'') sample_request_digest 1 (lit ''1'') 60 None s = (s', Inr r)
     \<and> rp_request_digest r = sample_request_digest \<and> rp_card_revision r = 1"
proof -
  let ?h = sample_hash and ?a = sample_authority
  note k = caller_okD [OF sample_caller]
  from set_policy_runs [OF sample_service_ok(1) _ sample_caller sample_modes, of empty_fs None None None]
  obtain s p where s: "no_fault s" "policy_at ?h ?a (Some p) s" "ip_mode p = POLICY_ONCE" "ip_revision p = 1" "ip_state p = POLICY_AVAILABLE"
    "puts (policy_path ?h ?a) (policy_to_dict p) empty_fs s" by (auto simp: revision_of_def)
  have pn: "permit_at ?h ?a (lit ''i'') None empty_fs"
    using paths_ok(4) [OF k(3,4)] by (auto simp: stored_None present_def empty_fs_def fs_lookup_def)
  have at: "change_at ?h ?a None s" "permit_at ?h ?a (lit ''i'') None s"
    using kept_other_kind(2,4) [OF s(6) path_kinds(1)] pn by auto
  have v: "validated_invocation_id (PStr (lit ''i'')) = Inr (lit ''i'')" "py_strip (lit ''1'') \<noteq> []"
    by (simp_all add: lit_def py_strip_def py_lstrip_def is_space_def invocation_id_ok_def validated_invocation_id_iff)
  obtain s' r where r: "issue_request_permit sample_service (lit ''o'') ?a (lit ''i'') sample_request_digest 1 (lit ''1'') 60 None s = (s', Inr r)"
    using issue_runs [OF sample_service_ok(1) s(1) sample_caller sample_no_provider v(1) sample_request_digest_ok(2) _ v(2) _ _ s(2,3,5) at(1) _ at(2), of 1 60 None]
    by auto
  have "rp_request_digest r = sample_request_digest \<and> rp_card_revision r = 1"
    using request_permit_is_bound [OF r sample_service_ok(2) sample_stable(1)] by auto
  with r show ?thesis by blast
qed

end
