(* ===== verification/Admission_Replay.thy ===== *)
theory Admission_Replay
  imports Py_Text Sha256 "HOL-Library.Product_Lexorder"
begin

text \<open>
  \<open>connection_hub/delegated_credentials/admission_replay.py\<close>: the ledger of signed nonces that were
  evaluated.

  The table is the list of its rows; each call is one transaction on it. Times are microseconds since
  the epoch. The clock of the state stands for the service's and the database's, which the code reads
  as the same time. A value PostgreSQL cannot store (a NUL in a text, a timestamp out of range) is
  outside the model. Rows another transaction holds are skipped by \<open>purge_expired\<close>: which ones is a parameter.
\<close>

section \<open>Rows and digests\<close>

record claim_row =
  cl_service_id :: pystr
  cl_nonce_sha256 :: pystr
  cl_tenant :: pystr
  cl_project :: pystr
  cl_claimed_at :: int
  cl_expires_at :: int

record replay_db =
  db_claims :: "claim_row list"
  db_clock :: int

record replay_store =
  rs_tenant :: pystr
  rs_project :: pystr

definition MIGRATED_DIGEST_ONLY_SERVICE_ID :: pystr where
  "MIGRATED_DIGEST_ONLY_SERVICE_ID = lit ''migration:digest-only-source''"

definition or_default :: "pystr \<Rightarrow> pystr" where
  "or_default s = (if py_strip s = [] then lit ''default'' else py_strip s)"

definition mk_replay_store :: "bool \<Rightarrow> pystr \<Rightarrow> pystr \<Rightarrow> exn + replay_store" where
  "mk_replay_store has_pool tenant project =
     bindE (requireE has_pool (RuntimeError ''PostgresAdmissionReplayClaimStore requires pg_pool'')) (\<lambda>_.
       Inr \<lparr>rs_tenant = or_default tenant, rs_project = or_default project\<rparr>)"

definition admission_nonce_digest :: "pystr \<Rightarrow> pystr \<Rightarrow> exn + pystr" where
  "admission_nonce_digest service_id nonce =
     (let service = py_strip service_id
      in bindE (requireE (service \<noteq> []) (ValueError ''admission replay service id is required'')) (\<lambda>_.
         bindE (requireE (py_strip nonce \<noteq> []) (ValueError ''admission replay nonce is required'')) (\<lambda>_.
         bindE (utf8_encode (service @ 10 # nonce)) (\<lambda>b. Inr (sha256_hexdigest b)))))"

text \<open>The two unique indexes and the check of the table.\<close>

definition row_conflicts :: "claim_row list \<Rightarrow> claim_row \<Rightarrow> bool" where
  "row_conflicts rows r \<longleftrightarrow> (\<exists>x \<in> set rows. cl_nonce_sha256 x = cl_nonce_sha256 r)"

definition insert_claim :: "claim_row \<Rightarrow> (replay_db, bool) action" where
  "insert_claim r = (\<lambda>s.
     if cl_expires_at r \<le> cl_claimed_at r then (s, Inl (RuntimeError ''check_violation''))
     else if row_conflicts (db_claims s) r then (s, Inr False)
     else (s\<lparr>db_claims := db_claims s @ [r]\<rparr>, Inr True))"

definition seconds_of :: "int option \<Rightarrow> replay_db \<Rightarrow> int" where
  "seconds_of now s = (case now of Some n \<Rightarrow> n | None \<Rightarrow> db_clock s div 1000000)"

section \<open>Operations\<close>

definition replay_claim :: "replay_store \<Rightarrow> pystr \<Rightarrow> pystr \<Rightarrow> int \<Rightarrow> int option \<Rightarrow> (replay_db, bool) action" where
  "replay_claim rs service_id nonce ttl_seconds now =
     (let service = py_strip service_id
      in bindS (liftS (admission_nonce_digest service nonce)) (\<lambda>digest.
         bindS (liftS (requireE (1 \<le> ttl_seconds) (ValueError ''admission replay claim TTL must be positive''))) (\<lambda>_ s.
         let moment = seconds_of now s
         in insert_claim \<lparr>cl_service_id = service, cl_nonce_sha256 = digest, cl_tenant = rs_tenant rs, cl_project = rs_project rs,
              cl_claimed_at = moment * 1000000, cl_expires_at = moment * 1000000 + ttl_seconds * 1000000\<rparr> s)))"

definition valid_digest :: "pystr \<Rightarrow> exn + pystr" where
  "valid_digest nonce_sha256 =
     (let digest = py_lower (py_strip nonce_sha256)
      in if is_digest digest then Inr digest else Inl (ValueError ''admission replay digest must be a SHA-256 digest''))"

text \<open>A transaction that raises leaves the table as it was.\<close>

definition transactional :: "(replay_db, 'a) action \<Rightarrow> (replay_db, 'a) action" where
  "transactional m = (\<lambda>s. case m s of (s', Inr x) \<Rightarrow> (s', Inr x) | (_, Inl e) \<Rightarrow> (s, Inl e))"

definition import_digest :: "replay_store \<Rightarrow> pystr \<Rightarrow> int \<Rightarrow> (replay_db, unit) action" where
  "import_digest rs nonce_sha256 expires_at_ms =
     bindS (liftS (valid_digest nonce_sha256)) (\<lambda>digest s.
       if expires_at_ms \<le> db_clock s div 1000 then (s, Inl (ValueError ''admission replay source claim already expired''))
       else transactional (bindS
         (insert_claim \<lparr>cl_service_id = MIGRATED_DIGEST_ONLY_SERVICE_ID, cl_nonce_sha256 = digest, cl_tenant = rs_tenant rs,
            cl_project = rs_project rs, cl_claimed_at = min (db_clock s) (expires_at_ms * 1000 - 1000),
            cl_expires_at = expires_at_ms * 1000\<rparr>) (\<lambda>_ s'.
         case find (\<lambda>x. cl_nonce_sha256 x = digest) (db_claims s') of
           Some x \<Rightarrow>
             if cl_tenant x \<noteq> rs_tenant rs \<or> cl_project x \<noteq> rs_project rs \<or> cl_expires_at x div 1000 \<noteq> expires_at_ms
                \<or> cl_service_id x \<noteq> MIGRATED_DIGEST_ONLY_SERVICE_ID
             then (s', Inl (RuntimeError ''admission_replay_migration_target_conflict'')) else (s', Inr ())
         | None \<Rightarrow> (s', Inl (RuntimeError ''admission_replay_migration_target_conflict'')))) s)"

definition migration_rows :: "int \<Rightarrow> (replay_db, (pystr \<times> pystr \<times> int) list) action" where
  "migration_rows captured_at_ms = (\<lambda>s.
     if captured_at_ms \<le> 0 then (s, Inl (ValueError ''migration capture time must be a Unix millisecond''))
     else (s, Inr (map (\<lambda>x. (cl_service_id x, cl_nonce_sha256 x, cl_expires_at x div 1000))
            (sort_key cl_nonce_sha256 (filter (\<lambda>x. captured_at_ms * 1000 < cl_expires_at x) (db_claims s))))))"

definition remove_migrated_digest :: "pystr \<Rightarrow> (replay_db, bool) action" where
  "remove_migrated_digest nonce_sha256 =
     bindS (liftS (valid_digest nonce_sha256)) (\<lambda>digest s.
       let gone = (\<lambda>x. cl_nonce_sha256 x = digest \<and> cl_service_id x = MIGRATED_DIGEST_ONLY_SERVICE_ID)
       in (s\<lparr>db_claims := filter (\<lambda>x. \<not> gone x) (db_claims s)\<rparr>, Inr (filter gone (db_claims s) \<noteq> [])))"

definition purge_victims :: "(claim_row \<Rightarrow> bool) \<Rightarrow> int \<Rightarrow> nat \<Rightarrow> claim_row list \<Rightarrow> claim_row list" where
  "purge_victims locked moment limit rows =
     take limit (sort_key (\<lambda>x. (cl_expires_at x, cl_service_id x, cl_nonce_sha256 x))
       (filter (\<lambda>x. cl_expires_at x \<le> moment * 1000000 \<and> \<not> locked x) rows))"

definition purge_expired :: "(claim_row \<Rightarrow> bool) \<Rightarrow> int option \<Rightarrow> int \<Rightarrow> (replay_db, int) action" where
  "purge_expired locked now limit = (\<lambda>s.
     if limit < 1 \<or> 10000 < limit then (s, Inl (ValueError ''admission replay purge limit is invalid''))
     else let victims = purge_victims locked (seconds_of now s) (nat limit) (db_claims s);
              is_victim = (\<lambda>x. \<exists>v \<in> set victims. cl_service_id x = cl_service_id v \<and> cl_nonce_sha256 x = cl_nonce_sha256 v)
          in (s\<lparr>db_claims := filter (\<lambda>x. \<not> is_victim x) (db_claims s)\<rparr>, Inr (int (length (filter is_victim (db_claims s))))))"

section \<open>Invariant: one row per nonce\<close>

definition ledger_ok :: "replay_db \<Rightarrow> bool" where
  "ledger_ok s \<longleftrightarrow> distinct (map cl_nonce_sha256 (db_claims s)) \<and> (\<forall>x \<in> set (db_claims s). cl_claimed_at x < cl_expires_at x)"

datatype replay_op =
    Claim replay_store pystr pystr int "int option"
  | Import replay_store pystr int
  | Remove pystr
  | Purge "claim_row \<Rightarrow> bool" "int option" int
  | Tick nat

fun replay_step :: "replay_op \<Rightarrow> replay_db \<Rightarrow> replay_db" where
  "replay_step (Claim rs service nonce ttl now) s = fst (replay_claim rs service nonce ttl now s)"
| "replay_step (Import rs digest expires) s = fst (import_digest rs digest expires s)"
| "replay_step (Remove digest) s = fst (remove_migrated_digest digest s)"
| "replay_step (Purge locked now limit) s = fst (purge_expired locked now limit s)"
| "replay_step (Tick n) s = s\<lparr>db_clock := db_clock s + int n\<rparr>"

lemma insert_claim_cases:
  obtains "insert_claim r s = (s, Inl (RuntimeError ''check_violation''))" "cl_expires_at r \<le> cl_claimed_at r"
  | "insert_claim r s = (s, Inr False)" "cl_claimed_at r < cl_expires_at r" "row_conflicts (db_claims s) r"
  | "insert_claim r s = (s\<lparr>db_claims := db_claims s @ [r]\<rparr>, Inr True)" "cl_claimed_at r < cl_expires_at r" "\<not> row_conflicts (db_claims s) r"
  by (cases "cl_expires_at r \<le> cl_claimed_at r"; cases "row_conflicts (db_claims s) r") (simp_all add: insert_claim_def)

lemma replay_claim_run:
  assumes "replay_claim rs service nonce ttl now s = (s', Inr b)"
  obtains digest where "admission_nonce_digest service nonce = Inr digest" "1 \<le> ttl"
    "b \<longleftrightarrow> (\<forall>x \<in> set (db_claims s). cl_nonce_sha256 x \<noteq> digest)"
    "s' = (if b then s\<lparr>db_claims := db_claims s @ [\<lparr>cl_service_id = py_strip service, cl_nonce_sha256 = digest, cl_tenant = rs_tenant rs,
       cl_project = rs_project rs, cl_claimed_at = seconds_of now s * 1000000,
       cl_expires_at = seconds_of now s * 1000000 + ttl * 1000000\<rparr>]\<rparr> else s)"
proof -
  from assms obtain digest where d: "admission_nonce_digest (py_strip service) nonce = Inr digest" and t: "1 \<le> ttl"
    and i: "insert_claim \<lparr>cl_service_id = py_strip service, cl_nonce_sha256 = digest, cl_tenant = rs_tenant rs, cl_project = rs_project rs,
       cl_claimed_at = seconds_of now s * 1000000, cl_expires_at = seconds_of now s * 1000000 + ttl * 1000000\<rparr> s = (s', Inr b)"
    by (auto simp: replay_claim_def Let_def bindS_eq_Inr requireE_def split: if_splits)
  have "admission_nonce_digest service nonce = Inr digest" using d by (simp add: admission_nonce_digest_def)
  moreover from i have "b \<longleftrightarrow> (\<forall>x \<in> set (db_claims s). cl_nonce_sha256 x \<noteq> digest)"
    by (auto simp: insert_claim_def row_conflicts_def split: if_splits)
  moreover from i have "s' = (if b then s\<lparr>db_claims := db_claims s @ [\<lparr>cl_service_id = py_strip service, cl_nonce_sha256 = digest,
       cl_tenant = rs_tenant rs, cl_project = rs_project rs, cl_claimed_at = seconds_of now s * 1000000,
       cl_expires_at = seconds_of now s * 1000000 + ttl * 1000000\<rparr>]\<rparr> else s)"
    by (simp add: insert_claim_def split: if_splits)
  ultimately show thesis using t that by blast
qed

lemma replay_claim_returns:
  "admission_nonce_digest (py_strip service) nonce = Inr d \<Longrightarrow> 1 \<le> ttl \<Longrightarrow> \<exists>s' b. replay_claim rs service nonce ttl now s = (s', Inr b)"
  by (auto simp: replay_claim_def Let_def requireE_def insert_claim_def)

lemma replay_claim_other:
  "fst (replay_claim rs service nonce ttl now s) = s \<or> (\<exists>r. fst (replay_claim rs service nonce ttl now s) = s\<lparr>db_claims := db_claims s @ [r]\<rparr>
     \<and> \<not> row_conflicts (db_claims s) r \<and> cl_claimed_at r < cl_expires_at r)"
  by (cases "admission_nonce_digest (py_strip service) nonce"; cases "1 \<le> ttl")
     (auto simp: replay_claim_def bindS_def Let_def requireE_def insert_claim_def)

lemma import_digest_other:
  "fst (import_digest rs digest expires s) = s \<or> (\<exists>r. fst (import_digest rs digest expires s) = s\<lparr>db_claims := db_claims s @ [r]\<rparr>
     \<and> \<not> row_conflicts (db_claims s) r \<and> cl_claimed_at r < cl_expires_at r)"
proof (cases "valid_digest digest")
  case (Inr d)
  let ?r = "\<lparr>cl_service_id = MIGRATED_DIGEST_ONLY_SERVICE_ID, cl_nonce_sha256 = d, cl_tenant = rs_tenant rs,
            cl_project = rs_project rs, cl_claimed_at = min (db_clock s) (expires * 1000 - 1000), cl_expires_at = expires * 1000\<rparr>"
  show ?thesis
    by (rule insert_claim_cases [of ?r s])
       (use Inr in \<open>auto simp: import_digest_def bindS_def transactional_def split: option.splits\<close>)
qed (simp add: import_digest_def bindS_def)

lemma ledger_ok_snoc:
  assumes "ledger_ok s" "\<not> row_conflicts (db_claims s) r" "cl_claimed_at r < cl_expires_at r"
  shows "ledger_ok (s\<lparr>db_claims := db_claims s @ [r]\<rparr>)"
proof -
  have "cl_nonce_sha256 r \<notin> cl_nonce_sha256 ` set (db_claims s)" using assms(2) by (force simp: row_conflicts_def)
  with assms show ?thesis by (simp add: ledger_ok_def)
qed

text \<open>What every operation does: it adds one row with a new digest, or drops rows, or leaves the table.\<close>

lemma ledger_ok_step: "ledger_ok s \<Longrightarrow> ledger_ok (replay_step op s)"
proof (cases op)
  case (Claim rs service nonce ttl now)
  then show "ledger_ok s \<Longrightarrow> ?thesis" using replay_claim_other [of rs service nonce ttl now s]
    by (auto intro: ledger_ok_snoc)
next
  case (Import rs digest expires)
  then show "ledger_ok s \<Longrightarrow> ?thesis" using import_digest_other [of rs digest expires s]
    by (auto intro: ledger_ok_snoc)
next
  case (Remove digest)
  then show "ledger_ok s \<Longrightarrow> ?thesis"
    by (cases "valid_digest digest") (auto simp: remove_migrated_digest_def bindS_def Let_def ledger_ok_def distinct_map_filter)
next
  case (Purge locked now limit)
  then show "ledger_ok s \<Longrightarrow> ?thesis" by (auto simp: purge_expired_def Let_def ledger_ok_def distinct_map_filter)
qed (simp add: ledger_ok_def)

interpretation ledger: forward_steps replay_step "\<lambda>s s'. ledger_ok s \<longrightarrow> ledger_ok s'" "\<lambda>_. True"
  by unfold_locales (auto intro: ledger_ok_step)

lemma ledger_ok_history: "ledger_ok s \<Longrightarrow> ledger_ok (fold replay_step ops s)"
  using ledger.history_forward [of ops s] by simp

section \<open>A nonce is claimed once\<close>

text \<open>A row of \<open>digest\<close>, not a migrated one, that stays valid up to the second \<open>until\<close>.\<close>

definition claimed_until :: "pystr \<Rightarrow> int \<Rightarrow> replay_db \<Rightarrow> bool" where
  "claimed_until digest until s \<longleftrightarrow> (\<exists>x \<in> set (db_claims s). cl_nonce_sha256 x = digest
     \<and> cl_service_id x \<noteq> MIGRATED_DIGEST_ONLY_SERVICE_ID \<and> until * 1000000 \<le> cl_expires_at x)"

text \<open>No purge of the history runs at \<open>until\<close> or later.\<close>

fun purges_before :: "int \<Rightarrow> replay_op list \<Rightarrow> replay_db \<Rightarrow> bool" where
  "purges_before until [] s = True"
| "purges_before until (op # ops) s =
     ((case op of Purge _ now _ \<Rightarrow> seconds_of now s < until | _ \<Rightarrow> True) \<and> purges_before until ops (replay_step op s))"

lemma purge_keeps_live:
  assumes "x \<in> set (db_claims s)" "ledger_ok s" "seconds_of now s < until" "until * 1000000 \<le> cl_expires_at x"
  shows "x \<in> set (db_claims (fst (purge_expired locked now limit s)))"
proof -
  have "v = x" if "v \<in> set (purge_victims locked m n (db_claims s))" "cl_nonce_sha256 v = cl_nonce_sha256 x" for v m n
    using that assms(1,2) by (auto simp: purge_victims_def ledger_ok_def distinct_map inj_on_def dest!: in_set_takeD)
  moreover have "x \<notin> set (purge_victims locked (seconds_of now s) n (db_claims s))" for n
    using assms(3,4) by (auto simp: purge_victims_def dest!: in_set_takeD)
  ultimately show ?thesis using assms(1) by (auto simp: purge_expired_def Let_def)
qed

lemma claimed_until_step:
  assumes "claimed_until digest until s" "ledger_ok s" "case op of Purge _ now _ \<Rightarrow> seconds_of now s < until | _ \<Rightarrow> True"
  shows "claimed_until digest until (replay_step op s)"
proof (cases op)
  case (Claim rs service nonce ttl now)
  then show ?thesis using assms(1) replay_claim_other [of rs service nonce ttl now s] by (auto simp: claimed_until_def)
next
  case (Import rs d expires)
  then show ?thesis using assms(1) import_digest_other [of rs d expires s] by (auto simp: claimed_until_def)
next
  case (Remove d)
  then show ?thesis using assms(1)
    by (cases "valid_digest d") (auto simp: remove_migrated_digest_def bindS_def Let_def claimed_until_def)
next
  case (Purge locked now limit)
  then show ?thesis using assms purge_keeps_live [of _ s now until locked limit] by (auto simp: claimed_until_def)
qed (use assms(1) in \<open>simp add: claimed_until_def\<close>)

lemma claimed_until_history:
  "claimed_until digest until s \<Longrightarrow> ledger_ok s \<Longrightarrow> purges_before until ops s \<Longrightarrow> claimed_until digest until (fold replay_step ops s)"
  by (induction ops arbitrary: s) (auto intro: claimed_until_step ledger_ok_step)

text \<open>
  C35. A signed nonce is accepted once in its validity window. After a claim of a service's nonce returned
  true, every later claim of it returns false and changes nothing, whatever claims, imports, removals and
  purges by whichever store ran in between, as long as no purge ran at or after the claim's expiry. (The service
  must not carry the name of the migration marker, whose rows \<open>remove_migrated_digest\<close> may delete.)
\<close>

theorem nonce_claimed_once:
  assumes "ledger_ok s" "replay_claim rs service nonce ttl now s = (s1, Inr True)" "py_strip service \<noteq> MIGRATED_DIGEST_ONLY_SERVICE_ID"
    "purges_before (seconds_of now s + ttl) ops s1" "replay_claim rs' service' nonce ttl' now' (fold replay_step ops s1) = (s3, Inr b)"
    "py_strip service' = py_strip service"
  shows "\<not> b \<and> s3 = fold replay_step ops s1"
proof -
  obtain d where d: "admission_nonce_digest service nonce = Inr d" "1 \<le> ttl"
    "s1 = s\<lparr>db_claims := db_claims s @ [\<lparr>cl_service_id = py_strip service, cl_nonce_sha256 = d, cl_tenant = rs_tenant rs,
       cl_project = rs_project rs, cl_claimed_at = seconds_of now s * 1000000, cl_expires_at = seconds_of now s * 1000000 + ttl * 1000000\<rparr>]\<rparr>"
    using replay_claim_run [OF assms(2)] by auto
  have "claimed_until d (seconds_of now s + ttl) s1" using assms(3) by (simp add: d(3) claimed_until_def algebra_simps)
  moreover have "ledger_ok s1" using ledger_ok_step [OF assms(1), of "Claim rs service nonce ttl now"] assms(2) by simp
  ultimately have c: "claimed_until d (seconds_of now s + ttl) (fold replay_step ops s1)"
    using claimed_until_history assms(4) by blast
  have d': "admission_nonce_digest service' nonce = Inr d" using d(1) assms(6) by (simp add: admission_nonce_digest_def)
  show ?thesis
    by (rule replay_claim_run [OF assms(5)]) (use c d' in \<open>auto simp: claimed_until_def\<close>)
qed

theorem nonce_claimed_once_witness:
  "let rs = \<lparr>rs_tenant = lit ''t'', rs_project = lit ''p''\<rparr>; s = \<lparr>db_claims = [], db_clock = 0\<rparr>;
       (s1, r1) = replay_claim rs (lit ''svc'') (lit ''n'') 60 (Some 5) s;
       s2 = fold replay_step [Tick 9, Purge (\<lambda>_. False) (Some 64) 100] s1
   in r1 = Inr True \<and> replay_claim rs (lit ''svc'') (lit ''n'') 60 (Some 6) s2 = (s2, Inr False)"
proof -
  let ?rs = "\<lparr>rs_tenant = lit ''t'', rs_project = lit ''p''\<rparr>" and ?s = "\<lparr>db_claims = [], db_clock = 0\<rparr>"
  let ?ops = "[Tick 9, Purge (\<lambda>_. False) (Some 64) 100]"
  obtain d where d: "admission_nonce_digest (lit ''svc'') (lit ''n'') = Inr d"
    by (simp add: admission_nonce_digest_def utf8_encode_def requireE_def lit_def py_strip_def py_lstrip_def is_space_def is_surrogate_def)
  have st: "py_strip (lit ''svc'') = lit ''svc''" by (simp add: lit_def py_strip_def py_lstrip_def is_space_def)
  obtain s1 where s1: "replay_claim ?rs (lit ''svc'') (lit ''n'') 60 (Some 5) ?s = (s1, Inr True)"
    by (simp add: replay_claim_def Let_def st d requireE_def insert_claim_def row_conflicts_def)
  obtain s3 b where s3: "replay_claim ?rs (lit ''svc'') (lit ''n'') 60 (Some 6) (fold replay_step ?ops s1) = (s3, Inr b)"
    using replay_claim_returns [of "lit ''svc''" "lit ''n''" d 60 ?rs "Some 6" "fold replay_step ?ops s1"] d st by auto
  have "\<not> b \<and> s3 = fold replay_step ?ops s1"
    by (rule nonce_claimed_once [OF _ s1 _ _ s3]) (auto simp: ledger_ok_def seconds_of_def MIGRATED_DIGEST_ONLY_SERVICE_ID_def st)
  then show ?thesis using s1 s3 by (simp add: Let_def)
qed

end
