(* ===== verification/One_Time_State.thy ===== *)
theory One_Time_State
  imports Py_Text Sha256
begin

text \<open>
  \<open>connection_hub/one_time_state.py\<close>: single-use state whose payload lies in a secret store and whose pointer
  lies in Redis, bound to the Redis run that wrote it.

  Redis is its keys with their values and expiry, its run id, and the snapshots it saved; a restart loads a
  snapshot under a run id it never had. The secret store is the host's: its four operations are parameters,
  actions on a host state. Every Redis call may fail before or after it took effect.
\<close>

section \<open>Redis\<close>

type_synonym redis_keys = "(pystr \<times> stored_file \<times> int) list"

record redis =
  rd_run_id :: pystr
  rd_keys :: redis_keys
  rd_time :: int
  rd_fault :: "nat \<Rightarrow> fault"
  rd_ops :: nat
  rd_saved :: "redis_keys list"
  rd_runs :: "pystr list"

record 'h secret_store =
  ss_set :: "pystr \<Rightarrow> stored_file \<Rightarrow> int \<Rightarrow> ('h, unit) action"
  ss_get :: "pystr \<Rightarrow> ('h, stored_file option) action"
  ss_delete :: "pystr \<Rightarrow> ('h, unit) action"
  ss_purge_expired :: "int \<Rightarrow> int \<Rightarrow> ('h, int) action"

record 'h world =
  w_redis :: redis
  w_host :: 'h
  w_clock :: int
  w_refs :: nat

definition on_redis :: "(redis, 'a) action \<Rightarrow> ('h world, 'a) action" where
  "on_redis m = (\<lambda>w. case m (w_redis w) of (r, x) \<Rightarrow> (w\<lparr>w_redis := r\<rparr>, x))"

definition on_host :: "('h, 'a) action \<Rightarrow> ('h world, 'a) action" where
  "on_host m = (\<lambda>w. case m (w_host w) of (h, x) \<Rightarrow> (w\<lparr>w_host := h\<rparr>, x))"

definition rd_tick :: "redis \<Rightarrow> redis" where
  "rd_tick r = r\<lparr>rd_ops := Suc (rd_ops r)\<rparr>"

definition rd_next :: "redis \<Rightarrow> fault" where
  "rd_next r = rd_fault r (rd_ops r)"

definition rd_get :: "redis \<Rightarrow> pystr \<Rightarrow> stored_file option" where
  "rd_get r k = (case map_of (rd_keys r) k of None \<Rightarrow> None | Some (v, e) \<Rightarrow> if rd_time r < e then Some v else None)"

definition redis_down :: exn where
  "redis_down = RuntimeError ''redis_unavailable''"

definition redis_info :: "(redis, pystr) action" where
  "redis_info = (\<lambda>r. (rd_tick r, if rd_next r = No_Fault then Inr (rd_run_id r) else Inl redis_down))"

definition rd_put :: "pystr \<Rightarrow> stored_file \<Rightarrow> int \<Rightarrow> redis \<Rightarrow> redis" where
  "rd_put k v ttl r = r\<lparr>rd_keys := dict_set k (v, rd_time r + ttl) (rd_keys r)\<rparr>"

definition redis_set :: "pystr \<Rightarrow> stored_file \<Rightarrow> int \<Rightarrow> (redis, unit) action" where
  "redis_set k v ttl = (\<lambda>r. case rd_next r of No_Fault \<Rightarrow> (rd_put k v ttl (rd_tick r), Inr ())
     | Lost \<Rightarrow> (rd_tick r, Inl redis_down) | Late \<Rightarrow> (rd_put k v ttl (rd_tick r), Inl redis_down))"

definition rd_del :: "pystr \<Rightarrow> redis \<Rightarrow> redis" where
  "rd_del k r = r\<lparr>rd_keys := filter (\<lambda>e. fst e \<noteq> k) (rd_keys r)\<rparr>"

text \<open>The pipeline of \<open>INFO\<close>, \<open>GET\<close> and \<open>DEL\<close>, executed as one transaction.\<close>

definition redis_take :: "pystr \<Rightarrow> (redis, pystr \<times> stored_file option) action" where
  "redis_take k = (\<lambda>r. case rd_next r of No_Fault \<Rightarrow> (rd_del k (rd_tick r), Inr (rd_run_id r, rd_get r k))
     | Lost \<Rightarrow> (rd_tick r, Inl redis_down) | Late \<Rightarrow> (rd_del k (rd_tick r), Inl redis_down))"

section \<open>Records\<close>

definition ONE_TIME_POINTER_SCHEMA :: pystr where "ONE_TIME_POINTER_SCHEMA = lit ''connection_hub.one_time_state.pointer.v1''"
definition ONE_TIME_SECRET_SCHEMA :: pystr where "ONE_TIME_SECRET_SCHEMA = lit ''connection_hub.one_time_state.secret.v1''"

definition purpose_match :: "pystr \<Rightarrow> bool" where
  "purpose_match s \<longleftrightarrow> s \<noteq> [] \<and> length s \<le> 128 \<and> (is_digit_char (hd s) \<or> (97 \<le> hd s \<and> hd s \<le> 122))
     \<and> (\<forall>c \<in> set s. is_digit_char c \<or> (97 \<le> c \<and> c \<le> 122) \<or> c = 46 \<or> c = 95 \<or> c = 45)"

definition state_digest :: "pystr \<Rightarrow> exn + pystr" where
  "state_digest state = bindE (utf8_encode state) (\<lambda>b. Inr (sha256_hexdigest b))"

text \<open>\<open>str(value or "")\<close>\<close>

definition str_or_empty :: "pyval \<Rightarrow> pystr" where
  "str_or_empty v = (if truthy v then py_str v else [])"

definition field_text :: "pydict \<Rightarrow> string \<Rightarrow> pystr" where
  "field_text d k = str_or_empty (dget_or d k PNone)"

text \<open>\<open>hmac.compare_digest\<close> refuses texts that are not ASCII.\<close>

definition compare_digest :: "pystr \<Rightarrow> pystr \<Rightarrow> exn + bool" where
  "compare_digest a b = (if (\<forall>c \<in> set a. c < 128) \<and> (\<forall>c \<in> set b. c < 128) then Inr (a = b) else Inl TypeError)"

definition json_mapping :: "stored_file \<Rightarrow> string \<Rightarrow> exn + pydict" where
  "json_mapping v reason = (case v of Json (PDict d) \<Rightarrow> Inr d | _ \<Rightarrow> Inl (OneTimeStateError reason))"

definition json_copy :: "pydict \<Rightarrow> exn + pyval" where
  "json_copy value = (case dumps True (PDict value) of Inl _ \<Rightarrow> Inl (OneTimeStateError ''one_time_state_payload_not_json'')
     | Inr _ \<Rightarrow> Inr (reread (PDict value)))"

definition require_state :: "bool \<Rightarrow> string \<Rightarrow> exn + unit" where
  "require_state b reason = requireE b (OneTimeStateError reason)"

section \<open>RedisRunBoundPointerStore\<close>

record claimed_pointer =
  cp_record :: pydict
  cp_current_run_id :: pystr
  cp_belongs_to_current_run :: bool

definition pointer_prefix :: "pystr \<Rightarrow> pystr" where
  "pointer_prefix prefix = (let colon = (\<lambda>c. c = 58)
     in rev (dropWhile colon (rev (dropWhile colon
          (if prefix = [] then lit ''connection-hub:one-time-state'' else prefix)))))"

definition pointer_key :: "pystr \<Rightarrow> pystr \<Rightarrow> exn + pystr" where
  "pointer_key prefix digest =
     (let normalized = py_lower (py_strip digest)
      in bindE (require_state (is_digest normalized) ''one_time_state_digest_invalid'') (\<lambda>_. Inr (prefix @ 58 # normalized)))"

definition valid_run_id :: "pystr \<Rightarrow> exn + pystr" where
  "valid_run_id raw = bindE (require_state (py_strip raw \<noteq> []) ''one_time_state_redis_run_id_unavailable'') (\<lambda>_. Inr (py_strip raw))"

definition pointer_run_id :: "(redis, pystr) action" where
  "pointer_run_id = bindS redis_info (\<lambda>raw. liftS (valid_run_id raw))"

definition pointer_put :: "pystr \<Rightarrow> pystr \<Rightarrow> (string \<times> pyval) list \<Rightarrow> int \<Rightarrow> (redis, unit) action" where
  "pointer_put prefix digest items ttl_seconds =
     bindS pointer_run_id (\<lambda>run_id.
     let value = obj (items @ [(''redis_run_id'', PStr run_id)])
     in bindS (liftS (dumps True value)) (\<lambda>_.
        bindS (liftS (pointer_key prefix digest)) (\<lambda>k. redis_set k (Json (reread value)) ttl_seconds)))"

definition pointer_claim :: "pystr \<Rightarrow> pystr \<Rightarrow> (redis, claimed_pointer option) action" where
  "pointer_claim prefix digest =
     bindS (liftS (pointer_key prefix digest)) (\<lambda>k.
     bindS (redis_take k) (\<lambda>(info, raw).
       case raw of None \<Rightarrow> retS None
       | Some v \<Rightarrow>
          bindS (liftS (valid_run_id info)) (\<lambda>run_id.
          bindS (liftS (json_mapping v ''one_time_state_pointer_invalid'')) (\<lambda>d.
          let recorded = py_strip (field_text d ''redis_run_id'')
          in bindS (liftS (if recorded = [] then Inr False else compare_digest recorded run_id)) (\<lambda>same.
             retS (Some \<lparr>cp_record = d, cp_current_run_id = run_id, cp_belongs_to_current_run = same\<rparr>))))))"

section \<open>SecretBackedOneTimeStateStore\<close>

record 'h one_time_store =
  ot_prefix :: pystr
  ot_secrets :: "'h secret_store"
  ot_purpose :: pystr
  ot_max_ttl_seconds :: int
  ot_uuid4_hex :: "nat \<Rightarrow> pystr"

text \<open>The pointer store is the prefix it was constructed with.\<close>

definition mk_one_time_store :: "pystr \<Rightarrow> 'h secret_store \<Rightarrow> pystr \<Rightarrow> int \<Rightarrow> (nat \<Rightarrow> pystr) \<Rightarrow> exn + 'h one_time_store" where
  "mk_one_time_store prefix secrets purpose max_ttl uuids =
     (let normalized = py_lower (py_strip purpose)
      in bindE (require_state (purpose_match normalized) ''one_time_state_purpose_invalid'') (\<lambda>_.
         Inr \<lparr>ot_prefix = pointer_prefix prefix, ot_secrets = secrets, ot_purpose = normalized, ot_max_ttl_seconds = max_ttl, ot_uuid4_hex = uuids\<rparr>))"

text \<open>An action whose failure is logged and forgotten.\<close>

definition best_effort :: "('s, 'a) action \<Rightarrow> ('s, unit) action" where
  "best_effort m = (\<lambda>s. (fst (m s), Inr ()))"

definition purge_expired_best_effort :: "'h one_time_store \<Rightarrow> int \<Rightarrow> ('h world, unit) action" where
  "purge_expired_best_effort ot now = best_effort (on_host (ss_purge_expired (ot_secrets ot) now 100))"

definition world_moment :: "int option \<Rightarrow> 'h world \<Rightarrow> int" where
  "world_moment now w = (case now of Some n \<Rightarrow> n | None \<Rightarrow> w_clock w)"

definition next_ref :: "'h one_time_store \<Rightarrow> ('h world, pystr) action" where
  "next_ref ot = (\<lambda>w. (w\<lparr>w_refs := Suc (w_refs w)\<rparr>, Inr (ot_uuid4_hex ot (w_refs w))))"

definition secret_items :: "'h one_time_store \<Rightarrow> pystr \<Rightarrow> pystr \<Rightarrow> pyval \<Rightarrow> int \<Rightarrow> int \<Rightarrow> (string \<times> pyval) list" where
  "secret_items ot raw_state digest payload moment expires_at =
     [(''schema'', PStr ONE_TIME_SECRET_SCHEMA), (''purpose'', PStr (ot_purpose ot)), (''state'', PStr raw_state),
      (''state_digest'', PStr digest), (''payload'', payload), (''created_at'', PInt moment), (''expires_at'', PInt expires_at)]"

definition pointer_items :: "'h one_time_store \<Rightarrow> pystr \<Rightarrow> pystr \<Rightarrow> int \<Rightarrow> int \<Rightarrow> (string \<times> pyval) list" where
  "pointer_items ot digest secret_ref moment expires_at =
     [(''schema'', PStr ONE_TIME_POINTER_SCHEMA), (''purpose'', PStr (ot_purpose ot)), (''state_digest'', PStr digest),
      (''secret_ref'', PStr secret_ref), (''created_at'', PInt moment), (''expires_at'', PInt expires_at)]"

text \<open>The pointer is written last; if that fails the secret is deleted again and the error raised.\<close>

definition publish_pointer :: "'h one_time_store \<Rightarrow> pystr \<Rightarrow> pystr \<Rightarrow> (string \<times> pyval) list \<Rightarrow> int \<Rightarrow> ('h world, unit) action" where
  "publish_pointer ot digest secret_ref items ttl = (\<lambda>w.
     case on_redis (pointer_put (ot_prefix ot) digest items ttl) w of
       (w', Inr u) \<Rightarrow> (w', Inr u)
     | (w', Inl e) \<Rightarrow> (fst (best_effort (on_host (ss_delete (ot_secrets ot) secret_ref)) w'), Inl e))"

definition state_put :: "'h one_time_store \<Rightarrow> pystr \<Rightarrow> pydict \<Rightarrow> int \<Rightarrow> int option \<Rightarrow> ('h world, unit) action" where
  "state_put ot state payload ttl_seconds now = (\<lambda>w.
     let raw_state = py_strip state; moment = world_moment now w; expires_at = moment + ttl_seconds
     in (bindS (liftS (require_state (raw_state \<noteq> []) ''one_time_state_missing'')) (\<lambda>_.
         bindS (liftS (require_state (1 \<le> ttl_seconds \<and> ttl_seconds \<le> ot_max_ttl_seconds ot) ''one_time_state_ttl_invalid'')) (\<lambda>_.
         bindS (liftS (state_digest raw_state)) (\<lambda>digest.
         bindS (next_ref ot) (\<lambda>secret_ref.
         bindS (liftS (json_copy payload)) (\<lambda>copy.
         bindS (purge_expired_best_effort ot moment) (\<lambda>_.
         let secret = obj (secret_items ot raw_state digest copy moment expires_at)
         in bindS (liftS (dumps True secret)) (\<lambda>_.
            bindS (on_host (ss_set (ot_secrets ot) secret_ref (Json (reread secret)) expires_at)) (\<lambda>_.
              publish_pointer ot digest secret_ref (pointer_items ot digest secret_ref moment expires_at) ttl_seconds))))))))) w)"

definition expiry_of :: "pydict \<Rightarrow> string \<Rightarrow> exn + int" where
  "expiry_of d reason = (case int_or_zero (dget_or d ''expires_at'' PNone) of Inl _ \<Rightarrow> Inl (OneTimeStateError reason) | Inr n \<Rightarrow> Inr n)"

text \<open>What \<open>pop\<close> uses of a valid pointer: the reference and the expiry.\<close>

definition validate_pointer :: "'h one_time_store \<Rightarrow> pydict \<Rightarrow> pystr \<Rightarrow> exn + (pystr \<times> int)" where
  "validate_pointer ot d digest =
     bindE (require_state (field_text d ''schema'' = ONE_TIME_POINTER_SCHEMA) ''one_time_state_pointer_schema_mismatch'') (\<lambda>_.
     bindE (require_state (field_text d ''purpose'' = ot_purpose ot) ''one_time_state_pointer_purpose_mismatch'') (\<lambda>_.
     bindE (compare_digest (field_text d ''state_digest'') digest) (\<lambda>same.
     bindE (require_state same ''one_time_state_pointer_digest_mismatch'') (\<lambda>_.
     let secret_ref = py_strip (field_text d ''secret_ref'')
     in bindE (require_state (secret_ref \<noteq> []) ''one_time_state_pointer_invalid'') (\<lambda>_.
        bindE (expiry_of d ''one_time_state_pointer_invalid'') (\<lambda>expires_at. Inr (secret_ref, expires_at)))))))"

definition validate_secret :: "'h one_time_store \<Rightarrow> pydict \<Rightarrow> pystr \<Rightarrow> pystr \<Rightarrow> exn + (pydict \<times> int)" where
  "validate_secret ot d state digest =
     bindE (require_state (field_text d ''schema'' = ONE_TIME_SECRET_SCHEMA) ''one_time_state_secret_schema_mismatch'') (\<lambda>_.
     bindE (require_state (field_text d ''purpose'' = ot_purpose ot) ''one_time_state_secret_purpose_mismatch'') (\<lambda>_.
     bindE (compare_digest (field_text d ''state_digest'') digest) (\<lambda>same.
     bindE (require_state same ''one_time_state_secret_digest_mismatch'') (\<lambda>_.
     bindE (compare_digest (field_text d ''state'') state) (\<lambda>same_state.
     bindE (require_state same_state ''one_time_state_secret_state_mismatch'') (\<lambda>_.
     bindE (case dget_or d ''payload'' PNone of PDict p \<Rightarrow> Inr p | _ \<Rightarrow> Inl (OneTimeStateError ''one_time_state_payload_invalid'')) (\<lambda>payload.
     bindE (expiry_of d ''one_time_state_secret_invalid'') (\<lambda>expires_at. Inr (payload, expires_at)))))))))"

definition read_secret :: "'h one_time_store \<Rightarrow> pystr \<Rightarrow> pystr \<Rightarrow> pystr \<Rightarrow> int \<Rightarrow> ('h world, pydict option) action" where
  "read_secret ot secret_ref raw_state digest moment =
     bindS (on_host (ss_get (ot_secrets ot) secret_ref)) (\<lambda>raw.
       case raw of None \<Rightarrow> retS None
       | Some v \<Rightarrow>
          bindS (liftS (json_mapping v ''one_time_state_secret_invalid'')) (\<lambda>d.
          bindS (liftS (validate_secret ot d raw_state digest)) (\<lambda>(payload, expires_at).
            retS (if expires_at \<le> moment then None else Some payload))))"

text \<open>\<open>try ... finally\<close> with a cleanup whose own failure is forgotten.\<close>

definition finally_delete :: "'h one_time_store \<Rightarrow> pystr \<Rightarrow> ('h world, 'a) action \<Rightarrow> ('h world, 'a) action" where
  "finally_delete ot secret_ref m = (\<lambda>w. case m w of (w', x) \<Rightarrow>
     (fst (best_effort (on_host (ss_delete (ot_secrets ot) secret_ref)) w'), x))"

definition state_pop :: "'h one_time_store \<Rightarrow> pystr \<Rightarrow> int option \<Rightarrow> ('h world, pydict option) action" where
  "state_pop ot state now =
     (let raw_state = py_strip state
      in if raw_state = [] then retS None
         else bindS (liftS (state_digest raw_state)) (\<lambda>digest.
              bindS (on_redis (pointer_claim (ot_prefix ot) digest)) (\<lambda>claimed.
                case claimed of None \<Rightarrow> retS None
                | Some c \<Rightarrow>
                   (case validate_pointer ot (cp_record c) digest of
                      Inl (OneTimeStateError _) \<Rightarrow> retS None
                    | Inl e \<Rightarrow> failS e
                    | Inr (secret_ref, expires_at) \<Rightarrow> finally_delete ot secret_ref (\<lambda>w.
                        let moment = world_moment now w
                        in if \<not> cp_belongs_to_current_run c \<or> expires_at \<le> moment then (w, Inr None)
                           else read_secret ot secret_ref raw_state digest moment w)))))"

end
