(* ===== verification/One_Time_Histories.thy ===== *)
theory One_Time_Histories
  imports One_Time_State
begin

text \<open>
  What the one-time states of \<open>connection_hub/one_time_state.py\<close> promise: a state is consumed by the first \<open>pop\<close>,
  also across restarts of Redis from an older snapshot, and a state that was put can be popped.
\<close>

section \<open>Histories\<close>

text \<open>
  What can happen: calls of stores that share the Redis, a snapshot being saved, a restart from a saved snapshot
  under a new run id, time passing, and anything the host does to its secrets.
\<close>

datatype 'h ot_event =
    Put "'h one_time_store" pystr pydict int "int option"
  | Pop "'h one_time_store" pystr "int option"
  | Save
  | Restart nat pystr
  | Wait nat
  | Host "'h \<Rightarrow> 'h"

text \<open>A Redis run id is forty hexadecimal digits.\<close>

definition run_id_ok :: "pystr \<Rightarrow> bool" where
  "run_id_ok s \<longleftrightarrow> length s = 40 \<and> (\<forall>c \<in> set s. is_lower_hex c)"

definition restart :: "nat \<Rightarrow> pystr \<Rightarrow> redis \<Rightarrow> redis" where
  "restart i rid r = (if i < length (rd_saved r) \<and> run_id_ok rid \<and> rid \<notin> set (rd_runs r)
     then r\<lparr>rd_keys := rd_saved r ! i, rd_run_id := rid, rd_runs := rid # rd_runs r\<rparr> else r)"

fun ot_step :: "'h ot_event \<Rightarrow> 'h world \<Rightarrow> 'h world" where
  "ot_step (Put ot state payload ttl now) w = fst (state_put ot state payload ttl now w)"
| "ot_step (Pop ot state now) w = fst (state_pop ot state now w)"
| "ot_step Save w = w\<lparr>w_redis := (w_redis w)\<lparr>rd_saved := rd_saved (w_redis w) @ [rd_keys (w_redis w)]\<rparr>\<rparr>"
| "ot_step (Restart i rid) w = w\<lparr>w_redis := restart i rid (w_redis w)\<rparr>"
| "ot_step (Wait n) w = w\<lparr>w_clock := w_clock w + int n, w_redis := (w_redis w)\<lparr>rd_time := rd_time (w_redis w) + int n\<rparr>\<rparr>"
| "ot_step (Host f) w = w\<lparr>w_host := f (w_host w)\<rparr>"

definition key_of :: "'h one_time_store \<Rightarrow> pystr \<Rightarrow> exn + pystr" where
  "key_of ot state = bindE (state_digest (py_strip state)) (pointer_key (ot_prefix ot))"

fun writes_key :: "pystr \<Rightarrow> 'h ot_event \<Rightarrow> bool" where
  "writes_key k (Put ot state _ _ _) \<longleftrightarrow> key_of ot state = Inr k"
| "writes_key k _ \<longleftrightarrow> False"

text \<open>The run a stored pointer records.\<close>

definition recorded_run :: "stored_file \<Rightarrow> pystr" where
  "recorded_run v = (case v of Json (PDict d) \<Rightarrow> py_strip (field_text d ''redis_run_id'') | _ \<Rightarrow> [])"

definition known_runs :: "redis \<Rightarrow> bool" where
  "known_runs r \<longleftrightarrow> run_id_ok (rd_run_id r) \<and> rd_run_id r \<in> set (rd_runs r)
     \<and> (\<forall>ks \<in> set (rd_keys r # rd_saved r). \<forall>(k, v, e) \<in> set ks. recorded_run v = [] \<or> recorded_run v \<in> set (rd_runs r))"

definition stale :: "pystr \<Rightarrow> redis \<Rightarrow> bool" where
  "stale k r \<longleftrightarrow> (\<forall>v e. (k, v, e) \<in> set (rd_keys r) \<longrightarrow> recorded_run v \<noteq> rd_run_id r)"

lemma run_id_plain: "run_id_ok s \<Longrightarrow> py_strip s = s \<and> join_surrogates s = s \<and> s \<noteq> []"
  by (auto simp: run_id_ok_def is_lower_hex_def is_digit_char_def is_space_def is_surrogate_def intro!: py_strip_no_space join_surrogates_id)

section \<open>What the calls do to Redis\<close>

text \<open>The keys, the run and the snapshots are left alone.\<close>

definition same_redis :: "redis \<Rightarrow> redis \<Rightarrow> bool" where
  "same_redis r r' \<longleftrightarrow> rd_keys r' = rd_keys r \<and> rd_run_id r' = rd_run_id r \<and> rd_saved r' = rd_saved r \<and> rd_runs r' = rd_runs r \<and> rd_time r' = rd_time r"

lemma same_redis_simps [simp]: "same_redis r r" "same_redis r (rd_tick r)"
  by (simp_all add: same_redis_def rd_tick_def)

lemma same_redis_trans: "same_redis r s \<Longrightarrow> same_redis s t \<Longrightarrow> same_redis r t"
  by (simp add: same_redis_def)

definition puts_pointer :: "pystr \<Rightarrow> redis \<Rightarrow> redis \<Rightarrow> bool" where
  "puts_pointer k r r' \<longleftrightarrow> (\<exists>v e. recorded_run v = rd_run_id r \<and> rd_keys r' = dict_set k (v, e) (rd_keys r) \<and> rd_run_id r' = rd_run_id r
     \<and> rd_saved r' = rd_saved r \<and> rd_runs r' = rd_runs r)"

definition takes_pointer :: "pystr \<Rightarrow> redis \<Rightarrow> redis \<Rightarrow> bool" where
  "takes_pointer k r r' \<longleftrightarrow> rd_keys r' = filter (\<lambda>e. fst e \<noteq> k) (rd_keys r) \<and> rd_run_id r' = rd_run_id r \<and> rd_saved r' = rd_saved r \<and> rd_runs r' = rd_runs r"

lemma redis_set_run: "redis_set k v ttl r = (r', x) \<Longrightarrow> same_redis r r' \<or> (\<exists>e. rd_keys r' = dict_set k (v, e) (rd_keys r) \<and> rd_run_id r' = rd_run_id r
     \<and> rd_saved r' = rd_saved r \<and> rd_runs r' = rd_runs r)"
  by (auto simp: redis_set_def rd_put_def rd_tick_def same_redis_def split: fault.splits)

lemma redis_take_run: "redis_take k r = (r', x) \<Longrightarrow> same_redis r r' \<and> (\<exists>e. x = Inl e) \<or> takes_pointer k r r' \<and> (\<forall>y. x = Inr y \<longrightarrow> y = (rd_run_id r, rd_get r k))"
  by (auto simp: redis_take_def rd_del_def rd_tick_def same_redis_def takes_pointer_def split: fault.splits)

lemma redis_info_run: "redis_info r = (r', x) \<Longrightarrow> same_redis r r' \<and> (\<forall>y. x = Inr y \<longrightarrow> y = rd_run_id r)"
  by (auto simp: redis_info_def split: if_splits)

lemma recorded_run_obj:
  assumes "run_id_ok rid" "distinct (map fst items)" "''redis_run_id'' \<notin> fst ` set items"
  shows "recorded_run (Json (reread (obj (items @ [(''redis_run_id'', PStr rid)])))) = rid"
proof -
  have "distinct (map fst (items @ [(''redis_run_id'', PStr rid)]))" using assms(2,3) by auto
  from reread_obj [OF this] obtain d where d: "reread (obj (items @ [(''redis_run_id'', PStr rid)])) = PDict d"
    "\<And>k. dget d k = map_option reread (map_of (items @ [(''redis_run_id'', PStr rid)]) k)" by blast
  have "map_of (items @ [(''redis_run_id'', PStr rid)]) ''redis_run_id'' = Some (PStr rid)"
    using assms(3) by (simp add: map_add_def map_of_eq_None_iff [THEN iffD2] split: option.splits)
  with d(2) [of "''redis_run_id''"] have "dget d ''redis_run_id'' = Some (PStr rid)" using run_id_plain [OF assms(1)] by simp
  with d(1) run_id_plain [OF assms(1)] show ?thesis by (simp add: recorded_run_def field_text_def dget_or_def str_or_empty_def)
qed

lemma pointer_put_run:
  assumes "pointer_put prefix digest items ttl r = (r', x)" "run_id_ok (rd_run_id r)" "distinct (map fst items)" "''redis_run_id'' \<notin> fst ` set items"
  shows "same_redis r r' \<or> (\<exists>k. pointer_key prefix digest = Inr k \<and> puts_pointer k r r')"
proof -
  obtain r1 y where i: "redis_info r = (r1, y)" by fastforce
  note s = redis_info_run [OF i]
  show ?thesis
  proof (cases y)
    case (Inl e)
    then have "r' = r1" using assms(1) i by (simp add: pointer_put_def pointer_run_id_def bindS_def)
    with s show ?thesis by simp
  next
    case (Inr raw)
    then have raw: "raw = rd_run_id r" using s by simp
    have v: "valid_run_id raw = Inr raw" using run_id_plain [OF assms(2)] by (simp add: raw valid_run_id_def require_state_def requireE_def)
    let ?v = "obj (items @ [(''redis_run_id'', PStr raw)])"
    show ?thesis
    proof (cases "is_ok (dumps True ?v) \<and> is_ok (pointer_key prefix digest)")
      case False
      then have "r' = r1" using assms(1) i Inr v
        by (cases "dumps True ?v"; cases "pointer_key prefix digest") (auto simp: pointer_put_def pointer_run_id_def bindS_def Let_def)
      with s show ?thesis by simp
    next
      case True
      then obtain t k where t: "dumps True ?v = Inr t" "pointer_key prefix digest = Inr k"
        by (cases "dumps True ?v"; cases "pointer_key prefix digest") auto
      have set: "redis_set k (Json (reread ?v)) ttl r1 = (r', x)"
        using assms(1) i Inr v t by (simp add: pointer_put_def pointer_run_id_def bindS_def Let_def)
      have rr: "recorded_run (Json (reread ?v)) = rd_run_id r" using recorded_run_obj [OF assms(2-4)] by (simp add: raw)
      from redis_set_run [OF set] show ?thesis
      proof
        assume "same_redis r1 r'"
        with s same_redis_trans show ?thesis by blast
      next
        assume "\<exists>e. rd_keys r' = dict_set k (Json (reread ?v), e) (rd_keys r1) \<and> rd_run_id r' = rd_run_id r1 \<and> rd_saved r' = rd_saved r1 \<and> rd_runs r' = rd_runs r1"
        then show ?thesis using rr s t(2) by (auto simp: puts_pointer_def same_redis_def) 
      qed
    qed
  qed
qed

lemma pointer_claim_run:
  assumes "pointer_claim prefix digest r = (r', x)"
  shows "same_redis r r' \<and> (\<exists>e. x = Inl e) \<or> (\<exists>k. pointer_key prefix digest = Inr k \<and> takes_pointer k r r'
    \<and> (\<forall>c. x = Inr (Some c) \<longrightarrow> (\<exists>v e. (k, v, e) \<in> set (rd_keys r)
        \<and> (cp_belongs_to_current_run c \<longrightarrow> recorded_run v = py_strip (rd_run_id r)))))"
proof (cases "pointer_key prefix digest")
  case (Inl e)
  then show ?thesis using assms by (auto simp: pointer_claim_def bindS_def)
next
  case (Inr k)
  obtain r1 y where t: "redis_take k r = (r1, y)" by fastforce
  note s = redis_take_run [OF t]
  have r1: "r' = r1" using assms Inr t
    by (auto simp: pointer_claim_def bindS_def Let_def split: sum.splits option.splits prod.splits)
  show ?thesis
  proof (cases y)
    case (Inl e)
    then show ?thesis using s r1 assms Inr t by (auto simp: pointer_claim_def bindS_def)
  next
    case (Inr z)
    then have z: "z = (rd_run_id r, rd_get r k)" and tk: "takes_pointer k r r'" using s r1 by auto
    have "\<exists>v e. (k, v, e) \<in> set (rd_keys r) \<and> (cp_belongs_to_current_run c \<longrightarrow> recorded_run v = py_strip (rd_run_id r))"
      if c: "x = Inr (Some c)" for c
    proof -
      from c assms \<open>pointer_key prefix digest = Inr k\<close> t Inr z obtain v d where v: "rd_get r k = Some v" "json_mapping v ''one_time_state_pointer_invalid'' = Inr d"
        "cp_belongs_to_current_run c \<longrightarrow> py_strip (field_text d ''redis_run_id'') = py_strip (rd_run_id r)"
        by (auto simp: pointer_claim_def bindS_eq_Inr Let_def valid_run_id_def require_state_def requireE_def compare_digest_def
            split: option.splits if_splits)
      have "recorded_run v = py_strip (field_text d ''redis_run_id'')"
        using v(2) by (auto simp: recorded_run_def json_mapping_def split: stored_file.splits pyval.splits)
      moreover obtain e where "(k, v, e) \<in> set (rd_keys r)"
        using v(1) by (auto simp: rd_get_def split: option.splits prod.splits if_splits dest!: map_of_SomeD)
      ultimately show ?thesis using v(3) by metis
    qed
    then show ?thesis using tk \<open>pointer_key prefix digest = Inr k\<close> by blast
  qed
qed

lemma on_host_redis [simp]: "w_redis (fst (on_host m w)) = w_redis w"
  by (simp add: on_host_def split: prod.splits)

lemma on_host_run: "on_host m w = (w', x) \<Longrightarrow> w_redis w' = w_redis w"
  using on_host_redis [of m w] by simp

lemma on_redis_run: "on_redis m w = (w', x) \<Longrightarrow> m (w_redis w) = (w_redis w', x)"
  by (auto simp: on_redis_def split: prod.splits)

lemma best_effort_redis [simp]: "w_redis (fst (best_effort (on_host m) w)) = w_redis w"
  by (simp add: best_effort_def)

lemma pointer_items_keys: "distinct (map fst (pointer_items ot dg ref m e))" "''redis_run_id'' \<notin> fst ` set (pointer_items ot dg ref m e)"
  by (simp_all add: pointer_items_def)

lemma publish_redis:
  assumes "publish_pointer ot dg ref (pointer_items ot dg' ref' m e) ttl w = (w', x)" "run_id_ok (rd_run_id (w_redis w))"
  shows "same_redis (w_redis w) (w_redis w') \<or> (\<exists>k. pointer_key (ot_prefix ot) dg = Inr k \<and> puts_pointer k (w_redis w) (w_redis w'))"
proof -
  obtain w1 y where p: "on_redis (pointer_put (ot_prefix ot) dg (pointer_items ot dg' ref' m e) ttl) w = (w1, y)" by fastforce
  have "w_redis w' = w_redis w1" using assms(1) p by (cases y) (auto simp: publish_pointer_def)
  with pointer_put_run [OF on_redis_run [OF p] assms(2) pointer_items_keys] show ?thesis by simp
qed

text \<open>\<open>put\<close> leaves Redis alone or sets the pointer of its own key, with the current run.\<close>

lemma state_put_redis:
  assumes "state_put ot state payload ttl now w = (w', x)" "run_id_ok (rd_run_id (w_redis w))"
  shows "same_redis (w_redis w) (w_redis w') \<or> (\<exists>k. key_of ot state = Inr k \<and> puts_pointer k (w_redis w) (w_redis w'))"
proof (cases "py_strip state \<noteq> [] \<and> (1 \<le> ttl \<and> ttl \<le> ot_max_ttl_seconds ot) \<and> is_ok (state_digest (py_strip state)) \<and> is_ok (json_copy payload)")
  case False
  then have "w_redis w' = w_redis w" using assms(1)
    by (cases "state_digest (py_strip state)"; cases "json_copy payload")
       (auto simp: state_put_def Let_def bindS_def require_state_def requireE_def next_ref_def split: if_splits)
  then show ?thesis by simp
next
  case True
  then obtain dg copy where d: "state_digest (py_strip state) = Inr dg" "json_copy payload = Inr copy"
    by (cases "state_digest (py_strip state)"; cases "json_copy payload") auto
  let ?m = "world_moment now w" and ?ref = "ot_uuid4_hex ot (w_refs w)"
  let ?secret = "obj (secret_items ot (py_strip state) dg copy ?m (?m + ttl))"
  obtain w1 where w1: "purge_expired_best_effort ot ?m (w\<lparr>w_refs := Suc (w_refs w)\<rparr>) = (w1, Inr ())" "w_redis w1 = w_redis w"
    by (simp add: purge_expired_best_effort_def best_effort_def)
  have run: "bindS (liftS (dumps True ?secret)) (\<lambda>_.
            bindS (on_host (ss_set (ot_secrets ot) ?ref (Json (reread ?secret)) (?m + ttl))) (\<lambda>_.
              publish_pointer ot dg ?ref (pointer_items ot dg ?ref ?m (?m + ttl)) ttl)) w1 = (w', x)"
    using assms(1) True d w1(1) by (simp add: state_put_def Let_def require_state_def requireE_def next_ref_def)
  obtain w2 y where s: "on_host (ss_set (ot_secrets ot) ?ref (Json (reread ?secret)) (?m + ttl)) w1 = (w2, y)" by fastforce
  have w2: "w_redis w2 = w_redis w" using on_host_run [OF s] w1(2) by simp
  show ?thesis
  proof (cases "is_ok (dumps True ?secret) \<and> is_ok y")
    case False
    then have "w_redis w' = w_redis w" using run s w1(2) w2 by (cases "dumps True ?secret"; cases y) (auto simp: bindS_def)
    then show ?thesis by simp
  next
    case True
    then have "publish_pointer ot dg ?ref (pointer_items ot dg ?ref ?m (?m + ttl)) ttl w2 = (w', x)"
      using run s by (cases "dumps True ?secret"; cases y) (auto simp: bindS_def)
    from publish_redis [OF this] assms(2) w2 d(1) show ?thesis by (auto simp: key_of_def)
  qed
qed

text \<open>\<open>pop\<close> leaves Redis alone and fails, or takes the pointer of its key.\<close>

lemma finally_delete_run: "finally_delete ot ref m w = (w', x) \<Longrightarrow> \<exists>w1. m w = (w1, x) \<and> w_redis w' = w_redis w1"
  by (auto simp: finally_delete_def split: prod.splits)

lemma read_secret_redis: "read_secret ot ref st dg m w = (w', x) \<Longrightarrow> w_redis w' = w_redis w"
proof -
  assume r: "read_secret ot ref st dg m w = (w', x)"
  obtain w1 y where s: "on_host (ss_get (ot_secrets ot) ref) w = (w1, y)" by fastforce
  then have "w' = w1" using r by (auto simp: read_secret_def bindS_def split: sum.splits option.splits prod.splits)
  with on_host_run [OF s] show ?thesis by simp
qed

lemma state_pop_redis:
  assumes "state_pop ot state now w = (w', x)" "py_strip state \<noteq> []"
  shows "same_redis (w_redis w) (w_redis w') \<and> (\<exists>e. x = Inl e) \<or> (\<exists>k. key_of ot state = Inr k \<and> takes_pointer k (w_redis w) (w_redis w')
    \<and> (\<forall>p. x = Inr (Some p) \<longrightarrow> (\<exists>v e. (k, v, e) \<in> set (rd_keys (w_redis w)) \<and> recorded_run v = py_strip (rd_run_id (w_redis w)))))"
proof (cases "state_digest (py_strip state)")
  case (Inl e)
  then show ?thesis using assms by (auto simp: state_pop_def bindS_def Let_def)
next
  case (Inr dg)
  obtain w1 y where c: "on_redis (pointer_claim (ot_prefix ot) dg) w = (w1, y)" by fastforce
  note run = pointer_claim_run [OF on_redis_run [OF c]]
  have k: "pointer_key (ot_prefix ot) dg = key_of ot state" using Inr by (simp add: key_of_def)
  show ?thesis
  proof (cases y)
    case (Inl e)
    then have "w' = w1" "x = Inl e" using assms c \<open>state_digest (py_strip state) = Inr dg\<close> by (auto simp: state_pop_def Let_def bindS_def)
    then show ?thesis using run k by auto
  next
    case (Inr oc)
    then have s: "(case oc of None \<Rightarrow> retS None
                | Some c \<Rightarrow>
                   (case validate_pointer ot (cp_record c) dg of
                      Inl (OneTimeStateError _) \<Rightarrow> retS None
                    | Inl e \<Rightarrow> failS e
                    | Inr (secret_ref, expires_at) \<Rightarrow> finally_delete ot secret_ref (\<lambda>w.
                        let moment = world_moment now w
                        in if \<not> cp_belongs_to_current_run c \<or> expires_at \<le> moment then (w, Inr None)
                           else read_secret ot secret_ref (py_strip state) dg moment w))) w1 = (w', x)"
      using assms c \<open>state_digest (py_strip state) = Inr dg\<close> by (simp add: state_pop_def Let_def bindS_def)
    have w: "w_redis w' = w_redis w1 \<and> (\<forall>p. x = Inr (Some p) \<longrightarrow> (\<exists>cc. oc = Some cc \<and> cp_belongs_to_current_run cc))"
    proof (cases oc)
      case (Some cc)
      show ?thesis
      proof (cases "validate_pointer ot (cp_record cc) dg")
        case (Inr z)
        obtain ref ex where z: "z = (ref, ex)" by fastforce
        from s Some Inr z obtain w2 where f: "(let moment = world_moment now w1
                        in if \<not> cp_belongs_to_current_run cc \<or> ex \<le> moment then (w1, Inr None)
                           else read_secret ot ref (py_strip state) dg moment w1) = (w2, x)" "w_redis w' = w_redis w2"
          by (auto dest!: finally_delete_run)
        then show ?thesis using Some read_secret_redis by (auto simp: Let_def split: if_splits)
      qed (use s Some in \<open>auto split: exn.splits\<close>)
    qed (use s in auto)
    show ?thesis using run k w Inr by auto
  qed
qed

section \<open>A state is popped at most once\<close>

lemma known_runs_change:
  "known_runs r \<Longrightarrow> same_redis r r' \<Longrightarrow> known_runs r'"
  "known_runs r \<Longrightarrow> takes_pointer k r r' \<Longrightarrow> known_runs r'"
  by (auto simp: known_runs_def same_redis_def takes_pointer_def)

lemma dict_set_mem: "(a, b) \<in> set (dict_set k v al) \<Longrightarrow> (a, b) = (k, v) \<or> (a, b) \<in> set al"
  by (induction al) (auto split: if_splits)

lemma dict_set_other: "(a, b) \<in> set (dict_set k v al) \<Longrightarrow> a \<noteq> k \<Longrightarrow> (a, b) \<in> set al"
  using dict_set_mem [of a b k v al] by auto

lemma known_runs_put: "known_runs r \<Longrightarrow> puts_pointer k r r' \<Longrightarrow> known_runs r'"
proof -
  assume r: "known_runs r" and p: "puts_pointer k r r'"
  from p obtain v e where v: "recorded_run v = rd_run_id r" "rd_keys r' = dict_set k (v, e) (rd_keys r)" "rd_run_id r' = rd_run_id r"
    "rd_saved r' = rd_saved r" "rd_runs r' = rd_runs r" by (auto simp: puts_pointer_def)
  have "recorded_run b = [] \<or> recorded_run b \<in> set (rd_runs r)" if "(a, b, c) \<in> set (rd_keys r')" for a b c
    using dict_set_mem [OF that [unfolded v(2)]] v(1) r by (auto simp: known_runs_def)
  with r v show ?thesis by (auto simp: known_runs_def)
qed

lemma stale_change:
  "stale k r \<Longrightarrow> same_redis r r' \<Longrightarrow> stale k r'"
  "stale k r \<Longrightarrow> takes_pointer k' r r' \<Longrightarrow> stale k r'"
  "stale k r \<Longrightarrow> puts_pointer k' r r' \<Longrightarrow> k' \<noteq> k \<Longrightarrow> stale k r'"
  "takes_pointer k r r' \<Longrightarrow> stale k r'"
  by (auto simp: stale_def same_redis_def takes_pointer_def puts_pointer_def) (metis dict_set_other)

lemma restart_ok:
  assumes "known_runs r"
  shows "known_runs (restart i rid r)" "stale k r \<Longrightarrow> stale k (restart i rid r)"
proof -
  have n: "run_id_ok rid \<Longrightarrow> rid \<noteq> []" using run_id_plain by blast
  have m: "i < length (rd_saved r) \<Longrightarrow> rd_saved r ! i \<in> set (rd_saved r)" by simp
  show "known_runs (restart i rid r)" "stale k r \<Longrightarrow> stale k (restart i rid r)"
    using assms n m by (fastforce simp: known_runs_def stale_def restart_def)+
qed

lemma ot_step_ok:
  assumes "known_runs (w_redis w)"
  shows "known_runs (w_redis (ot_step e w))" "stale k (w_redis w) \<Longrightarrow> \<not> writes_key k e \<Longrightarrow> stale k (w_redis (ot_step e w))"
proof -
  have rid: "run_id_ok (rd_run_id (w_redis w))" using assms by (simp add: known_runs_def)
  have "known_runs (w_redis (ot_step e w)) \<and> (stale k (w_redis w) \<longrightarrow> \<not> writes_key k e \<longrightarrow> stale k (w_redis (ot_step e w)))"
  proof (cases e)
    case (Put ot st pl ttl now)
    obtain w' x where p: "state_put ot st pl ttl now w = (w', x)" by fastforce
    from state_put_redis [OF p rid] show ?thesis using p Put assms
      by (auto intro: known_runs_change known_runs_put stale_change(1) stale_change(3))
  next
    case (Pop ot st now)
    obtain w' x where p: "state_pop ot st now w = (w', x)" by fastforce
    show ?thesis
    proof (cases "py_strip st = []")
      case True
      then show ?thesis using p Pop assms by (simp add: state_pop_def)
    next
      case False
      from state_pop_redis [OF p False] show ?thesis using p Pop assms
        by (auto intro: known_runs_change stale_change(1,2))
    qed
  next
    case Save
    then show ?thesis using assms by (auto simp: known_runs_def stale_def)
  next
    case (Restart i rid)
    then show ?thesis using restart_ok [OF assms] by simp
  qed (use assms in \<open>auto simp: known_runs_def stale_def\<close>)
  then show "known_runs (w_redis (ot_step e w))" "stale k (w_redis w) \<Longrightarrow> \<not> writes_key k e \<Longrightarrow> stale k (w_redis (ot_step e w))" by blast+
qed

lemma ot_history_ok:
  "known_runs (w_redis w) \<Longrightarrow> stale k (w_redis w) \<Longrightarrow> \<forall>e \<in> set es. \<not> writes_key k e \<Longrightarrow>
   known_runs (w_redis (fold ot_step es w)) \<and> stale k (w_redis (fold ot_step es w))"
  by (induction es arbitrary: w) (auto intro: ot_step_ok)

text \<open>
  C36. A one-time state is consumed by the first \<open>pop\<close> that returns. Afterwards no \<open>pop\<close> of that state yields a
  payload, whatever other states are put and popped, whatever the host does to its secrets, whichever Redis
  calls fail, and also when Redis restarts from a snapshot that still holds the pointer, until the
  same state is put again.
\<close>

theorem state_popped_once:
  assumes "known_runs (w_redis w)" "state_pop ot state now w = (w1, Inr y)" "py_strip state \<noteq> []" "key_of ot state = Inr k"
    "\<forall>e \<in> set es. \<not> writes_key k e" "state_pop ot' state' now' (fold ot_step es w1) = (w3, x)"
    "py_strip state' = py_strip state" "ot_prefix ot' = ot_prefix ot"
  shows "\<nexists>p. x = Inr (Some p)"
proof
  assume "\<exists>p. x = Inr (Some p)"
  then obtain p where x: "x = Inr (Some p)" by blast
  from state_pop_redis [OF assms(2,3)] have t: "takes_pointer k (w_redis w) (w_redis w1)" using assms(4) by auto
  have k1: "known_runs (w_redis w1)" "stale k (w_redis w1)" using known_runs_change(2) [OF assms(1) t] stale_change(4) [OF t] by auto
  let ?r = "w_redis (fold ot_step es w1)"
  have k2: "known_runs ?r" "stale k ?r" using ot_history_ok [OF k1 assms(5)] by auto
  have "py_strip state' \<noteq> []" "key_of ot' state' = Inr k" using assms(3,4,7,8) by (simp_all add: key_of_def)
  with state_pop_redis [OF assms(6)] x obtain v e where "(k, v, e) \<in> set (rd_keys ?r)" "recorded_run v = py_strip (rd_run_id ?r)" by auto
  moreover have "py_strip (rd_run_id ?r) = rd_run_id ?r" using k2(1) run_id_plain by (auto simp: known_runs_def)
  ultimately show False using k2(2) by (auto simp: stale_def)
qed

section \<open>A state that was put can be popped\<close>

definition redis_works :: "redis \<Rightarrow> bool" where
  "redis_works r \<longleftrightarrow> (\<forall>n \<ge> rd_ops r. rd_fault r n = No_Fault)"

text \<open>The custody a secret store promises: what was set is what a read gives.\<close>

definition keeps_secrets :: "'h secret_store \<Rightarrow> bool" where
  "keeps_secrets ss \<longleftrightarrow> (\<forall>ref v e h. \<exists>h'. ss_set ss ref v e h = (h', Inr ()) \<and> (\<exists>h''. ss_get ss ref h' = (h'', Inr (Some v))))"

definition store_ok :: "'h one_time_store \<Rightarrow> bool" where
  "store_ok ot \<longleftrightarrow> purpose_match (ot_purpose ot) \<and> keeps_secrets (ot_secrets ot)
     \<and> (\<forall>n. ot_uuid4_hex ot n \<noteq> [] \<and> (\<forall>c \<in> set (ot_uuid4_hex ot n). is_lower_hex c))"

lemma lower_hex_plain: "\<forall>c \<in> set s. is_lower_hex c \<Longrightarrow> py_strip s = s \<and> join_surrogates s = s"
  by (auto simp: is_lower_hex_def is_digit_char_def is_space_def is_surrogate_def intro!: py_strip_no_space join_surrogates_id)

lemma purpose_plain: "purpose_match s \<Longrightarrow> join_surrogates s = s"
  by (rule join_surrogates_id) (auto simp: purpose_match_def is_surrogate_def is_digit_char_def)

lemma state_digest_ok: "state_digest s = Inr d \<Longrightarrow> is_digest d"
  by (auto simp: state_digest_def)

lemma digest_field: "is_digest d \<Longrightarrow> join_surrogates d = d \<and> (\<forall>c \<in> set d. c < 128) \<and> py_lower (py_strip d) = d \<and> d \<noteq> []"
  using digest_strip [of d] digest_lower [of d] lower_hex_plain [of d]
  by (auto simp: is_digest_def is_lower_hex_def is_digit_char_def)

lemma encodable_plain: "encodable s \<Longrightarrow> join_surrogates s = s"
  by (rule join_surrogates_id) (auto simp: encodable_def)

lemma field_text_read: "dget d k = Some (reread (PStr s)) \<Longrightarrow> join_surrogates s = s \<Longrightarrow> field_text d k = s"
  by (simp add: field_text_def dget_or_def str_or_empty_def)

lemma schemas_plain: "join_surrogates ONE_TIME_POINTER_SCHEMA = ONE_TIME_POINTER_SCHEMA" "join_surrogates ONE_TIME_SECRET_SCHEMA = ONE_TIME_SECRET_SCHEMA"
  by (simp_all add: ONE_TIME_POINTER_SCHEMA_def ONE_TIME_SECRET_SCHEMA_def)

lemma pointer_valid:
  assumes "store_ok ot" "is_digest dg" "ref \<noteq> []" "\<forall>c \<in> set ref. is_lower_hex c"
    "\<And>k. dget d k = map_option reread (map_of (pointer_items ot dg ref m e @ [(''redis_run_id'', PStr rid)]) k)"
  shows "validate_pointer ot d dg = Inr (ref, e)"
proof -
  have p: "join_surrogates (ot_purpose ot) = ot_purpose ot" using assms(1) purpose_plain by (simp add: store_ok_def)
  have "field_text d ''schema'' = ONE_TIME_POINTER_SCHEMA" "field_text d ''purpose'' = ot_purpose ot" "field_text d ''state_digest'' = dg"
    "field_text d ''secret_ref'' = ref"
    using assms(5) p schemas_plain digest_field [OF assms(2)] lower_hex_plain [OF assms(4)]
    by (simp_all add: field_text_read pointer_items_def)
  moreover have "dget_or d ''expires_at'' PNone = PInt e" using assms(5) by (simp add: dget_or_def pointer_items_def)
  ultimately show ?thesis using digest_field [OF assms(2)] lower_hex_plain [OF assms(4)] assms(3)
    by (simp add: validate_pointer_def require_state_def requireE_def compare_digest_def expiry_of_def)
qed

lemma secret_valid:
  assumes "store_ok ot" "is_digest dg" "join_surrogates st = st" "copy = PDict c"
    "\<And>k. dget d k = map_option reread (map_of (secret_items ot st dg copy m e) k)" "reread copy = PDict c'"
  shows "validate_secret ot d st dg = (if \<forall>x \<in> set st. x < 128 then Inr (c', e) else Inl TypeError)"
proof -
  have p: "join_surrogates (ot_purpose ot) = ot_purpose ot" using assms(1) purpose_plain by (simp add: store_ok_def)
  have "field_text d ''schema'' = ONE_TIME_SECRET_SCHEMA" "field_text d ''purpose'' = ot_purpose ot" "field_text d ''state_digest'' = dg"
    "field_text d ''state'' = st"
    using assms(3,5) p schemas_plain digest_field [OF assms(2)] by (simp_all add: field_text_read secret_items_def)
  moreover have "dget_or d ''expires_at'' PNone = PInt e" "dget_or d ''payload'' PNone = PDict c'" using assms(5,6) by (simp_all add: dget_or_def secret_items_def)
  ultimately show ?thesis using digest_field [OF assms(2)]
    by (simp add: validate_secret_def require_state_def requireE_def compare_digest_def expiry_of_def)
qed

lemma rd_get_saved: "rd_get (r\<lparr>rd_saved := x\<rparr>) k = rd_get r k"
  by (simp add: rd_get_def cong: option.case_cong prod.case_cong)

lemma redis_works_next: "redis_works r \<Longrightarrow> rd_next r = No_Fault" "redis_works r \<Longrightarrow> redis_works (rd_tick r)"
  by (simp_all add: redis_works_def rd_next_def rd_tick_def)

lemma json_copy_ok:
  assumes "is_ok (dumps True (PDict payload))"
  obtains c where "json_copy payload = Inr (PDict c)" "reread (PDict payload) = PDict c" "is_ok (dumps True (PDict c))"
proof -
  obtain t where t: "dumps True (PDict payload) = Inr t" using assms by (auto simp: is_ok_iff)
  obtain c where "reread (PDict payload) = PDict c" by simp
  with t that dumps_reread(1) [OF assms] show thesis by (simp add: json_copy_def del: dumps.simps reread.simps)
qed

lemma pointer_put_works:
  assumes "redis_works r" "run_id_ok (rd_run_id r)" "pointer_key prefix dg = Inr k" "distinct (map fst items)" "''redis_run_id'' \<notin> fst ` set items"
    "\<forall>(x, v) \<in> set items. is_ok (dumps True v)"
  shows "\<exists>r' d. pointer_put prefix dg items ttl r = (r', Inr ()) \<and> redis_works r' \<and> rd_time r' = rd_time r \<and> rd_run_id r' = rd_run_id r
    \<and> map_of (rd_keys r') k = Some (Json (PDict d), rd_time r + ttl)
    \<and> (\<forall>x. dget d x = map_option reread (map_of (items @ [(''redis_run_id'', PStr (rd_run_id r))]) x))"
proof -
  let ?items = "items @ [(''redis_run_id'', PStr (rd_run_id r))]"
  have "distinct (map fst ?items)" using assms(4,5) by auto
  from reread_obj [OF this] obtain d where d: "reread (obj ?items) = PDict d" "\<And>x. dget d x = map_option reread (map_of ?items x)" by blast
  have "is_ok (dumps True (obj ?items))" by (rule dumps_obj_ok) (use assms(6) in auto)
  then obtain t where t: "dumps True (obj ?items) = Inr t" by (auto simp: is_ok_iff)
  have v: "valid_run_id (rd_run_id r) = Inr (rd_run_id r)" using run_id_plain [OF assms(2)] by (simp add: valid_run_id_def require_state_def requireE_def)
  note n = redis_works_next(1) [OF assms(1)] redis_works_next(1) [OF redis_works_next(2) [OF assms(1)]]
  have "pointer_put prefix dg items ttl r = (rd_put k (Json (PDict d)) ttl (rd_tick (rd_tick r)), Inr ())"
    using n v t d(1) assms(3) by (simp add: pointer_put_def pointer_run_id_def redis_info_def bindS_def Let_def redis_set_def)
  moreover have "redis_works (rd_put k (Json (PDict d)) ttl (rd_tick (rd_tick r)))"
    using assms(1) by (simp add: redis_works_def rd_put_def rd_tick_def)
  ultimately show ?thesis using d(2) by (simp add: rd_put_def rd_tick_def)
qed

lemma state_put_works:
  assumes "store_ok ot" "redis_works (w_redis w)" "run_id_ok (rd_run_id (w_redis w))" "py_strip state \<noteq> []" "encodable (py_strip state)"
    "1 \<le> ttl" "ttl \<le> ot_max_ttl_seconds ot" "is_ok (dumps True (PDict payload))"
  shows "\<exists>w1 dg k c dp ds h'. state_put ot state payload ttl now w = (w1, Inr ()) \<and> state_digest (py_strip state) = Inr dg
    \<and> pointer_key (ot_prefix ot) dg = Inr k \<and> reread (PDict payload) = PDict c
    \<and> redis_works (w_redis w1) \<and> run_id_ok (rd_run_id (w_redis w1)) \<and> rd_get (w_redis w1) k = Some (Json (PDict dp)) \<and> w_clock w1 = w_clock w
    \<and> (\<forall>x. dget dp x = map_option reread (map_of (pointer_items ot dg (ot_uuid4_hex ot (w_refs w)) (world_moment now w) (world_moment now w + ttl)
         @ [(''redis_run_id'', PStr (rd_run_id (w_redis w1)))]) x))
    \<and> ss_get (ot_secrets ot) (ot_uuid4_hex ot (w_refs w)) (w_host w1) = (h', Inr (Some (Json (PDict ds))))
    \<and> (\<forall>x. dget ds x = map_option reread (map_of (secret_items ot (py_strip state) dg (PDict c) (world_moment now w) (world_moment now w + ttl)) x))"
proof -
  let ?m = "world_moment now w" and ?ref = "ot_uuid4_hex ot (w_refs w)" and ?st = "py_strip state"
  obtain dg where dg: "state_digest ?st = Inr dg" using assms(5) by (simp add: state_digest_def utf8_encode_def)
  note ok = digest_field [OF state_digest_ok [OF dg]]
  have pk: "pointer_key (ot_prefix ot) dg = Inr (ot_prefix ot @ 58 # dg)"
    using ok state_digest_ok [OF dg] by (simp add: pointer_key_def require_state_def requireE_def Let_def)
  obtain c where c: "json_copy payload = Inr (PDict c)" "reread (PDict payload) = PDict c" "is_ok (dumps True (PDict c))"
    by (rule json_copy_ok [OF assms(8)])
  let ?si = "secret_items ot ?st dg (PDict c) ?m (?m + ttl)"
  have "distinct (map fst ?si)" by (simp add: secret_items_def)
  from reread_obj [OF this] obtain ds where ds: "reread (obj ?si) = PDict ds" "\<And>x. dget ds x = map_option reread (map_of ?si x)" by blast
  have "is_ok (dumps True (obj ?si))" by (rule dumps_obj_ok) (use c(3) in \<open>auto simp: secret_items_def\<close>)
  then obtain t where t: "dumps True (obj ?si) = Inr t" by (auto simp: is_ok_iff)
  obtain wp where wp: "purge_expired_best_effort ot ?m (w\<lparr>w_refs := Suc (w_refs w)\<rparr>) = (wp, Inr ())" "w_redis wp = w_redis w" "w_clock wp = w_clock w"
    by (simp add: purge_expired_best_effort_def best_effort_def on_host_def split: prod.splits)
  obtain h1 h2 where h: "ss_set (ot_secrets ot) ?ref (Json (PDict ds)) (?m + ttl) (w_host wp) = (h1, Inr ())"
    "ss_get (ot_secrets ot) ?ref h1 = (h2, Inr (Some (Json (PDict ds))))"
    using assms(1) unfolding store_ok_def keeps_secrets_def by metis
  let ?pi = "pointer_items ot dg ?ref ?m (?m + ttl)"
  have "\<forall>(x, v) \<in> set ?pi. is_ok (dumps True v)" by (auto simp: pointer_items_def)
  from pointer_put_works [OF assms(2,3) pk pointer_items_keys this, of ttl] obtain r' dp where
    r: "pointer_put (ot_prefix ot) dg ?pi ttl (w_redis w) = (r', Inr ())" "redis_works r'" "rd_time r' = rd_time (w_redis w)"
    "rd_run_id r' = rd_run_id (w_redis w)" "map_of (rd_keys r') (ot_prefix ot @ 58 # dg) = Some (Json (PDict dp), rd_time (w_redis w) + ttl)"
    "\<forall>x. dget dp x = map_option reread (map_of (?pi @ [(''redis_run_id'', PStr (rd_run_id (w_redis w)))]) x)" by blast
  let ?w1 = "wp\<lparr>w_host := h1, w_redis := r'\<rparr>"
  have run: "state_put ot state payload ttl now w = (?w1, Inr ())"
    using assms(4,6,7) dg c(1) t wp(1,2) h(1) ds(1) r(1)
    by (simp add: state_put_def Let_def require_state_def requireE_def next_ref_def on_host_def publish_pointer_def on_redis_def)
  have "rd_get r' (ot_prefix ot @ 58 # dg) = Some (Json (PDict dp))" using r(3,5) assms(6) by (simp add: rd_get_def)
  moreover have "ss_get (ot_secrets ot) ?ref (w_host ?w1) = (h2, Inr (Some (Json (PDict ds))))" using h(2) by simp
  ultimately show ?thesis using run dg pk c(2) r(2,4,6) ds(2) wp(3) assms(3)
    by (intro exI [of _ ?w1] exI [of _ dg] exI [of _ "ot_prefix ot @ 58 # dg"] exI [of _ c] exI [of _ dp] exI [of _ ds] exI [of _ h2]) simp
qed

lemma pop_after_put:
  assumes "store_ok ot" "state_digest (py_strip state) = Inr dg" "pointer_key (ot_prefix ot) dg = Inr k" "py_strip state \<noteq> []"
    "encodable (py_strip state)" "redis_works (w_redis w)" "run_id_ok (rd_run_id (w_redis w))" "rd_get (w_redis w) k = Some (Json (PDict dp))"
    "\<forall>x. dget dp x = map_option reread (map_of (pointer_items ot dg (ot_uuid4_hex ot n) m e @ [(''redis_run_id'', PStr (rd_run_id (w_redis w)))]) x)"
    "ss_get (ot_secrets ot) (ot_uuid4_hex ot n) (w_host w) = (h', Inr (Some (Json (PDict ds))))"
    "\<forall>x. dget ds x = map_option reread (map_of (secret_items ot (py_strip state) dg (PDict c) m e) x)" "world_moment now w < e"
    "reread (PDict c) = PDict c'"
  shows "\<exists>w2. state_pop ot state now w = (w2, if \<forall>x \<in> set (py_strip state). x < 128 then Inr (Some c') else Inl TypeError)"
proof -
  note rid = run_id_plain [OF assms(7)]
  have v: "valid_run_id (rd_run_id (w_redis w)) = Inr (rd_run_id (w_redis w))" using rid by (simp add: valid_run_id_def require_state_def requireE_def)
  have ref: "ot_uuid4_hex ot n \<noteq> []" "\<forall>x \<in> set (ot_uuid4_hex ot n). is_lower_hex x" using assms(1) by (auto simp: store_ok_def)
  note vp = pointer_valid [OF assms(1) state_digest_ok [OF assms(2)] ref, OF assms(9) [rule_format]]
  note vs = secret_valid [OF assms(1) state_digest_ok [OF assms(2)] encodable_plain [OF assms(5)] refl assms(11) [rule_format] assms(13)]
  have "field_text dp ''redis_run_id'' = rd_run_id (w_redis w)"
    using assms(9) rid by (simp add: field_text_read pointer_items_def)
  moreover have "\<forall>x \<in> set (rd_run_id (w_redis w)). x < 128" using assms(7) by (auto simp: run_id_ok_def is_lower_hex_def is_digit_char_def)
  ultimately have cl: "pointer_claim (ot_prefix ot) dg (w_redis w) = (rd_del k (rd_tick (w_redis w)),
      Inr (Some \<lparr>cp_record = dp, cp_current_run_id = rd_run_id (w_redis w), cp_belongs_to_current_run = True\<rparr>))"
    using assms(3,8) v rid redis_works_next(1) [OF assms(6)]
    by (simp add: pointer_claim_def redis_take_def json_mapping_def compare_digest_def Let_def bindS_def)
  have rs: "read_secret ot (ot_uuid4_hex ot n) (py_strip state) dg (world_moment now w) (w\<lparr>w_redis := r\<rparr>)
      = (w\<lparr>w_redis := r, w_host := h'\<rparr>, if \<forall>x \<in> set (py_strip state). x < 128 then Inr (Some c') else Inl TypeError)" for r
    using assms(10,12) vs by (simp add: read_secret_def on_host_def bindS_def json_mapping_def)
  have wm: "world_moment now (w\<lparr>w_redis := r\<rparr>) = world_moment now w" for r by (simp add: world_moment_def split: option.splits)
  show ?thesis using assms(2,4,12) cl vp rs wm by (simp add: state_pop_def Let_def bindS_def on_redis_def finally_delete_def)
qed

lemma put_pop_runs:
  assumes "store_ok ot" "redis_works (w_redis w)" "run_id_ok (rd_run_id (w_redis w))" "py_strip state \<noteq> []" "\<forall>c \<in> set state. c < 128"
    "1 \<le> ttl" "ttl \<le> ot_max_ttl_seconds ot" "is_ok (dumps True (PDict payload))"
    "case now' of None \<Rightarrow> w_clock w < world_moment now w + ttl | Some n \<Rightarrow> n < world_moment now w + ttl"
  shows "\<exists>w1 w2 p. state_put ot state payload ttl now w = (w1, Inr ()) \<and> state_pop ot state now' w1 = (w2, Inr (Some p))
    \<and> PDict p = reread (reread (PDict payload))"
proof -
  have as: "\<forall>c \<in> set (py_strip state). c < 128" using assms(5) set_py_strip by blast
  then have enc: "encodable (py_strip state)" by (rule encodable_ascii)
  from state_put_works [OF assms(1-4) enc assms(6-8), of now] obtain w1 dg k c dp ds h' where
    p: "state_put ot state payload ttl now w = (w1, Inr ())" "state_digest (py_strip state) = Inr dg" "pointer_key (ot_prefix ot) dg = Inr k"
    "reread (PDict payload) = PDict c" "redis_works (w_redis w1)" "run_id_ok (rd_run_id (w_redis w1))" "rd_get (w_redis w1) k = Some (Json (PDict dp))"
    "w_clock w1 = w_clock w"
    "\<forall>x. dget dp x = map_option reread (map_of (pointer_items ot dg (ot_uuid4_hex ot (w_refs w)) (world_moment now w) (world_moment now w + ttl)
         @ [(''redis_run_id'', PStr (rd_run_id (w_redis w1)))]) x)"
    "ss_get (ot_secrets ot) (ot_uuid4_hex ot (w_refs w)) (w_host w1) = (h', Inr (Some (Json (PDict ds))))"
    "\<forall>x. dget ds x = map_option reread (map_of (secret_items ot (py_strip state) dg (PDict c) (world_moment now w) (world_moment now w + ttl)) x)"
    by blast
  obtain c' where c': "reread (PDict c) = PDict c'" by simp
  have "world_moment now' w1 < world_moment now w + ttl" using assms(9) p(8) by (cases now') (simp_all add: world_moment_def)
  from pop_after_put [OF assms(1) p(2,3) assms(4) enc p(5-7,9-11) this c'] as p(1,4) c' show ?thesis by auto
qed


text \<open>A secret store and a world to run the store in.\<close>

definition sample_secrets :: "(pystr \<rightharpoonup> stored_file) secret_store" where
  "sample_secrets = \<lparr>ss_set = (\<lambda>ref v _ h. (h(ref \<mapsto> v), Inr ())), ss_get = (\<lambda>ref h. (h, Inr (h ref))),
     ss_delete = (\<lambda>ref h. (h(ref := None), Inr ())), ss_purge_expired = (\<lambda>_ _ h. (h, Inr 0))\<rparr>"

definition sample_store :: "(pystr \<rightharpoonup> stored_file) one_time_store" where
  "sample_store = \<lparr>ot_prefix = lit ''ch'', ot_secrets = sample_secrets, ot_purpose = lit ''oauth'', ot_max_ttl_seconds = 3600,
     ot_uuid4_hex = (\<lambda>_. lit ''ab'')\<rparr>"

definition sample_run_id :: "nat \<Rightarrow> pystr" where "sample_run_id c = replicate 40 (48 + c)"

definition sample_world :: "(pystr \<rightharpoonup> stored_file) world" where
  "sample_world = \<lparr>w_redis = \<lparr>rd_run_id = sample_run_id 0, rd_keys = [], rd_time = 0, rd_fault = (\<lambda>_. No_Fault), rd_ops = 0, rd_saved = [],
     rd_runs = [sample_run_id 0]\<rparr>, w_host = (\<lambda>_. None), w_clock = 100, w_refs = 0\<rparr>"

definition sample_payload :: pydict where "sample_payload = [(PStr (lit ''n''), PInt 1)]"

lemma sample_store_ok: "store_ok sample_store" "redis_works (w_redis sample_world)" "run_id_ok (rd_run_id (w_redis sample_world))"
  "known_runs (w_redis sample_world)" "is_ok (dumps True (PDict sample_payload))"
  by (auto simp: store_ok_def sample_store_def keeps_secrets_def sample_secrets_def purpose_match_def lit_def is_digit_char_def is_lower_hex_def
      sample_world_def redis_works_def sample_run_id_def run_id_ok_def known_runs_def sample_payload_def sort_entries_def)

lemma sample_state: "py_strip (lit ''s'') = lit ''s''" "lit ''s'' \<noteq> []" "\<forall>c \<in> set (lit ''s''). c < 128"
  by (auto simp: lit_def py_strip_def py_lstrip_def is_space_def)


theorem state_popped_once_witness:
  "\<exists>w1 w2 p w3 x. state_put sample_store (lit ''s'') sample_payload 60 None sample_world = (w1, Inr ())
     \<and> state_pop sample_store (lit ''s'') None (ot_step Save w1) = (w2, Inr (Some p))
     \<and> state_pop sample_store (lit ''s'') None (fold ot_step [Restart 0 (sample_run_id 1)] w2) = (w3, x) \<and> (\<nexists>q. x = Inr (Some q))"
proof -
  let ?ot = sample_store and ?s = "lit ''s''"
  have st: "py_strip ?s \<noteq> []" "encodable (py_strip ?s)" using sample_state by (auto intro: encodable_ascii)
  have ttl: "60 \<le> ot_max_ttl_seconds ?ot" by (simp add: sample_store_def)
  from state_put_works [OF sample_store_ok(1-3) st _ ttl sample_store_ok(5), of None] obtain w1 dg k c dp ds h' where
    p: "state_put ?ot ?s sample_payload 60 None sample_world = (w1, Inr ())" "state_digest (py_strip ?s) = Inr dg" "pointer_key (ot_prefix ?ot) dg = Inr k"
    "redis_works (w_redis w1)" "run_id_ok (rd_run_id (w_redis w1))" "rd_get (w_redis w1) k = Some (Json (PDict dp))"
    "w_clock w1 = w_clock sample_world"
    "\<forall>x. dget dp x = map_option reread (map_of (pointer_items ?ot dg (ot_uuid4_hex ?ot (w_refs sample_world)) (world_moment None sample_world)
        (world_moment None sample_world + 60) @ [(''redis_run_id'', PStr (rd_run_id (w_redis w1)))]) x)"
    "ss_get (ot_secrets ?ot) (ot_uuid4_hex ?ot (w_refs sample_world)) (w_host w1) = (h', Inr (Some (Json (PDict ds))))"
    "\<forall>x. dget ds x = map_option reread (map_of (secret_items ?ot (py_strip ?s) dg (PDict c) (world_moment None sample_world) (world_moment None sample_world + 60)) x)"
    by (metis one_le_numeral)
  obtain c' where c': "reread (PDict c) = PDict c'" by simp
  let ?w = "ot_step Save w1"
  have w: "redis_works (w_redis ?w)" "run_id_ok (rd_run_id (w_redis ?w))" "rd_get (w_redis ?w) k = Some (Json (PDict dp))"
    "world_moment None ?w < world_moment None sample_world + 60" "rd_run_id (w_redis ?w) = rd_run_id (w_redis w1)" "w_host ?w = w_host w1"
    using p(4-7) by (simp_all add: redis_works_def world_moment_def rd_get_saved)
  have kr: "known_runs (w_redis ?w)"
    using ot_step_ok(1) [OF ot_step_ok(1) [OF sample_store_ok(4)], of Save "Put ?ot ?s sample_payload 60 None"] p(1) by simp
  from pop_after_put [OF sample_store_ok(1) p(2,3) st w(1-3), unfolded w(5,6), OF p(8-10) w(4) c'] obtain w2 where
    pop: "state_pop ?ot ?s None ?w = (w2, Inr (Some c'))" using sample_state by auto
  obtain w3 x where x: "state_pop ?ot ?s None (fold ot_step [Restart 0 (sample_run_id 1)] w2) = (w3, x)" by fastforce
  have "key_of ?ot ?s = Inr k" using p(2,3) by (simp add: key_of_def)
  from state_popped_once [OF kr pop st(1) this _ x] p(1) pop x show ?thesis by fastforce
qed

section \<open>States beyond ASCII\<close>

text \<open>
  A state with a character beyond ASCII can be put but never popped: \<open>put\<close> accepts it, and \<open>pop\<close> consumes the
  pointer and then raises the \<open>TypeError\<close> of \<open>hmac.compare_digest\<close>.
\<close>

lemma non_ascii_state_is_lost:
  assumes "store_ok ot" "redis_works (w_redis w)" "run_id_ok (rd_run_id (w_redis w))" "py_strip state \<noteq> []" "encodable (py_strip state)"
    "\<exists>c \<in> set (py_strip state). 128 \<le> c" "1 \<le> ttl" "ttl \<le> ot_max_ttl_seconds ot" "is_ok (dumps True (PDict payload))"
  shows "\<exists>w1 w2. state_put ot state payload ttl (Some now) w = (w1, Inr ()) \<and> state_pop ot state (Some now) w1 = (w2, Inl TypeError)"
proof -
  from state_put_works [OF assms(1-5,7-9), of "Some now"] obtain w1 dg k c dp ds h' where
    p: "state_put ot state payload ttl (Some now) w = (w1, Inr ())" "state_digest (py_strip state) = Inr dg" "pointer_key (ot_prefix ot) dg = Inr k"
    "redis_works (w_redis w1)" "run_id_ok (rd_run_id (w_redis w1))" "rd_get (w_redis w1) k = Some (Json (PDict dp))"
    "\<forall>x. dget dp x = map_option reread (map_of (pointer_items ot dg (ot_uuid4_hex ot (w_refs w)) (world_moment (Some now) w) (world_moment (Some now) w + ttl)
         @ [(''redis_run_id'', PStr (rd_run_id (w_redis w1)))]) x)"
    "ss_get (ot_secrets ot) (ot_uuid4_hex ot (w_refs w)) (w_host w1) = (h', Inr (Some (Json (PDict ds))))"
    "\<forall>x. dget ds x = map_option reread (map_of (secret_items ot (py_strip state) dg (PDict c) (world_moment (Some now) w) (world_moment (Some now) w + ttl)) x)"
    by blast
  obtain c' where c': "reread (PDict c) = PDict c'" by simp
  have "world_moment (Some now) w1 < world_moment (Some now) w + ttl" using assms(7) by (simp add: world_moment_def)
  from pop_after_put [OF assms(1) p(2,3) assms(4,5) p(4-9) this c'] assms(6) p(1) show ?thesis by (auto simp: not_less)
qed

end
