(* ===== verification/Host_Relay.thy ===== *)
theory Host_Relay
  imports Py_Text Complex_Main
begin

text \<open>
  \<open>service_foundation/host_relay\<close>: the runtime that polls one adapter, its retry policy and health, and the
  discovery of adapters.

  Floats are exact real numbers up to the largest finite double: a power beyond it raises
  \<open>OverflowError\<close>, a product beyond it is infinite and thus above every bound it is compared with. The
  adapter, the observer, the clock, the waiting and the stop event are parameters over a world they change.
\<close>

section \<open>Policy\<close>

record relay_policy =
  hp_poll_interval_seconds :: real
  hp_retry_initial_seconds :: real
  hp_retry_max_seconds :: real
  hp_retry_multiplier :: real

definition mk_relay_policy :: "real \<Rightarrow> real \<Rightarrow> real \<Rightarrow> real \<Rightarrow> exn + relay_policy" where
  "mk_relay_policy poll initial most multiplier =
     bindE (requireE (0 < poll) (ValueError ''poll_interval_seconds must be greater than zero'')) (\<lambda>_.
     bindE (requireE (0 < initial) (ValueError ''retry_initial_seconds must be greater than zero'')) (\<lambda>_.
     bindE (requireE (initial \<le> most) (ValueError ''retry_max_seconds must be at least retry_initial_seconds'')) (\<lambda>_.
     bindE (requireE (1 \<le> multiplier) (ValueError ''retry_multiplier must be at least one'')) (\<lambda>_.
       Inr \<lparr>hp_poll_interval_seconds = poll, hp_retry_initial_seconds = initial, hp_retry_max_seconds = most,
            hp_retry_multiplier = multiplier\<rparr>))))"

text \<open>The policy of a runtime that is given none.\<close>

definition default_relay_policy :: relay_policy where
  "default_relay_policy = \<lparr>hp_poll_interval_seconds = 60, hp_retry_initial_seconds = 1, hp_retry_max_seconds = 60,
     hp_retry_multiplier = 2\<rparr>"

text \<open>From here on a number is no finite double.\<close>

definition FLOAT_LIMIT :: real where "FLOAT_LIMIT = 2 ^ 1024 - 2 ^ 970"

definition float_pow :: "real \<Rightarrow> nat \<Rightarrow> exn + real" where
  "float_pow x n = (if x ^ n < FLOAT_LIMIT then Inr (x ^ n) else Inl OverflowError)"

definition retry_delay :: "relay_policy \<Rightarrow> int \<Rightarrow> exn + real" where
  "retry_delay p consecutive_failures =
     (let exponent = nat (consecutive_failures - 1)
      in bindE (float_pow (hp_retry_multiplier p) exponent) (\<lambda>m.
           Inr (min (hp_retry_max_seconds p) (hp_retry_initial_seconds p * m))))"

section \<open>Runtime\<close>

datatype relay_phase = Idle | Starting | Running | Ready | Degraded | Failed | Stopped

record relay_event =
  he_kind :: string
  he_adapter_id :: pystr
  he_cycle :: int
  he_timestamp :: real
  he_details :: pydict

text \<open>The adapter and the other collaborators; \<open>rc_float\<close> is the number a float's text denotes.\<close>

record 'w relay_config =
  rc_adapter_id :: pystr
  rc_poll_once :: "('w, pydict) action"
  rc_wait_for_wakeup :: "(real \<Rightarrow> ('w, bool) action) option"
  rc_pause :: "real \<Rightarrow> ('w, unit) action"
  rc_stop_event :: "('w \<Rightarrow> bool) option"
  rc_policy :: relay_policy
  rc_observer :: "(relay_event \<Rightarrow> ('w, unit) action) option"
  rc_clock :: "'w \<Rightarrow> real"
  rc_float :: "pystr \<Rightarrow> real"

record 'w relay =
  hr_world :: 'w
  hr_cycles_started :: int
  hr_cycles_succeeded :: int
  hr_consecutive_failures :: int
  hr_last_started_at :: "real option"
  hr_last_succeeded_at :: "real option"
  hr_last_error_code :: pystr
  hr_state :: relay_phase

record relay_health =
  hh_adapter_id :: pystr
  hh_state :: relay_phase
  hh_cycles_started :: int
  hh_cycles_succeeded :: int
  hh_consecutive_failures :: int
  hh_last_started_at :: "real option"
  hh_last_succeeded_at :: "real option"
  hh_last_error_code :: pystr

definition relay_health_of :: "'w relay_config \<Rightarrow> 'w relay \<Rightarrow> relay_health" where
  "relay_health_of c r = \<lparr>hh_adapter_id = rc_adapter_id c, hh_state = hr_state r, hh_cycles_started = hr_cycles_started r,
     hh_cycles_succeeded = hr_cycles_succeeded r, hh_consecutive_failures = hr_consecutive_failures r,
     hh_last_started_at = hr_last_started_at r, hh_last_succeeded_at = hr_last_succeeded_at r, hh_last_error_code = hr_last_error_code r\<rparr>"

text \<open>The adapter's id and whether it can be polled, as the constructor finds them.\<close>

definition new_relay :: "pystr \<Rightarrow> bool \<Rightarrow> 'w \<Rightarrow> exn + (pystr \<times> 'w relay)" where
  "new_relay raw_adapter_id has_poll_once w =
     (let adapter_id = py_lower (py_strip raw_adapter_id)
      in bindE (requireE (adapter_id \<noteq> []) (ValueError ''Host-relay adapters require a stable adapter_id.'')) (\<lambda>_.
         bindE (requireE has_poll_once TypeError) (\<lambda>_.
           Inr (adapter_id, \<lparr>hr_world = w, hr_cycles_started = 0, hr_cycles_succeeded = 0, hr_consecutive_failures = 0,
             hr_last_started_at = None, hr_last_succeeded_at = None, hr_last_error_code = [], hr_state = Idle\<rparr>))))"

definition on_world :: "('w, 'a) action \<Rightarrow> ('w relay, 'a) action" where
  "on_world m = (\<lambda>r. case m (hr_world r) of (w, x) \<Rightarrow> (r\<lparr>hr_world := w\<rparr>, x))"

definition emit :: "'w relay_config \<Rightarrow> string \<Rightarrow> pydict \<Rightarrow> ('w relay, unit) action" where
  "emit c kind details = (case rc_observer c of None \<Rightarrow> retS ()
     | Some ob \<Rightarrow> (\<lambda>r. on_world (ob \<lparr>he_kind = kind, he_adapter_id = rc_adapter_id c, he_cycle = hr_cycles_started r,
         he_timestamp = rc_clock c (hr_world r), he_details = details\<rparr>) r))"

definition failure_details :: "pystr \<Rightarrow> bool \<Rightarrow> pydict" where
  "failure_details code retryable = [(PStr (lit ''error_code''), PStr code), (PStr (lit ''retryable''), PBool retryable)]"

definition begin_cycle :: "'w relay_config \<Rightarrow> 'w relay \<Rightarrow> 'w relay" where
  "begin_cycle c r = r\<lparr>hr_cycles_started := hr_cycles_started r + 1, hr_last_started_at := Some (rc_clock c (hr_world r)), hr_state := Running\<rparr>"

definition note_failure :: "pystr \<Rightarrow> relay_phase \<Rightarrow> 'w relay \<Rightarrow> 'w relay" where
  "note_failure code phase r = r\<lparr>hr_consecutive_failures := hr_consecutive_failures r + 1, hr_last_error_code := code, hr_state := phase\<rparr>"

definition note_success :: "'w relay_config \<Rightarrow> 'w relay \<Rightarrow> 'w relay" where
  "note_success c r = r\<lparr>hr_cycles_succeeded := hr_cycles_succeeded r + 1, hr_consecutive_failures := 0, hr_last_error_code := [],
     hr_last_succeeded_at := Some (rc_clock c (hr_world r)), hr_state := Ready\<rparr>"

definition ADAPTER_FAILED :: pystr where "ADAPTER_FAILED = lit ''host_relay_adapter_failed''"

text \<open>What the handlers of \<open>run_once\<close> do with an exception of the adapter; the observer may raise another.\<close>

definition cycle_failed :: "'w relay_config \<Rightarrow> exn \<Rightarrow> ('w relay, 'a) action" where
  "cycle_failed c e = (\<lambda>r.
     case e of
       Cancelled \<Rightarrow> bindS (emit c ''cycle.cancelled'' []) (\<lambda>_. failS e) (r\<lparr>hr_state := Stopped\<rparr>)
     | RelayRetryable code \<Rightarrow>
         bindS (emit c ''cycle.retryable_failure'' (failure_details code True)) (\<lambda>_. failS e) (note_failure code Degraded r)
     | _ \<Rightarrow> bindS (emit c ''cycle.failed'' (failure_details ADAPTER_FAILED False)) (\<lambda>_. failS e) (note_failure ADAPTER_FAILED Failed r))"

definition cycle_succeeded :: "'w relay_config \<Rightarrow> pydict \<Rightarrow> ('w relay, pydict) action" where
  "cycle_succeeded c result = (\<lambda>r.
     bindS (liftS (sort_entries result)) (\<lambda>entries.
     bindS (emit c ''cycle.succeeded'' [(PStr (lit ''result_keys''), PList (map fst entries))]) (\<lambda>_. retS result))
     (note_success c r))"

definition run_once :: "'w relay_config \<Rightarrow> ('w relay, pydict) action" where
  "run_once c = (\<lambda>r.
     bindS (emit c ''cycle.started'' []) (\<lambda>_ r1.
       case on_world (rc_poll_once c) r1 of
         (r2, Inl e) \<Rightarrow> cycle_failed c e r2
       | (r2, Inr result) \<Rightarrow> cycle_succeeded c result r2) (begin_cycle c r))"

definition relay_wait :: "'w relay_config \<Rightarrow> real \<Rightarrow> ('w relay, bool) action" where
  "relay_wait c delay = (case rc_wait_for_wakeup c of Some f \<Rightarrow> on_world (f delay)
     | None \<Rightarrow> bindS (on_world (rc_pause c delay)) (\<lambda>_ r.
         (r, Inr (case rc_stop_event c of None \<Rightarrow> False | Some stop \<Rightarrow> stop (hr_world r)))))"

definition float_hint :: "'w relay_config \<Rightarrow> pyval \<Rightarrow> (exn + real) option" where
  "float_hint c hint = (case hint of
       PInt i \<Rightarrow> if i \<le> 0 then None else Some (if FLOAT_LIMIT \<le> of_int i then Inl OverflowError else Inr (of_int i))
     | PFloat t _ \<Rightarrow> if rc_float c t \<le> 0 then None else Some (Inr (rc_float c t))
     | _ \<Rightarrow> None)"

definition delay_after :: "'w relay_config \<Rightarrow> pydict \<Rightarrow> exn + real" where
  "delay_after c result =
     (let poll = hp_poll_interval_seconds (rc_policy c)
      in case float_hint c (dget_or result ''next_poll_seconds'' PNone) of
           None \<Rightarrow> Inr poll
         | Some f \<Rightarrow> bindE f (\<lambda>h. Inr (max (min 1 poll) h)))"

definition stopped :: "'w relay_config \<Rightarrow> 'w relay \<Rightarrow> bool" where
  "stopped c r = (case rc_stop_event c of None \<Rightarrow> False | Some stop \<Rightarrow> stop (hr_world r))"

text \<open>One pass of the loop up to the delay it waits: only a retryable failure is caught.\<close>

definition next_delay :: "'w relay_config \<Rightarrow> ('w relay, real) action" where
  "next_delay c = (\<lambda>r. case bindS (run_once c) (\<lambda>result. liftS (delay_after c result)) r of
       (r1, Inl (RelayRetryable _)) \<Rightarrow> (r1, retry_delay (rc_policy c) (hr_consecutive_failures r1))
     | x \<Rightarrow> x)"

text \<open>The loop may run forever; it then has no value.\<close>

partial_function (option) relay_loop :: "'w relay_config \<Rightarrow> 'w relay \<Rightarrow> ('w relay \<times> (exn + unit)) option" where
  "relay_loop c r =
     (if stopped c r then Some (r, Inr ())
      else case bindS (next_delay c) (relay_wait c) r of
             (r1, Inl e) \<Rightarrow> Some (r1, Inl e)
           | (r1, Inr woken) \<Rightarrow> if woken then Some (r1, Inr ()) else relay_loop c r1)"

definition relay_run :: "'w relay_config \<Rightarrow> 'w relay \<Rightarrow> ('w relay \<times> (exn + unit)) option" where
  "relay_run c r =
     (case emit c ''runtime.started'' [] (r\<lparr>hr_state := Starting\<rparr>) of
        (r1, Inl e) \<Rightarrow> Some (r1, Inl e)
      | (r1, Inr _) \<Rightarrow>
         (case relay_loop c r1 of None \<Rightarrow> None
          | Some (r2, x) \<Rightarrow> Some (bindS (emit c ''runtime.stopped'' []) (\<lambda>_. liftS x) (r2\<lparr>hr_state := Stopped\<rparr>))))"

section \<open>Discovery\<close>

text \<open>An installed entry point: its name, and what loading it gives (nothing when it is not callable).\<close>

fun discover_loop :: "(pystr \<times> 'f) list \<Rightarrow> (pystr \<times> 'f) list \<Rightarrow> exn + (pystr \<times> 'f) list" where
  "discover_loop [] adapters = Inr adapters"
| "discover_loop ((name, entry) # es) adapters =
     (let adapter_id = py_lower (py_strip name)
      in bindE (requireE (adapter_id \<noteq> []) (ValueError ''A host-relay adapter entry point has no name.'')) (\<lambda>_.
         bindE (requireE (map_of adapters adapter_id = None) (ValueError ''Duplicate host-relay adapter entry point'')) (\<lambda>_.
           discover_loop es (adapters @ [(adapter_id, entry)]))))"

definition discover_host_relay_adapters :: "(pystr \<times> 'f) list \<Rightarrow> exn + (pystr \<times> 'f) list" where
  "discover_host_relay_adapters entry_points = discover_loop entry_points []"

definition load_host_relay_adapter_factory :: "(pystr \<times> (exn + 'a option)) list \<Rightarrow> pystr \<Rightarrow> exn + 'a" where
  "load_host_relay_adapter_factory entry_points adapter_id =
     (let selected = py_lower (py_strip adapter_id)
      in bindE (discover_host_relay_adapters entry_points) (\<lambda>adapters.
         case map_of adapters selected of None \<Rightarrow> Inl LookupError
         | Some load \<Rightarrow> bindE load (\<lambda>factory. case factory of None \<Rightarrow> Inl TypeError | Some f \<Rightarrow> Inr f)))"

text \<open>A factory gives the adapter's id and whether it can be polled, with the adapter.\<close>

definition create_host_relay_adapter ::
  "(pystr \<times> (exn + (pydict \<Rightarrow> exn + (pystr \<times> bool \<times> 'a)) option)) list \<Rightarrow> pystr \<Rightarrow> pydict \<Rightarrow> exn + 'a" where
  "create_host_relay_adapter entry_points adapter_id config =
     (let selected = py_lower (py_strip adapter_id)
      in bindE (load_host_relay_adapter_factory entry_points selected) (\<lambda>factory.
         bindE (factory config) (\<lambda>(actual, has_poll_once, adapter).
         bindE (requireE has_poll_once TypeError) (\<lambda>_.
         bindE (requireE (py_lower (py_strip actual) = selected) (ValueError ''Host-relay adapter id mismatch'')) (\<lambda>_. Inr adapter)))))"


section \<open>Delays\<close>

lemma mk_relay_policy_ok:
  "mk_relay_policy poll initial most multiplier = Inr p \<longleftrightarrow>
     0 < poll \<and> 0 < initial \<and> initial \<le> most \<and> 1 \<le> multiplier \<and>
     p = \<lparr>hp_poll_interval_seconds = poll, hp_retry_initial_seconds = initial, hp_retry_max_seconds = most,
          hp_retry_multiplier = multiplier\<rparr>"
  by (auto simp: mk_relay_policy_def bindE_ok requireE_def)

lemma retry_delay_ok:
  "retry_delay p n = Inr d \<longleftrightarrow> hp_retry_multiplier p ^ nat (n - 1) < FLOAT_LIMIT \<and>
     d = min (hp_retry_max_seconds p) (hp_retry_initial_seconds p * hp_retry_multiplier p ^ nat (n - 1))"
  by (auto simp: retry_delay_def float_pow_def bindE_ok Let_def)

lemma retry_delay_within:
  assumes "mk_relay_policy poll initial most multiplier = Inr p" "retry_delay p n = Inr d"
  shows "initial \<le> d" "d \<le> most"
proof -
  have "1 \<le> multiplier ^ nat (n - 1)"
    using assms(1) by (simp add: mk_relay_policy_ok)
  then have "initial * 1 \<le> initial * multiplier ^ nat (n - 1)"
    using assms(1) by (intro mult_left_mono) (auto simp: mk_relay_policy_ok)
  then show "initial \<le> d" "d \<le> most"
    using assms by (auto simp: mk_relay_policy_ok retry_delay_ok)
qed

lemma retry_delay_mono:
  assumes "mk_relay_policy poll initial most multiplier = Inr p" "retry_delay p m = Inr d" "retry_delay p n = Inr e" "m \<le> n"
  shows "d \<le> e"
proof -
  have "multiplier ^ nat (m - 1) \<le> multiplier ^ nat (n - 1)"
    using assms(1,4) by (intro power_increasing) (auto simp: mk_relay_policy_ok)
  then have "initial * multiplier ^ nat (m - 1) \<le> initial * multiplier ^ nat (n - 1)"
    using assms(1) by (intro mult_left_mono) (auto simp: mk_relay_policy_ok)
  then show ?thesis
    using assms(1-3) by (simp add: mk_relay_policy_ok retry_delay_ok min.coboundedI2)
qed

lemma delay_after_positive:
  assumes "0 < hp_poll_interval_seconds (rc_policy c)" "delay_after c result = Inr d"
  shows "min 1 (hp_poll_interval_seconds (rc_policy c)) \<le> d"
  using assms by (auto simp: delay_after_def Let_def bindE_ok split: option.splits)

text \<open>C38. The delays of a relay with a valid policy: after a retryable failure it waits between the
  initial and the maximal number of seconds, never less than after fewer failures, and the delay exists while the
  power of the multiplier is a finite float; after a successful cycle it waits a positive time, at least the
  smaller of one second and the poll interval, whatever the adapter asks for.\<close>

theorem relay_delays_bounded:
  assumes "mk_relay_policy poll initial most multiplier = Inr p" "multiplier ^ nat (n - 1) < FLOAT_LIMIT"
    "rc_policy c = p" "delay_after c result = Inr e"
  shows "(\<exists>d. retry_delay p n = Inr d \<and> initial \<le> d \<and> d \<le> most \<and> (\<forall>m d'. m \<le> n \<longrightarrow> retry_delay p m = Inr d' \<longrightarrow> d' \<le> d)) \<and>
    0 < e \<and> min 1 poll \<le> e"
proof
  obtain d where d: "retry_delay p n = Inr d"
    using assms(1,2) by (auto simp: mk_relay_policy_ok retry_delay_ok)
  then show "\<exists>d. retry_delay p n = Inr d \<and> initial \<le> d \<and> d \<le> most \<and> (\<forall>m d'. m \<le> n \<longrightarrow> retry_delay p m = Inr d' \<longrightarrow> d' \<le> d)"
    using retry_delay_within [OF assms(1) d] retry_delay_mono [OF assms(1) _ d] by blast
  have "0 < poll" "hp_poll_interval_seconds p = poll"
    using assms(1) by (auto simp: mk_relay_policy_ok)
  then show "0 < e \<and> min 1 poll \<le> e"
    using delay_after_positive [of c result e] assms(3,4) by auto
qed

section \<open>A long outage\<close>

text \<open>The adapter fails retryably on every poll, nothing observes, wakes or stops the relay, and sleeping succeeds.\<close>

definition outage :: "'w relay_config \<Rightarrow> pystr \<Rightarrow> bool" where
  "outage c code \<longleftrightarrow> rc_observer c = None \<and> rc_wait_for_wakeup c = None \<and> rc_stop_event c = None \<and>
     (\<forall>w. snd (rc_poll_once c w) = Inl (RelayRetryable code)) \<and> (\<forall>d w. snd (rc_pause c d w) = Inr ())"

lemma two_power_limit: "(2::real) ^ n < FLOAT_LIMIT \<longleftrightarrow> n < 1024"
proof
  assume l: "(2::real) ^ n < FLOAT_LIMIT"
  show "n < 1024"
  proof (rule ccontr)
    assume "\<not> n < 1024"
    then have "(2::real) ^ 1024 \<le> 2 ^ n"
      by (intro power_increasing) auto
    with l show False
      by (simp add: FLOAT_LIMIT_def)
  qed
next
  assume "n < 1024"
  then have "(2::real) ^ n \<le> 2 ^ 1023"
    by (intro power_increasing) auto
  then show "(2::real) ^ n < FLOAT_LIMIT"
    by (simp add: FLOAT_LIMIT_def)
qed

lemma outage_quiet [simp]: "rc_observer c = None \<Longrightarrow> emit c kind details = retS ()"
  by (simp add: emit_def)

lemma relay_world_eq: "on_world m r = (r\<lparr>hr_world := fst (m (hr_world r))\<rparr>, snd (m (hr_world r)))"
  by (simp add: on_world_def split: prod.split)

lemma outage_run_once:
  assumes "outage c code"
  shows "run_once c r = (note_failure code Degraded ((begin_cycle c r)\<lparr>hr_world := fst (rc_poll_once c (hr_world r))\<rparr>),
           Inl (RelayRetryable code))"
proof -
  have "on_world (rc_poll_once c) (begin_cycle c r) =
      ((begin_cycle c r)\<lparr>hr_world := fst (rc_poll_once c (hr_world r))\<rparr>, Inl (RelayRetryable code))"
    using assms by (simp add: relay_world_eq begin_cycle_def outage_def)
  then show ?thesis
    using assms by (simp add: outage_def run_once_def bindS_def cycle_failed_def)
qed

lemma outage_pass:
  assumes "outage c code"
  obtains w where "next_delay c r =
    (note_failure code Degraded ((begin_cycle c r)\<lparr>hr_world := w\<rparr>), retry_delay (rc_policy c) (hr_consecutive_failures r + 1))"
proof
  show "next_delay c r = (note_failure code Degraded ((begin_cycle c r)\<lparr>hr_world := fst (rc_poll_once c (hr_world r))\<rparr>),
      retry_delay (rc_policy c) (hr_consecutive_failures r + 1))"
    by (simp add: next_delay_def bindS_def outage_run_once [OF assms] note_failure_def begin_cycle_def)
qed

lemma outage_sleeps:
  assumes "outage c code"
  shows "relay_wait c d r = (r\<lparr>hr_world := fst (rc_pause c d (hr_world r))\<rparr>, Inr False)"
  using assms by (simp add: outage_def relay_wait_def bindS_def relay_world_eq)

lemma outage_loop:
  assumes o: "outage c code" and p: "rc_policy c = default_relay_policy"
    and n: "hr_consecutive_failures r + int n = 1024" "0 \<le> hr_consecutive_failures r"
  shows "\<exists>r'. relay_loop c r = Some (r', Inl OverflowError) \<and> hr_consecutive_failures r' = 1025 \<and>
           hr_cycles_started r' = hr_cycles_started r + int n + 1 \<and> hr_last_error_code r' = code \<and>
           hr_cycles_succeeded r' = hr_cycles_succeeded r"
  using n
proof (induction n arbitrary: r)
  case 0
  obtain w where w: "next_delay c r =
      (note_failure code Degraded ((begin_cycle c r)\<lparr>hr_world := w\<rparr>), retry_delay (rc_policy c) (hr_consecutive_failures r + 1))"
    by (rule outage_pass [OF o])
  have "retry_delay (rc_policy c) (hr_consecutive_failures r + 1) = Inl OverflowError"
    using 0 p two_power_limit [of 1024]
    by (simp add: retry_delay_def default_relay_policy_def float_pow_def bindE_def)
  then show ?case
    using o 0 w by (subst relay_loop.simps)
      (simp add: stopped_def outage_def bindS_def note_failure_def begin_cycle_def)
next
  case (Suc n)
  obtain w where w: "next_delay c r =
      (note_failure code Degraded ((begin_cycle c r)\<lparr>hr_world := w\<rparr>), retry_delay (rc_policy c) (hr_consecutive_failures r + 1))"
    by (rule outage_pass [OF o])
  obtain d where d: "retry_delay (rc_policy c) (hr_consecutive_failures r + 1) = Inr d"
    using Suc.prems p by (auto simp: retry_delay_ok default_relay_policy_def two_power_limit)
  let ?r = "note_failure code Degraded ((begin_cycle c r)\<lparr>hr_world := w\<rparr>)"
  let ?s = "?r\<lparr>hr_world := fst (rc_pause c d (hr_world ?r))\<rparr>"
  have "relay_loop c r = relay_loop c ?s"
    using o w d outage_sleeps [OF o] by (subst relay_loop.simps) (simp add: stopped_def outage_def bindS_def)
  moreover have "hr_consecutive_failures ?s = hr_consecutive_failures r + 1"
    "hr_cycles_started ?s = hr_cycles_started r + 1" "hr_cycles_succeeded ?s = hr_cycles_succeeded r"
    by (simp_all add: note_failure_def begin_cycle_def)
  ultimately show ?case
    using Suc.IH [of ?s] Suc.prems by simp
qed

text \<open>C39. With the default policy an outage of the adapter's service ends the relay: the 1,025th
  retryable failure in a row makes the back-off raise \<open>OverflowError\<close> inside the handler, so the run ends with that
  error and the relay is stopped, though every failure was retryable.\<close>

theorem long_outage_stops_relay:
  assumes "outage c code" "rc_policy c = default_relay_policy" "hr_consecutive_failures r = 0"
  shows "\<exists>r'. relay_run c r = Some (r', Inl OverflowError) \<and> hr_state r' = Stopped \<and> hr_consecutive_failures r' = 1025 \<and>
           hr_cycles_started r' = hr_cycles_started r + 1025 \<and> hr_cycles_succeeded r' = hr_cycles_succeeded r \<and>
           hr_last_error_code r' = code"
proof -
  have q: "emit c kind details = retS ()" for kind details
    using assms(1) by (simp add: outage_def)
  obtain r' where r': "relay_loop c (r\<lparr>hr_state := Starting\<rparr>) = Some (r', Inl OverflowError)" "hr_consecutive_failures r' = 1025"
      "hr_cycles_started r' = hr_cycles_started r + 1025" "hr_cycles_succeeded r' = hr_cycles_succeeded r"
      "hr_last_error_code r' = code"
    using outage_loop [OF assms(1,2), of "r\<lparr>hr_state := Starting\<rparr>" 1024] assms(3) by auto
  then show ?thesis
    by (auto simp: relay_run_def q bindS_def)
qed

definition dead_adapter :: "unit relay_config" where
  "dead_adapter = \<lparr>rc_adapter_id = lit ''mail'', rc_poll_once = failS (RelayRetryable (lit ''service_unavailable'')),
     rc_wait_for_wakeup = None, rc_pause = (\<lambda>_. retS ()), rc_stop_event = None, rc_policy = default_relay_policy,
     rc_observer = None, rc_clock = (\<lambda>_. 0), rc_float = (\<lambda>_. 0)\<rparr>"

definition fresh_relay :: "unit relay" where
  "fresh_relay = \<lparr>hr_world = (), hr_cycles_started = 0, hr_cycles_succeeded = 0, hr_consecutive_failures = 0,
     hr_last_started_at = None, hr_last_succeeded_at = None, hr_last_error_code = [], hr_state = Idle\<rparr>"

theorem long_outage_stops_relay_witness:
  "new_relay (lit '' Mail '') True () = Inr (lit ''mail'', fresh_relay) \<and>
   (\<exists>r'. relay_run dead_adapter fresh_relay = Some (r', Inl OverflowError) \<and> hr_state r' = Stopped \<and>
      hr_cycles_started r' = 1025)"
proof
  show "new_relay (lit '' Mail '') True () = Inr (lit ''mail'', fresh_relay)"
    by code_simp
  have "outage dead_adapter (lit ''service_unavailable'')" "rc_policy dead_adapter = default_relay_policy"
    "hr_consecutive_failures fresh_relay = 0"
    by (simp_all add: outage_def dead_adapter_def fresh_relay_def)
  from long_outage_stops_relay [OF this]
  show "\<exists>r'. relay_run dead_adapter fresh_relay = Some (r', Inl OverflowError) \<and> hr_state r' = Stopped \<and>
      hr_cycles_started r' = 1025"
    by (auto simp: fresh_relay_def)
qed

theorem relay_delays_bounded_witness:
  "mk_relay_policy 60 1 60 2 = Inr default_relay_policy \<and>
   (\<exists>d. retry_delay default_relay_policy 1000 = Inr d \<and> 1 \<le> d \<and> d \<le> 60) \<and>
   delay_after dead_adapter [(PStr (lit ''next_poll_seconds''), PInt 5)] = Inr 5 \<and> (0::real) < 5"
proof -
  have p: "mk_relay_policy 60 1 60 2 = Inr default_relay_policy"
    by (simp add: mk_relay_policy_ok default_relay_policy_def)
  have d0: "dget_or [(PStr (lit ''next_poll_seconds''), PInt 5)] ''next_poll_seconds'' PNone = PInt 5"
    by code_simp
  have d: "delay_after dead_adapter [(PStr (lit ''next_poll_seconds''), PInt 5)] = Inr 5"
    using d0 by (simp add: delay_after_def float_hint_def dead_adapter_def default_relay_policy_def FLOAT_LIMIT_def Let_def bindE_def)
  have l: "(2::real) ^ nat (1000 - 1) < FLOAT_LIMIT"
    by (simp only: two_power_limit)
  show ?thesis
    using relay_delays_bounded [OF p l _ d] p d by (auto simp: dead_adapter_def)
qed


section \<open>Adapters\<close>

lemma discover_loop_ids:
  assumes "discover_loop entries adapters = Inr found" "distinct (map fst adapters)"
  shows "distinct (map fst found)" "map snd found = map snd adapters @ map snd entries"
    "map fst found = map fst adapters @ map (py_lower \<circ> py_strip \<circ> fst) entries"
  using assms
  by (induction entries adapters rule: discover_loop.induct)
     (auto simp: bindE_ok Let_def map_of_eq_None_iff)

text \<open>Discovery keeps every entry point, under pairwise different names.\<close>

lemma discovered_adapters:
  assumes "discover_host_relay_adapters entries = Inr found"
  shows "distinct (map fst found)" "found = map (\<lambda>(name, entry). (py_lower (py_strip name), entry)) entries"
proof -
  note found = discover_loop_ids [of entries "[]" found, unfolded discover_host_relay_adapters_def [symmetric], OF assms]
  show "distinct (map fst found)"
    using found(1) by simp
  have "found = zip (map fst found) (map snd found)"
    by (simp add: zip_map_fst_snd)
  then show "found = map (\<lambda>(name, entry). (py_lower (py_strip name), entry)) entries"
    using found(2,3) by (simp add: zip_map_map zip_same_conv_map case_prod_beta)
qed

text \<open>A created adapter can be polled and carries the id it was asked for.\<close>

lemma created_adapter:
  assumes "create_host_relay_adapter entries adapter_id config = Inr adapter"
  shows "\<exists>factory actual. load_host_relay_adapter_factory entries (py_lower (py_strip adapter_id)) = Inr factory \<and>
           factory config = Inr (actual, True, adapter) \<and> py_lower (py_strip actual) = py_lower (py_strip adapter_id)"
  using assms by (auto simp: create_host_relay_adapter_def Let_def bindE_ok split: prod.splits)

end
