(* ===== verification/Interleaving.thy ===== *)
theory Interleaving
  imports Py_Text
begin

text \<open>
  Programs that may be interrupted between any two of their steps, and what two of them do when they run
  interleaved with each other and with the rest of the system.

  A program is what it does in its next step on the shared state, or its result. One step is one file operation
  or one attempt to take a lock, so that everything other processes do falls between two steps.
\<close>

section \<open>Programs\<close>

datatype ('s, 'a) prog = Done "exn + 'a" | Step "'s \<Rightarrow> 's \<times> ('s, 'a) prog"

definition retP :: "'a \<Rightarrow> ('s, 'a) prog" where "retP x = Done (Inr x)"
definition failP :: "exn \<Rightarrow> ('s, 'a) prog" where "failP e = Done (Inl e)"
definition liftP :: "exn + 'a \<Rightarrow> ('s, 'a) prog" where "liftP r = Done r"

definition atomicP :: "('s, 'a) action \<Rightarrow> ('s, 'a) prog" where
  "atomicP m = Step (\<lambda>s. case m s of (s', r) \<Rightarrow> (s', Done r))"

primrec bindP :: "('s, 'a) prog \<Rightarrow> ('a \<Rightarrow> ('s, 'b) prog) \<Rightarrow> ('s, 'b) prog" where
  "bindP (Done r) f = (case r of Inl e \<Rightarrow> Done (Inl e) | Inr x \<Rightarrow> f x)"
| "bindP (Step g) f = Step (\<lambda>s. map_prod id (\<lambda>p. bindP p f) (g s))"

text \<open>\<open>try ... except BaseException\<close>\<close>

primrec catchP :: "('s, 'a) prog \<Rightarrow> (exn \<Rightarrow> ('s, 'a) prog) \<Rightarrow> ('s, 'a) prog" where
  "catchP (Done r) h = (case r of Inl e \<Rightarrow> h e | Inr x \<Rightarrow> Done (Inr x))"
| "catchP (Step g) h = Step (\<lambda>s. map_prod id (\<lambda>p. catchP p h) (g s))"

text \<open>\<open>try ... finally\<close>: an exception of the cleanup replaces the result.\<close>

primrec finallyP :: "('s, 'a) prog \<Rightarrow> ('s, unit) prog \<Rightarrow> ('s, 'a) prog" where
  "finallyP (Done r) q = bindP q (\<lambda>_. Done r)"
| "finallyP (Step g) q = Step (\<lambda>s. map_prod id (\<lambda>p. finallyP p q) (g s))"

text \<open>A program that runs alone.\<close>

primrec runP :: "('s, 'a) prog \<Rightarrow> ('s, 'a) action" where
  "runP (Done r) = (\<lambda>s. (s, r))"
| "runP (Step g) = (\<lambda>s. case map_prod id runP (g s) of (s', k) \<Rightarrow> k s')"

lemmas prog_simps [simp] = retP_def failP_def liftP_def

lemma prog_induct [case_names Done Step]:
  assumes "\<And>r. P (Done r)" "\<And>g. (\<And>s. P (snd (g s))) \<Longrightarrow> P (Step g)"
  shows "P p"
proof (induction p)
  case (Step g)
  have "P (snd (g s))" for s by (rule Step) (auto simp: snds.simps)
  then show ?case by (rule assms(2))
qed (rule assms(1))

lemma runP_bind: "runP (bindP p f) s = bindS (runP p) (\<lambda>x. runP (f x)) s"
proof (induction p arbitrary: s rule: prog_induct)
  case (Done r)
  then show ?case by (cases r) (simp_all add: bindS_def)
qed (simp add: bindS_def split_def)

lemma runP_atomic [simp]: "runP (atomicP m) s = m s"
  by (simp add: atomicP_def split: prod.split)

lemma runP_catch: "runP (catchP p h) s = (case runP p s of (s', Inl e) \<Rightarrow> runP (h e) s' | (s', Inr x) \<Rightarrow> (s', Inr x))"
proof (induction p arbitrary: s rule: prog_induct)
  case (Done r)
  then show ?case by (cases r) simp_all
qed (simp add: split_def)

lemma runP_finally: "runP (finallyP p q) s = (case runP p s of (s', r) \<Rightarrow> bindS (runP q) (\<lambda>_. liftS r) s')"
proof (induction p arbitrary: s rule: prog_induct)
  case (Done r)
  have "(\<lambda>_::unit. runP (Done r)) = (\<lambda>_. liftS r)" by (simp add: liftS_def fun_eq_iff)
  then show ?case by (simp add: runP_bind)
qed (simp add: split_def)

section \<open>Interleaving\<close>

datatype 's turn = First | Second | Other "'s \<Rightarrow> 's"

fun stepP :: "('s, 'a) prog \<Rightarrow> 's \<Rightarrow> 's \<times> ('s, 'a) prog" where
  "stepP (Done r) s = (s, Done r)"
| "stepP (Step g) s = g s"

fun interleave :: "'s turn list \<Rightarrow> ('s, 'a) prog \<Rightarrow> ('s, 'b) prog \<Rightarrow> 's \<Rightarrow> 's \<times> ('s, 'a) prog \<times> ('s, 'b) prog" where
  "interleave [] p q s = (s, p, q)"
| "interleave (First # ts) p q s = (case stepP p s of (s', p') \<Rightarrow> interleave ts p' q s')"
| "interleave (Second # ts) p q s = (case stepP q s of (s', q') \<Rightarrow> interleave ts p q' s')"
| "interleave (Other f # ts) p q s = interleave ts p q (f s)"

section \<open>Two programs that write first and then look for the other\<close>

text \<open>
  \<open>I\<close> is what the whole system maintains. Evidence \<open>J\<close> is what a program writes; \<open>K\<close> is what the other one writes.

  \<^item> \<open>doomed\<close>: the program fails whatever happens.
  \<^item> \<open>past\<close>: it keeps its evidence unless it fails.
  \<^item> \<open>looking\<close>: its evidence is in place, and it cannot succeed before it found the other's evidence missing.
  \<^item> \<open>starting\<close>: it cannot succeed before it is \<open>looking\<close> with its evidence in place.
\<close>

inductive yields :: "('s \<Rightarrow> bool) \<Rightarrow> ('s, 'a) prog \<Rightarrow> ('a \<Rightarrow> bool) \<Rightarrow> bool" for I where
  yields_done: "(\<And>x. r = Inr x \<Longrightarrow> Q x) \<Longrightarrow> yields I (Done r) Q"
| yields_step: "(\<And>s. I s \<Longrightarrow> yields I (snd (g s)) Q) \<Longrightarrow> yields I (Step g) Q"

abbreviation doomed :: "('s \<Rightarrow> bool) \<Rightarrow> ('s, 'a) prog \<Rightarrow> bool" where
  "doomed I p \<equiv> yields I p (\<lambda>_. False)"

inductive past :: "('s \<Rightarrow> bool) \<Rightarrow> ('s \<Rightarrow> bool) \<Rightarrow> ('s, 'a) prog \<Rightarrow> bool" for I J where
  past_doomed: "doomed I p \<Longrightarrow> past I J p"
| past_done: "past I J (Done r)"
| past_step: "(\<And>s. I s \<Longrightarrow> J s \<Longrightarrow> past I J (snd (g s)) \<and> (J (fst (g s)) \<or> doomed I (snd (g s)))) \<Longrightarrow> past I J (Step g)"

inductive looking :: "('s \<Rightarrow> bool) \<Rightarrow> ('s \<Rightarrow> bool) \<Rightarrow> ('s \<Rightarrow> bool) \<Rightarrow> ('s, 'a) prog \<Rightarrow> bool" for I J K where
  looking_doomed: "doomed I p \<Longrightarrow> looking I J K p"
| looking_step: "(\<And>s. I s \<Longrightarrow> J s \<Longrightarrow> (J (fst (g s)) \<or> doomed I (snd (g s))) \<and>
     (looking I J K (snd (g s)) \<or> \<not> K s \<and> past I J (snd (g s)))) \<Longrightarrow> looking I J K (Step g)"

inductive starting :: "('s \<Rightarrow> bool) \<Rightarrow> ('s \<Rightarrow> bool) \<Rightarrow> ('s \<Rightarrow> bool) \<Rightarrow> ('s, 'a) prog \<Rightarrow> bool" for I J K where
  starting_doomed: "doomed I p \<Longrightarrow> starting I J K p"
| starting_step: "(\<And>s. I s \<Longrightarrow> starting I J K (snd (g s)) \<or> J (fst (g s)) \<and> looking I J K (snd (g s))) \<Longrightarrow> starting I J K (Step g)"

inductive keeps :: "('s \<Rightarrow> bool) \<Rightarrow> ('s \<Rightarrow> bool) \<Rightarrow> ('s, 'a) prog \<Rightarrow> bool" for I K where
  keeps_done: "keeps I K (Done r)"
| keeps_step: "(\<And>s. I s \<Longrightarrow> I (fst (g s)) \<and> (K s \<longrightarrow> K (fst (g s))) \<and> keeps I K (snd (g s))) \<Longrightarrow> keeps I K (Step g)"

inductive_cases yields_doneE: "yields I (Done r) Q"
inductive_cases yields_stepE: "yields I (Step g) Q"
inductive_cases past_stepE: "past I J (Step g)"
inductive_cases looking_doneE: "looking I J K (Done r)"
inductive_cases looking_stepE: "looking I J K (Step g)"
inductive_cases starting_doneE: "starting I J K (Done r)"
inductive_cases starting_stepE: "starting I J K (Step g)"
inductive_cases keeps_stepE: "keeps I K (Step g)"

lemma not_doomed_Inr: "\<not> doomed I (Done (Inr x))" "\<not> looking I J K (Done (Inr x))" "\<not> starting I J K (Done (Inr x))"
  by (auto elim!: yields_doneE looking_doneE starting_doneE)

lemma stepP_doomed: "doomed I p \<Longrightarrow> I s \<Longrightarrow> doomed I (snd (stepP p s))"
  by (cases p) (auto elim: yields_stepE)

lemma stepP_keeps: "keeps I K p \<Longrightarrow> I s \<Longrightarrow> I (fst (stepP p s)) \<and> (K s \<longrightarrow> K (fst (stepP p s))) \<and> keeps I K (snd (stepP p s))"
  by (cases p) (auto elim: keeps_stepE)

lemma stepP_past:
  "past I J p \<Longrightarrow> I s \<Longrightarrow> J s \<Longrightarrow> past I J (snd (stepP p s)) \<and> (J (fst (stepP p s)) \<or> doomed I (snd (stepP p s)))"
  by (cases p) (auto elim!: past_stepE intro: past_doomed elim: yields_stepE)

lemma stepP_looking:
  "looking I J K p \<Longrightarrow> I s \<Longrightarrow> J s \<Longrightarrow> (J (fst (stepP p s)) \<or> doomed I (snd (stepP p s))) \<and>
     (looking I J K (snd (stepP p s)) \<or> \<not> K s \<and> past I J (snd (stepP p s)))"
  by (cases p) (auto elim!: looking_stepE intro: looking_doomed elim: yields_stepE)

lemma stepP_starting:
  "starting I J K p \<Longrightarrow> I s \<Longrightarrow> starting I J K (snd (stepP p s)) \<or> J (fst (stepP p s)) \<and> looking I J K (snd (stepP p s))"
  by (cases p) (auto elim!: starting_stepE intro: starting_doomed elim: yields_stepE)

text \<open>Neither is past while the other is.\<close>

definition searching :: "('s \<Rightarrow> bool) \<Rightarrow> ('s \<Rightarrow> bool) \<Rightarrow> ('s \<Rightarrow> bool) \<Rightarrow> ('s, 'a) prog \<Rightarrow> 's \<Rightarrow> bool" where
  "searching I J K p s \<longleftrightarrow> starting I J K p \<or> J s \<and> looking I J K p"

definition one_sided :: "('s \<Rightarrow> bool) \<Rightarrow> ('s \<Rightarrow> bool) \<Rightarrow> ('s \<Rightarrow> bool) \<Rightarrow> ('s, 'a) prog \<Rightarrow> ('s, 'b) prog \<Rightarrow> 's \<Rightarrow> bool" where
  "one_sided I J K p q s \<longleftrightarrow> doomed I p \<or> doomed I q \<or> searching I J K p s \<and> searching I K J q s
     \<or> J s \<and> past I J p \<and> searching I K J q s \<or> K s \<and> past I K q \<and> searching I J K p s"

lemma one_sided_swap: "one_sided I J K p q s \<longleftrightarrow> one_sided I K J q p s"
  by (auto simp: one_sided_def)

lemma one_sided_first:
  assumes "one_sided I J K p q s" "I s" "keeps I K p" "stepP p s = (s', p')"
  shows "one_sided I J K p' q s'"
proof -
  have k: "K s \<Longrightarrow> K s'" using stepP_keeps [OF assms(3,2)] assms(4) by simp
  have searching': "searching I J K p' s' \<or> \<not> K s \<and> J s' \<and> past I J p' \<or> doomed I p'" if "searching I J K p s"
    using that stepP_starting [of I J K p s] stepP_looking [of I J K p s] assms(2,4) by (auto simp: searching_def)
  have q: "searching I K J q s'" if "searching I K J q s" using that k by (auto simp: searching_def)
  have q': "starting I K J q" if "searching I K J q s" "\<not> K s" using that by (auto simp: searching_def)
  consider "doomed I p" | "doomed I q" | "searching I J K p s" "searching I K J q s" | "J s" "past I J p" "searching I K J q s"
    | "K s" "past I K q" "searching I J K p s"
    using assms(1) by (auto simp: one_sided_def)
  then show ?thesis
  proof cases
    case 1
    then show ?thesis using stepP_doomed [of I p s] assms(2,4) by (simp add: one_sided_def)
  next
    case 3
    then show ?thesis using searching' q q' by (auto simp: one_sided_def)
  next
    case 4
    then show ?thesis using stepP_past [of I J p s] assms(2,4) q by (auto simp: one_sided_def)
  next
    case 5
    then show ?thesis using searching' k by (auto simp: one_sided_def)
  qed (simp add: one_sided_def)
qed

definition harmless :: "('s \<Rightarrow> bool) \<Rightarrow> ('s \<Rightarrow> bool) \<Rightarrow> ('s \<Rightarrow> bool) \<Rightarrow> 's turn \<Rightarrow> bool" where
  "harmless I J K t \<longleftrightarrow> (\<forall>f s. t = Other f \<longrightarrow> I s \<longrightarrow> I (f s) \<and> (J s \<longrightarrow> J (f s)) \<and> (K s \<longrightarrow> K (f s)))"

lemma interleave_one_sided:
  assumes "interleave ts p q s = (s', p', q')" "\<forall>t \<in> set ts. harmless I J K t" "one_sided I J K p q s" "I s" "keeps I K p" "keeps I J q"
  shows "one_sided I J K p' q' s'"
  using assms
proof (induction ts p q s rule: interleave.induct)
  case (2 ts p q s)
  obtain s1 p1 where "stepP p s = (s1, p1)" by fastforce
  with 2 show ?case using one_sided_first [of I J K p q s] stepP_keeps [of I K p s] by auto
next
  case (3 ts p q s)
  obtain s1 q1 where "stepP q s = (s1, q1)" by fastforce
  with 3 show ?case using one_sided_first [of I K J q p s] stepP_keeps [of I J q s] by (auto simp: one_sided_swap [of I J K])
next
  case (4 f ts p q s)
  then have f: "I (f s)" "J s \<Longrightarrow> J (f s)" "K s \<Longrightarrow> K (f s)" by (auto simp: harmless_def)
  then have "one_sided I J K p q (f s)" using 4 by (auto simp: one_sided_def searching_def)
  then show ?case using 4 f by auto
qed simp

text \<open>Two programs that leave evidence and then look for the other's never both succeed.\<close>

lemma not_both_succeed:
  assumes "starting I J K p" "starting I K J q" "keeps I K p" "keeps I J q" "I s" "\<forall>t \<in> set ts. harmless I J K t"
  shows "interleave ts p q s \<noteq> (s', Done (Inr x), Done (Inr y))"
proof
  assume "interleave ts p q s = (s', Done (Inr x), Done (Inr y))"
  from interleave_one_sided [OF this assms(6) _ assms(5,3,4)] assms(1,2) have "one_sided I J K (Done (Inr x)) (Done (Inr y)) s'"
    by (simp add: one_sided_def searching_def)
  then show False by (auto simp: one_sided_def searching_def not_doomed_Inr)
qed


section \<open>Rules for the combinators\<close>

lemma snd_map_prod_id [simp]: "snd (map_prod id f x) = f (snd x)" "fst (map_prod id f x) = fst x"
  by (cases x; simp)+

lemma yields_mono: "yields I p Q \<Longrightarrow> (\<And>x. Q x \<Longrightarrow> R x) \<Longrightarrow> yields I p R"
  by (induction p Q rule: yields.induct) (auto intro: yields.intros)

lemma yields_True: "yields I p (\<lambda>_. True)"
  by (induction p rule: prog_induct) (auto intro: yields.intros)

lemma yields_bind: "yields I p Q \<Longrightarrow> (\<And>x. Q x \<Longrightarrow> yields I (f x) R) \<Longrightarrow> yields I (bindP p f) R"
proof (induction p Q rule: yields.induct)
  case (yields_done r Q)
  then show ?case by (cases r) (auto intro: yields.yields_done)
qed (auto intro!: yields.yields_step)

lemmas yields_then = yields_bind [OF yields_True]

lemma doomed_bind: "doomed I p \<Longrightarrow> doomed I (bindP p f)"
  by (erule yields_bind) simp

lemma yields_catch: "yields I p Q \<Longrightarrow> (\<And>e. yields I (h e) Q) \<Longrightarrow> yields I (catchP p h) Q"
proof (induction p Q rule: yields.induct)
  case (yields_done r Q)
  then show ?case by (cases r) (auto intro: yields.yields_done)
qed (auto intro!: yields.yields_step)

lemma yields_finally: "yields I p Q \<Longrightarrow> yields I (finallyP p q) Q"
proof (induction p Q rule: yields.induct)
  case (yields_done r Q)
  then show ?case by (auto intro!: yields_then yields.yields_done)
qed (auto intro!: yields.yields_step)

lemma past_bind: "past I J p \<Longrightarrow> yields I p Q \<Longrightarrow> (\<And>x. Q x \<Longrightarrow> past I J (f x)) \<Longrightarrow> past I J (bindP p f)"
proof (induction p rule: past.induct)
  case (past_done r)
  then show ?case by (cases r) (auto intro: past.past_done elim!: yields_doneE)
next
  case (past_step g)
  have step: "past I J (bindP (snd (g s)) f) \<and> (J (fst (g s)) \<or> doomed I (bindP (snd (g s)) f))" if "I s" "J s" for s
    using past_step.IH [OF that] past_step.prems that by (blast intro: doomed_bind elim: yields_stepE)
  show ?case by (simp, rule past.past_step) (use step in simp)
qed (auto intro!: past.past_doomed intro: doomed_bind)

lemma past_catch: "past I J p \<Longrightarrow> (\<And>e. doomed I (h e)) \<Longrightarrow> past I J (catchP p h)"
proof (induction p rule: past.induct)
  case (past_done r)
  then show ?case by (cases r) (auto intro: past.past_done past.past_doomed)
next
  case (past_step g)
  have step: "past I J (catchP (snd (g s)) h) \<and> (J (fst (g s)) \<or> doomed I (catchP (snd (g s)) h))" if "I s" "J s" for s
    using past_step.IH [OF that] past_step.prems that by (blast intro: yields_catch)
  show ?case by (simp, rule past.past_step) (use step in simp)
qed (auto intro!: past.past_doomed intro: yields_catch)

lemma past_finally: "past I J p \<Longrightarrow> past I J q \<Longrightarrow> past I J (finallyP p q)"
proof (induction p rule: past.induct)
  case (past_done r)
  then show ?case by (auto intro!: past_bind [OF _ yields_True] past.past_done)
next
  case (past_step g)
  have step: "past I J (finallyP (snd (g s)) q) \<and> (J (fst (g s)) \<or> doomed I (finallyP (snd (g s)) q))" if "I s" "J s" for s
    using past_step.IH [OF that] past_step.prems that by (blast intro: yields_finally)
  show ?case by (simp, rule past.past_step) (use step in simp)
qed (auto intro!: past.past_doomed intro: yields_finally)

lemma looking_bind: "looking I J K p \<Longrightarrow> (\<And>x. past I J (f x)) \<Longrightarrow> looking I J K (bindP p f)"
proof (induction p rule: looking.induct)
  case (looking_step g)
  have step: "(J (fst (g s)) \<or> doomed I (bindP (snd (g s)) f)) \<and>
      (looking I J K (bindP (snd (g s)) f) \<or> \<not> K s \<and> past I J (bindP (snd (g s)) f))" if "I s" "J s" for s
    using looking_step.IH [OF that] looking_step.prems by (blast intro: doomed_bind past_bind yields_True)
  show ?case by (simp, rule looking.looking_step) (use step in simp)
qed (auto intro!: looking.looking_doomed doomed_bind)

lemma past_then_looking: "past I J p \<Longrightarrow> yields I p Q \<Longrightarrow> (\<And>x. Q x \<Longrightarrow> looking I J K (f x)) \<Longrightarrow> looking I J K (bindP p f)"
proof (induction p rule: past.induct)
  case (past_done r)
  then show ?case by (cases r) (auto intro: looking.looking_doomed yields_done elim!: yields_doneE)
next
  case (past_step g)
  have step: "(J (fst (g s)) \<or> doomed I (bindP (snd (g s)) f)) \<and> looking I J K (bindP (snd (g s)) f)" if "I s" "J s" for s
    using past_step.IH [OF that] past_step.prems that by (blast intro: doomed_bind elim: yields_stepE)
  show ?case by (simp, rule looking.looking_step) (use step in simp)
qed (auto intro!: looking.looking_doomed doomed_bind)

lemma looking_catch: "looking I J K p \<Longrightarrow> (\<And>e. doomed I (h e)) \<Longrightarrow> looking I J K (catchP p h)"
proof (induction p rule: looking.induct)
  case (looking_step g)
  have step: "(J (fst (g s)) \<or> doomed I (catchP (snd (g s)) h)) \<and>
      (looking I J K (catchP (snd (g s)) h) \<or> \<not> K s \<and> past I J (catchP (snd (g s)) h))" if "I s" "J s" for s
    using looking_step.IH [OF that] looking_step.prems by (blast intro: yields_catch past_catch)
  show ?case by (simp, rule looking.looking_step) (use step in simp)
qed (auto intro!: looking.looking_doomed yields_catch)

lemma looking_finally: "looking I J K p \<Longrightarrow> past I J q \<Longrightarrow> looking I J K (finallyP p q)"
proof (induction p rule: looking.induct)
  case (looking_step g)
  have step: "(J (fst (g s)) \<or> doomed I (finallyP (snd (g s)) q)) \<and>
      (looking I J K (finallyP (snd (g s)) q) \<or> \<not> K s \<and> past I J (finallyP (snd (g s)) q))" if "I s" "J s" for s
    using looking_step.IH [OF that] looking_step.prems by (blast intro: yields_finally past_finally)
  show ?case by (simp, rule looking.looking_step) (use step in simp)
qed (auto intro!: looking.looking_doomed yields_finally)

lemma starting_then: "(\<And>x. starting I J K (f x)) \<Longrightarrow> starting I J K (bindP p f)"
proof (induction p rule: prog_induct)
  case (Done r)
  then show ?case by (cases r) (auto intro: starting.starting_doomed yields_done)
qed (auto intro!: starting.starting_step)

lemma starting_bind: "starting I J K p \<Longrightarrow> (\<And>x. past I J (f x)) \<Longrightarrow> starting I J K (bindP p f)"
proof (induction p rule: starting.induct)
  case (starting_step g)
  have step: "starting I J K (bindP (snd (g s)) f) \<or> J (fst (g s)) \<and> looking I J K (bindP (snd (g s)) f)" if "I s" for s
    using starting_step.IH [OF that] starting_step.prems by (blast intro: looking_bind)
  show ?case by (simp, rule starting.starting_step) (use step in simp)
qed (auto intro!: starting.starting_doomed doomed_bind)

lemma starting_catch: "starting I J K p \<Longrightarrow> (\<And>e. doomed I (h e)) \<Longrightarrow> starting I J K (catchP p h)"
proof (induction p rule: starting.induct)
  case (starting_step g)
  have step: "starting I J K (catchP (snd (g s)) h) \<or> J (fst (g s)) \<and> looking I J K (catchP (snd (g s)) h)" if "I s" for s
    using starting_step.IH [OF that] starting_step.prems by (blast intro: looking_catch)
  show ?case by (simp, rule starting.starting_step) (use step in simp)
qed (auto intro!: starting.starting_doomed yields_catch)

lemma starting_finally: "starting I J K p \<Longrightarrow> past I J q \<Longrightarrow> starting I J K (finallyP p q)"
proof (induction p rule: starting.induct)
  case (starting_step g)
  have step: "starting I J K (finallyP (snd (g s)) q) \<or> J (fst (g s)) \<and> looking I J K (finallyP (snd (g s)) q)" if "I s" for s
    using starting_step.IH [OF that] starting_step.prems by (blast intro: looking_finally)
  show ?case by (simp, rule starting.starting_step) (use step in simp)
qed (auto intro!: starting.starting_doomed yields_finally)

lemma keeps_bind: "keeps I K p \<Longrightarrow> yields I p Q \<Longrightarrow> (\<And>x. Q x \<Longrightarrow> keeps I K (f x)) \<Longrightarrow> keeps I K (bindP p f)"
proof (induction p rule: keeps.induct)
  case (keeps_done r)
  then show ?case by (cases r) (auto intro: keeps.keeps_done elim!: yields_doneE)
qed (auto intro!: keeps.keeps_step elim!: yields_stepE)

lemmas keeps_then = keeps_bind [OF _ yields_True]
lemmas past_then = past_bind [OF _ yields_True]

lemma keeps_catch: "keeps I K p \<Longrightarrow> (\<And>e. keeps I K (h e)) \<Longrightarrow> keeps I K (catchP p h)"
proof (induction p rule: keeps.induct)
  case (keeps_done r)
  then show ?case by (cases r) (auto intro: keeps.keeps_done)
qed (auto intro!: keeps.keeps_step)

lemma keeps_finally: "keeps I K p \<Longrightarrow> keeps I K q \<Longrightarrow> keeps I K (finallyP p q)"
proof (induction p rule: keeps.induct)
  case (keeps_done r)
  then show ?case by (auto intro!: keeps_then keeps.keeps_done)
qed (auto intro!: keeps.keeps_step)

text \<open>A program whose steps keep its evidence is past.\<close>

lemma keeps_past: "keeps I J p \<Longrightarrow> past I J p"
  by (induction p rule: keeps.induct) (auto intro: past.intros)

section \<open>Leaving evidence\<close>

text \<open>A program that cannot succeed before its evidence is in place, and then keeps it.\<close>

inductive places :: "('s \<Rightarrow> bool) \<Rightarrow> ('s \<Rightarrow> bool) \<Rightarrow> ('s, 'a) prog \<Rightarrow> bool" for I J where
  places_doomed: "doomed I p \<Longrightarrow> places I J p"
| places_step: "(\<And>s. I s \<Longrightarrow> places I J (snd (g s)) \<or> J (fst (g s)) \<and> past I J (snd (g s))) \<Longrightarrow> places I J (Step g)"

lemma places_then: "(\<And>x. places I J (f x)) \<Longrightarrow> places I J (bindP p f)"
proof (induction p rule: prog_induct)
  case (Done r)
  then show ?case by (cases r) (auto intro: places.places_doomed yields_done)
qed (auto intro!: places.places_step)

lemma places_bind: "places I J p \<Longrightarrow> (\<And>x. past I J (f x)) \<Longrightarrow> places I J (bindP p f)"
proof (induction p rule: places.induct)
  case (places_step g)
  have step: "places I J (bindP (snd (g s)) f) \<or> J (fst (g s)) \<and> past I J (bindP (snd (g s)) f)" if "I s" for s
    using places_step.IH [OF that] places_step.prems by (blast intro: past_then)
  show ?case by (simp, rule places.places_step) (use step in simp)
qed (auto intro!: places.places_doomed doomed_bind)

lemma places_catch: "places I J p \<Longrightarrow> (\<And>e. doomed I (h e)) \<Longrightarrow> places I J (catchP p h)"
proof (induction p rule: places.induct)
  case (places_step g)
  have step: "places I J (catchP (snd (g s)) h) \<or> J (fst (g s)) \<and> past I J (catchP (snd (g s)) h)" if "I s" for s
    using places_step.IH [OF that] places_step.prems by (blast intro: past_catch)
  show ?case by (simp, rule places.places_step) (use step in simp)
qed (auto intro!: places.places_doomed yields_catch)

lemma places_starting: "places I J p \<Longrightarrow> (\<And>x. looking I J K (f x)) \<Longrightarrow> starting I J K (bindP p f)"
proof (induction p rule: places.induct)
  case (places_step g)
  have step: "starting I J K (bindP (snd (g s)) f) \<or> J (fst (g s)) \<and> looking I J K (bindP (snd (g s)) f)" if "I s" for s
    using places_step.IH [OF that] places_step.prems by (blast intro: past_then_looking [OF _ yields_True])
  show ?case by (simp, rule starting.starting_step) (use step in simp)
qed (auto intro!: starting.starting_doomed doomed_bind)

lemma yields_Done [simp]: "yields I (Done r) Q \<longleftrightarrow> (\<forall>x. r = Inr x \<longrightarrow> Q x)"
  by (auto intro: yields_done elim: yields_doneE)

lemma done_simps [simp]: "past I J (Done r)" "keeps I K (Done r)" "looking I J K (Done (Inl e))" "places I J (Done (Inl e))"
  by (auto intro: past_done keeps_done looking_doomed places_doomed)

lemma bindP_assoc: "bindP (bindP p f) g = bindP p (\<lambda>x. bindP (f x) g)"
proof (induction p rule: prog_induct)
  case (Done r)
  then show ?case by (cases r) simp_all
qed (simp add: fun_eq_iff map_prod_def split_def)

end
