(* ===== verification/Account_Fence.thy ===== *)
theory Account_Fence
  imports Interleaving Durable_Files Sha256 "HOL-Library.Product_Lexorder"
begin

text \<open>
  \<open>connection_hub/delegated_credentials/cards/account_fence.py\<close>: the fence that keeps a card from being bound to a
  connected account while the account is being disconnected, with the operations of \<open>cards/service.py\<close> that use it.

  The calls are programs over the card store's files and the sections of the mutation lock that are held, so that
  they can be interleaved. Paths are relative to the store's root. Taking a section that is held ends in the
  lock's time-out, a faulty lock in \<open>card_lock_unavailable\<close>; waiting is a later turn. The check of a stored receipt
  (\<open>transaction_store._validate\<close>) is a parameter: everything here holds for each such check.
\<close>

section \<open>State\<close>

type_synonym account = "pystr \<times> pystr"

datatype lock_section = Card_Section pystr pystr | Account_Section pystr

record fence_world =
  fw_fs :: fs
  fw_sections :: "lock_section list"

type_synonym 'a fence_prog = "(fence_world, 'a) prog"
type_synonym receipt_check = "pyval \<Rightarrow> pystr \<Rightarrow> exn + pydict"

definition on_files :: "(fs, 'a) action \<Rightarrow> 'a fence_prog" where
  "on_files m = atomicP (\<lambda>w. case m (fw_fs w) of (s, r) \<Rightarrow> (w\<lparr>fw_fs := s\<rparr>, r))"

definition read_file :: "path \<Rightarrow> (pyval option) fence_prog" where
  "read_file p = on_files (read_json_or_none p)"

definition write_file :: "path \<Rightarrow> pyval \<Rightarrow> unit fence_prog" where
  "write_file p v = on_files (write_json_atomic p v)"

definition remove_file :: "path \<Rightarrow> unit fence_prog" where
  "remove_file p = on_files (\<lambda>s. (fst (unlink p s), Inr ()))"

definition enter_section :: "lock_section \<Rightarrow> unit fence_prog" where
  "enter_section x = atomicP (\<lambda>w.
     let w' = w\<lparr>fw_fs := fs_tick (fw_fs w)\<rparr>
     in if fs_next (fw_fs w) \<noteq> No_Fault then (w', Inl (CardStorageError ''card_lock_unavailable''))
        else if x \<in> set (fw_sections w) then (w', Inl CardMutationLockTimeout)
        else (w'\<lparr>fw_sections := x # fw_sections w\<rparr>, Inr ()))"

definition leave_section :: "lock_section \<Rightarrow> unit fence_prog" where
  "leave_section x = atomicP (\<lambda>w. (w\<lparr>fw_sections := removeAll x (fw_sections w)\<rparr>, Inr ()))"

section \<open>Accounts and paths\<close>

definition FENCES_DIRNAME :: pystr where "FENCES_DIRNAME = lit ''account-fences''"
definition BY_TRANSACTION :: pystr where "BY_TRANSACTION = lit ''by-transaction''"
definition dot_json :: pystr where "dot_json = lit ''.json''"

record card_authority =
  ca_access_id :: pystr
  ca_account_scope :: "(pystr \<times> (pystr \<times> pystr list) list) list"

definition account_key :: "pystr \<Rightarrow> pystr \<Rightarrow> exn + pystr" where
  "account_key provider_id account_id = bindE (utf8_encode (provider_id @ 0 # account_id)) (\<lambda>b. Inr (sha256_hexdigest b))"

definition bound_accounts :: "card_authority option \<Rightarrow> account set" where
  "bound_accounts authority = (case authority of None \<Rightarrow> {}
     | Some c \<Rightarrow> set (concat (map (\<lambda>(provider, accounts). map (\<lambda>(account, _). (provider, account)) accounts) (ca_account_scope c))))"

definition added_accounts :: "card_authority option \<Rightarrow> card_authority \<Rightarrow> account set" where
  "added_accounts current candidate = bound_accounts (Some candidate) - bound_accounts current"

definition account_dir :: "account \<Rightarrow> exn + path" where
  "account_dir a = bindE (account_key (fst a) (snd a)) (\<lambda>k. Inr [FENCES_DIRNAME, k])"

definition fence_path :: "account \<Rightarrow> exn + path" where
  "fence_path a = bindE (account_dir a) (\<lambda>d. Inr (d @ [lit ''fence.json'']))"

definition mark_path :: "account \<Rightarrow> pystr \<Rightarrow> exn + path" where
  "mark_path a mark_id = bindE (account_dir a) (\<lambda>d. Inr (d @ [lit ''pending'', mark_id @ dot_json]))"

definition index_path :: "pystr \<Rightarrow> exn + path" where
  "index_path tx = bindE (utf8_encode tx) (\<lambda>b. Inr [FENCES_DIRNAME, BY_TRANSACTION, sha256_hexdigest b @ dot_json])"

definition checked_id :: "pystr \<Rightarrow> exn + pystr" where
  "checked_id tx = (if is_digest tx then Inr tx else Inl (CardStorageError ''card_transaction_id_invalid''))"

definition receipt_path :: "pystr \<Rightarrow> exn + path" where
  "receipt_path tx = bindE (checked_id tx) (\<lambda>i. Inr [lit ''card-transactions'', i @ dot_json])"

definition tombstone_path :: "pystr \<Rightarrow> exn + path" where
  "tombstone_path tx = bindE (checked_id tx) (\<lambda>i. Inr [lit ''card-transactions'', lit ''aborted'', i @ dot_json])"

section \<open>Transactions\<close>

definition read_receipt :: "receipt_check \<Rightarrow> pystr \<Rightarrow> (pydict option) fence_prog" where
  "read_receipt validate tx = bindP (liftP (receipt_path tx)) (\<lambda>p. bindP (read_file p) (\<lambda>raw.
     case raw of None \<Rightarrow> retP None | Some v \<Rightarrow> bindP (liftP (validate v tx)) (\<lambda>d. retP (Some d))))"

definition transaction_state :: "receipt_check \<Rightarrow> (pyval \<Rightarrow> bool) \<Rightarrow> pystr \<Rightarrow> bool fence_prog" where
  "transaction_state validate reached tx = bindP (liftP (tombstone_path tx)) (\<lambda>p. bindP (read_file p) (\<lambda>tombstone.
     if tombstone \<noteq> None then retP True
     else bindP (read_receipt validate tx) (\<lambda>receipt.
       retP (case receipt of None \<Rightarrow> False | Some d \<Rightarrow> reached (dget_or d ''state'' PNone)))))"

definition is_decided :: "pyval \<Rightarrow> bool" where
  "is_decided x \<longleftrightarrow> x \<noteq> PStr (lit ''prepared'') \<and> x \<noteq> PStr (lit ''unstaged'')"

definition is_aborted :: "pyval \<Rightarrow> bool" where
  "is_aborted x \<longleftrightarrow> x = PStr (lit ''aborted'')"

definition transaction_terminal :: "receipt_check \<Rightarrow> pystr \<Rightarrow> bool fence_prog" where
  "transaction_terminal validate = transaction_state validate is_decided"

definition transaction_aborted :: "receipt_check \<Rightarrow> pystr \<Rightarrow> bool fence_prog" where
  "transaction_aborted validate = transaction_state validate is_aborted"

text \<open>The text \<open>transaction_id\<close> of a fence or index file.\<close>

definition file_tx :: "pyval \<Rightarrow> pystr option" where
  "file_tx v = (case v of PDict d \<Rightarrow> (case dget_or d ''transaction_id'' PNone of PStr t \<Rightarrow> Some t | _ \<Rightarrow> None) | _ \<Rightarrow> None)"

definition fence_holder :: "account \<Rightarrow> pystr fence_prog" where
  "fence_holder a = bindP (liftP (fence_path a)) (\<lambda>f. bindP (read_file f) (\<lambda>raw.
     retP (case raw of None \<Rightarrow> [] | Some v \<Rightarrow> (case file_tx v of None \<Rightarrow> lit ''unreadable'' | Some t \<Rightarrow> t))))"

definition blocking_fence :: "receipt_check \<Rightarrow> account \<Rightarrow> pystr \<Rightarrow> pystr fence_prog" where
  "blocking_fence validate a own = bindP (liftP (fence_path a)) (\<lambda>f. bindP (read_file f) (\<lambda>raw.
     case raw of None \<Rightarrow> retP []
     | Some v \<Rightarrow>
        (case file_tx v of None \<Rightarrow> retP (lit ''unreadable'')
         | Some holder \<Rightarrow>
            if holder = own then retP []
            else bindP (transaction_aborted validate holder) (\<lambda>aborted. retP (if aborted then [] else holder)))))"

section \<open>The writer's marks\<close>

definition mark_value :: "pystr \<Rightarrow> pystr \<Rightarrow> pystr \<Rightarrow> pystr \<Rightarrow> pyval" where
  "mark_value kind subject_hash access_id tx = obj [(''kind'', PStr kind), (''subject_hash'', PStr subject_hash),
     (''access_id'', PStr access_id), (''transaction_id'', PStr tx)]"

fun remove_files :: "path list \<Rightarrow> unit fence_prog" where
  "remove_files [] = retP ()"
| "remove_files (p # ps) = bindP (remove_file p) (\<lambda>_. remove_files ps)"

definition undo_marks :: "path list \<Rightarrow> exn \<Rightarrow> 'a fence_prog" where
  "undo_marks written e = bindP (remove_files written) (\<lambda>_. failP e)"

fun write_marks :: "account list \<Rightarrow> pystr \<Rightarrow> pyval \<Rightarrow> path list \<Rightarrow> (path list) fence_prog" where
  "write_marks [] mark_id v written = retP written"
| "write_marks (a # as) mark_id v written =
     bindP (catchP (bindP (liftP (mark_path a mark_id)) (\<lambda>p. bindP (write_file p v) (\<lambda>_. retP p))) (undo_marks written))
       (\<lambda>p. write_marks as mark_id v (written @ [p]))"

fun refuse_fenced :: "receipt_check \<Rightarrow> pystr \<Rightarrow> account list \<Rightarrow> unit fence_prog" where
  "refuse_fenced validate own [] = retP ()"
| "refuse_fenced validate own (a # as) = bindP (blocking_fence validate a own) (\<lambda>holder.
     if holder \<noteq> [] then failP (AccountFenceRefused ''card_account_reserved'') else refuse_fenced validate own as)"

definition mark_binding ::
  "receipt_check \<Rightarrow> account set \<Rightarrow> pystr \<Rightarrow> pystr \<Rightarrow> pystr \<Rightarrow> pystr \<Rightarrow> pystr \<Rightarrow> unit fence_prog" where
  "mark_binding validate accounts mark_id kind subject_hash access_id tx =
     (let chosen = sorted_list_of_set accounts
      in bindP (write_marks chosen mark_id (mark_value kind subject_hash access_id tx) []) (\<lambda>written.
           catchP (refuse_fenced validate tx chosen) (undo_marks written)))"

fun clear_marks :: "account list \<Rightarrow> pystr \<Rightarrow> unit fence_prog" where
  "clear_marks [] mark_id = retP ()"
| "clear_marks (a # as) mark_id = bindP (liftP (mark_path a mark_id)) (\<lambda>p. bindP (remove_file p) (\<lambda>_. clear_marks as mark_id))"

definition clear_binding :: "account set \<Rightarrow> pystr \<Rightarrow> unit fence_prog" where
  "clear_binding accounts mark_id = clear_marks (sorted_list_of_set accounts) mark_id"

text \<open>The body is the write the mark is held around; \<open>uuid\<close> is the fresh identifier.\<close>

definition binding_mark ::
  "receipt_check \<Rightarrow> card_authority option \<Rightarrow> card_authority \<Rightarrow> pystr \<Rightarrow> pystr \<Rightarrow> 'a fence_prog \<Rightarrow> 'a fence_prog" where
  "binding_mark validate current candidate subject_hash uuid body =
     (let accounts = added_accounts current candidate; mark_id = lit ''direct-'' @ uuid
      in if accounts = {} then body
         else bindP (mark_binding validate accounts mark_id (lit ''direct'') subject_hash (ca_access_id candidate) []) (\<lambda>_.
           finallyP body (clear_binding accounts mark_id)))"

section \<open>The disconnect's fences\<close>

definition is_json_name :: "pystr \<Rightarrow> bool" where
  "is_json_name n \<longleftrightarrow> length dot_json \<le> length n \<and> drop (length n - length dot_json) n = dot_json"

definition list_marks :: "path \<Rightarrow> (pystr list) fence_prog" where
  "list_marks d = on_files (\<lambda>s. (s, Inr (filter is_json_name (child_names (fs_files s) d))))"

definition staged_tx :: "pydict \<Rightarrow> pystr option" where
  "staged_tx d = (case dget_or d ''transaction_id'' PNone of
     PStr tx \<Rightarrow> if dget_or d ''kind'' PNone = PStr (lit ''staged'') \<and> tx \<noteq> [] then Some tx else None | _ \<Rightarrow> None)"

definition direct_card :: "pydict \<Rightarrow> (pystr \<times> pystr) option" where
  "direct_card d = (case (dget_or d ''subject_hash'' PNone, dget_or d ''access_id'' PNone) of
     (PStr h, PStr i) \<Rightarrow> if dget_or d ''kind'' PNone = PStr (lit ''direct'') then Some (h, i) else None | _ \<Rightarrow> None)"

definition drop_decided :: "receipt_check \<Rightarrow> path \<Rightarrow> pystr \<Rightarrow> bool fence_prog" where
  "drop_decided validate p tx = bindP (transaction_terminal validate tx) (\<lambda>over.
     if over then bindP (remove_file p) (\<lambda>_. retP False) else retP True)"

definition drop_orphan :: "(pystr \<Rightarrow> pystr \<Rightarrow> bool fence_prog) \<Rightarrow> path \<Rightarrow> pystr \<Rightarrow> pystr \<Rightarrow> bool fence_prog" where
  "drop_orphan probe p subject_hash access_id = bindP (probe subject_hash access_id) (\<lambda>held. if held then retP True
     else bindP (read_file p) (\<lambda>again. if again \<noteq> None then bindP (remove_file p) (\<lambda>_. retP False) else retP False))"

definition judge_mark :: "receipt_check \<Rightarrow> (pystr \<Rightarrow> pystr \<Rightarrow> bool fence_prog) \<Rightarrow> path \<Rightarrow> pyval option \<Rightarrow> bool fence_prog" where
  "judge_mark validate probe p mark = (case mark of
       Some (PDict d) \<Rightarrow>
         (case staged_tx d of Some tx \<Rightarrow> drop_decided validate p tx
          | None \<Rightarrow> (case direct_card d of Some (h, i) \<Rightarrow> drop_orphan probe p h i | None \<Rightarrow> retP True))
     | _ \<Rightarrow> retP False)"

fun judge_marks :: "receipt_check \<Rightarrow> (pystr \<Rightarrow> pystr \<Rightarrow> bool fence_prog) \<Rightarrow> path \<Rightarrow> pystr list \<Rightarrow> bool \<Rightarrow> bool fence_prog" where
  "judge_marks validate probe d [] live = retP live"
| "judge_marks validate probe d (n # ns) live = bindP (read_file (d @ [n])) (\<lambda>mark.
     bindP (judge_mark validate probe (d @ [n]) mark) (\<lambda>alive. judge_marks validate probe d ns (live \<or> alive)))"

definition live_marks :: "receipt_check \<Rightarrow> (pystr \<Rightarrow> pystr \<Rightarrow> bool fence_prog) \<Rightarrow> account \<Rightarrow> bool fence_prog" where
  "live_marks validate probe a = bindP (liftP (account_dir a)) (\<lambda>d.
     bindP (list_marks (d @ [lit ''pending''])) (\<lambda>names. judge_marks validate probe (d @ [lit ''pending'']) names False))"

definition fence_value :: "pystr \<Rightarrow> pyval" where
  "fence_value tx = obj [(''transaction_id'', PStr tx)]"

definition index_value :: "pystr \<Rightarrow> account list \<Rightarrow> pyval" where
  "index_value tx chosen = obj [(''transaction_id'', PStr tx), (''accounts'', PList (map (\<lambda>(p, a). PList [PStr p, PStr a]) chosen))]"

fun write_fences :: "pystr \<Rightarrow> account list \<Rightarrow> unit fence_prog" where
  "write_fences tx [] = retP ()"
| "write_fences tx (a # as) = bindP (liftP (fence_path a)) (\<lambda>f. bindP (write_file f (fence_value tx)) (\<lambda>_. write_fences tx as))"

fun recheck :: "receipt_check \<Rightarrow> (pystr \<Rightarrow> pystr \<Rightarrow> bool fence_prog) \<Rightarrow> pystr \<Rightarrow> account list \<Rightarrow> unit fence_prog" where
  "recheck validate probe tx [] = retP ()"
| "recheck validate probe tx (a # as) = bindP (blocking_fence validate a tx) (\<lambda>holder.
     if holder \<noteq> [] then failP (AccountFenceRefused ''card_account_reserved'')
     else bindP (live_marks validate probe a) (\<lambda>live.
       if live then failP (AccountFenceRefused ''card_account_binding_in_progress'') else recheck validate probe tx as))"

text \<open>The accounts an index file names, each a pair.\<close>

definition index_accounts :: "pydict \<Rightarrow> exn + account list" where
  "index_accounts d = (let raw = dget_or d ''accounts'' PNone
     in bindE (if truthy raw then iter_of raw else Inr []) (\<lambda>items.
          Inr (List.map_filter (\<lambda>x. case x of PList [p, a] \<Rightarrow> Some (py_str p, py_str a) | PTuple [p, a] \<Rightarrow> Some (py_str p, py_str a) | _ \<Rightarrow> None) items)))"

definition read_index :: "pystr \<Rightarrow> (account list option) fence_prog" where
  "read_index tx = bindP (liftP (index_path tx)) (\<lambda>i. bindP (read_file i) (\<lambda>raw.
     case raw of Some (PDict d) \<Rightarrow>
       if file_tx (PDict d) = Some tx then bindP (liftP (index_accounts d)) (\<lambda>as. retP (Some as)) else retP None
     | _ \<Rightarrow> retP None))"

fun remove_fences :: "pystr \<Rightarrow> account list \<Rightarrow> unit fence_prog" where
  "remove_fences tx [] = retP ()"
| "remove_fences tx (a # as) = bindP (liftP (fence_path a)) (\<lambda>f. bindP (read_file f) (\<lambda>raw.
     bindP (if (case raw of None \<Rightarrow> None | Some v \<Rightarrow> file_tx v) = Some tx then remove_file f else retP ()) (\<lambda>_. remove_fences tx as)))"

definition release_held :: "pystr \<Rightarrow> unit fence_prog" where
  "release_held tx = bindP (read_index tx) (\<lambda>index.
     case index of None \<Rightarrow> retP ()
     | Some as \<Rightarrow> bindP (remove_fences tx as) (\<lambda>_. bindP (liftP (index_path tx)) remove_file))"

definition reserve_held :: "receipt_check \<Rightarrow> (pystr \<Rightarrow> pystr \<Rightarrow> bool fence_prog) \<Rightarrow> account list \<Rightarrow> pystr \<Rightarrow> unit fence_prog" where
  "reserve_held validate probe chosen tx =
     bindP (refuse_fenced validate tx chosen) (\<lambda>_.
     bindP (liftP (index_path tx)) (\<lambda>i.
     bindP (write_file i (index_value tx chosen)) (\<lambda>_.
     bindP (write_fences tx chosen) (\<lambda>_.
       catchP (recheck validate probe tx chosen) (\<lambda>e. bindP (release_held tx) (\<lambda>_. failP e))))))"

fun in_sections :: "account list \<Rightarrow> unit fence_prog \<Rightarrow> unit fence_prog" where
  "in_sections [] body = body"
| "in_sections (a # as) body = bindP (liftP (account_key (fst a) (snd a))) (\<lambda>k. bindP (enter_section (Account_Section k)) (\<lambda>_.
     finallyP (in_sections as body) (leave_section (Account_Section k))))"

definition reserve_accounts :: "receipt_check \<Rightarrow> (pystr \<Rightarrow> pystr \<Rightarrow> bool fence_prog) \<Rightarrow> account set \<Rightarrow> pystr \<Rightarrow> unit fence_prog" where
  "reserve_accounts validate probe accounts tx =
     (let chosen = sorted_list_of_set accounts in in_sections chosen (reserve_held validate probe chosen tx))"

definition release_transaction :: "pystr \<Rightarrow> unit fence_prog" where
  "release_transaction tx = bindP (read_index tx) (\<lambda>index.
     case index of None \<Rightarrow> retP ()
     | Some as \<Rightarrow> in_sections (sorted_list_of_set (set as)) (release_held tx))"

section \<open>The operations of the card service\<close>

definition card_subject_hash :: "pystr \<Rightarrow> exn + pystr" where
  "card_subject_hash v = (let h = py_lower (py_strip v) in if is_digest h then Inr h else Inl (CardStorageError ''subject_hash_invalid''))"

definition card_access_id :: "pystr \<Rightarrow> exn + pystr" where
  "card_access_id v = (let i = py_strip v
     in if 1 \<le> length i \<and> length i \<le> 128 \<and> (\<forall>c \<in> set i. is_alnum c \<or> c = 95 \<or> c = 45) then Inr i
        else Inl (CardStorageError ''access_id_invalid''))"

text \<open>The section of a card is its lock file, whose path has the normalised names.\<close>

definition card_section :: "pystr \<Rightarrow> pystr \<Rightarrow> exn + lock_section" where
  "card_section subject_hash access_id =
     bindE (card_subject_hash subject_hash) (\<lambda>h. bindE (card_access_id access_id) (\<lambda>i. Inr (Card_Section h i)))"

definition card_section_held :: "pystr \<Rightarrow> pystr \<Rightarrow> bool fence_prog" where
  "card_section_held subject_hash access_id = bindP (liftP (card_section subject_hash access_id)) (\<lambda>x.
     atomicP (\<lambda>w. let w' = w\<lparr>fw_fs := fs_tick (fw_fs w)\<rparr>
       in if fs_next (fw_fs w) \<noteq> No_Fault then (w', Inl (CardStorageError ''card_lock_unavailable''))
          else (w', Inr (x \<in> set (fw_sections w)))))"

definition account_binding_mark ::
  "receipt_check \<Rightarrow> card_authority option \<Rightarrow> card_authority \<Rightarrow> pystr \<Rightarrow> pystr \<Rightarrow> 'a fence_prog \<Rightarrow> 'a fence_prog" where
  "account_binding_mark validate current candidate subject_hash uuid body =
     catchP (binding_mark validate current candidate subject_hash uuid body) (\<lambda>e.
       case e of AccountFenceRefused reason \<Rightarrow> failP (CardConflict reason) | _ \<Rightarrow> failP e)"

definition service_reserve_accounts :: "receipt_check \<Rightarrow> account set \<Rightarrow> pystr \<Rightarrow> unit fence_prog" where
  "service_reserve_accounts validate accounts tx =
     catchP (reserve_accounts validate card_section_held accounts tx) (\<lambda>e.
       case e of AccountFenceRefused reason \<Rightarrow> failP (CardTransactionRefused reason)
       | CardMutationLockTimeout \<Rightarrow> failP (CardTransactionRefused ''card_account_reserved'') | _ \<Rightarrow> failP e)"

definition service_release_accounts :: "pystr \<Rightarrow> unit fence_prog" where
  "service_release_accounts tx = catchP (release_transaction tx) (\<lambda>e.
     case e of CardMutationLockTimeout \<Rightarrow> failP (CardConflict ''card_mutation_lock_timeout'') | _ \<Rightarrow> failP e)"

definition transaction_mutation_id :: "pystr \<Rightarrow> pystr" where
  "transaction_mutation_id tx = lit ''tx-'' @ tx"

definition mark_staged_binding ::
  "receipt_check \<Rightarrow> pystr \<Rightarrow> pystr \<Rightarrow> card_authority option \<Rightarrow> card_authority \<Rightarrow> unit fence_prog" where
  "mark_staged_binding validate tx subject_hash original candidate =
     (let accounts = added_accounts original candidate
      in if accounts = {} then retP ()
         else catchP (mark_binding validate accounts (transaction_mutation_id tx) (lit ''staged'') subject_hash (ca_access_id candidate) tx)
           (\<lambda>e. case e of AccountFenceRefused reason \<Rightarrow> failP (CardTransactionRefused reason) | _ \<Rightarrow> failP e))"

definition clear_staged_binding :: "pystr \<Rightarrow> card_authority option \<Rightarrow> card_authority \<Rightarrow> unit fence_prog" where
  "clear_staged_binding tx original candidate = clear_binding (added_accounts original candidate) (transaction_mutation_id tx)"

end
