(* ===== verification/Fence_Races.thy ===== *)
theory Fence_Races
  imports Account_Fence
begin

text \<open>
  What the account fences promise: a writer that adds an account to a card and a disconnect of that account never
  both go ahead, however their steps fall.
\<close>

section \<open>One race\<close>

text \<open>
  An account's directory, the writer (its mark's name and content, and its transaction if it is staged) and the
  transaction of the disconnect.
\<close>

record race =
  ra_validate :: receipt_check
  ra_key :: pystr
  ra_mark_id :: pystr
  ra_kind :: pystr
  ra_subject_hash :: pystr
  ra_access_id :: pystr
  ra_own :: pystr
  ra_tx :: pystr

definition fence_file :: "race \<Rightarrow> path" where
  "fence_file c = [FENCES_DIRNAME, ra_key c, lit ''fence.json'']"

definition mark_file :: "race \<Rightarrow> path" where
  "mark_file c = [FENCES_DIRNAME, ra_key c, lit ''pending'', ra_mark_id c @ dot_json]"

definition race_mark :: "race \<Rightarrow> pyval" where
  "race_mark c = mark_value (ra_kind c) (ra_subject_hash c) (ra_access_id c) (ra_own c)"

definition look :: "fence_world \<Rightarrow> path \<Rightarrow> stored_file option" where
  "look w p = fs_lookup (fw_fs w) p"

definition fence_on :: "race \<Rightarrow> fence_world \<Rightarrow> bool" where
  "fence_on c w \<longleftrightarrow> (\<exists>v. look w (fence_file c) = Some (Json v) \<and> file_tx v = Some (ra_tx c))"

definition mark_on :: "race \<Rightarrow> fence_world \<Rightarrow> bool" where
  "mark_on c w \<longleftrightarrow> look w (mark_file c) = Some (Json (reread (race_mark c)))"

definition reached_state :: "receipt_check \<Rightarrow> (pyval \<Rightarrow> bool) \<Rightarrow> pystr \<Rightarrow> fence_world \<Rightarrow> bool" where
  "reached_state validate reached tx w \<longleftrightarrow>
     (\<exists>p v. tombstone_path tx = Inr p \<and> parsed (look w p) = Inr (Some v)) \<or>
     (\<exists>p v d. receipt_path tx = Inr p \<and> parsed (look w p) = Inr (Some v) \<and> validate v tx = Inr d \<and> reached (dget_or d ''state'' PNone))"

text \<open>A direct writer holds its card's section, a staged one is not decided.\<close>

definition writer_live :: "race \<Rightarrow> fence_world \<Rightarrow> bool" where
  "writer_live c w \<longleftrightarrow>
     ra_kind c = lit ''direct'' \<and> (\<exists>x. card_section (ra_subject_hash c) (ra_access_id c) = Inr x \<and> x \<in> set (fw_sections w)) \<or>
     ra_kind c = lit ''staged'' \<and> ra_own c \<noteq> [] \<and> \<not> reached_state (ra_validate c) is_decided (ra_own c) w"

text \<open>
  What holds during the race: the mark's name is the writer's own, the disconnect is not aborted and the writer
  is alive.
\<close>

definition race_inv :: "race \<Rightarrow> fence_world \<Rightarrow> bool" where
  "race_inv c w \<longleftrightarrow> (look w (mark_file c) = None \<or> mark_on c w) \<and>
     \<not> reached_state (ra_validate c) is_aborted (ra_tx c) w \<and> writer_live c w"

definition race_ok :: "race \<Rightarrow> bool" where
  "race_ok c \<longleftrightarrow> is_digest (ra_tx c) \<and> ra_tx c \<noteq> ra_own c \<and> is_digest (ra_key c) \<and>
     join_surrogates (ra_subject_hash c) = ra_subject_hash c \<and> join_surrogates (ra_access_id c) = ra_access_id c \<and>
     join_surrogates (ra_own c) = ra_own c \<and> (ra_kind c = lit ''direct'' \<or> ra_kind c = lit ''staged'' \<and> ra_own c \<noteq> [])"

section \<open>Steps that leave the race alone\<close>

definition touches :: "race \<Rightarrow> path \<Rightarrow> bool" where
  "touches c p \<longleftrightarrow> p = fence_file c \<or> p = mark_file c \<or> (\<exists>q. p = lit ''card-transactions'' # q)"

definition agree :: "race \<Rightarrow> fence_world \<Rightarrow> fence_world \<Rightarrow> bool" where
  "agree c w w' \<longleftrightarrow> (\<forall>p. touches c p \<longrightarrow> look w' p = look w p) \<and>
     (\<forall>h i. Card_Section h i \<in> set (fw_sections w') \<longleftrightarrow> Card_Section h i \<in> set (fw_sections w))"

definition closed :: "race \<Rightarrow> (fence_world \<Rightarrow> bool) \<Rightarrow> bool" where
  "closed c P \<longleftrightarrow> (\<forall>w w'. agree c w w' \<longrightarrow> P w \<longrightarrow> P w')"

inductive quiet :: "race \<Rightarrow> 'a fence_prog \<Rightarrow> bool" for c where
  quiet_done: "quiet c (Done r)"
| quiet_step: "(\<And>w. agree c w (fst (g w)) \<and> quiet c (snd (g w))) \<Longrightarrow> quiet c (Step g)"

lemma closed_fence_on [simp]: "closed c (fence_on c)"
  by (simp add: closed_def agree_def touches_def fence_on_def)

lemma closed_mark_on [simp]: "closed c (mark_on c)"
  by (simp add: closed_def agree_def touches_def mark_on_def)

lemma reached_state_agree: "agree c w w' \<Longrightarrow> reached_state validate reached tx w' \<longleftrightarrow> reached_state validate reached tx w"
  by (auto simp: agree_def touches_def reached_state_def tombstone_path_def receipt_path_def bindE_ok)

lemma writer_live_agree: "agree c w w' \<Longrightarrow> writer_live c w' \<longleftrightarrow> writer_live c w"
  by (auto simp: writer_live_def reached_state_agree) (auto simp: agree_def card_section_def bindE_ok)

lemma closed_race_inv [simp]: "closed c (race_inv c)"
  unfolding closed_def race_inv_def
  by (auto simp: reached_state_agree writer_live_agree) (auto simp: agree_def touches_def mark_on_def)

lemma quiet_keeps: "quiet c p \<Longrightarrow> closed c P \<Longrightarrow> keeps (race_inv c) P p"
proof (induction p rule: quiet.induct)
  case (quiet_step g)
  have step: "race_inv c (fst (g w)) \<and> (P w \<longrightarrow> P (fst (g w))) \<and> keeps (race_inv c) P (snd (g w))" if "race_inv c w" for w
    using quiet_step closed_race_inv [of c] that unfolding closed_def by blast
  show ?case by (rule keeps_step) (rule step)
qed (rule keeps_done)

lemma quiet_bind: "quiet c p \<Longrightarrow> (\<And>x. quiet c (f x)) \<Longrightarrow> quiet c (bindP p f)"
proof (induction p rule: quiet.induct)
  case (quiet_done r)
  then show ?case by (cases r) (auto intro: quiet.quiet_done)
qed (auto intro!: quiet.quiet_step)

lemma quiet_atomic: "(\<And>w. agree c w (fst (m w))) \<Longrightarrow> quiet c (atomicP m)"
  by (auto simp: atomicP_def split_def intro!: quiet.intros)

lemma agree_refl [simp]: "agree c w w"
  by (simp add: agree_def)

lemma quiet_files:
  assumes "\<And>s p. touches c p \<Longrightarrow> fs_lookup (fst (m s)) p = fs_lookup s p"
  shows "quiet c (on_files m)"
  unfolding on_files_def using assms by (intro quiet_atomic) (auto simp: agree_def look_def split: prod.splits; metis fst_conv)

lemma quiet_read [simp]: "quiet c (read_file p)"
  unfolding read_file_def by (rule quiet_files) (simp add: read_json_or_none_def fs_effects)

lemma quiet_write: "\<not> touches c p \<Longrightarrow> quiet c (write_file p v)"
  unfolding write_file_def
  by (rule quiet_files) (auto simp: write_json_atomic_def fs_effects split: sum.splits fault.splits)

lemma quiet_remove: "\<not> touches c p \<Longrightarrow> quiet c (remove_file p)"
  unfolding remove_file_def by (rule quiet_files) (auto simp: unlink_def fs_effects split: fault.splits)

lemma quiet_list [simp]: "quiet c (list_marks d)"
  unfolding list_marks_def by (rule quiet_files) simp

lemma quiet_section [simp]: "quiet c (enter_section (Account_Section k))" "quiet c (leave_section (Account_Section k))"
  unfolding enter_section_def leave_section_def
  by (rule quiet_atomic; auto simp: agree_def look_def fs_effects Let_def)+

lemma quiet_probe [simp]: "quiet c (card_section_held sh aid)"
  unfolding card_section_held_def
  by (intro quiet_bind quiet_atomic) (auto simp: agree_def look_def fs_effects Let_def intro: quiet_done)

lemma quiet_simps [simp]: "quiet c (Done r)"
  by (rule quiet_done)

lemma quiet_transaction [simp]: "quiet c (transaction_state validate reached tx)"
  unfolding transaction_state_def read_receipt_def
  by (intro quiet_bind) (auto simp del: bindP.simps intro!: quiet_bind split: option.splits if_splits)

lemma quiet_blocking [simp]: "quiet c (blocking_fence validate a own)"
  unfolding blocking_fence_def transaction_aborted_def
  by (intro quiet_bind) (auto simp del: bindP.simps intro!: quiet_bind split: option.splits if_splits)

lemma quiet_refuse [simp]: "quiet c (refuse_fenced validate own as)"
  by (induction as) (auto simp del: bindP.simps intro!: quiet_bind)

section \<open>Reading\<close>

lemma read_file_step:
  "bindP (read_file p) k = Step (\<lambda>w. (w\<lparr>fw_fs := fs_tick (fw_fs w)\<rparr>,
     if fs_next (fw_fs w) \<noteq> No_Fault then Done (Inl (DurableStorageError ''read_failed''))
     else case parsed (look w p) of Inl e \<Rightarrow> Done (Inl e) | Inr raw \<Rightarrow> k raw))"
  by (simp add: read_file_def on_files_def atomicP_def read_json_or_none_def look_def fun_eq_iff split: sum.split)

lemma agree_tick [simp]: "agree c w (w\<lparr>fw_fs := fs_tick (fw_fs w)\<rparr>)"
  by (simp add: agree_def look_def fs_effects)

lemma closedD: "closed c P \<Longrightarrow> P w \<Longrightarrow> agree c w w' \<Longrightarrow> P w'"
  by (auto simp: closed_def)

lemma yields_read: "yields I (read_file p) (\<lambda>r. \<exists>w. I w \<and> parsed (look w p) = Inr r)"
  by (auto simp: read_file_def on_files_def atomicP_def read_json_or_none_def look_def intro!: yields.intros split: if_splits)

lemma looking_read:
  assumes "closed c J" "\<And>w raw. I w \<Longrightarrow> J w \<Longrightarrow> parsed (look w p) = Inr raw \<Longrightarrow> looking I J K (k raw) \<or> \<not> K w \<and> past I J (k raw)"
  shows "looking I J K (bindP (read_file p) k)"
  unfolding read_file_step
proof (rule looking_step, goal_cases)
  case (1 w)
  have "J (w\<lparr>fw_fs := fs_tick (fw_fs w)\<rparr>)" by (rule closedD [OF assms(1) 1(2)]) simp
  then show ?case using assms(2) [OF 1] by (auto intro: looking_doomed yields_done split: sum.split)
qed

lemma list_marks_step: "bindP (list_marks d) k = Step (\<lambda>w. (w, k (filter is_json_name (child_names (fs_files (fw_fs w)) d))))"
  by (simp add: list_marks_def on_files_def atomicP_def fun_eq_iff)

lemma unreached_yields:
  assumes "\<And>w. I w \<Longrightarrow> \<not> reached_state validate reached tx w"
  shows "yields I (transaction_state validate reached tx) (\<lambda>b. \<not> b)"
proof -
  have receipt: "yields I (read_receipt validate tx) (\<lambda>r. \<forall>d. r = Some d \<longrightarrow> \<not> reached (dget_or d ''state'' PNone))"
    unfolding read_receipt_def
  proof (cases "receipt_path tx")
    case (Inr p)
    show "yields I (bindP (liftP (receipt_path tx)) (\<lambda>p. bindP (read_file p) (\<lambda>raw.
       case raw of None \<Rightarrow> retP None | Some v \<Rightarrow> bindP (liftP (validate v tx)) (\<lambda>d. retP (Some d)))))
       (\<lambda>r. \<forall>d. r = Some d \<longrightarrow> \<not> reached (dget_or d ''state'' PNone))"
      unfolding Inr liftP_def bindP.simps sum.case
    proof (rule yields_bind [OF yields_read], goal_cases)
      case (1 raw)
      then show ?case using assms Inr
        by (auto simp: reached_state_def split: option.splits sum.splits intro!: yields_done)
    qed
  qed (auto intro: yields_done)
  show ?thesis
    unfolding transaction_state_def
  proof (cases "tombstone_path tx")
    case (Inr p)
    show "yields I (bindP (liftP (tombstone_path tx)) (\<lambda>p. bindP (read_file p) (\<lambda>tombstone.
       if tombstone \<noteq> None then retP True
       else bindP (read_receipt validate tx) (\<lambda>receipt.
         retP (case receipt of None \<Rightarrow> False | Some d \<Rightarrow> reached (dget_or d ''state'' PNone)))))) (\<lambda>b. \<not> b)"
      unfolding Inr liftP_def bindP.simps sum.case
    proof (rule yields_bind [OF yields_read], goal_cases)
      case (1 raw)
      then have "raw = None" using assms Inr by (cases raw) (auto simp: reached_state_def)
      then show ?case
        by (auto simp del: bindP.simps split: option.splits intro!: yields_bind [OF receipt] yields_done)
    qed
  qed (auto intro: yields_done)
qed

section \<open>The writer\<close>

lemma past_quiet: "quiet c p \<Longrightarrow> closed c J \<Longrightarrow> past (race_inv c) J p"
  by (intro keeps_past quiet_keeps)

lemma parsed_Json: "file_tx v = Some t \<Longrightarrow> parsed (Some (Json v)) = Inr (Some v)"
  by (auto simp: parsed_def file_tx_def)

lemma fence_refuses:
  assumes "race_ok c" "file_tx v = Some (ra_tx c)"
  shows "doomed (race_inv c) (bindP (case file_tx v of None \<Rightarrow> retP (lit ''unreadable'')
       | Some holder \<Rightarrow> if holder = ra_own c then retP []
          else bindP (transaction_aborted (ra_validate c) holder) (\<lambda>aborted. retP (if aborted then [] else holder)))
       (\<lambda>holder. if holder \<noteq> [] then failP e else k))"
proof -
  have "yields (race_inv c) (transaction_state (ra_validate c) is_aborted (ra_tx c)) (\<lambda>b. \<not> b)"
    by (rule unreached_yields) (simp add: race_inv_def)
  then have "yields (race_inv c) (bindP (transaction_aborted (ra_validate c) (ra_tx c)) (\<lambda>aborted. retP (if aborted then [] else ra_tx c)))
      (\<lambda>h. h \<noteq> [])"
    unfolding transaction_aborted_def
    by (rule yields_bind) (use assms(1) in \<open>auto simp: race_ok_def is_digest_def intro!: yields_done\<close>)
  then have "doomed (race_inv c) (bindP (bindP (transaction_aborted (ra_validate c) (ra_tx c)) (\<lambda>aborted. retP (if aborted then [] else ra_tx c)))
      (\<lambda>holder. if holder \<noteq> [] then failP e else k))"
    by (rule yields_bind) (simp add: yields_done)
  then show ?thesis using assms by (simp del: bindP.simps add: race_ok_def)
qed

lemma refuse_looking:
  assumes "race_ok c" "a \<in> set as" "fence_path a = Inr (fence_file c)"
  shows "looking (race_inv c) (mark_on c) (fence_on c) (refuse_fenced (ra_validate c) (ra_own c) as)"
  using assms(2)
proof (induction as)
  case (Cons a' as)
  show ?case
  proof (cases "fence_path a' = Inr (fence_file c)")
    case True
    show ?thesis
      unfolding refuse_fenced.simps blocking_fence_def True liftP_def bindP.simps(1) sum.case bindP_assoc
    proof (rule looking_read [OF closed_mark_on], goal_cases)
      case (1 w raw)
      show ?case
      proof (cases "fence_on c w")
        case True
        then obtain v where v: "file_tx v = Some (ra_tx c)" "raw = Some v"
          using 1(3) parsed_Json by (fastforce simp: fence_on_def)
        show ?thesis unfolding v(2) option.case(2) by (intro disjI1 looking_doomed fence_refuses [OF assms(1) v(1)])
      next
        case False
        have "quiet c (bindP (case raw of None \<Rightarrow> retP [] | Some v \<Rightarrow> (case file_tx v of None \<Rightarrow> retP (lit ''unreadable'')
            | Some holder \<Rightarrow> if holder = ra_own c then retP []
               else bindP (transaction_aborted (ra_validate c) holder) (\<lambda>aborted. retP (if aborted then [] else holder))))
            (\<lambda>holder. if holder \<noteq> [] then failP (AccountFenceRefused ''card_account_reserved'')
               else refuse_fenced (ra_validate c) (ra_own c) as))"
          by (auto simp del: bindP.simps simp: transaction_aborted_def intro!: quiet_bind split: option.splits)
        then show ?thesis using False by (blast intro: past_quiet closed_mark_on)
      qed
    qed
  next
    case False
    with Cons assms(3) have "looking (race_inv c) (mark_on c) (fence_on c) (refuse_fenced (ra_validate c) (ra_own c) as)" by auto
    then show ?thesis unfolding refuse_fenced.simps
      by (intro past_then_looking [OF past_quiet yields_True]) auto
  qed
qed simp

lemma dir_paths:
  "fence_path a = Inr p \<longleftrightarrow> (\<exists>k. account_key (fst a) (snd a) = Inr k \<and> p = [FENCES_DIRNAME, k, lit ''fence.json''])"
  "mark_path a i = Inr p \<longleftrightarrow> (\<exists>k. account_key (fst a) (snd a) = Inr k \<and> p = [FENCES_DIRNAME, k, lit ''pending'', i @ dot_json])"
  "account_dir a = Inr p \<longleftrightarrow> (\<exists>k. account_key (fst a) (snd a) = Inr k \<and> p = [FENCES_DIRNAME, k])"
  "index_path tx = Inr p \<longleftrightarrow> (\<exists>b. utf8_encode tx = Inr b \<and> p = [FENCES_DIRNAME, BY_TRANSACTION, sha256_hexdigest b @ dot_json])"
  by (auto simp: fence_path_def mark_path_def account_dir_def index_path_def bindE_ok)

lemma dirs_differ [simp]: "FENCES_DIRNAME \<noteq> lit ''card-transactions''" "lit ''card-transactions'' \<noteq> FENCES_DIRNAME"
  by (simp_all add: FENCES_DIRNAME_def lit_def)

text \<open>What a program writes to a mark's path, and what it removes.\<close>

lemma on_files_step: "on_files m = Step (\<lambda>w. (w\<lparr>fw_fs := fst (m (fw_fs w))\<rparr>, Done (snd (m (fw_fs w)))))"
  by (simp add: on_files_def atomicP_def fun_eq_iff split: prod.split)

lemma write_json_effects:
  "fs_lookup (fst (write_json_atomic p v s)) = fs_lookup s \<or> fs_lookup (fst (write_json_atomic p v s)) = (fs_lookup s)(p \<mapsto> Json (reread v))"
  "snd (write_json_atomic p v s) = Inr u \<Longrightarrow> fs_lookup (fst (write_json_atomic p v s)) = (fs_lookup s)(p \<mapsto> Json (reread v))"
  by (auto simp: write_json_atomic_def fs_effects split: sum.splits fault.splits)

lemma unlink_effects: "fs_lookup (fst (unlink p s)) = fs_lookup s \<or> fs_lookup (fst (unlink p s)) = (fs_lookup s)(p := None)"
  by (auto simp: unlink_def fs_effects split: fault.splits)

lemma race_inv_mark:
  assumes "race_inv c w" "\<And>p. p \<noteq> mark_file c \<Longrightarrow> look w' p = look w p" "fw_sections w' = fw_sections w"
    "look w' (mark_file c) = look w (mark_file c) \<or> look w' (mark_file c) = None \<or> mark_on c w'"
  shows "race_inv c w' \<and> (fence_on c w \<longrightarrow> fence_on c w')"
proof -
  have f: "look w' (fence_file c) = look w (fence_file c)" by (rule assms(2)) (simp add: fence_file_def mark_file_def)
  have "look w' (lit ''card-transactions'' # q) = look w (lit ''card-transactions'' # q)" for q
    by (rule assms(2)) (simp add: mark_file_def)
  then have r: "reached_state validate reached tx w' = reached_state validate reached tx w" for validate reached tx
    by (auto simp: reached_state_def tombstone_path_def receipt_path_def bindE_ok)
  have "writer_live c w' = writer_live c w" by (simp add: writer_live_def r assms(3))
  then show ?thesis using assms(1,4) f by (auto simp: race_inv_def r fence_on_def mark_on_def)
qed

lemma keeps_mark_write: "keeps (race_inv c) (fence_on c) (write_file p (race_mark c))" if "mark_path a i = Inr p" "i = ra_mark_id c"
proof (cases "p = mark_file c")
  case True
  show ?thesis
    unfolding write_file_def on_files_step
  proof (rule keeps_step, goal_cases)
    case (1 w)
    let ?w = "w\<lparr>fw_fs := fst (write_json_atomic p (race_mark c) (fw_fs w))\<rparr>"
    have "race_inv c ?w \<and> (fence_on c w \<longrightarrow> fence_on c ?w)"
      by (rule race_inv_mark [OF 1])
         (use write_json_effects(1) [of p "race_mark c" "fw_fs w"] True in \<open>auto simp: look_def mark_on_def\<close>)
    then show ?case by (simp add: keeps_done)
  qed
next
  case False
  then have "\<not> touches c p" using that by (auto simp: touches_def dir_paths fence_file_def)
  then show ?thesis by (intro quiet_keeps quiet_write) simp_all
qed

lemma keeps_mark_remove: "keeps (race_inv c) (fence_on c) (remove_file p)" if "mark_path a i = Inr p" "i = ra_mark_id c"
proof (cases "p = mark_file c")
  case True
  show ?thesis
    unfolding remove_file_def on_files_step
  proof (rule keeps_step, goal_cases)
    case (1 w)
    let ?w = "w\<lparr>fw_fs := fst (unlink p (fw_fs w))\<rparr>"
    have "race_inv c ?w \<and> (fence_on c w \<longrightarrow> fence_on c ?w)"
      by (rule race_inv_mark [OF 1]) (use unlink_effects [of p "fw_fs w"] True in \<open>auto simp: look_def\<close>)
    then show ?case by (simp add: keeps_done)
  qed
next
  case False
  then have "\<not> touches c p" using that by (auto simp: touches_def dir_paths fence_file_def)
  then show ?thesis by (intro quiet_keeps quiet_remove) simp_all
qed

definition are_marks :: "race \<Rightarrow> path list \<Rightarrow> bool" where
  "are_marks c ps \<longleftrightarrow> (\<forall>p \<in> set ps. \<exists>a. mark_path a (ra_mark_id c) = Inr p)"

lemma keeps_undo: "are_marks c ps \<Longrightarrow> keeps (race_inv c) (fence_on c) (undo_marks ps e)"
proof -
  have "are_marks c ps \<Longrightarrow> keeps (race_inv c) (fence_on c) (remove_files ps)"
    by (induction ps) (auto simp del: bindP.simps simp: are_marks_def intro!: keeps_then keeps_done keeps_mark_remove)
  then show "are_marks c ps \<Longrightarrow> keeps (race_inv c) (fence_on c) (undo_marks ps e)"
    unfolding undo_marks_def by (intro keeps_then) (auto intro: keeps_done)
qed

lemma doomed_undo: "doomed I (undo_marks ps e)"
  unfolding undo_marks_def by (rule yields_then) (simp add: yields_done)

text \<open>One mark: written, or every earlier one removed.\<close>

definition write_mark :: "account \<Rightarrow> pystr \<Rightarrow> pyval \<Rightarrow> path list \<Rightarrow> path fence_prog" where
  "write_mark a mark_id v written =
     catchP (bindP (liftP (mark_path a mark_id)) (\<lambda>p. bindP (write_file p v) (\<lambda>_. retP p))) (undo_marks written)"

lemma yields_write_mark: "yields I (write_mark a mark_id v written) (\<lambda>p. mark_path a mark_id = Inr p)"
  unfolding write_mark_def
  by (cases "mark_path a mark_id") (auto simp del: bindP.simps(2) intro!: yields_catch yields_then yields_done yields_mono [OF doomed_undo])

lemma keeps_write_mark:
  "are_marks c written \<Longrightarrow> keeps (race_inv c) (fence_on c) (write_mark a (ra_mark_id c) (race_mark c) written)"
  unfolding write_mark_def
  by (cases "mark_path a (ra_mark_id c)")
     (auto intro!: keeps_catch keeps_then keeps_mark_write keeps_undo keeps_done)

lemma keeps_write_marks:
  "are_marks c written \<Longrightarrow> keeps (race_inv c) (fence_on c) (write_marks as (ra_mark_id c) (race_mark c) written)"
proof (induction as arbitrary: written)
  case (Cons a as)
  show ?case unfolding write_marks.simps write_mark_def [symmetric]
  proof (rule keeps_bind [OF keeps_write_mark [OF Cons.prems] yields_write_mark], goal_cases)
    case (1 p)
    then have "are_marks c (written @ [p])" using Cons.prems by (auto simp: are_marks_def simp del: split_paired_Ex)
    then show ?case by (rule Cons.IH)
  qed
qed (simp add: keeps_done)

lemma yields_write_marks:
  "are_marks c written \<Longrightarrow> yields I (write_marks as (ra_mark_id c) v written) (are_marks c)"
proof (induction as arbitrary: written)
  case (Cons a as)
  show ?case unfolding write_marks.simps write_mark_def [symmetric]
  proof (rule yields_bind [OF yields_write_mark], goal_cases)
    case (1 p)
    then have "are_marks c (written @ [p])" using Cons.prems by (auto simp: are_marks_def simp del: split_paired_Ex)
    then show ?case by (rule Cons.IH)
  qed
qed (simp add: yields_done)

lemma past_write_file: "past (race_inv c) (mark_on c) (write_file p (race_mark c))"
  unfolding write_file_def on_files_step
proof (rule past_step, goal_cases)
  case (1 w)
  then have "mark_on c (w\<lparr>fw_fs := fst (write_json_atomic p (race_mark c) (fw_fs w))\<rparr>)"
    using write_json_effects(1) [of p "race_mark c" "fw_fs w"] by (auto simp: mark_on_def look_def)
  then show ?case by simp
qed

lemma past_write_marks: "past (race_inv c) (mark_on c) (write_marks as mark_id (race_mark c) written)"
proof (induction as arbitrary: written)
  case (Cons a as)
  show ?case unfolding write_marks.simps
    by (rule past_then, rule past_catch, cases "mark_path a mark_id")
       (auto intro!: past_then past_write_file doomed_undo Cons)
qed (simp add: past_done)

lemma places_write_file: "places (race_inv c) (mark_on c) (write_file (mark_file c) (race_mark c))"
  unfolding write_file_def on_files_step
proof (rule places_step, goal_cases)
  case (1 w)
  show ?case
  proof (cases "snd (write_json_atomic (mark_file c) (race_mark c) (fw_fs w))")
    case (Inr u)
    then show ?thesis using write_json_effects(2) [OF Inr] by (auto simp: mark_on_def look_def intro: past_done)
  qed (auto intro: places_doomed yields_done)
qed

lemma places_write_marks:
  assumes "a \<in> set as" "mark_path a (ra_mark_id c) = Inr (mark_file c)"
  shows "places (race_inv c) (mark_on c) (write_marks as (ra_mark_id c) (race_mark c) written)"
  using assms(1)
proof (induction as arbitrary: written)
  case (Cons b as)
  show ?case
  proof (cases "a = b")
    case True
    show ?thesis unfolding write_marks.simps True [symmetric] assms(2) liftP_def bindP.simps(1) sum.case
      by (intro places_bind places_catch doomed_undo past_write_marks places_write_file) simp
  next
    case False
    then show ?thesis using Cons by (auto simp del: bindP.simps intro!: places_then)
  qed
qed simp

section \<open>A writer's side of the race\<close>

lemma writer_starting:
  assumes "race_ok c" "finite accounts" "a \<in> accounts" "account_key (fst a) (snd a) = Inr (ra_key c)"
  shows "starting (race_inv c) (mark_on c) (fence_on c)
    (mark_binding (ra_validate c) accounts (ra_mark_id c) (ra_kind c) (ra_subject_hash c) (ra_access_id c) (ra_own c))"
proof -
  have paths: "fence_path a = Inr (fence_file c)" "mark_path a (ra_mark_id c) = Inr (mark_file c)"
    using assms(4) by (simp_all add: dir_paths fence_file_def mark_file_def)
  have a: "a \<in> set (sorted_list_of_set accounts)" using assms(2,3) by simp
  show ?thesis
    unfolding mark_binding_def Let_def race_mark_def [symmetric]
    by (intro places_starting [OF places_write_marks [OF a paths(2)]] looking_catch doomed_undo refuse_looking [OF assms(1) a paths(1)])
qed

lemma writer_keeps:
  "keeps (race_inv c) (fence_on c)
    (mark_binding (ra_validate c) accounts (ra_mark_id c) (ra_kind c) (ra_subject_hash c) (ra_access_id c) (ra_own c))"
  unfolding mark_binding_def Let_def race_mark_def [symmetric]
  by (rule keeps_bind [OF keeps_write_marks yields_write_marks])
     (auto simp: are_marks_def [of c "[]"] intro!: keeps_catch keeps_undo intro: quiet_keeps)

section \<open>The disconnect looks for marks\<close>

abbreviation look_marks :: "race \<Rightarrow> path \<Rightarrow> pystr list \<Rightarrow> bool \<Rightarrow> bool fence_prog" where
  "look_marks c \<equiv> judge_marks (ra_validate c) card_section_held"

lemma plain_lit:
  "join_surrogates (lit ''direct'') = lit ''direct''" "join_surrogates (lit ''staged'') = lit ''staged''"
  "lit ''direct'' \<noteq> lit ''staged''" "lit ''staged'' \<noteq> lit ''direct''"
  by (simp_all add: lit_def join_surrogates_id is_surrogate_def)

lemma race_mark_fields:
  assumes "race_ok c"
  obtains d where "reread (race_mark c) = PDict d" "dget_or d ''kind'' PNone = PStr (ra_kind c)"
    "dget_or d ''subject_hash'' PNone = PStr (ra_subject_hash c)" "dget_or d ''access_id'' PNone = PStr (ra_access_id c)"
    "dget_or d ''transaction_id'' PNone = PStr (ra_own c)"
proof -
  obtain d where d: "reread (race_mark c) = PDict d"
    "\<And>k. dget d k = map_option reread (map_of [(''kind'', PStr (ra_kind c)), (''subject_hash'', PStr (ra_subject_hash c)),
       (''access_id'', PStr (ra_access_id c)), (''transaction_id'', PStr (ra_own c))] k)"
    using reread_obj [of "[(''kind'', PStr (ra_kind c)), (''subject_hash'', PStr (ra_subject_hash c)),
       (''access_id'', PStr (ra_access_id c)), (''transaction_id'', PStr (ra_own c))]"]
    unfolding race_mark_def mark_value_def by auto
  have "join_surrogates (ra_kind c) = ra_kind c" using assms plain_lit by (auto simp: race_ok_def)
  then show thesis using assms by (intro that [OF d(1)]) (simp_all add: dget_or_def d(2) race_ok_def)
qed

lemma held_yields:
  assumes "\<And>w. I w \<Longrightarrow> \<exists>x. card_section sh aid = Inr x \<and> x \<in> set (fw_sections w)"
  shows "yields I (card_section_held sh aid) (\<lambda>b. b)"
  unfolding card_section_held_def
  using assms by (cases "card_section sh aid") (auto simp: atomicP_def Let_def intro!: yields_step)

text \<open>The writer's mark is found alive, and so it is not removed.\<close>

lemma judge_race_mark:
  assumes "race_ok c"
  shows "yields (race_inv c) (judge_mark (ra_validate c) card_section_held p (Some (reread (race_mark c)))) (\<lambda>b. b)"
    "closed c P \<Longrightarrow> keeps (race_inv c) P (judge_mark (ra_validate c) card_section_held p (Some (reread (race_mark c))))"
proof -
  obtain d where d: "reread (race_mark c) = PDict d" "dget_or d ''kind'' PNone = PStr (ra_kind c)"
    "dget_or d ''subject_hash'' PNone = PStr (ra_subject_hash c)" "dget_or d ''access_id'' PNone = PStr (ra_access_id c)"
    "dget_or d ''transaction_id'' PNone = PStr (ra_own c)"
    by (rule race_mark_fields [OF assms])
  have "yields (race_inv c) (judge_mark (ra_validate c) card_section_held p (Some (reread (race_mark c)))) (\<lambda>b. b) \<and>
      (closed c P \<longrightarrow> keeps (race_inv c) P (judge_mark (ra_validate c) card_section_held p (Some (reread (race_mark c)))))"
  proof (cases "ra_kind c = lit ''direct''")
    case True
    have held: "yields (race_inv c) (card_section_held (ra_subject_hash c) (ra_access_id c)) (\<lambda>b. b)"
      by (rule held_yields) (use True plain_lit in \<open>auto simp: race_inv_def writer_live_def\<close>)
    have j: "judge_mark (ra_validate c) card_section_held p (Some (PDict d)) =
        drop_orphan card_section_held p (ra_subject_hash c) (ra_access_id c)"
      using d True plain_lit(3) by (simp add: judge_mark_def staged_tx_def direct_card_def)
    show ?thesis unfolding d(1) j drop_orphan_def
      by (auto intro!: yields_bind [OF held] keeps_bind [OF quiet_keeps held])
  next
    case False
    then have s: "ra_kind c = lit ''staged''" "ra_own c \<noteq> []" using assms by (auto simp: race_ok_def)
    have open_tx: "yields (race_inv c) (transaction_terminal (ra_validate c) (ra_own c)) (\<lambda>b. \<not> b)"
      unfolding transaction_terminal_def
      by (rule unreached_yields) (use False in \<open>auto simp: race_inv_def writer_live_def\<close>)
    have q: "quiet c (transaction_terminal (ra_validate c) (ra_own c))" by (simp add: transaction_terminal_def)
    have j: "judge_mark (ra_validate c) card_section_held p (Some (PDict d)) = drop_decided (ra_validate c) p (ra_own c)"
      using d s by (simp add: judge_mark_def staged_tx_def)
    show ?thesis unfolding d(1) j drop_decided_def
      by (auto intro!: yields_bind [OF open_tx] keeps_bind [OF quiet_keeps open_tx] q)
  qed
  then show "yields (race_inv c) (judge_mark (ra_validate c) card_section_held p (Some (reread (race_mark c)))) (\<lambda>b. b)"
    "closed c P \<Longrightarrow> keeps (race_inv c) P (judge_mark (ra_validate c) card_section_held p (Some (reread (race_mark c))))" by auto
qed

lemma quiet_judge:
  assumes "\<not> touches c p"
  shows "quiet c (judge_mark validate card_section_held p mark)"
proof -
  have r: "quiet c (bindP (remove_file p) (\<lambda>_. retP False))" using assms by (intro quiet_bind quiet_remove) simp_all
  have t: "quiet c (transaction_terminal validate tx)" for tx by (simp add: transaction_terminal_def)
  have "quiet c (drop_decided validate p tx)" "quiet c (drop_orphan card_section_held p h i)" for tx h i
    unfolding drop_decided_def drop_orphan_def using r t by (auto simp del: bindP.simps intro!: quiet_bind)
  then show ?thesis by (auto simp: judge_mark_def split: option.split pyval.split)
qed

text \<open>What is read at the mark's path is the mark or nothing.\<close>

definition readable :: "race \<Rightarrow> path \<Rightarrow> pyval option \<Rightarrow> bool" where
  "readable c p r \<longleftrightarrow> (p = mark_file c \<longrightarrow> r = None \<or> r = Some (reread (race_mark c)))"

lemma mark_parsed: "race_ok c \<Longrightarrow> parsed (Some (Json (reread (race_mark c)))) = Inr (Some (reread (race_mark c)))"
  by (rule race_mark_fields [of c]) (simp_all add: parsed_def)

lemma yields_readable: "race_ok c \<Longrightarrow> yields (race_inv c) (read_file p) (readable c p)"
  by (rule yields_mono [OF yields_read]) (auto simp: readable_def race_inv_def mark_on_def mark_parsed, auto simp: parsed_def)

lemmas keeps_quiet_then = keeps_then [OF quiet_keeps]

lemma keeps_judge:
  assumes "race_ok c" "closed c P" "readable c (d @ [n]) mark" "d = [FENCES_DIRNAME, k, lit ''pending'']"
  shows "keeps (race_inv c) P (judge_mark (ra_validate c) card_section_held (d @ [n]) mark)"
proof (cases "d @ [n] = mark_file c")
  case True
  then consider "mark = None" | "mark = Some (reread (race_mark c))" using assms(3) by (auto simp: readable_def)
  then show ?thesis
  proof cases
    case 2
    then show ?thesis using judge_race_mark(2) [OF assms(1,2)] by simp
  qed (simp add: judge_mark_def)
next
  case False
  then have "\<not> touches c (d @ [n])" using assms(4) by (auto simp: touches_def fence_file_def)
  then show ?thesis by (intro quiet_keeps quiet_judge assms(2))
qed

lemma keeps_judge_marks:
  assumes "race_ok c" "closed c P" "d = [FENCES_DIRNAME, k, lit ''pending'']"
  shows "keeps (race_inv c) P (look_marks c d ns live)"
proof (induction ns arbitrary: live)
  case (Cons n ns)
  show ?case unfolding judge_marks.simps
    by (rule keeps_bind [OF quiet_keeps [OF quiet_read assms(2)] yields_readable [OF assms(1)]])
       (intro keeps_then keeps_judge [OF assms(1,2) _ assms(3)] Cons)
qed simp

lemma keeps_live_marks:
  assumes "race_ok c" "closed c P"
  shows "keeps (race_inv c) P (live_marks (ra_validate c) card_section_held a)"
  unfolding live_marks_def
proof (cases "account_dir a")
  case (Inr d)
  then obtain k where "d = [FENCES_DIRNAME, k]" by (auto simp: dir_paths)
  then show "keeps (race_inv c) P (bindP (liftP (account_dir a)) (\<lambda>d. bindP (list_marks (d @ [lit ''pending'']))
       (\<lambda>names. look_marks c (d @ [lit ''pending'']) names False)))"
    unfolding Inr by (auto simp del: bindP.simps(2) intro!: keeps_quiet_then keeps_judge_marks assms)
qed simp

lemma keeps_recheck:
  assumes "race_ok c" "closed c P"
  shows "keeps (race_inv c) P (recheck (ra_validate c) card_section_held tx as)"
  by (induction as) (auto simp del: bindP.simps intro!: keeps_quiet_then keeps_then [OF keeps_live_marks] assms)

lemma still_live: "yields I (judge_marks validate probe d ns True) (\<lambda>b. b)"
  by (induction ns) (auto simp del: bindP.simps intro!: yields_then)

lemma judge_looking:
  assumes ok: "race_ok c" and d: "d @ [n0] = mark_file c" "d = [FENCES_DIRNAME, k, lit ''pending'']"
    and k: "doomed (race_inv c) (cont True)" "\<And>b. past (race_inv c) (fence_on c) (cont b)"
  shows "n0 \<in> set ns \<Longrightarrow> looking (race_inv c) (fence_on c) (mark_on c) (bindP (look_marks c d ns live) cont)"
proof (induction ns arbitrary: live)
  case (Cons n ns)
  have past_rest: "past (race_inv c) (fence_on c) (bindP (judge_mark (ra_validate c) card_section_held (d @ [n]) mark)
      (\<lambda>alive. bindP (look_marks c d ns (live \<or> alive)) cont))" if "readable c (d @ [n]) mark" for mark
    by (intro past_then keeps_past keeps_judge [OF ok _ that d(2)] keeps_judge_marks [OF ok _ d(2)] k(2)) simp_all
  show ?case unfolding judge_marks.simps bindP_assoc
  proof (cases "n = n0")
    case True
    show "looking (race_inv c) (fence_on c) (mark_on c) (bindP (read_file (d @ [n])) (\<lambda>mark.
        bindP (judge_mark (ra_validate c) card_section_held (d @ [n]) mark) (\<lambda>alive. bindP (look_marks c d ns (live \<or> alive)) cont)))"
    proof (rule looking_read [OF closed_fence_on], goal_cases)
      case (1 w mark)
      show ?case
      proof (cases "mark_on c w")
        case True
        then have m: "mark = Some (reread (race_mark c))" using 1(3) \<open>n = n0\<close> d(1) mark_parsed [OF ok] by (simp add: mark_on_def)
        have "doomed (race_inv c) (bindP (look_marks c d ns True) cont)"
          by (rule yields_bind [OF still_live]) (simp add: k(1))
        then have "doomed (race_inv c) (bindP (judge_mark (ra_validate c) card_section_held (d @ [n]) mark)
            (\<lambda>alive. bindP (look_marks c d ns (live \<or> alive)) cont))"
          unfolding m by (intro yields_bind [OF judge_race_mark(1) [OF ok]]) simp
        then show ?thesis by (blast intro: looking_doomed)
      next
        case False
        then have "readable c (d @ [n]) mark" using 1 \<open>n = n0\<close> d(1) by (auto simp: race_inv_def readable_def parsed_def)
        then show ?thesis using False past_rest by blast
      qed
    qed
  next
    case False
    then have ih: "looking (race_inv c) (fence_on c) (mark_on c) (bindP (look_marks c d ns l) cont)" for l using Cons by auto
    show "looking (race_inv c) (fence_on c) (mark_on c) (bindP (read_file (d @ [n])) (\<lambda>mark.
        bindP (judge_mark (ra_validate c) card_section_held (d @ [n]) mark) (\<lambda>alive. bindP (look_marks c d ns (live \<or> alive)) cont)))"
    proof (rule past_then_looking [OF past_quiet [OF quiet_read closed_fence_on] yields_readable [OF ok]], goal_cases)
      case (1 mark)
      then show ?case
        by (intro past_then_looking [OF keeps_past yields_True] keeps_judge [OF ok _ _ d(2)] ih) simp_all
    qed
  qed
qed simp

lemma mark_listed:
  assumes "mark_on c w"
  shows "ra_mark_id c @ dot_json \<in> set (filter is_json_name (child_names (fs_files (fw_fs w)) [FENCES_DIRNAME, ra_key c, lit ''pending'']))"
proof -
  have "(mark_file c, Json (reread (race_mark c))) \<in> set (fs_files (fw_fs w))"
    using assms by (auto simp: mark_on_def look_def fs_lookup_def dest: map_of_SomeD)
  then have "ra_mark_id c @ dot_json \<in> set (child_names (fs_files (fw_fs w)) [FENCES_DIRNAME, ra_key c, lit ''pending''])"
    unfolding child_names_def by (force simp: mark_file_def image_iff)
  then show ?thesis by (simp add: is_json_name_def)
qed

lemma recheck_looking:
  assumes ok: "race_ok c" and a: "a \<in> set as" "account_key (fst a) (snd a) = Inr (ra_key c)"
  shows "looking (race_inv c) (fence_on c) (mark_on c) (recheck (ra_validate c) card_section_held tx as)"
  using a(1)
proof (induction as)
  case (Cons b as)
  let ?rest = "\<lambda>live. if live then failP (AccountFenceRefused ''card_account_binding_in_progress'')
    else recheck (ra_validate c) card_section_held tx as"
  have "looking (race_inv c) (fence_on c) (mark_on c) (bindP (live_marks (ra_validate c) card_section_held b) ?rest)"
  proof (cases "account_key (fst b) (snd b) = Inr (ra_key c)")
    case True
    let ?d = "[FENCES_DIRNAME, ra_key c, lit ''pending'']"
    have rest: "past (race_inv c) (fence_on c) (?rest live)" for live
      by (auto intro!: keeps_past keeps_recheck [OF ok])
    have d: "account_dir b = Inr [FENCES_DIRNAME, ra_key c]" using True by (simp add: dir_paths)
    show ?thesis unfolding live_marks_def d liftP_def bindP.simps(1) sum.case bindP_assoc append.simps list_marks_step bindP.simps(2) map_prod_simp id_apply
    proof (rule looking_step, goal_cases)
      case (1 w)
      let ?names = "filter is_json_name (child_names (fs_files (fw_fs w)) ?d)"
      have "looking (race_inv c) (fence_on c) (mark_on c) (bindP (look_marks c ?d ?names False) ?rest)" if "mark_on c w"
        by (rule judge_looking [OF ok _ refl _ _ mark_listed [OF that]]) (use rest in \<open>auto simp: mark_file_def\<close>)
      moreover have "past (race_inv c) (fence_on c) (bindP (look_marks c ?d ?names False) ?rest)"
        by (intro past_then keeps_past keeps_judge_marks [OF ok _ refl] rest) simp
      ultimately show ?case using 1 by auto
    qed
  next
    case False
    then have "looking (race_inv c) (fence_on c) (mark_on c) (recheck (ra_validate c) card_section_held tx as)" using Cons a(2) by auto
    then show ?thesis
      by (intro past_then_looking [OF keeps_past [OF keeps_live_marks [OF ok]] yields_True]) simp_all
  qed
  then show ?case unfolding recheck.simps
    by (intro past_then_looking [OF past_quiet yields_True]) simp_all
qed simp

section \<open>The disconnect's fences\<close>

lemma race_inv_fence:
  assumes "race_inv c w" "\<And>p. p \<noteq> fence_file c \<Longrightarrow> look w' p = look w p" "fw_sections w' = fw_sections w"
  shows "race_inv c w' \<and> (mark_on c w \<longrightarrow> mark_on c w')"
proof -
  have m: "look w' (mark_file c) = look w (mark_file c)" by (rule assms(2)) (simp add: fence_file_def mark_file_def)
  have "look w' (lit ''card-transactions'' # q) = look w (lit ''card-transactions'' # q)" for q
    by (rule assms(2)) (simp add: fence_file_def)
  then have r: "reached_state validate reached tx w' = reached_state validate reached tx w" for validate reached tx
    by (auto simp: reached_state_def tombstone_path_def receipt_path_def bindE_ok)
  have "writer_live c w' = writer_live c w" by (simp add: writer_live_def r assms(3))
  then show ?thesis using assms(1) m by (auto simp: race_inv_def r mark_on_def)
qed

lemma keeps_fence_file:
  assumes "\<And>s p. p \<noteq> fence_file c \<Longrightarrow> fs_lookup (fst (m s)) p = fs_lookup s p"
  shows "keeps (race_inv c) (mark_on c) (on_files m)"
  unfolding on_files_step
proof (rule keeps_step, goal_cases)
  case (1 w)
  have "race_inv c (w\<lparr>fw_fs := fst (m (fw_fs w))\<rparr>) \<and> (mark_on c w \<longrightarrow> mark_on c (w\<lparr>fw_fs := fst (m (fw_fs w))\<rparr>))"
    by (rule race_inv_fence [OF 1]) (use assms in \<open>auto simp: look_def\<close>)
  then show ?case by simp
qed

lemma keeps_fence_ops:
  assumes "fence_path a = Inr p"
  shows "keeps (race_inv c) (mark_on c) (write_file p v)" "keeps (race_inv c) (mark_on c) (remove_file p)"
proof -
  have "p = fence_file c \<or> \<not> touches c p" using assms by (auto simp: dir_paths touches_def mark_file_def)
  then show "keeps (race_inv c) (mark_on c) (write_file p v)"
  proof
    assume "p = fence_file c"
    then show ?thesis unfolding write_file_def
      by (intro keeps_fence_file) (auto simp: write_json_atomic_def fs_effects split: sum.splits fault.splits)
  qed (auto intro: quiet_keeps quiet_write)
  show "keeps (race_inv c) (mark_on c) (remove_file p)"
    using \<open>p = fence_file c \<or> \<not> touches c p\<close>
  proof
    assume "p = fence_file c"
    then show ?thesis unfolding remove_file_def
      by (intro keeps_fence_file) (auto simp: unlink_def fs_effects split: fault.splits)
  qed (auto intro: quiet_keeps quiet_remove)
qed

lemma index_untouched:
  assumes "race_ok c" "index_path tx = Inr p"
  shows "\<not> touches c p"
proof -
  have "length (ra_key c) = 64" "length BY_TRANSACTION = 14"
    using assms(1) by (simp_all add: race_ok_def is_digest_def BY_TRANSACTION_def lit_def)
  then have "BY_TRANSACTION \<noteq> ra_key c" by auto
  then show ?thesis using assms(2) by (auto simp: dir_paths touches_def fence_file_def mark_file_def)
qed

lemma keeps_write_fences: "keeps (race_inv c) (mark_on c) (write_fences tx as)"
proof (induction as)
  case (Cons a as)
  then show ?case by (cases "fence_path a") (auto intro!: keeps_then keeps_fence_ops)
qed simp

lemma keeps_remove_fences: "keeps (race_inv c) (mark_on c) (remove_fences tx as)"
proof (induction as)
  case (Cons a as)
  then show ?case
    by (cases "fence_path a") (auto simp del: bindP.simps(2) intro!: keeps_quiet_then [OF quiet_read] keeps_then keeps_fence_ops quiet_keeps [OF quiet_read])
qed simp

lemma quiet_read_index: "quiet c (read_index tx)"
  unfolding read_index_def
  by (intro quiet_bind) (auto simp del: bindP.simps split: option.split pyval.split intro!: quiet_bind)

lemma keeps_release:
  assumes "race_ok c"
  shows "keeps (race_inv c) (mark_on c) (release_held tx)"
proof -
  have "keeps (race_inv c) (mark_on c) (bindP (liftP (index_path tx)) remove_file)"
    by (cases "index_path tx") (auto intro!: quiet_keeps quiet_remove index_untouched [OF assms])
  then show ?thesis unfolding release_held_def
    by (intro keeps_quiet_then quiet_read_index) (auto simp del: bindP.simps split: option.split intro!: keeps_then keeps_remove_fences)
qed

lemma keeps_in_sections: "keeps (race_inv c) (mark_on c) body \<Longrightarrow> keeps (race_inv c) (mark_on c) (in_sections as body)"
proof (induction as)
  case (Cons a as)
  then show ?case
    by (cases "account_key (fst a) (snd a)") (auto intro!: keeps_quiet_then keeps_finally intro: quiet_keeps)
qed simp

lemma disconnect_keeps:
  assumes "race_ok c"
  shows "keeps (race_inv c) (mark_on c) (reserve_accounts (ra_validate c) card_section_held accounts tx)"
proof -
  let ?as = "sorted_list_of_set accounts"
  have index: "keeps (race_inv c) (mark_on c) (bindP (liftP (index_path tx)) (\<lambda>i. bindP (write_file i v) (\<lambda>_. q)))"
    if "keeps (race_inv c) (mark_on c) q" for v and q :: "unit fence_prog"
    using that by (cases "index_path tx") (auto intro!: keeps_quiet_then quiet_write index_untouched [OF assms])
  have "keeps (race_inv c) (mark_on c) (bindP (write_fences tx ?as) (\<lambda>_. catchP (recheck (ra_validate c) card_section_held tx ?as)
      (\<lambda>e. bindP (release_held tx) (\<lambda>_. failP e))))"
    by (intro keeps_then [OF keeps_write_fences] keeps_catch keeps_recheck [OF assms] keeps_then [OF keeps_release [OF assms]]) simp_all
  then have "keeps (race_inv c) (mark_on c) (reserve_held (ra_validate c) card_section_held ?as tx)"
    unfolding reserve_held_def by (intro keeps_quiet_then [OF quiet_refuse closed_mark_on] index)
  then show ?thesis unfolding reserve_accounts_def Let_def by (rule keeps_in_sections)
qed

lemma fence_written:
  assumes "race_ok c"
  shows "file_tx (reread (fence_value (ra_tx c))) = Some (ra_tx c)"
proof -
  obtain d where d: "reread (fence_value (ra_tx c)) = PDict d" "\<And>k. dget d k = map_option reread (map_of [(''transaction_id'', PStr (ra_tx c))] k)"
    using reread_obj [of "[(''transaction_id'', PStr (ra_tx c))]"] unfolding fence_value_def by auto
  have "join_surrogates (ra_tx c) = ra_tx c"
    using assms by (intro join_surrogates_id) (auto simp: race_ok_def is_digest_def is_lower_hex_def is_digit_char_def is_surrogate_def)
  then show ?thesis by (simp add: file_tx_def d dget_or_def)
qed

lemma past_write_fence: "race_ok c \<Longrightarrow> past (race_inv c) (fence_on c) (write_file p (fence_value (ra_tx c)))"
  unfolding write_file_def on_files_step
proof (rule past_step, goal_cases)
  case (1 w)
  then have "fence_on c (w\<lparr>fw_fs := fst (write_json_atomic p (fence_value (ra_tx c)) (fw_fs w))\<rparr>)"
    using write_json_effects(1) [of p "fence_value (ra_tx c)" "fw_fs w"] fence_written [OF 1(1)] by (auto simp: fence_on_def look_def)
  then show ?case by simp
qed

lemma past_write_fences: "race_ok c \<Longrightarrow> past (race_inv c) (fence_on c) (write_fences (ra_tx c) as)"
proof (induction as)
  case (Cons a as)
  then show ?case by (cases "fence_path a") (auto intro!: past_then past_write_fence)
qed simp

lemma places_fence: "race_ok c \<Longrightarrow> places (race_inv c) (fence_on c) (write_file (fence_file c) (fence_value (ra_tx c)))"
  unfolding write_file_def on_files_step
proof (rule places_step, goal_cases)
  case (1 w)
  show ?case
  proof (cases "snd (write_json_atomic (fence_file c) (fence_value (ra_tx c)) (fw_fs w))")
    case (Inr u)
    then show ?thesis using write_json_effects(2) [OF Inr] fence_written [OF 1(1)] by (auto simp: fence_on_def look_def)
  qed auto
qed

lemma places_write_fences:
  assumes "race_ok c" "a \<in> set as" "fence_path a = Inr (fence_file c)"
  shows "places (race_inv c) (fence_on c) (write_fences (ra_tx c) as)"
  using assms(2)
proof (induction as)
  case (Cons b as)
  show ?case
  proof (cases "a = b")
    case True
    show ?thesis unfolding write_fences.simps True [symmetric] assms(3) liftP_def bindP.simps(1) sum.case
      by (intro places_bind places_fence past_write_fences assms(1))
  next
    case False
    then show ?thesis using Cons by (auto simp del: bindP.simps intro!: places_then)
  qed
qed simp

lemma starting_in_sections:
  "starting (race_inv c) (fence_on c) K body \<Longrightarrow> starting (race_inv c) (fence_on c) K (in_sections as body)"
  by (induction as) (auto simp del: bindP.simps intro!: starting_then starting_finally past_quiet)

lemma disconnect_starting:
  assumes "race_ok c" "finite accounts" "a \<in> accounts" "account_key (fst a) (snd a) = Inr (ra_key c)"
  shows "starting (race_inv c) (fence_on c) (mark_on c) (reserve_accounts (ra_validate c) card_section_held accounts (ra_tx c))"
proof -
  have a: "a \<in> set (sorted_list_of_set accounts)" "fence_path a = Inr (fence_file c)"
    using assms(2-4) by (simp_all add: dir_paths fence_file_def)
  show ?thesis
    unfolding reserve_accounts_def Let_def reserve_held_def
    by (intro starting_in_sections starting_then places_starting [OF places_write_fences [OF assms(1) a]] looking_catch
        recheck_looking [OF assms(1) a(1) assms(4)] yields_then) simp
qed

section \<open>At most one goes ahead\<close>

text \<open>
  C3. A binding and a disconnect of one account never both go ahead. Let a live writer (a direct one that holds its
  card's section, or a staged one whose transaction is undecided) mark the accounts it adds while a disconnect that is
  not aborted reserves accounts among which is one of these. In every interleaving of their file operations and lock
  attempts, with any faults, and with any steps of others that leave the two records, the two transactions and the
  card's section alone, it does not happen that both calls return.
\<close>

theorem binding_excludes_disconnect:
  assumes "race_ok c" "finite bound" "finite fenced" "a \<in> bound" "a \<in> fenced" "account_key (fst a) (snd a) = Inr (ra_key c)"
    "race_inv c w" "\<forall>t \<in> set ts. harmless (race_inv c) (mark_on c) (fence_on c) t"
  shows "interleave ts
      (mark_binding (ra_validate c) bound (ra_mark_id c) (ra_kind c) (ra_subject_hash c) (ra_access_id c) (ra_own c))
      (service_reserve_accounts (ra_validate c) fenced (ra_tx c)) w \<noteq> (w', Done (Inr ()), Done (Inr ()))"
proof (rule not_both_succeed [OF writer_starting _ writer_keeps _ assms(7,8)])
  show "starting (race_inv c) (fence_on c) (mark_on c) (service_reserve_accounts (ra_validate c) fenced (ra_tx c))"
    unfolding service_reserve_accounts_def
    by (intro starting_catch disconnect_starting [OF assms(1,3,5,6)]) (simp split: exn.split)
  show "keeps (race_inv c) (mark_on c) (service_reserve_accounts (ra_validate c) fenced (ra_tx c))"
    unfolding service_reserve_accounts_def
    by (intro keeps_catch disconnect_keeps assms(1)) (simp split: exn.split)
qed (use assms in auto)

section \<open>A writer alone\<close>

definition calm_world :: "fence_world \<Rightarrow> bool" where
  "calm_world w \<longleftrightarrow> no_fault (fw_fs w)"

lemma calm_tick: "calm_world w \<Longrightarrow> calm_world (w\<lparr>fw_fs := fs_tick (fw_fs w)\<rparr>)"
  by (simp add: calm_world_def no_fault_def fs_effects)

lemma run_read: "calm_world w \<Longrightarrow> runP (read_file p) w = (w\<lparr>fw_fs := fs_tick (fw_fs w)\<rparr>, parsed (look w p))"
  by (simp add: read_file_def on_files_def read_json_or_none_def look_def calm_world_def no_fault_next)

lemma run_write:
  assumes "calm_world w" "is_ok (dumps True v)"
  obtains w' where "runP (write_file p v) w = (w', Inr ())" "calm_world w'" "look w' = (look w)(p \<mapsto> Json (reread v))" "fw_sections w' = fw_sections w"
proof
  obtain t where "dumps True v = Inr t" using assms(2) by (auto simp: is_ok_iff)
  then show "runP (write_file p v) w = (w\<lparr>fw_fs := fs_put p v (fs_tick (fw_fs w))\<rparr>, Inr ())"
    using assms(1) by (simp add: write_file_def on_files_def write_json_atomic_def calm_world_def no_fault_next)
qed (use assms in \<open>auto simp: calm_world_def no_fault_def look_def fs_effects fun_eq_iff\<close>)

lemma run_write_marks:
  assumes "calm_world w" "is_ok (dumps True v)" "\<forall>a \<in> set as. \<exists>p. mark_path a i = Inr p"
  shows "\<exists>w' ps. runP (write_marks as i v written) w = (w', Inr ps) \<and> calm_world w' \<and> fw_sections w' = fw_sections w \<and>
    look w' = (\<lambda>p. if \<exists>a \<in> set as. mark_path a i = Inr p then Some (Json (reread v)) else look w p)"
  using assms(1,3)
proof (induction as arbitrary: w written)
  case (Cons a as)
  then obtain p where p: "mark_path a i = Inr p" by auto
  obtain w1 where w1: "runP (write_file p v) w = (w1, Inr ())" "calm_world w1" "look w1 = (look w)(p \<mapsto> Json (reread v))"
    "fw_sections w1 = fw_sections w"
    by (rule run_write [OF Cons.prems(1) assms(2)])
  obtain w' ps where w': "runP (write_marks as i v (written @ [p])) w1 = (w', Inr ps)" "calm_world w'" "fw_sections w' = fw_sections w1"
    "look w' = (\<lambda>p. if \<exists>a \<in> set as. mark_path a i = Inr p then Some (Json (reread v)) else look w1 p)"
    using Cons.IH [OF w1(2), of "written @ [p]"] Cons.prems(2) by auto
  have "runP (write_marks (a # as) i v written) w = (w', Inr ps)"
    using w1(1) w'(1) p by (simp add: runP_bind runP_catch bindS_def del: bindP.simps(2))
  then show ?case using w'(2-4) w1(3,4) p by (auto simp: fun_eq_iff)
qed (simp add: fun_eq_iff)

lemma run_refuse:
  assumes "calm_world w" "\<forall>a \<in> set as. \<exists>f. fence_path a = Inr f \<and> look w f = None"
  shows "\<exists>w'. runP (refuse_fenced validate own as) w = (w', Inr ()) \<and> calm_world w' \<and> look w' = look w \<and> fw_sections w' = fw_sections w"
  using assms
proof (induction as arbitrary: w)
  case (Cons a as)
  then obtain f where f: "fence_path a = Inr f" "look w f = None" by auto
  let ?w = "w\<lparr>fw_fs := fs_tick (fw_fs w)\<rparr>"
  have l: "look ?w = look w" by (simp add: look_def fs_effects fun_eq_iff)
  have "runP (blocking_fence validate a own) w = (?w, Inr [])"
    using f run_read [OF Cons.prems(1), of f] by (simp add: blocking_fence_def runP_bind bindS_def parsed_def del: bindP.simps(2))
  then have "runP (refuse_fenced validate own (a # as)) w = runP (refuse_fenced validate own as) ?w"
    by (simp add: runP_bind bindS_def del: bindP.simps)
  then show ?case using Cons.IH [OF calm_tick [OF Cons.prems(1)]] Cons.prems(2) l by auto
qed simp

text \<open>
  C8. A binding of accounts that are not fenced goes ahead: when no file operation fails and no account of the call
  has a fence, marking returns, each account then has the writer's mark and nothing else has changed.
\<close>

theorem unfenced_binding_succeeds:
  assumes "no_fault (fw_fs w)" "finite accounts"
    "\<forall>a \<in> accounts. \<exists>f. fence_path a = Inr f \<and> fs_lookup (fw_fs w) f = None"
  shows "\<exists>w'. runP (mark_binding validate accounts mark_id kind subject_hash access_id tx) w = (w', Inr ()) \<and>
    fw_sections w' = fw_sections w \<and> fs_lookup (fw_fs w') = (\<lambda>p. if \<exists>a \<in> accounts. mark_path a mark_id = Inr p
      then Some (Json (reread (mark_value kind subject_hash access_id tx))) else fs_lookup (fw_fs w) p)"
proof -
  let ?as = "sorted_list_of_set accounts" and ?v = "mark_value kind subject_hash access_id tx"
  have c: "calm_world w" using assms(1) by (simp add: calm_world_def)
  have v: "is_ok (dumps True ?v)" unfolding mark_value_def by (rule dumps_obj_ok) auto
  have m: "\<forall>a \<in> set ?as. \<exists>p. mark_path a mark_id = Inr p"
    using assms(2,3) by (auto simp: dir_paths)
  obtain w1 ps where w1: "runP (write_marks ?as mark_id ?v []) w = (w1, Inr ps)" "calm_world w1" "fw_sections w1 = fw_sections w"
    "look w1 = (\<lambda>p. if \<exists>a \<in> set ?as. mark_path a mark_id = Inr p then Some (Json (reread ?v)) else look w p)"
    using run_write_marks [OF c v m] by blast
  have "look w1 f = look w f" if "fence_path a = Inr f" for a f using that by (auto simp: w1(4) dir_paths)
  then have "\<forall>a \<in> set ?as. \<exists>f. fence_path a = Inr f \<and> look w1 f = None"
    using assms(2,3) unfolding look_def by (metis set_sorted_list_of_set)
  from run_refuse [OF w1(2) this] obtain w2 where w2: "runP (refuse_fenced validate tx ?as) w1 = (w2, Inr ())"
    "look w2 = look w1" "fw_sections w2 = fw_sections w1" by blast
  have "runP (mark_binding validate accounts mark_id kind subject_hash access_id tx) w = (w2, Inr ())"
    using w1(1) w2(1) by (simp add: mark_binding_def Let_def runP_bind runP_catch bindS_def)
  then show ?thesis using w1(3,4) w2(2,3) assms(2) by (auto simp: look_def fun_eq_iff)
qed

section \<open>A race that can happen\<close>

definition example_account :: account where "example_account = (lit ''mail'', lit ''me'')"

definition example_race :: race where
  "example_race = \<lparr>ra_validate = (\<lambda>_ _. Inr []), ra_key = sha256_hexdigest (projr (utf8_encode (lit ''mail'' @ 0 # lit ''me''))),
     ra_mark_id = lit ''direct-1'', ra_kind = lit ''direct'', ra_subject_hash = replicate 64 48, ra_access_id = lit ''card'',
     ra_own = [], ra_tx = replicate 64 49\<rparr>"

definition example_world :: fence_world where
  "example_world = \<lparr>fw_fs = \<lparr>fs_files = [], fs_fault = (\<lambda>_. No_Fault), fs_ops = 0\<rparr>,
     fw_sections = [Card_Section (replicate 64 48) (lit ''card'')]\<rparr>"

lemma example_key: "account_key (fst example_account) (snd example_account) = Inr (ra_key example_race)"
proof -
  have "encodable (lit ''mail'' @ 0 # lit ''me'')" by (simp add: encodable_def lit_def is_surrogate_def)
  then show ?thesis by (simp add: account_key_def example_account_def example_race_def utf8_encode_def bindE_def)
qed

lemma example_section: "card_section (replicate 64 48) (lit ''card'') = Inr (Card_Section (replicate 64 48) (lit ''card''))"
proof -
  have "is_digest (replicate 64 48)" by (simp add: is_digest_def is_lower_hex_def is_digit_char_def)
  moreover from this have "py_lower (replicate 64 48) = replicate 64 48" by (rule digest_lower)
  moreover have "py_strip (replicate 64 48) = replicate 64 48" "py_strip (lit ''card'') = lit ''card''"
    by (simp_all add: lit_def py_strip_no_space is_space_def)
  ultimately show ?thesis
    by (simp add: card_section_def card_subject_hash_def card_access_id_def Let_def bindE_def) (simp add: lit_def is_alnum_def)
qed

lemma example_race_ok: "race_ok example_race"
proof -
  have "is_digest (replicate 64 49)" "join_surrogates (replicate 64 48) = replicate 64 48"
    by (simp_all add: is_digest_def is_lower_hex_def is_digit_char_def join_surrogates_id is_surrogate_def)
  then show ?thesis by (simp add: race_ok_def example_race_def)
qed

lemma example_race_inv: "race_inv example_race example_world"
  using example_section
  by (auto simp: race_inv_def writer_live_def example_race_def example_world_def look_def fs_lookup_def reached_state_def parsed_def)

theorem binding_excludes_disconnect_witness:
  "race_inv example_race example_world \<and>
   (\<forall>w'. interleave (replicate 9 First @ replicate 40 Second)
      (mark_binding (ra_validate example_race) {example_account} (ra_mark_id example_race) (ra_kind example_race)
         (ra_subject_hash example_race) (ra_access_id example_race) (ra_own example_race))
      (service_reserve_accounts (ra_validate example_race) {example_account} (ra_tx example_race)) example_world
      \<noteq> (w', Done (Inr ()), Done (Inr ())))"
proof (intro conjI allI)
  fix w'
  show "interleave (replicate 9 First @ replicate 40 Second)
      (mark_binding (ra_validate example_race) {example_account} (ra_mark_id example_race) (ra_kind example_race)
         (ra_subject_hash example_race) (ra_access_id example_race) (ra_own example_race))
      (service_reserve_accounts (ra_validate example_race) {example_account} (ra_tx example_race)) example_world
      \<noteq> (w', Done (Inr ()), Done (Inr ()))"
    by (rule binding_excludes_disconnect [OF example_race_ok _ _ _ _ example_key example_race_inv]) (auto simp: harmless_def)
qed (rule example_race_inv)

theorem unfenced_binding_succeeds_witness:
  "\<exists>w'. runP (mark_binding (\<lambda>_ _. Inr []) {example_account} (lit ''direct-1'') (lit ''direct'') (replicate 64 48) (lit ''card'') []) example_world
     = (w', Inr ()) \<and> fw_sections w' = fw_sections example_world"
proof -
  have "\<forall>a \<in> {example_account}. \<exists>f. fence_path a = Inr f \<and> fs_lookup (fw_fs example_world) f = None"
    using example_key by (simp add: dir_paths example_world_def fs_lookup_def)
  moreover have "no_fault (fw_fs example_world)" by (simp add: example_world_def no_fault_def)
  ultimately show ?thesis
    using unfenced_binding_succeeds [of example_world "{example_account}" "\<lambda>_ _. Inr []" "lit ''direct-1''" "lit ''direct''"
        "replicate 64 48" "lit ''card''" "[]"] by auto
qed

end
