(* ===== verification/Rely_Guarantee.thy ===== *)
theory Rely_Guarantee
  imports Interleaving
begin

text \<open>
  Rely and guarantee conditions for the programs of \<open>Interleaving\<close>, and any number of them running interleaved.

  \<open>rg u R G Q P p\<close>: started in \<open>P\<close>, every step of \<open>p\<close> is a \<open>G\<close> step, and if \<open>p\<close> ends then with a result and a state in
  \<open>Q\<close>, provided that everything between its steps is an \<open>R\<close> step. Assertions are over the state and an auxiliary
  value that the step function \<open>u\<close> computes from each step of the program; it exists in the proofs only.
\<close>

section \<open>Many programs\<close>

datatype 's event = Run nat | Env "'s \<Rightarrow> 's"

fun run_tasks :: "'s event list \<Rightarrow> (nat \<Rightarrow> ('s, 'a) prog) \<Rightarrow> 's \<Rightarrow> 's \<times> (nat \<Rightarrow> ('s, 'a) prog)" where
  "run_tasks [] ps s = (s, ps)"
| "run_tasks (Run i # es) ps s = (case stepP (ps i) s of (s', p') \<Rightarrow> run_tasks es (ps(i := p')) s')"
| "run_tasks (Env f # es) ps s = run_tasks es ps (f s)"

lemma run_tasks_append: "run_tasks (es @ es') ps s = (case run_tasks es ps s of (s', ps') \<Rightarrow> run_tasks es' ps' s')"
  by (induction es ps s rule: run_tasks.induct) (simp_all add: split_def del: fun_upd_apply)

section \<open>The judgement\<close>

datatype ('s, 'x) moment = At (st: 's) (nt: 'x)

type_synonym ('s, 'x) assertion = "('s, 'x) moment \<Rightarrow> bool"
type_synonym ('s, 'x) relation = "('s, 'x) moment \<Rightarrow> ('s, 'x) moment \<Rightarrow> bool"

definition stable :: "('s, 'x) relation \<Rightarrow> ('s, 'x) assertion \<Rightarrow> bool" where
  "stable R P \<longleftrightarrow> (\<forall>\<sigma> \<tau>. P \<sigma> \<longrightarrow> R \<sigma> \<tau> \<longrightarrow> P \<tau>)"

definition noted :: "('s \<Rightarrow> 's \<Rightarrow> 'x \<Rightarrow> 'x) \<Rightarrow> ('s, 'x) moment \<Rightarrow> 's \<Rightarrow> ('s, 'x) moment" where
  "noted u \<sigma> s' = At s' (u (st \<sigma>) s' (nt \<sigma>))"

inductive rg :: "('s \<Rightarrow> 's \<Rightarrow> 'x \<Rightarrow> 'x) \<Rightarrow> ('s, 'x) relation \<Rightarrow> ('s, 'x) relation \<Rightarrow> (exn + 'a \<Rightarrow> ('s, 'x) assertion)
    \<Rightarrow> ('s, 'x) assertion \<Rightarrow> ('s, 'a) prog \<Rightarrow> bool" for u R G Q where
  rg_done: "stable R P \<Longrightarrow> (\<And>\<sigma>. P \<sigma> \<Longrightarrow> Q r \<sigma>) \<Longrightarrow> rg u R G Q P (Done r)"
| rg_step: "stable R P \<Longrightarrow> (\<And>\<sigma>. P \<sigma> \<Longrightarrow> G \<sigma> (noted u \<sigma> (fst (g (st \<sigma>)))) \<and>
     (\<exists>P'. P' (noted u \<sigma> (fst (g (st \<sigma>)))) \<and> rg u R G Q P' (snd (g (st \<sigma>))))) \<Longrightarrow> rg u R G Q P (Step g)"

inductive_cases rg_doneE: "rg u R G Q P (Done r)"
inductive_cases rg_stepE: "rg u R G Q P (Step g)"

lemma stable_conj: "stable R P \<Longrightarrow> stable R P' \<Longrightarrow> stable R (\<lambda>\<sigma>. P \<sigma> \<and> P' \<sigma>)"
  by (auto simp: stable_def)

lemma rg_stable: "rg u R G Q P p \<Longrightarrow> stable R P"
  by (auto elim: rg.cases)

lemma rg_pre:
  assumes "rg u R G Q P p" "stable R P'" "\<And>\<sigma>. P' \<sigma> \<Longrightarrow> P \<sigma>"
  shows "rg u R G Q P' p"
  using assms(1)
proof cases
  case (rg_done r)
  then show ?thesis using assms(2,3) by (simp add: rg.rg_done)
next
  case (rg_step g)
  show ?thesis unfolding rg_step(1) by (rule rg.rg_step [OF assms(2)]) (rule rg_step(3) [OF assms(3)])
qed

text \<open>A condition that holds of the state at hand.\<close>

definition ensures :: "('s \<Rightarrow> 's \<Rightarrow> 'x \<Rightarrow> 'x) \<Rightarrow> ('s, 'x) relation \<Rightarrow> ('s, 'x) relation \<Rightarrow> (exn + 'a \<Rightarrow> ('s, 'x) assertion)
    \<Rightarrow> ('s, 'a) prog \<Rightarrow> ('s, 'x) assertion" where
  "ensures u R G Q p \<sigma> \<longleftrightarrow> (\<exists>P. P \<sigma> \<and> rg u R G Q P p)"

lemma stable_ensures: "stable R (ensures u R G Q p)"
  unfolding stable_def [of R "ensures u R G Q p"]
proof (intro allI impI)
  fix \<sigma> \<tau> assume "ensures u R G Q p \<sigma>" "R \<sigma> \<tau>"
  then obtain P where P: "P \<sigma>" "rg u R G Q P p" by (auto simp: ensures_def)
  then have "P \<tau>" using rg_stable [OF P(2)] \<open>R \<sigma> \<tau>\<close> by (simp add: stable_def)
  then show "ensures u R G Q p \<tau>" using P(2) by (auto simp: ensures_def)
qed

lemma rg_ensures: "rg u R G Q (ensures u R G Q p) p"
proof (cases p)
  case (Done r)
  have "Q r \<sigma>" if "ensures u R G Q p \<sigma>" for \<sigma> using that by (auto simp: ensures_def Done elim: rg_doneE)
  then show ?thesis using Done stable_ensures rg_done by metis
next
  case (Step g)
  have "G \<sigma> (noted u \<sigma> (fst (g (st \<sigma>)))) \<and> (\<exists>P'. P' (noted u \<sigma> (fst (g (st \<sigma>)))) \<and> rg u R G Q P' (snd (g (st \<sigma>))))"
    if "ensures u R G Q p \<sigma>" for \<sigma>
    using that by (auto simp: ensures_def Step elim: rg_stepE)
  then show ?thesis using Step stable_ensures rg_step by metis
qed

lemma ensures_Done: "ensures u R G Q (Done r) \<sigma> \<Longrightarrow> Q r \<sigma>"
  by (auto simp: ensures_def elim: rg_doneE)

lemma ensures_stepP:
  assumes "ensures u R G Q p \<sigma>" "stepP p (st \<sigma>) = (s', p')"
  shows "ensures u R G Q p' (noted u \<sigma> s') \<and> G \<sigma> (noted u \<sigma> s') \<or> s' = st \<sigma> \<and> p' = p"
proof (cases p)
  case (Step g)
  obtain P where P: "P \<sigma>" "rg u R G Q P (Step g)" using assms(1) by (auto simp: ensures_def Step)
  from P(2) have "G \<sigma> (noted u \<sigma> s') \<and> (\<exists>P'. P' (noted u \<sigma> s') \<and> rg u R G Q P' p')"
    using assms(2) Step P(1) by (cases rule: rg.cases) (metis fst_conv snd_conv stepP.simps(2) prog.inject(2))
  then show ?thesis by (auto simp: ensures_def)
qed (use assms in auto)

lemma ensuresI: "rg u R G Q P p \<Longrightarrow> P \<sigma> \<Longrightarrow> ensures u R G Q p \<sigma>"
  by (auto simp: ensures_def)

lemma rg_ex:
  assumes "\<And>a. rg u R G Q (P a) p"
  shows "rg u R G Q (\<lambda>\<sigma>. \<exists>a. P a \<sigma>) p"
proof (rule rg_pre [OF rg_ensures])
  show "stable R (\<lambda>\<sigma>. \<exists>a. P a \<sigma>)" using rg_stable [OF assms] unfolding stable_def by blast
  show "\<And>\<sigma>. \<exists>a. P a \<sigma> \<Longrightarrow> ensures u R G Q p \<sigma>" using assms by (auto intro: ensuresI)
qed

lemma rg_False: "rg u R G Q (\<lambda>_. False) p"
  by (rule rg_pre [OF rg_ensures]) (simp_all add: stable_def)

lemma rg_if: "(C \<Longrightarrow> rg u R G Q P p) \<Longrightarrow> (\<not> C \<Longrightarrow> rg u R G Q P p') \<Longrightarrow> rg u R G Q P (if C then p else p')"
  by simp

lemma rg_fact: "(C \<Longrightarrow> rg u R G Q P p) \<Longrightarrow> rg u R G Q (\<lambda>\<sigma>. C \<and> P \<sigma>) p"
  using rg_False by (cases C) auto

section \<open>Parallel composition\<close>

text \<open>
  Programs that guarantee what the others rely on. The auxiliary value is threaded through the whole run, and a
  condition that every guaranteed step keeps holds at its end.
\<close>

lemma run_tasks_rg:
  assumes "run_tasks es ps s = (s', ps')" "\<And>i. ensures (u i) (R i) (G i) (Q i) (ps i) (At s x)" "I (At s x)"
    and "\<And>i \<sigma> \<tau>. I \<sigma> \<Longrightarrow> G i \<sigma> \<tau> \<Longrightarrow> I \<tau>" "\<And>f s x. Env f \<in> set es \<Longrightarrow> I (At s x) \<Longrightarrow> I (At (f s) x)"
    and "\<And>i j \<sigma> \<tau>. i \<noteq> j \<Longrightarrow> G j \<sigma> \<tau> \<Longrightarrow> R i \<sigma> \<tau>" "\<And>f i s x. Env f \<in> set es \<Longrightarrow> R i (At s x) (At (f s) x)"
  shows "\<exists>x'. I (At s' x') \<and> (\<forall>i. ensures (u i) (R i) (G i) (Q i) (ps' i) (At s' x'))"
  using assms(1,2,3,5,7)
proof (induction es ps s arbitrary: x rule: run_tasks.induct)
  case (2 j es ps s)
  obtain t p where t: "stepP (ps j) s = (t, p)" by fastforce
  consider "ensures (u j) (R j) (G j) (Q j) p (noted (u j) (At s x) t)" "G j (At s x) (noted (u j) (At s x) t)" | "t = s" "p = ps j"
    using ensures_stepP [OF 2(3) [of j], of t p] t by auto
  then show ?case
  proof cases
    case 1
    have "ensures (u i) (R i) (G i) (Q i) ((ps(j := p)) i) (noted (u j) (At s x) t)" for i
    proof (cases "i = j")
      case False
      have "R i (At s x) (noted (u j) (At s x) t)" using assms(6) [OF False 1(2)] .
      moreover have "ensures (u i) (R i) (G i) (Q i) (ps i) (At s x)" by (rule 2(3))
      ultimately show ?thesis using stable_ensures [of "R i" "u i" "G i" "Q i" "ps i"] False by (simp add: stable_def)
    qed (simp add: 1(1))
    moreover have "I (noted (u j) (At s x) t)" by (rule assms(4) [OF 2(4) 1(2)])
    ultimately show ?thesis using 2(1) [OF t [symmetric], of "nt (noted (u j) (At s x) t)"] 2(2,5,6) t by (simp add: noted_def del: fun_upd_apply)
  next
    case 2: 2
    then show ?thesis using "2.IH" [OF t [symmetric], of x] "2.prems" t by simp
  qed
next
  case (3 f es ps s)
  have "R i (At s x) (At (f s) x)" for i using 3(6) by simp
  then have "ensures (u i) (R i) (G i) (Q i) (ps i) (At (f s) x)" for i
    using 3(3) [of i] stable_ensures [of "R i" "u i" "G i" "Q i" "ps i"] by (auto simp: stable_def)
  moreover have "I (At (f s) x)" using 3(4,5) by simp
  ultimately show ?case using 3(1) [of x] 3(2,5,6) by simp
qed auto

section \<open>Rules for the combinators\<close>

lemma rg_post:
  assumes "rg u R G Q P p" "\<And>r \<sigma>. Q r \<sigma> \<Longrightarrow> Q' r \<sigma>"
  shows "rg u R G Q' P p"
  using assms(1)
proof (induction rule: rg.induct)
  case (rg_step P g)
  then show ?case by (intro rg.rg_step) blast+
qed (auto intro: rg.rg_done assms(2))

lemma rg_weaken:
  assumes "rg u R G Q P p" "\<And>\<sigma> \<tau>. R' \<sigma> \<tau> \<Longrightarrow> R \<sigma> \<tau>" "\<And>\<sigma> \<tau>. G \<sigma> \<tau> \<Longrightarrow> G' \<sigma> \<tau>"
  shows "rg u R' G' Q P p"
  using assms(1)
proof (induction rule: rg.induct)
  case (rg_done P r)
  then show ?case using assms(2) by (intro rg.rg_done) (auto simp: stable_def)
next
  case (rg_step P g)
  have "stable R' P" using rg_step(1) assms(2) unfolding stable_def by blast
  then show ?case by (rule rg.rg_step) (use rg_step(2) assms(3) in blast)
qed

lemma rg_atomic:
  assumes "stable R P" "\<And>r. stable R (Q r)"
    and "\<And>\<sigma>. P \<sigma> \<Longrightarrow> G \<sigma> (noted u \<sigma> (fst (m (st \<sigma>)))) \<and> Q (snd (m (st \<sigma>))) (noted u \<sigma> (fst (m (st \<sigma>))))"
  shows "rg u R G Q P (atomicP m)"
  unfolding atomicP_def
proof (rule rg.rg_step [OF assms(1)])
  fix \<sigma> assume "P \<sigma>"
  note m = assms(3) [OF this]
  have "rg u R G Q (Q (snd (m (st \<sigma>)))) (Done (snd (m (st \<sigma>))))" by (rule rg_done [OF assms(2)])
  with m show "G \<sigma> (noted u \<sigma> (fst (case m (st \<sigma>) of (s', r) \<Rightarrow> (s', Done r)))) \<and>
      (\<exists>P'. P' (noted u \<sigma> (fst (case m (st \<sigma>) of (s', r) \<Rightarrow> (s', Done r)))) \<and>
      rg u R G Q P' (snd (case m (st \<sigma>) of (s', r) \<Rightarrow> (s', Done r))))"
    by (simp add: split_def) blast
qed

lemma rg_bind:
  assumes "rg u R G M P p" "\<And>x. rg u R G Q (M (Inr x)) (f x)" "\<And>e \<sigma>. M (Inl e) \<sigma> \<Longrightarrow> Q (Inl e) \<sigma>"
  shows "rg u R G Q P (bindP p f)"
  using assms(1)
proof (induction rule: rg.induct)
  case (rg_done P r)
  then show ?case
    using assms(2,3) by (cases r) (auto intro: rg.rg_done rg_pre)
next
  case (rg_step P g)
  then show ?case by (simp, intro rg.rg_step) auto
qed

lemma rg_catch:
  assumes "rg u R G M P p" "\<And>e. rg u R G Q (M (Inl e)) (h e)" "\<And>x \<sigma>. M (Inr x) \<sigma> \<Longrightarrow> Q (Inr x) \<sigma>"
  shows "rg u R G Q P (catchP p h)"
  using assms(1)
proof (induction rule: rg.induct)
  case (rg_done P r)
  then show ?case
    using assms(2,3) by (cases r) (auto intro: rg.rg_done rg_pre)
next
  case (rg_step P g)
  then show ?case by (simp, intro rg.rg_step) auto
qed

lemma rg_finally:
  assumes "rg u R G M P p" "\<And>r. rg u R G (\<lambda>r' \<sigma>. case r' of Inl e \<Rightarrow> Q (Inl e) \<sigma> | Inr _ \<Rightarrow> Q r \<sigma>) (M r) q"
    "\<And>r. stable R (Q r)"
  shows "rg u R G Q P (finallyP p q)"
  using assms(1)
proof (induction rule: rg.induct)
  case (rg_done P r)
  have "rg u R G Q (M r) (bindP q (\<lambda>_. Done r))"
    by (rule rg_bind [OF assms(2) [of r]]) (auto intro: rg.rg_done assms(3))
  then show ?case using rg_done by (auto intro: rg_pre)
next
  case (rg_step P g)
  then show ?case by (simp del: finallyP.simps(1)) (rule rg.rg_step; fastforce)
qed

end
