(* ===== verification/Card_World.thy ===== *)
theory Card_World
  imports Account_Fence Rely_Guarantee Durable_Wire
begin

text \<open>
  The state the card operations of the Connection Hub share: the files of the card store, the Redis that holds the
  card locks, the PostgreSQL rows of \<open>cards/pointer_authority.py\<close>, and what each task has in its context variables.

  A task is a number. \<open>_ROW_OPERATION\<close> and \<open>_OPERATION\<close> are context variables: each task has its own value, the address of
  an object, which may be another task's object (a child task starts with its parent's values). Objects of a task
  are numbered. An operation of Redis or of the database may fail before its effect (\<open>Fails\<close>) or after it (\<open>Lost_Reply\<close>)
  with an exception of its client or with the cancellation of the task. Times are milliseconds on one clock.
\<close>

section \<open>State\<close>

datatype reply_fault = Works | Fails exn | Lost_Reply exn

record lock_redis =
  lr_keys :: "pystr \<Rightarrow> (pystr \<times> int) option"
  lr_now :: int
  lr_config :: pyval
  lr_info :: pyval
  lr_fault :: "nat \<Rightarrow> reply_fault"
  lr_ops :: nat

datatype row_key = Pointer_Row pystr pystr | Marker_Row pystr

text \<open>
  The rows of one tenant and project in both tables: a pointer row has a digest, a marker row an incarnation. The
  sequence is its last value; row identifiers drawn by the database come from a source.
\<close>

record card_row =
  cr_document :: bytes
  cr_digest :: "pystr option"
  cr_row_revision :: int
  cr_incarnation :: "pystr option"
  cr_fence_token :: "int option"

record card_tables =
  ct_rows :: "row_key \<Rightarrow> card_row option"
  ct_sequence :: int
  ct_uuid_source :: "nat \<Rightarrow> pystr"
  ct_uuids :: nat
  ct_authority :: bool
  ct_activated :: bool
  ct_fault :: "nat \<Rightarrow> reply_fault"
  ct_ops :: nat

text \<open>\<open>CardRowOperation\<close>. A pointer is observed with its revision only, a marker with its incarnation too.\<close>

type_synonym observation = "int \<times> pystr option"

record row_context =
  rc_fence_token :: "int option"
  rc_claims :: "row_key \<Rightarrow> int option"
  rc_observed :: "row_key \<Rightarrow> observation option"
  rc_resources :: "(pystr \<times> nat) list"
  rc_closed :: bool

text \<open>\<open>_Held\<close>\<close>

record held_keys =
  he_keys :: "(pystr \<times> pystr) list"
  he_counts :: "(pystr \<times> nat) list"
  he_lost :: bool
  he_closed :: bool

type_synonym address = "nat \<times> nat"

record 'o task_objects =
  to_var :: "address option"
  to_objects :: "nat \<Rightarrow> 'o"
  to_count :: nat

record renewal =
  re_held :: address
  re_key :: pystr
  re_value :: pystr
  re_active :: bool

datatype write_guard = Role_Guard | Owner_Guard

record card_world =
  cw_fs :: fs
  cw_redis :: lock_redis
  cw_tables :: card_tables
  cw_row_ops :: "nat \<Rightarrow> row_context task_objects"
  cw_held_ops :: "nat \<Rightarrow> held_keys task_objects"
  cw_role :: "nat \<Rightarrow> pystr option"
  cw_verified :: "nat \<Rightarrow> bool"
  cw_renewals :: "renewal list"
  cw_owner_tokens :: nat
  cw_file_locks :: "path list"
  cw_guards :: "(path \<times> (pystr \<times> write_guard) list) list"

type_synonym 'a card_prog = "(card_world, 'a) prog"

section \<open>Exception classes\<close>

text \<open>What \<open>except Exception\<close> does not catch.\<close>

definition is_exception :: "exn \<Rightarrow> bool" where
  "is_exception e \<longleftrightarrow> e \<noteq> Cancelled \<and> e \<noteq> RedisUnavailable"

text \<open>\<open>CardMutationLockTimeout\<close> is a \<open>TimeoutError\<close>, and that is an \<open>OSError\<close> of Python.\<close>

definition is_timeout :: "exn \<Rightarrow> bool" where
  "is_timeout e \<longleftrightarrow> e = TimeoutError \<or> e = CardMutationLockTimeout"

definition is_os_error :: "exn \<Rightarrow> bool" where
  "is_os_error e \<longleftrightarrow> e = OSError \<or> is_timeout e"

section \<open>Redis\<close>

definition live_value :: "lock_redis \<Rightarrow> pystr \<Rightarrow> pystr option" where
  "live_value r k = (case lr_keys r k of None \<Rightarrow> None | Some (v, expiry) \<Rightarrow> if lr_now r < expiry then Some v else None)"

definition call_redis :: "(lock_redis \<Rightarrow> lock_redis \<times> 'a) \<Rightarrow> 'a card_prog" where
  "call_redis f = atomicP (\<lambda>w. let r = cw_redis w; r1 = r\<lparr>lr_ops := Suc (lr_ops r)\<rparr>
     in case lr_fault r (lr_ops r) of Works \<Rightarrow> (w\<lparr>cw_redis := fst (f r1)\<rparr>, Inr (snd (f r1)))
        | Fails e \<Rightarrow> (w\<lparr>cw_redis := r1\<rparr>, Inl e)
        | Lost_Reply e \<Rightarrow> (w\<lparr>cw_redis := fst (f r1)\<rparr>, Inl e))"

definition put_key :: "pystr \<Rightarrow> (pystr \<times> int) option \<Rightarrow> lock_redis \<Rightarrow> lock_redis" where
  "put_key k x r = r\<lparr>lr_keys := (lr_keys r)(k := x)\<rparr>"

text \<open>\<open>SET key value NX PX ttl\<close>, \<open>GET\<close>, and the two scripts that check the owner first.\<close>

definition set_nx :: "pystr \<Rightarrow> pystr \<Rightarrow> int \<Rightarrow> lock_redis \<Rightarrow> lock_redis \<times> bool" where
  "set_nx k v ttl r = (if live_value r k = None then (put_key k (Some (v, lr_now r + ttl)) r, True) else (r, False))"

definition delete_own :: "pystr \<Rightarrow> pystr \<Rightarrow> lock_redis \<Rightarrow> lock_redis \<times> int" where
  "delete_own k v r = (if live_value r k = Some v then (put_key k None r, 1) else (r, 0))"

definition renew_own :: "pystr \<Rightarrow> pystr \<Rightarrow> int \<Rightarrow> lock_redis \<Rightarrow> lock_redis \<times> int" where
  "renew_own k v ttl r = (if live_value r k = Some v then (put_key k (Some (v, lr_now r + ttl)) r, 1) else (r, 0))"

definition redis_get :: "pystr \<Rightarrow> pystr option card_prog" where
  "redis_get k = call_redis (\<lambda>r. (r, live_value r k))"

definition redis_config_get :: "pyval card_prog" where "redis_config_get = call_redis (\<lambda>r. (r, lr_config r))"
definition redis_info_memory :: "pyval card_prog" where "redis_info_memory = call_redis (\<lambda>r. (r, lr_info r))"

section \<open>SQL\<close>

text \<open>One statement on a connection of its own, as one atomic step.\<close>

definition call_sql :: "(card_tables \<Rightarrow> card_tables \<times> 'a) \<Rightarrow> 'a card_prog" where
  "call_sql f = atomicP (\<lambda>w. let d = cw_tables w; d1 = d\<lparr>ct_ops := Suc (ct_ops d)\<rparr>
     in case ct_fault d (ct_ops d) of Works \<Rightarrow> (w\<lparr>cw_tables := fst (f d1)\<rparr>, Inr (snd (f d1)))
        | Fails e \<Rightarrow> (w\<lparr>cw_tables := d1\<rparr>, Inl e)
        | Lost_Reply e \<Rightarrow> (w\<lparr>cw_tables := fst (f d1)\<rparr>, Inl e))"

section \<open>Files\<close>

definition on_card_files :: "(fs, 'a) action \<Rightarrow> 'a card_prog" where
  "on_card_files m = atomicP (\<lambda>w. case m (cw_fs w) of (s, r) \<Rightarrow> (w\<lparr>cw_fs := s\<rparr>, r))"

section \<open>Context variables and objects\<close>

definition look :: "(card_world \<Rightarrow> 'a) \<Rightarrow> 'a card_prog" where
  "look f = atomicP (\<lambda>w. (w, Inr (f w)))"

definition alter :: "(card_world \<Rightarrow> card_world) \<Rightarrow> unit card_prog" where
  "alter f = atomicP (\<lambda>w. (f w, Inr ()))"

definition row_op :: "card_world \<Rightarrow> address \<Rightarrow> row_context" where
  "row_op w a = to_objects (cw_row_ops w (fst a)) (snd a)"

definition held_op :: "card_world \<Rightarrow> address \<Rightarrow> held_keys" where
  "held_op w a = to_objects (cw_held_ops w (fst a)) (snd a)"

definition put_object :: "nat \<Rightarrow> 'o \<Rightarrow> 'o task_objects \<Rightarrow> 'o task_objects" where
  "put_object n x ob = ob\<lparr>to_objects := (to_objects ob)(n := x)\<rparr>"

definition set_row_op :: "address \<Rightarrow> row_context \<Rightarrow> card_world \<Rightarrow> card_world" where
  "set_row_op a c w = w\<lparr>cw_row_ops := (cw_row_ops w)(fst a := put_object (snd a) c (cw_row_ops w (fst a)))\<rparr>"

definition set_held_op :: "address \<Rightarrow> held_keys \<Rightarrow> card_world \<Rightarrow> card_world" where
  "set_held_op a c w = w\<lparr>cw_held_ops := (cw_held_ops w)(fst a := put_object (snd a) c (cw_held_ops w (fst a)))\<rparr>"

text \<open>A new object, which the context variable of its task names from now on; \<open>reset\<close> gives the variable its old value.\<close>

definition new_object :: "nat \<Rightarrow> 'o \<Rightarrow> 'o task_objects \<Rightarrow> 'o task_objects" where
  "new_object t x ob = (put_object (to_count ob) x ob)\<lparr>to_var := Some (t, to_count ob), to_count := Suc (to_count ob)\<rparr>"

definition set_row_var :: "nat \<Rightarrow> address option \<Rightarrow> card_world \<Rightarrow> card_world" where
  "set_row_var t x w = w\<lparr>cw_row_ops := (cw_row_ops w)(t := (cw_row_ops w t)\<lparr>to_var := x\<rparr>)\<rparr>"

definition set_held_var :: "nat \<Rightarrow> address option \<Rightarrow> card_world \<Rightarrow> card_world" where
  "set_held_var t x w = w\<lparr>cw_held_ops := (cw_held_ops w)(t := (cw_held_ops w t)\<lparr>to_var := x\<rparr>)\<rparr>"

section \<open>Locks\<close>

text \<open>
  A lock is entered with a call and gives its value together with what leaving it does: the code of the context
  manager before and after its \<open>yield\<close>.
\<close>

record lock_call =
  lc_path :: path
  lc_resource :: pystr
  lc_operation :: pystr
  lc_wait :: int

type_synonym 'v card_lock = "nat \<Rightarrow> lock_call \<Rightarrow> ('v \<times> unit card_prog) card_prog"

definition undoP :: "('s, 'a) prog \<Rightarrow> ('s, unit) prog \<Rightarrow> ('s, 'a) prog" where
  "undoP p q = catchP p (\<lambda>e. bindP q (\<lambda>_. failP e))"

text \<open>\<open>try: ... yield ... finally: close\<close> around a part that is entered.\<close>

definition sectionP :: "('v \<times> unit card_prog) card_prog \<Rightarrow> unit card_prog \<Rightarrow> ('v \<times> unit card_prog) card_prog" where
  "sectionP enter close = bindP (undoP enter close) (\<lambda>(v, leave). retP (v, finallyP leave close))"

text \<open>\<open>async with lock(...) as v: body\<close>\<close>

definition with_lock :: "'v card_lock \<Rightarrow> nat \<Rightarrow> lock_call \<Rightarrow> ('v \<Rightarrow> 'a card_prog) \<Rightarrow> 'a card_prog" where
  "with_lock lock t call body = bindP (lock t call) (\<lambda>(v, leave). finallyP (body v) leave)"

end
