(* ===== verification/Card_Locks.thy ===== *)
theory Card_Locks
  imports Card_World
begin

text \<open>
  The locks of the card operations: \<open>connection_hub/delegated_credentials/cards/locks.py\<close> and \<open>cards/redis_lock.py\<close>, and the write
  guards of \<open>durable_io.py\<close>.

  The host's file lock (\<open>base_lock\<close>), its Redis lock helper (\<open>observed_lock\<close>) and its lock metadata (\<open>make_metadata\<close>) are not part of
  the repository and are parameters. A Redis value is a text; a reply in bytes and a reply in text are the same. The
  renewal task makes the rounds it gets before it is cancelled.
\<close>

section \<open>Process role\<close>

definition CARD_WRITER_ROLE :: pystr where "CARD_WRITER_ROLE = lit ''proc''"

definition process_role :: "pystr option \<Rightarrow> pystr" where
  "process_role env = py_lower (py_strip (case env of None \<Rightarrow> [] | Some v \<Rightarrow> v))"

definition current_process_role :: "nat \<Rightarrow> pystr card_prog" where
  "current_process_role t = look (\<lambda>w. process_role (cw_role w t))"

definition refuse_outside_proc :: "nat \<Rightarrow> unit card_prog" where
  "refuse_outside_proc t = bindP (current_process_role t) (\<lambda>role.
     if role \<noteq> CARD_WRITER_ROLE then failP (CardStorageError ''card_store_write_wrong_process_role'') else retP ())"

definition proc_only_lock :: "'v card_lock \<Rightarrow> 'v card_lock" where
  "proc_only_lock base_lock t call = bindP (current_process_role t) (\<lambda>role.
     if role \<noteq> CARD_WRITER_ROLE then failP (CardStorageError ''card_store_write_wrong_process_role'') else base_lock t call)"

section \<open>The container-local file lock\<close>

definition CARD_LOCK_SUBDIR :: pystr where "CARD_LOCK_SUBDIR = lit ''_card_locks''"
definition CONTAINER_LOCK_SUFFIX :: pystr where "CONTAINER_LOCK_SUFFIX = lit ''.lock''"

text \<open>A path of the operating system: whether it is absolute, and its components.\<close>

type_synonym os_path = "bool \<times> path"

definition card_lock_root :: "path \<Rightarrow> os_path option \<Rightarrow> exn + os_path" where
  "card_lock_root cwd bundle_storage_root = (case bundle_storage_root of
     None \<Rightarrow> Inl (CardStorageError ''card_lock_root_unavailable'')
   | Some (absolute, p) \<Rightarrow> if \<not> absolute \<and> p = [] then Inl (CardStorageError ''card_lock_root_unavailable'')
       else Inr (True, (if absolute then p else cwd @ p) @ [CARD_LOCK_SUBDIR]))"

definition path_text :: "path \<Rightarrow> pystr" where
  "path_text p = (if p = [] then lit ''/'' else concat (map (\<lambda>c. 47 # c) p))"

definition container_local_lock_path :: "path \<Rightarrow> path \<Rightarrow> exn + path" where
  "container_local_lock_path root lock_path =
     bindE (utf8_encode (path_text lock_path)) (\<lambda>b. Inr (root @ [sha256_hexdigest b @ CONTAINER_LOCK_SUFFIX]))"

definition local_lock :: "path \<Rightarrow> 'v card_lock \<Rightarrow> 'v card_lock" where
  "local_lock root base_lock t call = bindP (liftP (container_local_lock_path root (lc_path call))) (\<lambda>p.
     catchP (base_lock t (call\<lparr>lc_path := p\<rparr>))
       (\<lambda>e. failP (if is_os_error e then CardStorageError ''card_lock_root_unwritable'' else e)))"

definition container_local_lock :: "'v card_lock \<Rightarrow> os_path \<Rightarrow> exn + 'v card_lock" where
  "container_local_lock base_lock root =
     (if fst root then Inr (local_lock (snd root) base_lock) else Inl (ValueError ''card_lock_root_not_absolute''))"

section \<open>The row context of an operation\<close>

definition fresh_row_context :: row_context where
  "fresh_row_context = \<lparr>rc_fence_token = None, rc_claims = (\<lambda>_. None), rc_observed = (\<lambda>_. None), rc_resources = [], rc_closed = False\<rparr>"

definition holds :: "row_context \<Rightarrow> pystr \<Rightarrow> bool" where
  "holds c resource_id \<longleftrightarrow> (case map_of (rc_resources c) resource_id of None \<Rightarrow> 0 | Some n \<Rightarrow> n) > 0 \<and> \<not> rc_closed c"

definition check_open :: "row_context \<Rightarrow> exn + unit" where
  "check_open c = (if rc_closed c then Inl (CardStorageError ''card_lock_session_closed'') else Inr ())"

definition current_lock_session :: "nat \<Rightarrow> address option card_prog" where
  "current_lock_session t = atomicP (\<lambda>w. case to_var (cw_row_ops w t) of None \<Rightarrow> (w, Inr None)
     | Some a \<Rightarrow> (w, bindE (check_open (row_op w a)) (\<lambda>_. Inr (Some a))))"

text \<open>
  The outermost section of a task makes a context and remembers the old value of the variable; the inner ones share
  it and remember nothing.
\<close>

definition open_row_context :: "nat \<Rightarrow> (address \<times> address option option) card_prog" where
  "open_row_context t = atomicP (\<lambda>w. let old = to_var (cw_row_ops w t)
     in case old of Some a \<Rightarrow> if rc_closed (row_op w a) then
            (w\<lparr>cw_row_ops := (cw_row_ops w)(t := new_object t fresh_row_context (cw_row_ops w t))\<rparr>,
             Inr ((t, to_count (cw_row_ops w t)), Some old))
          else (w, Inr (a, None))
        | None \<Rightarrow> (w\<lparr>cw_row_ops := (cw_row_ops w)(t := new_object t fresh_row_context (cw_row_ops w t))\<rparr>,
             Inr ((t, to_count (cw_row_ops w t)), Some old)))"

definition close_row_context :: "nat \<Rightarrow> address \<Rightarrow> address option option \<Rightarrow> unit card_prog" where
  "close_row_context t a token = (case token of None \<Rightarrow> retP ()
     | Some old \<Rightarrow> alter (\<lambda>w. set_row_var t old (set_row_op a ((row_op w a)\<lparr>rc_closed := True\<rparr>) w)))"

definition count_of :: "(pystr \<times> nat) list \<Rightarrow> pystr \<Rightarrow> nat" where
  "count_of al k = (case map_of al k of None \<Rightarrow> 0 | Some n \<Rightarrow> n)"

definition dict_pop :: "'k \<Rightarrow> ('k \<times> 'v) list \<Rightarrow> ('k \<times> 'v) list" where
  "dict_pop k al = filter (\<lambda>(k', _). k' \<noteq> k) al"

definition add_resource :: "pystr \<Rightarrow> row_context \<Rightarrow> row_context" where
  "add_resource r c = c\<lparr>rc_fence_token := (if count_of (rc_resources c) r = 0 then None else rc_fence_token c),
     rc_resources := dict_set r (count_of (rc_resources c) r + 1) (rc_resources c)\<rparr>"

definition drop_resource :: "pystr \<Rightarrow> row_context \<Rightarrow> row_context" where
  "drop_resource r c = (let n = count_of (rc_resources c) r - 1
     in c\<lparr>rc_resources := (if n = 0 then dict_pop r (rc_resources c) else dict_set r n (rc_resources c))\<rparr>)"

definition on_row_op :: "address \<Rightarrow> (row_context \<Rightarrow> row_context) \<Rightarrow> unit card_prog" where
  "on_row_op a f = alter (\<lambda>w. set_row_op a (f (row_op w a)) w)"

definition row_fenced_lock :: "'v card_lock \<Rightarrow> 'v card_lock" where
  "row_fenced_lock base_lock t call = bindP (open_row_context t) (\<lambda>(a, token).
     sectionP (bindP (base_lock t call) (\<lambda>(held, leave).
         bindP (on_row_op a (add_resource (lc_resource call))) (\<lambda>_.
         retP (held, finallyP (on_row_op a (drop_resource (lc_resource call))) leave))))
       (close_row_context t a token))"

section \<open>The Redis lock\<close>

definition REDIS_LOCK_TTL_SECONDS :: int where "REDIS_LOCK_TTL_SECONDS = 120"
definition REDIS_LOCK_RENEW_MS :: int where "REDIS_LOCK_RENEW_MS = 20000"
definition REDIS_LOCK_POLL_MS :: int where "REDIS_LOCK_POLL_MS = 50"
definition KEY_PREFIX :: pystr where "KEY_PREFIX = lit ''kdcube:cards:lock''"

definition KINDS :: "(pystr \<times> pystr) list" where
  "KINDS = map (\<lambda>(p, k). (lit p, lit k))
     [(''delegated-card'', ''card''), (''delegated-card-lifecycle'', ''lifecycle-txn''), (''delegated-card-issuer-update'', ''issuer-update-txn''),
      (''delegated-account-fence'', ''account''), (''card-collection'', ''collection''), (''oauth-issuance-request'', ''oauth-request''),
      (''card-version-txn'', ''card-version-txn'')]"

definition path_name :: "path \<Rightarrow> pystr" where
  "path_name p = (if p = [] then [] else last p)"

definition card_lock_key :: "pystr \<Rightarrow> pystr \<Rightarrow> pystr \<Rightarrow> path option \<Rightarrow> exn + pystr" where
  "card_lock_key tenant project resource_id lock_path =
     (let prefix = takeWhile (\<lambda>c. c \<noteq> 58) resource_id; ident = tl (dropWhile (\<lambda>c. c \<noteq> 58) resource_id);
          key = (\<lambda>kind i. KEY_PREFIX @ 58 # tenant @ 58 # project @ 58 # kind @ 58 # i)
      in case map_of KINDS prefix of None \<Rightarrow> Inl (CardStorageError ''card_lock_resource_invalid'')
         | Some kind \<Rightarrow>
             if ident = [] then Inl (CardStorageError ''card_lock_resource_invalid'')
             else if kind \<noteq> lit ''card'' then Inr (key kind ident)
             else (case lock_path of None \<Rightarrow> Inl (CardStorageError ''card_lock_resource_invalid'')
                   | Some p \<Rightarrow> let card_dir = butlast p
                       in if path_name card_dir \<noteq> ident then Inl (CardStorageError ''card_lock_resource_invalid'')
                          else Inr (key kind (path_name (butlast (butlast card_dir)) @ 58 # ident))))"

text \<open>The client the helper sees: \<open>SET\<close> and \<open>GET\<close> fail with an exception that \<open>except Exception\<close> does not catch.\<close>

record lock_client =
  lk_set :: "pystr \<Rightarrow> pystr \<Rightarrow> int \<Rightarrow> bool card_prog"
  lk_get :: "pystr \<Rightarrow> pystr option card_prog"
  lk_eval :: "pystr \<Rightarrow> pystr \<Rightarrow> int card_prog"

definition redis_client :: lock_client where
  "redis_client = \<lparr>lk_set = (\<lambda>k v ttl. call_redis (set_nx k v ttl)), lk_get = redis_get,
     lk_eval = (\<lambda>k v. call_redis (delete_own k v))\<rparr>"

definition fail_fast :: "'a card_prog \<Rightarrow> 'a card_prog" where
  "fail_fast p = catchP p (\<lambda>e. failP (if is_exception e then RedisUnavailable else e))"

definition fail_fast_redis :: "lock_client \<Rightarrow> lock_client" where
  "fail_fast_redis c = \<lparr>lk_set = (\<lambda>k v ttl. fail_fast (lk_set c k v ttl)), lk_get = (\<lambda>k. fail_fast (lk_get c k)), lk_eval = lk_eval c\<rparr>"

type_synonym observed_lock = "lock_client \<Rightarrow> pystr \<Rightarrow> pyval \<Rightarrow> int \<Rightarrow> int \<Rightarrow> int \<Rightarrow> (pystr \<times> unit card_prog) card_prog"
type_synonym lock_metadata = "pystr \<Rightarrow> pystr \<Rightarrow> pystr \<Rightarrow> pystr \<Rightarrow> pyval"

definition release_own_key :: "pystr \<Rightarrow> pystr \<Rightarrow> unit card_prog" where
  "release_own_key key v = bindP (catchP (lk_eval redis_client key v) (\<lambda>_. retP 0)) (\<lambda>_. retP ())"

definition on_held_op :: "address \<Rightarrow> (held_keys \<Rightarrow> held_keys) \<Rightarrow> unit card_prog" where
  "on_held_op a f = alter (\<lambda>w. set_held_op a (f (held_op w a)) w)"

text \<open>One round of the renewal task; a cancelled one stops.\<close>

definition renew_once :: "nat \<Rightarrow> int \<Rightarrow> bool card_prog" where
  "renew_once i ttl = bindP (look (\<lambda>w. cw_renewals w ! i)) (\<lambda>x.
     if re_active x then catchP (bindP (call_redis (renew_own (re_key x) (re_value x) ttl)) (\<lambda>n. retP (n \<noteq> 0)))
       (\<lambda>e. if is_exception e then retP False else failP e)
     else failP Cancelled)"

fun renew :: "nat \<Rightarrow> nat \<Rightarrow> int \<Rightarrow> unit card_prog" where
  "renew 0 i ttl = failP Cancelled"
| "renew (Suc rounds) i ttl = bindP (renew_once i ttl) (\<lambda>ok. if ok then renew rounds i ttl
     else bindP (look (\<lambda>w. cw_renewals w ! i)) (\<lambda>x. on_held_op (re_held x) (\<lambda>h. h\<lparr>he_lost := True\<rparr>)))"

definition policy_text :: "pyval \<Rightarrow> pystr option" where
  "policy_text v = (case v of PStr s \<Rightarrow> if s = [] then None else Some s | _ \<Rightarrow> None)"

definition reported_policy :: "pyval card_prog \<Rightarrow> string \<Rightarrow> pystr option card_prog" where
  "reported_policy ask field = catchP (bindP ask (\<lambda>found. retP (case found of PDict d \<Rightarrow> policy_text (dget_or d field PNone) | _ \<Rightarrow> None)))
     (\<lambda>e. if is_exception e then retP None else failP e)"

definition assert_redis_noeviction :: "unit card_prog" where
  "assert_redis_noeviction = bindP (reported_policy redis_config_get ''maxmemory-policy'') (\<lambda>first.
     bindP (case first of None \<Rightarrow> reported_policy redis_info_memory ''maxmemory_policy'' | Some _ \<Rightarrow> retP first) (\<lambda>policy.
     case policy of None \<Rightarrow> failP (CardStorageError ''card_lock_redis_policy_unverified'')
     | Some p \<Rightarrow> if p \<noteq> lit ''noeviction'' then failP (CardStorageError ''card_lock_redis_policy_not_noeviction'') else retP ()))"

record redis_lock_settings =
  rs_instance :: nat
  rs_redis :: bool
  rs_tenant :: pystr
  rs_project :: pystr
  rs_ttl_seconds :: int
  rs_renew_ms :: "int option"
  rs_poll_ms :: int
  rs_require_noeviction :: bool

definition verify_policy :: "redis_lock_settings \<Rightarrow> unit card_prog" where
  "verify_policy cfg = bindP (look (\<lambda>w. cw_verified w (rs_instance cfg))) (\<lambda>verified.
     if rs_require_noeviction cfg \<and> \<not> verified
     then bindP assert_redis_noeviction (\<lambda>_. alter (\<lambda>w. w\<lparr>cw_verified := (cw_verified w)(rs_instance cfg := True)\<rparr>))
     else retP ())"

definition fresh_held :: held_keys where
  "fresh_held = \<lparr>he_keys = [], he_counts = [], he_lost = False, he_closed = False\<rparr>"

definition open_held :: "nat \<Rightarrow> (address \<times> bool) card_prog" where
  "open_held t = atomicP (\<lambda>w. case to_var (cw_held_ops w t) of
     None \<Rightarrow> (w\<lparr>cw_held_ops := (cw_held_ops w)(t := new_object t fresh_held (cw_held_ops w t))\<rparr>,
              Inr ((t, to_count (cw_held_ops w t)), True))
   | Some a \<Rightarrow> (w, if he_closed (held_op w a) then Inl (CardStorageError ''card_lock_session_closed'') else Inr (a, False)))"

definition close_held :: "nat \<Rightarrow> address \<Rightarrow> bool \<Rightarrow> unit card_prog" where
  "close_held t a opened = (if opened then alter (\<lambda>w. set_held_var t None (set_held_op a ((held_op w a)\<lparr>he_closed := True\<rparr>) w)) else retP ())"

text \<open>The operation holds the key from now on, and its renewal runs; \<open>None\<close> when renewal is off.\<close>

definition start_hold :: "redis_lock_settings \<Rightarrow> address \<Rightarrow> pystr \<Rightarrow> pystr \<Rightarrow> nat option card_prog" where
  "start_hold cfg a key v = atomicP (\<lambda>w.
     let h = held_op w a;
         w1 = set_held_op a (h\<lparr>he_keys := dict_set key v (he_keys h), he_counts := dict_set key 1 (he_counts h)\<rparr>) w
     in case rs_renew_ms cfg of None \<Rightarrow> (w1, Inr None)
        | Some _ \<Rightarrow> (w1\<lparr>cw_renewals := cw_renewals w @ [\<lparr>re_held = a, re_key = key, re_value = v, re_active = True\<rparr>]\<rparr>,
                     Inr (Some (length (cw_renewals w)))))"

definition stop_renewal :: "nat option \<Rightarrow> card_world \<Rightarrow> card_world" where
  "stop_renewal r w = (case r of None \<Rightarrow> w | Some i \<Rightarrow> w\<lparr>cw_renewals := (cw_renewals w)[i := (cw_renewals w ! i)\<lparr>re_active := False\<rparr>]\<rparr>)"

definition end_hold :: "address \<Rightarrow> pystr \<Rightarrow> nat option \<Rightarrow> unit card_prog" where
  "end_hold a key r = bindP (alter (stop_renewal r)) (\<lambda>_.
     on_held_op a (\<lambda>h. h\<lparr>he_keys := dict_pop key (he_keys h), he_counts := dict_pop key (he_counts h)\<rparr>))"

definition key_kind :: "pystr \<Rightarrow> pystr" where
  "key_kind key = takeWhile (\<lambda>c. c \<noteq> 58) ((\<lambda>s. tl (dropWhile (\<lambda>c. c \<noteq> 58) s)) ((\<lambda>s. tl (dropWhile (\<lambda>c. c \<noteq> 58) s))
     ((\<lambda>s. tl (dropWhile (\<lambda>c. c \<noteq> 58) s)) ((\<lambda>s. tl (dropWhile (\<lambda>c. c \<noteq> 58) s)) ((\<lambda>s. tl (dropWhile (\<lambda>c. c \<noteq> 58) s)) key)))))"

text \<open>\<open>json.dumps(v, sort_keys=True)\<close>\<close>

fun join_spaced :: "pystr list \<Rightarrow> pystr" where
  "join_spaced [] = []"
| "join_spaced [t] = t"
| "join_spaced (t # ts) = t @ 44 # 32 # join_spaced ts"

fun spaced :: "pyval \<Rightarrow> exn + pystr" and spaced_list :: "pyval list \<Rightarrow> exn + pystr list"
  and spaced_items :: "(pyval \<times> pyval) list \<Rightarrow> exn + (pyval \<times> pystr) list" where
  "spaced (PList xs) = bindE (spaced_list xs) (\<lambda>ts. Inr (91 # join_spaced ts @ [93]))"
| "spaced (PTuple xs) = bindE (spaced_list xs) (\<lambda>ts. Inr (91 # join_spaced ts @ [93]))"
| "spaced (PDict d) = bindE (spaced_items d) (\<lambda>es. bindE (sort_entries es) (\<lambda>es'. Inr (123 # join_spaced (map snd es') @ [125])))"
| "spaced v = dumps True v"
| "spaced_list [] = Inr []"
| "spaced_list (x # xs) = bindE (spaced x) (\<lambda>t. bindE (spaced_list xs) (\<lambda>ts. Inr (t # ts)))"
| "spaced_items [] = Inr []"
| "spaced_items ((k, v) # d) = bindE (key_text True k) (\<lambda>kt. bindE (spaced v)
     (\<lambda>t. bindE (spaced_items d) (\<lambda>es. Inr ((k, kt @ 58 # 32 # t) # es))))"

definition acquire_error :: "exn \<Rightarrow> exn" where
  "acquire_error e = (if e = RedisUnavailable then CardStorageError ''card_lock_unavailable''
     else if is_timeout e then CardMutationLockTimeout else e)"

definition entered_error :: "exn \<Rightarrow> exn" where
  "entered_error e = (if e = RedisUnavailable then CardStorageError ''card_lock_unavailable'' else e)"

text \<open>The file lock, with what is left of the waiting time.\<close>

definition inner_section :: "'v card_lock \<Rightarrow> nat \<Rightarrow> lock_call \<Rightarrow> int \<Rightarrow> ('v \<times> unit card_prog) card_prog" where
  "inner_section base_lock t call deadline = bindP (look (\<lambda>w. lr_now (cw_redis w)))
     (\<lambda>time. base_lock t (call\<lparr>lc_wait := max 0 (deadline - time)\<rparr>))"

definition reenter_key :: "'v card_lock \<Rightarrow> nat \<Rightarrow> lock_call \<Rightarrow> int \<Rightarrow> address \<Rightarrow> pystr \<Rightarrow> ('v \<times> unit card_prog) card_prog" where
  "reenter_key base_lock t call deadline a key =
     bindP (on_held_op a (\<lambda>h. h\<lparr>he_counts := dict_set key (count_of (he_counts h) key + 1) (he_counts h)\<rparr>)) (\<lambda>_.
       sectionP (inner_section base_lock t call deadline)
         (on_held_op a (\<lambda>h. h\<lparr>he_counts := dict_set key (count_of (he_counts h) key - 1) (he_counts h)\<rparr>)))"

definition acquire_key :: "redis_lock_settings \<Rightarrow> observed_lock \<Rightarrow> pystr \<Rightarrow> pyval \<Rightarrow> int \<Rightarrow> pystr \<Rightarrow> (pystr \<times> unit card_prog) card_prog" where
  "acquire_key cfg observed_lock key metadata wait own =
     catchP (observed_lock (fail_fast_redis redis_client) key metadata (rs_ttl_seconds cfg * 1000) (max 0 wait) (rs_poll_ms cfg))
       (\<lambda>e. bindP (release_own_key key own) (\<lambda>_. failP (acquire_error e)))"

definition owned_section ::
  "redis_lock_settings \<Rightarrow> 'v card_lock \<Rightarrow> nat \<Rightarrow> lock_call \<Rightarrow> int \<Rightarrow> address \<Rightarrow> pystr \<Rightarrow> pystr \<times> unit card_prog \<Rightarrow> ('v \<times> unit card_prog) card_prog" where
  "owned_section cfg base_lock t call deadline a key = (\<lambda>(v, leave_redis).
     bindP (catchP (sectionP (bindP (start_hold cfg a key v) (\<lambda>r. sectionP (inner_section base_lock t call deadline) (end_hold a key r))) leave_redis)
       (\<lambda>e. failP (entered_error e)))
     (\<lambda>(inner, leave). retP (inner, catchP leave (\<lambda>e. failP (entered_error e)))))"

definition fresh_owner_token :: "(nat \<Rightarrow> pystr) \<Rightarrow> pystr card_prog" where
  "fresh_owner_token source = atomicP (\<lambda>w. (w\<lparr>cw_owner_tokens := Suc (cw_owner_tokens w)\<rparr>, Inr (source (cw_owner_tokens w))))"

definition take_key ::
  "redis_lock_settings \<Rightarrow> observed_lock \<Rightarrow> lock_metadata \<Rightarrow> (nat \<Rightarrow> pystr) \<Rightarrow> 'v card_lock \<Rightarrow> nat \<Rightarrow> lock_call \<Rightarrow> int \<Rightarrow> address \<Rightarrow> pystr
    \<Rightarrow> ('v \<times> unit card_prog) card_prog" where
  "take_key cfg observed_lock make_metadata token_hex base_lock t call deadline a key = bindP (fresh_owner_token token_hex) (\<lambda>owner.
     let metadata = make_metadata (lc_resource call) (lc_operation call) owner (key_kind key)
     in bindP (liftP (spaced metadata)) (\<lambda>own.
        bindP (acquire_key cfg observed_lock key metadata (lc_wait call) own) (owned_section cfg base_lock t call deadline a key)))"

definition redis_lock ::
  "redis_lock_settings \<Rightarrow> observed_lock \<Rightarrow> lock_metadata \<Rightarrow> (nat \<Rightarrow> pystr) \<Rightarrow> 'v card_lock \<Rightarrow> 'v card_lock" where
  "redis_lock cfg observed_lock make_metadata token_hex base_lock t call =
     (if \<not> rs_redis cfg then failP (CardStorageError ''card_lock_unavailable'')
      else bindP (verify_policy cfg) (\<lambda>_.
        bindP (liftP (card_lock_key (rs_tenant cfg) (rs_project cfg) (lc_resource call) (Some (lc_path call)))) (\<lambda>key.
        bindP (open_held t) (\<lambda>(a, opened).
        bindP (look (\<lambda>w. lr_now (cw_redis w))) (\<lambda>time. let deadline = time + max 0 (lc_wait call)
          in sectionP (bindP (look (\<lambda>w. count_of (he_counts (held_op w a)) key)) (\<lambda>n.
                 if n > 0 then reenter_key base_lock t call deadline a key
                 else take_key cfg observed_lock make_metadata token_hex base_lock t call deadline a key))
               (close_held t a opened))))))"

definition redis_card_mutation_lock ::
  "redis_lock_settings \<Rightarrow> observed_lock \<Rightarrow> lock_metadata \<Rightarrow> (nat \<Rightarrow> pystr) \<Rightarrow> 'v card_lock \<Rightarrow> exn + 'v card_lock" where
  "redis_card_mutation_lock cfg observed_lock make_metadata token_hex base_lock =
     (case rs_renew_ms cfg of Some r \<Rightarrow> if \<not> (0 < r \<and> 2 * r < rs_ttl_seconds cfg * 1000)
          then Inl (ValueError ''card_lock_renewal_must_be_under_half_the_ttl'')
          else Inr (redis_lock cfg observed_lock make_metadata token_hex base_lock)
      | None \<Rightarrow> Inr (redis_lock cfg observed_lock make_metadata token_hex base_lock))"

definition hub_card_mutation_lock :: "'v card_lock \<Rightarrow> os_path \<Rightarrow> exn + 'v card_lock" where
  "hub_card_mutation_lock base_lock root = bindE (container_local_lock base_lock root) (\<lambda>l. Inr (row_fenced_lock (proc_only_lock l)))"

definition hub_redis_card_mutation_lock ::
  "redis_lock_settings \<Rightarrow> observed_lock \<Rightarrow> lock_metadata \<Rightarrow> (nat \<Rightarrow> pystr) \<Rightarrow> 'v card_lock \<Rightarrow> os_path \<Rightarrow> exn + 'v card_lock" where
  "hub_redis_card_mutation_lock cfg observed_lock make_metadata token_hex base_lock root =
     bindE (container_local_lock base_lock root) (\<lambda>l.
     bindE (redis_card_mutation_lock cfg observed_lock make_metadata token_hex l) (\<lambda>stack. Inr (row_fenced_lock (proc_only_lock stack))))"

section \<open>The owner check\<close>

definition assert_card_lock_held :: "nat \<Rightarrow> address option card_prog" where
  "assert_card_lock_held t = atomicP (\<lambda>w. (w, case to_var (cw_held_ops w t) of None \<Rightarrow> Inr None
     | Some a \<Rightarrow> if he_closed (held_op w a) then Inl (CardStorageError ''card_lock_session_closed'')
         else if he_lost (held_op w a) then Inl (CardStorageError ''card_lock_lost'') else Inr (Some a)))"

text \<open>The pipeline of \<open>GET\<close>s: a failed one ends it with an exception, or is among the replies.\<close>

definition pipeline_get :: "pystr \<Rightarrow> (exn + pystr option) card_prog" where
  "pipeline_get k = atomicP (\<lambda>w. let r = cw_redis w; w' = w\<lparr>cw_redis := r\<lparr>lr_ops := Suc (lr_ops r)\<rparr>\<rparr>
     in (w', case lr_fault r (lr_ops r) of Works \<Rightarrow> Inr (Inr (live_value r k)) | Fails e \<Rightarrow> Inl e
             | Lost_Reply e \<Rightarrow> if is_exception e then Inr (Inl e) else Inl e))"

fun pipeline_execute :: "pystr list \<Rightarrow> ((exn + pystr option) list) card_prog" where
  "pipeline_execute [] = retP []"
| "pipeline_execute (k # ks) = bindP (pipeline_get k) (\<lambda>x. bindP (pipeline_execute ks) (\<lambda>xs. retP (x # xs)))"

definition replies_own :: "(pystr \<times> pystr) list \<Rightarrow> (exn + pystr option) list \<Rightarrow> bool" where
  "replies_own expected found \<longleftrightarrow> length found = length expected \<and> (\<forall>((_, v), x) \<in> set (zip expected found). x = Inr (Some v))"

definition mark_lost :: "address \<Rightarrow> unit card_prog" where
  "mark_lost a = bindP (on_held_op a (\<lambda>h. h\<lparr>he_lost := True\<rparr>)) (\<lambda>_. failP (CardStorageError ''card_lock_lost''))"

definition assert_card_lock_owned :: "nat \<Rightarrow> unit card_prog" where
  "assert_card_lock_owned t = bindP (assert_card_lock_held t) (\<lambda>held. case held of None \<Rightarrow> retP ()
     | Some a \<Rightarrow> bindP (look (\<lambda>w. he_keys (held_op w a))) (\<lambda>expected.
         if expected = [] then retP ()
         else bindP (catchP (bindP (pipeline_execute (map fst expected)) (\<lambda>found. retP (Some found)))
                (\<lambda>e. if is_exception e then retP None else failP e)) (\<lambda>found.
           case found of None \<Rightarrow> mark_lost a
           | Some xs \<Rightarrow> if replies_own expected xs then retP () else mark_lost a)))"

section \<open>Write guards\<close>

definition guard_writes_under :: "path \<Rightarrow> pystr \<Rightarrow> write_guard \<Rightarrow> unit card_prog" where
  "guard_writes_under root name guard = alter (\<lambda>w. w\<lparr>cw_guards := dict_set root
     (dict_set name guard (case map_of (cw_guards w) root of None \<Rightarrow> [] | Some gs \<Rightarrow> gs)) (cw_guards w)\<rparr>)"

definition guard_card_store_writes :: "path \<Rightarrow> unit card_prog" where
  "guard_card_store_writes root = guard_writes_under root (lit ''role'') Role_Guard"

definition guard_card_store_lock_owner :: "path \<Rightarrow> unit card_prog" where
  "guard_card_store_lock_owner root = guard_writes_under root (lit ''card_lock_owner'') Owner_Guard"

definition guards_for :: "(path \<times> (pystr \<times> write_guard) list) list \<Rightarrow> path \<Rightarrow> write_guard list" where
  "guards_for registry p = concat (map (\<lambda>(_, guards). map snd guards)
     (filter (\<lambda>(root, _). length root < length p \<and> take (length root) p = root) registry))"

definition run_guard :: "nat \<Rightarrow> write_guard \<Rightarrow> unit card_prog" where
  "run_guard t g = (case g of Role_Guard \<Rightarrow> refuse_outside_proc t | Owner_Guard \<Rightarrow> assert_card_lock_owned t)"

fun run_guards :: "(write_guard \<Rightarrow> unit card_prog) \<Rightarrow> write_guard list \<Rightarrow> unit card_prog" where
  "run_guards run [] = retP ()"
| "run_guards run (g # gs) = bindP (run g) (\<lambda>_. run_guards run gs)"

definition check_write_guards_async :: "nat \<Rightarrow> path \<Rightarrow> unit card_prog" where
  "check_write_guards_async t p = bindP (look (\<lambda>w. guards_for (cw_guards w) p)) (run_guards (run_guard t))"

text \<open>Synchronous callers get the owner check without a round trip.\<close>

definition run_guard_sync :: "nat \<Rightarrow> write_guard \<Rightarrow> unit card_prog" where
  "run_guard_sync t g = (case g of Role_Guard \<Rightarrow> refuse_outside_proc t | Owner_Guard \<Rightarrow> bindP (assert_card_lock_held t) (\<lambda>_. retP ()))"

definition check_write_guards :: "nat \<Rightarrow> path \<Rightarrow> unit card_prog" where
  "check_write_guards t p = bindP (look (\<lambda>w. guards_for (cw_guards w) p)) (run_guards (run_guard_sync t))"

definition unlink_file :: "path \<Rightarrow> unit card_prog" where
  "unlink_file p = on_card_files (\<lambda>s. (fst (unlink p s), if snd (unlink p s) then Inr () else Inl OSError))"

definition unlink_guarded :: "nat \<Rightarrow> path \<Rightarrow> unit card_prog" where
  "unlink_guarded t p = bindP (check_write_guards t p) (\<lambda>_. unlink_file p)"

definition unlink_guarded_async :: "nat \<Rightarrow> path \<Rightarrow> unit card_prog" where
  "unlink_guarded_async t p = bindP (check_write_guards_async t p) (\<lambda>_. unlink_file p)"

definition write_json_guarded :: "nat \<Rightarrow> path \<Rightarrow> pyval \<Rightarrow> unit card_prog" where
  "write_json_guarded t p v = bindP (check_write_guards_async t p) (\<lambda>_. on_card_files (write_json_atomic p v))"

end
