(* ===== verification/Card_Rows.thy ===== *)
theory Card_Rows
  imports Card_Locks
begin

text \<open>
  \<open>connection_hub/delegated_credentials/cards/pointer_authority.py\<close>: the card pointers and the markers of card-version transactions as
  rows that are changed by compare-and-swap on the revision and the fence token an operation read, and the
  operations of \<open>cards/store.py\<close> and \<open>cards/card_version_reservation.py\<close> on them.

  Every SQL statement is a function on the tables.
\<close>

section \<open>Statements\<close>

definition put_row :: "row_key \<Rightarrow> card_row option \<Rightarrow> card_tables \<Rightarrow> card_tables" where
  "put_row k x d = d\<lparr>ct_rows := (ct_rows d)(k := x)\<rparr>"

text \<open>A null token is never equal to anything.\<close>

definition sql_nextval :: "card_tables \<Rightarrow> card_tables \<times> int" where
  "sql_nextval d = (d\<lparr>ct_sequence := ct_sequence d + 1\<rparr>, ct_sequence d + 1)"

definition sql_select_row :: "row_key \<Rightarrow> card_tables \<Rightarrow> card_tables \<times> card_row option" where
  "sql_select_row k d = (d, ct_rows d k)"

definition claimed_fence :: "int option \<Rightarrow> int option \<Rightarrow> int option" where
  "claimed_fence fence token = (case token of None \<Rightarrow> fence
     | Some n \<Rightarrow> (case fence of None \<Rightarrow> Some n | Some f \<Rightarrow> if f \<le> n then Some n else Some f))"

definition sql_claim :: "row_key \<Rightarrow> int option \<Rightarrow> card_tables \<Rightarrow> card_tables \<times> (card_row \<times> bool) option" where
  "sql_claim k token d = (case ct_rows d k of None \<Rightarrow> (d, None)
     | Some r \<Rightarrow> let r' = r\<lparr>cr_fence_token := claimed_fence (cr_fence_token r) token\<rparr>
         in (put_row k (Some r') d, Some (r', token \<noteq> None \<and> cr_fence_token r' = token)))"

fun is_pointer :: "row_key \<Rightarrow> bool" where
  "is_pointer (Pointer_Row _ _) = True" | "is_pointer (Marker_Row _) = False"

text \<open>\<open>INSERT ... ON CONFLICT DO NOTHING RETURNING\<close>\<close>

definition sql_insert :: "row_key \<Rightarrow> bytes \<Rightarrow> int option \<Rightarrow> card_tables \<Rightarrow> card_tables \<times> card_row option" where
  "sql_insert k document token d = (case ct_rows d k of Some _ \<Rightarrow> (d, None)
     | None \<Rightarrow> let r = \<lparr>cr_document = document, cr_digest = (if is_pointer k then Some (sha256_hex document) else None), cr_row_revision = 1,
                    cr_incarnation = (if is_pointer k then None else Some (ct_uuid_source d (ct_uuids d))), cr_fence_token = token\<rparr>
         in (put_row k (Some r) (d\<lparr>ct_uuids := Suc (ct_uuids d)\<rparr>), Some r))"

definition matches_row :: "row_key \<Rightarrow> observation \<Rightarrow> int option \<Rightarrow> card_row \<Rightarrow> bool" where
  "matches_row k expected token r \<longleftrightarrow> cr_row_revision r = fst expected \<and> (is_pointer k \<or> snd expected \<noteq> None \<and> cr_incarnation r = snd expected)
     \<and> token \<noteq> None \<and> cr_fence_token r = token"

definition sql_update_row :: "row_key \<Rightarrow> observation \<Rightarrow> int option \<Rightarrow> bytes \<Rightarrow> card_tables \<Rightarrow> card_tables \<times> card_row option" where
  "sql_update_row k expected token document d = (case ct_rows d k of None \<Rightarrow> (d, None)
     | Some r \<Rightarrow> if matches_row k expected token r
         then let r' = r\<lparr>cr_document := document, cr_digest := (if is_pointer k then Some (sha256_hex document) else cr_digest r),
                    cr_row_revision := cr_row_revision r + 1\<rparr>
              in (put_row k (Some r') d, Some r')
         else (d, None))"

definition sql_delete :: "row_key \<Rightarrow> observation \<Rightarrow> int option \<Rightarrow> card_tables \<Rightarrow> card_tables \<times> bool" where
  "sql_delete k expected token d = (case ct_rows d k of None \<Rightarrow> (d, False)
     | Some r \<Rightarrow> if matches_row k expected token r then (put_row k None d, True) else (d, False))"

section \<open>The session\<close>

definition session_get :: "nat \<Rightarrow> exn + 'a \<Rightarrow> (row_context \<Rightarrow> exn + 'a) \<Rightarrow> 'a card_prog" where
  "session_get t none f = atomicP (\<lambda>w. (w, case to_var (cw_row_ops w t) of None \<Rightarrow> none
     | Some a \<Rightarrow> bindE (check_open (row_op w a)) (\<lambda>_. f (row_op w a))))"

definition session_put :: "nat \<Rightarrow> exn + unit \<Rightarrow> (row_context \<Rightarrow> row_context) \<Rightarrow> unit card_prog" where
  "session_put t none f = atomicP (\<lambda>w. case to_var (cw_row_ops w t) of None \<Rightarrow> (w, none)
     | Some a \<Rightarrow> if rc_closed (row_op w a) then (w, Inl (CardStorageError ''card_lock_session_closed''))
         else (set_row_op a (f (row_op w a)) w, Inr ()))"

definition draw_fence :: "nat \<Rightarrow> unit card_prog" where
  "draw_fence t = bindP (session_get t (Inr False) (\<lambda>c. Inr (rc_fence_token c = None))) (\<lambda>wanted.
     if wanted then bindP (call_sql sql_nextval) (\<lambda>n. session_put t (Inl AttributeError) (\<lambda>c. c\<lparr>rc_fence_token := Some n\<rparr>)) else retP ())"

definition claim_token :: "nat \<Rightarrow> int option card_prog" where
  "claim_token t = bindP (draw_fence t) (\<lambda>_. session_get t (Inl AttributeError) (\<lambda>c. Inr (rc_fence_token c)))"

definition set_claimed :: "nat \<Rightarrow> row_key \<Rightarrow> int option \<Rightarrow> unit card_prog" where
  "set_claimed t k token = session_put t (Inl AttributeError) (\<lambda>c. c\<lparr>rc_claims := (rc_claims c)(k := token)\<rparr>)"

definition write_fence :: "nat \<Rightarrow> row_key \<Rightarrow> int option card_prog" where
  "write_fence t k = session_get t (Inl AttributeError) (\<lambda>c. Inr (rc_claims c k))"

definition required_observation :: "nat \<Rightarrow> row_key \<Rightarrow> observation card_prog" where
  "required_observation t k = session_get t (Inl (CardStorageError ''card_lock_not_held''))
     (\<lambda>c. case rc_observed c k of None \<Rightarrow> Inl (CardStorageError ''card_row_unobserved'') | Some x \<Rightarrow> Inr x)"

definition observe :: "nat \<Rightarrow> row_key \<Rightarrow> observation \<Rightarrow> unit card_prog" where
  "observe t k x = session_put t (Inr ()) (\<lambda>c. c\<lparr>rc_observed := (rc_observed c)(k := Some x)\<rparr>)"

definition observation_of :: "row_key \<Rightarrow> card_row \<Rightarrow> observation" where
  "observation_of k r = (cr_row_revision r, if is_pointer k then None else cr_incarnation r)"

section \<open>Rows\<close>

definition POINTER_DOCUMENT_MAX_BYTES :: nat where "POINTER_DOCUMENT_MAX_BYTES = 4096"
definition MARKER_DOCUMENT_MAX_BYTES :: nat where "MARKER_DOCUMENT_MAX_BYTES = 65536"

definition encode_document :: "pyval \<Rightarrow> nat \<Rightarrow> exn + bytes" where
  "encode_document document limit = (case document of
     PDict d \<Rightarrow> bindE (canonical_json_bytes document) (\<lambda>b.
       if 2 \<le> length b \<and> length b \<le> limit then Inr b else Inl (CardStorageError ''card_row_document_too_large''))
   | _ \<Rightarrow> Inl (CardStorageError ''card_row_document_invalid''))"

definition schema_name_ok :: "pystr \<Rightarrow> bool" where
  "schema_name_ok s \<longleftrightarrow> take 7 s = lit ''kdcube_'' \<and> 1 \<le> length (drop 7 s) \<and> length (drop 7 s) \<le> 56
     \<and> (\<forall>c \<in> set (drop 7 s). (97 \<le> c \<and> c \<le> 122) \<or> is_digit_char c \<or> c = 95)"

definition card_rows_schema :: "pystr \<Rightarrow> exn + pystr" where
  "card_rows_schema s = (if schema_name_ok s then Inr s else Inl (ValueError ''The exact validated tenant/project schema is required.''))"

text \<open>The schema script creates what is missing, here the table of activations.\<close>

definition ensure_schema :: "unit card_prog" where
  "ensure_schema = call_sql (\<lambda>d. (d\<lparr>ct_authority := True\<rparr>, ()))"

definition activate :: "unit card_prog" where
  "activate = bindP (call_sql (\<lambda>d. if ct_authority d then (d\<lparr>ct_activated := True\<rparr>, True) else (d, False)))
     (\<lambda>present. if present then retP () else failP DatabaseError)"

definition is_activated :: "bool card_prog" where
  "is_activated = bindP (call_sql (\<lambda>d. (d, (ct_authority d, ct_activated d))))
     (\<lambda>(present, active). if present then retP active else failP DatabaseError)"

definition activation_recorded :: "bool card_prog" where
  "activation_recorded = bindP (call_sql (\<lambda>d. (d, ct_authority d))) (\<lambda>present. if present then is_activated else retP False)"

text \<open>The row with its document, after recording what was seen.\<close>

definition seen_row :: "nat \<Rightarrow> row_key \<Rightarrow> card_row option \<Rightarrow> (pyval \<times> int) option card_prog" where
  "seen_row t k row = (case row of None \<Rightarrow> bindP (observe t k (0, None)) (\<lambda>_. retP None)
     | Some r \<Rightarrow> bindP (observe t k (observation_of k r)) (\<lambda>_.
         bindP (liftP (parse_canonical_json_bytes (cr_document r))) (\<lambda>v. retP (Some (v, cr_row_revision r)))))"

definition read_row :: "nat \<Rightarrow> row_key \<Rightarrow> bool \<Rightarrow> (pyval \<times> int) option card_prog" where
  "read_row t k claim = bindP (current_lock_session t) (\<lambda>session.
     if session = None \<or> \<not> claim then bindP (call_sql (sql_select_row k)) (seen_row t k)
     else bindP (claim_token t) (\<lambda>token. bindP (call_sql (sql_claim k token)) (\<lambda>row.
       bindP (case row of None \<Rightarrow> retP () | Some (_, claimed) \<Rightarrow> set_claimed t k (if claimed then token else None)) (\<lambda>_.
       seen_row t k (map_option fst row)))))"

definition read_pointer :: "nat \<Rightarrow> pystr \<Rightarrow> pystr \<Rightarrow> bool \<Rightarrow> (pyval \<times> int) option card_prog" where
  "read_pointer t subject_hash access_id claim = read_row t (Pointer_Row subject_hash access_id) claim"

definition read_marker :: "nat \<Rightarrow> pystr \<Rightarrow> bool \<Rightarrow> (pyval \<times> int) option card_prog" where
  "read_marker t txn claim = read_row t (Marker_Row txn) claim"

definition adopt_row :: "nat \<Rightarrow> row_key \<Rightarrow> nat \<Rightarrow> pyval \<Rightarrow> string \<Rightarrow> (pyval \<times> int) card_prog" where
  "adopt_row t k limit document failed = bindP (required_observation t k) (\<lambda>_.
     bindP (liftP (encode_document document limit)) (\<lambda>encoded.
     bindP (claim_token t) (\<lambda>token. bindP (call_sql (sql_insert k encoded token)) (\<lambda>_.
     bindP (read_row t k True) (\<lambda>found. case found of None \<Rightarrow> failP (CardStorageError failed) | Some x \<Rightarrow> retP x)))))"

definition adopt_pointer :: "nat \<Rightarrow> pystr \<Rightarrow> pystr \<Rightarrow> pyval \<Rightarrow> (pyval \<times> int) card_prog" where
  "adopt_pointer t subject_hash access_id document =
     adopt_row t (Pointer_Row subject_hash access_id) POINTER_DOCUMENT_MAX_BYTES document ''card_pointer_adoption_failed''"

definition adopt_marker :: "nat \<Rightarrow> pystr \<Rightarrow> pyval \<Rightarrow> (pyval \<times> int) card_prog" where
  "adopt_marker t txn document = adopt_row t (Marker_Row txn) MARKER_DOCUMENT_MAX_BYTES document ''card_version_marker_adoption_failed''"

definition written_row :: "nat \<Rightarrow> row_key \<Rightarrow> string \<Rightarrow> card_row option \<Rightarrow> int card_prog" where
  "written_row t k moved row = (case row of None \<Rightarrow> failP (CardStorageError moved)
     | Some r \<Rightarrow> bindP (observe t k (observation_of k r)) (\<lambda>_. retP (cr_row_revision r)))"

definition write_pointer :: "nat \<Rightarrow> pystr \<Rightarrow> pystr \<Rightarrow> pyval \<Rightarrow> int card_prog" where
  "write_pointer t subject_hash access_id document = (let k = Pointer_Row subject_hash access_id in
     bindP (required_observation t k) (\<lambda>expected. bindP (liftP (encode_document document POINTER_DOCUMENT_MAX_BYTES)) (\<lambda>encoded.
     bindP (if fst expected = 0
            then bindP (claim_token t) (\<lambda>token. bindP (call_sql (sql_insert k encoded token)) (\<lambda>row.
              if row = None then retP row else bindP (claim_token t) (\<lambda>token'. bindP (set_claimed t k token') (\<lambda>_. retP row))))
            else bindP (write_fence t k) (\<lambda>fence. call_sql (sql_update_row k expected fence encoded)))
       (written_row t k ''card_pointer_moved''))))"

definition write_marker :: "nat \<Rightarrow> pystr \<Rightarrow> pyval \<Rightarrow> int card_prog" where
  "write_marker t txn document = (let k = Marker_Row txn in
     bindP (current_lock_session t) (\<lambda>session.
     bindP (if session = None then retP (0, None) else required_observation t k) (\<lambda>expected.
     bindP (if session = None then retP None else claim_token t) (\<lambda>token.
     bindP (liftP (encode_document document MARKER_DOCUMENT_MAX_BYTES)) (\<lambda>encoded.
     bindP (if fst expected = 0
            then bindP (call_sql (sql_insert k encoded token)) (\<lambda>row.
              if row = None \<or> session = None then retP row else bindP (set_claimed t k token) (\<lambda>_. retP row))
            else bindP (write_fence t k) (\<lambda>fence. call_sql (sql_update_row k expected fence encoded)))
       (written_row t k ''card_version_marker_moved''))))))"

definition delete_marker :: "nat \<Rightarrow> pystr \<Rightarrow> unit card_prog" where
  "delete_marker t txn = (let k = Marker_Row txn in bindP (required_observation t k) (\<lambda>expected.
     if fst expected = 0 then retP ()
     else bindP (write_fence t k) (\<lambda>fence. bindP (call_sql (sql_delete k expected fence)) (\<lambda>deleted.
       if deleted then observe t k (0, None) else failP (CardStorageError ''card_version_marker_moved'')))))"

section \<open>The store\<close>

definition current_path :: "pystr \<Rightarrow> pystr \<Rightarrow> exn + path" where
  "current_path subject_hash access_id = bindE (card_subject_hash subject_hash) (\<lambda>h. bindE (card_access_id access_id) (\<lambda>i.
     Inr [lit ''grantors'', h, lit ''cards'', i, lit ''current.json'']))"

definition ABSENT_POINTER :: pyval where
  "ABSENT_POINTER = obj [(''schema'', PStr (lit ''connection_hub.card-current-absent.v1''))]"

definition guard_row :: "nat \<Rightarrow> path \<Rightarrow> unit card_prog" where
  "guard_row t p = bindP (draw_fence t) (\<lambda>_. check_write_guards_async t p)"

definition shown_pointer :: "pyval \<Rightarrow> pyval option" where
  "shown_pointer v = (if v = ABSENT_POINTER then None else Some v)"

definition session_holds :: "nat \<Rightarrow> pystr \<Rightarrow> bool card_prog" where
  "session_holds t resource_id = session_get t (Inr False) (\<lambda>c. Inr (holds c resource_id))"

definition read_pointer_document :: "bool \<Rightarrow> nat \<Rightarrow> pystr \<Rightarrow> pystr \<Rightarrow> pyval option card_prog" where
  "read_pointer_document rows t subject_hash access_id = bindP (liftP (current_path subject_hash access_id)) (\<lambda>p.
     if \<not> rows then on_card_files (read_json_or_none p)
     else bindP (liftP (card_access_id access_id)) (\<lambda>i. bindP (session_holds t (lit ''delegated-card:'' @ i)) (\<lambda>holder.
       bindP (if holder then guard_row t p else retP ()) (\<lambda>_.
       bindP (read_pointer t subject_hash access_id holder) (\<lambda>found. case found of
         Some (document, _) \<Rightarrow> retP (shown_pointer document)
       | None \<Rightarrow> bindP (on_card_files (read_json_or_none p)) (\<lambda>hint. case hint of None \<Rightarrow> retP None
           | Some h \<Rightarrow> if \<not> holder then retP (Some h)
               else bindP (guard_row t p) (\<lambda>_. bindP (adopt_pointer t subject_hash access_id h) (\<lambda>(document, _). retP (shown_pointer document)))))))))"

definition MARKER_ROW_ERA_KEY :: pyval where "MARKER_ROW_ERA_KEY = PStr (lit ''_card_rows_era'')"

definition without_era :: "pyval \<Rightarrow> pyval" where
  "without_era v = (case v of PDict d \<Rightarrow> PDict (dict_pop MARKER_ROW_ERA_KEY d) | _ \<Rightarrow> v)"

definition has_era :: "pyval \<Rightarrow> bool" where
  "has_era v = (case v of PDict d \<Rightarrow> map_of d MARKER_ROW_ERA_KEY = Some (PBool True) | _ \<Rightarrow> False)"

definition card_version_marker_path :: "pystr \<Rightarrow> path" where
  "card_version_marker_path txn = [lit ''card-versions'', txn @ lit ''.json'']"

definition read_marker_document :: "bool \<Rightarrow> nat \<Rightarrow> pystr \<Rightarrow> pyval option card_prog" where
  "read_marker_document rows t txn = (let p = card_version_marker_path txn in
     if \<not> rows then bindP (on_card_files (read_json_or_none p)) (\<lambda>v. retP (map_option without_era v))
     else bindP (session_get t (Inr False) (\<lambda>c. Inr (rc_resources c \<noteq> []))) (\<lambda>locked.
       bindP (if locked then guard_row t p else retP ()) (\<lambda>_.
       bindP (read_marker t txn locked) (\<lambda>found. case found of
         Some (document, _) \<Rightarrow> retP (Some document)
       | None \<Rightarrow> bindP (on_card_files (read_json_or_none p)) (\<lambda>hint. case hint of None \<Rightarrow> retP None
           | Some h \<Rightarrow> if has_era h then bindP (if locked then unlink_guarded_async t p else retP ()) (\<lambda>_. retP None)
               else if \<not> locked then retP (Some h)
               else bindP (guard_row t p) (\<lambda>_. bindP (adopt_marker t txn h) (\<lambda>(document, _). retP (Some document))))))))"

definition write_marker_document :: "bool \<Rightarrow> nat \<Rightarrow> pystr \<Rightarrow> pydict \<Rightarrow> unit card_prog" where
  "write_marker_document rows t txn document = (let p = card_version_marker_path txn in
     if rows then bindP (guard_row t p) (\<lambda>_. bindP (write_marker t txn (PDict document)) (\<lambda>_.
       write_json_guarded t p (PDict (dict_set MARKER_ROW_ERA_KEY (PBool True) document))))
     else write_json_guarded t p (PDict document))"

definition delete_marker_document :: "bool \<Rightarrow> nat \<Rightarrow> pystr \<Rightarrow> unit card_prog" where
  "delete_marker_document rows t txn = (let p = card_version_marker_path txn in
     bindP (if rows then bindP (guard_row t p) (\<lambda>_. delete_marker t txn) else retP ()) (\<lambda>_. unlink_guarded_async t p))"

section \<open>Base reservations\<close>

definition RESERVATION_SCHEMA :: pyval where "RESERVATION_SCHEMA = PStr (lit ''connection_hub.card-version-base-reservation.v1'')"
definition CARD_VERSION_MARKER_SCHEMA :: pyval where "CARD_VERSION_MARKER_SCHEMA = PStr (lit ''connection_hub.card-version-txn.v1'')"
definition CARD_VERSION_STATES :: "string list" where "CARD_VERSION_STATES = [''staging'', ''staged'', ''published'', ''rolled_back'']"

definition reservation_key :: "pystr \<Rightarrow> pystr \<Rightarrow> exn + pystr" where
  "reservation_key subject_hash access_id = bindE (canonical_json_bytes (PList [PStr subject_hash, PStr access_id]))
     (\<lambda>b. Inr (lit ''cvreserve-'' @ sha256_hex b))"

definition card_of :: "pystr \<Rightarrow> pystr \<Rightarrow> pydict" where
  "card_of subject_hash access_id = [(PStr (lit ''subject_hash''), PStr subject_hash), (PStr (lit ''access_id''), PStr access_id)]"

definition same_dict :: "pydict \<Rightarrow> pydict \<Rightarrow> bool" where
  "same_dict d e \<longleftrightarrow> dkeys d = dkeys e \<and> (\<forall>k \<in> fst ` set d. map_of d k = map_of e k)"

definition reservation_ok :: "pystr \<Rightarrow> pystr \<Rightarrow> pyval \<Rightarrow> bool" where
  "reservation_ok subject_hash access_id raw = (case raw of
     PDict d \<Rightarrow> dkeys d = lits [''schema'', ''txn'', ''card'', ''base_revision_name''] \<and> dget d ''schema'' = Some RESERVATION_SCHEMA
       \<and> (case dget_or d ''card'' PNone of PDict c \<Rightarrow> same_dict c (card_of subject_hash access_id) | _ \<Rightarrow> False)
       \<and> (case dget_or d ''txn'' PNone of PStr x \<Rightarrow> x \<noteq> [] | _ \<Rightarrow> False)
       \<and> (case dget_or d ''base_revision_name'' PNone of PNone \<Rightarrow> True | PStr _ \<Rightarrow> True | _ \<Rightarrow> False)
   | _ \<Rightarrow> False)"

definition read_reservation :: "bool \<Rightarrow> nat \<Rightarrow> pystr \<Rightarrow> pystr \<Rightarrow> pydict option card_prog" where
  "read_reservation rows t subject_hash access_id = bindP (liftP (reservation_key subject_hash access_id)) (\<lambda>key.
     bindP (read_marker_document rows t key) (\<lambda>raw. case raw of None \<Rightarrow> retP None
       | Some v \<Rightarrow> if reservation_ok subject_hash access_id v then retP (dict_of v)
           else failP (CardStorageError ''card_version_base_reservation_invalid'')))"

definition txn_edge :: "nat \<Rightarrow> bool" where
  "txn_edge c \<longleftrightarrow> (97 \<le> c \<and> c \<le> 122) \<or> is_digit_char c"

definition card_version_txn_id :: "pystr \<Rightarrow> exn + pystr" where
  "card_version_txn_id txn = (if 32 \<le> length txn \<and> length txn \<le> 128 \<and> txn_edge (hd txn) \<and> txn_edge (last txn)
       \<and> (\<forall>c \<in> set txn. txn_edge c \<or> c = 45) then Inr txn else Inl (CardTransactionRefused ''card_version_txn_invalid''))"

definition card_version_marker_ok :: "pystr \<Rightarrow> pydict \<Rightarrow> bool" where
  "card_version_marker_ok txn d \<longleftrightarrow> dget d ''schema'' = Some CARD_VERSION_MARKER_SCHEMA \<and> dget d ''txn'' = Some (PStr txn)
     \<and> dget_or d ''state'' PNone \<in> lits CARD_VERSION_STATES \<and> (case dget_or d ''members'' PNone of PList _ \<Rightarrow> True | _ \<Rightarrow> False)"

definition read_card_version_marker :: "bool \<Rightarrow> nat \<Rightarrow> pystr \<Rightarrow> pydict option card_prog" where
  "read_card_version_marker rows t txn = bindP (liftP (card_version_txn_id txn)) (\<lambda>i.
     bindP (read_marker_document rows t i) (\<lambda>raw. case raw of None \<Rightarrow> retP None
       | Some (PDict d) \<Rightarrow> if card_version_marker_ok txn d then retP (Some d) else failP (CardStorageError ''card_version_marker_invalid'')
       | Some _ \<Rightarrow> failP (CardStorageError ''card_version_marker_invalid'')))"

definition assert_base_available :: "bool \<Rightarrow> nat \<Rightarrow> pystr \<Rightarrow> pystr \<Rightarrow> pystr \<Rightarrow> unit card_prog" where
  "assert_base_available rows t subject_hash access_id own_txn = bindP (read_reservation rows t subject_hash access_id) (\<lambda>found.
     case found of None \<Rightarrow> retP ()
     | Some d \<Rightarrow> let txn = str_of (dget_or d ''txn'' PNone) in
         if txn = own_txn then retP ()
         else bindP (read_card_version_marker rows t txn) (\<lambda>marker.
           if (case marker of None \<Rightarrow> False | Some m \<Rightarrow> dget m ''state'' = Some (PStr (lit ''published'')))
           then failP (CardStorageError ''card_version_effects_pending'')
           else failP (CardStorageError ''card_version_base_reserved'')))"

definition reservation_value :: "pystr \<Rightarrow> pystr \<Rightarrow> pystr \<Rightarrow> pystr option \<Rightarrow> pydict" where
  "reservation_value subject_hash access_id txn base_revision_name =
     [(PStr (lit ''schema''), RESERVATION_SCHEMA), (PStr (lit ''txn''), PStr txn), (PStr (lit ''card''), PDict (card_of subject_hash access_id)),
      (PStr (lit ''base_revision_name''), case base_revision_name of None \<Rightarrow> PNone | Some s \<Rightarrow> PStr s)]"

text \<open>A reservation that was read is one of that card, so equality is that of the two other fields.\<close>

definition same_reservation :: "pydict \<Rightarrow> pydict \<Rightarrow> bool" where
  "same_reservation d e \<longleftrightarrow> dget d ''txn'' = dget e ''txn'' \<and> dget d ''base_revision_name'' = dget e ''base_revision_name''"

definition claim_base :: "bool \<Rightarrow> nat \<Rightarrow> pystr \<Rightarrow> pystr \<Rightarrow> pystr \<Rightarrow> pystr option \<Rightarrow> unit card_prog" where
  "claim_base rows t subject_hash access_id txn base_revision_name = bindP (read_reservation rows t subject_hash access_id) (\<lambda>found.
     let v = reservation_value subject_hash access_id txn base_revision_name in
     case found of Some d \<Rightarrow> if same_reservation d v then retP () else failP (CardStorageError ''card_version_base_reserved'')
     | None \<Rightarrow> bindP (liftP (reservation_key subject_hash access_id)) (\<lambda>key. write_marker_document rows t key v))"

definition release_base :: "bool \<Rightarrow> nat \<Rightarrow> pystr \<Rightarrow> pystr \<Rightarrow> pystr \<Rightarrow> unit card_prog" where
  "release_base rows t subject_hash access_id txn = bindP (read_reservation rows t subject_hash access_id) (\<lambda>found.
     case found of None \<Rightarrow> retP ()
     | Some d \<Rightarrow> if dget d ''txn'' = Some (PStr txn)
         then bindP (liftP (reservation_key subject_hash access_id)) (delete_marker_document rows t) else retP ())"

section \<open>Replacing the pointer\<close>

definition write_pointer_document :: "bool \<Rightarrow> nat \<Rightarrow> pystr \<Rightarrow> pystr \<Rightarrow> pyval option \<Rightarrow> pystr \<Rightarrow> unit card_prog" where
  "write_pointer_document rows t subject_hash access_id document card_version_txn =
     bindP (liftP (current_path subject_hash access_id)) (\<lambda>p.
     bindP (assert_base_available rows t subject_hash access_id card_version_txn) (\<lambda>_.
     bindP (if rows then bindP (guard_row t p) (\<lambda>_.
              bindP (write_pointer t subject_hash access_id (case document of None \<Rightarrow> ABSENT_POINTER | Some v \<Rightarrow> v)) (\<lambda>_. retP ()))
            else retP ()) (\<lambda>_.
     case document of None \<Rightarrow> unlink_guarded_async t p | Some v \<Rightarrow> write_json_guarded t p v)))"

end
