(* ===== verification/Card_Frames.thy ===== *)
theory Card_Frames
  imports Card_Rows
begin

text \<open>
  What the programs of the card locks and rows leave alone: the locks and guards never touch the files, the rows or
  the row contexts; a program of one task changes only its own row context; the rows and files of other objects
  stay as they are.
\<close>

section \<open>Programs that leave a part of the state alone\<close>

definition leaves :: "('s \<Rightarrow> bool) \<Rightarrow> ('s \<Rightarrow> 'c) \<Rightarrow> ('s, 'a) prog \<Rightarrow> bool" where
  "leaves I f p \<longleftrightarrow> (\<forall>c. keeps I (\<lambda>s. f s = c) p)"

named_theorems frames

lemma leaves_Done [frames, simp]: "leaves I f (Done r)"
  by (simp add: leaves_def)

lemma leaves_ret [frames]: "leaves I f (retP x)" "leaves I f (failP e)" "leaves I f (liftP r)"
  by simp_all

lemma leaves_Step: "leaves I f (Step g) \<longleftrightarrow> (\<forall>s. I s \<longrightarrow> I (fst (g s)) \<and> f (fst (g s)) = f s \<and> leaves I f (snd (g s)))"
proof
  assume "leaves I f (Step g)"
  then have "I s \<longrightarrow> I (fst (g s)) \<and> (f s = c \<longrightarrow> f (fst (g s)) = c) \<and> keeps I (\<lambda>s. f s = c) (snd (g s))" for s c
    by (auto simp: leaves_def elim!: keeps_stepE)
  then show "\<forall>s. I s \<longrightarrow> I (fst (g s)) \<and> f (fst (g s)) = f s \<and> leaves I f (snd (g s))" by (auto simp: leaves_def)
next
  assume "\<forall>s. I s \<longrightarrow> I (fst (g s)) \<and> f (fst (g s)) = f s \<and> leaves I f (snd (g s))"
  then show "leaves I f (Step g)" by (auto simp: leaves_def intro!: keeps_step)
qed

lemma leaves_atomic: "(\<And>s. I s \<Longrightarrow> I (fst (m s)) \<and> f (fst (m s)) = f s) \<Longrightarrow> leaves I f (atomicP m)"
  by (auto simp: atomicP_def leaves_Step split_def)

lemma leaves_bind: "leaves I f p \<Longrightarrow> yields I p Q \<Longrightarrow> (\<And>x. Q x \<Longrightarrow> leaves I f (g x)) \<Longrightarrow> leaves I f (bindP p g)"
  unfolding leaves_def by (blast intro: keeps_bind)

lemma leaves_then [frames]: "leaves I f p \<Longrightarrow> (\<And>x. leaves I f (g x)) \<Longrightarrow> leaves I f (bindP p g)"
  by (rule leaves_bind [OF _ yields_True])

lemma leaves_catch [frames]: "leaves I f p \<Longrightarrow> (\<And>e. leaves I f (h e)) \<Longrightarrow> leaves I f (catchP p h)"
  unfolding leaves_def by (blast intro: keeps_catch)

lemma leaves_finally [frames]: "leaves I f p \<Longrightarrow> leaves I f q \<Longrightarrow> leaves I f (finallyP p q)"
  unfolding leaves_def by (blast intro: keeps_finally)

lemma leaves_undo [frames]: "leaves I f p \<Longrightarrow> leaves I f q \<Longrightarrow> leaves I f (undoP p q)"
  unfolding undoP_def by (intro frames)

lemma leaves_if [frames]: "(C \<Longrightarrow> leaves I f p) \<Longrightarrow> (\<not> C \<Longrightarrow> leaves I f q) \<Longrightarrow> leaves I f (if C then p else q)"
  by simp

lemma leaves_option [frames]: "leaves I f p \<Longrightarrow> (\<And>x. leaves I f (q x)) \<Longrightarrow> leaves I f (case v of None \<Rightarrow> p | Some x \<Rightarrow> q x)"
  by (cases v) auto

lemma leaves_pair [frames]: "(\<And>x y. leaves I f (q x y)) \<Longrightarrow> leaves I f (case v of (x, y) \<Rightarrow> q x y)"
  by (cases v) auto

lemma leaves_mono:
  assumes "leaves (\<lambda>_. True) f p" "\<And>s s'. f s = f s' \<Longrightarrow> g s = g s' \<and> (I s \<longrightarrow> I s')"
  shows "leaves I g p"
  using assms(1)
proof (induction p rule: prog_induct)
  case (Step h)
  then show ?case by (simp add: leaves_Step) (metis assms(2))
qed simp

section \<open>Sections\<close>

text \<open>Entering the section leaves a part alone, and so does leaving it.\<close>

definition section_leaves :: "('s \<Rightarrow> bool) \<Rightarrow> ('s \<Rightarrow> 'c) \<Rightarrow> ('s, 'v \<times> ('s, unit) prog) prog \<Rightarrow> bool" where
  "section_leaves I f p \<longleftrightarrow> leaves I f p \<and> yields I p (\<lambda>(_, leave). leaves I f leave)"

lemma section_leaves_bind:
  "leaves I f p \<Longrightarrow> yields I p Q \<Longrightarrow> (\<And>x. Q x \<Longrightarrow> section_leaves I f (g x)) \<Longrightarrow> section_leaves I f (bindP p g)"
  unfolding section_leaves_def by (blast intro: leaves_bind yields_bind)

lemma section_leaves_then [frames]: "leaves I f p \<Longrightarrow> (\<And>x. section_leaves I f (g x)) \<Longrightarrow> section_leaves I f (bindP p g)"
  by (rule section_leaves_bind [OF _ yields_True])

lemma section_leaves_ret [frames]: "leaves I f leave \<Longrightarrow> section_leaves I f (retP (v, leave))"
  by (simp add: section_leaves_def)

lemma section_leaves_fail [frames]: "section_leaves I f (failP e)"
  by (simp add: section_leaves_def)

lemma section_leaves_lift [frames]: "section_leaves I f (liftP (Inl e))"
  by (simp add: section_leaves_def)

lemma section_leaves_Done [simp]: "section_leaves I f (Done (Inr (v, leave))) \<longleftrightarrow> leaves I f leave" "section_leaves I f (Done (Inl e))"
  by (simp_all add: section_leaves_def)

lemma section_leaves_catch [frames]:
  "section_leaves I f p \<Longrightarrow> (\<And>e. section_leaves I f (h e)) \<Longrightarrow> section_leaves I f (catchP p h)"
  unfolding section_leaves_def by (auto intro: leaves_catch yields_catch)

lemma section_leaves_chain [frames]:
  assumes "section_leaves I f p" "\<And>v leave. leaves I f leave \<Longrightarrow> section_leaves I f (g (v, leave))"
  shows "section_leaves I f (bindP p g)"
  using assms(1) unfolding section_leaves_def [of I f p]
  by (rule conjE) (erule section_leaves_bind, assumption, use assms(2) in auto)

lemma section_leaves_if [frames]:
  "(C \<Longrightarrow> section_leaves I f p) \<Longrightarrow> (\<not> C \<Longrightarrow> section_leaves I f q) \<Longrightarrow> section_leaves I f (if C then p else q)"
  by simp

lemma section_leaves_section [frames]: "section_leaves I f p \<Longrightarrow> leaves I f q \<Longrightarrow> section_leaves I f (sectionP p q)"
  unfolding sectionP_def undoP_def
  by (rule section_leaves_chain, rule section_leaves_catch, assumption, intro frames) (auto intro!: frames)

lemma yields_anywhere: "yields (\<lambda>_. True) p Q \<Longrightarrow> yields I p Q"
  by (induction p Q rule: yields.induct) (auto intro: yields.intros)

lemma section_leaves_mono:
  assumes "section_leaves (\<lambda>_. True) f p" "\<And>s s'. f s = f s' \<Longrightarrow> g s = g s' \<and> (I s \<longrightarrow> I s')"
  shows "section_leaves I g p"
proof -
  have "yields I p (\<lambda>(_, leave). leaves (\<lambda>_. True) f leave)"
    using assms(1) yields_anywhere by (auto simp: section_leaves_def)
  then have "yields I p (\<lambda>(_, leave). leaves I g leave)" by (rule yields_mono) (use assms(2) in \<open>auto intro: leaves_mono\<close>)
  then show ?thesis using assms by (auto simp: section_leaves_def intro: leaves_mono)
qed

section \<open>Locks and guards\<close>

definition core :: "card_world \<Rightarrow> fs \<times> card_tables \<times> (nat \<Rightarrow> row_context task_objects)" where
  "core w = (cw_fs w, cw_tables w, cw_row_ops w)"

abbreviation aside :: "'a card_prog \<Rightarrow> bool" where "aside p \<equiv> leaves (\<lambda>_. True) core p"

lemma core_simps [simp]:
  "core (w\<lparr>cw_redis := r\<rparr>) = core w" "core (w\<lparr>cw_held_ops := h\<rparr>) = core w" "core (w\<lparr>cw_verified := b\<rparr>) = core w"
  "core (w\<lparr>cw_renewals := n\<rparr>) = core w" "core (w\<lparr>cw_owner_tokens := i\<rparr>) = core w" "core (w\<lparr>cw_file_locks := l\<rparr>) = core w"
  "core (w\<lparr>cw_guards := gs\<rparr>) = core w" "core (w\<lparr>cw_role := ro\<rparr>) = core w"
  "core (set_held_op a c w) = core w" "core (set_held_var t x w) = core w"
  by (simp_all add: core_def set_held_op_def set_held_var_def)

lemma leaves_look [frames, simp]: "leaves I f (look g)"
  unfolding look_def by (rule leaves_atomic) simp

lemma leaves_alter: "(\<And>w. I w \<Longrightarrow> I (g w) \<and> f (g w) = f w) \<Longrightarrow> leaves I f (alter g)"
  unfolding alter_def by (rule leaves_atomic) simp

lemma aside_redis [frames]: "aside (call_redis f)"
  unfolding call_redis_def by (rule leaves_atomic) (simp add: Let_def split: reply_fault.splits)

lemma aside_held [frames]: "aside (on_held_op a f)"
  unfolding on_held_op_def by (rule leaves_alter) simp

lemma aside_role [frames]: "aside (current_process_role t)" "aside (refuse_outside_proc t)"
  unfolding current_process_role_def refuse_outside_proc_def by (intro frames)+

lemma aside_client [frames]:
  "aside (lk_set (fail_fast_redis redis_client) k v ttl)" "aside (lk_get (fail_fast_redis redis_client) k)" "aside (release_own_key k v)"
  unfolding fail_fast_redis_def redis_client_def fail_fast_def redis_get_def release_own_key_def by (simp del: prog_simps, intro frames)+

lemma aside_renew [frames]: "aside (renew_once i ttl)" "aside (renew n i ttl)"
  unfolding renew_once_def by (intro frames, induction n) (simp_all del: prog_simps add: renew_once_def frames)

lemma aside_policy [frames]: "aside (verify_policy cfg)"
  unfolding verify_policy_def assert_redis_noeviction_def reported_policy_def redis_config_get_def redis_info_memory_def
  by (intro frames leaves_alter) simp_all

lemma aside_operation [frames]: "aside (open_held t)" "aside (close_held t a opened)" "aside (start_hold cfg a key v)" "aside (end_hold a key r)"
proof -
  show "aside (open_held t)" unfolding open_held_def by (rule leaves_atomic) (simp split: option.splits)
  show "aside (start_hold cfg a key v)" unfolding start_hold_def by (rule leaves_atomic) (simp add: Let_def split: option.splits)
  show "aside (close_held t a opened)" "aside (end_hold a key r)"
    unfolding close_held_def end_hold_def by (intro frames leaves_alter; simp add: stop_renewal_def split: option.splits)+
qed

lemma aside_owned [frames]: "aside (assert_card_lock_owned t)"
proof -
  have get: "aside (pipeline_execute ks)" for ks
  proof (induction ks)
    case (Cons k ks)
    have "aside (pipeline_get k)" unfolding pipeline_get_def by (rule leaves_atomic) (simp add: Let_def)
    with Cons show ?case by (simp del: prog_simps) (intro frames)
  qed simp
  have held: "aside (assert_card_lock_held t)" unfolding assert_card_lock_held_def by (rule leaves_atomic) simp
  show ?thesis unfolding assert_card_lock_owned_def mark_lost_def by (intro frames held get)
qed

lemma aside_guards [frames]: "aside (check_write_guards_async t p)"
proof -
  have "aside (run_guards (run_guard t) gs)" for gs
    by (induction gs) (auto simp del: prog_simps simp: run_guard_def split: write_guard.split intro!: frames)
  then show ?thesis unfolding check_write_guards_async_def by (intro frames)
qed

abbreviation section_aside :: "('v \<times> unit card_prog) card_prog \<Rightarrow> bool" where
  "section_aside p \<equiv> section_leaves (\<lambda>_. True) core p"

text \<open>
  What the host's locks are documented to do: the file lock takes and frees a lock file of its own, the Redis helper talks to
  Redis through the client it is given.
\<close>

definition host_file_lock :: "'v card_lock \<Rightarrow> bool" where
  "host_file_lock base_lock \<longleftrightarrow> (\<forall>t call. section_aside (base_lock t call))"

definition host_redis_lock :: "observed_lock \<Rightarrow> bool" where
  "host_redis_lock observed_lock \<longleftrightarrow> (\<forall>key metadata ttl wait poll.
     section_aside (observed_lock (fail_fast_redis redis_client) key metadata ttl wait poll))"

lemma aside_local_lock: "host_file_lock base_lock \<Longrightarrow> host_file_lock (local_lock root base_lock)"
  unfolding host_file_lock_def local_lock_def by (auto simp del: prog_simps intro!: frames)

lemma aside_proc_only: "host_file_lock base_lock \<Longrightarrow> host_file_lock (proc_only_lock base_lock)"
  unfolding host_file_lock_def proc_only_lock_def by (auto simp del: prog_simps intro!: frames)

lemma aside_redis_lock:
  assumes "host_file_lock base_lock" "host_redis_lock observed_lock"
  shows "host_file_lock (redis_lock cfg observed_lock make_metadata token_hex base_lock)"
proof -
  have inner: "section_aside (inner_section base_lock t call d)" for t call d
    using assms(1) unfolding inner_section_def host_file_lock_def by (auto intro!: frames)
  have token: "aside (fresh_owner_token token_hex)" unfolding fresh_owner_token_def by (rule leaves_atomic) simp
  have owned: "section_aside (owned_section cfg base_lock t call d a key (v, leave))" if "aside leave" for t call d a key v leave
    unfolding owned_section_def 
    using that by (simp del: prog_simps) (rule section_leaves_chain, (intro frames inner; assumption), simp del: prog_simps, intro frames)
  have "section_aside (acquire_key cfg observed_lock key metadata wait own)" for key metadata wait own
    using assms(2) unfolding acquire_key_def host_redis_lock_def by (auto simp del: prog_simps intro!: frames)
  then have take: "section_aside (take_key cfg observed_lock make_metadata token_hex base_lock t call d a key)" for t call d a key
    unfolding take_key_def Let_def by (intro section_leaves_then token section_leaves_chain frames owned)
  have "section_aside (reenter_key base_lock t call d a key)" for t call d a key
    unfolding reenter_key_def by (intro frames inner)
  with take show ?thesis
    unfolding host_file_lock_def redis_lock_def Let_def split_def by (intro allI frames)
qed

section \<open>Rows of other objects\<close>

text \<open>Every task works on objects of its own.\<close>

definition own :: "nat \<Rightarrow> card_world \<Rightarrow> bool" where
  "own t w \<longleftrightarrow> (\<forall>a. to_var (cw_row_ops w t) = Some a \<longrightarrow> fst a = t)"

definition row_view :: "card_row option \<Rightarrow> (int \<times> bytes) option" where
  "row_view = map_option (\<lambda>r. (cr_row_revision r, cr_document r))"

definition view :: "row_key \<Rightarrow> card_world \<Rightarrow> (int \<times> bytes) option" where
  "view k w = row_view (ct_rows (cw_tables w) k)"

definition others :: "nat \<Rightarrow> card_world \<Rightarrow> nat \<Rightarrow> row_context task_objects option" where
  "others t w = (\<lambda>j. if j = t then None else Some (cw_row_ops w j))"

definition seen :: "nat \<Rightarrow> row_key \<Rightarrow> card_world \<Rightarrow> observation option" where
  "seen t k w = (case to_var (cw_row_ops w t) of None \<Rightarrow> None | Some a \<Rightarrow> rc_observed (row_op w a) k)"

definition foot where "foot t k p w = (view k w, fs_lookup (cw_fs w) p, others t w)"
definition foot_seen where "foot_seen t k p w = (foot t k p w, seen t k w)"

abbreviation beside :: "nat \<Rightarrow> row_key \<Rightarrow> path \<Rightarrow> 'a card_prog \<Rightarrow> bool" where
  "beside t k p \<equiv> leaves (own t) (foot_seen t k p)"

lemma foot_of_seen: "leaves I (foot_seen t k p) q \<Longrightarrow> leaves I (foot t k p) q"
proof (induction q rule: prog_induct)
  case (Step h)
  then show ?case by (simp add: leaves_Step foot_seen_def)
qed simp

lemma core_foot: "core w = core w' \<Longrightarrow> foot_seen t k p w = foot_seen t k p w' \<and> (own t w \<longrightarrow> own t w')"
proof -
  assume "core w = core w'"
  then have "cw_fs w = cw_fs w'" "cw_tables w = cw_tables w'" "cw_row_ops w = cw_row_ops w'" "row_op w = row_op w'"
    by (simp_all add: core_def row_op_def fun_eq_iff)
  then show ?thesis by (simp add: foot_seen_def foot_def view_def others_def seen_def own_def fun_eq_iff split: option.split)
qed

lemma world_parts [simp]:
  "own t (w\<lparr>cw_tables := d\<rparr>) = own t w" "own t (w\<lparr>cw_fs := s\<rparr>) = own t w" "row_op (w\<lparr>cw_tables := d\<rparr>) = row_op w" "row_op (w\<lparr>cw_fs := s\<rparr>) = row_op w"
  "others t (w\<lparr>cw_tables := d\<rparr>) = others t w" "others t (w\<lparr>cw_fs := s\<rparr>) = others t w"
  "view k (w\<lparr>cw_tables := d\<rparr>) = row_view (ct_rows d k)" "view k (w\<lparr>cw_fs := s\<rparr>) = view k w"
  by (simp_all add: own_def row_op_def fun_eq_iff others_def view_def)

lemma seen_parts [simp]: "seen t k (w\<lparr>cw_tables := d\<rparr>) = seen t k w" "seen t k (w\<lparr>cw_fs := s\<rparr>) = seen t k w"
  by (simp_all add: seen_def split: option.split)

lemma view_ops [simp]: "row_view (ct_rows (d\<lparr>ct_ops := n\<rparr>) k) = row_view (ct_rows d k)"
  by simp

lemma aside_beside: "aside q \<Longrightarrow> beside t k p q"
  by (erule leaves_mono) (rule core_foot)

lemmas beside_aside [frames] = aside_guards [THEN aside_beside]

lemma own_row_op [simp]: "own t (set_row_op a c w) = own t w"
  by (auto simp: own_def set_row_op_def put_object_def)

lemma row_op_set [simp]: "row_op (set_row_op a c w) b = (if b = a then c else row_op w b)"
  by (cases a; cases b) (simp add: row_op_def set_row_op_def put_object_def)

lemma foot_set_row_op: "fst a = t \<Longrightarrow> foot t k p (set_row_op a c w) = foot t k p w"
  by (auto simp: foot_def view_def others_def set_row_op_def fun_eq_iff)

lemma seen_set_row_op:
  "own t w \<Longrightarrow> seen t k (set_row_op a c w) = (if to_var (cw_row_ops w t) = Some a then rc_observed c k else seen t k w)"
proof -
  have "to_var (cw_row_ops (set_row_op a c w) t) = to_var (cw_row_ops w t)" by (simp add: set_row_op_def put_object_def)
  then show ?thesis by (simp add: seen_def split: option.split)
qed

lemma beside_get [frames]: "leaves I f (session_get t none g)"
  unfolding session_get_def by (rule leaves_atomic) simp

lemma beside_session [frames]: "leaves I f (current_lock_session t)"
  unfolding current_lock_session_def by (rule leaves_atomic) (simp split: option.split)

lemma own_foot_put:
  "own t w \<Longrightarrow> own t (fst (case to_var (cw_row_ops w t) of None \<Rightarrow> (w, none)
     | Some a \<Rightarrow> if rc_closed (row_op w a) then (w, Inl e) else (set_row_op a (g (row_op w a)) w, Inr ())))
   \<and> foot t k p (fst (case to_var (cw_row_ops w t) of None \<Rightarrow> (w, none)
     | Some a \<Rightarrow> if rc_closed (row_op w a) then (w, Inl e) else (set_row_op a (g (row_op w a)) w, Inr ()))) = foot t k p w"
  by (cases "to_var (cw_row_ops w t)") (auto simp: foot_set_row_op own_def [of t w])

lemma foot_put [frames]: "leaves (own t) (foot t k p) (session_put t none g)"
  unfolding session_put_def by (rule leaves_atomic) (rule own_foot_put)

lemma beside_put: "(\<And>c. rc_observed (g c) k = rc_observed c k) \<Longrightarrow> beside t k p (session_put t none g)"
  unfolding session_put_def
proof (rule leaves_atomic)
  fix w assume g: "\<And>c. rc_observed (g c) k = rc_observed c k" and own: "own t w"
  have "foot_seen t k p (set_row_op a (g (row_op w a)) w) = foot_seen t k p w" if "to_var (cw_row_ops w t) = Some a" for a
    using that own g by (simp add: foot_seen_def foot_set_row_op seen_set_row_op own_def [of t w]) (simp add: seen_def)
  then show "own t (fst (case to_var (cw_row_ops w t) of None \<Rightarrow> (w, none)
     | Some a \<Rightarrow> if rc_closed (row_op w a) then (w, Inl (CardStorageError ''card_lock_session_closed'')) else (set_row_op a (g (row_op w a)) w, Inr ())))
   \<and> foot_seen t k p (fst (case to_var (cw_row_ops w t) of None \<Rightarrow> (w, none)
     | Some a \<Rightarrow> if rc_closed (row_op w a) then (w, Inl (CardStorageError ''card_lock_session_closed'')) else (set_row_op a (g (row_op w a)) w, Inr ())))
     = foot_seen t k p w" using own by (cases "to_var (cw_row_ops w t)") auto
qed

lemma beside_sql: "(\<And>d. row_view (ct_rows (fst (g d)) k) = row_view (ct_rows d k)) \<Longrightarrow> beside t k p (call_sql g)"
  unfolding call_sql_def
  by (rule leaves_atomic) (auto simp: Let_def foot_seen_def foot_def view_def [of k] split: reply_fault.split)

lemma beside_claiming [frames]:
  "beside t k p (draw_fence t)" "beside t k p (claim_token t)" "beside t k p (set_claimed t k' token)" "leaves I f (write_fence t k')"
  "leaves I f (required_observation t k')"
  unfolding draw_fence_def claim_token_def set_claimed_def write_fence_def required_observation_def sql_nextval_def
  by (intro frames beside_put beside_sql; simp)+

lemma beside_observe: "k' \<noteq> k \<Longrightarrow> beside t k p (observe t k' x)"
  unfolding observe_def by (rule beside_put) simp

lemma sql_other_row:
  "k' \<noteq> k \<Longrightarrow> ct_rows (fst (sql_select_row k' d)) k = ct_rows d k" "k' \<noteq> k \<Longrightarrow> ct_rows (fst (sql_claim k' token d)) k = ct_rows d k"
  "k' \<noteq> k \<Longrightarrow> ct_rows (fst (sql_insert k' doc token d)) k = ct_rows d k" "k' \<noteq> k \<Longrightarrow> ct_rows (fst (sql_update_row k' x token doc d)) k = ct_rows d k"
  "k' \<noteq> k \<Longrightarrow> ct_rows (fst (sql_delete k' x token d)) k = ct_rows d k"
  by (simp_all add: sql_select_row_def sql_claim_def sql_insert_def sql_update_row_def sql_delete_def put_row_def Let_def split: option.split)

lemma beside_row:
  assumes "k' \<noteq> k"
  shows "beside t k p (seen_row t k' row)" "beside t k p (read_row t k' claim)" "beside t k p (adopt_row t k' limit document failed)"
proof -
  note sql = beside_sql [where k = k, OF arg_cong [where f = row_view]] sql_other_row [OF assms] beside_observe [OF assms]
  show s: "beside t k p (seen_row t k' row)" for row unfolding seen_row_def by (intro frames sql)
  show r: "beside t k p (read_row t k' claim)" for claim unfolding read_row_def by (intro frames sql s)
  show "beside t k p (adopt_row t k' limit document failed)" unfolding adopt_row_def by (intro frames sql r)
qed

lemma beside_file: "(\<And>s. fs_lookup (fst (m s)) p = fs_lookup s p) \<Longrightarrow> beside t k p (on_card_files m)"
  unfolding on_card_files_def
  by (rule leaves_atomic) (simp add: split_def foot_seen_def foot_def)

lemma beside_read_file [frames]: "beside t k p (on_card_files (read_json_or_none q))"
  by (rule beside_file) (simp add: read_json_or_none_def fs_effects)

lemma beside_unlink: "q \<noteq> p \<Longrightarrow> beside t k p (unlink_guarded_async t q)"
  unfolding unlink_guarded_async_def unlink_file_def
  by (intro frames beside_file) (simp add: unlink_def fs_effects split: fault.split)

lemma beside_guard_row [frames]: "beside t k p (guard_row t q)"
  unfolding guard_row_def by (intro frames)

lemma beside_read_marker_document:
  assumes "card_version_marker_path txn \<noteq> p" "Marker_Row txn \<noteq> k"
  shows "beside t k p (read_marker_document rows t txn)"
  unfolding read_marker_document_def Let_def read_marker_def adopt_marker_def
  by (intro frames beside_row assms beside_unlink)

lemma current_path_shape: "current_path sh ai = Inr p \<Longrightarrow> card_version_marker_path txn \<noteq> p"
  by (auto simp: current_path_def card_version_marker_path_def lit_def)

lemma beside_assert_base_available:
  assumes "current_path sh ai = Inr p"
  shows "beside t (Pointer_Row sh ai) p (assert_base_available rows t sh' ai' txn)"
proof -
  have marker: "beside t (Pointer_Row sh ai) p (read_marker_document rows t x)" for x
    by (rule beside_read_marker_document) (simp_all add: current_path_shape [OF assms])
  have parsed: "beside t (Pointer_Row sh ai) p (case raw of None \<Rightarrow> retP None
      | Some (PDict d) \<Rightarrow> if C d then retP (Some d) else failP e | Some _ \<Rightarrow> failP e)" for raw C e
    by (auto split: option.split pyval.split)
  show ?thesis
    unfolding assert_base_available_def read_reservation_def read_card_version_marker_def Let_def
    by (intro frames marker parsed)
qed

section \<open>The row context of a section\<close>

lemma open_row_context_own:
  "leaves (own t) (foot t k p) (open_row_context t)"
  "yields (own t) (open_row_context t) (\<lambda>(a, token). fst a = t \<and> (\<forall>b. token = Some (Some b) \<longrightarrow> fst b = t))"
proof -
  have new: "own t (w\<lparr>cw_row_ops := (cw_row_ops w)(t := new_object t c (cw_row_ops w t))\<rparr>)"
    "foot t k p (w\<lparr>cw_row_ops := (cw_row_ops w)(t := new_object t c (cw_row_ops w t))\<rparr>) = foot t k p w" for w c
    by (auto simp: own_def new_object_def put_object_def foot_def view_def others_def fun_eq_iff)
  show "leaves (own t) (foot t k p) (open_row_context t)"
    unfolding open_row_context_def by (rule leaves_atomic) (simp add: Let_def new split: option.split)
  show "yields (own t) (open_row_context t) (\<lambda>(a, token). fst a = t \<and> (\<forall>b. token = Some (Some b) \<longrightarrow> fst b = t))"
    unfolding open_row_context_def atomicP_def
    by (rule yields_step) (auto simp: own_def Let_def split: option.split)
qed

lemma foot_on_row_op: "fst a = t \<Longrightarrow> leaves (own t) (foot t k p) (on_row_op a g)"
  unfolding on_row_op_def by (rule leaves_alter) (simp add: foot_set_row_op)

lemma foot_close_row_context:
  "fst a = t \<Longrightarrow> (\<And>b. token = Some (Some b) \<Longrightarrow> fst b = t) \<Longrightarrow> leaves (own t) (foot t k p) (close_row_context t a token)"
  unfolding close_row_context_def
  by (cases token) (auto intro!: leaves_alter simp: own_def set_row_var_def set_row_op_def foot_def view_def others_def fun_eq_iff)

lemma foot_row_fenced_lock:
  assumes "host_file_lock base_lock"
  shows "section_leaves (own t) (foot t k p) (row_fenced_lock base_lock t call)"
proof -
  have base: "section_leaves (own t) (foot t k p) (base_lock t call)"
  proof (rule section_leaves_mono)
    show "section_aside (base_lock t call)" using assms by (simp add: host_file_lock_def)
    show "foot t k p s = foot t k p s' \<and> (own t s \<longrightarrow> own t s')" if "core s = core s'" for s s'
      using core_foot [OF that, of t k p] by (simp add: foot_seen_def)
  qed
  have inside: "section_leaves (own t) (foot t k p) (bindP (base_lock t call) (\<lambda>(held, leave). bindP (on_row_op a f) (\<lambda>_. retP (held, finallyP (on_row_op a g) leave))))"
    if "fst a = t" for a f g
    by (rule section_leaves_chain [OF base]) (auto simp del: prog_simps intro!: section_leaves_then section_leaves_ret leaves_finally foot_on_row_op that)
  show ?thesis
    unfolding row_fenced_lock_def
    by (rule section_leaves_bind [OF open_row_context_own]) (auto simp del: prog_simps intro!: section_leaves_section inside foot_close_row_context)
qed

section \<open>An instance of the host's locks\<close>

definition sample_file_lock :: "unit card_lock" where
  "sample_file_lock t call = bindP (atomicP (\<lambda>w. if lc_path call \<in> set (cw_file_locks w) then (w, Inl TimeoutError)
       else (w\<lparr>cw_file_locks := lc_path call # cw_file_locks w\<rparr>, Inr ())))
     (\<lambda>_. retP ((), alter (\<lambda>w. w\<lparr>cw_file_locks := removeAll (lc_path call) (cw_file_locks w)\<rparr>)))"

definition sample_redis_lock :: observed_lock where
  "sample_redis_lock c key metadata ttl wait poll = bindP (liftP (spaced metadata)) (\<lambda>v. bindP (lk_set c key v ttl) (\<lambda>ok.
     if ok then retP (v, bindP (lk_eval c key v) (\<lambda>_. retP ())) else failP TimeoutError))"

definition sample_metadata :: lock_metadata where
  "sample_metadata resource operation owner kind = obj [(''owner_token'', PStr owner)]"

definition sample_settings :: redis_lock_settings where
  "sample_settings = \<lparr>rs_instance = 0, rs_redis = True, rs_tenant = lit ''t'', rs_project = lit ''p'', rs_ttl_seconds = REDIS_LOCK_TTL_SECONDS,
     rs_renew_ms = Some REDIS_LOCK_RENEW_MS, rs_poll_ms = REDIS_LOCK_POLL_MS, rs_require_noeviction = True\<rparr>"

definition sample_lock :: "unit card_lock" where
  "sample_lock = row_fenced_lock (proc_only_lock (redis_lock sample_settings sample_redis_lock sample_metadata (\<lambda>n. replicate n 49)
     (local_lock [lit ''locks''] sample_file_lock)))"

definition sample_subject :: pystr where "sample_subject = replicate 64 97"
definition sample_card :: pystr where "sample_card = lit ''card''"

definition sample_call :: lock_call where
  "sample_call = \<lparr>lc_path = [lit ''grantors'', sample_subject, lit ''cards'', sample_card, lit ''.lock''], lc_resource = lit ''delegated-card:card'',
     lc_operation = lit ''update'', lc_wait = 1000\<rparr>"

definition sample_world :: "card_row option \<Rightarrow> card_world" where
  "sample_world row = \<lparr>cw_fs = \<lparr>fs_files = [], fs_fault = (\<lambda>_. No_Fault), fs_ops = 0\<rparr>,
     cw_redis = \<lparr>lr_keys = (\<lambda>_. None), lr_now = 0, lr_config = obj [(''maxmemory-policy'', PStr (lit ''noeviction''))], lr_info = PNone,
       lr_fault = (\<lambda>_. Works), lr_ops = 0\<rparr>,
     cw_tables = \<lparr>ct_rows = (\<lambda>k. if k = Pointer_Row sample_subject sample_card then row else None), ct_sequence = 0,
       ct_uuid_source = (\<lambda>n. replicate n 48), ct_uuids = 0, ct_authority = True, ct_activated = True, ct_fault = (\<lambda>_. Works), ct_ops = 0\<rparr>,
     cw_row_ops = (\<lambda>_. \<lparr>to_var = None, to_objects = (\<lambda>_. fresh_row_context), to_count = 0\<rparr>),
     cw_held_ops = (\<lambda>_. \<lparr>to_var = None, to_objects = (\<lambda>_. fresh_held), to_count = 0\<rparr>),
     cw_role = (\<lambda>_. Some (lit ''proc'')), cw_verified = (\<lambda>_. False), cw_renewals = [], cw_owner_tokens = 0, cw_file_locks = [],
     cw_guards = [([], [(lit ''role'', Role_Guard), (lit ''card_lock_owner'', Owner_Guard)])]\<rparr>"

lemma sample_hub_lock:
  "hub_redis_card_mutation_lock sample_settings sample_redis_lock sample_metadata (\<lambda>n. replicate n 49) sample_file_lock (True, [lit ''locks'']) = Inr sample_lock"
  by (simp add: hub_redis_card_mutation_lock_def container_local_lock_def redis_card_mutation_lock_def sample_lock_def sample_settings_def
      REDIS_LOCK_TTL_SECONDS_def REDIS_LOCK_RENEW_MS_def)

lemma sample_host: "host_file_lock sample_file_lock" "host_redis_lock sample_redis_lock"
proof -
  have "aside (lk_eval (fail_fast_redis redis_client) k v)" for k v by (simp add: fail_fast_redis_def redis_client_def aside_redis)
  then show "host_redis_lock sample_redis_lock"
    unfolding host_redis_lock_def sample_redis_lock_def by (intro allI frames)
  show "host_file_lock sample_file_lock"
    unfolding host_file_lock_def sample_file_lock_def
    by (intro allI section_leaves_then section_leaves_ret leaves_atomic leaves_alter) simp_all
qed

lemma sample_path: "current_path sample_subject sample_card = Inr [lit ''grantors'', sample_subject, lit ''cards'', sample_card, lit ''current.json'']"
proof -
  have "card_subject_hash sample_subject = Inr sample_subject"
    by (simp add: card_subject_hash_def digest_strip digest_lower sample_subject_def is_digest_def is_lower_hex_def)
  moreover have "card_access_id sample_card = Inr sample_card"
    by (simp add: card_access_id_def sample_card_def lit_def py_strip_no_space is_space_def is_alnum_def is_digit_char_def)
  ultimately show ?thesis by (simp add: current_path_def)
qed

lemma sample_start: "to_var (cw_row_ops (sample_world row) i) = None" "fs_lookup (cw_fs (sample_world row)) p = None"
  "view (Pointer_Row sample_subject sample_card) (sample_world row) = row_view row"
  by (simp_all add: sample_world_def fs_lookup_def view_def)

end
