(* ===== verification/Card_Updates.thy ===== *)
theory Card_Updates
  imports Card_Frames
begin

text \<open>
  Updates of a card's pointer that run interleaved: each takes the card's lock, reads the pointer document and replaces
  it by a function of what it read. Whatever the lock does, the successful updates behave as if they had run one
  after the other, because a write names the revision and the fence token of the read.
\<close>

section \<open>Updates\<close>

type_synonym pointer_view = "(int \<times> bytes) option"

definition rev_of :: "pointer_view \<Rightarrow> int" where
  "rev_of v = (case v of None \<Rightarrow> 0 | Some (r, _) \<Rightarrow> r)"

definition shown_view :: "pointer_view \<Rightarrow> pyval option" where
  "shown_view v = (case v of None \<Rightarrow> None | Some (_, b) \<Rightarrow> (case parse_canonical_json_bytes b of Inl _ \<Rightarrow> None | Inr d \<Rightarrow> shown_pointer d))"

definition stored_bytes :: "pyval option \<Rightarrow> bytes" where
  "stored_bytes x = (case encode_document (case x of None \<Rightarrow> ABSENT_POINTER | Some v \<Rightarrow> v) POINTER_DOCUMENT_MAX_BYTES of Inl _ \<Rightarrow> [] | Inr b \<Rightarrow> b)"

definition apply_update :: "(pyval option \<Rightarrow> pyval option) \<Rightarrow> pointer_view \<Rightarrow> pointer_view" where
  "apply_update f v = Some (rev_of v + 1, stored_bytes (f (shown_view v)))"

definition update_pointer ::
  "'v card_lock \<Rightarrow> lock_call \<Rightarrow> pystr \<Rightarrow> pystr \<Rightarrow> pystr \<Rightarrow> (pyval option \<Rightarrow> pyval option) \<Rightarrow> nat \<Rightarrow> unit card_prog" where
  "update_pointer lock call sh ai txn f t = with_lock lock t call (\<lambda>_.
     bindP (read_pointer_document True t sh ai) (\<lambda>d. write_pointer_document True t sh ai (f d) txn))"

section \<open>Conditions\<close>

record updates =
  up_key :: row_key
  up_path :: path
  up_fun :: "nat \<Rightarrow> pyval option \<Rightarrow> pyval option"
  up_start :: pointer_view

type_synonym run = "(card_world, nat list) moment"

abbreviation vw :: "updates \<Rightarrow> run \<Rightarrow> pointer_view" where "vw U \<sigma> \<equiv> view (up_key U) (st \<sigma>)"
abbreviation hint :: "updates \<Rightarrow> run \<Rightarrow> stored_file option" where "hint U \<sigma> \<equiv> fs_lookup (cw_fs (st \<sigma>)) (up_path U)"
abbreviation vrev :: "updates \<Rightarrow> run \<Rightarrow> int" where "vrev U \<sigma> \<equiv> rev_of (vw U \<sigma>)"

text \<open>The tasks whose write changed the row, in order.\<close>

definition writers :: "updates \<Rightarrow> nat \<Rightarrow> card_world \<Rightarrow> card_world \<Rightarrow> nat list \<Rightarrow> nat list" where
  "writers U t w w' x = (if view (up_key U) w' = view (up_key U) w then x else x @ [t])"

definition serial :: "updates \<Rightarrow> run \<Rightarrow> bool" where
  "serial U \<sigma> \<longleftrightarrow> vw U \<sigma> = fold (\<lambda>i. apply_update (up_fun U i)) (nt \<sigma>) (up_start U) \<and> distinct (nt \<sigma>)
     \<and> (vw U \<sigma> = None \<longrightarrow> hint U \<sigma> = None) \<and> (vw U \<sigma> \<noteq> None \<longrightarrow> 1 \<le> vrev U \<sigma>)"

definition relies :: "updates \<Rightarrow> nat \<Rightarrow> run \<Rightarrow> run \<Rightarrow> bool" where
  "relies U t \<sigma> \<tau> \<longleftrightarrow> cw_row_ops (st \<tau>) t = cw_row_ops (st \<sigma>) t \<and> (serial U \<sigma> \<longrightarrow> serial U \<tau>) \<and> (t \<in> set (nt \<tau>) \<longleftrightarrow> t \<in> set (nt \<sigma>))
     \<and> vrev U \<sigma> \<le> vrev U \<tau> \<and> (vrev U \<sigma> = vrev U \<tau> \<longrightarrow> vw U \<tau> = vw U \<sigma>)"

definition guarantees :: "updates \<Rightarrow> nat \<Rightarrow> run \<Rightarrow> run \<Rightarrow> bool" where
  "guarantees U t \<sigma> \<tau> \<longleftrightarrow> others t (st \<tau>) = others t (st \<sigma>) \<and>
     (vw U \<tau> = vw U \<sigma> \<and> nt \<tau> = nt \<sigma> \<and> (hint U \<tau> = hint U \<sigma> \<or> vw U \<sigma> \<noteq> None)
      \<or> hint U \<tau> = hint U \<sigma> \<and> t \<notin> set (nt \<sigma>) \<and> nt \<tau> = nt \<sigma> @ [t] \<and> vw U \<tau> = apply_update (up_fun U t) (vw U \<sigma>))"

abbreviation urg where "urg U t \<equiv> rg (writers U t) (relies U t) (guarantees U t)"

lemma rev_of_apply [simp]: "rev_of (apply_update f v) = rev_of v + 1"
  by (simp add: apply_update_def rev_of_def [of "Some _"])

lemma apply_not_None [simp]: "apply_update f v \<noteq> None" "None \<noteq> apply_update f v"
  by (simp_all add: apply_update_def)

lemma serial_rev:
  assumes "serial U \<sigma>"
  shows "0 \<le> vrev U \<sigma> \<and> (vrev U \<sigma> = 0 \<longleftrightarrow> vw U \<sigma> = None)"
proof -
  have "vw U \<sigma> \<noteq> None \<longrightarrow> 1 \<le> vrev U \<sigma>" using assms unfolding serial_def by blast
  moreover have "vw U \<sigma> = None \<longrightarrow> vrev U \<sigma> = 0" by (simp add: rev_of_def)
  ultimately show ?thesis by linarith
qed

lemma guarantees_serial: "serial U \<sigma> \<Longrightarrow> guarantees U j \<sigma> \<tau> \<Longrightarrow> serial U \<tau>"
  using serial_rev [of U \<sigma>] by (auto simp: guarantees_def serial_def)

lemma guarantees_relies: "i \<noteq> j \<Longrightarrow> guarantees U j \<sigma> \<tau> \<Longrightarrow> relies U i \<sigma> \<tau>"
proof -
  assume ij: "i \<noteq> j" and g: "guarantees U j \<sigma> \<tau>"
  have "cw_row_ops (st \<tau>) i = cw_row_ops (st \<sigma>) i"
    using g ij by (auto simp: guarantees_def others_def fun_eq_iff split: if_splits)
  moreover have "serial U \<sigma> \<Longrightarrow> serial U \<tau>" by (rule guarantees_serial [OF _ g])
  ultimately show ?thesis using g ij by (auto simp: guarantees_def relies_def)
qed

section \<open>Assertions\<close>

definition steady :: "updates \<Rightarrow> nat \<Rightarrow> run \<Rightarrow> bool" where
  "steady U t \<sigma> \<longleftrightarrow> serial U \<sigma> \<and> own t (st \<sigma>)"

definition waiting :: "updates \<Rightarrow> nat \<Rightarrow> run \<Rightarrow> bool" where
  "waiting U t \<sigma> \<longleftrightarrow> steady U t \<sigma> \<and> t \<notin> set (nt \<sigma>)"

definition wrote :: "updates \<Rightarrow> nat \<Rightarrow> run \<Rightarrow> bool" where
  "wrote U t \<sigma> \<longleftrightarrow> steady U t \<sigma> \<and> t \<in> set (nt \<sigma>)"

text \<open>If the row still has revision \<open>r\<close> then it is as it was.\<close>

definition saw :: "updates \<Rightarrow> nat \<Rightarrow> int \<Rightarrow> (pointer_view \<Rightarrow> bool) \<Rightarrow> run \<Rightarrow> bool" where
  "saw U t r V \<sigma> \<longleftrightarrow> waiting U t \<sigma> \<and> r \<le> vrev U \<sigma> \<and> (vrev U \<sigma> = r \<longrightarrow> V (vw U \<sigma>))"

definition known :: "updates \<Rightarrow> nat \<Rightarrow> pyval option \<Rightarrow> run \<Rightarrow> bool" where
  "known U t d \<sigma> \<longleftrightarrow> waiting U t \<sigma> \<and> (\<forall>x. seen t (up_key U) (st \<sigma>) = Some x \<longrightarrow> saw U t (fst x) (\<lambda>v. shown_view v = d) \<sigma>)"

definition no_row :: "updates \<Rightarrow> nat \<Rightarrow> run \<Rightarrow> bool" where
  "no_row U t \<sigma> \<longleftrightarrow> waiting U t \<sigma> \<and> (\<forall>x. seen t (up_key U) (st \<sigma>) = Some x \<longrightarrow> fst x = 0)"

definition has_row :: "updates \<Rightarrow> run \<Rightarrow> bool" where
  "has_row U \<sigma> \<longleftrightarrow> serial U \<sigma> \<and> vw U \<sigma> \<noteq> None"

lemma seen_relies: "relies U t \<sigma> \<tau> \<Longrightarrow> own t (st \<sigma>) \<Longrightarrow> seen t k (st \<tau>) = seen t k (st \<sigma>) \<and> own t (st \<tau>)"
proof -
  assume "relies U t \<sigma> \<tau>" "own t (st \<sigma>)"
  then have "cw_row_ops (st \<tau>) t = cw_row_ops (st \<sigma>) t" "own t (st \<sigma>)" by (simp_all add: relies_def)
  then show ?thesis by (cases "to_var (cw_row_ops (st \<sigma>) t)") (auto simp: seen_def own_def row_op_def)
qed

lemma stable_steady: "stable (relies U t) (steady U t)"
  unfolding stable_def steady_def
proof (intro allI impI, elim conjE)
  fix \<sigma> \<tau> assume "relies U t \<sigma> \<tau>" "serial U \<sigma>" "own t (st \<sigma>)"
  then show "serial U \<tau> \<and> own t (st \<tau>)" using seen_relies [of U t \<sigma> \<tau>] by (simp add: relies_def)
qed

lemma stable_waiting: "stable (relies U t) (waiting U t)" and stable_wrote: "stable (relies U t) (wrote U t)"
  using stable_steady [of U t] by (auto simp: stable_def waiting_def wrote_def relies_def)

lemma stable_saw: "stable (relies U t) (saw U t r V)"
  using stable_waiting [of U t] by (auto simp: stable_def saw_def relies_def)

lemma stable_has_row: "stable (relies U t) (has_row U)"
  unfolding stable_def has_row_def
proof (intro allI impI, elim conjE)
  fix \<sigma> \<tau> assume *: "relies U t \<sigma> \<tau>" "serial U \<sigma>" "vw U \<sigma> \<noteq> None"
  then have "serial U \<tau>" "vrev U \<sigma> \<le> vrev U \<tau>" by (simp_all add: relies_def)
  then show "serial U \<tau> \<and> vw U \<tau> \<noteq> None" using serial_rev [of U \<sigma>] serial_rev [of U \<tau>] * by linarith
qed

lemma stable_known: "stable (relies U t) (known U t d)"
  unfolding stable_def known_def
proof (intro allI impI conjI)
  fix \<sigma> \<tau> x
  assume *: "waiting U t \<sigma> \<and> (\<forall>x. seen t (up_key U) (st \<sigma>) = Some x \<longrightarrow> saw U t (fst x) (\<lambda>v. shown_view v = d) \<sigma>)" "relies U t \<sigma> \<tau>"
  then show "waiting U t \<tau>" using stable_waiting [of U t] by (auto simp: stable_def)
  assume "seen t (up_key U) (st \<tau>) = Some x"
  then have "seen t (up_key U) (st \<sigma>) = Some x" using seen_relies [OF *(2)] *(1) by (simp add: waiting_def steady_def)
  then show "saw U t (fst x) (\<lambda>v. shown_view v = d) \<tau>" using * stable_saw [of U t] by (auto simp: stable_def)
qed

lemma stable_no_row: "stable (relies U t) (no_row U t)"
  unfolding stable_def no_row_def
proof (intro allI impI, elim conjE)
  fix \<sigma> \<tau> assume *: "relies U t \<sigma> \<tau>" "waiting U t \<sigma>" "\<forall>x. seen t (up_key U) (st \<sigma>) = Some x \<longrightarrow> fst x = 0"
  then have "seen t (up_key U) (st \<tau>) = seen t (up_key U) (st \<sigma>)" using seen_relies by (simp add: waiting_def steady_def)
  then show "waiting U t \<tau> \<and> (\<forall>x. seen t (up_key U) (st \<tau>) = Some x \<longrightarrow> fst x = 0)"
    using * stable_waiting [of U t] by (auto simp: stable_def)
qed

lemmas stables = stable_steady stable_waiting stable_wrote stable_saw stable_has_row stable_known stable_no_row stable_conj

section \<open>Programs that leave the row alone\<close>

lemma rg_leaves_yields:
  assumes "leaves (own t) F q" "yields (own t) q Y"
    and "\<And>s s'. F s = F s' \<Longrightarrow> foot t (up_key U) (up_path U) s = foot t (up_key U) (up_path U) s'"
    and "stable (relies U t) P" "\<And>\<sigma>. P \<sigma> \<Longrightarrow> own t (st \<sigma>)"
    and "\<And>\<sigma> \<tau>. P \<sigma> \<Longrightarrow> F (st \<tau>) = F (st \<sigma>) \<Longrightarrow> own t (st \<tau>) \<Longrightarrow> nt \<tau> = nt \<sigma> \<Longrightarrow> P \<tau>"
  shows "urg U t (\<lambda>r \<sigma>. P \<sigma> \<and> (\<forall>x. r = Inr x \<longrightarrow> Y x)) P q"
  using assms(1,2)
proof (induction q rule: prog_induct)
  case (Done r)
  then show ?case by (intro rg_done [OF assms(4)]) auto
next
  case (Step g)
  show ?case
  proof (rule rg_step [OF assms(4)], rule conjI)
    fix \<sigma> assume P: "P \<sigma>"
    let ?s = "fst (g (st \<sigma>))"
    have s: "own t ?s" "F ?s = F (st \<sigma>)" "leaves (own t) F (snd (g (st \<sigma>)))"
      using Step.prems assms(5) [OF P] by (simp_all add: leaves_Step)
    have foot: "foot t (up_key U) (up_path U) ?s = foot t (up_key U) (up_path U) (st \<sigma>)" by (rule assms(3) [OF s(2)])
    then have same: "nt (noted (writers U t) \<sigma> ?s) = nt \<sigma>" by (simp add: noted_def writers_def foot_def)
    show "guarantees U t \<sigma> (noted (writers U t) \<sigma> ?s)" using foot same by (simp add: guarantees_def foot_def noted_def)
    have "P (noted (writers U t) \<sigma> ?s)" using assms(6) [OF P _ _ same] s by (simp add: noted_def)
    moreover have "yields (own t) (snd (g (st \<sigma>))) Y" using Step.prems(2) assms(5) [OF P] by (auto elim: yields_stepE)
    ultimately show "\<exists>P'. P' (noted (writers U t) \<sigma> ?s) \<and> urg U t (\<lambda>r \<sigma>. P \<sigma> \<and> (\<forall>x. r = Inr x \<longrightarrow> Y x)) P' (snd (g (st \<sigma>)))"
      using Step.IH [OF s(3)] by blast
  qed
qed

lemma rg_leaves:
  assumes "leaves (own t) F q" "\<And>s s'. F s = F s' \<Longrightarrow> foot t (up_key U) (up_path U) s = foot t (up_key U) (up_path U) s'"
    and "stable (relies U t) P" "\<And>\<sigma>. P \<sigma> \<Longrightarrow> own t (st \<sigma>)"
    and "\<And>\<sigma> \<tau>. P \<sigma> \<Longrightarrow> F (st \<tau>) = F (st \<sigma>) \<Longrightarrow> own t (st \<tau>) \<Longrightarrow> nt \<tau> = nt \<sigma> \<Longrightarrow> P \<tau>"
  shows "urg U t (\<lambda>_. P) P q"
  by (rule rg_post [OF rg_leaves_yields [OF assms(1) yields_True assms(2-5)]]) auto

definition alike :: "updates \<Rightarrow> nat \<Rightarrow> run \<Rightarrow> run \<Rightarrow> bool" where
  "alike U t \<sigma> \<tau> \<longleftrightarrow> foot t (up_key U) (up_path U) (st \<tau>) = foot t (up_key U) (up_path U) (st \<sigma>) \<and> own t (st \<tau>) \<and> nt \<tau> = nt \<sigma>"

definition alike_seen :: "updates \<Rightarrow> nat \<Rightarrow> run \<Rightarrow> run \<Rightarrow> bool" where
  "alike_seen U t \<sigma> \<tau> \<longleftrightarrow> alike U t \<sigma> \<tau> \<and> seen t (up_key U) (st \<tau>) = seen t (up_key U) (st \<sigma>)"

lemma rg_foot:
  assumes "leaves (own t) (foot t (up_key U) (up_path U)) q" "stable (relies U t) P"
    "\<And>\<sigma>. P \<sigma> \<Longrightarrow> steady U t \<sigma>" "\<And>\<sigma> \<tau>. P \<sigma> \<Longrightarrow> alike U t \<sigma> \<tau> \<Longrightarrow> P \<tau>"
  shows "urg U t (\<lambda>_. P) P q"
proof (rule rg_leaves [OF assms(1) _ assms(2)])
  show "own t (st \<sigma>)" if "P \<sigma>" for \<sigma> using assms(3) [OF that] by (simp add: steady_def)
  show "P \<tau>" if "P \<sigma>" "foot t (up_key U) (up_path U) (st \<tau>) = foot t (up_key U) (up_path U) (st \<sigma>)" "own t (st \<tau>)" "nt \<tau> = nt \<sigma>" for \<sigma> \<tau>
    using that by (intro assms(4) [OF that(1)]) (simp add: alike_def)
qed

lemma rg_beside:
  assumes "beside t (up_key U) (up_path U) q" "stable (relies U t) P"
    "\<And>\<sigma>. P \<sigma> \<Longrightarrow> steady U t \<sigma>" "\<And>\<sigma> \<tau>. P \<sigma> \<Longrightarrow> alike_seen U t \<sigma> \<tau> \<Longrightarrow> P \<tau>"
  shows "urg U t (\<lambda>_. P) P q"
proof (rule rg_leaves [OF assms(1) _ assms(2)])
  show "own t (st \<sigma>)" if "P \<sigma>" for \<sigma> using assms(3) [OF that] by (simp add: steady_def)
  show "P \<tau>" if "P \<sigma>" "foot_seen t (up_key U) (up_path U) (st \<tau>) = foot_seen t (up_key U) (up_path U) (st \<sigma>)" "own t (st \<tau>)" "nt \<tau> = nt \<sigma>" for \<sigma> \<tau>
    using that by (intro assms(4) [OF that(1)]) (simp add: alike_def alike_seen_def foot_seen_def)
qed (simp add: foot_seen_def)

lemma alike_serial: "alike U t \<sigma> \<tau> \<Longrightarrow> serial U \<tau> = serial U \<sigma> \<and> vw U \<tau> = vw U \<sigma> \<and> nt \<tau> = nt \<sigma> \<and> own t (st \<tau>)"
  by (simp add: serial_def foot_def alike_def)

lemma alike_keeps:
  "alike U t \<sigma> \<tau> \<Longrightarrow> steady U t \<sigma> \<Longrightarrow> steady U t \<tau>" "alike U t \<sigma> \<tau> \<Longrightarrow> waiting U t \<sigma> \<Longrightarrow> waiting U t \<tau>"
  "alike U t \<sigma> \<tau> \<Longrightarrow> wrote U t \<sigma> \<Longrightarrow> wrote U t \<tau>" "alike U t \<sigma> \<tau> \<Longrightarrow> saw U t r V \<sigma> \<Longrightarrow> saw U t r V \<tau>"
  "alike U t \<sigma> \<tau> \<Longrightarrow> has_row U \<sigma> \<Longrightarrow> has_row U \<tau>"
  by (drule alike_serial, simp add: steady_def waiting_def wrote_def saw_def has_row_def)+

lemma alike_seen_alike: "alike_seen U t \<sigma> \<tau> \<Longrightarrow> alike U t \<sigma> \<tau>"
  by (simp add: alike_seen_def)

lemma alike_seen_keeps:
  "alike_seen U t \<sigma> \<tau> \<Longrightarrow> known U t d \<sigma> \<Longrightarrow> known U t d \<tau>" "alike_seen U t \<sigma> \<tau> \<Longrightarrow> no_row U t \<sigma> \<Longrightarrow> no_row U t \<tau>"
  unfolding known_def no_row_def alike_seen_def by (auto intro: alike_keeps)

lemma assertion_steady:
  "waiting U t \<sigma> \<Longrightarrow> steady U t \<sigma>" "wrote U t \<sigma> \<Longrightarrow> steady U t \<sigma>" "saw U t r V \<sigma> \<Longrightarrow> steady U t \<sigma>" "known U t d \<sigma> \<Longrightarrow> steady U t \<sigma>"
  "no_row U t \<sigma> \<Longrightarrow> steady U t \<sigma>"
  by (auto simp: waiting_def wrote_def saw_def known_def no_row_def)

lemma assertion_waiting:
  "saw U t r V \<sigma> \<Longrightarrow> waiting U t \<sigma>" "known U t d \<sigma> \<Longrightarrow> waiting U t \<sigma>" "no_row U t \<sigma> \<Longrightarrow> waiting U t \<sigma>"
  by (auto simp: saw_def known_def no_row_def)

text \<open>The assertions an uninvolved program keeps.\<close>

lemma kept_foot:
  assumes "leaves (own t) (foot t (up_key U) (up_path U)) q"
  shows "urg U t (\<lambda>_. steady U t) (steady U t) q" "urg U t (\<lambda>_. waiting U t) (waiting U t) q" "urg U t (\<lambda>_. wrote U t) (wrote U t) q"
    "urg U t (\<lambda>_. saw U t r V) (saw U t r V) q"
  by (rule rg_foot [OF assms]; (blast intro: stables assertion_steady alike_keeps))+

lemma kept_beside:
  assumes "beside t (up_key U) (up_path U) q"
  shows "urg U t (\<lambda>_. steady U t) (steady U t) q" "urg U t (\<lambda>_. waiting U t) (waiting U t) q" "urg U t (\<lambda>_. wrote U t) (wrote U t) q"
    "urg U t (\<lambda>_. saw U t r V) (saw U t r V) q" "urg U t (\<lambda>_. known U t d) (known U t d) q" "urg U t (\<lambda>_. no_row U t) (no_row U t) q"
    "urg U t (\<lambda>_ \<sigma>. no_row U t \<sigma> \<and> has_row U \<sigma>) (\<lambda>\<sigma>. no_row U t \<sigma> \<and> has_row U \<sigma>) q"
  by (rule rg_beside [OF assms]; (blast intro: stables assertion_steady alike_keeps alike_seen_keeps alike_seen_alike))+

section \<open>Statements on the row\<close>

lemma noted_same:
  assumes "view (up_key U) s = vw U \<sigma>" "fs_lookup (cw_fs s) (up_path U) = hint U \<sigma>" "others t s = others t (st \<sigma>)" "own t s"
  shows "guarantees U t \<sigma> (noted (writers U t) \<sigma> s)" "alike U t \<sigma> (noted (writers U t) \<sigma> s)"
  using assms by (simp_all add: guarantees_def alike_def noted_def writers_def foot_def)

lemma noted_write:
  assumes "view (up_key U) s = apply_update (up_fun U t) (vw U \<sigma>)" "fs_lookup (cw_fs s) (up_path U) = hint U \<sigma>" "others t s = others t (st \<sigma>)"
    "own t s" "waiting U t \<sigma>"
  shows "guarantees U t \<sigma> (noted (writers U t) \<sigma> s)" "wrote U t (noted (writers U t) \<sigma> s)"
proof -
  have "rev_of (view (up_key U) s) \<noteq> vrev U \<sigma>" using assms(1) by simp
  then have nt: "nt (noted (writers U t) \<sigma> s) = nt \<sigma> @ [t]" by (auto simp: noted_def writers_def)
  then show "guarantees U t \<sigma> (noted (writers U t) \<sigma> s)" using assms by (simp add: guarantees_def noted_def waiting_def)
  have \<sigma>: "serial U \<sigma>" "t \<notin> set (nt \<sigma>)" using assms(5) by (simp_all add: waiting_def steady_def)
  have st: "st (noted (writers U t) \<sigma> s) = s" by (simp add: noted_def)
  have "serial U (noted (writers U t) \<sigma> s)"
    using \<sigma> nt assms(1) serial_rev [OF \<sigma>(1)] unfolding serial_def st by simp
  then show "wrote U t (noted (writers U t) \<sigma> s)" using nt assms(4) by (simp add: wrote_def steady_def st)
qed

definition next_tables :: "card_world \<Rightarrow> card_tables" where
  "next_tables w = (cw_tables w)\<lparr>ct_ops := Suc (ct_ops (cw_tables w))\<rparr>"

lemma view_next_tables [simp]: "row_view (ct_rows (next_tables w) k) = view k w"
  by (simp add: next_tables_def view_def)

lemma rg_sql:
  assumes "stable R P" "\<And>r. stable R (Q r)"
    and "\<And>\<sigma> e. P \<sigma> \<Longrightarrow> G \<sigma> (noted u \<sigma> ((st \<sigma>)\<lparr>cw_tables := next_tables (st \<sigma>)\<rparr>)) \<and> Q (Inl e) (noted u \<sigma> ((st \<sigma>)\<lparr>cw_tables := next_tables (st \<sigma>)\<rparr>))"
    and "\<And>\<sigma> r. P \<sigma> \<Longrightarrow> r = Inr (snd (g (next_tables (st \<sigma>)))) \<or> (\<exists>e. r = Inl e) \<Longrightarrow>
      G \<sigma> (noted u \<sigma> ((st \<sigma>)\<lparr>cw_tables := fst (g (next_tables (st \<sigma>)))\<rparr>)) \<and> Q r (noted u \<sigma> ((st \<sigma>)\<lparr>cw_tables := fst (g (next_tables (st \<sigma>)))\<rparr>))"
  shows "rg u R G Q P (call_sql g)"
  unfolding call_sql_def
  by (rule rg_atomic [OF assms(1,2)])
    (use assms(3,4) in \<open>auto simp: Let_def next_tables_def split: reply_fault.split\<close>)

lemma rg_sql_quiet:
  assumes "\<And>\<sigma> d. P \<sigma> \<Longrightarrow> row_view (ct_rows d (up_key U)) = vw U \<sigma> \<Longrightarrow> row_view (ct_rows (fst (g d)) (up_key U)) = vw U \<sigma>"
    and "stable (relies U t) P" "\<And>r. stable (relies U t) (Q r)" and "\<And>\<sigma>. P \<sigma> \<Longrightarrow> steady U t \<sigma>" "\<And>\<sigma> \<tau> e. P \<sigma> \<Longrightarrow> alike_seen U t \<sigma> \<tau> \<Longrightarrow> Q (Inl e) \<tau>"
    and "\<And>\<sigma> \<tau> d. P \<sigma> \<Longrightarrow> alike_seen U t \<sigma> \<tau> \<Longrightarrow> row_view (ct_rows d (up_key U)) = vw U \<sigma> \<Longrightarrow> Q (Inr (snd (g d))) \<tau>"
  shows "urg U t Q P (call_sql g)"
proof -
  have "guarantees U t \<sigma> (noted (writers U t) \<sigma> ((st \<sigma>)\<lparr>cw_tables := d\<rparr>)) \<and> alike_seen U t \<sigma> (noted (writers U t) \<sigma> ((st \<sigma>)\<lparr>cw_tables := d\<rparr>))"
    if "P \<sigma>" "row_view (ct_rows d (up_key U)) = vw U \<sigma>" for \<sigma> d
    using noted_same [of U "(st \<sigma>)\<lparr>cw_tables := d\<rparr>" \<sigma> t] that assms(4) [OF that(1)] by (simp add: alike_seen_def noted_def steady_def)
  then show ?thesis using assms(1,5,6) by (intro rg_sql [OF assms(2,3)]) auto
qed

lemma rg_sql_write:
  assumes "stable (relies U t) P" "\<And>\<sigma>. P \<sigma> \<Longrightarrow> waiting U t \<sigma>"
    and "\<And>\<sigma> d. P \<sigma> \<Longrightarrow> row_view (ct_rows d (up_key U)) = vw U \<sigma> \<Longrightarrow>
      row_view (ct_rows (fst (g d)) (up_key U)) = vw U \<sigma> \<and> snd (g d) = None
      \<or> row_view (ct_rows (fst (g d)) (up_key U)) = apply_update (up_fun U t) (vw U \<sigma>)"
  shows "urg U t (\<lambda>r. case r of Inr (Some _) \<Rightarrow> wrote U t | _ \<Rightarrow> steady U t) P (call_sql g)"
proof (rule rg_sql [OF assms(1)])
  show "stable (relies U t) (case r of Inr (Some _) \<Rightarrow> wrote U t | _ \<Rightarrow> steady U t)" for r :: "exn + 'a option"
    by (simp add: stables split: sum.split option.split)
  have quiet: "guarantees U t \<sigma> (noted (writers U t) \<sigma> ((st \<sigma>)\<lparr>cw_tables := d\<rparr>)) \<and> steady U t (noted (writers U t) \<sigma> ((st \<sigma>)\<lparr>cw_tables := d\<rparr>))"
    if "P \<sigma>" "row_view (ct_rows d (up_key U)) = vw U \<sigma>" for \<sigma> d
    using noted_same [of U "(st \<sigma>)\<lparr>cw_tables := d\<rparr>" \<sigma> t] that assms(2) [OF that(1)] alike_keeps(1) by (fastforce simp: waiting_def steady_def)
  have changed: "guarantees U t \<sigma> (noted (writers U t) \<sigma> ((st \<sigma>)\<lparr>cw_tables := d\<rparr>)) \<and> wrote U t (noted (writers U t) \<sigma> ((st \<sigma>)\<lparr>cw_tables := d\<rparr>))"
    if "P \<sigma>" "row_view (ct_rows d (up_key U)) = apply_update (up_fun U t) (vw U \<sigma>)" for \<sigma> d
    using noted_write [of U "(st \<sigma>)\<lparr>cw_tables := d\<rparr>" t \<sigma>] that assms(2) [OF that(1)] by (simp add: waiting_def steady_def)
  show "guarantees U t \<sigma> (noted (writers U t) \<sigma> ((st \<sigma>)\<lparr>cw_tables := next_tables (st \<sigma>)\<rparr>)) \<and>
      (case Inl e of Inr (Some _) \<Rightarrow> wrote U t | _ \<Rightarrow> steady U t) (noted (writers U t) \<sigma> ((st \<sigma>)\<lparr>cw_tables := next_tables (st \<sigma>)\<rparr>))"
    if "P \<sigma>" for \<sigma> e using quiet [OF that] by simp
  show "guarantees U t \<sigma> (noted (writers U t) \<sigma> ((st \<sigma>)\<lparr>cw_tables := fst (g (next_tables (st \<sigma>)))\<rparr>)) \<and>
      (case r of Inr (Some _) \<Rightarrow> wrote U t | _ \<Rightarrow> steady U t) (noted (writers U t) \<sigma> ((st \<sigma>)\<lparr>cw_tables := fst (g (next_tables (st \<sigma>)))\<rparr>))"
    if "P \<sigma>" "r = Inr (snd (g (next_tables (st \<sigma>)))) \<or> (\<exists>e. r = Inl e)" for \<sigma> r
    using assms(3) [OF that(1), of "next_tables (st \<sigma>)"] quiet [OF that(1)] changed [OF that(1)] that(2)
    by (auto simp: assertion_steady split: option.split)
qed

text \<open>Recording what was seen.\<close>

definition observed_as :: "updates \<Rightarrow> nat \<Rightarrow> int \<Rightarrow> (pointer_view \<Rightarrow> bool) \<Rightarrow> run \<Rightarrow> bool" where
  "observed_as U t r V \<sigma> \<longleftrightarrow> saw U t r V \<sigma> \<and> (\<forall>x. seen t (up_key U) (st \<sigma>) = Some x \<longrightarrow> fst x = r)"

lemma stable_observed_as: "stable (relies U t) (observed_as U t r V)"
  unfolding stable_def observed_as_def
proof (intro allI impI, elim conjE)
  fix \<sigma> \<tau> assume *: "relies U t \<sigma> \<tau>" "saw U t r V \<sigma>" "\<forall>x. seen t (up_key U) (st \<sigma>) = Some x \<longrightarrow> fst x = r"
  then have "seen t (up_key U) (st \<tau>) = seen t (up_key U) (st \<sigma>)" using seen_relies by (simp add: saw_def waiting_def steady_def)
  then show "saw U t r V \<tau> \<and> (\<forall>x. seen t (up_key U) (st \<tau>) = Some x \<longrightarrow> fst x = r)"
    using * stable_saw [of U t r V] by (auto simp: stable_def)
qed

lemma observed_known: "observed_as U t r (\<lambda>v. shown_view v = d) \<sigma> \<Longrightarrow> known U t d \<sigma>"
  by (auto simp: observed_as_def known_def saw_def)

lemma rg_observe:
  "urg U t (\<lambda>res. case res of Inl _ \<Rightarrow> steady U t | Inr _ \<Rightarrow> observed_as U t r V) (saw U t r V) (observe t (up_key U) (r, x))"
  unfolding observe_def session_put_def
proof (rule rg_atomic [OF stable_saw])
  show "stable (relies U t) (case res of Inl _ \<Rightarrow> steady U t | Inr _ \<Rightarrow> observed_as U t r V)" for res :: "exn + unit"
    by (simp add: stables stable_observed_as split: sum.split)
  fix \<sigma> assume saw: "saw U t r V \<sigma>"
  let ?f = "\<lambda>c. c\<lparr>rc_observed := (rc_observed c)(up_key U \<mapsto> (r, x))\<rparr>"
  have own: "own t (st \<sigma>)" using saw by (simp add: saw_def waiting_def steady_def)
  show "guarantees U t \<sigma> (noted (writers U t) \<sigma> (fst (case to_var (cw_row_ops (st \<sigma>) t) of None \<Rightarrow> (st \<sigma>, Inr ())
     | Some a \<Rightarrow> if rc_closed (row_op (st \<sigma>) a) then (st \<sigma>, Inl (CardStorageError ''card_lock_session_closed''))
         else (set_row_op a (?f (row_op (st \<sigma>) a)) (st \<sigma>), Inr ())))) \<and>
    (case snd (case to_var (cw_row_ops (st \<sigma>) t) of None \<Rightarrow> (st \<sigma>, Inr ())
     | Some a \<Rightarrow> if rc_closed (row_op (st \<sigma>) a) then (st \<sigma>, Inl (CardStorageError ''card_lock_session_closed''))
         else (set_row_op a (?f (row_op (st \<sigma>) a)) (st \<sigma>), Inr ())) of Inl _ \<Rightarrow> steady U t | Inr _ \<Rightarrow> observed_as U t r V)
     (noted (writers U t) \<sigma> (fst (case to_var (cw_row_ops (st \<sigma>) t) of None \<Rightarrow> (st \<sigma>, Inr ())
     | Some a \<Rightarrow> if rc_closed (row_op (st \<sigma>) a) then (st \<sigma>, Inl (CardStorageError ''card_lock_session_closed''))
         else (set_row_op a (?f (row_op (st \<sigma>) a)) (st \<sigma>), Inr ()))))"
  proof (cases "to_var (cw_row_ops (st \<sigma>) t)")
    case None
    then show ?thesis using noted_same [of U "st \<sigma>" \<sigma> t] own alike_keeps(4) [OF _ saw] by (auto simp: observed_as_def seen_def noted_def)
  next
    case (Some a)
    then have a: "fst a = t" using own by (simp add: own_def)
    then have foot: "foot t (up_key U) (up_path U) (set_row_op a c (st \<sigma>)) = foot t (up_key U) (up_path U) (st \<sigma>)" for c by (rule foot_set_row_op)
    have same: "guarantees U t \<sigma> (noted (writers U t) \<sigma> (set_row_op a c (st \<sigma>)))" "alike U t \<sigma> (noted (writers U t) \<sigma> (set_row_op a c (st \<sigma>)))" for c
      using noted_same [of U "set_row_op a c (st \<sigma>)" \<sigma> t] foot [of c] own by (simp_all add: foot_def)
    show ?thesis
      using Some own same [of "?f (row_op (st \<sigma>) a)"] noted_same [of U "st \<sigma>" \<sigma> t] alike_keeps(4) [OF _ saw] alike_keeps(1) [OF _ assertion_steady(3) [OF saw]]
      by (simp add: observed_as_def noted_def seen_set_row_op)
  qed
qed

section \<open>Reading\<close>

definition read_post :: "updates \<Rightarrow> nat \<Rightarrow> exn + (pyval \<times> int) option \<Rightarrow> run \<Rightarrow> bool" where
  "read_post U t res = (case res of Inl _ \<Rightarrow> steady U t | Inr None \<Rightarrow> no_row U t | Inr (Some (v, _)) \<Rightarrow> known U t (shown_pointer v))"

lemma stable_read_post: "stable (relies U t) (read_post U t res)"
  by (simp add: read_post_def stables split: sum.split option.split prod.split)

lemma waiting_saw: "waiting U t \<sigma> \<Longrightarrow> saw U t 0 (\<lambda>v. v = None) \<sigma>"
  using serial_rev by (auto simp: saw_def waiting_def steady_def)

lemma rg_fails: "stable R P \<Longrightarrow> (\<And>\<sigma>. P \<sigma> \<Longrightarrow> Q (Inl e) \<sigma>) \<Longrightarrow> rg u R G Q P (failP e)"
  by (simp add: rg_done)

lemma rg_returns: "stable R P \<Longrightarrow> (\<And>\<sigma>. P \<sigma> \<Longrightarrow> Q (Inr x) \<sigma>) \<Longrightarrow> rg u R G Q P (retP x)"
  by (simp add: rg_done)

lemma rg_then:
  assumes "rg u R G (\<lambda>_. P) P p" "\<And>x. rg u R G Q P (f x)" "\<And>e \<sigma>. P \<sigma> \<Longrightarrow> Q (Inl e) \<sigma>"
  shows "rg u R G Q P (bindP p f)"
  by (rule rg_bind [OF assms])

lemma rg_lift_bind:
  assumes "stable R P" "\<And>x. r = Inr x \<Longrightarrow> rg u R G Q P (f x)" "\<And>e \<sigma>. P \<sigma> \<Longrightarrow> Q (Inl e) \<sigma>"
  shows "rg u R G Q P (bindP (liftP r) f)"
  using assms by (cases r) (auto intro: rg_done)

lemma rg_seen_row_None: "urg U t (read_post U t) (waiting U t) (seen_row t (up_key U) None)"
proof -
  have "urg U t (read_post U t) (saw U t 0 (\<lambda>v. v = None)) (seen_row t (up_key U) None)"
    unfolding seen_row_def option.case
  proof (rule rg_bind [OF rg_observe])
    show "urg U t (read_post U t) (case Inr x of Inl _ \<Rightarrow> steady U t | Inr _ \<Rightarrow> observed_as U t 0 (\<lambda>v. v = None)) (retP None)" for x :: unit
      unfolding sum.case by (rule rg_returns [OF stable_observed_as]) (auto simp: read_post_def observed_as_def no_row_def saw_def)
  qed (simp add: read_post_def)
  then show ?thesis by (rule rg_pre) (simp_all add: stables waiting_saw)
qed

lemma rg_seen_row_Some:
  assumes "is_pointer (up_key U)"
  shows "urg U t (read_post U t) (saw U t (cr_row_revision r) (\<lambda>v. v = row_view (Some r))) (seen_row t (up_key U) (Some r))"
  unfolding seen_row_def option.case observation_of_def
proof (rule rg_bind [OF rg_observe])
  let ?P = "observed_as U t (cr_row_revision r) (\<lambda>v. v = row_view (Some r))"
  have "urg U t (read_post U t) ?P (retP (Some (v, cr_row_revision r)))" if "parse_canonical_json_bytes (cr_document r) = Inr v" for v
  proof (rule rg_returns [OF stable_observed_as])
    fix \<sigma> assume "?P \<sigma>"
    moreover have "shown_view (row_view (Some r)) = shown_pointer v" using that by (simp add: row_view_def shown_view_def)
    ultimately have "observed_as U t (cr_row_revision r) (\<lambda>v'. shown_view v' = shown_pointer v) \<sigma>" by (auto simp: observed_as_def saw_def)
    then show "read_post U t (Inr (Some (v, cr_row_revision r))) \<sigma>" by (simp add: read_post_def observed_known)
  qed
  then show "urg U t (read_post U t) (case Inr x of Inl _ \<Rightarrow> steady U t | Inr _ \<Rightarrow> ?P)
      (bindP (liftP (parse_canonical_json_bytes (cr_document r))) (\<lambda>v. retP (Some (v, cr_row_revision r))))" for x :: unit
    unfolding sum.case by (rule rg_lift_bind [OF stable_observed_as]) (auto simp: read_post_def observed_as_def assertion_steady)
qed (simp add: read_post_def)

definition sql_post :: "updates \<Rightarrow> nat \<Rightarrow> ('a \<Rightarrow> card_row) \<Rightarrow> exn + 'a option \<Rightarrow> run \<Rightarrow> bool" where
  "sql_post U t row res = (case res of Inl _ \<Rightarrow> steady U t | Inr None \<Rightarrow> waiting U t
     | Inr (Some x) \<Rightarrow> saw U t (cr_row_revision (row x)) (\<lambda>v. v = row_view (Some (row x))))"

lemma rg_sql_read:
  assumes "\<And>d. row_view (ct_rows (fst (g d)) (up_key U)) = row_view (ct_rows d (up_key U))"
    and "\<And>d x. snd (g d) = Some x \<Longrightarrow> row_view (ct_rows d (up_key U)) = row_view (Some (row x))"
  shows "urg U t (sql_post U t row) (waiting U t) (call_sql g)"
proof (rule rg_sql_quiet [OF _ stable_waiting])
  show "stable (relies U t) (sql_post U t row r)" for r
    by (simp add: sql_post_def stables split: sum.split option.split)
  show "sql_post U t row (Inr (snd (g d))) \<tau>"
    if *: "waiting U t \<sigma>" "alike_seen U t \<sigma> \<tau>" "row_view (ct_rows d (up_key U)) = vw U \<sigma>" for \<sigma> \<tau> d
  proof (cases "snd (g d)")
    case (Some x)
    have w: "waiting U t \<tau>" "vw U \<tau> = vw U \<sigma>" using * alike_keeps(2) alike_seen_alike alike_serial by blast+
    moreover have "vw U \<sigma> = row_view (Some (row x))" using assms(2) [OF Some] *(3) by simp
    ultimately show ?thesis by (simp add: sql_post_def Some saw_def row_view_def rev_of_def)
  next
    case None
    then show ?thesis using alike_keeps(2) [OF alike_seen_alike [OF *(2)] *(1)] by (simp add: sql_post_def)
  qed
qed (auto simp: sql_post_def assms(1) intro: assertion_steady alike_keeps alike_seen_alike)

lemma claim_view:
  "row_view (ct_rows (fst (sql_claim k token d)) k) = row_view (ct_rows d k)"
  "snd (sql_claim k token d) = Some x \<Longrightarrow> row_view (ct_rows d k) = row_view (Some (fst x))"
  by (auto simp: sql_claim_def put_row_def row_view_def Let_def split: option.splits)

lemma rg_read_row:
  assumes "is_pointer (up_key U)"
  shows "urg U t (read_post U t) (waiting U t) (read_row t (up_key U) claim)"
proof -
  have some: "urg U t (read_post U t) (saw U t (cr_row_revision r) (\<lambda>v. v = row_view (Some r))) (bindP q (\<lambda>_. seen_row t (up_key U) (Some r)))"
    if "beside t (up_key U) (up_path U) q" for q :: "unit card_prog" and r
    by (rule rg_then [OF kept_beside(4) [OF that] rg_seen_row_Some [OF assms]]) (auto simp: read_post_def assertion_steady)
  have select: "urg U t (read_post U t) (waiting U t) (bindP (call_sql (sql_select_row (up_key U))) (seen_row t (up_key U)))"
  proof (rule rg_bind [where M = "sql_post U t (\<lambda>r. r)"])
    show "urg U t (sql_post U t (\<lambda>r. r)) (waiting U t) (call_sql (sql_select_row (up_key U)))" by (rule rg_sql_read) (simp_all add: sql_select_row_def)
    show "urg U t (read_post U t) (sql_post U t (\<lambda>r. r) (Inr row)) (seen_row t (up_key U) row)" for row
      by (cases row) (simp_all add: sql_post_def rg_seen_row_None rg_seen_row_Some [OF assms])
  qed (simp add: sql_post_def read_post_def)
  have claiming: "urg U t (read_post U t) (waiting U t) (bindP (call_sql (sql_claim (up_key U) token)) (\<lambda>row.
       bindP (case row of None \<Rightarrow> retP () | Some (_, claimed) \<Rightarrow> set_claimed t (up_key U) (if claimed then token else None)) (\<lambda>_.
       seen_row t (up_key U) (map_option fst row))))" for token
  proof (rule rg_bind [where M = "sql_post U t fst"])
    show "urg U t (sql_post U t fst) (waiting U t) (call_sql (sql_claim (up_key U) token))" by (rule rg_sql_read) (rule claim_view)+
    show "urg U t (read_post U t) (sql_post U t fst (Inr row)) (bindP (case row of None \<Rightarrow> retP () | Some (_, claimed) \<Rightarrow>
        set_claimed t (up_key U) (if claimed then token else None)) (\<lambda>_. seen_row t (up_key U) (map_option fst row)))" for row
    proof (cases row)
      case None
      then show ?thesis by (simp add: sql_post_def rg_seen_row_None)
    next
      case (Some x)
      then show ?thesis using some [OF beside_claiming(3), of "fst x"] by (simp add: sql_post_def split_def)
    qed
  qed (simp add: sql_post_def read_post_def)
  show ?thesis
    unfolding read_row_def
    by (intro rg_then [OF kept_beside(2)] frames rg_if select claiming) (auto simp: read_post_def assertion_steady)
qed

definition document_post :: "updates \<Rightarrow> nat \<Rightarrow> exn + pyval option \<Rightarrow> run \<Rightarrow> bool" where
  "document_post U t res = (case res of Inl _ \<Rightarrow> steady U t | Inr d \<Rightarrow> known U t d)"

lemma no_row_known: "no_row U t \<sigma> \<Longrightarrow> known U t None \<sigma>" "no_row U t \<sigma> \<Longrightarrow> has_row U \<sigma> \<Longrightarrow> known U t d \<sigma>"
proof -
  assume n: "no_row U t \<sigma>"
  then have s: "serial U \<sigma>" "waiting U t \<sigma>" by (simp_all add: no_row_def waiting_def steady_def)
  show "known U t None \<sigma>" using n s serial_rev [OF s(1)] by (auto simp: known_def no_row_def saw_def shown_view_def)
  show "known U t d \<sigma>" if "has_row U \<sigma>" using n s serial_rev [OF s(1)] that by (auto simp: known_def no_row_def saw_def has_row_def)
qed

definition hint_post :: "updates \<Rightarrow> nat \<Rightarrow> exn + pyval option \<Rightarrow> run \<Rightarrow> bool" where
  "hint_post U t res = (case res of Inl _ \<Rightarrow> steady U t | Inr None \<Rightarrow> no_row U t | Inr (Some _) \<Rightarrow> (\<lambda>\<sigma>. no_row U t \<sigma> \<and> has_row U \<sigma>))"

lemma rg_read_hint: "urg U t (hint_post U t) (no_row U t) (on_card_files (read_json_or_none (up_path U)))"
  unfolding on_card_files_def
proof (rule rg_atomic [OF stable_no_row])
  show "stable (relies U t) (hint_post U t r)" for r
    by (simp add: hint_post_def stables split: sum.split option.split)
  fix \<sigma> assume n: "no_row U t \<sigma>"
  let ?s = "(st \<sigma>)\<lparr>cw_fs := fs_tick (cw_fs (st \<sigma>))\<rparr>" and ?\<tau> = "noted (writers U t) \<sigma> ((st \<sigma>)\<lparr>cw_fs := fs_tick (cw_fs (st \<sigma>))\<rparr>)"
  have own: "own t (st \<sigma>)" "serial U \<sigma>" using n by (simp_all add: no_row_def waiting_def steady_def)
  have same: "guarantees U t \<sigma> ?\<tau>" "alike_seen U t \<sigma> ?\<tau>"
    using noted_same [of U ?s \<sigma> t] own by (simp_all add: fs_effects alike_seen_def noted_def)
  then have \<tau>: "no_row U t ?\<tau>" "steady U t ?\<tau>" using n alike_seen_keeps(2) assertion_steady(5) by blast+
  have "has_row U ?\<tau>" if "hint U \<sigma> \<noteq> None"
  proof -
    have "vw U \<sigma> \<noteq> None" using own(2) that unfolding serial_def by blast
    then show ?thesis using own(2) alike_serial [OF alike_seen_alike [OF same(2)]] by (simp add: has_row_def)
  qed
  then have "hint_post U t (if fs_next (cw_fs (st \<sigma>)) \<noteq> No_Fault then Inl (DurableStorageError ''read_failed'') else parsed (hint U \<sigma>)) ?\<tau>"
    using \<tau> by (auto simp: hint_post_def parsed_def split: option.split stored_file.split)
  then show "guarantees U t \<sigma> (noted (writers U t) \<sigma> (fst (case read_json_or_none (up_path U) (cw_fs (st \<sigma>)) of (s, r) \<Rightarrow> ((st \<sigma>)\<lparr>cw_fs := s\<rparr>, r)))) \<and>
      hint_post U t (snd (case read_json_or_none (up_path U) (cw_fs (st \<sigma>)) of (s, r) \<Rightarrow> ((st \<sigma>)\<lparr>cw_fs := s\<rparr>, r)))
        (noted (writers U t) \<sigma> (fst (case read_json_or_none (up_path U) (cw_fs (st \<sigma>)) of (s, r) \<Rightarrow> ((st \<sigma>)\<lparr>cw_fs := s\<rparr>, r))))"
    using same(1) by (simp add: read_json_or_none_def)
qed

lemma rg_adopt:
  assumes "is_pointer (up_key U)"
  shows "urg U t (\<lambda>res. case res of Inl _ \<Rightarrow> steady U t | Inr (v, _) \<Rightarrow> known U t (shown_pointer v)) (\<lambda>\<sigma>. no_row U t \<sigma> \<and> has_row U \<sigma>)
     (adopt_row t (up_key U) limit document failed)"
proof -
  let ?P = "\<lambda>\<sigma>. no_row U t \<sigma> \<and> has_row U \<sigma>"
  let ?Q = "\<lambda>res. case res of Inl _ \<Rightarrow> steady U t | Inr (v, _ :: int) \<Rightarrow> known U t (shown_pointer v)"
  have stab: "stable (relies U t) ?P" by (intro stables)
  have insert: "urg U t (\<lambda>_. waiting U t) ?P (call_sql (sql_insert (up_key U) encoded token))" for encoded token
  proof (rule rg_sql_quiet [OF _ stab])
    show "row_view (ct_rows (fst (sql_insert (up_key U) encoded token d)) (up_key U)) = vw U \<sigma>"
      if "?P \<sigma>" "row_view (ct_rows d (up_key U)) = vw U \<sigma>" for \<sigma> d
      using that by (cases "ct_rows d (up_key U)") (auto simp: has_row_def sql_insert_def row_view_def)
  qed (blast intro: stables assertion_steady assertion_waiting alike_keeps(2) alike_seen_alike)+
  have again: "urg U t ?Q (waiting U t) (bindP (read_row t (up_key U) True) (\<lambda>found. case found of None \<Rightarrow> failP (CardStorageError failed) | Some x \<Rightarrow> retP x))"
  proof (rule rg_bind [OF rg_read_row [OF assms]])
    show "urg U t ?Q (read_post U t (Inr found)) (case found of None \<Rightarrow> failP (CardStorageError failed) | Some x \<Rightarrow> retP x)" for found
      by (cases found; (simp only: option.case, intro rg_fails rg_returns stable_read_post)) (auto simp: read_post_def assertion_steady)
  qed (simp add: read_post_def)
  show ?thesis
    unfolding adopt_row_def
  proof (rule rg_then [OF kept_beside(7)], rule beside_claiming, rule rg_lift_bind [OF stab], rule rg_then [OF kept_beside(7)], rule beside_claiming)
    show "urg U t ?Q ?P (bindP (call_sql (sql_insert (up_key U) encoded token)) (\<lambda>_. bindP (read_row t (up_key U) True)
        (\<lambda>found. case found of None \<Rightarrow> failP (CardStorageError failed) | Some x \<Rightarrow> retP x)))" for encoded token
      by (rule rg_bind [OF insert again]) (simp add: assertion_steady)
  qed (simp_all add: assertion_steady)
qed

lemma rg_read_pointer_document:
  assumes "up_key U = Pointer_Row sh ai" "current_path sh ai = Inr (up_path U)"
  shows "urg U t (document_post U t) (waiting U t) (read_pointer_document True t sh ai)"
proof -
  note key = assms(1) [symmetric]
  have ptr: "is_pointer (up_key U)" by (simp add: assms(1))
  have adopted: "urg U t (document_post U t) (\<lambda>\<sigma>. no_row U t \<sigma> \<and> has_row U \<sigma>) (bindP (guard_row t (up_path U)) (\<lambda>_.
      bindP (adopt_row t (up_key U) POINTER_DOCUMENT_MAX_BYTES h ''card_pointer_adoption_failed'') (\<lambda>(document, _). retP (shown_pointer document))))" for h
    by (rule rg_then [OF kept_beside(7) rg_bind [OF rg_adopt [OF ptr]]])
      (auto simp: document_post_def assertion_steady simp del: prog_simps intro!: frames rg_returns stables)
  have hinted: "urg U t (document_post U t) (hint_post U t (Inr hint)) (case hint of None \<Rightarrow> retP None | Some h \<Rightarrow> if \<not> holder then retP (Some h)
      else bindP (guard_row t (up_path U)) (\<lambda>_. bindP (adopt_row t (up_key U) POINTER_DOCUMENT_MAX_BYTES h ''card_pointer_adoption_failed'')
        (\<lambda>(document, _). retP (shown_pointer document))))" for hint holder
  proof (cases hint)
    case None
    then show ?thesis by (simp add: hint_post_def rg_done document_post_def stables no_row_known)
  next
    case (Some h)
    then show ?thesis using adopted by (auto simp: hint_post_def document_post_def no_row_known simp del: prog_simps intro!: rg_returns stables)
  qed
  have found: "urg U t (document_post U t) (read_post U t (Inr x)) (case x of Some (document, _) \<Rightarrow> retP (shown_pointer document)
       | None \<Rightarrow> bindP (on_card_files (read_json_or_none (up_path U))) (\<lambda>hint. case hint of None \<Rightarrow> retP None
           | Some h \<Rightarrow> if \<not> holder then retP (Some h)
               else bindP (guard_row t (up_path U)) (\<lambda>_. bindP (adopt_row t (up_key U) POINTER_DOCUMENT_MAX_BYTES h ''card_pointer_adoption_failed'')
                 (\<lambda>(document, _). retP (shown_pointer document)))))" for x holder
  proof (cases x)
    case None
    have "read_post U t (Inr None) = no_row U t" by (simp add: read_post_def)
    then show ?thesis unfolding None option.case by (simp only:) (rule rg_bind [OF rg_read_hint hinted], simp add: hint_post_def document_post_def)
  qed (auto simp: read_post_def document_post_def simp del: prog_simps intro!: rg_returns stables)
  show ?thesis
    unfolding read_pointer_document_def read_pointer_def adopt_pointer_def key session_holds_def
    apply (simp only: assms(2) not_True_eq_False if_False)
    apply (rule rg_lift_bind [OF stable_waiting])
    apply (drule sum.inject(2) [THEN iffD1], drule sym, simp del: prog_simps)
    apply (rule rg_lift_bind [OF stable_waiting])
    apply (rule rg_then [OF kept_beside(2)], rule frames)
    apply (rule rg_then [OF kept_beside(2)], intro frames)
    apply (rule rg_bind [OF rg_read_row [OF ptr] found])
    apply (simp_all add: read_post_def document_post_def assertion_steady)
    done
qed

section \<open>Writing\<close>

definition write_post :: "updates \<Rightarrow> nat \<Rightarrow> exn + 'a \<Rightarrow> run \<Rightarrow> bool" where
  "write_post U t res = (case res of Inl _ \<Rightarrow> steady U t | Inr _ \<Rightarrow> wrote U t)"

lemma write_post_simps [simp]: "write_post U t (Inl e) = steady U t" "write_post U t (Inr x) = wrote U t"
  by (simp_all add: write_post_def)

lemma write_postI: "steady U t \<sigma> \<Longrightarrow> write_post U t (Inl e) \<sigma>" "wrote U t \<sigma> \<Longrightarrow> write_post U t r \<sigma>"
  by (auto simp: write_post_def assertion_steady split: sum.split)

lemma stable_write_post: "stable (relies U t) (write_post U t res)"
  by (simp add: write_post_def stables split: sum.split)

lemma noted_id [simp]: "noted (writers U t) \<sigma> (st \<sigma>) = \<sigma>"
  by (simp add: noted_def writers_def)

lemma guarantees_refl [simp]: "guarantees U t \<sigma> \<sigma>"
  by (simp add: guarantees_def)

lemma rg_required_observation:
  "urg U t (\<lambda>res. case res of Inl _ \<Rightarrow> steady U t | Inr x \<Rightarrow> saw U t (fst x) (\<lambda>v. shown_view v = d)) (known U t d) (required_observation t (up_key U))"
  unfolding required_observation_def session_get_def
proof (rule rg_atomic [OF stable_known])
  show "stable (relies U t) (case res of Inl _ \<Rightarrow> steady U t | Inr x \<Rightarrow> saw U t (fst x) (\<lambda>v. shown_view v = d))" for res :: "exn + observation"
    by (simp add: stables split: sum.split)
qed (auto simp: known_def seen_def check_open_def waiting_def split: option.split)

lemma insert_view:
  "ct_rows d k = None \<Longrightarrow> row_view (ct_rows (fst (sql_insert k document token d)) k) = Some (1, document)"
  "ct_rows d k \<noteq> None \<Longrightarrow> sql_insert k document token d = (d, None)"
  by (auto simp: sql_insert_def put_row_def row_view_def Let_def)

lemma update_view:
  "row_view (ct_rows (fst (sql_update_row k expected token document d)) k) = row_view (ct_rows d k) \<and> snd (sql_update_row k expected token document d) = None
   \<or> (\<exists>b. row_view (ct_rows d k) = Some (fst expected, b) \<and> row_view (ct_rows (fst (sql_update_row k expected token document d)) k) = Some (fst expected + 1, document))"
  by (auto simp: sql_update_row_def matches_row_def put_row_def row_view_def Let_def split: option.split)

lemma rg_insert:
  assumes "document = stored_bytes (up_fun U t d)"
  shows "urg U t (\<lambda>r. case r of Inr (Some _) \<Rightarrow> wrote U t | _ \<Rightarrow> steady U t) (saw U t 0 (\<lambda>v. shown_view v = d)) (call_sql (sql_insert (up_key U) document token))"
proof (rule rg_sql_write [OF stable_saw])
  fix \<sigma> and tables :: card_tables assume *: "saw U t 0 (\<lambda>v. shown_view v = d) \<sigma>" "row_view (ct_rows tables (up_key U)) = vw U \<sigma>"
  show "row_view (ct_rows (fst (sql_insert (up_key U) document token tables)) (up_key U)) = vw U \<sigma> \<and> snd (sql_insert (up_key U) document token tables) = None
      \<or> row_view (ct_rows (fst (sql_insert (up_key U) document token tables)) (up_key U)) = apply_update (up_fun U t) (vw U \<sigma>)"
  proof (cases "ct_rows tables (up_key U)")
    case None
    then have "vw U \<sigma> = None" using *(2) by (simp add: row_view_def)
    then show ?thesis using *(1) insert_view(1) [OF None] assms by (auto simp: saw_def apply_update_def rev_of_def)
  next
    case (Some r)
    then show ?thesis using *(2) insert_view(2) by simp
  qed
qed (rule assertion_waiting)

lemma rg_update:
  assumes "document = stored_bytes (up_fun U t d)"
  shows "urg U t (\<lambda>r. case r of Inr (Some _) \<Rightarrow> wrote U t | _ \<Rightarrow> steady U t) (saw U t (fst expected) (\<lambda>v. shown_view v = d))
    (call_sql (sql_update_row (up_key U) expected token document))"
proof (rule rg_sql_write [OF stable_saw])
  fix \<sigma> and tables :: card_tables assume *: "saw U t (fst expected) (\<lambda>v. shown_view v = d) \<sigma>" "row_view (ct_rows tables (up_key U)) = vw U \<sigma>"
  have "Some (fst expected + 1, document) = apply_update (up_fun U t) (vw U \<sigma>)" if "vw U \<sigma> = Some (fst expected, b)" for b
    using *(1) that assms by (simp add: saw_def apply_update_def rev_of_def)
  then show "row_view (ct_rows (fst (sql_update_row (up_key U) expected token document tables)) (up_key U)) = vw U \<sigma>
        \<and> snd (sql_update_row (up_key U) expected token document tables) = None
      \<or> row_view (ct_rows (fst (sql_update_row (up_key U) expected token document tables)) (up_key U)) = apply_update (up_fun U t) (vw U \<sigma>)"
    using update_view [of "up_key U" expected token document tables] *(2) by auto
qed (rule assertion_waiting)

lemma rg_written_row:
  "urg U t (write_post U t) (case row of Some _ \<Rightarrow> wrote U t | None \<Rightarrow> steady U t) (written_row t (up_key U) moved row)"
proof (cases row)
  case (Some r)
  have "leaves (own t) (foot t (up_key U) (up_path U)) (observe t (up_key U) x)" for x unfolding observe_def by (rule foot_put)
  then show ?thesis
    unfolding written_row_def Some option.case
    by (intro rg_then [OF kept_foot(3)] rg_returns stables write_postI)
qed (auto simp: written_row_def write_post_def stables simp del: prog_simps intro!: rg_fails)

lemma rg_write_pointer:
  assumes "up_key U = Pointer_Row sh ai" "\<And>b. encode_document document POINTER_DOCUMENT_MAX_BYTES = Inr b \<Longrightarrow> b = stored_bytes (up_fun U t d)"
  shows "urg U t (write_post U t) (known U t d) (write_pointer t sh ai document)"
proof -
  note key = assms(1) [symmetric]
  let ?S = "\<lambda>r. saw U t r (\<lambda>v. shown_view v = d)"
  have saw_post: "?S r \<sigma> \<Longrightarrow> write_post U t (Inl e) \<sigma>" for r \<sigma> e by (simp add: write_postI assertion_steady)
  let ?M = "\<lambda>r. case r of Inr (Some _) \<Rightarrow> wrote U t | _ \<Rightarrow> steady U t"
  have stM: "stable (relies U t) (?M r)" for r :: "exn + card_row option" by (simp add: stables split: sum.split option.split)
  have inserted: "urg U t ?M (?S 0) (bindP (claim_token t) (\<lambda>token. bindP (call_sql (sql_insert (up_key U) encoded token)) (\<lambda>row.
      if row = None then retP row else bindP (claim_token t) (\<lambda>token'. bindP (set_claimed t (up_key U) token') (\<lambda>_. retP row)))))"
    if "encode_document document POINTER_DOCUMENT_MAX_BYTES = Inr encoded" for encoded
  proof (rule rg_then [OF kept_beside(4)], rule beside_claiming, rule rg_bind [OF rg_insert [OF assms(2) [OF that]]])
    show "urg U t ?M (?M (Inr row)) (if row = None then retP row else bindP (claim_token t) (\<lambda>token'. bindP (set_claimed t (up_key U) token') (\<lambda>_. retP row)))" for row
      by (cases row; simp only: option.case if_True if_False option.distinct refl sum.case)
        (intro rg_returns rg_then [OF kept_beside(3)] beside_claiming stables; auto simp: assertion_steady)+
  qed (simp_all add: assertion_steady)
  have updated: "urg U t ?M (?S (fst expected)) (bindP (write_fence t (up_key U)) (\<lambda>fence. call_sql (sql_update_row (up_key U) expected fence encoded)))"
    if "encode_document document POINTER_DOCUMENT_MAX_BYTES = Inr encoded" for encoded expected
    by (rule rg_then [OF kept_beside(4)], rule beside_claiming, rule rg_update [OF assms(2) [OF that]]) (simp add: assertion_steady)
  show ?thesis
    unfolding write_pointer_def key Let_def
    apply (rule rg_bind [OF rg_required_observation])
     apply (simp only: sum.case)
     apply (rule rg_lift_bind [OF stable_saw])
      apply (rule rg_bind [where M = ?M])
        apply (rule rg_if)
         apply (simp only:, rule inserted, assumption)
        apply (rule updated, assumption)
       apply (rule rg_pre [OF rg_written_row])
        apply (auto simp: write_post_def stables assertion_steady split: option.split)
    done
qed

lemma fold_apply_not_None: "x \<noteq> [] \<Longrightarrow> fold (\<lambda>i. apply_update (F i)) x v \<noteq> None"
  by (induction x rule: rev_induct) auto

lemma rg_write_hint: "urg U t (\<lambda>_. wrote U t) (wrote U t) (on_card_files m)"
  unfolding on_card_files_def
proof (rule rg_atomic [OF stable_wrote stable_wrote])
  fix \<sigma> assume w: "wrote U t \<sigma>"
  then have "nt \<sigma> \<noteq> []" "serial U \<sigma>" by (auto simp: wrote_def steady_def)
  then have row: "vw U \<sigma> \<noteq> None" using fold_apply_not_None by (simp add: serial_def)
  have same: "vw U (noted (writers U t) \<sigma> ((st \<sigma>)\<lparr>cw_fs := s\<rparr>)) = vw U \<sigma>" "nt (noted (writers U t) \<sigma> ((st \<sigma>)\<lparr>cw_fs := s\<rparr>)) = nt \<sigma>"
    "own t (st (noted (writers U t) \<sigma> ((st \<sigma>)\<lparr>cw_fs := s\<rparr>))) = own t (st \<sigma>)" "others t (st (noted (writers U t) \<sigma> ((st \<sigma>)\<lparr>cw_fs := s\<rparr>))) = others t (st \<sigma>)" for s
    by (simp_all add: noted_def writers_def)
  have "guarantees U t \<sigma> (noted (writers U t) \<sigma> ((st \<sigma>)\<lparr>cw_fs := s\<rparr>)) \<and> wrote U t (noted (writers U t) \<sigma> ((st \<sigma>)\<lparr>cw_fs := s\<rparr>))" for s
    using w row unfolding guarantees_def wrote_def steady_def serial_def same by blast
  then show "guarantees U t \<sigma> (noted (writers U t) \<sigma> (fst (case m (cw_fs (st \<sigma>)) of (s, r) \<Rightarrow> ((st \<sigma>)\<lparr>cw_fs := s\<rparr>, r)))) \<and>
      wrote U t (noted (writers U t) \<sigma> (fst (case m (cw_fs (st \<sigma>)) of (s, r) \<Rightarrow> ((st \<sigma>)\<lparr>cw_fs := s\<rparr>, r))))"
    by (simp add: split_def)
qed

lemma rg_write_pointer_document:
  assumes "up_key U = Pointer_Row sh ai" "current_path sh ai = Inr (up_path U)"
  shows "urg U t (write_post U t) (known U t d) (write_pointer_document True t sh ai (up_fun U t d) txn)"
proof -
  have hint: "urg U t (write_post U t) (wrote U t) (case v of None \<Rightarrow> unlink_guarded_async t (up_path U) | Some x \<Rightarrow> write_json_guarded t (up_path U) x)" for v
    unfolding unlink_guarded_async_def write_json_guarded_def unlink_file_def
    by (cases v; simp only: option.case) (intro rg_then [OF kept_beside(3)] frames rg_post [OF rg_write_hint] write_postI; simp)+
  have base: "beside t (up_key U) (up_path U) (assert_base_available True t sh ai txn)"
    unfolding assms(1) by (rule beside_assert_base_available [OF assms(2)])
  have known_post: "known U t d \<sigma> \<Longrightarrow> write_post U t (Inl e) \<sigma>" for \<sigma> e by (simp add: write_postI assertion_steady)
  show ?thesis
    unfolding write_pointer_document_def assms(2) if_True
    apply (rule rg_lift_bind [OF stable_known])
     apply (drule sum.inject(2) [THEN iffD1], drule sym, simp only:)
     apply (rule rg_then [OF kept_beside(5) [OF base]])
      apply (rule rg_bind [where M = "write_post U t"])
        apply (rule rg_then [OF kept_beside(5)], rule frames)
         apply (rule rg_bind [OF rg_write_pointer [OF assms(1)]])
           apply (simp add: stored_bytes_def)
          apply (simp only: write_post_simps, rule rg_returns [OF stable_wrote])
          apply (auto simp: known_post hint assertion_steady)
    done
qed

section \<open>Runs\<close>

definition quiet_environment :: "row_key \<Rightarrow> path \<Rightarrow> card_world event list \<Rightarrow> bool" where
  "quiet_environment k p es \<longleftrightarrow> (\<forall>f w. Env f \<in> set es \<longrightarrow> cw_row_ops (f w) = cw_row_ops w \<and> view k (f w) = view k w
     \<and> fs_lookup (cw_fs (f w)) p = fs_lookup (cw_fs w) p)"

lemma rg_update_pointer:
  assumes "up_key U = Pointer_Row sh ai" "current_path sh ai = Inr (up_path U)" "host_file_lock base_lock"
  shows "urg U t (write_post U t) (waiting U t) (update_pointer (row_fenced_lock base_lock) call sh ai txn (up_fun U t) t)"
proof -
  let ?F = "foot t (up_key U) (up_path U)"
  have lock: "leaves (own t) ?F (row_fenced_lock base_lock t call)" "yields (own t) (row_fenced_lock base_lock t call) (\<lambda>(_, leave). leaves (own t) ?F leave)"
    using foot_row_fenced_lock [OF assms(3), of t "up_key U" "up_path U" call] by (auto simp: section_leaves_def)
  have body: "urg U t (write_post U t) (waiting U t) (bindP (read_pointer_document True t sh ai) (\<lambda>d. write_pointer_document True t sh ai (up_fun U t d) txn))"
    by (rule rg_bind [OF rg_read_pointer_document [OF assms(1,2)]]) (simp_all add: document_post_def write_postI rg_write_pointer_document [OF assms(1,2)])
  have "urg U t (write_post U t) (waiting U t) (finallyP (bindP (read_pointer_document True t sh ai) (\<lambda>d. write_pointer_document True t sh ai (up_fun U t d) txn)) leave)"
    if "leaves (own t) ?F leave" for leave
  proof (rule rg_finally [OF body _ stable_write_post])
    show "urg U t (\<lambda>r' \<sigma>. case r' of Inl e \<Rightarrow> write_post U t (Inl e) \<sigma> | Inr _ \<Rightarrow> write_post U t r \<sigma>) (write_post U t r) leave" for r :: "exn + unit"
      using kept_foot(1) [OF that] kept_foot(3) [OF that]
      by (cases r; simp only: write_post_def sum.case) (erule rg_post; auto simp: write_post_def assertion_steady split: sum.split)+
  qed
  then have rest: "urg U t (write_post U t) (\<lambda>\<sigma>. waiting U t \<sigma> \<and> (\<forall>x. Inr y = Inr x \<longrightarrow> (\<lambda>(_, leave). leaves (own t) ?F leave) x))
      (case y of (v, leave) \<Rightarrow> finallyP (bindP (read_pointer_document True t sh ai) (\<lambda>d. write_pointer_document True t sh ai (up_fun U t d) txn)) leave)" for y
    by (cases y) (simp add: rg_fact conj_commute [of "waiting U t _"])
  show ?thesis
    unfolding update_pointer_def with_lock_def
  proof (rule rg_bind [OF rg_leaves_yields [OF lock _ stable_waiting] rest])
    show "waiting U t \<tau>" if "waiting U t \<sigma>" "?F (st \<tau>) = ?F (st \<sigma>)" "own t (st \<tau>)" "nt \<tau> = nt \<sigma>" for \<sigma> \<tau>
      using that by (intro alike_keeps(2) [OF _ that(1)]) (simp add: alike_def)
  qed (auto simp: waiting_def steady_def write_postI)
qed

text \<open>
  C4. Any number of updates of one card's pointer run interleaved, step by step, under the Hub's Redis lock, with faults, expired
  leases and lost replies at any place. There is an order of the updates that wrote, each once, such that the row ends as if they had
  run one after the other in this order; every update that returned is in it. No update is lost, whatever the lock did. The card starts with a row, or with neither row nor file.
\<close>

theorem updates_serialize:
  assumes lock: "hub_redis_card_mutation_lock cfg observed_lock make_metadata token_hex base_lock root = Inr lock"
    and host: "host_file_lock base_lock" "host_redis_lock observed_lock"
    and start: "\<And>i. to_var (cw_row_ops w i) = None" "view (Pointer_Row sh ai) w = None \<Longrightarrow> fs_lookup (cw_fs w) p = None"
      "\<And>r b. view (Pointer_Row sh ai) w = Some (r, b) \<Longrightarrow> 1 \<le> r"
    and run: "current_path sh ai = Inr p" "quiet_environment (Pointer_Row sh ai) p es"
      "run_tasks es (\<lambda>i. update_pointer lock (calls i) sh ai (txns i) (f i) i) w = (w', ps)"
  shows "\<exists>order. distinct order \<and> view (Pointer_Row sh ai) w' = fold (\<lambda>i. apply_update (f i)) order (view (Pointer_Row sh ai) w)
    \<and> (\<forall>i. ps i = Done (Inr ()) \<longrightarrow> i \<in> set order)"
proof -
  let ?k = "Pointer_Row sh ai"
  let ?U = "\<lparr>up_key = ?k, up_path = p, up_fun = f, up_start = view ?k w\<rparr>"
  obtain l where l: "lock = row_fenced_lock l" "host_file_lock l"
    using lock aside_proc_only [OF aside_redis_lock [OF aside_local_lock [OF host(1)] host(2)]]
    by (auto simp: hub_redis_card_mutation_lock_def container_local_lock_def redis_card_mutation_lock_def split: if_splits option.splits)
  have "waiting ?U i (At w [])" for i
    using start by (cases "view ?k w") (auto simp: waiting_def steady_def serial_def own_def rev_of_def)
  then have ens: "ensures (writers ?U i) (relies ?U i) (guarantees ?U i) (write_post ?U i) (update_pointer lock (calls i) sh ai (txns i) (f i) i) (At w [])" for i
    using rg_update_pointer [of ?U sh ai l i] run(1) l by (auto intro: ensuresI)
  have env: "serial ?U (At (g s) x) = serial ?U (At s x)" "relies ?U i (At s x) (At (g s) x)" if "Env g \<in> set es" for g i s x
  proof -
    have g: "cw_row_ops (g s) = cw_row_ops s" "view ?k (g s) = view ?k s" "fs_lookup (cw_fs (g s)) p = fs_lookup (cw_fs s) p"
      using run(2) that by (auto simp: quiet_environment_def)
    then show "serial ?U (At (g s) x) = serial ?U (At s x)" by (simp add: serial_def)
    then show "relies ?U i (At s x) (At (g s) x)" using g by (simp add: relies_def)
  qed
  have "serial ?U (At w [])" using \<open>waiting ?U 0 (At w [])\<close> by (simp add: waiting_def steady_def)
  then have "\<exists>x. serial ?U (At w' x) \<and> (\<forall>i. ensures (writers ?U i) (relies ?U i) (guarantees ?U i) (write_post ?U i) (ps i) (At w' x))"
    by (rule run_tasks_rg [OF run(3) ens]) (use env in \<open>auto intro: guarantees_serial guarantees_relies\<close>)
  then obtain x where x: "serial ?U (At w' x)" "\<And>i. ensures (writers ?U i) (relies ?U i) (guarantees ?U i) (write_post ?U i) (ps i) (At w' x)" by blast
  have "i \<in> set x" if "ps i = Done (Inr ())" for i
    using ensures_Done [OF x(2) [of i, unfolded that]] by (simp add: wrote_def)
  then show ?thesis using x(1) by (auto simp: serial_def intro!: exI [of _ x])
qed

theorem updates_serialize_witness:
  "let update = (\<lambda>i. update_pointer sample_lock sample_call sample_subject sample_card [] (\<lambda>_. Some (obj [(''by'', PInt (int i))])) i);
       run = run_tasks (replicate 30 (Run 0) @ Env (\<lambda>w. w\<lparr>cw_redis := (cw_redis w)\<lparr>lr_now := 999999\<rparr>\<rparr>) # replicate 90 (Run 1) @ replicate 90 (Run 0))
         update (sample_world None);
       k = Pointer_Row sample_subject sample_card
   in \<exists>order. distinct order \<and> view k (fst run) = fold (\<lambda>i. apply_update (\<lambda>_. Some (obj [(''by'', PInt (int i))]))) order None
      \<and> (\<forall>i. snd run i = Done (Inr ()) \<longrightarrow> i \<in> set order)"
proof -
  have "view (Pointer_Row sample_subject sample_card) (sample_world None) = None" by (simp add: sample_start row_view_def)
  then show ?thesis
    unfolding Let_def
    using updates_serialize [OF sample_hub_lock sample_host, where w = "sample_world None" and sh = sample_subject and ai = sample_card and
        calls = "\<lambda>_. sample_call" and txns = "\<lambda>_. []" and f = "\<lambda>i _. Some (obj [(''by'', PInt (int i))])", OF _ _ _ sample_path _ surjective_pairing]
    by (auto simp: sample_start quiet_environment_def view_def)
qed

end
