(* ===== verification/Card_Types.thy ===== *)
theory Card_Types
  imports Card_Updates
begin

text \<open>
  What the rows, the row contexts and the files of the cards look like at every moment, whatever tasks run
  interleaved under the mutation locks and whatever fails.
\<close>

section \<open>Well-formed states\<close>

definition token_ok :: "int \<Rightarrow> int option \<Rightarrow> bool" where
  "token_ok n x \<longleftrightarrow> (\<forall>m. x = Some m \<longrightarrow> m \<le> n)"

definition document_limit :: "row_key \<Rightarrow> nat" where
  "document_limit k = (if is_pointer k then POINTER_DOCUMENT_MAX_BYTES else MARKER_DOCUMENT_MAX_BYTES)"

text \<open>A row: its document is a canonical JSON object within the limit, its digest is the one of the document, its token was drawn.\<close>

definition row_ok :: "int \<Rightarrow> row_key \<Rightarrow> card_row \<Rightarrow> bool" where
  "row_ok n k r \<longleftrightarrow> 1 \<le> cr_row_revision r \<and> 2 \<le> length (cr_document r) \<and> length (cr_document r) \<le> document_limit k
     \<and> (\<exists>d. parse_canonical_json_bytes (cr_document r) = Inr (PDict d))
     \<and> cr_digest r = (if is_pointer k then Some (sha256_hex (cr_document r)) else None)
     \<and> (cr_incarnation r = None \<longleftrightarrow> is_pointer k) \<and> token_ok n (cr_fence_token r)"

text \<open>A row context: one positive count per resource, tokens that were drawn, and observations of the kind of their row.\<close>

definition context_ok :: "int \<Rightarrow> row_context \<Rightarrow> bool" where
  "context_ok n c \<longleftrightarrow> distinct (map fst (rc_resources c)) \<and> (\<forall>x \<in> set (rc_resources c). 0 < snd x) \<and> token_ok n (rc_fence_token c)
     \<and> (\<forall>k. token_ok n (rc_claims c k))
     \<and> (\<forall>k x. rc_observed c k = Some x \<longrightarrow> 0 \<le> fst x \<and> (fst x \<noteq> 0 \<longrightarrow> (snd x = None \<longleftrightarrow> is_pointer k)))"

definition tables_ok :: "card_tables \<Rightarrow> bool" where
  "tables_ok d \<longleftrightarrow> (\<forall>k r. ct_rows d k = Some r \<longrightarrow> row_ok (ct_sequence d) k r)"

definition files_ok :: "fs \<Rightarrow> bool" where
  "files_ok s \<longleftrightarrow> (\<forall>p v. fs_lookup s p = Some (Json v) \<longrightarrow> py_wf v)"

abbreviation fences :: "card_world \<Rightarrow> int" where
  "fences w \<equiv> ct_sequence (cw_tables w)"

definition typed :: "card_world \<Rightarrow> bool" where
  "typed w \<longleftrightarrow> tables_ok (cw_tables w) \<and> files_ok (cw_fs w) \<and> (\<forall>i j. context_ok (fences w) (row_op w (i, j)))"

lemma token_ok_mono: "token_ok n x \<Longrightarrow> n \<le> n' \<Longrightarrow> token_ok n' x"
  by (auto simp: token_ok_def)

lemma row_ok_mono: "row_ok n k r \<Longrightarrow> n \<le> n' \<Longrightarrow> row_ok n' k r"
  by (auto simp: row_ok_def intro: token_ok_mono)

lemma context_ok_mono: "context_ok n c \<Longrightarrow> n \<le> n' \<Longrightarrow> context_ok n' c"
  unfolding context_ok_def by (blast intro: token_ok_mono)

section \<open>Programs that keep states well-formed\<close>

definition growing :: "(card_world, unit) relation" where
  "growing \<sigma> \<tau> \<longleftrightarrow> (typed (st \<sigma>) \<longrightarrow> typed (st \<tau>)) \<and> fences (st \<sigma>) \<le> fences (st \<tau>)"

text \<open>
  Started after token \<open>n\<close> was drawn, the program keeps states well-formed, and a result \<open>x\<close> satisfies \<open>Y x s\<close> for a bound \<open>s\<close>
  on the tokens drawn so far.
\<close>

definition since :: "int \<Rightarrow> (card_world, unit) assertion" where
  "since n \<sigma> \<longleftrightarrow> typed (st \<sigma>) \<and> n \<le> fences (st \<sigma>)"

definition outcome :: "int \<Rightarrow> ('a \<Rightarrow> int \<Rightarrow> bool) \<Rightarrow> exn + 'a \<Rightarrow> (card_world, unit) assertion" where
  "outcome n Y r \<sigma> \<longleftrightarrow> since n \<sigma> \<and> (\<forall>x. r = Inr x \<longrightarrow> (\<exists>s. n \<le> s \<and> s \<le> fences (st \<sigma>) \<and> Y x s))"

definition types :: "int \<Rightarrow> 'a card_prog \<Rightarrow> ('a \<Rightarrow> int \<Rightarrow> bool) \<Rightarrow> bool" where
  "types n p Y \<longleftrightarrow> rg (\<lambda>_ _ x. x) growing growing (outcome n Y) (since n) p"

abbreviation well :: "int \<Rightarrow> 'a card_prog \<Rightarrow> bool" where
  "well n p \<equiv> types n p (\<lambda>_ _. True)"

named_theorems typing

lemma stable_growing [simp]: "stable growing (since n)" "stable growing (outcome n Y r)"
  unfolding stable_def growing_def since_def outcome_def by (force, blast intro: order_trans)

lemma types_weaken: "types n p Y \<Longrightarrow> (\<And>x s. n \<le> s \<Longrightarrow> Y x s \<Longrightarrow> Z x s) \<Longrightarrow> types n p Z"
  unfolding types_def by (erule rg_post) (unfold outcome_def, blast)

lemma types_well: "types n p Y \<Longrightarrow> well n p"
  by (erule types_weaken) simp

lemma types_Done: "(\<And>x. r = Inr x \<Longrightarrow> Y x n) \<Longrightarrow> types n (Done r) Y"
  unfolding types_def by (rule rg_done) (auto simp: outcome_def since_def)

lemma types_ret: "Y x n \<Longrightarrow> types n (retP x) Y" "types n (failP e) Y"
  by (auto intro: types_Done)

lemma outcome_since: "outcome n Y (Inr x) \<sigma> \<longleftrightarrow> (\<exists>s. (n \<le> s \<and> Y x s) \<and> since s \<sigma>)"
  by (auto simp: outcome_def since_def)

lemma outcome_mono: "outcome s Y r \<sigma> \<Longrightarrow> n \<le> s \<Longrightarrow> outcome n Y r \<sigma>"
  by (cases r) (auto simp: outcome_def since_def intro: order_trans)

lemma types_bind:
  assumes "types n p Y" "\<And>x s. n \<le> s \<Longrightarrow> Y x s \<Longrightarrow> types s (f x) Z"
  shows "types n (bindP p f) Z"
  unfolding types_def
proof (rule rg_bind [OF assms(1) [unfolded types_def]])
  fix x
  have "rg (\<lambda>_ _ x. x) growing growing (outcome n Z) (since s) (f x)" if "n \<le> s \<and> Y x s" for s
    using assms(2) [of s x] that unfolding types_def by (blast intro: rg_post outcome_mono)
  then have "rg (\<lambda>_ _ x. x) growing growing (outcome n Z) (\<lambda>\<sigma>. \<exists>s. (n \<le> s \<and> Y x s) \<and> since s \<sigma>) (f x)"
    by (intro rg_ex rg_fact)
  then show "rg (\<lambda>_ _ x. x) growing growing (outcome n Z) (outcome n Y (Inr x)) (f x)" by (simp add: outcome_since [abs_def])
qed (simp add: outcome_def)

lemma types_catch:
  assumes "types n p Y" "\<And>e. types n (h e) Y"
  shows "types n (catchP p h) Y"
  unfolding types_def
  by (rule rg_catch [OF assms(1) [unfolded types_def]], rule rg_pre [OF assms(2) [unfolded types_def]]) (simp_all add: outcome_def)

lemma types_finally:
  assumes "types n p Y" "\<And>s. n \<le> s \<Longrightarrow> well s q"
  shows "types n (finallyP p q) Y"
  unfolding types_def
proof (rule rg_finally [OF assms(1) [unfolded types_def]])
  fix r
  show "rg (\<lambda>_ _ x. x) growing growing (\<lambda>r' \<sigma>. case r' of Inl e \<Rightarrow> outcome n Y (Inl e) \<sigma> | Inr _ \<Rightarrow> outcome n Y r \<sigma>) (outcome n Y r) q"
  proof (cases r)
    case (Inl e)
    show ?thesis by (rule rg_post, rule rg_pre [OF assms(2) [of n, unfolded types_def]]) (auto simp: outcome_def Inl split: sum.splits)
  next
    case (Inr x)
    have "rg (\<lambda>_ _ x. x) growing growing (\<lambda>r' \<sigma>. case r' of Inl e \<Rightarrow> outcome n Y (Inl e) \<sigma> | Inr _ \<Rightarrow> outcome n Y r \<sigma>) (since s) q"
      if "n \<le> s \<and> Y x s" for s
      using assms(2) [of s, unfolded types_def] by (rule rg_post) (use that in \<open>auto simp: outcome_def since_def Inr split: sum.splits\<close>)
    then show ?thesis unfolding Inr by (simp add: outcome_since [abs_def]) (intro rg_ex rg_fact; simp)
  qed
qed simp

lemma types_lift: "(\<And>x. r = Inr x \<Longrightarrow> Y x n) \<Longrightarrow> types n (liftP r) Y"
  by (auto intro: types_Done)

lemma types_atomic:
  assumes "\<And>w. typed w \<Longrightarrow> n \<le> fences w \<Longrightarrow> typed (fst (m w)) \<and> fences w \<le> fences (fst (m w)) \<and> (\<forall>x. snd (m w) = Inr x \<longrightarrow> Y x (fences (fst (m w))))"
  shows "types n (atomicP m) Y"
  unfolding types_def
proof (rule rg_atomic)
  fix \<sigma> assume "since n \<sigma>"
  then have "typed (st \<sigma>)" "n \<le> fences (st \<sigma>)" by (simp_all add: since_def)
  note m = assms [OF this]
  then show "growing \<sigma> (noted (\<lambda>_ _ x. x) \<sigma> (fst (m (st \<sigma>)))) \<and> outcome n Y (snd (m (st \<sigma>))) (noted (\<lambda>_ _ x. x) \<sigma> (fst (m (st \<sigma>))))"
    using \<open>n \<le> fences (st \<sigma>)\<close> by (cases "snd (m (st \<sigma>))") (auto simp: growing_def outcome_def since_def noted_def intro: order_trans)
qed simp_all

lemma types_option: "types n p Y \<Longrightarrow> (\<And>x. v = Some x \<Longrightarrow> types n (q x) Y) \<Longrightarrow> types n (case v of None \<Rightarrow> p | Some x \<Rightarrow> q x) Y"
  by (cases v) auto

lemma types_pair: "(\<And>x y. v = (x, y) \<Longrightarrow> types n (q x y) Y) \<Longrightarrow> types n (case v of (x, y) \<Rightarrow> q x y) Y"
  by (cases v) auto

lemma types_if: "(C \<Longrightarrow> types n p Y) \<Longrightarrow> (\<not> C \<Longrightarrow> types n q Y) \<Longrightarrow> types n (if C then p else q) Y"
  by simp

lemma types_then: "well n p \<Longrightarrow> (\<And>x s. n \<le> s \<Longrightarrow> types s (f x) Z) \<Longrightarrow> types n (bindP p f) Z"
  by (erule types_bind)

lemma types_undo: "types n p Y \<Longrightarrow> (\<And>s. well s q) \<Longrightarrow> types n (undoP p q) Y"
  unfolding undoP_def by (intro types_catch types_then types_ret)

lemma typed_core:
  assumes "core w' = core w"
  shows "typed w' = typed w" "fences w' = fences w"
proof -
  have "cw_fs w' = cw_fs w" "cw_tables w' = cw_tables w" "cw_row_ops w' = cw_row_ops w" using assms by (simp_all add: core_def)
  then show "typed w' = typed w" "fences w' = fences w" by (simp_all add: typed_def row_op_def)
qed

lemma types_aside:
  assumes "aside p" "yields (\<lambda>_. True) p Q"
  shows "types n p (\<lambda>x _. Q x)"
  using assms
proof (induction p rule: prog_induct)
  case (Done r)
  then show ?case by (auto intro: types_Done)
next
  case (Step g)
  have g: "core (fst (g s)) = core s" "types n (snd (g s)) (\<lambda>x _. Q x)" for s
    using Step(1) [of s] Step(2,3) by (auto simp: leaves_Step elim: yields_stepE)
  show ?case unfolding types_def
  proof (rule rg.rg_step)
    fix \<sigma> assume "since n \<sigma>"
    then show "growing \<sigma> (noted (\<lambda>_ _ x. x) \<sigma> (fst (g (st \<sigma>)))) \<and> (\<exists>P'. P' (noted (\<lambda>_ _ x. x) \<sigma> (fst (g (st \<sigma>)))) \<and>
        rg (\<lambda>_ _ x. x) growing growing (outcome n (\<lambda>x _. Q x)) P' (snd (g (st \<sigma>))))"
      using g(2) [of "st \<sigma>"] unfolding types_def
      by (intro conjI exI [of _ "since n"]) (auto simp: growing_def since_def noted_def typed_core [OF g(1)])
  qed simp
qed

lemma well_aside: "aside p \<Longrightarrow> well n p"
  using types_aside [OF _ yields_True] .

section \<open>Sections\<close>

definition section_well :: "('v \<times> unit card_prog) card_prog \<Rightarrow> bool" where
  "section_well p \<longleftrightarrow> (\<forall>n. types n p (\<lambda>(_, leave) _. \<forall>s. well s leave))"

lemma section_well_aside: "section_aside p \<Longrightarrow> section_well p"
  unfolding section_well_def section_leaves_def
  by (auto intro!: types_weaken [OF types_aside] well_aside)

lemma section_well_section:
  assumes "section_well p" "\<And>n. well n q"
  shows "section_well (sectionP p q)"
  unfolding section_well_def sectionP_def
proof
  fix n
  have "types n (undoP p q) (\<lambda>(_, leave) _. \<forall>s. well s leave)"
    using assms by (intro types_undo) (auto simp: section_well_def)
  then show "types n (bindP (undoP p q) (\<lambda>(v, leave). retP (v, finallyP leave q))) (\<lambda>(_, leave) _. \<forall>s. well s leave)"
    by (rule types_bind) (auto simp del: prog_simps intro!: types_ret types_finally assms(2))
qed

lemma well_with_lock:
  assumes "section_well (lock t call)" "\<And>n v. well n (body v)"
  shows "well n (with_lock lock t call body)"
  unfolding with_lock_def
  by (rule types_bind [OF assms(1) [unfolded section_well_def, rule_format]]) (auto simp del: prog_simps intro!: types_finally assms(2))

section \<open>Tables, files and contexts\<close>

lemma typed_tables: "typed w \<Longrightarrow> tables_ok d \<Longrightarrow> fences w \<le> ct_sequence d \<Longrightarrow> typed (w\<lparr>cw_tables := d\<rparr>)"
  by (auto simp: typed_def intro: context_ok_mono)

lemma types_sql:
  assumes "\<And>d. tables_ok d \<Longrightarrow> n \<le> ct_sequence d \<Longrightarrow> tables_ok (fst (g d)) \<and> ct_sequence d \<le> ct_sequence (fst (g d)) \<and> Y (snd (g d)) (ct_sequence (fst (g d)))"
  shows "types n (call_sql g) Y"
proof -
  let ?d = "\<lambda>w. (cw_tables w)\<lparr>ct_ops := Suc (ct_ops (cw_tables w))\<rparr>"
  have "typed (w\<lparr>cw_tables := ?d w\<rparr>) \<and> typed (w\<lparr>cw_tables := fst (g (?d w))\<rparr>) \<and> fences w \<le> ct_sequence (fst (g (?d w)))
      \<and> Y (snd (g (?d w))) (ct_sequence (fst (g (?d w))))" if w: "typed w" "n \<le> fences w" for w
  proof -
    have "tables_ok (?d w)" "n \<le> ct_sequence (?d w)" using w by (simp_all add: typed_def tables_ok_def)
    then show ?thesis using assms [of "?d w"] by (auto intro!: typed_tables [OF w(1)])
  qed
  then show ?thesis unfolding call_sql_def Let_def by (intro types_atomic) (auto split: reply_fault.split)
qed

lemma py_wf_reread: "py_wf (reread v)" "\<forall>v \<in> set (reread_list vs). py_wf v" "\<forall>kv \<in> set (reread_items d). py_wf (snd kv)"
proof (induction v and vs and d rule: reread_reread_list_reread_items.induct)
  case (4 d)
  have set: "set (sort_items es) \<subseteq> set es" for es :: "(pyval \<times> pyval) list"
    by (auto simp: sort_items_def sort_entries_def bindE_eq_Inr split: sum.splits if_splits)
  have "distinct (map fst al) \<Longrightarrow> (\<forall>kv \<in> set al. py_wf (snd kv)) \<Longrightarrow> (\<forall>kv \<in> set es. py_wf (snd kv)) \<Longrightarrow>
      py_wf (PDict (fold (\<lambda>(k, v). dict_set (PStr (f k)) v) es al))" for f al and es :: "(pyval \<times> pyval) list"
  proof (induction es arbitrary: al)
    case (Cons e es)
    show ?case using Cons(1) [of "dict_set (PStr (f (fst e))) (snd e) al"] Cons(2-) distinct_dict_set set_dict_set
      by (fastforce simp: split_def simp del: py_wf.simps(3))
  qed simp
  then show ?case using set [of "reread_items d"] 4 by (simp only: reread.simps) (metis distinct.simps(1) empty_iff empty_set list.map(1) subsetD)
qed auto

lemma types_files:
  assumes "\<And>s. files_ok s \<Longrightarrow> files_ok (fst (m s)) \<and> (\<forall>x. snd (m s) = Inr x \<longrightarrow> Y x)"
  shows "types n (on_card_files m) (\<lambda>x _. Y x)"
  unfolding on_card_files_def
  by (rule types_atomic) (use assms in \<open>auto simp: typed_def split_def\<close>)

lemma well_files:
  "types n (on_card_files (read_json_or_none p)) (\<lambda>x _. \<forall>v. x = Some v \<longrightarrow> py_wf v)"
  "well n (on_card_files (write_json_atomic p v))" "well n (unlink_file p)"
  unfolding unlink_file_def
  by (rule types_files; auto simp: read_json_or_none_def write_json_atomic_def unlink_def files_ok_def fs_effects parsed_def py_wf_reread
      split: option.splits stored_file.splits sum.splits fault.splits if_splits)+

lemma typed_row_op: "typed w \<Longrightarrow> context_ok (fences w) (row_op w a)"
  by (cases a) (simp add: typed_def)

lemma set_row_op_tables: "cw_tables (set_row_op a c w) = cw_tables w"
  by (simp add: set_row_op_def)

lemma typed_set_row_op: "typed w \<Longrightarrow> context_ok (fences w) c \<Longrightarrow> typed (set_row_op a c w)"
  by (auto simp: typed_def set_row_op_def [of a c w] row_op_def put_object_def)

lemma types_get:
  assumes "\<And>x s. none = Inr x \<Longrightarrow> n \<le> s \<Longrightarrow> Y x s" "\<And>c x s. n \<le> s \<Longrightarrow> context_ok s c \<Longrightarrow> g c = Inr x \<Longrightarrow> Y x s"
  shows "types n (session_get t none g) Y"
  unfolding session_get_def
  by (rule types_atomic) (auto simp: check_open_def intro: assms(1) assms(2) [OF _ typed_row_op] split: option.splits if_splits)

lemma well_put: "(\<And>c s. n \<le> s \<Longrightarrow> context_ok s c \<Longrightarrow> context_ok s (g c)) \<Longrightarrow> well n (session_put t none g)"
  unfolding session_put_def
  by (rule types_atomic) (auto simp: set_row_op_tables intro!: typed_set_row_op typed_row_op split: option.splits)

lemma well_on_row_op: "(\<And>c s. context_ok s c \<Longrightarrow> context_ok s (g c)) \<Longrightarrow> well n (on_row_op a g)"
  unfolding on_row_op_def alter_def
  by (rule types_atomic) (auto simp: set_row_op_tables intro!: typed_set_row_op typed_row_op)

lemma context_ok_resources:
  "context_ok n c \<Longrightarrow> context_ok n (add_resource r c)" "context_ok n c \<Longrightarrow> context_ok n (drop_resource r c)" "context_ok n (c\<lparr>rc_closed := b\<rparr>) = context_ok n c"
proof -
  assume c: "context_ok n c"
  show "context_ok n (add_resource r c)" using c by (auto simp: add_resource_def context_ok_def token_ok_def distinct_dict_set dest: set_dict_set)
  have pop: "distinct (map fst (dict_pop r al))" if "distinct (map fst al)" for al :: "(pystr \<times> nat) list"
    using that by (induction al) (auto simp: dict_pop_def)
  show "context_ok n (drop_resource r c)"
    using c pop by (auto simp: drop_resource_def Let_def context_ok_def distinct_dict_set dict_pop_def dest: set_dict_set)
next
  show "context_ok n (c\<lparr>rc_closed := b\<rparr>) = context_ok n c" by (simp add: context_ok_def)
qed

lemma context_ok_fresh: "context_ok n fresh_row_context"
  by (simp add: context_ok_def fresh_row_context_def token_ok_def)

lemma well_contexts: "well n (open_row_context t)" "well n (close_row_context t a token)"
proof -
  have new: "typed (w\<lparr>cw_row_ops := (cw_row_ops w)(t := new_object t fresh_row_context (cw_row_ops w t))\<rparr>)" if "typed w" for w
    using that by (auto simp: typed_def row_op_def new_object_def put_object_def context_ok_fresh)
  show "well n (open_row_context t)"
    unfolding open_row_context_def by (rule types_atomic) (auto simp: Let_def new split: option.split)
  have var: "typed (set_row_var t x w) = typed w" for x w by (auto simp: typed_def row_op_def set_row_var_def)
  show "well n (close_row_context t a token)"
    unfolding close_row_context_def alter_def
    by (intro types_option types_ret types_atomic TrueI)
      (auto simp: var context_ok_resources intro!: typed_set_row_op typed_row_op, simp add: set_row_var_def set_row_op_def)
qed

lemma section_well_row_fenced:
  assumes "host_file_lock base_lock"
  shows "section_well (row_fenced_lock base_lock t call)"
proof -
  have base: "types n (base_lock t call) (\<lambda>(_, leave) _. \<forall>s. well s leave)" for n
    using section_well_aside [of "base_lock t call"] assms by (simp add: host_file_lock_def section_well_def)
  have inside: "section_well (bindP (base_lock t call) (\<lambda>(held, leave). bindP (on_row_op a (add_resource r)) (\<lambda>_.
      retP (held, finallyP (on_row_op a (drop_resource r)) leave))))" for a r
    unfolding section_well_def
    by (intro allI types_bind [OF base]) (auto simp del: prog_simps intro!: types_then types_ret types_finally well_on_row_op context_ok_resources)
  show ?thesis
    unfolding row_fenced_lock_def section_well_def
    by (intro allI types_then well_contexts types_pair section_well_section [unfolded section_well_def, rule_format] inside [unfolded section_well_def, rule_format])
qed

section \<open>Statements\<close>

lemma tables_ok_put: "tables_ok d \<Longrightarrow> (\<And>r. x = Some r \<Longrightarrow> row_ok (ct_sequence d) k r) \<Longrightarrow> tables_ok (put_row k x d)"
  by (auto simp: tables_ok_def put_row_def)

lemma put_row_sequence [simp]: "ct_sequence (put_row k x d) = ct_sequence d"
  by (simp add: put_row_def)

lemma encoded_ok:
  assumes "encode_document document (document_limit k) = Inr b" "py_wf document"
  shows "2 \<le> length b" "length b \<le> document_limit k" "\<exists>d. parse_canonical_json_bytes b = Inr (PDict d)"
proof -
  from assms(1) obtain d where d: "document = PDict d" "canonical_json_bytes document = Inr b" "2 \<le> length b" "length b \<le> document_limit k"
    by (auto simp: encode_document_def split: pyval.splits if_splits)
  show "2 \<le> length b" "length b \<le> document_limit k" by fact+
  show "\<exists>d. parse_canonical_json_bytes b = Inr (PDict d)" using parse_canonical_round_trip [OF d(2) assms(2)] d(1) by simp
qed

lemma tables_ok_rows: "tables_ok d \<Longrightarrow> ct_rows d k = Some r \<Longrightarrow> row_ok (ct_sequence d) k r"
  by (simp add: tables_ok_def)

definition encoded_for :: "row_key \<Rightarrow> bytes \<Rightarrow> bool" where
  "encoded_for k b \<longleftrightarrow> 2 \<le> length b \<and> length b \<le> document_limit k \<and> (\<exists>d. parse_canonical_json_bytes b = Inr (PDict d))"

lemma types_encode:
  "py_wf document \<Longrightarrow> limit = document_limit k \<Longrightarrow> types n (liftP (encode_document document limit)) (\<lambda>b _. encoded_for k b)"
  by (rule types_lift) (simp add: encoded_for_def encoded_ok)

definition found_ok :: "row_key \<Rightarrow> card_row option \<Rightarrow> bool" where
  "found_ok k row \<longleftrightarrow> (\<forall>r. row = Some r \<longrightarrow> (\<exists>n. row_ok n k r))"

lemma types_statements:
  "types n (call_sql sql_nextval) (\<lambda>m s. m \<le> s)"
  "types n (call_sql (sql_select_row k)) (\<lambda>row _. found_ok k row)"
  "token_ok n token \<Longrightarrow> types n (call_sql (sql_claim k token)) (\<lambda>row _. found_ok k (map_option fst row))"
  "token_ok n token \<Longrightarrow> encoded_for k b \<Longrightarrow> types n (call_sql (sql_insert k b token)) (\<lambda>row _. found_ok k row)"
  "encoded_for k b \<Longrightarrow> types n (call_sql (sql_update_row k expected token' b)) (\<lambda>row _. found_ok k row)"
  "well n (call_sql (sql_delete k expected token'))"
proof -
  have "row_ok (m + 1) k r" if "row_ok m k r" for m k r using row_ok_mono [OF that, of "m + 1"] by simp
  then show "types n (call_sql sql_nextval) (\<lambda>m s. m \<le> s)"
    by (intro types_sql) (auto simp: sql_nextval_def tables_ok_def)
  show "types n (call_sql (sql_select_row k)) (\<lambda>row _. found_ok k row)"
    by (rule types_sql) (auto simp: sql_select_row_def found_ok_def dest: tables_ok_rows)
  show "types n (call_sql (sql_claim k token)) (\<lambda>row _. found_ok k (map_option fst row))" if t: "token_ok n token"
  proof (rule types_sql)
    fix d assume d: "tables_ok d" "n \<le> ct_sequence d"
    have "row_ok (ct_sequence d) k (r\<lparr>cr_fence_token := claimed_fence (cr_fence_token r) token\<rparr>)" if "ct_rows d k = Some r" for r
      using tables_ok_rows [OF d(1) that] token_ok_mono [OF t d(2)] by (auto simp: row_ok_def token_ok_def claimed_fence_def split: option.splits)
    then show "tables_ok (fst (sql_claim k token d)) \<and> ct_sequence d \<le> ct_sequence (fst (sql_claim k token d)) \<and> found_ok k (map_option fst (snd (sql_claim k token d)))"
      using d(1) by (auto simp: sql_claim_def Let_def found_ok_def intro!: tables_ok_put split: option.split)
  qed
  show "types n (call_sql (sql_insert k b token)) (\<lambda>row _. found_ok k row)" if "token_ok n token" "encoded_for k b"
  proof (rule types_sql)
    fix d assume d: "tables_ok d" "n \<le> ct_sequence d"
    have "tables_ok (d\<lparr>ct_uuids := m\<rparr>)" for m using d(1) by (simp add: tables_ok_def)
    then show "tables_ok (fst (sql_insert k b token d)) \<and> ct_sequence d \<le> ct_sequence (fst (sql_insert k b token d)) \<and> found_ok k (snd (sql_insert k b token d))"
      using d token_ok_mono [OF that(1) d(2)] that(2)
      by (auto simp: sql_insert_def Let_def found_ok_def row_ok_def encoded_for_def intro!: tables_ok_put split: option.split)
  qed
  show "types n (call_sql (sql_update_row k expected token' b)) (\<lambda>row _. found_ok k row)" if b: "encoded_for k b"
  proof (rule types_sql)
    fix d assume d: "tables_ok d"
    have "row_ok (ct_sequence d) k (r\<lparr>cr_document := b, cr_digest := (if is_pointer k then Some (sha256_hex b) else cr_digest r),
        cr_row_revision := cr_row_revision r + 1\<rparr>)" if "ct_rows d k = Some r" for r
      using tables_ok_rows [OF d that] b by (auto simp: row_ok_def encoded_for_def)
    then show "tables_ok (fst (sql_update_row k expected token' b d)) \<and> ct_sequence d \<le> ct_sequence (fst (sql_update_row k expected token' b d))
        \<and> found_ok k (snd (sql_update_row k expected token' b d))"
      using d by (auto simp: sql_update_row_def Let_def found_ok_def intro!: tables_ok_put split: option.split)
  qed
  show "well n (call_sql (sql_delete k expected token'))"
    by (rule types_sql) (auto simp: sql_delete_def put_row_def tables_ok_def split: option.split)
qed

section \<open>Row operations\<close>

lemma types_draw: "well n (draw_fence t)"
  unfolding draw_fence_def
  by (intro types_then types_get types_if types_bind [OF types_statements(1)] well_put types_ret TrueI)
    (auto simp: context_ok_def token_ok_def)

lemma types_claim_token: "types n (claim_token t) (\<lambda>token s. token_ok s token)"
  unfolding claim_token_def
  by (intro types_then types_draw types_get) (auto simp: context_ok_def)

lemma well_claimed: "token_ok n token \<Longrightarrow> well n (set_claimed t k token)"
  unfolding set_claimed_def by (rule well_put) (auto simp: context_ok_def intro: token_ok_mono)

lemma well_observe: "0 \<le> fst x \<Longrightarrow> (fst x \<noteq> 0 \<Longrightarrow> (snd x = None) = is_pointer k) \<Longrightarrow> well n (observe t k x)"
  unfolding observe_def by (rule well_put) (auto simp: context_ok_def)

lemma well_required: "well n (required_observation t k)" "well n (write_fence t k)" "well n (current_lock_session t)"
  unfolding required_observation_def write_fence_def current_lock_session_def
  by (intro types_get TrueI)+ (rule types_atomic, simp split: option.split)

lemma observation_of_ok: "row_ok n k r \<Longrightarrow> 0 \<le> fst (observation_of k r)" "row_ok n k r \<Longrightarrow> (snd (observation_of k r) = None) = is_pointer k"
  by (auto simp: row_ok_def observation_of_def)

lemma well_seen_row: "found_ok k row \<Longrightarrow> well n (seen_row t k row)"
  unfolding seen_row_def
  by (intro types_option types_then well_observe types_ret types_lift TrueI) (auto simp: found_ok_def observation_of_ok)

lemma well_written_row: "found_ok k row \<Longrightarrow> well n (written_row t k moved row)"
  unfolding written_row_def
  by (intro types_option types_then well_observe types_ret TrueI) (auto simp: found_ok_def observation_of_ok)

lemma well_read_row: "well n (read_row t k claim)"
  unfolding read_row_def
proof (intro types_then [OF well_required(3)] types_if)
  fix s
  show "well s (bindP (call_sql (sql_select_row k)) (seen_row t k))" by (rule types_bind [OF types_statements(2)]) (rule well_seen_row)
  show "well s (bindP (claim_token t) (\<lambda>token. bindP (call_sql (sql_claim k token)) (\<lambda>row.
       bindP (case row of None \<Rightarrow> retP () | Some (_, claimed) \<Rightarrow> set_claimed t k (if claimed then token else None)) (\<lambda>_.
       seen_row t k (map_option fst row)))))"
  proof (rule types_bind [OF types_claim_token])
    fix token s assume t: "token_ok s token"
    show "well s (bindP (call_sql (sql_claim k token)) (\<lambda>row.
       bindP (case row of None \<Rightarrow> retP () | Some (_, claimed) \<Rightarrow> set_claimed t k (if claimed then token else None)) (\<lambda>_.
       seen_row t k (map_option fst row))))"
      by (rule types_bind [OF types_statements(3) [OF t]], intro types_then types_option types_pair types_ret well_claimed well_seen_row TrueI)
        (use t in \<open>auto simp: token_ok_def intro: order_trans\<close>)
  qed
qed

lemma well_adopt_row:
  assumes "py_wf document" "limit = document_limit k"
  shows "well n (adopt_row t k limit document failed)"
  unfolding adopt_row_def
  by (rule types_then [OF well_required(1)], rule types_bind [OF types_encode [OF assms]], rule types_bind [OF types_claim_token],
      rule types_bind [OF types_statements(4)])
    (auto simp del: prog_simps intro!: types_then well_read_row types_option types_ret)

lemma well_write_pointer:
  assumes "py_wf document"
  shows "well n (write_pointer t sh ai document)"
proof -
  let ?k = "Pointer_Row sh ai"
  have ins: "types n (bindP (claim_token t) (\<lambda>token. bindP (call_sql (sql_insert ?k b token)) (\<lambda>row.
      if row = None then retP row else bindP (claim_token t) (\<lambda>token'. bindP (set_claimed t ?k token') (\<lambda>_. retP row))))) (\<lambda>row _. found_ok ?k row)"
    if "encoded_for ?k b" for n b
    by (rule types_bind [OF types_claim_token], rule types_bind [OF types_statements(4)], assumption, rule that)
      (auto simp del: prog_simps intro!: types_if types_ret types_bind [OF types_claim_token] types_then [OF well_claimed])
  have upd: "types n (bindP (write_fence t ?k) (\<lambda>fence. call_sql (sql_update_row ?k expected fence b))) (\<lambda>row _. found_ok ?k row)"
    if "encoded_for ?k b" for n b expected
    by (rule types_then [OF well_required(2)]) (rule types_statements(5) [OF that])
  show ?thesis
    unfolding write_pointer_def Let_def
    by (rule types_then [OF well_required(1)], rule types_bind [OF types_encode [OF assms, of _ ?k]], simp add: document_limit_def,
        rule types_bind [OF types_if [OF ins upd]]) (assumption, assumption, rule well_written_row)
qed

lemma well_write_marker:
  assumes "py_wf document"
  shows "well n (write_marker t txn document)"
proof -
  let ?k = "Marker_Row txn"
  have ins: "types n (bindP (call_sql (sql_insert ?k b token)) (\<lambda>row.
      if row = None \<or> session = None then retP row else bindP (set_claimed t ?k token) (\<lambda>_. retP row))) (\<lambda>row _. found_ok ?k row)"
    if "encoded_for ?k b" "token_ok n token" for n b token and session :: "address option"
    by (rule types_bind [OF types_statements(4)], rule that, rule that)
      (auto simp del: prog_simps intro!: types_if types_ret types_then [OF well_claimed] token_ok_mono [OF that(2)])
  have upd: "types n (bindP (write_fence t ?k) (\<lambda>fence. call_sql (sql_update_row ?k expected fence b))) (\<lambda>row _. found_ok ?k row)"
    if "encoded_for ?k b" for n b expected
    by (rule types_then [OF well_required(2)]) (rule types_statements(5) [OF that])
  have token: "types n (if session = None then retP None else claim_token t) (\<lambda>token s. token_ok s token)" for n and session :: "address option"
    by (intro types_if types_ret types_claim_token) (simp add: token_ok_def)
  show ?thesis
    unfolding write_marker_def Let_def
    by (rule types_then [OF well_required(3)], rule types_then, rule types_if, rule types_ret, simp, rule well_required(1), rule types_bind [OF token],
        rule types_bind [OF types_encode [OF assms, of _ ?k]], simp add: document_limit_def,
        rule types_bind [OF types_if [OF ins upd]]) (assumption | erule token_ok_mono | rule well_written_row)+
qed

lemma well_delete_marker: "well n (delete_marker t txn)"
  unfolding delete_marker_def Let_def
  by (intro types_then well_required types_if types_ret types_statements well_observe TrueI) auto

section \<open>Store operations\<close>

lemmas well_guards = aside_guards [THEN well_aside]

lemma well_guarded: "well n (unlink_guarded_async t p)" "well n (write_json_guarded t p v)" "well n (guard_row t p)"
  unfolding unlink_guarded_async_def write_json_guarded_def guard_row_def by (intro types_then well_guards well_files types_draw)+

lemma well_adopt: "py_wf h \<Longrightarrow> well n (adopt_pointer t sh ai h)" "py_wf h \<Longrightarrow> well n (adopt_marker t txn h)"
  unfolding adopt_pointer_def adopt_marker_def by (rule well_adopt_row; simp add: document_limit_def)+

lemma well_read_pointer_document: "well n (read_pointer_document rows t sh ai)"
  unfolding read_pointer_document_def read_pointer_def session_holds_def
  by (intro types_then types_lift types_if types_well [OF well_files(1)] types_get well_guarded types_ret well_read_row types_option types_pair
      types_bind [OF well_files(1)] well_adopt TrueI) auto

lemma well_read_marker_document: "well n (read_marker_document rows t txn)"
  unfolding read_marker_document_def Let_def read_marker_def
  by (intro types_then types_if types_well [OF well_files(1)] types_get well_guarded types_ret well_read_row types_option types_pair
      types_bind [OF well_files(1)] well_adopt TrueI) auto

lemma well_write_marker_document: "py_wf (PDict document) \<Longrightarrow> well n (write_marker_document rows t txn document)"
  unfolding write_marker_document_def Let_def by (intro types_then types_if well_guarded well_write_marker)

lemma well_delete_marker_document: "well n (delete_marker_document rows t txn)"
  unfolding delete_marker_document_def Let_def by (intro types_then types_if well_guarded well_delete_marker types_ret TrueI)

lemma well_reservations:
  "well n (read_reservation rows t sh ai)" "well n (read_card_version_marker rows t txn)" "well n (assert_base_available rows t sh ai txn)"
  "well n (claim_base rows t sh ai txn base)" "well n (release_base rows t sh ai txn)"
proof -
  show read: "well n (read_reservation rows t sh ai)" for n
    unfolding read_reservation_def by (intro types_then types_lift well_read_marker_document types_option types_if types_ret TrueI)
  have "well n (case raw of None \<Rightarrow> retP None | Some (PDict d) \<Rightarrow> if C d then retP (Some d) else failP e | Some _ \<Rightarrow> failP e)" for n raw C e
    by (auto intro!: types_Done split: option.split pyval.split)
  then show marker: "well n (read_card_version_marker rows t txn)" for n txn
    unfolding read_card_version_marker_def by (intro types_then types_lift well_read_marker_document TrueI)
  show "well n (assert_base_available rows t sh ai txn)"
    unfolding assert_base_available_def Let_def by (intro types_then read marker types_option types_if types_ret TrueI)
  have "py_wf (PDict (reservation_value sh ai txn base))" by (auto simp: reservation_value_def card_of_def lit_inj RESERVATION_SCHEMA_def split: option.split)
  then show "well n (claim_base rows t sh ai txn base)"
    unfolding claim_base_def Let_def by (intro types_then types_lift read types_option types_if types_ret well_write_marker_document TrueI)
  show "well n (release_base rows t sh ai txn)"
    unfolding release_base_def by (intro types_then types_lift read types_option types_if types_ret well_delete_marker_document TrueI)
qed

lemma well_write_pointer_document:
  assumes "\<And>v. document = Some v \<Longrightarrow> py_wf v"
  shows "well n (write_pointer_document rows t sh ai document txn)"
proof -
  have "py_wf (case document of None \<Rightarrow> ABSENT_POINTER | Some v \<Rightarrow> v)" using assms by (auto simp: ABSENT_POINTER_def obj_def split: option.split)
  then show ?thesis
    unfolding write_pointer_document_def
    by (intro types_then types_lift well_reservations types_if well_guarded well_write_pointer types_ret types_option TrueI)
qed

section \<open>Any tasks\<close>

text \<open>
  The programs of a task that are made of the store operations, of sections of its mutation lock, and of handlers; what a program
  does next may depend on what it read.
\<close>

inductive card_work :: "bool \<Rightarrow> 'v card_lock \<Rightarrow> nat \<Rightarrow> unit card_prog \<Rightarrow> bool" for rows lock t where
  work_done: "card_work rows lock t (Done r)"
| work_section: "(\<And>v. card_work rows lock t (body v)) \<Longrightarrow> (\<And>x. card_work rows lock t (p x)) \<Longrightarrow>
    card_work rows lock t (bindP (with_lock lock t call body) p)"
| work_read_pointer: "(\<And>d. card_work rows lock t (p d)) \<Longrightarrow> card_work rows lock t (bindP (read_pointer_document rows t sh ai) p)"
| work_write_pointer: "(\<And>v. document = Some v \<Longrightarrow> py_wf v) \<Longrightarrow> (\<And>x. card_work rows lock t (p x)) \<Longrightarrow>
    card_work rows lock t (bindP (write_pointer_document rows t sh ai document txn) p)"
| work_read_marker: "(\<And>d. card_work rows lock t (p d)) \<Longrightarrow> card_work rows lock t (bindP (read_marker_document rows t txn) p)"
| work_write_marker: "py_wf (PDict d) \<Longrightarrow> (\<And>x. card_work rows lock t (p x)) \<Longrightarrow> card_work rows lock t (bindP (write_marker_document rows t txn d) p)"
| work_delete_marker: "(\<And>x. card_work rows lock t (p x)) \<Longrightarrow> card_work rows lock t (bindP (delete_marker_document rows t txn) p)"
| work_claim_base: "(\<And>x. card_work rows lock t (p x)) \<Longrightarrow> card_work rows lock t (bindP (claim_base rows t sh ai txn base) p)"
| work_release_base: "(\<And>x. card_work rows lock t (p x)) \<Longrightarrow> card_work rows lock t (bindP (release_base rows t sh ai txn) p)"
| work_handler: "card_work rows lock t p \<Longrightarrow> (\<And>e. card_work rows lock t (h e)) \<Longrightarrow> card_work rows lock t (catchP p h)"

lemma well_work:
  assumes "card_work rows lock t p" "\<And>call. section_well (lock t call)"
  shows "well n p"
  using assms(1)
proof (induction arbitrary: n rule: card_work.induct)
  case (work_handler p h)
  show ?case by (intro types_catch work_handler)
qed (intro types_Done types_then well_with_lock assms(2) well_read_pointer_document well_write_pointer_document well_read_marker_document
    well_write_marker_document well_delete_marker_document well_reservations TrueI; blast)+

lemma run_tasks_typed:
  assumes "run_tasks es ps w = (w', ps')" "\<And>i. card_work (rows i) (lock i) i (ps i)" "\<And>i call. section_well (lock i i call)" "typed w"
    "\<And>f w. Env f \<in> set es \<Longrightarrow> core (f w) = core w"
  shows "typed w'"
proof -
  have "\<exists>x'. typed (st (At w' x')) \<and> (\<forall>i. ensures (\<lambda>_ _ x. x) growing growing (outcome (fences w) (\<lambda>_ _. True)) (ps' i) (At w' x'))"
  proof (rule run_tasks_rg [where I = "\<lambda>\<sigma>. typed (st \<sigma>)" and x = "()" and u = "\<lambda>_ _ _ x. x" and R = "\<lambda>_. growing" and G = "\<lambda>_. growing", OF assms(1)])
    show "ensures (\<lambda>_ _ x. x) growing growing (outcome (fences w) (\<lambda>_ _. True)) (ps i) (At w ())" for i
      by (rule ensuresI [OF well_work [OF assms(2,3), unfolded types_def]]) (simp add: since_def assms(4))
    show "typed (st (At (f s) x))" if "Env f \<in> set es" "typed (st (At s x))" for f s and x :: unit
      using that typed_core [OF assms(5) [OF that(1)]] by simp
    show "growing (At s x) (At (f s) x)" if "Env f \<in> set es" for f s and x :: unit
      using typed_core [OF assms(5) [OF that]] by (simp add: growing_def)
  qed (use assms(4) in \<open>auto simp: growing_def\<close>)
  then show ?thesis by simp
qed

text \<open>Both locks the hub makes.\<close>

definition hub_lock :: "'v card_lock \<Rightarrow> observed_lock \<Rightarrow> 'v card_lock \<Rightarrow> bool" where
  "hub_lock base_lock observed_lock lock \<longleftrightarrow> (\<exists>root. hub_card_mutation_lock base_lock root = Inr lock)
     \<or> (\<exists>cfg make_metadata token_hex root. hub_redis_card_mutation_lock cfg observed_lock make_metadata token_hex base_lock root = Inr lock)"

lemma hub_lock_shape:
  assumes "hub_lock base_lock observed_lock lock" "host_file_lock base_lock" "host_redis_lock observed_lock"
  obtains inner where "lock = row_fenced_lock inner" "host_file_lock inner"
proof -
  have local: "host_file_lock (local_lock root base_lock)" for root using assms(2) by (rule aside_local_lock)
  from assms(1) consider root where "lock = row_fenced_lock (proc_only_lock (local_lock root base_lock))"
    | cfg make_metadata token_hex root where "lock = row_fenced_lock (proc_only_lock (redis_lock cfg observed_lock make_metadata token_hex (local_lock root base_lock)))"
    by (auto simp: hub_lock_def hub_card_mutation_lock_def hub_redis_card_mutation_lock_def container_local_lock_def redis_card_mutation_lock_def
        split: if_splits option.splits)
  then show ?thesis using that aside_proc_only local aside_redis_lock [OF local assms(3)] by cases blast+
qed

text \<open>
  C6. Whatever tasks run interleaved, each of them any program made of sections of a mutation lock of the hub (over the local lock or over
  Redis), of the operations on pointers, markers and reservations, and of handlers, and whatever operations of Redis,
  of the database and of the files fail: if the state is well-formed at the start, so it is at every moment. A row
  always has a positive revision, a document that reads as a canonical JSON object within the size limit of its
  table, the digest of that document, and a fence token that the sequence has given out; a row context counts every
  resource once and positively, and its tokens, claims and observations are ones the rows can have.
\<close>

theorem card_state_stays_typed:
  assumes "host_file_lock base_lock" "host_redis_lock observed_lock" "\<And>i. hub_lock base_lock observed_lock (lock i)"
    and "\<And>i. card_work (rows i) (lock i) i (ps i)" "\<And>f w. Env f \<in> set es \<Longrightarrow> core (f w) = core w" "typed w"
    and "run_tasks es ps w = (w', ps')"
  shows "typed w'"
proof (rule run_tasks_typed [where lock = lock and rows = rows, OF assms(7)])
  show "section_well (lock i i call)" for i call
    using hub_lock_shape [OF assms(3,1,2), of i] section_well_row_fenced by metis
qed (use assms(4-6) in blast)+

definition sample_work :: "nat \<Rightarrow> unit card_prog" where
  "sample_work i = (if i < 2 then with_lock sample_lock i sample_call (\<lambda>_. bindP (read_pointer_document True i sample_subject sample_card)
     (\<lambda>_. write_pointer_document True i sample_subject sample_card (Some (PDict [])) [])) else retP ())"

theorem card_state_stays_typed_witness: "typed (fst (run_tasks (map Run (concat (replicate 40 [0, 1]))) sample_work (sample_world None)))"
proof -
  obtain w ps where run: "run_tasks (map Run (concat (replicate 40 [0, 1]))) sample_work (sample_world None) = (w, ps)" by fastforce
  have "typed w"
  proof (rule card_state_stays_typed [OF sample_host, where lock = "\<lambda>_. sample_lock" and rows = "\<lambda>_. True", OF _ _ _ _ run])
    show "hub_lock sample_file_lock sample_redis_lock sample_lock" using sample_hub_lock unfolding hub_lock_def by blast
    have plain: "bindP p (\<lambda>_. Done (Inr ())) = p" for p :: "unit card_prog"
    proof (induction p rule: prog_induct)
      case (Done r)
      then show ?case by (cases r) simp_all
    qed (simp add: fun_eq_iff map_prod_def split_def)
    have writing: "card_work True sample_lock i (write_pointer_document True i sample_subject sample_card (Some (PDict [])) [])" for i
      using work_write_pointer [of "Some (PDict [])" True sample_lock i "\<lambda>x. Done (Inr x)"] by (simp add: plain work_done)
    have "card_work True sample_lock i (bindP (read_pointer_document True i sample_subject sample_card)
        (\<lambda>_. write_pointer_document True i sample_subject sample_card (Some (PDict [])) []))" for i
      by (rule work_read_pointer) (rule writing)
    then show "card_work True sample_lock i (sample_work i)" for i
      using work_section [of True sample_lock i "\<lambda>_. bindP (read_pointer_document True i sample_subject sample_card)
        (\<lambda>_. write_pointer_document True i sample_subject sample_card (Some (PDict [])) [])" "\<lambda>x. Done (Inr x)" sample_call]
      by (simp add: sample_work_def plain work_done)
    show "typed (sample_world None)"
      by (simp add: typed_def sample_world_def tables_ok_def files_ok_def fs_lookup_def row_op_def context_ok_fresh)
  qed auto
  then show ?thesis unfolding run by simp
qed

end
