(* ===== verification/Card_Fences.thy ===== *)
theory Card_Fences
  imports Card_Updates
begin

text \<open>
  The fence tokens of the card rows: once an operation has claimed a row, operations with older tokens can neither take the
  claim back nor write, and the claimant's own write goes through.
\<close>

section \<open>A claimed row\<close>

definition older :: "int \<Rightarrow> row_key \<Rightarrow> row_context \<Rightarrow> bool" where
  "older n k c \<longleftrightarrow> (\<exists>m. rc_fence_token c = Some m \<and> m < n) \<and> (\<forall>m. rc_claims c k = Some m \<longrightarrow> m < n)"

text \<open>Row \<open>k\<close> is as task \<open>b\<close> claimed it with token \<open>n\<close>; every other task works on a context of its own, with an older token.\<close>

definition claimed :: "nat \<Rightarrow> int \<Rightarrow> row_key \<Rightarrow> card_row \<Rightarrow> row_context task_objects \<Rightarrow> (nat \<Rightarrow> reply_fault) \<Rightarrow> card_world \<Rightarrow> bool" where
  "claimed b n k r ob flt w \<longleftrightarrow> ct_rows (cw_tables w) k = Some r \<and> cr_fence_token r = Some n \<and> cw_row_ops w b = ob
     \<and> ct_fault (cw_tables w) = flt \<and> (\<forall>i. i \<noteq> b \<longrightarrow> own i w \<and> (\<forall>a. to_var (cw_row_ops w i) = Some a \<longrightarrow> older n k (row_op w a)))"

abbreviation stays :: "('s \<Rightarrow> bool) \<Rightarrow> ('s, 'a) prog \<Rightarrow> bool" where
  "stays I \<equiv> leaves I (\<lambda>_. ())"

lemma run_tasks_stays:
  assumes "run_tasks es ps w = (w', ps')" "\<And>i. stays I (ps i)" "I w" "\<And>f w. Env f \<in> set es \<Longrightarrow> I w \<Longrightarrow> I (f w)"
  shows "I w' \<and> (\<forall>i. yields I (ps i) (Q i) \<longrightarrow> yields I (ps' i) (Q i))"
  using assms
proof (induction es ps w rule: run_tasks.induct)
  case (2 j es ps w)
  obtain v p where v: "stepP (ps j) w = (v, p)" by fastforce
  have p: "stays I p \<and> I v \<and> (yields I (ps j) (Q j) \<longrightarrow> yields I p (Q j))"
  proof (cases "ps j")
    case (Step g)
    then have "yields I p (Q j)" if "yields I (ps j) (Q j)"
      using that v 2(4) by (metis snd_conv stepP.simps(2) yields_stepE)
    then show ?thesis using v 2(3) [of j] 2(4) Step by (auto simp: leaves_Step)
  qed (use v 2(3) [of j] 2(4) in auto)
  have "stays I ((ps(j := p)) i)" for i using p 2(3) by simp
  then have IH: "I w' \<and> (\<forall>i. yields I ((ps(j := p)) i) (Q i) \<longrightarrow> yields I (ps' i) (Q i))"
    using 2(1) [OF v [symmetric]] 2(2,5) v p by (simp del: fun_upd_apply)
  have "yields I (ps' i) (Q i)" if "yields I (ps i) (Q i)" for i using IH p that by (cases "i = j") auto
  then show ?case using IH by simp
qed auto

lemma claimed_parts:
  "claimed b n k r ob flt w \<Longrightarrow> core w' = core w \<Longrightarrow> claimed b n k r ob flt w'"
  "claimed b n k r ob flt w \<Longrightarrow> claimed b n k r ob flt (w\<lparr>cw_fs := s\<rparr>)"
  "claimed b n k r ob flt w \<Longrightarrow> ct_rows d k = Some r \<Longrightarrow> ct_fault d = flt \<Longrightarrow> claimed b n k r ob flt (w\<lparr>cw_tables := d\<rparr>)"
proof -
  assume c: "claimed b n k r ob flt w"
  show "claimed b n k r ob flt w'" if "core w' = core w"
  proof -
    have "cw_tables w' = cw_tables w" "cw_row_ops w' = cw_row_ops w" using that by (simp_all add: core_def)
    then show ?thesis using c by (simp add: claimed_def own_def row_op_def)
  qed
qed (simp_all add: claimed_def)

lemma aside_stays: "aside p \<Longrightarrow> stays (claimed b n k r ob flt) p"
  by (erule leaves_mono) (use claimed_parts(1) in fastforce)

lemmas stays_guards [frames] = aside_guards [THEN aside_stays]

lemma stays_files [frames]: "stays (claimed b n k r ob flt) (on_card_files m)"
  unfolding on_card_files_def by (rule leaves_atomic) (simp add: claimed_parts split_def)

lemma stays_sql:
  "(\<And>d. ct_rows d k = Some r \<Longrightarrow> ct_rows (fst (g d)) k = Some r) \<Longrightarrow> (\<And>d. ct_fault (fst (g d)) = ct_fault d) \<Longrightarrow> stays (claimed b n k r ob flt) (call_sql g)"
  unfolding call_sql_def
  by (rule leaves_atomic) (auto simp: Let_def claimed_def split: reply_fault.split)

lemma claimed_older: "claimed b n k r ob flt w \<Longrightarrow> i \<noteq> b \<Longrightarrow> to_var (cw_row_ops w i) = Some a \<Longrightarrow> older n k (row_op w a)"
  unfolding claimed_def by blast

lemma stays_put:
  assumes "i \<noteq> b" "\<And>c. older n k c \<Longrightarrow> older n k (g c)"
  shows "stays (claimed b n k r ob flt) (session_put i none g)"
  unfolding session_put_def
proof (rule leaves_atomic, rule conjI)
  fix w assume c: "claimed b n k r ob flt w"
  have "claimed b n k r ob flt (set_row_op a (g (row_op w a)) w)" if "to_var (cw_row_ops w i) = Some a" for a
  proof -
    have a: "fst a = i" "older n k (row_op w a)" using c assms(1) that unfolding claimed_def own_def by blast+
    have "older n k (row_op (set_row_op a (g (row_op w a)) w) a')" if "j \<noteq> b" "to_var (cw_row_ops w j) = Some a'" for j a'
      using claimed_older [OF c that] a(2) assms(2) by auto
    moreover have "to_var (cw_row_ops (set_row_op a x w) j) = to_var (cw_row_ops w j)" for j x by (simp add: set_row_op_def put_object_def)
    moreover have "cw_row_ops (set_row_op a x w) b = cw_row_ops w b" "cw_tables (set_row_op a x w) = cw_tables w" for x
      using a(1) assms(1) by (simp_all add: set_row_op_def)
    ultimately show ?thesis using c by (simp add: claimed_def)
  qed
  then show "claimed b n k r ob flt (fst (case to_var (cw_row_ops w i) of None \<Rightarrow> (w, none)
      | Some a \<Rightarrow> if rc_closed (row_op w a) then (w, Inl (CardStorageError ''card_lock_session_closed'')) else (set_row_op a (g (row_op w a)) w, Inr ())))"
    using c by (auto split: option.split)
qed simp

lemma sql_keeps_fault [simp]:
  "ct_fault (fst (sql_select_row k d)) = ct_fault d" "ct_fault (fst (sql_claim k token d)) = ct_fault d" "ct_fault (fst (sql_insert k document token d)) = ct_fault d"
  "ct_fault (fst (sql_update_row k x token document d)) = ct_fault d" "ct_fault (fst (sql_nextval d)) = ct_fault d"
  by (simp_all add: sql_select_row_def sql_claim_def sql_insert_def sql_update_row_def sql_nextval_def put_row_def Let_def split: option.split)

section \<open>Operations with an older token\<close>

lemma yields_session_get:
  assumes "\<And>x. none = Inr x \<Longrightarrow> Y x" "\<And>c x. older n k c \<Longrightarrow> g c = Inr x \<Longrightarrow> Y x" "i \<noteq> b"
  shows "yields (claimed b n k r ob flt) (session_get i none g) Y"
  unfolding session_get_def atomicP_def
proof (rule yields_step)
  fix w assume c: "claimed b n k r ob flt w"
  show "yields (claimed b n k r ob flt) (snd (case (w, case to_var (cw_row_ops w i) of None \<Rightarrow> none | Some a \<Rightarrow> bindE (check_open (row_op w a)) (\<lambda>_. g (row_op w a)))
      of (s', r) \<Rightarrow> (s', Done r))) Y"
    using assms claimed_older [OF c assms(3)] by (cases "to_var (cw_row_ops w i)") auto
qed

lemma older_draw:
  assumes "i \<noteq> b"
  shows "stays (claimed b n k r ob flt) (draw_fence i)"
proof -
  have "yields (claimed b n k r ob flt) (session_get i (Inr False) (\<lambda>c. Inr (rc_fence_token c = None))) (\<lambda>wanted. \<not> wanted)"
    by (rule yields_session_get) (auto simp: older_def assms)
  then show ?thesis unfolding draw_fence_def by (rule leaves_bind [OF beside_get]) simp
qed

lemma older_claim_token:
  assumes "i \<noteq> b"
  shows "stays (claimed b n k r ob flt) (claim_token i)" "yields (claimed b n k r ob flt) (claim_token i) (\<lambda>token. \<exists>m. token = Some m \<and> m < n)"
  unfolding claim_token_def
  by (intro frames older_draw [OF assms], rule yields_then, rule yields_session_get) (auto simp: older_def assms)

lemma stays_set_claimed:
  assumes "i \<noteq> b" "k' = k \<Longrightarrow> token = None"
  shows "stays (claimed b n k r ob flt) (set_claimed i k' token)"
  unfolding set_claimed_def by (rule stays_put [OF assms(1)]) (use assms(2) in \<open>auto simp: older_def split: if_splits\<close>)

lemma stays_observe: "i \<noteq> b \<Longrightarrow> stays (claimed b n k r ob flt) (observe i k' x)"
  unfolding observe_def by (rule stays_put) (simp_all add: older_def)

lemma claim_by_older:
  assumes "ct_rows d k = Some r" "cr_fence_token r = Some n" "m < n"
  shows "sql_claim k (Some m) d = (d, Some (r, False))"
proof -
  have "claimed_fence (cr_fence_token r) (Some m) = cr_fence_token r" using assms by (simp add: claimed_fence_def)
  then show ?thesis using assms by (simp add: sql_claim_def put_row_def Let_def fun_upd_idem)
qed

lemma older_claim:
  assumes "m < n"
  shows "stays (claimed b n k r ob flt) (call_sql (sql_claim k' (Some m)))"
    "yields (claimed b n k r ob flt) (call_sql (sql_claim k' (Some m))) (\<lambda>row. k' = k \<longrightarrow> (\<forall>x. row = Some x \<longrightarrow> \<not> snd x))"
proof -
  show "stays (claimed b n k r ob flt) (call_sql (sql_claim k' (Some m)))"
    unfolding call_sql_def
    by (rule leaves_atomic)
      (cases "k' = k", auto simp: Let_def claimed_def claim_by_older [OF _ _ assms] sql_other_row split: reply_fault.split)
  show "yields (claimed b n k r ob flt) (call_sql (sql_claim k' (Some m))) (\<lambda>row. k' = k \<longrightarrow> (\<forall>x. row = Some x \<longrightarrow> \<not> snd x))"
    unfolding call_sql_def atomicP_def
    by (rule yields_step) (auto simp: Let_def claimed_def claim_by_older [OF _ _ assms] split: reply_fault.split)
qed

lemma older_read_row:
  assumes "i \<noteq> b"
  shows "stays (claimed b n k r ob flt) (read_row i k' claim)"
proof -
  have seen: "stays (claimed b n k r ob flt) (seen_row i k' row)" for row
    unfolding seen_row_def by (intro frames stays_observe assms)
  have rest: "stays (claimed b n k r ob flt) (bindP (case row of None \<Rightarrow> retP () | Some (_, c) \<Rightarrow> set_claimed i k' (if c then token else None))
      (\<lambda>_. seen_row i k' (map_option fst row)))" if "k' = k \<longrightarrow> (\<forall>x. row = Some x \<longrightarrow> \<not> snd x)" for row :: "(card_row \<times> bool) option" and token
    using that by (cases row) (auto simp: split_def seen simp del: prog_simps intro!: leaves_then stays_set_claimed assms frames)
  have claiming: "stays (claimed b n k r ob flt) (bindP (claim_token i) (\<lambda>token. bindP (call_sql (sql_claim k' token)) (\<lambda>row.
      bindP (case row of None \<Rightarrow> retP () | Some (_, c) \<Rightarrow> set_claimed i k' (if c then token else None)) (\<lambda>_. seen_row i k' (map_option fst row)))))"
  proof (rule leaves_bind [OF older_claim_token [OF assms]], elim exE conjE)
    fix token m assume "token = Some m" "m < n"
    then show "stays (claimed b n k r ob flt) (bindP (call_sql (sql_claim k' token)) (\<lambda>row.
      bindP (case row of None \<Rightarrow> retP () | Some (_, c) \<Rightarrow> set_claimed i k' (if c then token else None)) (\<lambda>_. seen_row i k' (map_option fst row))))"
      by (simp only:) (rule leaves_bind [OF older_claim rest])
  qed
  show ?thesis
    unfolding read_row_def by (intro leaves_then beside_session leaves_if claiming stays_sql seen) (simp_all add: sql_select_row_def)
qed

lemma stays_insert: "stays (claimed b n k r ob flt) (call_sql (sql_insert k' document token))"
  by (rule stays_sql) (cases "k' = k", auto simp: insert_view(2) sql_other_row)

lemma older_adopt: "i \<noteq> b \<Longrightarrow> stays (claimed b n k r ob flt) (adopt_row i k' limit document failed)"
  unfolding adopt_row_def by (intro frames stays_insert older_claim_token older_read_row)

lemma older_guard_row: "i \<noteq> b \<Longrightarrow> stays (claimed b n k r ob flt) (guard_row i p)"
  unfolding guard_row_def by (intro frames older_draw)

lemma older_marker_document: "i \<noteq> b \<Longrightarrow> stays (claimed b n k r ob flt) (read_marker_document rows i txn)"
  unfolding read_marker_document_def Let_def read_marker_def adopt_marker_def unlink_guarded_async_def unlink_file_def
  by (intro frames older_read_row older_adopt older_guard_row)

lemma older_base: "i \<noteq> b \<Longrightarrow> stays (claimed b n k r ob flt) (assert_base_available rows i sh ai txn)"
proof -
  assume i: "i \<noteq> b"
  have parsed: "stays (claimed b n k r ob flt) (case raw of None \<Rightarrow> retP None
      | Some (PDict d) \<Rightarrow> if C d then retP (Some d) else failP e | Some _ \<Rightarrow> failP e)" for raw C e
    by (auto split: option.split pyval.split)
  show ?thesis
    unfolding assert_base_available_def read_reservation_def read_card_version_marker_def Let_def
    by (intro frames older_marker_document parsed i)
qed

lemma older_read_pointer_document: "i \<noteq> b \<Longrightarrow> stays (claimed b n k r ob flt) (read_pointer_document rows i sh ai)"
  unfolding read_pointer_document_def read_pointer_def adopt_pointer_def session_holds_def
  by (intro frames older_read_row older_adopt older_guard_row)

lemma older_write_fence: "i \<noteq> b \<Longrightarrow> yields (claimed b n k r ob flt) (write_fence i k) (\<lambda>fence. \<forall>m. fence = Some m \<longrightarrow> m < n)"
  unfolding write_fence_def by (rule yields_session_get) (auto simp: older_def)

lemma older_update:
  assumes "\<And>m. fence = Some m \<Longrightarrow> m < n"
  shows "stays (claimed b n k r ob flt) (call_sql (sql_update_row k expected fence document))"
    "yields (claimed b n k r ob flt) (call_sql (sql_update_row k expected fence document)) (\<lambda>row. row = None)"
proof -
  have no: "sql_update_row k expected fence document d = (d, None)" if "ct_rows d k = Some r" "cr_fence_token r = Some n" for d
    using that assms by (auto simp: sql_update_row_def matches_row_def)
  show "stays (claimed b n k r ob flt) (call_sql (sql_update_row k expected fence document))"
    unfolding call_sql_def by (rule leaves_atomic) (auto simp: Let_def claimed_def no split: reply_fault.split)
  show "yields (claimed b n k r ob flt) (call_sql (sql_update_row k expected fence document)) (\<lambda>row. row = None)"
    unfolding call_sql_def atomicP_def by (rule yields_step) (auto simp: Let_def claimed_def no split: reply_fault.split)
qed

lemma yields_insert: "yields (claimed b n k r ob flt) (call_sql (sql_insert k document token)) (\<lambda>row. row = None)"
  unfolding call_sql_def atomicP_def
  by (rule yields_step) (auto simp: Let_def claimed_def insert_view split: reply_fault.split)

lemma older_write_pointer:
  assumes "i \<noteq> b" "k = Pointer_Row sh ai"
  shows "stays (claimed b n k r ob flt) (write_pointer i sh ai document)" "doomed (claimed b n k r ob flt) (write_pointer i sh ai document)"
proof -
  let ?I = "claimed b n k r ob flt"
  let ?attempt = "\<lambda>expected encoded. if fst expected = 0
      then bindP (claim_token i) (\<lambda>token. bindP (call_sql (sql_insert k encoded token)) (\<lambda>row.
        if row = None then retP row else bindP (claim_token i) (\<lambda>token'. bindP (set_claimed i k token') (\<lambda>_. retP row))))
      else bindP (write_fence i k) (\<lambda>fence. call_sql (sql_update_row k expected fence encoded))"
  have attempt: "stays ?I (?attempt expected encoded)" "yields ?I (?attempt expected encoded) (\<lambda>row. row = None)" for expected encoded
  proof -
    have inserting: "stays ?I (bindP (call_sql (sql_insert k encoded token)) (\<lambda>row. if row = None then retP row else
        bindP (claim_token i) (\<lambda>token'. bindP (set_claimed i k token') (\<lambda>_. retP row))))" for token
      by (rule leaves_bind [OF stays_insert yields_insert]) simp
    have updating: "stays ?I (bindP (write_fence i k) (\<lambda>fence. call_sql (sql_update_row k expected fence encoded)))"
      by (rule leaves_bind [OF beside_claiming(4) older_write_fence [OF assms(1)]]) (rule older_update, blast)
    show "stays ?I (?attempt expected encoded)"
      by (rule leaves_if [OF leaves_then updating]) (rule older_claim_token [OF assms(1)], rule inserting)
    have "yields ?I (bindP (call_sql (sql_insert k encoded token)) (\<lambda>row. if row = None then retP row else
        bindP (claim_token i) (\<lambda>token'. bindP (set_claimed i k token') (\<lambda>_. retP row)))) (\<lambda>row. row = None)" for token
      by (rule yields_bind [OF yields_insert]) simp
    moreover have "yields ?I (bindP (write_fence i k) (\<lambda>fence. call_sql (sql_update_row k expected fence encoded))) (\<lambda>row. row = None)"
      by (rule yields_bind [OF older_write_fence [OF assms(1)]]) (rule older_update, blast)
    ultimately show "yields ?I (?attempt expected encoded) (\<lambda>row. row = None)" by (auto intro: yields_then)
  qed
  have last: "stays ?I (bindP (?attempt expected encoded) (written_row i k moved))" "doomed ?I (bindP (?attempt expected encoded) (written_row i k moved))"
    for expected encoded moved
    by (rule leaves_bind [OF attempt], simp add: written_row_def) (rule yields_bind [OF attempt(2)], simp add: written_row_def)
  show "stays ?I (write_pointer i sh ai document)"
    unfolding write_pointer_def Let_def assms(2) [symmetric]
    by (rule leaves_then [OF beside_claiming(5) leaves_then [OF leaves_ret(3) last(1)]])
  show "doomed ?I (write_pointer i sh ai document)"
    unfolding write_pointer_def Let_def assms(2) [symmetric] by (rule yields_then [OF yields_then [OF last(2)]])
qed

lemma older_write_pointer_document:
  assumes "i \<noteq> b" "k = Pointer_Row sh ai"
  shows "stays (claimed b n k r ob flt) (write_pointer_document True i sh ai document txn)"
    "doomed (claimed b n k r ob flt) (write_pointer_document True i sh ai document txn)"
proof -
  note defs = write_pointer_document_def unlink_guarded_async_def unlink_file_def write_json_guarded_def if_True
  show "stays (claimed b n k r ob flt) (write_pointer_document True i sh ai document txn)"
    unfolding defs by (intro frames older_base older_guard_row older_write_pointer assms)
  show "doomed (claimed b n k r ob flt) (write_pointer_document True i sh ai document txn)"
    unfolding defs by (rule yields_then, rule yields_then, rule doomed_bind, rule yields_then, rule doomed_bind, rule older_write_pointer(2) [OF assms])
qed

text \<open>The claimant's write.\<close>

lemma claimant_write:
  assumes "claimed b n k r ob flt w" "k = Pointer_Row sh ai" "to_var ob = Some a" "fst a = b" "c = to_objects ob (snd a)" "\<not> rc_closed c"
    "rc_claims c k = Some n" "rc_observed c k = Some (cr_row_revision r, None)" "cr_row_revision r \<noteq> 0"
    "encode_document document POINTER_DOCUMENT_MAX_BYTES = Inr encoded" "ct_fault (cw_tables w) (ct_ops (cw_tables w)) = Works"
  shows "snd (runP (write_pointer b sh ai document) w) = Inr (cr_row_revision r + 1)"
proof -
  have w: "to_var (cw_row_ops w b) = Some a" "row_op w a = c" "ct_rows (cw_tables w) k = Some r" "cr_fence_token r = Some n"
    using assms(1,3-5) by (auto simp: claimed_def row_op_def)
  have "matches_row k (cr_row_revision r, None) (Some n) r" using w by (simp add: matches_row_def assms(2))
  then show ?thesis
    unfolding write_pointer_def Let_def assms(2) [symmetric] required_observation_def session_get_def write_fence_def written_row_def observe_def session_put_def
      call_sql_def observation_of_def
    using assms(2) [symmetric]
    by (simp add: runP_bind bindS_def w assms(6-11) check_open_def sql_update_row_def put_row_def Let_def)
qed

text \<open>Reading with a claim and a token drawn just before puts the row into this state.\<close>

lemma newest_claim:
  assumes "ct_rows (cw_tables w) k = Some r" "\<And>m. cr_fence_token r = Some m \<Longrightarrow> m \<le> ct_sequence (cw_tables w)"
    and "\<And>i a. i \<noteq> b \<Longrightarrow> own i w \<and> (to_var (cw_row_ops w i) = Some a \<longrightarrow> older (ct_sequence (cw_tables w) + 1) k (row_op w a))"
    and "to_var (cw_row_ops w b) = Some a" "fst a = b" "\<not> rc_closed (row_op w a)" "rc_fence_token (row_op w a) = None"
    and "ct_fault (cw_tables w) (ct_ops (cw_tables w)) = Works" "ct_fault (cw_tables w) (Suc (ct_ops (cw_tables w))) = Works" "parse_canonical_json_bytes (cr_document r) = Inr v" "is_pointer k"
    and "runP (read_row b k True) w = (w1, res)"
  shows "res = Inr (Some (v, cr_row_revision r))"
    "claimed b (ct_sequence (cw_tables w) + 1) k (r\<lparr>cr_fence_token := Some (ct_sequence (cw_tables w) + 1)\<rparr>) (cw_row_ops w1 b) (ct_fault (cw_tables w)) w1"
    "to_var (cw_row_ops w1 b) = Some a" "\<not> rc_closed (row_op w1 a)" "rc_claims (row_op w1 a) k = Some (ct_sequence (cw_tables w) + 1)"
    "rc_observed (row_op w1 a) k = Some (cr_row_revision r, None)"
proof -
  obtain j where a: "a = (b, j)" using assms(5) by (cases a) auto
  have claim: "claimed_fence (cr_fence_token r) (Some (ct_sequence (cw_tables w) + 1)) = Some (ct_sequence (cw_tables w) + 1)"
    using assms(2) by (force simp: claimed_fence_def split: option.split)
  note defs = read_row_def current_lock_session_def claim_token_def draw_fence_def session_get_def session_put_def call_sql_def sql_nextval_def
    set_claimed_def seen_row_def observe_def
  note unfold = runP_bind bindS_def check_open_def Let_def sql_claim_def put_row_def observation_of_def set_row_op_def put_object_def row_op_def a
  have run: "runP (read_row b k True) w = (w1, res)" by fact
  show res: "res = Inr (Some (v, cr_row_revision r))" using run assms(1,4,6-11) claim unfolding defs by (simp add: unfold)
  have others: "cw_row_ops w1 i = cw_row_ops w i" if "i \<noteq> b" for i
    using run assms(1,4,6-11) claim that unfolding defs by (auto simp: unfold)
  have row: "ct_rows (cw_tables w1) k = Some (r\<lparr>cr_fence_token := Some (ct_sequence (cw_tables w) + 1)\<rparr>)"
    using run assms(1,4,6-11) claim unfolding defs by (auto simp: unfold)
  have fault: "ct_fault (cw_tables w1) = ct_fault (cw_tables w)" using run assms(1,4,6-11) claim unfolding defs by (auto simp: unfold)
  show "to_var (cw_row_ops w1 b) = Some a" "\<not> rc_closed (row_op w1 a)" "rc_claims (row_op w1 a) k = Some (ct_sequence (cw_tables w) + 1)"
    "rc_observed (row_op w1 a) k = Some (cr_row_revision r, None)"
    using run assms(1,4,6-11) claim unfolding defs by (auto simp: unfold)
  have "own i w1 \<and> (\<forall>a'. to_var (cw_row_ops w1 i) = Some a' \<longrightarrow> older (ct_sequence (cw_tables w) + 1) k (row_op w1 a'))" if "i \<noteq> b" for i
  proof -
    have "row_op w1 a' = row_op w a'" if "fst a' = i" for a' using others \<open>i \<noteq> b\<close> that by (simp add: row_op_def)
    then show ?thesis using assms(3) [OF that] others [OF that] unfolding own_def by metis
  qed
  then show "claimed b (ct_sequence (cw_tables w) + 1) k (r\<lparr>cr_fence_token := Some (ct_sequence (cw_tables w) + 1)\<rparr>) (cw_row_ops w1 b) (ct_fault (cw_tables w)) w1"
    using row fault by (simp add: claimed_def)
qed

text \<open>Where an operation with an older token was stopped: before it read the pointer, before it wrote it, or past the guard of the write.\<close>

datatype resumption = Before_Read | Before_Write | Past_Guard

definition resumed :: "resumption \<Rightarrow> nat \<Rightarrow> pystr \<Rightarrow> pystr \<Rightarrow> (pyval option \<Rightarrow> pyval option) \<Rightarrow> pyval option \<Rightarrow> pystr \<Rightarrow> unit card_prog" where
  "resumed at i sh ai f d txn = (case at of
       Before_Read \<Rightarrow> bindP (read_pointer_document True i sh ai) (\<lambda>d. write_pointer_document True i sh ai (f d) txn)
     | Before_Write \<Rightarrow> write_pointer_document True i sh ai (f d) txn
     | Past_Guard \<Rightarrow> bindP (write_pointer i sh ai (case f d of None \<Rightarrow> ABSENT_POINTER | Some v \<Rightarrow> v)) (\<lambda>_. retP ()))"

lemma older_resumed:
  assumes "i \<noteq> b" "k = Pointer_Row sh ai"
  shows "stays (claimed b n k r ob flt) (resumed at i sh ai f d txn)" "doomed (claimed b n k r ob flt) (resumed at i sh ai f d txn)"
  using older_read_pointer_document [OF assms(1)] older_write_pointer_document [OF assms] older_write_pointer [OF assms]
  by (auto simp: resumed_def intro: leaves_then yields_then doomed_bind leaves_ret split: resumption.split)


definition sample_row :: card_row where
  "sample_row = \<lparr>cr_document = [123, 125], cr_digest = None, cr_row_revision = 7, cr_incarnation = None, cr_fence_token = Some 3\<rparr>"

definition sample_contexts :: "nat \<Rightarrow> row_context task_objects" where
  "sample_contexts i = \<lparr>to_var = (if i < 2 then Some (i, 0) else None),
     to_objects = (\<lambda>_. fresh_row_context\<lparr>rc_fence_token := (if i = 0 then Some 3 else None), rc_resources := [(lit ''delegated-card:card'', 1)]\<rparr>), to_count = 1\<rparr>"

definition sample_race :: card_world where
  "sample_race = (let w = sample_world (Some sample_row) in w\<lparr>cw_row_ops := sample_contexts, cw_tables := (cw_tables w)\<lparr>ct_sequence := 5\<rparr>\<rparr>)"

lemma sample_document: "parse_canonical_json_bytes [123, 125] = Inr (PDict [])" "encode_document (PDict []) POINTER_DOCUMENT_MAX_BYTES = Inr [123, 125]"
proof -
  have c: "canonical_json_bytes (PDict []) = Inr [123, 125]"
    by (simp add: canonical_json_bytes_def utf8_encode_def sort_entries_def is_surrogate_def utf8_char_def)
  then have "parse_canonical_json_bytes [123, 125] = Inr (norm (PDict []))" by (rule parse_canonical_round_trip) simp
  then show "parse_canonical_json_bytes [123, 125] = Inr (PDict [])" by (simp add: norm_PDict norm_dict_def)
  show "encode_document (PDict []) POINTER_DOCUMENT_MAX_BYTES = Inr [123, 125]" by (simp add: encode_document_def POINTER_DOCUMENT_MAX_BYTES_def c)
qed


end
