(* ===== verification/Card_Progress.thy ===== *)
theory Card_Progress
  imports Card_Types Card_Fences
begin

text \<open>
  A pointer update that runs alone and without faults returns: it takes the Redis lock and the file lock, passes the guards, claims
  the row, writes it and leaves.
\<close>

section \<open>Programs that return\<close>

definition returns :: "(card_world \<Rightarrow> bool) \<Rightarrow> 'a card_prog \<Rightarrow> ('a \<Rightarrow> card_world \<Rightarrow> bool) \<Rightarrow> bool" where
  "returns P p Q \<longleftrightarrow> (\<forall>w. P w \<longrightarrow> (\<exists>w' x. runP p w = (w', Inr x) \<and> Q x w'))"

lemma returnsD: "returns P p Q \<Longrightarrow> P w \<Longrightarrow> \<exists>w' x. runP p w = (w', Inr x) \<and> Q x w'"
  by (simp add: returns_def)

lemma returns_weaken: "returns P p Q \<Longrightarrow> (\<And>w. P' w \<Longrightarrow> P w) \<Longrightarrow> (\<And>x w. Q x w \<Longrightarrow> Q' x w) \<Longrightarrow> returns P' p Q'"
  unfolding returns_def by blast

lemma returns_bind: "returns P p Q \<Longrightarrow> (\<And>x. returns (Q x) (f x) R) \<Longrightarrow> returns P (bindP p f) R"
  unfolding returns_def by (simp add: runP_bind bindS_def) fastforce

lemma returns_fact: "(C \<Longrightarrow> returns P p Q) \<Longrightarrow> returns (\<lambda>w. C \<and> P w) p Q"
  unfolding returns_def by blast

lemma returns_ex: "(\<And>a. returns (P a) p Q) \<Longrightarrow> returns (\<lambda>w. \<exists>a. P a w) p Q"
  unfolding returns_def by blast

lemma returns_const: "returns P p (\<lambda>x w. x = c \<and> M w) \<Longrightarrow> returns M (f c) Q \<Longrightarrow> returns P (bindP p f) Q"
  by (erule returns_bind) (rule returns_fact, simp)

lemma returns_catch: "returns P p Q \<Longrightarrow> returns P (catchP p h) Q"
  unfolding returns_def by (simp add: runP_catch) fastforce

lemma returns_undo: "returns P p Q \<Longrightarrow> returns P (undoP p q) Q"
  unfolding undoP_def by (rule returns_catch)

lemma returns_finally: "returns P p Q \<Longrightarrow> (\<And>x. returns (Q x) q (\<lambda>_. R x)) \<Longrightarrow> returns P (finallyP p q) R"
  unfolding returns_def by (simp add: runP_finally bindS_def liftS_def) fastforce

lemma returns_ret: "(\<And>w. P w \<Longrightarrow> Q x w) \<Longrightarrow> returns P (retP x) Q"
  by (simp add: returns_def)

lemma returns_Done: "(\<And>w. P w \<Longrightarrow> Q x w) \<Longrightarrow> returns P (Done (Inr x)) Q"
  by (simp add: returns_def)

lemma bind_lift: "bindP (liftP (Inr x)) f = f x"
  by simp

lemma returns_lift: "r = Inr x \<Longrightarrow> (\<And>w. P w \<Longrightarrow> Q x w) \<Longrightarrow> returns P (liftP r) Q"
  by (simp add: returns_def)

lemma returns_atomic: "(\<And>w. P w \<Longrightarrow> \<exists>x. snd (m w) = Inr x \<and> Q x (fst (m w))) \<Longrightarrow> returns P (atomicP m) Q"
  unfolding returns_def runP_atomic by (metis prod.collapse)

lemma returns_look: "(\<And>w. P w \<Longrightarrow> Q (f w) w) \<Longrightarrow> returns P (look f) Q"
  unfolding look_def by (rule returns_atomic) simp

lemma returns_alter: "(\<And>w. P w \<Longrightarrow> Q () (f w)) \<Longrightarrow> returns P (alter f) Q"
  unfolding alter_def by (rule returns_atomic) simp

section \<open>Nothing fails\<close>

definition calm :: "card_world \<Rightarrow> bool" where
  "calm w \<longleftrightarrow> (\<forall>n. lr_fault (cw_redis w) n = Works) \<and> (\<forall>n. ct_fault (cw_tables w) n = Works) \<and> (\<forall>n. fs_fault (cw_fs w) n = No_Fault)"

text \<open>An operation of a task inside the section of one card: its contexts, its key in Redis, and the objects it works on.\<close>

record operation =
  op_task :: nat
  op_context :: address
  op_held :: address
  op_resource :: pystr
  op_key :: pystr
  op_value :: pystr
  op_row :: row_key
  op_marker :: pystr
  op_path :: path

definition inside :: "operation \<Rightarrow> card_world \<Rightarrow> bool" where
  "inside L w \<longleftrightarrow> calm w \<and> process_role (cw_role w (op_task L)) = CARD_WRITER_ROLE
     \<and> to_var (cw_row_ops w (op_task L)) = Some (op_context L) \<and> \<not> rc_closed (row_op w (op_context L)) \<and> holds (row_op w (op_context L)) (op_resource L)
     \<and> to_var (cw_held_ops w (op_task L)) = Some (op_held L) \<and> \<not> he_closed (held_op w (op_held L)) \<and> \<not> he_lost (held_op w (op_held L))
     \<and> he_keys (held_op w (op_held L)) = [(op_key L, op_value L)] \<and> live_value (cw_redis w) (op_key L) = Some (op_value L)"

text \<open>What the operation knows of its row: the token it drew, the claim it holds and the revision it saw.\<close>

definition works :: "operation \<Rightarrow> card_row option \<Rightarrow> int option \<Rightarrow> int option \<Rightarrow> observation option \<Rightarrow> card_world \<Rightarrow> bool" where
  "works L row token claim obs w \<longleftrightarrow> inside L w \<and> ct_rows (cw_tables w) (op_row L) = row \<and> ct_rows (cw_tables w) (Marker_Row (op_marker L)) = None
     \<and> fs_lookup (cw_fs w) (card_version_marker_path (op_marker L)) = None \<and> (row = None \<longrightarrow> fs_lookup (cw_fs w) (op_path L) = None)
     \<and> rc_fence_token (row_op w (op_context L)) = token \<and> rc_claims (row_op w (op_context L)) (op_row L) = claim
     \<and> rc_observed (row_op w (op_context L)) (op_row L) = obs
     \<and> (\<forall>r. row = Some r \<longrightarrow> token_ok (case token of None \<Rightarrow> fences w | Some n \<Rightarrow> n) (cr_fence_token r))"

lemma live_value_ops [simp]: "live_value (r\<lparr>lr_ops := n\<rparr>) = live_value r"
  by (simp add: live_value_def fun_eq_iff split: option.split)

lemma returns_aside_role: "inside L w \<Longrightarrow> runP (refuse_outside_proc (op_task L)) w = (w, Inr ())"
  by (simp add: refuse_outside_proc_def current_process_role_def look_def runP_bind bindS_def inside_def)

lemma inside_owned:
  assumes "inside L w"
  shows "\<exists>n. runP (assert_card_lock_owned (op_task L)) w = (w\<lparr>cw_redis := (cw_redis w)\<lparr>lr_ops := n\<rparr>\<rparr>, Inr ())"
  using assms
  by (auto simp: assert_card_lock_owned_def assert_card_lock_held_def look_def runP_bind runP_catch bindS_def inside_def calm_def pipeline_get_def Let_def replies_own_def)

lemma works_redis: "works L row token claim obs (w\<lparr>cw_redis := (cw_redis w)\<lparr>lr_ops := n\<rparr>\<rparr>) = works L row token claim obs w"
  by (cases token) (simp_all add: works_def inside_def calm_def row_op_def held_op_def)

lemma works_inside: "works L row token claim obs w \<Longrightarrow> inside L w"
  by (simp add: works_def)

lemma returns_guards:
  "returns (works L row token claim obs) (check_write_guards_async (op_task L) p) (\<lambda>_. works L row token claim obs)"
proof -
  have one: "returns (works L row token claim obs) (run_guard (op_task L) g) (\<lambda>_. works L row token claim obs)" for g
    unfolding returns_def run_guard_def
    by (cases g) (use returns_aside_role inside_owned works_inside works_redis in \<open>fastforce+\<close>)
  have "returns (works L row token claim obs) (run_guards (run_guard (op_task L)) gs) (\<lambda>_. works L row token claim obs)" for gs
  proof (induction gs)
    case (Cons g gs)
    show ?case unfolding run_guards.simps by (rule returns_bind [OF one Cons])
  qed (simp add: returns_def)
  then show ?thesis unfolding check_write_guards_async_def by (intro returns_bind [OF returns_look [where Q = "\<lambda>_. works L row token claim obs"]])
qed

section \<open>Row operations\<close>

lemma set_row_op_parts [simp]:
  "cw_tables (set_row_op a c w) = cw_tables w" "cw_fs (set_row_op a c w) = cw_fs w" "cw_redis (set_row_op a c w) = cw_redis w"
  "cw_held_ops (set_row_op a c w) = cw_held_ops w" "cw_role (set_row_op a c w) = cw_role w" "held_op (set_row_op a c w) = held_op w"
  "to_var (cw_row_ops (set_row_op a c w) i) = to_var (cw_row_ops w i)"
  by (simp_all add: set_row_op_def held_op_def put_object_def fun_eq_iff)

lemma returns_get:
  assumes "\<And>w. P w \<Longrightarrow> inside L w" "\<And>w. P w \<Longrightarrow> \<exists>x. g (row_op w (op_context L)) = Inr x \<and> Q x w"
  shows "returns P (session_get (op_task L) none g) Q"
  unfolding session_get_def by (rule returns_atomic) (use assms in \<open>auto simp: inside_def check_open_def\<close>)

lemma returns_put:
  assumes "\<And>w. P w \<Longrightarrow> inside L w" "\<And>w. P w \<Longrightarrow> Q () (set_row_op (op_context L) (g (row_op w (op_context L))) w)"
  shows "returns P (session_put (op_task L) none g) Q"
  unfolding session_put_def by (rule returns_atomic) (use assms in \<open>auto simp: inside_def\<close>)

lemma returns_sql:
  assumes "\<And>w. P w \<Longrightarrow> calm w" "\<And>w d. P w \<Longrightarrow> d = (cw_tables w)\<lparr>ct_ops := Suc (ct_ops (cw_tables w))\<rparr> \<Longrightarrow> Q (snd (g d)) (w\<lparr>cw_tables := fst (g d)\<rparr>)"
  shows "returns P (call_sql g) Q"
  unfolding call_sql_def by (rule returns_atomic) (use assms in \<open>simp add: Let_def calm_def\<close>)

lemma works_calm: "works L row token claim obs w \<Longrightarrow> calm w"
  by (simp add: works_def inside_def)

lemma inside_tables: "inside L (w\<lparr>cw_tables := d\<rparr>) \<longleftrightarrow> inside L w" if "ct_fault d = ct_fault (cw_tables w)"
  using that by (simp add: inside_def calm_def row_op_def held_op_def)

lemma inside_context:
  "inside L w \<Longrightarrow> rc_closed c = rc_closed (row_op w (op_context L)) \<Longrightarrow> rc_resources c = rc_resources (row_op w (op_context L)) \<Longrightarrow> inside L (set_row_op (op_context L) c w)"
  by (simp add: inside_def calm_def holds_def)

lemma returns_wanted:
  "returns (works L row token claim obs) (session_get (op_task L) (Inr False) (\<lambda>c. Inr (rc_fence_token c = None)))
     (\<lambda>wanted w. wanted = (token = None) \<and> works L row token claim obs w)"
  by (rule returns_get) (auto simp: works_def)

lemma returns_draw:
  "returns (works L row token claim obs) (draw_fence (op_task L)) (\<lambda>_ w. \<exists>n. works L row (Some n) claim obs w)"
  unfolding draw_fence_def
proof (rule returns_const [OF returns_wanted], cases token)
  case None
  have "returns (works L row None claim obs) (call_sql sql_nextval) (\<lambda>n w. works L row None claim obs w \<and> n = fences w)"
    by (rule returns_sql [OF works_calm]) (auto simp: sql_nextval_def inside_tables works_def token_ok_def)
  then have "returns (works L row None claim obs) (bindP (call_sql sql_nextval) (\<lambda>n. session_put (op_task L) (Inl AttributeError) (\<lambda>c. c\<lparr>rc_fence_token := Some n\<rparr>)))
      (\<lambda>_ w. \<exists>n. works L row (Some n) claim obs w)"
    by (rule returns_bind, intro returns_put) (auto simp: works_def inside_context)
  then show "returns (works L row token claim obs) (if token = None
      then bindP (call_sql sql_nextval) (\<lambda>n. session_put (op_task L) (Inl AttributeError) (\<lambda>c. c\<lparr>rc_fence_token := Some n\<rparr>)) else retP ())
      (\<lambda>_ w. \<exists>n. works L row (Some n) claim obs w)" by (simp add: None)
qed (auto simp: returns_def)

lemma returns_guard_row:
  "returns (works L row token claim obs) (guard_row (op_task L) p) (\<lambda>_ w. \<exists>n. works L row (Some n) claim obs w)"
  unfolding guard_row_def
  by (rule returns_bind [OF returns_draw], rule returns_ex, rule returns_weaken [OF returns_guards]) blast+

lemma returns_claim_token:
  "returns (works L row (Some n) claim obs) (claim_token (op_task L)) (\<lambda>token w. token = Some n \<and> works L row (Some n) claim obs w)"
  unfolding claim_token_def draw_fence_def
  by (rule returns_bind [OF returns_const [OF returns_wanted, where Q = "\<lambda>_. works L row (Some n) claim obs"]], simp add: returns_def)
    (rule returns_get, auto simp: works_def)

definition rev_of_row :: "card_row option \<Rightarrow> int" where
  "rev_of_row row = (case row of None \<Rightarrow> 0 | Some r \<Rightarrow> cr_row_revision r)"

definition row_readable :: "card_row option \<Rightarrow> bool" where
  "row_readable row \<longleftrightarrow> (\<forall>r. row = Some r \<longrightarrow> 1 \<le> cr_row_revision r \<and> (\<exists>v. parse_canonical_json_bytes (cr_document r) = Inr v))"

lemma returns_session: "(\<And>w. P w \<Longrightarrow> inside L w) \<Longrightarrow> returns P (current_lock_session (op_task L)) (\<lambda>a w. a = Some (op_context L) \<and> P w)"
  unfolding current_lock_session_def by (rule returns_atomic) (auto simp: inside_def check_open_def)

lemma returns_observe:
  "is_pointer (op_row L) \<Longrightarrow> returns (works L row token claim obs) (observe (op_task L) (op_row L) x) (\<lambda>_. works L row token claim (Some x))"
  "k \<noteq> op_row L \<Longrightarrow> returns (works L row token claim obs) (observe (op_task L) k x) (\<lambda>_. works L row token claim obs)"
  unfolding observe_def by (rule returns_put, simp add: works_inside, cases token, auto simp: works_def inside_context)+

lemma returns_set_claimed: "returns (works L row token claim obs) (set_claimed (op_task L) (op_row L) c) (\<lambda>_. works L row token c obs)"
  unfolding set_claimed_def by (rule returns_put, simp add: works_inside, cases token, auto simp: works_def inside_context)

text \<open>The row after a claim with the drawn token, and what reading it gives.\<close>

definition claimed_row :: "int \<Rightarrow> card_row option \<Rightarrow> card_row option" where
  "claimed_row n = map_option (\<lambda>r. r\<lparr>cr_fence_token := Some n\<rparr>)"

lemma returns_read_row:
  assumes "is_pointer (op_row L)" "row_readable row"
  shows "returns (works L row (Some n) claim obs) (read_row (op_task L) (op_row L) True)
     (\<lambda>x w. map_option fst x = (case row of None \<Rightarrow> None | Some r \<Rightarrow> Some (projr (parse_canonical_json_bytes (cr_document r))))
        \<and> works L (claimed_row n row) (Some n) (if row = None then claim else Some n) (Some (rev_of_row row, None)) w)"
proof -
  have claim: "returns (works L row (Some n) claim obs) (call_sql (sql_claim (op_row L) (Some n)))
      (\<lambda>x w. x = map_option (\<lambda>r. (r, True)) (claimed_row n row) \<and> works L (claimed_row n row) (Some n) claim obs w)"
  proof (rule returns_sql [OF works_calm])
    fix w d assume w: "works L row (Some n) claim obs w" and d: "d = (cw_tables w)\<lparr>ct_ops := Suc (ct_ops (cw_tables w))\<rparr>"
    have "claimed_fence (cr_fence_token r) (Some n) = Some n" if "row = Some r" for r
      using w that by (auto simp: works_def token_ok_def claimed_fence_def split: option.split)
    then show "snd (sql_claim (op_row L) (Some n) d) = map_option (\<lambda>r. (r, True)) (claimed_row n row)
        \<and> works L (claimed_row n row) (Some n) claim obs (w\<lparr>cw_tables := fst (sql_claim (op_row L) (Some n) d)\<rparr>)"
      using w assms(1) by (cases row) (auto simp: d sql_claim_def works_def claimed_row_def put_row_def Let_def inside_tables token_ok_def)
  qed
  let ?W = "\<lambda>c o'. works L (claimed_row n row) (Some n) c o'"
  have seen: "returns (?W c obs) (seen_row (op_task L) (op_row L) (claimed_row n row)) (\<lambda>x w. map_option fst x =
      (case row of None \<Rightarrow> None | Some r \<Rightarrow> Some (projr (parse_canonical_json_bytes (cr_document r)))) \<and> ?W c (Some (rev_of_row row, None)) w)" for c
    unfolding seen_row_def
    using assms returns_observe(1) [OF assms(1), of "claimed_row n row" "Some n" c obs]
    by (cases row) (auto simp: claimed_row_def rev_of_row_def row_readable_def observation_of_def intro!: returns_bind returns_Done)
  have "returns (?W claim obs) (bindP (case map_option (\<lambda>r. (r, True)) (claimed_row n row) of None \<Rightarrow> retP ()
      | Some (_, taken) \<Rightarrow> set_claimed (op_task L) (op_row L) (if taken then Some n else None))
      (\<lambda>_. seen_row (op_task L) (op_row L) (claimed_row n row)))
      (\<lambda>x w. map_option fst x = (case row of None \<Rightarrow> None | Some r \<Rightarrow> Some (projr (parse_canonical_json_bytes (cr_document r))))
        \<and> ?W (if row = None then claim else Some n) (Some (rev_of_row row, None)) w)"
    using seen returns_set_claimed [of L "claimed_row n row" "Some n" claim obs "Some n"]
    by (cases row) (auto simp: claimed_row_def intro: returns_bind)
  moreover have "map_option fst (map_option (\<lambda>r. (r, True)) x) = x" for x :: "card_row option" by (cases x) auto
  ultimately have "returns (works L row (Some n) claim obs) (bindP (claim_token (op_task L)) (\<lambda>token. bindP (call_sql (sql_claim (op_row L) token)) (\<lambda>row.
      bindP (case row of None \<Rightarrow> retP () | Some (_, taken) \<Rightarrow> set_claimed (op_task L) (op_row L) (if taken then token else None)) (\<lambda>_.
      seen_row (op_task L) (op_row L) (map_option fst row)))))
      (\<lambda>x w. map_option fst x = (case row of None \<Rightarrow> None | Some r \<Rightarrow> Some (projr (parse_canonical_json_bytes (cr_document r))))
        \<and> ?W (if row = None then claim else Some n) (Some (rev_of_row row, None)) w)"
    by (intro returns_const [OF returns_claim_token] returns_const [OF claim]) (simp del: prog_simps)
  then show ?thesis
    unfolding read_row_def by (intro returns_const [OF returns_session [of "works L row (Some n) claim obs" L, OF works_inside]]) (assumption, simp only: option.distinct simp_thms if_False)
qed

lemma returns_read_marker_row:
  assumes "op_row L \<noteq> Marker_Row (op_marker L)"
  shows "returns (works L row (Some n) claim obs) (read_row (op_task L) (Marker_Row (op_marker L)) True) (\<lambda>x w. x = None \<and> works L row (Some n) claim obs w)"
proof -
  have claim: "returns (works L row (Some n) claim obs) (call_sql (sql_claim (Marker_Row (op_marker L)) (Some n))) (\<lambda>x w. x = None \<and> works L row (Some n) claim obs w)"
    by (rule returns_sql [OF works_calm]) (auto simp: sql_claim_def works_def inside_tables)
  have "returns (works L row (Some n) claim obs) (seen_row (op_task L) (Marker_Row (op_marker L)) None) (\<lambda>x w. x = None \<and> works L row (Some n) claim obs w)"
    unfolding seen_row_def using returns_observe(2) [OF assms [symmetric]] by (auto intro!: returns_bind returns_Done)
  then have "returns (works L row (Some n) claim obs) (bindP (claim_token (op_task L)) (\<lambda>token. bindP (call_sql (sql_claim (Marker_Row (op_marker L)) token)) (\<lambda>row.
      bindP (case row of None \<Rightarrow> retP () | Some (_, taken) \<Rightarrow> set_claimed (op_task L) (Marker_Row (op_marker L)) (if taken then token else None)) (\<lambda>_.
      seen_row (op_task L) (Marker_Row (op_marker L)) (map_option fst row))))) (\<lambda>x w. x = None \<and> works L row (Some n) claim obs w)"
    by (intro returns_const [OF returns_claim_token] returns_const [OF claim]) simp
  then show ?thesis
    unfolding read_row_def by (intro returns_const [OF returns_session [of "works L row (Some n) claim obs" L, OF works_inside]]) (assumption, simp only: option.distinct simp_thms if_False)
qed

text \<open>No reservation of the card's base is found.\<close>

lemma returns_no_file:
  "(\<And>w. P w \<Longrightarrow> calm w \<and> fs_lookup (cw_fs w) p = None \<and> P (w\<lparr>cw_fs := fs_tick (cw_fs w)\<rparr>)) \<Longrightarrow>
    returns P (on_card_files (read_json_or_none p)) (\<lambda>x w. x = None \<and> P w)"
  unfolding on_card_files_def by (rule returns_atomic) (auto simp: read_json_or_none_def calm_def fs_next_def parsed_def)

lemma works_tick: "works L row token claim obs (w\<lparr>cw_fs := fs_tick (cw_fs w)\<rparr>) = works L row token claim obs w"
  by (cases token) (simp_all add: works_def inside_def calm_def fs_effects row_op_def held_op_def)

lemma returns_read_pointer_document:
  assumes "is_pointer (op_row L)" "row_readable row" "op_row L = Pointer_Row sh ai" "current_path sh ai = Inr (op_path L)"
    "card_access_id ai = Inr i" "op_resource L = lit ''delegated-card:'' @ i"
  shows "returns (works L row token claim obs) (read_pointer_document True (op_task L) sh ai)
    (\<lambda>d w. d = shown_view (row_view row) \<and> (\<exists>n c. (row \<noteq> None \<longrightarrow> c = Some n) \<and> works L (claimed_row n row) (Some n) c (Some (rev_of_row row, None)) w))"
proof -
  have holds: "returns (works L row token claim obs) (session_holds (op_task L) (lit ''delegated-card:'' @ i)) (\<lambda>h w. h = True \<and> works L row token claim obs w)"
    unfolding session_holds_def by (rule returns_get) (auto simp: works_def inside_def assms(6))
  have hint: "returns (works L None (Some n) c ob) (on_card_files (read_json_or_none (op_path L))) (\<lambda>x w. x = None \<and> works L None (Some n) c ob w)" for n c ob
    by (rule returns_no_file) (auto simp: works_tick works_calm, simp add: works_def)
  have shown: "shown_view (row_view row) = (case row of None \<Rightarrow> None | Some r \<Rightarrow> shown_pointer (projr (parse_canonical_json_bytes (cr_document r))))"
    using assms(2) by (auto simp: shown_view_def row_view_def row_readable_def split: option.split)
  let ?Q = "\<lambda>d w. d = shown_view (row_view row) \<and> (\<exists>n c. (row \<noteq> None \<longrightarrow> c = Some n) \<and> works L (claimed_row n row) (Some n) c (Some (rev_of_row row, None)) w)"
  have after: "returns (\<lambda>w. map_option fst x = (case row of None \<Rightarrow> None | Some r \<Rightarrow> Some (projr (parse_canonical_json_bytes (cr_document r))))
        \<and> works L (claimed_row n row) (Some n) (if row = None then c else Some n) (Some (rev_of_row row, None)) w)
      (case x of Some (document, _) \<Rightarrow> retP (shown_pointer document)
       | None \<Rightarrow> bindP (on_card_files (read_json_or_none (op_path L))) (\<lambda>hint. case hint of None \<Rightarrow> retP None | Some h \<Rightarrow> p h)) ?Q"
    for x :: "(pyval \<times> int) option" and n c p
  proof (rule returns_fact)
    assume "map_option fst x = (case row of None \<Rightarrow> None | Some r \<Rightarrow> Some (projr (parse_canonical_json_bytes (cr_document r))))"
    then show "returns (works L (claimed_row n row) (Some n) (if row = None then c else Some n) (Some (rev_of_row row, None)))
      (case x of Some (document, _) \<Rightarrow> retP (shown_pointer document)
       | None \<Rightarrow> bindP (on_card_files (read_json_or_none (op_path L))) (\<lambda>hint. case hint of None \<Rightarrow> retP None | Some h \<Rightarrow> p h)) ?Q"
      using shown by (cases row) (auto simp: claimed_row_def intro!: returns_const [OF hint] returns_Done, blast)
  qed
  show ?thesis
    unfolding read_pointer_document_def read_pointer_def assms(3) [symmetric]
    by (simp only: assms(4,5) not_True_eq_False if_False bind_lift, rule returns_const [OF holds], simp only: if_True, rule returns_bind [OF returns_guard_row],
        rule returns_ex, rule returns_bind [OF returns_read_row [OF assms(1,2)]], rule after)
qed

lemma returns_draw_kept: "returns (works L row (Some n) claim obs) (draw_fence (op_task L)) (\<lambda>_. works L row (Some n) claim obs)"
  unfolding draw_fence_def by (rule returns_const [OF returns_wanted]) (simp add: returns_Done)

lemma returns_guard_kept: "returns (works L row (Some n) claim obs) (guard_row (op_task L) p) (\<lambda>_. works L row (Some n) claim obs)"
  unfolding guard_row_def by (rule returns_bind [OF returns_draw_kept returns_guards])

lemma returns_base_available:
  assumes "op_row L \<noteq> Marker_Row (op_marker L)" "reservation_key sh ai = Inr (op_marker L)"
  shows "returns (works L row (Some n) claim obs) (assert_base_available True (op_task L) sh ai txn) (\<lambda>_. works L row (Some n) claim obs)"
proof -
  let ?W = "works L row (Some n) claim obs"
  have locked: "returns ?W (session_get (op_task L) (Inr False) (\<lambda>c. Inr (rc_resources c \<noteq> []))) (\<lambda>b w. b = True \<and> ?W w)"
    by (rule returns_get) (auto simp: works_def inside_def holds_def)
  have hint: "returns ?W (on_card_files (read_json_or_none (card_version_marker_path (op_marker L)))) (\<lambda>x w. x = None \<and> ?W w)"
    by (rule returns_no_file) (auto simp: works_tick works_calm, simp add: works_def)
  have "returns ?W (read_marker_document True (op_task L) (op_marker L)) (\<lambda>x w. x = None \<and> ?W w)"
    unfolding read_marker_document_def Let_def read_marker_def
    by (simp only: not_True_eq_False if_False, rule returns_const [OF locked], simp only: if_True, rule returns_bind [OF returns_guard_kept],
        rule returns_const [OF returns_read_marker_row [OF assms(1)]], simp only: option.case, rule returns_const [OF hint]) (simp add: returns_Done)
  then have "returns ?W (read_reservation True (op_task L) sh ai) (\<lambda>x w. x = None \<and> ?W w)"
    unfolding read_reservation_def by (simp only: assms(2) bind_lift, elim returns_const) (simp add: returns_Done)
  then show ?thesis unfolding assert_base_available_def by (elim returns_const) (simp add: returns_Done)
qed

lemma returns_write_pointer:
  assumes "op_row L = Pointer_Row sh ai" "row_readable row" "row \<noteq> None \<longrightarrow> c = Some n" "encode_document document POINTER_DOCUMENT_MAX_BYTES = Inr b"
  shows "returns (works L (claimed_row n row) (Some n) c (Some (rev_of_row row, None))) (write_pointer (op_task L) sh ai document)
    (\<lambda>_ w. \<exists>r c' x. (cr_row_revision r = rev_of_row row + 1 \<and> cr_document r = b) \<and> works L (Some r) (Some n) c' x w)"
proof -
  let ?x = "(rev_of_row row, None)"
  let ?W = "works L (claimed_row n row) (Some n) c (Some ?x)"
  let ?Q = "\<lambda>y w. \<exists>r c'. (y = Some r \<and> cr_row_revision r = rev_of_row row + 1 \<and> cr_document r = b) \<and> works L (Some r) (Some n) c' (Some ?x) w"
  have pointer: "is_pointer (op_row L)" by (simp add: assms(1))
  have obs: "returns ?W (required_observation (op_task L) (op_row L)) (\<lambda>x w. x = ?x \<and> ?W w)"
    unfolding required_observation_def by (rule returns_get) (auto simp: works_def)
  have ins: "returns ?W (bindP (claim_token (op_task L)) (\<lambda>token. bindP (call_sql (sql_insert (op_row L) b token)) (\<lambda>row.
      if row = None then retP row else bindP (claim_token (op_task L)) (\<lambda>token'. bindP (set_claimed (op_task L) (op_row L) token') (\<lambda>_. retP row))))) ?Q"
    if "row = None"
  proof -
    let ?r = "\<lparr>cr_document = b, cr_digest = Some (sha256_hex b), cr_row_revision = 1, cr_incarnation = None, cr_fence_token = Some n\<rparr>"
    have "returns ?W (call_sql (sql_insert (op_row L) b (Some n))) (\<lambda>y w. y = Some ?r \<and> works L (Some ?r) (Some n) c (Some ?x) w)"
      using that by (intro returns_sql [OF works_calm])
        (auto simp: sql_insert_def works_def claimed_row_def put_row_def Let_def inside_tables assms(1) token_ok_def)
    then show ?thesis
      by (intro returns_const [OF returns_claim_token], elim returns_const)
        (simp only: option.distinct if_False, rule returns_const [OF returns_claim_token], rule returns_bind [OF returns_set_claimed],
         auto intro!: returns_Done simp: that rev_of_row_def)
  qed
  have upd: "returns ?W (bindP (write_fence (op_task L) (op_row L)) (\<lambda>fence. call_sql (sql_update_row (op_row L) ?x fence b))) ?Q" if "row = Some r" for r
  proof -
    let ?r = "r\<lparr>cr_document := b, cr_digest := Some (sha256_hex b), cr_row_revision := cr_row_revision r + 1, cr_fence_token := Some n\<rparr>"
    have "returns ?W (write_fence (op_task L) (op_row L)) (\<lambda>fence w. fence = Some n \<and> ?W w)"
      unfolding write_fence_def using that assms(3) by (intro returns_get) (auto simp: works_def)
    moreover have "returns ?W (call_sql (sql_update_row (op_row L) ?x (Some n) b)) (\<lambda>y w. y = Some ?r \<and> works L (Some ?r) (Some n) c (Some ?x) w)"
      using that by (intro returns_sql [OF works_calm])
        (auto simp: sql_update_row_def matches_row_def works_def claimed_row_def put_row_def Let_def inside_tables assms(1) token_ok_def rev_of_row_def)
    ultimately show ?thesis by (elim returns_const returns_weaken) (auto simp: that rev_of_row_def)
  qed
  have "returns ?W (if fst ?x = 0 then bindP (claim_token (op_task L)) (\<lambda>token. bindP (call_sql (sql_insert (op_row L) b token)) (\<lambda>row.
      if row = None then retP row else bindP (claim_token (op_task L)) (\<lambda>token'. bindP (set_claimed (op_task L) (op_row L) token') (\<lambda>_. retP row))))
      else bindP (write_fence (op_task L) (op_row L)) (\<lambda>fence. call_sql (sql_update_row (op_row L) ?x fence b))) ?Q"
    using ins upd assms(2) by (cases row) (auto simp: rev_of_row_def row_readable_def)
  moreover have "returns (?Q y) (written_row (op_task L) (op_row L) moved y)
      (\<lambda>_ w. \<exists>r c' x. (cr_row_revision r = rev_of_row row + 1 \<and> cr_document r = b) \<and> works L (Some r) (Some n) c' x w)" for y moved
    unfolding written_row_def
    by (intro returns_ex, rule returns_fact, elim conjE, simp only: option.case, rule returns_bind [OF returns_observe(1) [OF pointer]]) (auto intro!: returns_Done)
  ultimately show ?thesis
    unfolding write_pointer_def Let_def assms(1) [symmetric]
    by (intro returns_const [OF obs]) (simp only: assms(4) bind_lift, erule returns_bind, blast)
qed

definition after_update :: "row_key \<Rightarrow> (int \<times> bytes) option \<Rightarrow> card_world \<Rightarrow> bool" where
  "after_update k v w \<longleftrightarrow> calm w \<and> view k w = v"

lemma works_after: "works L (Some r) token claim obs w \<Longrightarrow> after_update (op_row L) (Some (cr_row_revision r, cr_document r)) w"
  by (simp add: works_def inside_def after_update_def view_def row_view_def)

lemma returns_hint:
  assumes "\<And>v. document = Some v \<Longrightarrow> \<exists>t. dumps True v = Inr t"
  shows "returns (works L (Some r) token claim obs) (case document of None \<Rightarrow> unlink_guarded_async (op_task L) p | Some v \<Rightarrow> write_json_guarded (op_task L) p v)
    (\<lambda>_. after_update (op_row L) (Some (cr_row_revision r, cr_document r)))"
proof -
  have "returns (works L (Some r) token claim obs) (unlink_file p) (\<lambda>_. after_update (op_row L) (Some (cr_row_revision r, cr_document r)))"
    unfolding unlink_file_def on_card_files_def
    by (rule returns_atomic, frule works_after) (auto simp: unlink_def fs_next_def after_update_def calm_def fs_effects view_def)
  moreover have "returns (works L (Some r) token claim obs) (on_card_files (write_json_atomic p v)) (\<lambda>_. after_update (op_row L) (Some (cr_row_revision r, cr_document r)))"
    if "dumps True v = Inr t" for v t
    unfolding on_card_files_def
    by (rule returns_atomic, frule works_after) (auto simp: that write_json_atomic_def fs_next_def after_update_def calm_def fs_effects view_def)
  ultimately show ?thesis
    using assms unfolding unlink_guarded_async_def write_json_guarded_def
    by (auto intro!: returns_bind [OF returns_guards] split: option.split)
qed

lemma returns_update_body:
  assumes "op_row L = Pointer_Row sh ai" "row_readable row" "current_path sh ai = Inr (op_path L)" "card_access_id ai = Inr i"
    "op_resource L = lit ''delegated-card:'' @ i" "reservation_key sh ai = Inr (op_marker L)"
    "document = f (shown_view (row_view row))" "\<And>v. document = Some v \<Longrightarrow> py_wf v"
    "encode_document (case document of None \<Rightarrow> ABSENT_POINTER | Some v \<Rightarrow> v) POINTER_DOCUMENT_MAX_BYTES = Inr b"
  shows "returns (works L row token claim obs)
    (bindP (read_pointer_document True (op_task L) sh ai) (\<lambda>d. write_pointer_document True (op_task L) sh ai (f d) txn))
    (\<lambda>_. after_update (op_row L) (apply_update f (row_view row)))"
proof -
  have "\<exists>t. dumps True v = Inr t" if "document = Some v" for v
  proof -
    have "canonical_json_bytes v = Inr b" using assms(9) that by (auto simp: encode_document_def split: pyval.splits if_splits)
    then have "wire_check v = Inr ()" by (auto elim: canonical_json_bytes_Inr)
    then show ?thesis using dumps_total wire_check_json_value assms(8) [OF that] by blast
  qed
  note hint = returns_hint [OF this]
  have result: "apply_update f (row_view row) = Some (rev_of_row row + 1, b)"
    using assms(7,9) by (auto simp: apply_update_def stored_bytes_def rev_of_def rev_of_row_def row_view_def split: option.split)
  have "returns (works L (claimed_row n row) (Some n) c (Some (rev_of_row row, None))) (write_pointer_document True (op_task L) sh ai document txn)
      (\<lambda>_. after_update (op_row L) (apply_update f (row_view row)))" if "row \<noteq> None \<longrightarrow> c = Some n" for n c
    unfolding write_pointer_document_def
    by (simp only: assms(3) bind_lift if_True, rule returns_bind [OF returns_base_available [OF _ assms(6)]], simp add: assms(1),
        rule returns_bind [OF returns_bind [OF returns_guard_kept returns_bind [OF returns_write_pointer [OF assms(1,2) that assms(9)]]]],
        rule returns_ret, assumption, intro returns_ex, rule returns_fact, rule returns_weaken [OF hint]) (auto simp: result)
  then show ?thesis
    by (intro returns_const [OF returns_read_pointer_document [OF _ assms(2,1,3,4,5)]] returns_ex returns_fact) (simp_all add: assms(1,7))
qed

section \<open>Entering and leaving the lock\<close>

text \<open>
  On the way in: the row context, the held keys, the value of the card's key in Redis, and the file locks, as far as they
  are known.
\<close>

definition gate :: "operation \<Rightarrow> card_row option \<Rightarrow> row_context option \<Rightarrow> held_keys option \<Rightarrow> pystr option \<Rightarrow> path list option \<Rightarrow> card_world \<Rightarrow> bool" where
  "gate L row x h v F w \<longleftrightarrow> calm w \<and> process_role (cw_role w (op_task L)) = CARD_WRITER_ROLE
     \<and> ct_rows (cw_tables w) (op_row L) = row \<and> ct_rows (cw_tables w) (Marker_Row (op_marker L)) = None
     \<and> fs_lookup (cw_fs w) (card_version_marker_path (op_marker L)) = None \<and> (row = None \<longrightarrow> fs_lookup (cw_fs w) (op_path L) = None)
     \<and> (\<forall>r. row = Some r \<longrightarrow> token_ok (fences w) (cr_fence_token r))
     \<and> (x = None \<longrightarrow> to_var (cw_row_ops w (op_task L)) = None \<and> op_context L = (op_task L, to_count (cw_row_ops w (op_task L))))
     \<and> (\<forall>c. x = Some c \<longrightarrow> to_var (cw_row_ops w (op_task L)) = Some (op_context L) \<and> row_op w (op_context L) = c)
     \<and> (h = None \<longrightarrow> to_var (cw_held_ops w (op_task L)) = None \<and> op_held L = (op_task L, to_count (cw_held_ops w (op_task L))))
     \<and> (\<forall>c. h = Some c \<longrightarrow> to_var (cw_held_ops w (op_task L)) = Some (op_held L) \<and> held_op w (op_held L) = c)
     \<and> live_value (cw_redis w) (op_key L) = v \<and> (\<forall>l. F = Some l \<longrightarrow> cw_file_locks w = l)"

text \<open>What the host's locks do when nothing fails and nobody holds them.\<close>

definition free_file_lock :: "'v card_lock \<Rightarrow> nat \<Rightarrow> path \<Rightarrow> path list \<Rightarrow> bool" where
  "free_file_lock base_lock t p F \<longleftrightarrow> (\<forall>call w. lc_path call = p \<longrightarrow> cw_file_locks w = F \<longrightarrow> (\<exists>l v leave. runP (base_lock t call) w = (w\<lparr>cw_file_locks := l\<rparr>, Inr (v, leave))
     \<and> (\<forall>w. \<exists>l. runP leave w = (w\<lparr>cw_file_locks := l\<rparr>, Inr ()))))"

definition free_redis_lock :: "observed_lock \<Rightarrow> bool" where
  "free_redis_lock observed_lock \<longleftrightarrow> (\<forall>key metadata own ttl wait poll w. spaced metadata = Inr own \<longrightarrow> 0 < ttl \<longrightarrow> calm w \<longrightarrow> live_value (cw_redis w) key = None \<longrightarrow>
     (\<exists>r leave. runP (observed_lock (fail_fast_redis redis_client) key metadata ttl wait poll) w = (w\<lparr>cw_redis := r\<rparr>, Inr (own, leave))
        \<and> lr_fault r = lr_fault (cw_redis w) \<and> live_value r key = Some own
        \<and> (\<forall>w. calm w \<longrightarrow> (\<exists>r. runP leave w = (w\<lparr>cw_redis := r\<rparr>, Inr ()) \<and> lr_fault r = lr_fault (cw_redis w)))))"

definition leaving :: "row_key \<Rightarrow> unit card_prog \<Rightarrow> bool" where
  "leaving k leave \<longleftrightarrow> (\<forall>v. returns (after_update k v) leave (\<lambda>_. after_update k v))"

definition enters :: "row_key \<Rightarrow> (card_world \<Rightarrow> bool) \<Rightarrow> ('v \<times> unit card_prog) card_prog \<Rightarrow> (card_world \<Rightarrow> bool) \<Rightarrow> bool" where
  "enters k P p Q \<longleftrightarrow> returns P p (\<lambda>x w. leaving k (snd x) \<and> Q w)"

lemma leaving_finally: "leaving k p \<Longrightarrow> leaving k q \<Longrightarrow> leaving k (finallyP p q)"
  unfolding leaving_def by (blast intro: returns_finally)

lemma leaving_bind: "leaving k p \<Longrightarrow> leaving k q \<Longrightarrow> leaving k (bindP p (\<lambda>_. q))"
  unfolding leaving_def by (blast intro: returns_bind)

lemma leaving_alter: "(\<And>w. calm (f w) = calm w \<and> cw_tables (f w) = cw_tables w) \<Longrightarrow> leaving k (alter f)"
  unfolding leaving_def by (auto intro!: returns_alter simp: after_update_def view_def)

lemma enters_section: "enters k P p Q \<Longrightarrow> leaving k q \<Longrightarrow> enters k P (sectionP p q) Q"
  unfolding enters_def sectionP_def
  by (rule returns_bind, erule returns_undo, rule returns_fact) (auto simp: split_def intro!: returns_Done leaving_finally)

lemma enters_bind: "returns P p Q \<Longrightarrow> (\<And>x. enters k (Q x) (f x) R) \<Longrightarrow> enters k P (bindP p f) R"
  unfolding enters_def by (rule returns_bind)

lemma enters_const: "returns P p (\<lambda>x w. x = c \<and> M w) \<Longrightarrow> enters k M (f c) R \<Longrightarrow> enters k P (bindP p f) R"
  unfolding enters_def by (rule returns_const)

lemma enters_chain:
  "enters k P p Q \<Longrightarrow> (\<And>v leave. leaving k leave \<Longrightarrow> enters k Q (f (v, leave)) R) \<Longrightarrow> enters k P (bindP p f) R"
  unfolding enters_def by (rule returns_bind, assumption, rule returns_fact) (metis surjective_pairing snd_conv)

lemma enters_catch: "enters k P p Q \<Longrightarrow> enters k P (catchP p h) Q"
  unfolding enters_def by (rule returns_catch)

lemma enters_ret: "leaving k leave \<Longrightarrow> enters k P (retP (v, leave)) P"
  by (simp add: enters_def returns_Done)

lemma leaving_steps:
  "leaving k (on_row_op a g)" "leaving k (close_row_context t a token)" "leaving k (close_held t a opened)" "leaving k (end_hold a key r)"
proof -
  show "leaving k (on_row_op a g)" unfolding on_row_op_def by (rule leaving_alter) (simp add: calm_def)
  show "leaving k (close_row_context t a token)"
    unfolding close_row_context_def
    by (cases token) (auto simp: leaving_def [of k "Done _"] returns_Done set_row_var_def calm_def intro!: leaving_alter)
  show "leaving k (close_held t a opened)"
    unfolding close_held_def
    by (cases opened) (auto simp: leaving_def [of k "Done _"] returns_Done set_held_var_def set_held_op_def calm_def intro!: leaving_alter)
  show "leaving k (end_hold a key r)"
    unfolding end_hold_def on_held_op_def
    by (intro leaving_bind leaving_alter) (auto simp: stop_renewal_def set_held_op_def calm_def split: option.split)
qed

lemma gate_redis: "gate L row x h v F (w\<lparr>cw_redis := (cw_redis w)\<lparr>lr_ops := n\<rparr>\<rparr>) = gate L row x h v F w" "gate L row x h v F (w\<lparr>cw_verified := b\<rparr>) = gate L row x h v F w"
  "gate L row x h v F (w\<lparr>cw_owner_tokens := m\<rparr>) = gate L row x h v F w"
  by (simp_all add: gate_def calm_def row_op_def held_op_def)

lemma gate_open_row_context:
  "returns (gate L row None h v F) (open_row_context (op_task L)) (\<lambda>y w. y = (op_context L, Some None) \<and> gate L row (Some fresh_row_context) h v F w)"
  unfolding open_row_context_def
  by (rule returns_atomic) (auto simp: gate_def calm_def Let_def new_object_def put_object_def row_op_def held_op_def)

lemma gate_open_held:
  "returns (gate L row x None v F) (open_held (op_task L)) (\<lambda>y w. y = (op_held L, True) \<and> gate L row x (Some fresh_held) v F w)"
  unfolding open_held_def
  by (rule returns_atomic) (auto simp: gate_def calm_def new_object_def put_object_def row_op_def held_op_def)

definition noeviction :: "card_world \<Rightarrow> bool" where
  "noeviction w \<longleftrightarrow> (\<exists>d. lr_config (cw_redis w) = PDict d \<and> policy_text (dget_or d ''maxmemory-policy'' PNone) = Some (lit ''noeviction''))"

lemma gate_verify_policy: "returns (\<lambda>w. gate L row x h v F w \<and> noeviction w) (verify_policy cfg) (\<lambda>_. gate L row x h v F)"
proof -
  have "\<exists>n. runP assert_redis_noeviction w = (w\<lparr>cw_redis := (cw_redis w)\<lparr>lr_ops := n\<rparr>\<rparr>, Inr ())" if "gate L row x h v F w" "noeviction w" for w
    using that
    by (auto simp: assert_redis_noeviction_def reported_policy_def redis_config_get_def call_redis_def runP_bind runP_catch bindS_def Let_def gate_def calm_def noeviction_def)
  then have "returns (\<lambda>w. gate L row x h v F w \<and> noeviction w) assert_redis_noeviction (\<lambda>_. gate L row x h v F)"
    unfolding returns_def by (metis gate_redis(1))
  then show ?thesis
    unfolding verify_policy_def
    by (intro returns_bind [OF returns_look [where Q = "\<lambda>_ w. gate L row x h v F w \<and> noeviction w"]])
      (auto simp: gate_redis intro!: returns_bind returns_alter returns_Done)
qed

lemma gate_owner_token: "returns (gate L row x h v F) (fresh_owner_token source) (\<lambda>_. gate L row x h v F)"
  unfolding fresh_owner_token_def by (rule returns_atomic) (simp add: gate_redis)

lemma gate_start_hold:
  "returns (gate L row x (Some fresh_held) v F) (start_hold cfg (op_held L) (op_key L) mine)
    (\<lambda>_. gate L row x (Some (fresh_held\<lparr>he_keys := [(op_key L, mine)], he_counts := [(op_key L, 1)]\<rparr>)) v F)"
  unfolding start_hold_def
  by (rule returns_atomic) (auto simp: Let_def gate_def calm_def fresh_held_def set_held_op_def put_object_def row_op_def held_op_def split: option.split)

lemma gate_file_lock:
  assumes "free_file_lock base_lock (op_task L) p l" "lc_path call = p"
  shows "enters k (gate L row x h v (Some l)) (base_lock (op_task L) call) (gate L row x h v None)"
  unfolding enters_def returns_def
proof (intro allI impI)
  fix w assume w: "gate L row x h v (Some l) w"
  then have "cw_file_locks w = l" by (simp add: gate_def)
  then obtain l' y leave where run: "runP (base_lock (op_task L) call) w = (w\<lparr>cw_file_locks := l'\<rparr>, Inr (y, leave))"
    and out: "\<And>w. \<exists>l. runP leave w = (w\<lparr>cw_file_locks := l\<rparr>, Inr ())"
    using assms unfolding free_file_lock_def by blast
  have "leaving k leave"
    unfolding leaving_def returns_def after_update_def
    using out by (fastforce simp: calm_def view_def)
  moreover have "gate L row x h v None (w\<lparr>cw_file_locks := l'\<rparr>)" using w by (simp add: gate_def calm_def row_op_def held_op_def)
  ultimately show "\<exists>w' x'. runP (base_lock (op_task L) call) w = (w', Inr x') \<and> leaving k (snd x') \<and> gate L row x h v None w'" using run by auto
qed

lemma gate_acquire:
  assumes "free_redis_lock observed_lock" "spaced metadata = Inr mine" "0 < rs_ttl_seconds cfg"
  shows "returns (gate L row x h None F) (acquire_key cfg observed_lock (op_key L) metadata wait mine)
    (\<lambda>y w. (fst y = mine \<and> leaving k (snd y)) \<and> gate L row x h (Some mine) F w)"
  unfolding acquire_key_def
proof (rule returns_catch, unfold returns_def, intro allI impI)
  fix w assume w: "gate L row x h None F w"
  then have "calm w" "live_value (cw_redis w) (op_key L) = None" by (simp_all add: gate_def)
  moreover have "0 < rs_ttl_seconds cfg * 1000" using assms(3) by simp
  ultimately obtain r leave where run: "runP (observed_lock (fail_fast_redis redis_client) (op_key L) metadata (rs_ttl_seconds cfg * 1000) (max 0 wait) (rs_poll_ms cfg)) w
      = (w\<lparr>cw_redis := r\<rparr>, Inr (mine, leave))" and r: "lr_fault r = lr_fault (cw_redis w)" "live_value r (op_key L) = Some mine"
    and out: "\<And>w. calm w \<Longrightarrow> \<exists>r. runP leave w = (w\<lparr>cw_redis := r\<rparr>, Inr ()) \<and> lr_fault r = lr_fault (cw_redis w)"
    using assms(1,2) unfolding free_redis_lock_def by blast
  have "leaving k leave"
    unfolding leaving_def returns_def after_update_def
    using out by (fastforce simp: calm_def view_def)
  moreover have "gate L row x h (Some mine) F (w\<lparr>cw_redis := r\<rparr>)" using w r by (simp add: gate_def calm_def row_op_def held_op_def)
  ultimately show "\<exists>w' y. runP (observed_lock (fail_fast_redis redis_client) (op_key L) metadata (rs_ttl_seconds cfg * 1000) (max 0 wait) (rs_poll_ms cfg)) w
      = (w', Inr y) \<and> (fst y = mine \<and> leaving k (snd y)) \<and> gate L row x h (Some mine) F w'" using run by auto
qed

lemma leaving_catch: "leaving k p \<Longrightarrow> leaving k (catchP p h)"
  unfolding leaving_def by (blast intro: returns_catch)

lemma gate_local_lock:
  assumes "free_file_lock base_lock (op_task L) p l" "container_local_lock_path root (lc_path call) = Inr p"
  shows "enters k (gate L row x h v (Some l)) (local_lock root base_lock (op_task L) call) (gate L row x h v None)"
  unfolding local_lock_def by (simp only: assms(2) bind_lift, rule enters_catch, rule gate_file_lock [OF assms(1)]) simp

lemma gate_owned_section:
  assumes "free_file_lock base_lock (op_task L) p l" "container_local_lock_path root (lc_path call) = Inr p" "leaving k leave"
  shows "enters k (gate L row x (Some fresh_held) v (Some l)) (owned_section cfg (local_lock root base_lock) (op_task L) call deadline (op_held L) (op_key L) (mine, leave))
    (gate L row x (Some (fresh_held\<lparr>he_keys := [(op_key L, mine)], he_counts := [(op_key L, 1)]\<rparr>)) v None)"
proof -
  let ?h = "fresh_held\<lparr>he_keys := [(op_key L, mine)], he_counts := [(op_key L, 1)]\<rparr>"
  have inner: "enters k (gate L row x (Some ?h) v (Some l)) (inner_section (local_lock root base_lock) (op_task L) call deadline) (gate L row x (Some ?h) v None)"
    unfolding inner_section_def
    by (rule enters_bind [OF returns_look [where Q = "\<lambda>_. gate L row x (Some ?h) v (Some l)"]], assumption, rule gate_local_lock [OF assms(1)])
      (simp add: assms(2))
  show ?thesis
    unfolding owned_section_def prod.case
    by (rule enters_chain, rule enters_catch, rule enters_section [OF _ assms(3)], rule enters_bind [OF gate_start_hold],
        rule enters_section [OF inner leaving_steps(4)], simp only: prod.case, rule enters_ret, rule leaving_catch)
qed

lemma gate_take_key:
  assumes "free_file_lock base_lock (op_task L) p l" "container_local_lock_path root (lc_path call) = Inr p" "free_redis_lock observed_lock"
    "\<And>r o' tok kind. \<exists>mine. spaced (make_metadata r o' tok kind) = Inr mine" "0 < rs_ttl_seconds cfg"
  shows "enters k (gate L row x (Some fresh_held) None (Some l))
    (take_key cfg observed_lock make_metadata token_hex (local_lock root base_lock) (op_task L) call deadline (op_held L) (op_key L))
    (\<lambda>w. \<exists>mine. gate L row x (Some (fresh_held\<lparr>he_keys := [(op_key L, mine)], he_counts := [(op_key L, 1)]\<rparr>)) (Some mine) None w)"
  unfolding take_key_def Let_def
proof (rule enters_bind [OF gate_owner_token])
  fix owner
  let ?m = "make_metadata (lc_resource call) (lc_operation call) owner (key_kind (op_key L))"
  obtain mine where mine: "spaced ?m = Inr mine" using assms(4) by blast
  let ?h = "fresh_held\<lparr>he_keys := [(op_key L, mine)], he_counts := [(op_key L, 1)]\<rparr>"
  have "enters k (\<lambda>w. (fst y = mine \<and> leaving k (snd y)) \<and> gate L row x (Some fresh_held) (Some mine) (Some l) w)
      (owned_section cfg (local_lock root base_lock) (op_task L) call deadline (op_held L) (op_key L) y) (\<lambda>w. \<exists>mine. gate L row x
        (Some (fresh_held\<lparr>he_keys := [(op_key L, mine)], he_counts := [(op_key L, 1)]\<rparr>)) (Some mine) None w)" for y
    unfolding enters_def
  proof (rule returns_fact)
    assume y: "fst y = mine \<and> leaving k (snd y)"
    then have "enters k (gate L row x (Some fresh_held) (Some mine) (Some l))
        (owned_section cfg (local_lock root base_lock) (op_task L) call deadline (op_held L) (op_key L) y) (gate L row x (Some ?h) (Some mine) None)"
      using gate_owned_section [OF assms(1,2), of k "snd y"] by (cases y) simp
    then show "returns (gate L row x (Some fresh_held) (Some mine) (Some l))
        (owned_section cfg (local_lock root base_lock) (op_task L) call deadline (op_held L) (op_key L) y) (\<lambda>z w. leaving k (snd z) \<and> (\<exists>mine. gate L row x
        (Some (fresh_held\<lparr>he_keys := [(op_key L, mine)], he_counts := [(op_key L, 1)]\<rparr>)) (Some mine) None w))"
      unfolding enters_def by (rule returns_weaken) auto
  qed
  then show "enters k (gate L row x (Some fresh_held) None (Some l)) (bindP (liftP (spaced ?m)) (\<lambda>own.
      bindP (acquire_key cfg observed_lock (op_key L) ?m (lc_wait call) own) (owned_section cfg (local_lock root base_lock) (op_task L) call deadline (op_held L) (op_key L))))
      (\<lambda>w. \<exists>mine. gate L row x (Some (fresh_held\<lparr>he_keys := [(op_key L, mine)], he_counts := [(op_key L, 1)]\<rparr>)) (Some mine) None w)"
    by (simp only: mine bind_lift) (rule enters_bind [OF gate_acquire [OF assms(3) mine assms(5)]])
qed

lemma gate_redis_lock:
  assumes "free_file_lock base_lock (op_task L) p l" "container_local_lock_path root (lc_path call) = Inr p" "free_redis_lock observed_lock"
    "\<And>r o' tok kind. \<exists>mine. spaced (make_metadata r o' tok kind) = Inr mine" "0 < rs_ttl_seconds cfg" "rs_redis cfg"
    "card_lock_key (rs_tenant cfg) (rs_project cfg) (lc_resource call) (Some (lc_path call)) = Inr (op_key L)"
  shows "enters k (\<lambda>w. gate L row x None None (Some l) w \<and> noeviction w)
    (redis_lock cfg observed_lock make_metadata token_hex (local_lock root base_lock) (op_task L) call)
    (\<lambda>w. \<exists>mine. gate L row x (Some (fresh_held\<lparr>he_keys := [(op_key L, mine)], he_counts := [(op_key L, 1)]\<rparr>)) (Some mine) None w)"
proof -
  have count: "returns (gate L row x (Some fresh_held) None (Some l)) (look (\<lambda>w. count_of (he_counts (held_op w (op_held L))) (op_key L)))
      (\<lambda>n w. n = 0 \<and> gate L row x (Some fresh_held) None (Some l) w)"
    by (rule returns_look) (simp add: gate_def count_of_def fresh_held_def)
  have time: "returns (gate L row x (Some fresh_held) None (Some l)) (look (\<lambda>w. lr_now (cw_redis w))) (\<lambda>_. gate L row x (Some fresh_held) None (Some l))"
    by (rule returns_look)
  show ?thesis
    unfolding redis_lock_def Let_def
    by (simp only: assms(6,7) not_True_eq_False if_False bind_lift, rule enters_bind [OF gate_verify_policy], rule enters_const [OF gate_open_held],
        simp only: prod.case, rule enters_bind [OF time], rule enters_section [OF _ leaving_steps(3)], rule enters_const [OF count],
        simp only: less_irrefl if_False, rule gate_take_key [OF assms(1-5)])
qed

lemma gate_hub_lock:
  assumes "free_file_lock base_lock (op_task L) p l" "container_local_lock_path root (lc_path call) = Inr p" "free_redis_lock observed_lock"
    "\<And>r o' tok kind. \<exists>mine. spaced (make_metadata r o' tok kind) = Inr mine" "0 < rs_ttl_seconds cfg" "rs_redis cfg"
    "card_lock_key (rs_tenant cfg) (rs_project cfg) (lc_resource call) (Some (lc_path call)) = Inr (op_key L)" "lc_resource call = op_resource L"
  shows "enters k (\<lambda>w. gate L row None None None (Some l) w \<and> noeviction w)
    (row_fenced_lock (proc_only_lock (redis_lock cfg observed_lock make_metadata token_hex (local_lock root base_lock))) (op_task L) call)
    (\<lambda>w. \<exists>mine. works (L\<lparr>op_value := mine\<rparr>) row None None None w)"
proof -
  let ?B = "redis_lock cfg observed_lock make_metadata token_hex (local_lock root base_lock)"
  let ?W = "\<lambda>w. gate L row (Some fresh_row_context) None None (Some l) w \<and> noeviction w"
  have opened: "returns (\<lambda>w. gate L row None None None (Some l) w \<and> noeviction w) (open_row_context (op_task L)) (\<lambda>y w. y = (op_context L, Some None) \<and> ?W w)"
    unfolding open_row_context_def
    by (rule returns_atomic) (auto simp: gate_def calm_def noeviction_def Let_def new_object_def put_object_def row_op_def held_op_def)
  have role: "returns ?W (current_process_role (op_task L)) (\<lambda>r w. r = CARD_WRITER_ROLE \<and> ?W w)"
    unfolding current_process_role_def by (rule returns_look) (simp add: gate_def)
  have proc: "enters k ?W (proc_only_lock ?B (op_task L) call)
      (\<lambda>w. \<exists>mine. gate L row (Some fresh_row_context) (Some (fresh_held\<lparr>he_keys := [(op_key L, mine)], he_counts := [(op_key L, 1)]\<rparr>)) (Some mine) None w)"
    unfolding proc_only_lock_def by (rule enters_const [OF role]) (simp only: simp_thms if_False, rule gate_redis_lock [OF assms(1-7)])
  have add: "returns (\<lambda>w. \<exists>mine. gate L row (Some fresh_row_context) (Some (fresh_held\<lparr>he_keys := [(op_key L, mine)], he_counts := [(op_key L, 1)]\<rparr>)) (Some mine) None w)
      (on_row_op (op_context L) (add_resource (lc_resource call))) (\<lambda>_ w. \<exists>mine. works (L\<lparr>op_value := mine\<rparr>) row None None None w)"
    unfolding on_row_op_def
    by (rule returns_alter)
      (auto simp: gate_def works_def inside_def calm_def add_resource_def fresh_row_context_def fresh_held_def holds_def assms(8) count_of_def)
  show ?thesis
    unfolding row_fenced_lock_def
    by (rule enters_const [OF opened], simp only: prod.case, rule enters_section [OF _ leaving_steps(2)], rule enters_chain [OF proc], simp only: prod.case,
        rule enters_bind [OF add], rule enters_ret, rule leaving_finally [OF leaving_steps(1)])
qed

text \<open>
  C7. A pointer update that runs alone returns. Nothing fails; the process has the writer's role; Redis has the policy \<open>noeviction\<close>; the host's
  two locks are free and work; the card's base is not reserved; the state is well-formed; and the document that the update
  computes can be stored. Then the update takes the Redis lock and the file lock, passes the write guards, claims the row, writes it and
  leaves, and the row is the one that the update is meant to give, with the next revision.
\<close>

theorem lone_update_succeeds:
  assumes lock: "hub_redis_card_mutation_lock cfg observed_lock make_metadata token_hex base_lock (True, root) = Inr lock"
      "rs_redis cfg" "0 < rs_ttl_seconds cfg" "card_lock_key (rs_tenant cfg) (rs_project cfg) (lc_resource call) (Some (lc_path call)) = Inr key"
    and host: "free_redis_lock observed_lock" "\<And>r o' tok kind. \<exists>mine. spaced (make_metadata r o' tok kind) = Inr mine"
      "container_local_lock_path root (lc_path call) = Inr p'" "free_file_lock base_lock t p' (cw_file_locks w)"
    and card: "current_path sh ai = Inr p" "card_access_id ai = Inr i" "lc_resource call = lit ''delegated-card:'' @ i" "reservation_key sh ai = Inr m"
    and start: "calm w" "process_role (cw_role w t) = CARD_WRITER_ROLE" "noeviction w" "typed w" "live_value (cw_redis w) key = None"
      "to_var (cw_row_ops w t) = None" "to_var (cw_held_ops w t) = None"
    and free: "ct_rows (cw_tables w) (Marker_Row m) = None" "fs_lookup (cw_fs w) (card_version_marker_path m) = None"
      "view (Pointer_Row sh ai) w = None \<Longrightarrow> fs_lookup (cw_fs w) p = None"
    and document: "\<And>v. f (shown_view (view (Pointer_Row sh ai) w)) = Some v \<Longrightarrow> py_wf v"
      "encode_document (case f (shown_view (view (Pointer_Row sh ai) w)) of None \<Rightarrow> ABSENT_POINTER | Some v \<Rightarrow> v) POINTER_DOCUMENT_MAX_BYTES = Inr b"
    and run: "runP (update_pointer lock call sh ai txn f t) w = (w', result)"
  shows "result = Inr () \<and> view (Pointer_Row sh ai) w' = apply_update f (view (Pointer_Row sh ai) w)"
proof -
  let ?k = "Pointer_Row sh ai"
  let ?row = "ct_rows (cw_tables w) ?k"
  let ?L = "\<lparr>op_task = t, op_context = (t, to_count (cw_row_ops w t)), op_held = (t, to_count (cw_held_ops w t)), op_resource = lc_resource call,
      op_key = key, op_value = [], op_row = ?k, op_marker = m, op_path = p\<rparr>"
  have l: "lock = row_fenced_lock (proc_only_lock (redis_lock cfg observed_lock make_metadata token_hex (local_lock root base_lock)))"
    using lock(1) by (auto simp: hub_redis_card_mutation_lock_def container_local_lock_def redis_card_mutation_lock_def split: if_splits option.splits)
  have row: "row_ok (fences w) ?k r" if "?row = Some r" for r using start(4) that by (simp add: typed_def tables_ok_def)
  then have readable: "row_readable ?row" by (fastforce simp: row_readable_def row_ok_def)
  have "gate ?L ?row None None None (Some (cw_file_locks w)) w \<and> noeviction w"
    using start free row by (auto simp: gate_def row_ok_def view_def row_view_def)
  moreover have "enters ?k (\<lambda>w'. gate ?L ?row None None None (Some (cw_file_locks w)) w' \<and> noeviction w') (lock t call) (\<lambda>w. \<exists>mine. works (?L\<lparr>op_value := mine\<rparr>) ?row None None None w)"
    using gate_hub_lock [of base_lock ?L p' "cw_file_locks w" root call observed_lock make_metadata cfg ?k ?row token_hex] host lock(2-4) by (simp add: l)
  moreover have "returns (works (?L\<lparr>op_value := mine\<rparr>) ?row None None None) (bindP (read_pointer_document True t sh ai) (\<lambda>d. write_pointer_document True t sh ai (f d) txn))
      (\<lambda>_. after_update ?k (apply_update f (row_view ?row)))" for mine
    using returns_update_body [of "?L\<lparr>op_value := mine\<rparr>" sh ai ?row i "f (shown_view (row_view ?row))" f b None None None txn] readable card document
    by (simp add: view_def)
  ultimately have "returns (\<lambda>w'. gate ?L ?row None None None (Some (cw_file_locks w)) w' \<and> noeviction w') (update_pointer lock call sh ai txn f t)
      (\<lambda>_. after_update ?k (apply_update f (row_view ?row)))"
    unfolding update_pointer_def with_lock_def enters_def
    by (intro returns_bind) (auto simp: split_def intro!: returns_fact returns_finally returns_ex simp: leaving_def)
  then show ?thesis
    using \<open>gate ?L ?row None None None (Some (cw_file_locks w)) w \<and> noeviction w\<close> run by (fastforce simp: returns_def after_update_def view_def)
qed

lemma sample_free_locks: "free_file_lock sample_file_lock t p []" "free_redis_lock sample_redis_lock"
proof -
  show "free_file_lock sample_file_lock t p []"
    unfolding free_file_lock_def sample_file_lock_def alter_def by (auto simp: runP_bind bindS_def)
  have leave: "\<exists>r. runP (bindP (lk_eval (fail_fast_redis redis_client) key v) (\<lambda>_. retP ())) w = (w\<lparr>cw_redis := r\<rparr>, Inr ()) \<and> lr_fault r = lr_fault (cw_redis w)"
    if "calm w" for w key v
    using that by (auto simp: fail_fast_redis_def redis_client_def call_redis_def delete_own_def put_key_def runP_bind bindS_def Let_def calm_def)
  have enter: "\<exists>r. runP (sample_redis_lock (fail_fast_redis redis_client) key metadata ttl wait poll) w
        = (w\<lparr>cw_redis := r\<rparr>, Inr (v, bindP (lk_eval (fail_fast_redis redis_client) key v) (\<lambda>_. retP ())))
      \<and> lr_fault r = lr_fault (cw_redis w) \<and> live_value r key = Some v"
    if "spaced metadata = Inr v" "0 < ttl" "calm w" "live_value (cw_redis w) key = None" for key metadata ttl wait poll w v
    using that unfolding sample_redis_lock_def
    by (auto simp: fail_fast_redis_def redis_client_def fail_fast_def call_redis_def set_nx_def put_key_def runP_bind runP_catch bindS_def Let_def calm_def live_value_def [of "_\<lparr>lr_keys := _\<rparr>"])
  show "free_redis_lock sample_redis_lock"
    unfolding free_redis_lock_def
    apply (intro allI impI)
    subgoal for key metadata v ttl wait poll w
      using enter [of metadata v ttl w key wait poll] leave by blast
    done
qed

theorem lone_update_succeeds_witness:
  "let k = Pointer_Row sample_subject sample_card; (w, result) = runP (update_pointer sample_lock sample_call sample_subject sample_card [] (\<lambda>_. Some (PDict [])) 0) (sample_world None)
   in result = Inr () \<and> view k w = Some (1, [123, 125])"
proof -
  obtain w result where run: "runP (update_pointer sample_lock sample_call sample_subject sample_card [] (\<lambda>_. Some (PDict [])) 0) (sample_world None) = (w, result)" by fastforce
  have none: "view (Pointer_Row sample_subject sample_card) (sample_world None) = None" by (simp add: sample_start row_view_def)
  have key: "\<exists>key. card_lock_key (rs_tenant sample_settings) (rs_project sample_settings) (lc_resource sample_call) (Some (lc_path sample_call)) = Inr key"
    by (simp add: card_lock_key_def sample_settings_def sample_call_def KINDS_def path_name_def lit_def sample_card_def)
  have encodable: "encodable sample_subject" "encodable sample_card" "encodable (path_text (lc_path sample_call))"
    by (auto simp: encodable_def is_surrogate_def path_text_def sample_call_def sample_subject_def sample_card_def dest: lit_small)
  then have path: "\<exists>p. container_local_lock_path [lit ''locks''] (lc_path sample_call) = Inr p"
    by (simp add: container_local_lock_path_def utf8_encode_def)
  have metadata: "\<exists>mine. spaced (sample_metadata r o' tok kind) = Inr mine" for r o' tok kind
    by (simp add: sample_metadata_def obj_def sort_entries_def)
  have id: "card_access_id sample_card = Inr sample_card"
    by (simp add: card_access_id_def sample_card_def lit_def py_strip_no_space is_space_def is_alnum_def is_digit_char_def)
  have reservation: "\<exists>m. reservation_key sample_subject sample_card = Inr m"
    using canonical_json_bytes_ok [of "PList [PStr sample_subject, PStr sample_card]"] encodable by (auto simp: reservation_key_def)
  obtain key p' m where facts: "card_lock_key (rs_tenant sample_settings) (rs_project sample_settings) (lc_resource sample_call) (Some (lc_path sample_call)) = Inr key"
    "container_local_lock_path [lit ''locks''] (lc_path sample_call) = Inr p'" "reservation_key sample_subject sample_card = Inr m"
    using key path reservation by blast
  have typed: "typed (sample_world None)"
    by (simp add: typed_def sample_world_def tables_ok_def files_ok_def fs_lookup_def row_op_def context_ok_fresh)
  have role: "process_role (cw_role (sample_world None) 0) = CARD_WRITER_ROLE"
    by (simp add: sample_world_def process_role_def CARD_WRITER_ROLE_def) code_simp
  have policy: "noeviction (sample_world None)"
    by (simp add: noeviction_def sample_world_def obj_def policy_text_def dget_or_def dget_def lit_def)
  have "result = Inr () \<and> view (Pointer_Row sample_subject sample_card) w = apply_update (\<lambda>_. Some (PDict [])) (view (Pointer_Row sample_subject sample_card) (sample_world None))"
    by (rule lone_update_succeeds [OF sample_hub_lock _ _ facts(1) sample_free_locks(2) metadata facts(2) _ sample_path id _ facts(3) _ role policy typed _ _ _ _ _ _ _ _ run, where b = "[123, 125]"])
      (auto simp: sample_start sample_document none sample_settings_def REDIS_LOCK_TTL_SECONDS_def sample_call_def sample_card_def calm_def live_value_def sample_world_def fs_lookup_def sample_free_locks(1) lit_def)
  then show ?thesis unfolding run by (simp add: none apply_update_def rev_of_def stored_bytes_def sample_document)
qed

end
