(* ===== verification/Card_Refusals.thy ===== *)
theory Card_Refusals
  imports Card_Updates
begin

text \<open>
  How the mutation locks refuse: the probe of a card's section in \<open>cards/service.py\<close>, which tells a held section from a free one
  by the exception of the lock, over both locks the hub makes.
\<close>

definition CARD_LOCK_FILENAME :: pystr where "CARD_LOCK_FILENAME = lit ''.mutation.lock''"

definition card_lock_path :: "pystr \<Rightarrow> pystr \<Rightarrow> exn + path" where
  "card_lock_path subject_hash access_id = bindE (card_subject_hash subject_hash) (\<lambda>h. bindE (card_access_id access_id) (\<lambda>i.
     Inr [lit ''grantors'', h, lit ''cards'', i, CARD_LOCK_FILENAME]))"

definition probe_section :: "'v card_lock \<Rightarrow> nat \<Rightarrow> pystr \<Rightarrow> pystr \<Rightarrow> bool card_prog" where
  "probe_section mutation_lock t subject_hash access_id = bindP (liftP (card_lock_path subject_hash access_id)) (\<lambda>p.
     catchP (with_lock mutation_lock t \<lparr>lc_path = p, lc_resource = lit ''delegated-card:'' @ access_id,
         lc_operation = lit ''delegated-card-account-fence-probe'', lc_wait = 500\<rparr> (\<lambda>_. retP False))
       (\<lambda>e. if e = CardMutationLockTimeout then retP True else failP e))"

lemma runP_with_lock:
  assumes "snd (runP (lock t call) w) = Inl e"
  shows "runP (with_lock lock t call body) w = (fst (runP (lock t call) w), Inl e)"
  using assms by (cases "runP (lock t call) w") (simp add: with_lock_def runP_bind bindS_def)

lemma runP_row_fenced_refused:
  assumes "\<And>w'. cw_role w' = cw_role w \<Longrightarrow> snd (runP (base_lock t call) w') = Inl e"
  shows "snd (runP (row_fenced_lock base_lock t call) w) = Inl e"
proof -
  have "cw_role (fst (runP (open_row_context t) w)) = cw_role w \<and> (\<exists>x. snd (runP (open_row_context t) w) = Inr x)"
    by (simp add: open_row_context_def Let_def split: option.split)
  then obtain w1 a token where opened: "runP (open_row_context t) w = (w1, Inr (a, token))" and role: "cw_role w1 = cw_role w"
    by (cases "runP (open_row_context t) w") auto
  obtain w2 where inner: "runP (base_lock t call) w1 = (w2, Inl e)" using assms [OF role] by (cases "runP (base_lock t call) w1") auto
  have "\<exists>w3. runP (close_row_context t a token) w2 = (w3, Inr ())" by (auto simp: close_row_context_def alter_def split: option.split)
  then show ?thesis
    unfolding row_fenced_lock_def sectionP_def undoP_def by (auto simp: runP_bind bindS_def runP_catch opened inner)
qed

lemma runP_proc_only:
  "process_role (cw_role w t) = CARD_WRITER_ROLE \<Longrightarrow> runP (proc_only_lock base_lock t call) w = runP (base_lock t call) w"
  "process_role (cw_role w t) \<noteq> CARD_WRITER_ROLE \<Longrightarrow>
    runP (proc_only_lock base_lock t call) w = (w, Inl (CardStorageError ''card_store_write_wrong_process_role''))"
  by (simp_all add: proc_only_lock_def current_process_role_def look_def runP_bind bindS_def)

text \<open>
  C40. The probe decides that a card's section is held by the exception \<open>CardMutationLockTimeout\<close> of the mutation lock. With the local
  mutation lock it cannot: when the host's file lock gives up because another task holds the section, the probe raises
  \<open>card_lock_root_unwritable\<close>, since the handler of \<open>container_local_lock\<close> is for \<open>OSError\<close>, of which the timeout is a subclass.
\<close>

theorem local_lock_hides_contention:
  assumes "hub_card_mutation_lock base_lock (True, root) = Inr mutation_lock" "process_role (cw_role w t) = CARD_WRITER_ROLE"
    and "card_lock_path subject_hash access_id = Inr p" "container_local_lock_path root p = Inr p'"
    and "\<And>call w. lc_path call = p' \<Longrightarrow> snd (runP (base_lock t call) w) = Inl CardMutationLockTimeout"
  shows "snd (runP (probe_section mutation_lock t subject_hash access_id) w) = Inl (CardStorageError ''card_lock_root_unwritable'')"
proof -
  have lock: "mutation_lock = row_fenced_lock (proc_only_lock (local_lock root base_lock))"
    using assms(1) by (simp add: hub_card_mutation_lock_def container_local_lock_def)
  have "snd (runP (local_lock root base_lock t call) w) = Inl (CardStorageError ''card_lock_root_unwritable'')" if "lc_path call = p" for call w
    using assms(5) [of "call\<lparr>lc_path := p'\<rparr>" w] that assms(4)
    by (cases "runP (base_lock t (call\<lparr>lc_path := p'\<rparr>)) w") (simp add: local_lock_def runP_bind bindS_def runP_catch is_os_error_def is_timeout_def)
  then have "snd (runP (mutation_lock t call) w) = Inl (CardStorageError ''card_lock_root_unwritable'')" if "lc_path call = p" for call
    unfolding lock by (intro runP_row_fenced_refused) (use that assms(2) in \<open>simp add: runP_proc_only\<close>)
  then show ?thesis
    using assms(3) by (simp add: probe_section_def runP_bind bindS_def runP_catch runP_with_lock)
qed

definition busy_lock :: "unit card_lock" where
  "busy_lock t call = failP CardMutationLockTimeout"

theorem local_lock_hides_contention_witness:
  "let lock = row_fenced_lock (proc_only_lock (local_lock [lit ''locks''] busy_lock))
   in hub_card_mutation_lock busy_lock (True, [lit ''locks'']) = Inr lock
      \<and> snd (runP (probe_section lock 0 sample_subject sample_card) (sample_world None)) = Inl (CardStorageError ''card_lock_root_unwritable'')"
proof -
  let ?lock = "row_fenced_lock (proc_only_lock (local_lock [lit ''locks''] busy_lock))"
  have lock: "hub_card_mutation_lock busy_lock (True, [lit ''locks'']) = Inr ?lock" by (simp add: hub_card_mutation_lock_def container_local_lock_def)
  have role: "process_role (cw_role (sample_world None) 0) = CARD_WRITER_ROLE"
    by (simp add: sample_world_def process_role_def CARD_WRITER_ROLE_def) code_simp
  obtain p where p: "card_lock_path sample_subject sample_card = Inr p" "p = [lit ''grantors'', sample_subject, lit ''cards'', sample_card, CARD_LOCK_FILENAME]"
    using sample_path by (simp add: card_lock_path_def current_path_def bindE_eq_Inr)
  have "encodable (path_text p)"
    using p(2) by (auto simp: path_text_def encodable_def is_surrogate_def sample_subject_def sample_card_def CARD_LOCK_FILENAME_def dest: lit_small)
  then obtain p' where p': "container_local_lock_path [lit ''locks''] p = Inr p'"
    by (auto simp: container_local_lock_path_def utf8_encode_def)
  have "snd (runP (probe_section ?lock 0 sample_subject sample_card) (sample_world None)) = Inl (CardStorageError ''card_lock_root_unwritable'')"
    by (rule local_lock_hides_contention [OF lock role p(1) p']) (simp add: busy_lock_def)
  then show ?thesis using lock by simp
qed

end
