(* ===== verification/Spec2Isabelle.thy ===== *)
theory Spec2Isabelle
  imports Decision_Coordinator Participant_Answer Resource_Operations Invocation_Histories
    Admission_Replay One_Time_Histories Host_Relay Fence_Races Card_Progress Card_Refusals
begin

text \<open>
  \<^bold>\<open>Verification of the coordination and single-use core of the app ecosystem.\<close>

  \<^bold>\<open>The program.\<close> The repository holds \<open>service_foundation\<close>, the protocols its services share, and
  \<open>connection_hub\<close>, which decides what a delegated agent may do with a connected account. The parts modelled here
  are those on which the rest relies for "at most once" and "all or nothing":

  \<^item> Two-phase decisions. An \<open>IntentDraft\<close> names participants and payload; \<open>PostgresDecisionStore.begin\<close> freezes it as a
    \<open>GlobalIntent\<close> in canonical JSON; each participant prepares its projection and answers with a receipt; \<open>decide\<close>
    records commit or abort; each participant finishes; \<open>recover\<close> walks the rows in doubt. Answers between services are
    HMAC-signed by \<open>participant_answer\<close>.
  \<^item> Invocation policies. \<open>begin\<close> reserves an invocation under a policy (always or once) and possibly a request-bound permit,
    \<open>complete\<close> records its outcome, and a policy changes in step with a card transaction through a marker file
    (\<open>prepare_policy_change\<close>, \<open>commit_policy_change\<close>, \<open>release_policy_change\<close>). Which operations a card allows on a resource is
    \<open>resource_operations\<close>. Records are JSON files behind \<open>durable_io\<close>.
  \<^item> Replay protection. \<open>admission_replay\<close> claims a signed nonce once in its window; \<open>one_time_state\<close> keeps callback states
    that are consumed by the first \<open>pop\<close>.
  \<^item> Account fences. A card that gains a connected account and a disconnect of that account each leave a record and then look
    for the other's, so that no card keeps an account that is being disconnected.
  \<^item> Card pointers. The pointer of a card and the markers of card-version transactions are rows that change by compare-and-swap under
    a mutation lock: a lease in Redis with renewal, then a file lock, with a fence token per operation that orders the claims of the
    rows, because a lease may run out while its owner still works.
  \<^item> The host relay polls an adapter for ever with back-off.

  \<^bold>\<open>Theories and sources.\<close> Paths are relative to \<open>packages/service-foundation/src/service_foundation\<close> (SF) and
  \<open>products/connection-hub/packages/connection-hub/src/connection_hub\<close> (CH).

  \<^item> \<open>Py_Prelude\<close>: Python values (\<open>pyval\<close>), texts as lists of code points, exceptions as the type \<open>exn\<close>, results as \<open>exn + 'a\<close>,
    stateful code as actions \<open>'s \<Rightarrow> 's \<times> (exn + 'a)\<close>. An action that raises keeps the state it reached, so partial effects stay
    visible. The locale \<open>forward_steps\<close> carries what every step keeps to whole histories.
  \<^item> \<open>Durable_Files\<close>: CH \<open>delegated_credentials/durable_io.py\<close>: files as JSON values, with faults before and after each effect.
  \<^item> \<open>Interleaving\<close>: code whose steps may be interleaved, as programs that are their next step or their result, and the proof rules
    for two programs that leave evidence and then look for the other's (\<open>not_both_succeed\<close>).
  \<^item> \<open>Rely_Guarantee\<close>: any number of such programs interleaved with steps of the environment (\<open>run_tasks\<close>), and a rely-guarantee
    judgement with an auxiliary value (\<open>rg\<close>), its rules for the combinators and for the composition of all of them.
  \<^item> \<open>Sha256\<close>, \<open>Json_Text\<close>, \<open>Json_Lemmas\<close>, \<open>Py_Text\<close>: what the sources use of \<open>hashlib\<close>, \<open>hmac\<close>, \<open>json\<close>, \<open>str\<close>, \<open>int\<close>, executable.
    The lemmas show that the reader inverts the writer.
  \<^item> \<open>Durable_Wire\<close>: SF \<open>coordination/durable_wire.py\<close>. Canonical bytes, intents, projections.
  \<^item> \<open>Durable_Decision\<close>: SF \<open>coordination/durable_decision_v2.py\<close>, records and \<open>PostgresDecisionStore\<close>. The table is the list of its rows;
    every SQL statement is a function on it and a failing transaction restores it. The relation \<open>table_step\<close> is the abstract
    specification; every call is shown to be at most one of its steps.
  \<^item> \<open>Decision_Coordinator\<close>: the same file, \<open>Coordinator\<close>. The locale \<open>decision_store\<close> is the contract of the store, interpreted on
    the PostgreSQL model; the coordinator's lemmas are proved from the contract.
  \<^item> \<open>Participant_Answer\<close>: SF \<open>coordination/participant_answer.py\<close>.
  \<^item> \<open>Resource_Operations\<close>: CH \<open>delegated_credentials/resource_operations.py\<close>, with \<open>fnmatch\<close> written out.
  \<^item> \<open>Invocation_Models\<close>, \<open>Invocation_Store\<close>, \<open>Invocation_Service\<close>: CH \<open>invocation_policy/models.py\<close>, \<open>store.py\<close>, \<open>service.py\<close>. The
    locale \<open>record_kind\<close> is what the four kinds of record file share.
  \<^item> \<open>Invocation_Safety\<close>, \<open>Invocation_Runs\<close>, \<open>Invocation_Histories\<close>: a program logic (\<open>proves\<close>) and an order on states (\<open>progress\<close>) that
    every request respects; fault-free runs; the properties over histories.
  \<^item> \<open>Admission_Replay\<close>: CH \<open>delegated_credentials/admission_replay.py\<close>. \<open>ledger_ok\<close> is its invariant.
  \<^item> \<open>One_Time_State\<close>, \<open>One_Time_Histories\<close>: CH \<open>one_time_state.py\<close> over a Redis with expiry, snapshots, restarts and faults.
  \<^item> \<open>Account_Fence\<close>, \<open>Fence_Races\<close>: CH \<open>delegated_credentials/cards/account_fence.py\<close> and the operations of \<open>cards/service.py\<close>, \<open>cards/store.py\<close>
    and \<open>cards/transaction_store.py\<close> it rests on; the races between a writer and a disconnect.
  \<^item> \<open>Card_World\<close>, \<open>Card_Locks\<close>, \<open>Card_Rows\<close>: CH \<open>delegated_credentials/cards/locks.py\<close>, \<open>cards/redis_lock.py\<close>, \<open>cards/pointer_authority.py\<close>,
    \<open>cards/card_version_reservation.py\<close>, the pointer and marker operations of \<open>cards/store.py\<close>, the probe of \<open>cards/service.py\<close>, and the write guards of \<open>durable_io.py\<close>.
    The state is a record of the files, Redis, the tables and the context variables of every task; every await is a step.
  \<^item> \<open>Card_Frames\<close>: what these programs leave alone. \<open>Card_Updates\<close>: pointer updates serialize. \<open>Card_Fences\<close>: the newest claim prevails.
    \<open>Card_Types\<close>: the states stay well-formed. \<open>Card_Progress\<close>: an update that runs alone returns. \<open>Card_Refusals\<close>: how the local lock reports contention.
  \<^item> \<open>Host_Relay\<close>: SF \<open>host_relay/runtime.py\<close>, \<open>discovery.py\<close>, \<open>contracts.py\<close>.

  \<^bold>\<open>What is shown.\<close> For decisions: a recorded decision is final, a commit had every receipt and came before its expiry, begin is
  idempotent, a finish that returns has every participant's receipt, recovery leaves no row out, paging covers every row.
  For answers: one that verifies carries the HMAC under the shared key over exactly that request, and signing then verifying
  succeeds. For the wire format: round trip, and equal bytes exactly for equal values. For invocation policies: an invocation is dispatched at
  most once and a one-use policy used once per revision over every history of requests, faults and waits; dispatch happens exactly
  under the stated conditions; a prepared change blocks dispatch; an interrupted commit is completed by a retry. For nonces and
  states: claimed once, popped once, whatever happens in between. For account fences: in every interleaving of their single file
  operations a binding and a disconnect of one account do not both succeed, and a binding alone does. For card
  pointers: any number of updates under the Redis lock, with any faults and expired leases, act one after the other and none is
  lost; an operation with an older token can neither write nor stop the newest claimant; an update alone succeeds; rows, contexts and files stay
  well-formed in every interleaving of any programs made of the operations; the local lock hides contention.
  For the relay: bounds of its delays, and the outage after which it stops.

  \<^bold>\<open>Faults, time and concurrency.\<close> A file or Redis operation may fail before or after its effect (\<open>fault\<close>), chosen by an oracle that every
  theorem quantifies over. Calls under one lock, and single SQL transactions, are atomic steps; what other holders do
  while a call waits is an arbitrary change of state within \<open>progress\<close>. Clocks, token sources, UUIDs, participants, the settler
  of card transactions, secret stores, adapters, the check of a stored card receipt, the host's file lock, Redis lock helper and lock
  metadata, and \<open>str.isprintable\<close> are parameters. In the account fences and card pointers every file, Redis and SQL
  operation is a step of its own and other tasks run between any two of them.

  \<^bold>\<open>Bounds and fuel.\<close> The JSON reader's fuel is twice the length of the text plus two, which \<open>json_loads_fuel\<close> shows is never used up. The
  rounds of \<open>set_policy\<close> and \<open>prepare_policy_change\<close> are the two the code makes. The relay's loop is a partial function whose value
  is \<open>None\<close> when it runs for ever. Paging uses one page per row plus one, shown to be enough. Python's integers are unbounded
  (\<open>int\<close>); SHA-256 works on 32-bit words. The relay's floats are exact reals below the limit at which a double overflows.

  \<^bold>\<open>Not modelled.\<close> DDL and connection pools; the system calls under \<open>durable_io\<close> (temporary file, \<open>fsync\<close>, rename), its publish
  deadlines and deferred writes; non-finite floats; Python's recursion limit; log output. Of the repository: cards and controls apart from the
  account fences, mutation locks, rows, pointers and base reservations, OAuth endpoints, the
  delegated gateway, edges and resolver, remote MCP and A2A, caller authorization, the authority registry, the project board, the
  KDCube applications and the release scripts. They are orchestration of network, terminal and SQL I/O, or record shapes
  whose contracts lie in services outside the repository.
\<close>

end
